(* ===== verification/Prelude.thy ===== *)
theory Prelude
  imports
    "HOL-Library.Finite_Map"
    "HOL-Library.Char_ord"
    "HOL-Library.List_Lexorder"
    "HOL-Library.Word"
begin

text \<open>
  Shared vocabulary of the development.

  \<^item> Go values: strings are byte lists (\<^typ>\<open>string\<close>), so \<open>len\<close> is
    \<^const>\<open>length\<close> and \<open>sort.Strings\<close> is \<^const>\<open>sort\<close> under the bytewise
    lexicographic order; a \<open>map[string]string\<close> is a finite map; the zero-value read
    \<open>m[k]\<close> is \<open>golookup\<close>; \<open>strings.TrimSpace\<close> and the two fixed regular
    expressions the sources compile are written out on bytes.
  \<^item> Errors: a fallible operation returns \<open>'e + 'a\<close>, \<open>Inl\<close> being the error;
    \<open>bind_res\<close> and \<open>fold_res\<close> are the early return and the loop that stops at the
    first error.
  \<^item> SQL: a table is a list of rows in whatever order the server produces them, \<open>UPDATE\<close>
    is \<open>upd_where\<close>, \<open>COALESCE\<close> is \<open>coalesce\<close>, and conditions are evaluated in
    three-valued logic over \<^typ>\<open>bool option\<close>, \<^const>\<open>None\<close> being \<open>NULL\<close>.
  \<^item> Instants are integers, microseconds since Go's zero time, so \<open>IsZero\<close> is
    \<open>t = 0\<close> and \<open>UTC()\<close> is the identity.
\<close>

section \<open>Collections of facts\<close>

named_theorems go_eval \<open>equations that evaluate the Go helpers on literals\<close>
named_theorems frame \<open>which parts of the state an operation leaves alone\<close>
named_theorems keeps \<open>operations that keep the invariant of the store\<close>

section \<open>Types\<close>

type_synonym instant = int
type_synonym labels = "(string, string) fmap"

section \<open>Go strings and maps\<close>

definition golookup :: "labels \<Rightarrow> string \<Rightarrow> string" where
  "golookup m k = (case fmlookup m k of None \<Rightarrow> '''' | Some v \<Rightarrow> v)"

definition sorted_keys :: "('k::linorder, 'v) fmap \<Rightarrow> 'k list" where
  "sorted_keys m = sorted_list_of_fset (fmdom m)"

text \<open>The UTF-8 encodings of the code points with Unicode's \<open>White_Space\<close> property, which
  is what \<open>unicode.IsSpace\<close> accepts.\<close>

definition space_encodings :: "string list" where
  "space_encodings =
     [[CHR 0x09], [CHR 0x0A], [CHR 0x0B], [CHR 0x0C], [CHR 0x0D], [CHR 0x20],
      [CHR 0xC2, CHR 0x85], [CHR 0xC2, CHR 0xA0], [CHR 0xE1, CHR 0x9A, CHR 0x80],
      [CHR 0xE2, CHR 0x80, CHR 0x80], [CHR 0xE2, CHR 0x80, CHR 0x81],
      [CHR 0xE2, CHR 0x80, CHR 0x82], [CHR 0xE2, CHR 0x80, CHR 0x83],
      [CHR 0xE2, CHR 0x80, CHR 0x84], [CHR 0xE2, CHR 0x80, CHR 0x85],
      [CHR 0xE2, CHR 0x80, CHR 0x86], [CHR 0xE2, CHR 0x80, CHR 0x87],
      [CHR 0xE2, CHR 0x80, CHR 0x88], [CHR 0xE2, CHR 0x80, CHR 0x89],
      [CHR 0xE2, CHR 0x80, CHR 0x8A], [CHR 0xE2, CHR 0x80, CHR 0xA8],
      [CHR 0xE2, CHR 0x80, CHR 0xA9], [CHR 0xE2, CHR 0x80, CHR 0xAF],
      [CHR 0xE2, CHR 0x81, CHR 0x9F], [CHR 0xE3, CHR 0x80, CHR 0x80]]"

definition starts_with :: "string \<Rightarrow> string \<Rightarrow> bool" where
  "starts_with p s \<longleftrightarrow> take (length p) s = p"

text \<open>Drop leading occurrences of the given non-empty encodings.\<close>

fun drop_enc_fuel :: "nat \<Rightarrow> string list \<Rightarrow> string \<Rightarrow> string" where
  "drop_enc_fuel 0 es s = s"
| "drop_enc_fuel (Suc n) es s =
     (case find (\<lambda>e. starts_with e s) es of
        None \<Rightarrow> s
      | Some e \<Rightarrow> drop_enc_fuel n es (drop (length e) s))"

definition drop_enc :: "string list \<Rightarrow> string \<Rightarrow> string" where
  "drop_enc es s = drop_enc_fuel (length s) es s"

definition trimLeftSpace :: "string \<Rightarrow> string" where
  "trimLeftSpace s = drop_enc space_encodings s"

definition trimRightSpace :: "string \<Rightarrow> string" where
  "trimRightSpace s = rev (drop_enc (map rev space_encodings) (rev s))"

definition TrimSpace :: "string \<Rightarrow> string" where
  "TrimSpace s = trimRightSpace (trimLeftSpace s)"

definition is_lower :: "char \<Rightarrow> bool" where
  "is_lower c \<longleftrightarrow> CHR ''a'' \<le> c \<and> c \<le> CHR ''z''"

definition is_upper :: "char \<Rightarrow> bool" where
  "is_upper c \<longleftrightarrow> CHR ''A'' \<le> c \<and> c \<le> CHR ''Z''"

definition is_digit :: "char \<Rightarrow> bool" where
  "is_digit c \<longleftrightarrow> CHR ''0'' \<le> c \<and> c \<le> CHR ''9''"

text \<open>The regular expression \<open>^[a-zA-Z_][a-zA-Z0-9_]*$\<close>, which three packages compile.\<close>

fun label_name_pattern :: "string \<Rightarrow> bool" where
  "label_name_pattern [] = False"
| "label_name_pattern (c # cs) =
     ((is_lower c \<or> is_upper c \<or> c = CHR ''_'') \<and>
      list_all (\<lambda>d. is_lower d \<or> is_upper d \<or> is_digit d \<or> d = CHR ''_'') cs)"

text \<open>The regular expression \<open>^[a-z0-9][a-z0-9_-]{0,62}$\<close>.\<close>

fun slug_pattern :: "string \<Rightarrow> bool" where
  "slug_pattern [] = False"
| "slug_pattern (c # cs) =
     ((is_lower c \<or> is_digit c) \<and> length cs \<le> 62 \<and>
      list_all (\<lambda>d. is_lower d \<or> is_digit d \<or> d = CHR ''_'' \<or> d = CHR ''-'') cs)"

section \<open>Results\<close>

definition bind_res :: "'e + 'a \<Rightarrow> ('a \<Rightarrow> 'e + 'b) \<Rightarrow> 'e + 'b" where
  "bind_res r f = (case r of Inl e \<Rightarrow> Inl e | Inr x \<Rightarrow> f x)"

fun fold_res :: "('x \<Rightarrow> 's \<Rightarrow> 'e + 's) \<Rightarrow> 'x list \<Rightarrow> 's \<Rightarrow> 'e + 's" where
  "fold_res f [] s = Inr s"
| "fold_res f (x # xs) s = bind_res (f x s) (fold_res f xs)"

section \<open>SQL\<close>

definition coalesce :: "'a option \<Rightarrow> 'a option \<Rightarrow> 'a option" where
  "coalesce a b = (case a of None \<Rightarrow> b | Some x \<Rightarrow> Some x)"

definition upd_where :: "('r \<Rightarrow> bool) \<Rightarrow> ('r \<Rightarrow> 'r) \<Rightarrow> 'r list \<Rightarrow> 'r list" where
  "upd_where p f rows = map (\<lambda>r. if p r then f r else r) rows"

definition sql_not :: "bool option \<Rightarrow> bool option" where
  "sql_not a = map_option Not a"

definition sql_and :: "bool option \<Rightarrow> bool option \<Rightarrow> bool option" where
  "sql_and a b =
     (if a = Some False \<or> b = Some False then Some False
      else if a = None \<or> b = None then None else Some True)"

definition sql_or :: "bool option \<Rightarrow> bool option \<Rightarrow> bool option" where
  "sql_or a b =
     (if a = Some True \<or> b = Some True then Some True
      else if a = None \<or> b = None then None else Some False)"

definition sql_ands :: "bool option list \<Rightarrow> bool option" where
  "sql_ands cs = foldr sql_and cs (Some True)"

definition sql_ors :: "bool option list \<Rightarrow> bool option" where
  "sql_ors cs = foldr sql_or cs (Some False)"

text \<open>A row is selected when its condition is true, not when it is \<open>NULL\<close>.\<close>

definition sql_true :: "bool option \<Rightarrow> bool" where
  "sql_true c \<longleftrightarrow> c = Some True"

section \<open>Shared lemmas\<close>

lemma golookup_Some [simp]: "fmlookup m k = Some v \<Longrightarrow> golookup m k = v"
  by (simp add: golookup_def)

lemma golookup_None [simp]: "fmlookup m k = None \<Longrightarrow> golookup m k = ''''"
  by (simp add: golookup_def)

lemma set_sorted_keys [simp]: "set (sorted_keys m) = fset (fmdom m)"
  by (simp add: sorted_keys_def sorted_list_of_fset.rep_eq)

lemma sorted_sorted_keys [simp]: "sorted (sorted_keys m)"
  by (simp add: sorted_keys_def sorted_list_of_fset.rep_eq)

lemma distinct_sorted_keys [simp]: "distinct (sorted_keys m)"
  by (simp add: sorted_keys_def sorted_list_of_fset.rep_eq)

lemma bind_res_simps [simp]:
  "bind_res (Inl e) f = Inl e" "bind_res (Inr x) f = f x"
  by (simp_all add: bind_res_def)

lemma bind_res_Inr: "bind_res r f = Inr y \<longleftrightarrow> (\<exists>x. r = Inr x \<and> f x = Inr y)"
  by (cases r) auto

lemma bind_res_Inl: "bind_res r f = Inl e \<longleftrightarrow> r = Inl e \<or> (\<exists>x. r = Inr x \<and> f x = Inl e)"
  by (cases r) auto

text \<open>An invariant kept by every iteration holds after the loop.\<close>

lemma fold_res_invariant:
  assumes "fold_res f xs s = Inr s'" and "P s"
    and "\<And>x s s'. x \<in> set xs \<Longrightarrow> P s \<Longrightarrow> f x s = Inr s' \<Longrightarrow> P s'"
  shows "P s'"
  using assms
proof (induction xs arbitrary: s)
  case Nil
  then show ?case by simp
next
  case (Cons x xs)
  then obtain t where t: "f x s = Inr t" "fold_res f xs t = Inr s'"
    by (auto simp: bind_res_Inr)
  have "P t" using Cons.prems(2,3) t(1) by (meson list.set_intros(1))
  then show ?case using Cons.IH [OF t(2)] Cons.prems(3) by (meson list.set_intros(2))
qed

lemma fold_res_append:
  "fold_res f (xs @ ys) s = bind_res (fold_res f xs s) (fold_res f ys)"
  by (induction xs arbitrary: s) (auto simp: bind_res_def split: sum.splits)

text \<open>A loop whose every iteration succeeds under the invariant succeeds.\<close>

lemma fold_res_total:
  assumes "P s" and "\<And>x s. x \<in> set xs \<Longrightarrow> P s \<Longrightarrow> \<exists>s'. f x s = Inr s' \<and> P s'"
  shows "\<exists>s'. fold_res f xs s = Inr s' \<and> P s'"
  using assms
proof (induction xs arbitrary: s)
  case Nil
  then show ?case by simp
next
  case (Cons x xs)
  then obtain t where "f x s = Inr t" "P t" by (meson list.set_intros(1))
  with Cons.IH [of t] Cons.prems(2) show ?case by simp
qed

lemma coalesce_simps [simp]: "coalesce None b = b" "coalesce (Some x) b = Some x"
  by (simp_all add: coalesce_def)

lemma length_upd_where [simp]: "length (upd_where p f rows) = length rows"
  by (simp add: upd_where_def)

lemma set_upd_where: "set (upd_where p f rows) = (\<lambda>r. if p r then f r else r) ` set rows"
  by (simp add: upd_where_def)

lemma upd_where_cong_field:
  "(\<And>r. g (f r) = g r) \<Longrightarrow> map g (upd_where p f rows) = map g rows"
  by (simp add: upd_where_def)

lemma upd_where_id: "(\<And>r. r \<in> set rows \<Longrightarrow> p r \<Longrightarrow> f r = r) \<Longrightarrow> upd_where p f rows = rows"
  by (simp add: upd_where_def map_idI)

lemma sql_ands_Cons [simp]: "sql_ands (c # cs) = sql_and c (sql_ands cs)"
  and sql_ands_Nil [simp]: "sql_ands [] = Some True"
  by (simp_all add: sql_ands_def)

lemma sql_ors_Cons [simp]: "sql_ors (c # cs) = sql_or c (sql_ors cs)"
  and sql_ors_Nil [simp]: "sql_ors [] = Some False"
  by (simp_all add: sql_ors_def)

lemma sql_and_Some [simp]: "sql_and (Some a) (Some b) = Some (a \<and> b)"
  by (cases a; cases b) (simp_all add: sql_and_def)

lemma sql_or_Some [simp]: "sql_or (Some a) (Some b) = Some (a \<or> b)"
  by (cases a; cases b) (simp_all add: sql_or_def)

lemma sql_not_Some [simp]: "sql_not (Some a) = Some (\<not> a)"
  by (simp add: sql_not_def)

lemma sql_true_and [simp]: "sql_true (sql_and a b) \<longleftrightarrow> sql_true a \<and> sql_true b"
  by (auto simp: sql_true_def sql_and_def)

lemma sql_true_or [simp]: "sql_true (sql_or a b) \<longleftrightarrow> sql_true a \<or> sql_true b"
  by (auto simp: sql_true_def sql_or_def)

lemma sql_true_ands [simp]: "sql_true (sql_ands cs) \<longleftrightarrow> (\<forall>c \<in> set cs. sql_true c)"
  by (induction cs) (auto simp: sql_true_def [of "Some True"])

lemma sql_true_ors [simp]: "sql_true (sql_ors cs) \<longleftrightarrow> (\<exists>c \<in> set cs. sql_true c)"
  by (induction cs) (auto simp: sql_true_def [of "Some False"])

lemma sql_true_Some [simp]: "sql_true (Some b) \<longleftrightarrow> b"
  and sql_true_None [simp]: "\<not> sql_true None"
  by (simp_all add: sql_true_def)

lemmas trim_defs = TrimSpace_def trimLeftSpace_def trimRightSpace_def drop_enc_def
  space_encodings_def starts_with_def

end
