(* ===== verification/Alerts_Model.thy ===== *)
theory Alerts_Model
  imports Prelude
begin

text \<open>
  The data model of \<open>internal/alerts\<close>: alerts, queries, cursors, the view classification
  of \<open>view.go\<close>, the group-key validation of \<open>model.go\<close> and the label folding of
  \<open>silence.go\<close>.

  Regular expressions are matched by Go's \<open>regexp\<close> engine, a parameter
  \<open>rx\<close> of the definitions: \<open>rx p s\<close> is \<^const>\<open>None\<close> when \<open>p\<close> does not
  compile, otherwise whether \<open>p\<close> matches \<open>s\<close>. The digest behind a cursor identity
  (\<open>json.Marshal\<close> followed by \<open>sha256\<close>) is the parameter \<open>digest\<close>.
\<close>

section \<open>Data\<close>

type_synonym regex = "string \<Rightarrow> string \<Rightarrow> bool option"

datatype SourceStatus = StatusFiring | StatusResolved | StatusExpired

datatype BulkStatus = BulkApplied | BulkUnchanged | BulkNotFound

record BulkOutcome =
  outcome_ID :: int
  outcome_Status :: BulkStatus

datatype ViewMatch = ViewMatchNone | ViewMatchView | ViewMatchCritical | ViewMatchOutside

text \<open>The columns of the table \<open>alerts\<close>: the stored half of \<open>alerts.Alert\<close>, with the
  column \<open>reconciled_at\<close> that only the store reads.\<close>

record alert_row =
  ID :: int
  SourceSlug :: string
  Fingerprint :: string
  Status :: SourceStatus
  Labels :: labels
  Annotations :: labels
  StartsAt :: instant
  EndsAt :: "instant option"
  GeneratorURL :: string
  ExternalURL :: string
  FirstSeen :: instant
  LastSeen :: instant
  RepeatCount :: int
  Occurrence :: int
  Acknowledged :: bool
  AcknowledgedAt :: "instant option"
  AcknowledgedBy :: string
  Suppressed :: bool
  SilencedBy :: "string list"
  AssignedTo :: string
  AssignedAt :: "instant option"
  AssignedBy :: string
  Closed :: bool
  ClosedAt :: "instant option"
  ClosedBy :: string
  ReconciledAt :: "instant option"
  RawData :: string

text \<open>An alert as it is returned: the columns and the two fields computed on reading.\<close>

record Alert = alert_row +
  NoteCount :: nat
  AlertViewMatch :: ViewMatch

record LabelMatcher =
  matcher_Name :: string
  matcher_Operator :: string
  matcher_Value :: string

record Cursor =
  cursor_LastSeen :: instant
  cursor_ID :: int
  cursor_Sort :: string
  cursor_Order :: string
  cursor_Query :: string
  cursor_Value :: string

record GroupCursor =
  gcursor_SeverityRank :: int
  gcursor_LatestLastSeen :: instant
  gcursor_Key :: "string list"
  gcursor_Sort :: string
  gcursor_Order :: string
  gcursor_Value :: string
  gcursor_Query :: string

record ViewOptions =
  ShowAll :: bool
  FilterCritical :: bool

record ViewSummary =
  view_Active :: bool
  view_ShowingAll :: bool
  view_Hidden :: nat
  view_CriticalBypass :: bool

record Query =
  query_Limit :: int
  query_Cursor :: "Cursor option"
  query_Source :: string
  query_Status :: string
  query_Severity :: string
  query_Team :: string
  query_Suppressed :: "bool option"
  query_Closed :: "bool option"
  query_Matches :: "LabelMatcher list"
  query_Sort :: string
  query_Order :: string
  query_View :: "ViewOptions option"
  query_GroupBy :: "string list"
  query_GroupCursor :: "GroupCursor option"

record SilenceTarget =
  target_Source :: string
  target_AlertmanagerURL :: string
  target_AlertmanagerToken :: string
  target_Labels :: labels
  target_Members :: nat

record SilenceScope =
  scope_Labels :: labels
  scope_Targets :: "SilenceTarget list"

record SilenceMatcher =
  sm_Name :: string
  sm_Value :: string
  sm_IsRegex :: bool
  sm_IsEqual :: bool

record SilenceRecord =
  rec_Source :: string
  rec_SilenceID :: string
  rec_Matchers :: labels
  rec_CreatedBy :: string
  rec_Comment :: string
  rec_StartsAt :: instant
  rec_EndsAt :: instant
  rec_State :: string
  rec_MatcherList :: "SilenceMatcher list"

record Note =
  note_ID :: int
  note_Occurrence :: int
  note_Author :: string
  note_Body :: string
  note_CreatedAt :: instant

record HistoryEvent =
  hist_ID :: int
  hist_Occurrence :: int
  hist_Type :: string
  hist_SourceStatus :: SourceStatus
  hist_Actor :: string
  hist_Message :: string
  hist_OccurredAt :: instant

record StreamEvent =
  event_ID :: int
  event_Type :: string
  event_AlertID :: int
  event_OccurredAt :: instant
  event_Severity :: string
  event_AlertName :: string
  event_Summary :: string
  event_SourceSlug :: string
  event_Team :: string
  event_Labels :: labels
  event_PreviousLabels :: "labels option"
  event_Redacted :: bool
  event_ViewMatch :: ViewMatch

record StreamBatch =
  batch_Events :: "StreamEvent list"
  batch_ScannedThrough :: int
  batch_RetainedFrom :: int

section \<open>Group keys\<close>

definition MaxGroupKeys :: nat where
  "MaxGroupKeys = 3"

datatype group_by_error =
  GroupByEmpty | GroupByTooMany | CannotGroupBy string | DuplicateGroupKey string

definition IsGroupKey :: "string \<Rightarrow> bool" where
  "IsGroupKey name \<longleftrightarrow> name = ''source'' \<or> label_name_pattern name"

fun validate_keys :: "string list \<Rightarrow> string set \<Rightarrow> group_by_error + unit" where
  "validate_keys [] seen = Inr ()"
| "validate_keys (key # keys) seen =
     (if \<not> IsGroupKey key then Inl (CannotGroupBy key)
      else if key \<in> seen then Inl (DuplicateGroupKey key)
      else validate_keys keys (insert key seen))"

definition ValidateGroupBy :: "string list \<Rightarrow> group_by_error + unit" where
  "ValidateGroupBy groupBy =
     (if groupBy = [] then Inl GroupByEmpty
      else if length groupBy > MaxGroupKeys then Inl GroupByTooMany
      else validate_keys groupBy {})"

section \<open>Views\<close>

definition format_bool :: "bool \<Rightarrow> string" where
  "format_bool b = (if b then ''true'' else ''false'')"

definition Signature :: "ViewOptions option \<Rightarrow> string" where
  "Signature options =
     (case options of
        None \<Rightarrow> ''''
      | Some opts \<Rightarrow> ''all='' @ format_bool (ShowAll opts) @
          '',filterCritical='' @ format_bool (FilterCritical opts))"

text \<open>The operator switch shared by \<open>MatchViewGroups\<close>, \<open>CanReadLabels\<close> and
  \<open>CanOperateLabels\<close>. A pattern that does not compile matches nothing, so its negation
  matches everything: the error of \<open>regexp.MatchString\<close> is discarded.\<close>

definition match_operator :: "regex \<Rightarrow> LabelMatcher \<Rightarrow> string \<Rightarrow> bool" where
  "match_operator rx m value =
     (if matcher_Operator m = ''='' then value = matcher_Value m
      else if matcher_Operator m = ''!='' then value \<noteq> matcher_Value m
      else if matcher_Operator m = ''=~'' then rx (matcher_Value m) value = Some True
      else if matcher_Operator m = ''!~'' then rx (matcher_Value m) value \<noteq> Some True
      else False)"

text \<open>The inner loop over one conjunction, which stops at the first matcher that fails.\<close>

fun match_all :: "regex \<Rightarrow> LabelMatcher list \<Rightarrow> labels \<Rightarrow> bool" where
  "match_all rx [] labels = True"
| "match_all rx (m # ms) labels =
     (case fmlookup labels (matcher_Name m) of
        None \<Rightarrow> False
      | Some value \<Rightarrow> if match_operator rx m value then match_all rx ms labels else False)"

fun MatchViewGroups :: "regex \<Rightarrow> LabelMatcher list list \<Rightarrow> labels \<Rightarrow> bool" where
  "MatchViewGroups rx [] labels = False"
| "MatchViewGroups rx (grp # groups) labels =
     (if grp \<noteq> [] \<and> match_all rx grp labels then True
      else MatchViewGroups rx groups labels)"

definition IsCritical :: "labels \<Rightarrow> bool" where
  "IsCritical labels =
     (case fmlookup labels ''severity'' of
        None \<Rightarrow> False
      | Some severity \<Rightarrow> if severity = '''' then False else severity = ''critical'')"

definition ClassifyView ::
  "regex \<Rightarrow> LabelMatcher list list \<Rightarrow> ViewOptions \<Rightarrow> labels \<Rightarrow> ViewMatch" where
  "ClassifyView rx groups options labels =
     (if MatchViewGroups rx groups labels then ViewMatchView
      else if \<not> FilterCritical options \<and> IsCritical labels then ViewMatchCritical
      else ViewMatchOutside)"

section \<open>Cursor identity\<close>

definition DefaultSort :: string where
  "DefaultSort = ''lastSeen''"

definition DefaultOrder :: string where
  "DefaultOrder = ''desc''"

text \<open>The struct that \<open>CursorIdentity\<close> marshals, in its field order.\<close>

record identity_payload =
  ip_Source :: string
  ip_Status :: string
  ip_Severity :: string
  ip_Team :: string
  ip_Suppressed :: "bool option"
  ip_Matches :: "LabelMatcher list"
  ip_GroupBy :: "string list"
  ip_Sort :: string
  ip_Order :: string
  ip_View :: string

definition cursor_payload :: "Query \<Rightarrow> identity_payload" where
  "cursor_payload query =
     \<lparr>ip_Source = query_Source query, ip_Status = query_Status query,
      ip_Severity = query_Severity query, ip_Team = query_Team query,
      ip_Suppressed = query_Suppressed query, ip_Matches = query_Matches query,
      ip_GroupBy = query_GroupBy query, ip_Sort = query_Sort query,
      ip_Order = query_Order query, ip_View = Signature (query_View query)\<rparr>"

definition CursorIdentity :: "(identity_payload \<Rightarrow> string) \<Rightarrow> Query \<Rightarrow> string" where
  "CursorIdentity digest query = digest (cursor_payload query)"

section \<open>Silence scopes\<close>

text \<open>Folding one more target into the labels found so far: the loop body of
  \<open>CommonLabels\<close> for \<open>index > 0\<close>, which deletes every label the target does not
  carry with the same value.\<close>

definition common_step :: "labels \<Rightarrow> SilenceTarget \<Rightarrow> labels" where
  "common_step common target =
     fmfilter (\<lambda>name. fmlookup (target_Labels target) name = fmlookup common name) common"

fun CommonLabels :: "SilenceTarget list \<Rightarrow> labels" where
  "CommonLabels [] = fmempty"
| "CommonLabels (target # targets) = foldl common_step (target_Labels target) targets"

section \<open>Lemmas\<close>

lemma match_all_iff:
  "match_all rx ms labels \<longleftrightarrow>
     (\<forall>m \<in> set ms. \<exists>v. fmlookup labels (matcher_Name m) = Some v \<and> match_operator rx m v)"
  by (induction ms) (auto split: option.splits)

lemma MatchViewGroups_iff:
  "MatchViewGroups rx groups labels \<longleftrightarrow>
     (\<exists>g \<in> set groups. g \<noteq> [] \<and> match_all rx g labels)"
  by (induction groups) auto

lemma IsCritical_iff: "IsCritical labels \<longleftrightarrow> fmlookup labels ''severity'' = Some ''critical''"
  by (auto simp: IsCritical_def split: option.splits)

lemma ClassifyView_outside:
  "ClassifyView rx groups options labels = ViewMatchOutside \<longleftrightarrow>
     \<not> MatchViewGroups rx groups labels \<and> (FilterCritical options \<or> \<not> IsCritical labels)"
  by (auto simp: ClassifyView_def)

lemma validate_keys_ok:
  "validate_keys keys seen = Inr () \<longleftrightarrow>
     distinct keys \<and> set keys \<inter> seen = {} \<and> (\<forall>k \<in> set keys. IsGroupKey k)"
  by (induction keys arbitrary: seen) auto

lemma ValidateGroupBy_ok:
  "ValidateGroupBy keys = Inr () \<longleftrightarrow>
     keys \<noteq> [] \<and> length keys \<le> MaxGroupKeys \<and> distinct keys \<and> (\<forall>k \<in> set keys. IsGroupKey k)"
  by (auto simp: ValidateGroupBy_def validate_keys_ok)

lemma Signature_inject: "Signature a = Signature b \<longleftrightarrow> a = b"
proof -
  have "Signature (Some x) \<noteq> ''''" for x by (simp add: Signature_def)
  moreover have "Signature (Some x) = Signature (Some y) \<Longrightarrow> x = y" for x y
    by (cases x; cases y) (auto simp: Signature_def format_bool_def split: if_splits)
  ultimately show ?thesis
    by (cases a; cases b) (auto simp: Signature_def)
qed

lemma fmlookup_common_step:
  "fmlookup (common_step c t) n = Some v \<longleftrightarrow>
     fmlookup c n = Some v \<and> fmlookup (target_Labels t) n = Some v"
  by (auto simp: common_step_def)

lemma fmlookup_foldl_common_step:
  "fmlookup (foldl common_step c ts) n = Some v \<longleftrightarrow>
     fmlookup c n = Some v \<and> (\<forall>t \<in> set ts. fmlookup (target_Labels t) n = Some v)"
  by (induction ts arbitrary: c) (auto simp: fmlookup_common_step)

lemma fmlookup_CommonLabels:
  "fmlookup (CommonLabels ts) n = Some v \<longleftrightarrow>
     ts \<noteq> [] \<and> (\<forall>t \<in> set ts. fmlookup (target_Labels t) n = Some v)"
  by (cases ts) (auto simp: fmlookup_foldl_common_step)

end
