(* ===== verification/Alertmanager.thy ===== *)
theory Alertmanager
  imports Alerts_Model
begin

text \<open>
  The package \<open>internal/alertmanager\<close>: the webhook payload, its validation and
  normalisation and the label fingerprint (\<open>payload.go\<close>); the live-alert reading
  (\<open>client.go\<close>); silences written and listed (\<open>silence.go\<close>, \<open>silence_list.go\<close>).

  Parameters standing for code outside the package: \<open>sha256\<close> (the digest, bytes to
  bytes), \<open>marshal\<close> (\<open>json.Marshal\<close> of an alert) and \<open>do_http\<close>, the HTTP round
  trip, which yields a transport error or a status code and the decoded body. JSON decoding
  enters as its outcome: the decoded value or an error.
\<close>

section \<open>Webhook payload\<close>

record am_alert =
  am_Status :: string
  am_Labels :: labels
  am_Annotations :: labels
  am_StartsAt :: instant
  am_EndsAt :: instant
  am_GeneratorURL :: string
  am_Fingerprint :: string

record Payload =
  pl_Version :: string
  pl_GroupKey :: string
  pl_Status :: string
  pl_Receiver :: string
  pl_GroupLabels :: labels
  pl_CommonLabels :: labels
  pl_CommonAnnotations :: labels
  pl_ExternalURL :: string
  pl_Alerts :: "am_alert list"

text \<open>A normalised delivery. \<open>Status\<close> is a string on the wire; validation leaves
  \<open>firing\<close> and \<open>resolved\<close> only, and the store builds values with the status
  \<open>expired\<close>, so it is held as a \<^typ>\<open>SourceStatus\<close>.\<close>

record IncomingAlert =
  in_SourceSlug :: string
  in_Fingerprint :: string
  in_Status :: SourceStatus
  in_Labels :: labels
  in_Annotations :: labels
  in_StartsAt :: instant
  in_EndsAt :: instant
  in_GeneratorURL :: string
  in_ExternalURL :: string
  in_ReceivedAt :: instant
  in_RawData :: string

datatype alert_error = StatusInvalid | LabelsRequired | AlertnameRequired | StartsAtRequired

datatype decode_error =
  DecodeFailed string | MultipleValues | TrailingData string | NoAlerts | AlertInvalid nat alert_error

text \<open>What the second \<open>decoder.Decode\<close> reports: the end of the input, another value, or an
  error.\<close>

datatype trailing = TrailEOF | TrailValue | TrailError string

definition validateAlert :: "am_alert \<Rightarrow> alert_error + unit" where
  "validateAlert alert =
     (if am_Status alert \<noteq> ''firing'' \<and> am_Status alert \<noteq> ''resolved'' then Inl StatusInvalid
      else if am_Labels alert = fmempty then Inl LabelsRequired
      else if TrimSpace (golookup (am_Labels alert) ''alertname'') = '''' then Inl AlertnameRequired
      else if am_StartsAt alert = 0 then Inl StartsAtRequired
      else Inr ())"

fun validate_alerts :: "nat \<Rightarrow> am_alert list \<Rightarrow> decode_error + unit" where
  "validate_alerts i [] = Inr ()"
| "validate_alerts i (a # as) =
     (case validateAlert a of
        Inl e \<Rightarrow> Inl (AlertInvalid i e)
      | Inr u \<Rightarrow> validate_alerts (Suc i) as)"

definition Decode :: "string + Payload \<Rightarrow> trailing \<Rightarrow> decode_error + Payload" where
  "Decode first second =
     (case first of
        Inl e \<Rightarrow> Inl (DecodeFailed e)
      | Inr payload \<Rightarrow>
          (case second of
             TrailValue \<Rightarrow> Inl MultipleValues
           | TrailError e \<Rightarrow> Inl (TrailingData e)
           | TrailEOF \<Rightarrow>
               if pl_Alerts payload = [] then Inl NoAlerts
               else (case validate_alerts 0 (pl_Alerts payload) of
                       Inl e \<Rightarrow> Inl e
                     | Inr u \<Rightarrow> Inr payload)))"

text \<open>The bytes written to the digest: every key in sorted order and its value, each ended by
  a zero byte.\<close>

definition writeFingerprintPart :: "string \<Rightarrow> string \<Rightarrow> string" where
  "writeFingerprintPart written value = written @ value @ [CHR 0x00]"

definition fingerprint_bytes :: "labels \<Rightarrow> string" where
  "fingerprint_bytes labels =
     foldl (\<lambda>written key. writeFingerprintPart (writeFingerprintPart written key)
                                              (golookup labels key))
       [] (sorted_keys labels)"

definition hex_digit :: "nat \<Rightarrow> char" where
  "hex_digit n = ''0123456789abcdef'' ! n"

definition EncodeToString :: "string \<Rightarrow> string" where
  "EncodeToString bytes =
     concat (map (\<lambda>c. [hex_digit (of_char c div 16), hex_digit (of_char c mod 16)]) bytes)"

definition fingerprintLabels :: "(string \<Rightarrow> string) \<Rightarrow> labels \<Rightarrow> string" where
  "fingerprintLabels sha256 labels = EncodeToString (sha256 (fingerprint_bytes labels))"

definition cloneMap :: "labels \<Rightarrow> labels" where
  "cloneMap source = fmap_of_list (map (\<lambda>k. (k, golookup source k)) (sorted_keys source))"

definition status_of :: "string \<Rightarrow> SourceStatus" where
  "status_of s =
     (if s = ''firing'' then StatusFiring else if s = ''resolved'' then StatusResolved
      else StatusExpired)"

definition normalize_alert ::
  "(string \<Rightarrow> string) \<Rightarrow> (am_alert \<Rightarrow> string) \<Rightarrow> Payload \<Rightarrow> string \<Rightarrow> instant \<Rightarrow>
   am_alert \<Rightarrow> IncomingAlert" where
  "normalize_alert sha256 marshal payload sourceSlug receivedAt alert =
     \<lparr>in_SourceSlug = sourceSlug,
      in_Fingerprint = (if am_Fingerprint alert = '''' then fingerprintLabels sha256 (am_Labels alert)
                        else am_Fingerprint alert),
      in_Status = status_of (am_Status alert),
      in_Labels = cloneMap (am_Labels alert),
      in_Annotations = cloneMap (am_Annotations alert),
      in_StartsAt = am_StartsAt alert,
      in_EndsAt = am_EndsAt alert,
      in_GeneratorURL = am_GeneratorURL alert,
      in_ExternalURL = pl_ExternalURL payload,
      in_ReceivedAt = receivedAt,
      in_RawData = marshal alert\<rparr>"

definition Normalize ::
  "(string \<Rightarrow> string) \<Rightarrow> (am_alert \<Rightarrow> string) \<Rightarrow> Payload \<Rightarrow> string \<Rightarrow> instant \<Rightarrow>
   IncomingAlert list" where
  "Normalize sha256 marshal payload sourceSlug receivedAt =
     map (normalize_alert sha256 marshal payload sourceSlug receivedAt) (pl_Alerts payload)"

section \<open>Reading the Alertmanager\<close>

record LiveAlert =
  live_Fingerprint :: string
  live_Suppressed :: bool
  live_SilencedBy :: "string list"

record live_item =
  li_Fingerprint :: string
  li_State :: string
  li_SilencedBy :: "string list option"

datatype client_error =
  Transport string | HTTPStatus int | DecodeBody string | MissingFingerprint | MissingSilenceID
| NoMatcher | NoAuthor | WindowEmpty | SilenceIDRequired | NoIDReturned

fun live_items :: "live_item list \<Rightarrow> client_error + LiveAlert list" where
  "live_items [] = Inr []"
| "live_items (item # items) =
     (if li_Fingerprint item = '''' then Inl MissingFingerprint
      else (case live_items items of
              Inl e \<Rightarrow> Inl e
            | Inr rest \<Rightarrow> Inr (\<lparr>live_Fingerprint = li_Fingerprint item,
                                live_Suppressed = (li_State item = ''suppressed''),
                                live_SilencedBy = (case li_SilencedBy item of
                                                     None \<Rightarrow> [] | Some ids \<Rightarrow> ids)\<rparr> # rest)))"

type_synonym 'b http_reply = "string + int \<times> (string + 'b)"

definition StatusOK :: int where "StatusOK = 200"
definition StatusCreated :: int where "StatusCreated = 201"
definition StatusNoContent :: int where "StatusNoContent = 204"
definition StatusNotFound :: int where "StatusNotFound = 404"

definition TrimSuffixSlash :: "string \<Rightarrow> string" where
  "TrimSuffixSlash s = (if s \<noteq> [] \<and> last s = CHR ''/'' then butlast s else s)"

definition LiveAlerts ::
  "(string \<Rightarrow> live_item list http_reply) \<Rightarrow> string \<Rightarrow> client_error + LiveAlert list" where
  "LiveAlerts get baseURL =
     (case get (TrimSuffixSlash baseURL @ ''/api/v2/alerts?active=true&silenced=true&inhibited=true'') of
        Inl e \<Rightarrow> Inl (Transport e)
      | Inr (status, body) \<Rightarrow>
          if status \<noteq> StatusOK then Inl (HTTPStatus status)
          else (case body of Inl e \<Rightarrow> Inl (DecodeBody e) | Inr items \<Rightarrow> live_items items))"

section \<open>Silences\<close>

record Matcher =
  mt_Name :: string
  mt_Value :: string
  mt_IsRegex :: bool
  mt_IsEqual :: bool

record Silence =
  sil_Matchers :: "Matcher list"
  sil_StartsAt :: instant
  sil_EndsAt :: instant
  sil_CreatedBy :: string
  sil_Comment :: string

definition MatchersFromLabels :: "labels \<Rightarrow> Matcher list" where
  "MatchersFromLabels labels =
     map (\<lambda>name. \<lparr>mt_Name = name, mt_Value = golookup labels name, mt_IsRegex = False,
                   mt_IsEqual = True\<rparr>) (sorted_keys labels)"

definition validateSilence :: "Silence \<Rightarrow> client_error + unit" where
  "validateSilence silence =
     (if sil_Matchers silence = [] then Inl NoMatcher
      else if sil_CreatedBy silence = '''' then Inl NoAuthor
      else if \<not> sil_EndsAt silence > sil_StartsAt silence then Inl WindowEmpty
      else Inr ())"

text \<open>The request \<open>CreateSilence\<close> posts; \<open>time.RFC3339\<close> keeps whole seconds.\<close>

record silence_post =
  post_URL :: string
  post_Authorization :: "string option"
  post_Matchers :: "Matcher list"
  post_StartsAt :: int
  post_EndsAt :: int
  post_CreatedBy :: string
  post_Comment :: string

definition rfc3339_seconds :: "instant \<Rightarrow> int" where
  "rfc3339_seconds t = t div 1000000"

definition bearer_header :: "string \<Rightarrow> string option" where
  "bearer_header token = (if token = '''' then None else Some (''Bearer '' @ token))"

definition silence_request :: "string \<Rightarrow> string \<Rightarrow> Silence \<Rightarrow> silence_post" where
  "silence_request baseURL token silence =
     \<lparr>post_URL = TrimSuffixSlash baseURL @ ''/api/v2/silences'',
      post_Authorization = bearer_header token,
      post_Matchers = sil_Matchers silence,
      post_StartsAt = rfc3339_seconds (sil_StartsAt silence),
      post_EndsAt = rfc3339_seconds (sil_EndsAt silence),
      post_CreatedBy = sil_CreatedBy silence,
      post_Comment = sil_Comment silence\<rparr>"

text \<open>\<open>CreateSilence\<close> returns the requests it sent along with the result, so that what
  reaches an Alertmanager can be stated.\<close>

definition CreateSilence ::
  "(silence_post \<Rightarrow> string http_reply) \<Rightarrow> string \<Rightarrow> string \<Rightarrow> Silence \<Rightarrow>
   silence_post list \<times> (client_error + string)" where
  "CreateSilence do_http baseURL token silence =
     (case validateSilence silence of
        Inl e \<Rightarrow> ([], Inl e)
      | Inr u \<Rightarrow>
          (let request = silence_request baseURL token silence in
           ([request],
            case do_http request of
              Inl e \<Rightarrow> Inl (Transport e)
            | Inr (status, body) \<Rightarrow>
                if status \<noteq> StatusOK \<and> status \<noteq> StatusCreated then Inl (HTTPStatus status)
                else (case body of
                        Inl e \<Rightarrow> Inl (DecodeBody e)
                      | Inr silenceID \<Rightarrow>
                          if silenceID = '''' then Inl NoIDReturned else Inr silenceID))))"

definition DeleteSilence ::
  "(string \<times> string option \<Rightarrow> unit http_reply) \<Rightarrow> (string \<Rightarrow> string) \<Rightarrow> string \<Rightarrow> string \<Rightarrow> string \<Rightarrow>
   client_error + unit" where
  "DeleteSilence do_http pathEscape baseURL token silenceID =
     (if TrimSpace silenceID = '''' then Inl SilenceIDRequired
      else (case do_http (TrimSuffixSlash baseURL @ ''/api/v2/silence/'' @ pathEscape silenceID,
                          bearer_header token) of
              Inl e \<Rightarrow> Inl (Transport e)
            | Inr (status, body) \<Rightarrow>
                if status = StatusOK \<or> status = StatusNoContent \<or> status = StatusNotFound
                then Inr () else Inl (HTTPStatus status)))"

section \<open>Listing silences\<close>

record ListedSilence =
  ls_ID :: string
  ls_State :: string
  ls_Matchers :: "Matcher list"
  ls_StartsAt :: instant
  ls_EndsAt :: instant
  ls_CreatedBy :: string
  ls_Comment :: string

record matcher_item =
  mi_Name :: string
  mi_Value :: string
  mi_IsRegex :: bool
  mi_IsEqual :: "bool option"

record silence_item =
  si_ID :: string
  si_State :: string
  si_Matchers :: "matcher_item list"
  si_StartsAt :: instant
  si_EndsAt :: instant
  si_CreatedBy :: string
  si_Comment :: string

definition SilenceStateActive :: string where
  "SilenceStateActive = ''active''"

definition listed_matcher :: "matcher_item \<Rightarrow> Matcher" where
  "listed_matcher m =
     \<lparr>mt_Name = mi_Name m, mt_Value = mi_Value m, mt_IsRegex = mi_IsRegex m,
      mt_IsEqual = (case mi_IsEqual m of None \<Rightarrow> True | Some b \<Rightarrow> b)\<rparr>"

fun listed_silences :: "silence_item list \<Rightarrow> client_error + ListedSilence list" where
  "listed_silences [] = Inr []"
| "listed_silences (item # items) =
     (if si_ID item = '''' then Inl MissingSilenceID
      else (case listed_silences items of
              Inl e \<Rightarrow> Inl e
            | Inr rest \<Rightarrow>
                Inr (\<lparr>ls_ID = si_ID item, ls_State = si_State item,
                      ls_Matchers = map listed_matcher (si_Matchers item),
                      ls_StartsAt = si_StartsAt item, ls_EndsAt = si_EndsAt item,
                      ls_CreatedBy = si_CreatedBy item, ls_Comment = si_Comment item\<rparr> # rest)))"

definition ListSilences ::
  "(string \<Rightarrow> silence_item list http_reply) \<Rightarrow> string \<Rightarrow> client_error + ListedSilence list" where
  "ListSilences get baseURL =
     (case get (TrimSuffixSlash baseURL @ ''/api/v2/silences'') of
        Inl e \<Rightarrow> Inl (Transport e)
      | Inr (status, body) \<Rightarrow>
          if status \<noteq> StatusOK then Inl (HTTPStatus status)
          else (case body of Inl e \<Rightarrow> Inl (DecodeBody e) | Inr items \<Rightarrow> listed_silences items))"

fun ActiveSilenceIDs :: "ListedSilence list \<Rightarrow> string set" where
  "ActiveSilenceIDs [] = {}"
| "ActiveSilenceIDs (s # ss) =
     (if ls_State s = SilenceStateActive then insert (ls_ID s) (ActiveSilenceIDs ss)
      else ActiveSilenceIDs ss)"

text \<open>Label sets without NUL bytes, and the encoding of the digest input as a list of parts.\<close>

definition nul_free :: "labels \<Rightarrow> bool" where
  "nul_free labels \<longleftrightarrow>
     (\<forall>k \<in> fset (fmdom labels). CHR 0x00 \<notin> set k \<and> CHR 0x00 \<notin> set (golookup labels k))"

definition nul_join :: "string list \<Rightarrow> string" where
  "nul_join parts = concat (map (\<lambda>p. p @ [CHR 0x00]) parts)"

definition key_values :: "labels \<Rightarrow> string list \<Rightarrow> string list" where
  "key_values labels keys = concat (map (\<lambda>k. [k, golookup labels k]) keys)"

section \<open>Lemmas\<close>

subsection \<open>The fingerprint encoding\<close>

lemma nul_join_simps [simp]:
  "nul_join [] = []" "nul_join (p # ps) = p @ CHR 0x00 # nul_join ps"
  by (simp_all add: nul_join_def)

lemma append_nul_inject:
  assumes "CHR 0x00 \<notin> set p" "CHR 0x00 \<notin> set q"
  shows "p @ CHR 0x00 # xs = q @ CHR 0x00 # ys \<longleftrightarrow> p = q \<and> xs = ys"
  using assms
proof (induction p arbitrary: q)
  case Nil
  then show ?case by (cases q) auto
next
  case (Cons c cs)
  then show ?case by (cases q) auto
qed

lemma nul_join_inject:
  assumes "\<forall>p \<in> set ps. CHR 0x00 \<notin> set p" "\<forall>q \<in> set qs. CHR 0x00 \<notin> set q"
  shows "nul_join ps = nul_join qs \<longleftrightarrow> ps = qs"
  using assms
proof (induction ps arbitrary: qs)
  case Nil
  then show ?case by (cases qs) auto
next
  case (Cons p ps)
  then show ?case by (cases qs) (auto simp: append_nul_inject)
qed

lemma foldl_fingerprint:
  "foldl (\<lambda>written key. writeFingerprintPart (writeFingerprintPart written key) (golookup labels key))
     w keys = w @ nul_join (key_values labels keys)"
  by (induction keys arbitrary: w) (simp_all add: writeFingerprintPart_def key_values_def)

lemma fingerprint_bytes_join:
  "fingerprint_bytes labels = nul_join (key_values labels (sorted_keys labels))"
  by (simp add: fingerprint_bytes_def foldl_fingerprint)

lemma key_values_inject:
  "key_values l ks = key_values m js \<longleftrightarrow>
     ks = js \<and> (\<forall>k \<in> set ks. golookup l k = golookup m k)"
  by (induction ks js rule: list_induct2') (auto simp: key_values_def)

lemma labels_eqI:
  assumes "fmdom l = fmdom m" "\<And>k. k \<in> fset (fmdom l) \<Longrightarrow> golookup l k = golookup m k"
  shows "l = m"
proof (rule fmap_ext)
  fix k
  show "fmlookup l k = fmlookup m k"
  proof (cases "k \<in> fset (fmdom l)")
    case True
    with assms(1) obtain v w where "fmlookup l k = Some v" "fmlookup m k = Some w"
      by (metis fmlookup_dom_iff)
    with assms(2) [OF True] show ?thesis by simp
  next
    case False
    then show ?thesis using assms(1) by (metis fmdom_notD)
  qed
qed

lemma sorted_keys_eq: "sorted_keys l = sorted_keys m \<Longrightarrow> fmdom l = fmdom m"
  by (metis fset_inject set_sorted_keys)

lemma fingerprint_bytes_inject:
  assumes "nul_free l" "nul_free m"
  shows "fingerprint_bytes l = fingerprint_bytes m \<longleftrightarrow> l = m"
proof
  assume eq: "fingerprint_bytes l = fingerprint_bytes m"
  have free: "\<forall>p \<in> set (key_values n (sorted_keys n)). CHR 0x00 \<notin> set p" if "nul_free n" for n
    using that by (auto simp: key_values_def nul_free_def)
  from eq have "key_values l (sorted_keys l) = key_values m (sorted_keys m)"
    using nul_join_inject [OF free [OF assms(1)] free [OF assms(2)]]
    by (simp add: fingerprint_bytes_join)
  then have keys: "sorted_keys l = sorted_keys m"
    and vals: "\<forall>k \<in> fset (fmdom l). golookup l k = golookup m k"
    by (simp_all add: key_values_inject)
  show "l = m" by (rule labels_eqI [OF sorted_keys_eq [OF keys]]) (simp add: vals)
qed simp

lemma hex_digit_inject:
  assumes "m < 16" "n < 16" shows "hex_digit m = hex_digit n \<longleftrightarrow> m = n"
proof -
  have "distinct ''0123456789abcdef''" by simp
  moreover have "length ''0123456789abcdef'' = 16" by simp
  ultimately show ?thesis using assms by (metis hex_digit_def nth_eq_iff_index_eq)
qed

lemma of_char_eq_divmod:
  "(of_char c :: nat) div 16 = of_char d div 16 \<and> (of_char c :: nat) mod 16 = of_char d mod 16
     \<longleftrightarrow> c = d"
  by (metis div_mult_mod_eq of_char_eq_iff)

lemma EncodeToString_inject: "EncodeToString a = EncodeToString b \<longleftrightarrow> a = b"
proof (induction a b rule: list_induct2')
  case (4 c cs d ds)
  have "(of_char x :: nat) < 16 * 16" for x :: char
    using nat_of_char_less_256 [of x] by simp
  then have div: "(of_char x :: nat) div 16 < 16" for x :: char
    by (rule less_mult_imp_div_less)
  have "hex_digit (of_char c div 16) = hex_digit (of_char d div 16) \<longleftrightarrow>
      (of_char c :: nat) div 16 = of_char d div 16"
    by (rule hex_digit_inject) (rule div)+
  moreover have "hex_digit (of_char c mod 16) = hex_digit (of_char d mod 16) \<longleftrightarrow>
      (of_char c :: nat) mod 16 = of_char d mod 16"
    by (rule hex_digit_inject) auto
  ultimately show ?case using 4 of_char_eq_divmod [of c d]
    by (auto simp: EncodeToString_def)
qed (auto simp: EncodeToString_def)

subsection \<open>Normalisation\<close>

lemma fmap_of_keys [simp]:
  "fmlookup (fmap_of_list (map (\<lambda>k. (k, f k)) ks)) k = (if k \<in> set ks then Some (f k) else None)"
  by (induction ks) (auto simp: fmlookup_of_list)

lemma cloneMap_id [simp]: "cloneMap m = m"
proof (rule fmap_ext)
  fix k
  show "fmlookup (cloneMap m) k = fmlookup m k"
    by (cases "fmlookup m k") (auto simp: cloneMap_def fmlookup_dom_iff)
qed

lemma validateAlert_ok:
  "validateAlert a = Inr () \<longleftrightarrow>
     (am_Status a = ''firing'' \<or> am_Status a = ''resolved'') \<and> am_Labels a \<noteq> fmempty \<and>
     TrimSpace (golookup (am_Labels a) ''alertname'') \<noteq> '''' \<and> am_StartsAt a \<noteq> 0"
  by (auto simp: validateAlert_def)

lemma validate_alerts_ok:
  "validate_alerts i as = Inr () \<longleftrightarrow> (\<forall>a \<in> set as. validateAlert a = Inr ())"
  by (induction i as rule: validate_alerts.induct) (auto split: sum.splits)

lemma Decode_ok:
  "Decode first second = Inr payload \<longleftrightarrow>
     first = Inr payload \<and> second = TrailEOF \<and> pl_Alerts payload \<noteq> [] \<and>
     (\<forall>a \<in> set (pl_Alerts payload). validateAlert a = Inr ())"
  by (auto simp: Decode_def validate_alerts_ok [of 0, symmetric] split: sum.splits trailing.splits)

subsection \<open>Silences\<close>

lemma validateSilence_ok:
  "validateSilence s = Inr () \<longleftrightarrow>
     sil_Matchers s \<noteq> [] \<and> sil_CreatedBy s \<noteq> '''' \<and> sil_StartsAt s < sil_EndsAt s"
  by (auto simp: validateSilence_def)

lemma live_items_eq:
  "live_items items =
     (if \<exists>i \<in> set items. li_Fingerprint i = '''' then Inl MissingFingerprint
      else Inr (map (\<lambda>i. \<lparr>live_Fingerprint = li_Fingerprint i,
                       live_Suppressed = (li_State i = ''suppressed''),
                       live_SilencedBy = (case li_SilencedBy i of None \<Rightarrow> [] | Some ids \<Rightarrow> ids)\<rparr>) items))"
  by (induction items) auto

lemma ActiveSilenceIDs_iff:
  "i \<in> ActiveSilenceIDs ss \<longleftrightarrow> (\<exists>s \<in> set ss. ls_State s = ''active'' \<and> ls_ID s = i)"
  by (induction ss) (auto simp: SilenceStateActive_def)

section \<open>Properties\<close>

text \<open>Alerts that carry no fingerprint are identified by their labels: with a digest that
  does not collide, two label sets free of NUL bytes have the same fingerprint exactly when they
  are equal.\<close>

theorem fingerprint_identifies_labels:
  assumes "inj sha256" "nul_free l" "nul_free m"
  shows "fingerprintLabels sha256 l = fingerprintLabels sha256 m \<longleftrightarrow> l = m"
  using fingerprint_bytes_inject [OF assms(2,3)] inj_eq [OF assms(1)]
  by (simp add: fingerprintLabels_def EncodeToString_inject)

theorem fingerprint_identifies_labels_witness:
  "fingerprintLabels id (fmap_of_list [(''a'', ''b'')]) \<noteq> fingerprintLabels id (fmap_of_list [(''a'', ''c'')])"
proof -
  have "nul_free (fmap_of_list [(''a'', ''b'')])" "nul_free (fmap_of_list [(''a'', ''c'')])"
    by (simp_all add: nul_free_def golookup_def)
  moreover have "fmlookup (fmap_of_list [(''a'', ''b'')]) ''a'' \<noteq> fmlookup (fmap_of_list [(''a'', ''c'')]) ''a''"
    by simp
  then have "fmap_of_list [(''a'', ''b'')] \<noteq> fmap_of_list [(''a'', ''c'')]" by metis
  ultimately show ?thesis using fingerprint_identifies_labels [OF inj_on_id] by blast
qed

text \<open>What a decoded webhook delivers. Every normalised alert comes from the payload in
  order, is firing or resolved, carries the labels it was sent with, a non-blank alert name, a
  start time, a fingerprint unless the digest is empty, and the source it was received for.\<close>

theorem decoded_payload_normalises:
  assumes "Decode first second = Inr payload"
  shows "Normalize sha256 marshal payload slug now \<noteq> [] \<and>
    length (Normalize sha256 marshal payload slug now) = length (pl_Alerts payload) \<and>
    list_all2 (\<lambda>a n. in_SourceSlug n = slug \<and> in_ReceivedAt n = now \<and>
        in_Status n \<in> {StatusFiring, StatusResolved} \<and> in_Labels n = am_Labels a \<and>
        in_Annotations n = am_Annotations a \<and> in_StartsAt n \<noteq> 0 \<and>
        TrimSpace (golookup (in_Labels n) ''alertname'') \<noteq> '''' \<and>
        in_Fingerprint n = (if am_Fingerprint a = '''' then fingerprintLabels sha256 (am_Labels a)
                            else am_Fingerprint a))
      (pl_Alerts payload) (Normalize sha256 marshal payload slug now)"
  using assms
  by (auto simp: Decode_ok Normalize_def list_all2_conv_all_nth normalize_alert_def validateAlert_ok status_of_def
      dest!: nth_mem)

theorem decoded_payload_normalises_witness:
  "Normalize id (\<lambda>a. ''{}'')
     \<lparr>pl_Version = ''4'', pl_GroupKey = '''', pl_Status = ''firing'', pl_Receiver = '''',
      pl_GroupLabels = fmempty, pl_CommonLabels = fmempty, pl_CommonAnnotations = fmempty, pl_ExternalURL = '''',
      pl_Alerts = [\<lparr>am_Status = ''firing'', am_Labels = fmap_of_list [(''alertname'', ''A'')],
        am_Annotations = fmempty, am_StartsAt = 5, am_EndsAt = 0, am_GeneratorURL = '''', am_Fingerprint = ''f''\<rparr>]\<rparr>
     ''prod'' 9 \<noteq> []"
proof -
  let ?p = "\<lparr>pl_Version = ''4'', pl_GroupKey = '''', pl_Status = ''firing'', pl_Receiver = '''',
      pl_GroupLabels = fmempty, pl_CommonLabels = fmempty, pl_CommonAnnotations = fmempty, pl_ExternalURL = '''',
      pl_Alerts = [\<lparr>am_Status = ''firing'', am_Labels = fmap_of_list [(''alertname'', ''A'')],
        am_Annotations = fmempty, am_StartsAt = 5, am_EndsAt = 0, am_GeneratorURL = '''', am_Fingerprint = ''f''\<rparr>]\<rparr>"
  have "fmap_of_list [(''alertname'', ''A'')] \<noteq> fmempty"
    by (metis fmempty_lookup fmlookup_of_list map_of_Cons_code(2) option.distinct(1))
  moreover have "TrimSpace ''A'' = ''A''" by code_simp
  ultimately have "Decode (Inr ?p) TrailEOF = Inr ?p"
    by (simp add: Decode_ok validateAlert_ok)
  from decoded_payload_normalises [OF this] show ?thesis by blast
qed

text \<open>What reaches an Alertmanager when a silence is created. At most one request is sent;
  it has a matcher, an author and a window that does not end before it starts, and its matchers
  are the ones asked for; success means the Alertmanager answered with a silence id.\<close>

theorem silence_request_sound:
  "(\<forall>r \<in> set (fst (CreateSilence do_http url token s)).
      post_Matchers r = sil_Matchers s \<and> post_Matchers r \<noteq> [] \<and> post_CreatedBy r \<noteq> '''' \<and>
      post_StartsAt r \<le> post_EndsAt r) \<and>
   length (fst (CreateSilence do_http url token s)) \<le> 1 \<and>
   (\<forall>i. snd (CreateSilence do_http url token s) = Inr i \<longrightarrow>
      i \<noteq> '''' \<and> sil_StartsAt s < sil_EndsAt s \<and>
      (\<exists>status. do_http (silence_request url token s) = Inr (status, Inr i) \<and> status \<in> {200, 201}))"
  by (auto simp: CreateSilence_def silence_request_def Let_def validateSilence_def rfc3339_seconds_def
      StatusOK_def StatusCreated_def zdiv_mono1 split: sum.splits prod.splits if_splits)

theorem silence_request_sound_witness:
  "snd (CreateSilence (\<lambda>r. Inr (200, Inr ''id1'')) ''http://am'' ''''
     \<lparr>sil_Matchers = MatchersFromLabels (fmap_of_list [(''a'', ''b'')]), sil_StartsAt = 0, sil_EndsAt = 5,
      sil_CreatedBy = ''alice'', sil_Comment = ''''\<rparr>) = Inr ''id1'' \<and> (''id1'' :: string) \<noteq> ''''"
proof -
  have "sorted_keys (fmap_of_list [(''a'', ''b'')]) \<noteq> []" by code_simp
  then have "snd (CreateSilence (\<lambda>r. Inr (200, Inr ''id1'')) ''http://am'' ''''
     \<lparr>sil_Matchers = MatchersFromLabels (fmap_of_list [(''a'', ''b'')]), sil_StartsAt = 0, sil_EndsAt = 5,
      sil_CreatedBy = ''alice'', sil_Comment = ''''\<rparr>) = Inr ''id1''"
    by (simp add: CreateSilence_def validateSilence_def MatchersFromLabels_def Let_def StatusOK_def)
  with silence_request_sound show ?thesis by blast
qed

end
