(* ===== verification/Sources.thy ===== *)
theory Sources
  imports Prelude
begin

text \<open>
  \<open>internal/sources/source.go\<close>: what identifies an alert source, the validation of a new
  source and of a change to one, and the hash its ingestion token is stored as.

  \<open>url_parse\<close> is the scheme and host \<open>url.Parse\<close> reports, \<^const>\<open>None\<close> on a
  parse error; \<open>sha256\<close> is the digest. Durations are integers in microseconds, the unit the
  store writes them in.
\<close>

section \<open>Definitions\<close>

definition MinimumTokenLength :: nat where
  "MinimumTokenLength = 16"

record Source =
  src_Slug :: string
  src_Name :: string
  src_StaleAfter :: "int option"
  src_AlertmanagerURL :: "string option"
  src_AlertmanagerToken :: "string option"

record Patch =
  patch_Name :: "string option"
  patch_StaleAfter :: "int option"
  patch_AlertmanagerURL :: "string option"
  patch_AlertmanagerToken :: "string option"

datatype source_error =
  SourceSlugInvalid | SourceNameRequired | SourceTokenTooShort | StaleAfterNegative
| AlertmanagerURLInvalid | NothingToUpdate

definition validateAlertmanagerURL ::
  "(string \<Rightarrow> (string \<times> string) option) \<Rightarrow> string \<Rightarrow> source_error + unit" where
  "validateAlertmanagerURL url_parse value =
     (if value = '''' then Inr ()
      else (case url_parse value of
              None \<Rightarrow> Inl AlertmanagerURLInvalid
            | Some (scheme, host) \<Rightarrow>
                if (scheme \<noteq> ''http'' \<and> scheme \<noteq> ''https'') \<or> host = '''' then Inl AlertmanagerURLInvalid
                else Inr ()))"

definition ValidatePatch ::
  "(string \<Rightarrow> (string \<times> string) option) \<Rightarrow> Patch \<Rightarrow> source_error + unit" where
  "ValidatePatch url_parse patch =
     (if patch_Name patch = None \<and> patch_StaleAfter patch = None \<and>
         patch_AlertmanagerURL patch = None \<and> patch_AlertmanagerToken patch = None
      then Inl NothingToUpdate
      else if patch_Name patch = Some '''' then Inl SourceNameRequired
      else if (case patch_StaleAfter patch of None \<Rightarrow> False | Some d \<Rightarrow> d < 0) then Inl StaleAfterNegative
      else (case patch_AlertmanagerURL patch of
              None \<Rightarrow> Inr ()
            | Some url \<Rightarrow> validateAlertmanagerURL url_parse url))"

definition Validate ::
  "(string \<Rightarrow> (string \<times> string) option) \<Rightarrow> Source \<Rightarrow> string \<Rightarrow> source_error + unit" where
  "Validate url_parse source rawToken =
     (if \<not> slug_pattern (src_Slug source) then Inl SourceSlugInvalid
      else if src_Name source = '''' then Inl SourceNameRequired
      else if length rawToken < MinimumTokenLength then Inl SourceTokenTooShort
      else if (case src_StaleAfter source of None \<Rightarrow> False | Some d \<Rightarrow> d < 0) then Inl StaleAfterNegative
      else (case src_AlertmanagerURL source of
              None \<Rightarrow> Inr ()
            | Some url \<Rightarrow>
                (case validateAlertmanagerURL url_parse url of Inl e \<Rightarrow> Inl e | Inr u \<Rightarrow> Inr ())))"

definition HashToken :: "(string \<Rightarrow> string) \<Rightarrow> string \<Rightarrow> string" where
  "HashToken sha256 rawToken = sha256 rawToken"

text \<open>The Alertmanager addresses a source may carry.\<close>

definition usable_url :: "(string \<Rightarrow> (string \<times> string) option) \<Rightarrow> string \<Rightarrow> bool" where
  "usable_url url_parse url \<longleftrightarrow>
     url = '''' \<or> (\<exists>scheme host. url_parse url = Some (scheme, host) \<and> scheme \<in> {''http'', ''https''} \<and> host \<noteq> '''')"

section \<open>Lemmas\<close>

lemma validateAlertmanagerURL_ok:
  "validateAlertmanagerURL url_parse url = Inr () \<longleftrightarrow> usable_url url_parse url"
  by (auto simp: validateAlertmanagerURL_def usable_url_def split: option.splits)

lemma Validate_ok:
  "Validate url_parse source token = Inr () \<longleftrightarrow>
     slug_pattern (src_Slug source) \<and> src_Name source \<noteq> '''' \<and> MinimumTokenLength \<le> length token \<and>
     (\<forall>d. src_StaleAfter source = Some d \<longrightarrow> 0 \<le> d) \<and>
     (\<forall>url. src_AlertmanagerURL source = Some url \<longrightarrow> usable_url url_parse url)"
  by (auto simp: Validate_def validateAlertmanagerURL_ok [symmetric] split: option.splits sum.splits)

lemma ValidatePatch_ok:
  "ValidatePatch url_parse patch = Inr () \<longleftrightarrow>
     (patch_Name patch \<noteq> None \<or> patch_StaleAfter patch \<noteq> None \<or>
      patch_AlertmanagerURL patch \<noteq> None \<or> patch_AlertmanagerToken patch \<noteq> None) \<and>
     patch_Name patch \<noteq> Some '''' \<and>
     (\<forall>d. patch_StaleAfter patch = Some d \<longrightarrow> 0 \<le> d) \<and>
     (\<forall>url. patch_AlertmanagerURL patch = Some url \<longrightarrow> usable_url url_parse url)"
  by (auto simp: ValidatePatch_def validateAlertmanagerURL_ok split: option.splits)

lemma slug_pattern_nonempty: "slug_pattern s \<Longrightarrow> s \<noteq> ''''"
  by (cases s) auto

end
