(* ===== verification/Authz.thy ===== *)
theory Authz
  imports Alerts_Model
begin

text \<open>
  Authorization, \<open>internal/auth\<close>: principals and grants (\<open>auth.go\<close>,
  \<open>authorization.go\<close>), the selectors a caller's view is built from (\<open>view.go\<close>),
  and the validation of role bindings, view groups and pins (\<open>authorization.go\<close>,
  \<open>viewgroup.go\<close>).

  The contract every scope check of the program shares is the locale \<open>scoped_access\<close>: a
  selector semantics and the two decisions built on it. It is interpreted here on the Go
  functions \<open>CanReadLabels\<close> and \<open>CanOperateLabels\<close>, and in the theory
  \<open>Access_SQL\<close> on the conditions the store sends to PostgreSQL.

  \<open>rx\<close> is Go's regular-expression engine and \<open>url_parse\<close> the scheme and host that
  \<open>url.Parse\<close> reports, \<^const>\<open>None\<close> on a parse error.
\<close>

section \<open>Principals\<close>

datatype Role = RoleViewer | RoleOperator | RoleAdministrator | RoleOther string

definition role_string :: "Role \<Rightarrow> string" where
  "role_string r =
     (case r of RoleViewer \<Rightarrow> ''viewer'' | RoleOperator \<Rightarrow> ''operator''
      | RoleAdministrator \<Rightarrow> ''administrator'' | RoleOther s \<Rightarrow> s)"

record Grant =
  grant_Role :: Role
  grant_Matchers :: "LabelMatcher list"

record Principal =
  UserID :: int
  Subject :: string
  Email :: string
  DisplayName :: string
  Roles :: "string list"
  Anonymous :: bool
  Grants :: "Grant list"
  ViewGroups :: "LabelMatcher list list"

definition HasRole :: "Principal \<Rightarrow> string \<Rightarrow> bool" where
  "HasRole caller role \<longleftrightarrow> list_ex (\<lambda>assigned. assigned = role) (Roles caller)"

definition RolesFromGrants :: "Grant list \<Rightarrow> string list" where
  "RolesFromGrants grants =
     concat (map (\<lambda>role. if list_ex (\<lambda>g. grant_Role g = role) grants then [role_string role] else [])
       [RoleViewer, RoleOperator, RoleAdministrator])"

record OpenAuthenticator =
  open_Role :: "Role option"
  open_Author :: string

definition DefaultOpenModeAuthor :: string where
  "DefaultOpenModeAuthor = ''promview-open-mode''"

definition open_authenticate :: "OpenAuthenticator \<Rightarrow> Principal" where
  "open_authenticate authenticator =
     (let role = (case open_Role authenticator of None \<Rightarrow> RoleViewer | Some r \<Rightarrow> r);
          author = (if open_Author authenticator = '''' then DefaultOpenModeAuthor
                    else open_Author authenticator);
          grants = \<lparr>grant_Role = RoleViewer, grant_Matchers = []\<rparr> #
                   (if role \<noteq> RoleViewer then [\<lparr>grant_Role = role, grant_Matchers = []\<rparr>] else []);
          displayName = (if role \<noteq> RoleViewer then ''Open mode '' @ role_string role
                         else ''Anonymous viewer'')
      in \<lparr>UserID = 0, Subject = author, Email = '''', DisplayName = displayName,
          Roles = RolesFromGrants grants, Anonymous = True, Grants = grants, ViewGroups = []\<rparr>)"

section \<open>Decisions\<close>

definition CanRead :: "Principal \<Rightarrow> bool" where
  "CanRead caller \<longleftrightarrow>
     Anonymous caller \<or>
     list_ex (\<lambda>g. grant_Role g \<in> {RoleViewer, RoleOperator, RoleAdministrator}) (Grants caller)"

definition CanAdminister :: "Principal \<Rightarrow> bool" where
  "CanAdminister caller \<longleftrightarrow> list_ex (\<lambda>g. grant_Role g = RoleAdministrator) (Grants caller)"

definition CanOperate :: "Principal \<Rightarrow> bool" where
  "CanOperate caller \<longleftrightarrow>
     list_ex (\<lambda>g. grant_Role g = RoleOperator \<or> grant_Role g = RoleAdministrator) (Grants caller)"

fun operate_grants :: "regex \<Rightarrow> Grant list \<Rightarrow> labels \<Rightarrow> bool" where
  "operate_grants rx [] labels = False"
| "operate_grants rx (g # gs) labels =
     (if grant_Role g = RoleAdministrator then True
      else if grant_Role g \<noteq> RoleOperator then operate_grants rx gs labels
      else if match_all rx (grant_Matchers g) labels then True
      else operate_grants rx gs labels)"

definition CanOperateLabels :: "regex \<Rightarrow> Principal \<Rightarrow> labels \<Rightarrow> bool" where
  "CanOperateLabels rx caller labels = operate_grants rx (Grants caller) labels"

fun read_grants :: "regex \<Rightarrow> Grant list \<Rightarrow> labels \<Rightarrow> bool" where
  "read_grants rx [] labels = False"
| "read_grants rx (g # gs) labels =
     (if grant_Role g = RoleAdministrator then True
      else if grant_Role g \<noteq> RoleViewer \<and> grant_Role g \<noteq> RoleOperator then read_grants rx gs labels
      else if match_all rx (grant_Matchers g) labels then True
      else read_grants rx gs labels)"

definition CanReadLabels :: "regex \<Rightarrow> Principal \<Rightarrow> labels \<Rightarrow> bool" where
  "CanReadLabels rx caller labels =
     (if Anonymous caller then True else read_grants rx (Grants caller) labels)"

section \<open>View selectors\<close>

text \<open>The loop over the grants: whether some grant is unrestricted, and the scoped selectors in
  grant order.\<close>

fun view_grants :: "Grant list \<Rightarrow> bool \<times> LabelMatcher list list" where
  "view_grants [] = (False, [])"
| "view_grants (g # gs) =
     (let (unrestricted, groups) = view_grants gs in
      if grant_Role g = RoleAdministrator then (True, groups)
      else if grant_Role g = RoleViewer \<or> grant_Role g = RoleOperator then
        (if grant_Matchers g = [] then (True, groups) else (unrestricted, grant_Matchers g # groups))
      else (unrestricted, groups))"

definition ViewMatchers :: "Principal \<Rightarrow> LabelMatcher list list" where
  "ViewMatchers caller =
     (if Anonymous caller then []
      else (let (unrestricted, groups) = view_grants (Grants caller)
            in (if unrestricted then groups else []) @ filter (\<lambda>g. g \<noteq> []) (ViewGroups caller)))"

section \<open>Selectors\<close>

text \<open>\<open>strings.SplitN(raw, sep, 2)\<close>: the text before and after the first occurrence.\<close>

fun split_first :: "string \<Rightarrow> string \<Rightarrow> (string \<times> string) option" where
  "split_first sep [] = (if sep = [] then Some ([], []) else None)"
| "split_first sep (c # cs) =
     (if starts_with sep (c # cs) then Some ([], drop (length sep) (c # cs))
      else map_option (\<lambda>(a, b). (c # a, b)) (split_first sep cs))"

datatype selector_error =
  SelectorNameInvalid | SelectorValueRequired | SelectorValueTooLong | SelectorRegexInvalid
| SelectorOperator

definition supportedMatcherOps :: "string list" where
  "supportedMatcherOps = [''!='', ''=~'', ''!~'', ''='']"

fun parse_with :: "regex \<Rightarrow> string list \<Rightarrow> string \<Rightarrow> selector_error + LabelMatcher" where
  "parse_with rx [] raw = Inl SelectorOperator"
| "parse_with rx (operator # operators) raw =
     (case split_first operator raw of
        None \<Rightarrow> parse_with rx operators raw
      | Some (before, after) \<Rightarrow>
          (let name = TrimSpace before; value = TrimSpace after in
           if \<not> label_name_pattern name then Inl SelectorNameInvalid
           else if value = '''' then Inl SelectorValueRequired
           else if length value > 256 then Inl SelectorValueTooLong
           else if (operator = ''=~'' \<or> operator = ''!~'') \<and> rx value '''' = None
             then Inl SelectorRegexInvalid
           else Inr \<lparr>matcher_Name = name, matcher_Operator = operator, matcher_Value = value\<rparr>))"

definition ParseLabelMatcher :: "regex \<Rightarrow> string \<Rightarrow> selector_error + LabelMatcher" where
  "ParseLabelMatcher rx raw = parse_with rx supportedMatcherOps raw"

section \<open>Role bindings and view groups\<close>

record RoleBinding =
  binding_Name :: string
  binding_SubjectKind :: string
  binding_UserID :: int
  binding_SubjectIssuer :: string
  binding_SubjectGroup :: string
  binding_Role :: Role
  binding_Matchers :: "LabelMatcher list"

record binding_wire = RoleBinding +
  wire_OIDCIssuer :: string
  wire_OIDCGroup :: string

datatype binding_error =
  BindingName | BindingRole | UserBindingShape | GroupBindingShape | IssuerNotAbsolute
| LDAPScheme | OIDCScheme | GroupNameTooLong | SubjectKindUnknown | TooManySelectors
| AdministratorNotGlobal | SubjectGivenTwice string

fun firstNonEmpty :: "string list \<Rightarrow> string" where
  "firstNonEmpty [] = ''''"
| "firstNonEmpty (v # vs) = (if v \<noteq> '''' then v else firstNonEmpty vs)"

text \<open>\<open>RoleBinding.UnmarshalJSON\<close> after the strict decoding of the wire struct.\<close>

definition binding_of_wire :: "binding_wire \<Rightarrow> binding_error + RoleBinding" where
  "binding_of_wire decoded =
     (let conflict = (\<lambda>current deprecated. current \<noteq> '''' \<and> deprecated \<noteq> '''' \<and> current \<noteq> deprecated) in
      if conflict (binding_SubjectIssuer decoded) (wire_OIDCIssuer decoded)
      then Inl (SubjectGivenTwice ''issuer'')
      else if conflict (binding_SubjectGroup decoded) (wire_OIDCGroup decoded)
      then Inl (SubjectGivenTwice ''group'')
      else Inr \<lparr>binding_Name = binding_Name decoded,
                binding_SubjectKind = binding_SubjectKind decoded,
                binding_UserID = binding_UserID decoded,
                binding_SubjectIssuer =
                  firstNonEmpty [binding_SubjectIssuer decoded, wire_OIDCIssuer decoded],
                binding_SubjectGroup =
                  firstNonEmpty [binding_SubjectGroup decoded, wire_OIDCGroup decoded],
                binding_Role = binding_Role decoded,
                binding_Matchers = binding_Matchers decoded\<rparr>)"

definition validate_subject ::
  "(string \<Rightarrow> (string \<times> string) option) \<Rightarrow> RoleBinding \<Rightarrow> binding_error + unit" where
  "validate_subject url_parse binding =
     (if binding_SubjectKind binding = ''user'' then
        (if binding_UserID binding < 1 \<or> binding_SubjectIssuer binding \<noteq> '''' \<or>
            binding_SubjectGroup binding \<noteq> '''' then Inl UserBindingShape
         else Inr ())
      else if binding_SubjectKind binding = ''oidc_group'' \<or> binding_SubjectKind binding = ''ldap_group'' then
        (if binding_UserID binding \<noteq> 0 \<or> binding_SubjectIssuer binding = '''' \<or>
            binding_SubjectGroup binding = '''' then Inl GroupBindingShape
         else (case url_parse (binding_SubjectIssuer binding) of
                 None \<Rightarrow> Inl IssuerNotAbsolute
               | Some (scheme, host) \<Rightarrow>
                   if scheme = '''' \<or> host = '''' then Inl IssuerNotAbsolute
                   else if binding_SubjectKind binding = ''ldap_group'' \<and>
                     scheme \<noteq> ''ldap'' \<and> scheme \<noteq> ''ldaps'' then Inl LDAPScheme
                   else if binding_SubjectKind binding = ''oidc_group'' \<and>
                     scheme \<noteq> ''http'' \<and> scheme \<noteq> ''https'' then Inl OIDCScheme
                   else if length (binding_SubjectGroup binding) > 256 then Inl GroupNameTooLong
                   else Inr ()))
      else Inl SubjectKindUnknown)"

definition validateRoleBinding ::
  "(string \<Rightarrow> (string \<times> string) option) \<Rightarrow> RoleBinding \<Rightarrow> binding_error + unit" where
  "validateRoleBinding url_parse binding =
     (if \<not> slug_pattern (binding_Name binding) then Inl BindingName
      else if binding_Role binding \<notin> {RoleViewer, RoleOperator, RoleAdministrator} then Inl BindingRole
      else (case validate_subject url_parse binding of
              Inl e \<Rightarrow> Inl e
            | Inr u \<Rightarrow>
                if length (binding_Matchers binding) > 16 then Inl TooManySelectors
                else if binding_Role binding = RoleAdministrator \<and> length (binding_Matchers binding) > 0
                  then Inl AdministratorNotGlobal
                else Inr ()))"

record ViewGroup =
  vg_Name :: string
  vg_Description :: string
  vg_Matchers :: "LabelMatcher list"

record ViewGroupPin =
  pin_SubjectKind :: string
  pin_UserID :: int
  pin_SubjectIssuer :: string
  pin_SubjectGroup :: string

datatype view_group_error =
  ViewGroupName | DescriptionTooLong | NoSelector | ViewGroupTooManySelectors
| BadSelector selector_error | BadPin binding_error

definition validate_selector :: "regex \<Rightarrow> LabelMatcher \<Rightarrow> selector_error option" where
  "validate_selector rx m =
     (if \<not> label_name_pattern (matcher_Name m) then Some SelectorNameInvalid
      else if matcher_Value m = '''' \<or> length (matcher_Value m) > 256 then Some SelectorValueRequired
      else if matcher_Operator m \<notin> set supportedMatcherOps then Some SelectorOperator
      else if (matcher_Operator m = ''=~'' \<or> matcher_Operator m = ''!~'') \<and> rx (matcher_Value m) '''' = None
        then Some SelectorRegexInvalid
      else None)"

fun validate_selectors :: "regex \<Rightarrow> LabelMatcher list \<Rightarrow> view_group_error + unit" where
  "validate_selectors rx [] = Inr ()"
| "validate_selectors rx (m # ms) =
     (case validate_selector rx m of
        Some e \<Rightarrow> Inl (BadSelector e)
      | None \<Rightarrow> validate_selectors rx ms)"

definition validateViewGroup :: "regex \<Rightarrow> ViewGroup \<Rightarrow> view_group_error + unit" where
  "validateViewGroup rx grp =
     (if \<not> slug_pattern (vg_Name grp) then Inl ViewGroupName
      else if length (vg_Description grp) > 512 then Inl DescriptionTooLong
      else if vg_Matchers grp = [] then Inl NoSelector
      else if length (vg_Matchers grp) > 16 then Inl ViewGroupTooManySelectors
      else validate_selectors rx (vg_Matchers grp))"

definition ValidateViewGroupPin ::
  "(string \<Rightarrow> (string \<times> string) option) \<Rightarrow> ViewGroupPin \<Rightarrow> view_group_error + unit" where
  "ValidateViewGroupPin url_parse pin =
     (case validateRoleBinding url_parse
             \<lparr>binding_Name = ''pin'', binding_SubjectKind = pin_SubjectKind pin,
              binding_UserID = pin_UserID pin, binding_SubjectIssuer = pin_SubjectIssuer pin,
              binding_SubjectGroup = pin_SubjectGroup pin, binding_Role = RoleViewer,
              binding_Matchers = []\<rparr> of
        Inl e \<Rightarrow> Inl (BadPin e)
      | Inr u \<Rightarrow> Inr ())"

section \<open>The scope contract\<close>

text \<open>
  What a scope check promises, whoever evaluates it: \<open>sat\<close> says that a list of matchers
  selects a label set, \<open>may_read\<close> and \<open>may_operate\<close> are the decisions. The laws are
  the shape of the decision: an administrator sees everything, a viewer or operator grant
  covers the labels its matchers select, and an anonymous caller reads everything but
  operates by its grants.
\<close>

locale scoped_access =
  fixes sat :: "LabelMatcher list \<Rightarrow> labels \<Rightarrow> bool"
    and may_read :: "Principal \<Rightarrow> labels \<Rightarrow> bool"
    and may_operate :: "Principal \<Rightarrow> labels \<Rightarrow> bool"
  assumes read_iff: "may_read p l \<longleftrightarrow>
      Anonymous p \<or>
      (\<exists>g \<in> set (Grants p). grant_Role g = RoleAdministrator \<or>
         (grant_Role g = RoleViewer \<or> grant_Role g = RoleOperator) \<and> sat (grant_Matchers g) l)"
    and operate_iff: "may_operate p l \<longleftrightarrow>
      (\<exists>g \<in> set (Grants p). grant_Role g = RoleAdministrator \<or>
         grant_Role g = RoleOperator \<and> sat (grant_Matchers g) l)"
begin

lemma operate_imp_read: "may_operate p l \<Longrightarrow> may_read p l"
  by (auto simp: read_iff operate_iff)

lemma operate_imp_CanOperate: "may_operate p l \<Longrightarrow> CanOperate p"
  by (auto simp: operate_iff CanOperate_def list_ex_iff)

lemma read_imp_CanRead: "may_read p l \<Longrightarrow> CanRead p"
  by (auto simp: read_iff CanRead_def list_ex_iff)

lemma read_mono:
  assumes "set (Grants p) \<subseteq> set (Grants q)" "Anonymous p \<Longrightarrow> Anonymous q" "may_read p l"
  shows "may_read q l"
  using assms by (auto simp: read_iff)

lemma operate_mono: "set (Grants p) \<subseteq> set (Grants q) \<Longrightarrow> may_operate p l \<Longrightarrow> may_operate q l"
  by (auto simp: operate_iff)

lemma administrator_unscoped:
  "CanAdminister p \<Longrightarrow> may_read p l \<and> may_operate p l"
  by (auto simp: read_iff operate_iff CanAdminister_def list_ex_iff)

lemma no_grants_no_access: "Grants p = [] \<Longrightarrow> \<not> Anonymous p \<Longrightarrow> \<not> may_read p l"
  by (simp add: read_iff)

end

section \<open>Lemmas\<close>

lemma operate_grants_iff:
  "operate_grants rx gs l \<longleftrightarrow>
     (\<exists>g \<in> set gs. grant_Role g = RoleAdministrator \<or>
        grant_Role g = RoleOperator \<and> match_all rx (grant_Matchers g) l)"
  by (induction gs) auto

lemma read_grants_iff:
  "read_grants rx gs l \<longleftrightarrow>
     (\<exists>g \<in> set gs. grant_Role g = RoleAdministrator \<or>
        (grant_Role g = RoleViewer \<or> grant_Role g = RoleOperator) \<and> match_all rx (grant_Matchers g) l)"
  by (induction gs) auto

interpretation go_access: scoped_access "match_all rx" "CanReadLabels rx" "CanOperateLabels rx" for rx
  by unfold_locales
    (simp_all add: CanReadLabels_def CanOperateLabels_def read_grants_iff operate_grants_iff)

lemma view_grants_unrestricted:
  "fst (view_grants gs) \<longleftrightarrow>
     (\<exists>g \<in> set gs. grant_Role g = RoleAdministrator \<or>
        (grant_Role g = RoleViewer \<or> grant_Role g = RoleOperator) \<and> grant_Matchers g = [])"
  by (induction gs) (auto split: prod.splits)

lemma view_grants_groups:
  "set (snd (view_grants gs)) =
     {grant_Matchers g |g. g \<in> set gs \<and> (grant_Role g = RoleViewer \<or> grant_Role g = RoleOperator) \<and>
        grant_Matchers g \<noteq> []}"
  by (induction gs) (auto split: prod.splits)

lemma ViewMatchers_eq:
  "ViewMatchers p =
     (if Anonymous p then []
      else (if fst (view_grants (Grants p)) then snd (view_grants (Grants p)) else []) @
           filter (\<lambda>g. g \<noteq> []) (ViewGroups p))"
  by (simp add: ViewMatchers_def case_prod_beta)

lemma ViewMatchers_nonempty: "g \<in> set (ViewMatchers p) \<Longrightarrow> g \<noteq> []"
  using view_grants_groups [of "Grants p"] by (auto simp: ViewMatchers_eq split: if_splits)

lemma RolesFromGrants_iff:
  "role_string r \<in> set (RolesFromGrants gs) \<longleftrightarrow> (\<exists>g \<in> set gs. grant_Role g = r)"
  if "r \<in> {RoleViewer, RoleOperator, RoleAdministrator}"
  using that by (auto simp: RolesFromGrants_def role_string_def list_ex_iff)

lemma distinct_RolesFromGrants: "distinct (RolesFromGrants gs)"
  by (simp add: RolesFromGrants_def role_string_def)

lemma validate_selectors_ok:
  "validate_selectors rx ms = Inr () \<longleftrightarrow> (\<forall>m \<in> set ms. validate_selector rx m = None)"
  by (induction ms) (auto split: option.splits)

end
