(* ===== verification/Access_SQL.thy ===== *)
theory Access_SQL
  imports Authz
begin

text \<open>
  The \<open>WHERE\<close> conditions the store builds (\<open>internal/postgres/store.go\<close>, from
  \<open>alertFilters\<close> to \<open>appendCondition\<close>, and \<open>internal/postgres/view.go\<close>). The Go
  code concatenates SQL text with numbered placeholders and appends the argument of each
  placeholder to a slice; here the text is the datatype \<open>sql\<close>, the placeholder numbers are
  kept, and \<open>eval_sql\<close> is PostgreSQL's three-valued evaluation of it against the argument
  list.

  \<open>pgrx p s\<close> is PostgreSQL's \<open>s ~ p\<close>; patterns are tried on the server before they
  are stored, so evaluation does not fail on them. \<open>statement_ok\<close> states when the server
  and driver accept a statement: operators are known, no parenthesised list is empty, and the
  placeholders that occur are exactly one per argument. PostgreSQL refuses a parameter whose
  type it cannot determine, and the driver refuses a differing number of arguments.
\<close>

section \<open>Conditions\<close>

datatype arg = ArgText string | ArgInt int | ArgBool bool

datatype label_col = ColLabels | ColPrevious

datatype sql =
    SqlTrue
  | SqlFalse
  | SqlMatch label_col nat string nat
  | SqlCritical label_col
  | SqlAnd "sql list"
  | SqlOr "sql list"
  | SqlNot sql
  | SqlPreviousNotNull
  | SqlSourceEq nat
  | SqlStatusEq nat
  | SqlSeverityEq nat
  | SqlTeamEq nat
  | SqlSuppressedEq nat
  | SqlClosedEq nat
  | SqlNotClosed
  | SqlLabelNe nat nat
  | SqlLabelEq nat nat

record sql_row =
  sr_labels :: labels
  sr_previous :: "labels option"
  sr_source :: string
  sr_status :: string
  sr_suppressed :: bool
  sr_closed :: bool

definition arg_text :: "arg list \<Rightarrow> nat \<Rightarrow> string" where
  "arg_text args n =
     (if 1 \<le> n \<and> n \<le> length args then (case args ! (n - 1) of ArgText s \<Rightarrow> s | _ \<Rightarrow> '''') else '''')"

definition arg_bool :: "arg list \<Rightarrow> nat \<Rightarrow> bool" where
  "arg_bool args n =
     (if 1 \<le> n \<and> n \<le> length args then (case args ! (n - 1) of ArgBool b \<Rightarrow> b | _ \<Rightarrow> False) else False)"

text \<open>The Go map from selector operators to SQL ones; a missing key reads as the empty
  string.\<close>

definition sql_operator :: "string \<Rightarrow> string" where
  "sql_operator operator =
     (if operator = ''='' then ''='' else if operator = ''!='' then ''<>''
      else if operator = ''=~'' then ''~'' else if operator = ''!~'' then ''!~'' else '''')"

definition sql_compare :: "(string \<Rightarrow> string \<Rightarrow> bool) \<Rightarrow> string \<Rightarrow> string \<Rightarrow> string \<Rightarrow> bool" where
  "sql_compare pgrx operator value arg =
     (if operator = ''='' then value = arg
      else if operator = ''<>'' then value \<noteq> arg
      else if operator = ''~'' then pgrx arg value
      else if operator = ''!~'' then \<not> pgrx arg value
      else False)"

definition col_value :: "sql_row \<Rightarrow> label_col \<Rightarrow> labels option" where
  "col_value row col = (case col of ColLabels \<Rightarrow> Some (sr_labels row) | ColPrevious \<Rightarrow> sr_previous row)"

definition severity_of :: "labels \<Rightarrow> string" where
  "severity_of l = (case fmlookup l ''severity'' of None \<Rightarrow> ''warning'' | Some s \<Rightarrow> s)"

fun eval_sql :: "(string \<Rightarrow> string \<Rightarrow> bool) \<Rightarrow> arg list \<Rightarrow> sql_row \<Rightarrow> sql \<Rightarrow> bool option" where
  "eval_sql pgrx args row SqlTrue = Some True"
| "eval_sql pgrx args row SqlFalse = Some False"
| "eval_sql pgrx args row (SqlMatch col n op v) =
     (case col_value row col of
        None \<Rightarrow> None
      | Some l \<Rightarrow>
          sql_and (Some (fmlookup l (arg_text args n) \<noteq> None))
            (map_option (\<lambda>x. sql_compare pgrx op x (arg_text args v)) (fmlookup l (arg_text args n))))"
| "eval_sql pgrx args row (SqlCritical col) =
     Some ((case col_value row col of None \<Rightarrow> ''warning'' | Some l \<Rightarrow> severity_of l) = ''critical'')"
| "eval_sql pgrx args row (SqlAnd cs) = sql_ands (map (eval_sql pgrx args row) cs)"
| "eval_sql pgrx args row (SqlOr cs) = sql_ors (map (eval_sql pgrx args row) cs)"
| "eval_sql pgrx args row (SqlNot c) = sql_not (eval_sql pgrx args row c)"
| "eval_sql pgrx args row SqlPreviousNotNull = Some (sr_previous row \<noteq> None)"
| "eval_sql pgrx args row (SqlSourceEq n) = Some (sr_source row = arg_text args n)"
| "eval_sql pgrx args row (SqlStatusEq n) = Some (sr_status row = arg_text args n)"
| "eval_sql pgrx args row (SqlSeverityEq n) = Some (severity_of (sr_labels row) = arg_text args n)"
| "eval_sql pgrx args row (SqlTeamEq n) =
     map_option (\<lambda>x. x = arg_text args n) (fmlookup (sr_labels row) ''team'')"
| "eval_sql pgrx args row (SqlSuppressedEq n) = Some (sr_suppressed row = arg_bool args n)"
| "eval_sql pgrx args row (SqlClosedEq n) = Some (sr_closed row = arg_bool args n)"
| "eval_sql pgrx args row SqlNotClosed = Some (\<not> sr_closed row)"
| "eval_sql pgrx args row (SqlLabelNe n v) =
     sql_or (Some (fmlookup (sr_labels row) (arg_text args n) = None))
       (map_option (\<lambda>x. x \<noteq> arg_text args v) (fmlookup (sr_labels row) (arg_text args n)))"
| "eval_sql pgrx args row (SqlLabelEq n v) =
     Some (golookup (sr_labels row) (arg_text args n) = arg_text args v)"

text \<open>The placeholders of a condition, and whether the text parses.\<close>

fun sql_params :: "sql \<Rightarrow> nat set" where
  "sql_params (SqlMatch col n op v) = {n, v}"
| "sql_params (SqlAnd cs) = (\<Union>c \<in> set cs. sql_params c)"
| "sql_params (SqlOr cs) = (\<Union>c \<in> set cs. sql_params c)"
| "sql_params (SqlNot c) = sql_params c"
| "sql_params (SqlSourceEq n) = {n}"
| "sql_params (SqlStatusEq n) = {n}"
| "sql_params (SqlSeverityEq n) = {n}"
| "sql_params (SqlTeamEq n) = {n}"
| "sql_params (SqlSuppressedEq n) = {n}"
| "sql_params (SqlClosedEq n) = {n}"
| "sql_params (SqlLabelNe n v) = {n, v}"
| "sql_params (SqlLabelEq n v) = {n, v}"
| "sql_params _ = {}"

fun sql_parses :: "sql \<Rightarrow> bool" where
  "sql_parses (SqlMatch col n op v) \<longleftrightarrow> op \<noteq> ''''"
| "sql_parses (SqlAnd cs) \<longleftrightarrow> cs \<noteq> [] \<and> (\<forall>c \<in> set cs. sql_parses c)"
| "sql_parses (SqlOr cs) \<longleftrightarrow> cs \<noteq> [] \<and> (\<forall>c \<in> set cs. sql_parses c)"
| "sql_parses (SqlNot c) \<longleftrightarrow> sql_parses c"
| "sql_parses _ \<longleftrightarrow> True"

definition statement_ok :: "nat set \<Rightarrow> sql \<Rightarrow> arg list \<Rightarrow> bool" where
  "statement_ok fixed cond args \<longleftrightarrow>
     sql_parses cond \<and> fixed \<union> sql_params cond = {1..length args}"

section \<open>Access conditions\<close>

fun match_conditions :: "label_col \<Rightarrow> arg list \<Rightarrow> LabelMatcher list \<Rightarrow> sql list \<times> arg list" where
  "match_conditions col args [] = ([], args)"
| "match_conditions col args (m # ms) =
     (let args1 = args @ [ArgText (matcher_Name m), ArgText (matcher_Value m)];
          namePosition = length args1 - 1;
          valuePosition = length args1;
          (cs, args2) = match_conditions col args1 ms
      in (SqlMatch col namePosition (sql_operator (matcher_Operator m)) valuePosition # cs, args2))"

text \<open>The loop over the grants, shared by the two access conditions, which differ in the roles
  they read matchers from. The first component is \<^const>\<open>None\<close> for the early return
  \<open>"TRUE", args\<close>: the arguments of the grants already visited stay in the slice.\<close>

fun grant_conditions ::
  "(Role \<Rightarrow> bool) \<Rightarrow> label_col \<Rightarrow> arg list \<Rightarrow> Grant list \<Rightarrow> sql list option \<times> arg list" where
  "grant_conditions scoped col args [] = (Some [], args)"
| "grant_conditions scoped col args (g # gs) =
     (if grant_Role g = RoleAdministrator then (None, args)
      else if \<not> scoped (grant_Role g) then grant_conditions scoped col args gs
      else if grant_Matchers g = [] then (None, args)
      else (let (cs, args1) = match_conditions col args (grant_Matchers g);
                (rest, args2) = grant_conditions scoped col args1 gs
            in (map_option (\<lambda>r. SqlAnd cs # r) rest, args2)))"

definition join_grants :: "sql list option \<Rightarrow> sql" where
  "join_grants r =
     (case r of None \<Rightarrow> SqlTrue | Some gs \<Rightarrow> if gs = [] then SqlFalse else SqlOr gs)"

definition reads :: "Role \<Rightarrow> bool" where
  "reads r \<longleftrightarrow> r = RoleViewer \<or> r = RoleOperator"

definition operates :: "Role \<Rightarrow> bool" where
  "operates r \<longleftrightarrow> r = RoleOperator"

definition readAccessCondition :: "Principal \<Rightarrow> label_col \<Rightarrow> arg list \<Rightarrow> sql \<times> arg list" where
  "readAccessCondition caller col args =
     (if Anonymous caller then (SqlTrue, args)
      else (let (r, args') = grant_conditions reads col args (Grants caller) in (join_grants r, args')))"

definition operateAccessCondition :: "Principal \<Rightarrow> label_col \<Rightarrow> arg list \<Rightarrow> sql \<times> arg list" where
  "operateAccessCondition caller col args =
     (let (r, args') = grant_conditions operates col args (Grants caller) in (join_grants r, args'))"

section \<open>Views\<close>

record resolvedView =
  rv_groups :: "LabelMatcher list list"
  rv_options :: ViewOptions
  rv_requested :: bool

definition resolveView :: "Principal \<Rightarrow> ViewOptions option \<Rightarrow> resolvedView" where
  "resolveView caller options =
     (case options of
        None \<Rightarrow> \<lparr>rv_groups = [], rv_options = \<lparr>ShowAll = False, FilterCritical = False\<rparr>,
                  rv_requested = False\<rparr>
      | Some opts \<Rightarrow> \<lparr>rv_groups = ViewMatchers caller, rv_options = opts, rv_requested = True\<rparr>)"

definition view_active :: "resolvedView \<Rightarrow> bool" where
  "view_active view \<longleftrightarrow> rv_requested view \<and> length (rv_groups view) > 0"

definition view_filtering :: "resolvedView \<Rightarrow> bool" where
  "view_filtering view \<longleftrightarrow> view_active view \<and> \<not> ShowAll (rv_options view)"

definition view_classify :: "regex \<Rightarrow> resolvedView \<Rightarrow> labels \<Rightarrow> ViewMatch" where
  "view_classify rx view labels =
     (if \<not> view_active view then ViewMatchNone
      else ClassifyView rx (rv_groups view) (rv_options view) labels)"

definition view_includes :: "regex \<Rightarrow> resolvedView \<Rightarrow> labels \<Rightarrow> bool" where
  "view_includes rx view labels =
     (if \<not> view_filtering view then True else view_classify rx view labels \<noteq> ViewMatchOutside)"

fun group_conditions ::
  "label_col \<Rightarrow> arg list \<Rightarrow> LabelMatcher list list \<Rightarrow> sql list \<times> arg list" where
  "group_conditions col args [] = ([], args)"
| "group_conditions col args (g # gs) =
     (let (cs, args1) = match_conditions col args g;
          (rest, args2) = group_conditions col args1 gs
      in (SqlAnd cs # rest, args2))"

definition visibleCondition :: "resolvedView \<Rightarrow> label_col \<Rightarrow> arg list \<Rightarrow> sql \<times> arg list" where
  "visibleCondition view col args =
     (let (groups, args') = group_conditions col args (rv_groups view);
          condition = SqlOr groups
      in (if \<not> FilterCritical (rv_options view) then SqlOr [condition, SqlCritical col] else condition,
          args'))"

section \<open>List filters\<close>

datatype viewMode = viewApply | viewInvert

text \<open>One optional filter: append its argument and its condition.\<close>

definition add_filter ::
  "bool \<Rightarrow> (nat \<Rightarrow> sql) \<Rightarrow> arg \<Rightarrow> sql list \<times> arg list \<Rightarrow> sql list \<times> arg list" where
  "add_filter present expression value acc =
     (if present then (fst acc @ [expression (length (snd acc) + 1)], snd acc @ [value]) else acc)"

definition match_filter :: "LabelMatcher \<Rightarrow> nat \<Rightarrow> nat \<Rightarrow> sql" where
  "match_filter m namePosition valuePosition =
     (if matcher_Operator m = ''!='' then SqlLabelNe namePosition valuePosition
      else SqlLabelEq namePosition valuePosition)"

fun match_filters :: "LabelMatcher list \<Rightarrow> sql list \<times> arg list \<Rightarrow> sql list \<times> arg list" where
  "match_filters [] acc = acc"
| "match_filters (m # ms) (conds, args) =
     (let args1 = args @ [ArgText (matcher_Name m), ArgText (matcher_Value m)];
          namePosition = length args1 - 1;
          valuePosition = length args1
      in match_filters ms (conds @ [match_filter m namePosition valuePosition], args1))"

text \<open>The conditions before the optional filters: access, then the view.\<close>

definition access_filters :: "Principal \<Rightarrow> resolvedView \<Rightarrow> viewMode \<Rightarrow> sql list \<times> arg list" where
  "access_filters caller view mode =
     (let (access, args0) = readAccessCondition caller ColLabels []
      in if mode = viewInvert \<or> view_filtering view then
           (let (condition, args1) = visibleCondition view ColLabels args0
            in ([access, if mode = viewInvert then SqlNot condition else condition], args1))
         else ([access], args0))"

text \<open>The optional filters of the query; closed alerts are left out unless asked for.\<close>

definition option_filters :: "Query \<Rightarrow> sql list \<times> arg list \<Rightarrow> sql list \<times> arg list" where
  "option_filters query acc1 =
     (let acc2 = add_filter (query_Source query \<noteq> '''') SqlSourceEq (ArgText (query_Source query)) acc1;
          acc3 = add_filter (query_Status query \<noteq> '''') SqlStatusEq (ArgText (query_Status query)) acc2;
          acc4 = add_filter (query_Severity query \<noteq> '''') SqlSeverityEq (ArgText (query_Severity query)) acc3;
          acc5 = add_filter (query_Team query \<noteq> '''') SqlTeamEq (ArgText (query_Team query)) acc4;
          acc6 = (case query_Suppressed query of None \<Rightarrow> acc5
                  | Some b \<Rightarrow> add_filter True SqlSuppressedEq (ArgBool b) acc5)
      in (case query_Closed query of None \<Rightarrow> (fst acc6 @ [SqlNotClosed], snd acc6)
          | Some b \<Rightarrow> add_filter True SqlClosedEq (ArgBool b) acc6))"

definition alertFiltersWithView ::
  "Principal \<Rightarrow> Query \<Rightarrow> resolvedView \<Rightarrow> viewMode \<Rightarrow> sql \<times> arg list" where
  "alertFiltersWithView caller query view mode =
     (let (conds, args) =
            match_filters (query_Matches query) (option_filters query (access_filters caller view mode))
      in (SqlAnd conds, args))"

definition alertFilters :: "Principal \<Rightarrow> Query \<Rightarrow> sql \<times> arg list" where
  "alertFilters caller query =
     alertFiltersWithView caller query (resolveView caller (query_View query)) viewApply"

section \<open>What the conditions mean\<close>

text \<open>Reference definitions the conditions are compared with: the arguments one conjunction
  of matchers adds, and the decision of one matcher, of a conjunction and of a whole query on a
  row.\<close>

definition matcher_args :: "LabelMatcher list \<Rightarrow> arg list" where
  "matcher_args ms = concat (map (\<lambda>m. [ArgText (matcher_Name m), ArgText (matcher_Value m)]) ms)"

definition pg_match :: "(string \<Rightarrow> string \<Rightarrow> bool) \<Rightarrow> LabelMatcher \<Rightarrow> labels \<Rightarrow> bool" where
  "pg_match pgrx m l \<longleftrightarrow>
     (case fmlookup l (matcher_Name m) of
        None \<Rightarrow> False
      | Some v \<Rightarrow> sql_compare pgrx (sql_operator (matcher_Operator m)) v (matcher_Value m))"

definition pg_match_all :: "(string \<Rightarrow> string \<Rightarrow> bool) \<Rightarrow> LabelMatcher list \<Rightarrow> labels \<Rightarrow> bool" where
  "pg_match_all pgrx ms l \<longleftrightarrow> (\<forall>m \<in> set ms. pg_match pgrx m l)"

definition known_operators :: "LabelMatcher list \<Rightarrow> bool" where
  "known_operators ms \<longleftrightarrow> (\<forall>m \<in> set ms. matcher_Operator m \<in> set supportedMatcherOps)"

text \<open>A matcher whose pattern the two regular-expression engines decide differently on these labels: Go's \<open>regexp\<close> and
  PostgreSQL's \<open>~\<close> have different languages (a dot matches a newline only in the latter, for one), so nothing is assumed
  of their agreement. A pattern that PostgreSQL refuses makes the whole statement fail, which \<open>pgrx\<close> does not represent.\<close>

definition disputed :: "regex \<Rightarrow> (string \<Rightarrow> string \<Rightarrow> bool) \<Rightarrow> labels \<Rightarrow> LabelMatcher \<Rightarrow> bool" where
  "disputed rx pgrx l m \<longleftrightarrow>
     matcher_Operator m \<in> {''=~'', ''!~''} \<and>
     (case fmlookup l (matcher_Name m) of
        None \<Rightarrow> False
      | Some v \<Rightarrow> (rx (matcher_Value m) v = Some True) \<noteq> pgrx (matcher_Value m) v)"

definition undisputed :: "regex \<Rightarrow> (string \<Rightarrow> string \<Rightarrow> bool) \<Rightarrow> labels \<Rightarrow> LabelMatcher list \<Rightarrow> bool" where
  "undisputed rx pgrx l ms \<longleftrightarrow> (\<forall>m \<in> set ms. \<not> disputed rx pgrx l m)"

text \<open>A grant that gives access to everything, and the grant lists whose condition uses every
  argument it appended: nothing scoped comes before the first unrestricted grant.\<close>

definition unrestricted_grant :: "(Role \<Rightarrow> bool) \<Rightarrow> Grant \<Rightarrow> bool" where
  "unrestricted_grant scoped g \<longleftrightarrow>
     grant_Role g = RoleAdministrator \<or> scoped (grant_Role g) \<and> grant_Matchers g = []"

fun clean_grants :: "(Role \<Rightarrow> bool) \<Rightarrow> Grant list \<Rightarrow> bool" where
  "clean_grants scoped [] = True"
| "clean_grants scoped (g # gs) =
     (if unrestricted_grant scoped g then True
      else if scoped (grant_Role g) then \<not> list_ex (unrestricted_grant scoped) gs
      else clean_grants scoped gs)"

definition grants_match ::
  "(LabelMatcher list \<Rightarrow> labels \<Rightarrow> bool) \<Rightarrow> (Role \<Rightarrow> bool) \<Rightarrow> Grant list \<Rightarrow> labels \<Rightarrow> bool" where
  "grants_match sat scoped gs l \<longleftrightarrow>
     (\<exists>g \<in> set gs. grant_Role g = RoleAdministrator \<or>
        scoped (grant_Role g) \<and> sat (grant_Matchers g) l)"

definition known_grants :: "Grant list \<Rightarrow> bool" where
  "known_grants gs \<longleftrightarrow> (\<forall>g \<in> set gs. known_operators (grant_Matchers g))"

text \<open>The decisions the two conditions make, on a row whose labels are \<open>l\<close>.\<close>

definition sql_can_read :: "(string \<Rightarrow> string \<Rightarrow> bool) \<Rightarrow> Principal \<Rightarrow> labels \<Rightarrow> bool" where
  "sql_can_read pgrx caller l =
     (let (condition, args) = readAccessCondition caller ColLabels []
      in sql_true (eval_sql pgrx args
           \<lparr>sr_labels = l, sr_previous = None, sr_source = [], sr_status = [], sr_suppressed = False,
            sr_closed = False\<rparr> condition))"

definition sql_can_operate :: "(string \<Rightarrow> string \<Rightarrow> bool) \<Rightarrow> Principal \<Rightarrow> labels \<Rightarrow> bool" where
  "sql_can_operate pgrx caller l =
     (let (condition, args) = operateAccessCondition caller ColLabels []
      in sql_true (eval_sql pgrx args
           \<lparr>sr_labels = l, sr_previous = None, sr_source = [], sr_status = [], sr_suppressed = False,
            sr_closed = False\<rparr> condition))"

text \<open>An accumulator of conditions and arguments: its placeholders are in range
  (\<open>acc_closed\<close>), every argument has its placeholder (\<open>acc_exact\<close>), the conditions
  hold of a row (\<open>acc_sel\<close>).\<close>

definition acc_params :: "sql list \<times> arg list \<Rightarrow> nat set" where
  "acc_params acc = (\<Union>c \<in> set (fst acc). sql_params c)"

definition acc_closed :: "sql list \<times> arg list \<Rightarrow> bool" where
  "acc_closed acc \<longleftrightarrow> acc_params acc \<subseteq> {1..length (snd acc)}"

definition acc_exact :: "sql list \<times> arg list \<Rightarrow> bool" where
  "acc_exact acc \<longleftrightarrow> acc_params acc = {1..length (snd acc)} \<and> (\<forall>c \<in> set (fst acc). sql_parses c)"

definition acc_sel :: "(string \<Rightarrow> string \<Rightarrow> bool) \<Rightarrow> sql_row \<Rightarrow> sql list \<times> arg list \<Rightarrow> bool" where
  "acc_sel pgrx row acc \<longleftrightarrow> (\<forall>c \<in> set (fst acc). sql_true (eval_sql pgrx (snd acc) row c))"

definition filter_expression :: "(nat \<Rightarrow> sql) \<Rightarrow> bool" where
  "filter_expression e \<longleftrightarrow> (\<forall>n. sql_params (e n) = {n} \<and> sql_parses (e n))"

definition filter_matches :: "LabelMatcher \<Rightarrow> labels \<Rightarrow> bool" where
  "filter_matches m l \<longleftrightarrow>
     (if matcher_Operator m = ''!='' then fmlookup l (matcher_Name m) \<noteq> Some (matcher_Value m)
      else golookup l (matcher_Name m) = matcher_Value m)"

definition sql_visible :: "(string \<Rightarrow> string \<Rightarrow> bool) \<Rightarrow> resolvedView \<Rightarrow> labels \<Rightarrow> bool" where
  "sql_visible pgrx view l \<longleftrightarrow>
     (\<exists>g \<in> set (rv_groups view). pg_match_all pgrx g l) \<or>
     \<not> FilterCritical (rv_options view) \<and> IsCritical l"

text \<open>What a list query selects.\<close>

definition query_selects ::
  "(string \<Rightarrow> string \<Rightarrow> bool) \<Rightarrow> Principal \<Rightarrow> Query \<Rightarrow> resolvedView \<Rightarrow> viewMode \<Rightarrow> sql_row \<Rightarrow> bool" where
  "query_selects pgrx caller q view mode row \<longleftrightarrow>
     sql_can_read pgrx caller (sr_labels row) \<and>
     (if mode = viewInvert then \<not> sql_visible pgrx view (sr_labels row)
      else view_filtering view \<longrightarrow> sql_visible pgrx view (sr_labels row)) \<and>
     (query_Source q \<noteq> '''' \<longrightarrow> sr_source row = query_Source q) \<and>
     (query_Status q \<noteq> '''' \<longrightarrow> sr_status row = query_Status q) \<and>
     (query_Severity q \<noteq> '''' \<longrightarrow> severity_of (sr_labels row) = query_Severity q) \<and>
     (query_Team q \<noteq> '''' \<longrightarrow> fmlookup (sr_labels row) ''team'' = Some (query_Team q)) \<and>
     (\<forall>b. query_Suppressed q = Some b \<longrightarrow> sr_suppressed row = b) \<and>
     sr_closed row = (query_Closed q = Some True) \<and>
     (\<forall>m \<in> set (query_Matches q). filter_matches m (sr_labels row))"

text \<open>Sample callers: a scoped operator, and one whose scoped grant comes before an unrestricted
  one.\<close>

definition sample_labels :: labels where
  "sample_labels = fmap_of_list [(''alertname'', ''HighCPU''), (''severity'', ''critical''), (''team'', ''web'')]"

definition sample_matcher :: LabelMatcher where
  "sample_matcher = \<lparr>matcher_Name = ''team'', matcher_Operator = ''='', matcher_Value = ''web''\<rparr>"

definition sample_operator :: Principal where
  "sample_operator = \<lparr>UserID = 7, Subject = ''alice'', Email = '''', DisplayName = ''Alice'',
     Roles = [''operator''], Anonymous = False,
     Grants = [\<lparr>grant_Role = RoleOperator, grant_Matchers = [sample_matcher]\<rparr>], ViewGroups = []\<rparr>"

definition sample_mixed :: Principal where
  "sample_mixed = sample_operator\<lparr>Grants :=
     [\<lparr>grant_Role = RoleOperator, grant_Matchers = [sample_matcher]\<rparr>,
      \<lparr>grant_Role = RoleAdministrator, grant_Matchers = []\<rparr>]\<rparr>"

section \<open>Lemmas\<close>

subsection \<open>Arguments keep their positions\<close>

lemma arg_text_append [simp]: "n \<le> length args \<Longrightarrow> arg_text (args @ xs) n = arg_text args n"
  by (auto simp: arg_text_def nth_append)

lemma arg_bool_append [simp]: "n \<le> length args \<Longrightarrow> arg_bool (args @ xs) n = arg_bool args n"
  by (auto simp: arg_bool_def nth_append)

lemma arg_text_last [simp]: "arg_text (args @ ArgText s # xs) (Suc (length args)) = s"
  by (simp add: arg_text_def nth_append)

lemma arg_text_last2 [simp]: "arg_text (args @ x # ArgText s # xs) (Suc (Suc (length args))) = s"
  by (simp add: arg_text_def nth_append)

lemma arg_bool_last [simp]: "arg_bool (args @ ArgBool b # xs) (Suc (length args)) = b"
  by (simp add: arg_bool_def nth_append)

lemma eval_sql_append:
  "sql_params c \<subseteq> {1..length args} \<Longrightarrow> eval_sql pgrx (args @ xs) row c = eval_sql pgrx args row c"
proof (induction c)
  case (SqlAnd cs)
  then have "map (eval_sql pgrx (args @ xs) row) cs = map (eval_sql pgrx args row) cs" by fastforce
  then show ?case by (simp only: eval_sql.simps)
next
  case (SqlOr cs)
  then have "map (eval_sql pgrx (args @ xs) row) cs = map (eval_sql pgrx args row) cs" by fastforce
  then show ?case by (simp only: eval_sql.simps)
qed (auto split: option.splits)

lemma matcher_args_simps [simp]:
  "matcher_args [] = []"
  "matcher_args (m # ms) = ArgText (matcher_Name m) # ArgText (matcher_Value m) # matcher_args ms"
  by (simp_all add: matcher_args_def)

lemma length_matcher_args [simp]: "length (matcher_args ms) = 2 * length ms"
  by (induction ms) auto

subsection \<open>One conjunction of matchers\<close>

lemma snd_match_conditions: "snd (match_conditions col args ms) = args @ matcher_args ms"
  by (induction ms arbitrary: args) (auto simp: Let_def case_prod_beta)

lemma fst_match_conditions_Nil [simp]: "fst (match_conditions col args ms) = [] \<longleftrightarrow> ms = []"
  by (cases ms) (auto simp: Let_def case_prod_beta)

lemma params_match_conditions:
  "(\<Union>c \<in> set (fst (match_conditions col args ms)). sql_params c) =
     {length args + 1..length args + 2 * length ms}"
proof (induction ms arbitrary: args)
  case (Cons m ms)
  have "{Suc (length args)..Suc (Suc (length args + 2 * length ms))} =
      {Suc (length args), Suc (Suc (length args))} \<union> {Suc (Suc (Suc (length args)))..Suc (Suc (length args + 2 * length ms))}"
    by auto
  with Cons [of "args @ [ArgText (matcher_Name m), ArgText (matcher_Value m)]"] show ?case
    by (simp add: Let_def case_prod_beta)
qed simp

lemma parses_match_conditions:
  "(\<forall>c \<in> set (fst (match_conditions col args ms)). sql_parses c) \<longleftrightarrow> known_operators ms"
  by (induction ms arbitrary: args)
    (auto simp: Let_def case_prod_beta known_operators_def sql_operator_def supportedMatcherOps_def
      split: if_splits)

lemma eval_match_conditions:
  assumes "col_value row col = Some l"
  shows "map (eval_sql pgrx (args @ matcher_args ms @ xs) row) (fst (match_conditions col args ms)) =
    map (\<lambda>m. Some (pg_match pgrx m l)) ms"
proof (induction ms arbitrary: args)
  case (Cons m ms)
  show ?case
    using Cons [of "args @ [ArgText (matcher_Name m), ArgText (matcher_Value m)]"] assms
    by (auto simp: Let_def case_prod_beta pg_match_def sql_and_def split: option.splits)
qed simp

lemma eval_match_conditions_null:
  assumes "col_value row col = None"
  shows "map (eval_sql pgrx args' row) (fst (match_conditions col args ms)) = map (\<lambda>m. None) ms"
  using assms by (induction ms arbitrary: args) (auto simp: Let_def case_prod_beta)

lemma sql_ands_Some: "sql_ands (map (\<lambda>x. Some (P x)) xs) = Some (\<forall>x \<in> set xs. P x)"
  by (induction xs) auto

lemma sql_ors_Some: "sql_ors (map (\<lambda>x. Some (P x)) xs) = Some (\<exists>x \<in> set xs. P x)"
  by (induction xs) auto

lemma eval_and_match_conditions:
  "col_value row col = Some l \<Longrightarrow>
   eval_sql pgrx (args @ matcher_args ms @ xs) row (SqlAnd (fst (match_conditions col args ms))) =
     Some (pg_match_all pgrx ms l)"
  by (simp add: eval_match_conditions sql_ands_Some pg_match_all_def)

lemma match_one_pg:
  assumes "matcher_Operator m \<in> set supportedMatcherOps"
  shows "(\<exists>v. fmlookup l (matcher_Name m) = Some v \<and> match_operator rx m v) \<noteq> pg_match pgrx m l \<longleftrightarrow> disputed rx pgrx l m"
  using assms
  by (auto simp: match_operator_def sql_operator_def sql_compare_def disputed_def pg_match_def supportedMatcherOps_def
      split: option.splits)

lemma match_all_pg:
  assumes "known_operators ms" "undisputed rx pgrx l ms"
  shows "match_all rx ms l \<longleftrightarrow> pg_match_all pgrx ms l"
proof -
  have "(\<exists>v. fmlookup l (matcher_Name m) = Some v \<and> match_operator rx m v) \<longleftrightarrow> pg_match pgrx m l" if "m \<in> set ms" for m
    using assms that match_one_pg [of m l rx pgrx] by (auto simp: known_operators_def undisputed_def)
  then show ?thesis by (auto simp: match_all_iff pg_match_all_def)
qed

subsection \<open>The loop over the grants\<close>

lemma sql_ands_null [simp]: "sql_ands (map (\<lambda>x. None) xs) = (if xs = [] then Some True else None)"
  by (induction xs) (auto simp: sql_and_def)

lemma grant_conditions_None:
  "fst (grant_conditions scoped col args gs) = None \<longleftrightarrow> list_ex (unrestricted_grant scoped) gs"
  by (induction gs arbitrary: args)
    (auto simp: Let_def case_prod_beta unrestricted_grant_def)

lemma grant_conditions_args:
  "snd (grant_conditions scoped col args gs) =
     args @ concat (map (\<lambda>g. matcher_args (grant_Matchers g))
       (filter (\<lambda>g. scoped (grant_Role g)) (takeWhile (\<lambda>g. \<not> unrestricted_grant scoped g) gs)))"
  by (induction gs arbitrary: args)
    (auto simp: Let_def case_prod_beta unrestricted_grant_def snd_match_conditions)

lemma grant_conditions_params:
  "fst (grant_conditions scoped col args gs) = Some cs \<Longrightarrow>
   (\<Union>c \<in> set cs. sql_params c) = {length args + 1..length (snd (grant_conditions scoped col args gs))}"
proof (induction gs arbitrary: args cs)
  case (Cons g gs)
  show ?case
  proof (cases "scoped (grant_Role g)")
    case False
    with Cons show ?thesis by (auto split: if_splits)
  next
    case True
    let ?args1 = "args @ matcher_args (grant_Matchers g)"
    have ne: "grant_Role g \<noteq> RoleAdministrator" "grant_Matchers g \<noteq> []"
      using Cons.prems True by (auto split: if_splits)
    then obtain ds where ds: "fst (grant_conditions scoped col ?args1 gs) = Some ds"
      and cs: "cs = SqlAnd (fst (match_conditions col args (grant_Matchers g))) # ds"
      using Cons.prems True by (auto simp: Let_def case_prod_beta snd_match_conditions)
    have le: "length ?args1 \<le> length (snd (grant_conditions scoped col ?args1 gs))"
      by (simp add: grant_conditions_args)
    have "(\<Union>c \<in> set cs. sql_params c) =
        {length args + 1..length ?args1} \<union>
        {length ?args1 + 1..length (snd (grant_conditions scoped col ?args1 gs))}"
      using Cons.IH [OF ds] params_match_conditions [of col args "grant_Matchers g"]
      by (simp add: cs)
    also have "\<dots> = {length args + 1..length (snd (grant_conditions scoped col ?args1 gs))}"
      using le by auto
    finally show ?thesis
      using ne True by (simp add: Let_def case_prod_beta snd_match_conditions)
  qed
qed simp

lemma grant_conditions_parse:
  "fst (grant_conditions scoped col args gs) = Some cs \<Longrightarrow> known_grants gs \<Longrightarrow>
   \<forall>c \<in> set cs. sql_parses c"
proof (induction gs arbitrary: args cs)
  case (Cons g gs)
  have "known_operators (grant_Matchers g)" "known_grants gs"
    using Cons.prems(2) by (auto simp: known_grants_def)
  then show ?case
    using Cons.prems(1) Cons.IH parses_match_conditions [of col args "grant_Matchers g"]
    by (auto simp: Let_def case_prod_beta split: if_splits)
qed simp

lemma eval_grant_conditions:
  assumes "col_value row col = Some l"
  shows "fst (grant_conditions scoped col args gs) = Some cs \<Longrightarrow>
    map (eval_sql pgrx (snd (grant_conditions scoped col args gs) @ xs) row) cs =
    map (\<lambda>g. Some (pg_match_all pgrx (grant_Matchers g) l)) (filter (\<lambda>g. scoped (grant_Role g)) gs)"
proof (induction gs arbitrary: args cs)
  case (Cons g gs)
  show ?case
  proof (cases "scoped (grant_Role g)")
    case False
    with Cons show ?thesis by (auto split: if_splits)
  next
    case True
    let ?args1 = "args @ matcher_args (grant_Matchers g)"
    have ne: "grant_Role g \<noteq> RoleAdministrator" "grant_Matchers g \<noteq> []"
      using Cons.prems True by (auto split: if_splits)
    then obtain ds where ds: "fst (grant_conditions scoped col ?args1 gs) = Some ds"
      and cs: "cs = SqlAnd (fst (match_conditions col args (grant_Matchers g))) # ds"
      using Cons.prems True by (auto simp: Let_def case_prod_beta snd_match_conditions)
    have here: "snd (grant_conditions scoped col args (g # gs)) =
        snd (grant_conditions scoped col ?args1 gs)"
      using ne True by (simp add: Let_def case_prod_beta snd_match_conditions)
    obtain ys where ys: "snd (grant_conditions scoped col ?args1 gs) = ?args1 @ ys"
      by (simp add: grant_conditions_args)
    show ?thesis
      using Cons.IH [OF ds] eval_and_match_conditions [OF assms, of pgrx args "grant_Matchers g" "ys @ xs"] True
      by (simp only: here cs list.map filter.simps if_True) (simp only: ys append_assoc)
  qed
qed simp

lemma eval_join_grants:
  assumes "col_value row col = Some l"
  shows "eval_sql pgrx (snd (grant_conditions scoped col args gs) @ xs) row
      (join_grants (fst (grant_conditions scoped col args gs))) =
    Some (grants_match (pg_match_all pgrx) scoped gs l)"
proof (cases "fst (grant_conditions scoped col args gs)")
  case None
  then have "list_ex (unrestricted_grant scoped) gs" by (simp add: grant_conditions_None)
  then have "grants_match (pg_match_all pgrx) scoped gs l"
    by (auto simp: list_ex_iff grants_match_def unrestricted_grant_def pg_match_all_def)
  with None show ?thesis by (simp add: join_grants_def)
next
  case (Some cs)
  then have "\<not> list_ex (unrestricted_grant scoped) gs"
    using grant_conditions_None [of scoped col args gs] by simp
  then have admin: "grant_Role g \<noteq> RoleAdministrator" if "g \<in> set gs" for g
    using that by (auto simp: list_ex_iff unrestricted_grant_def)
  note ev = eval_grant_conditions [OF assms Some, of pgrx xs]
  have "eval_sql pgrx (snd (grant_conditions scoped col args gs) @ xs) row (join_grants (Some cs)) =
      sql_ors (map (eval_sql pgrx (snd (grant_conditions scoped col args gs) @ xs) row) cs)"
    by (simp add: join_grants_def)
  also have "\<dots> = Some (\<exists>g \<in> set gs. scoped (grant_Role g) \<and> pg_match_all pgrx (grant_Matchers g) l)"
    unfolding ev by (subst sql_ors_Some) auto
  finally show ?thesis
    using Some admin by (auto simp: grants_match_def)
qed

subsection \<open>When the statement is accepted\<close>

lemma clean_grants_args:
  "clean_grants scoped gs \<longleftrightarrow>
     \<not> list_ex (unrestricted_grant scoped) gs \<or>
     filter (\<lambda>g. scoped (grant_Role g)) (takeWhile (\<lambda>g. \<not> unrestricted_grant scoped g) gs) = []"
  by (induction gs) auto

lemma matcher_args_Nil [simp]: "matcher_args ms = [] \<longleftrightarrow> ms = []"
  by (cases ms) auto

lemma scoped_prefix_args:
  "concat (map (\<lambda>g. matcher_args (grant_Matchers g))
     (filter (\<lambda>g. scoped (grant_Role g)) (takeWhile (\<lambda>g. \<not> unrestricted_grant scoped g) gs))) = [] \<longleftrightarrow>
   filter (\<lambda>g. scoped (grant_Role g)) (takeWhile (\<lambda>g. \<not> unrestricted_grant scoped g) gs) = []"
  by (induction gs) (auto simp: unrestricted_grant_def)

lemma placeholders_extended: "{1..n} = {1..n + length xs} \<longleftrightarrow> xs = []" for n :: nat
  by (cases xs) (auto simp: atLeastatMost_empty_iff)

lemma join_grants_accepted:
  assumes "known_grants gs"
  shows "statement_ok {1..length args} (join_grants (fst (grant_conditions scoped col args gs)))
      (snd (grant_conditions scoped col args gs)) \<longleftrightarrow> clean_grants scoped gs"
proof (cases "fst (grant_conditions scoped col args gs)")
  case None
  let ?more = "concat (map (\<lambda>g. matcher_args (grant_Matchers g))
    (filter (\<lambda>g. scoped (grant_Role g)) (takeWhile (\<lambda>g. \<not> unrestricted_grant scoped g) gs)))"
  have "{1..length args} = {1..length args + length ?more} \<longleftrightarrow> ?more = []"
    by (rule placeholders_extended)
  with None show ?thesis
    using scoped_prefix_args [of scoped gs] grant_conditions_None [of scoped col args gs]
    by (simp add: join_grants_def statement_ok_def grant_conditions_args clean_grants_args)
next
  case (Some cs)
  have clean: "clean_grants scoped gs"
    using Some grant_conditions_None [of scoped col args gs] by (simp add: clean_grants_args)
  have len: "length args \<le> length (snd (grant_conditions scoped col args gs))"
    by (simp add: grant_conditions_args)
  have "{1..length args} \<union> (\<Union>c \<in> set cs. sql_params c) =
      {1..length (snd (grant_conditions scoped col args gs))}"
    using len by (auto simp: grant_conditions_params [OF Some])
  with Some grant_conditions_parse [OF Some assms] clean show ?thesis
    by (auto simp: join_grants_def statement_ok_def)
qed

subsection \<open>The access conditions\<close>

lemma readAccessCondition_simps:
  "fst (readAccessCondition caller col args) =
     (if Anonymous caller then SqlTrue else join_grants (fst (grant_conditions reads col args (Grants caller))))"
  "snd (readAccessCondition caller col args) =
     (if Anonymous caller then args else snd (grant_conditions reads col args (Grants caller)))"
  by (simp_all add: readAccessCondition_def case_prod_beta)

lemma operateAccessCondition_simps:
  "fst (operateAccessCondition caller col args) =
     join_grants (fst (grant_conditions operates col args (Grants caller)))"
  "snd (operateAccessCondition caller col args) = snd (grant_conditions operates col args (Grants caller))"
  by (simp_all add: operateAccessCondition_def case_prod_beta)

lemma eval_readAccessCondition:
  "col_value row col = Some l \<Longrightarrow>
   eval_sql pgrx (snd (readAccessCondition caller col args) @ xs) row
     (fst (readAccessCondition caller col args)) =
   Some (Anonymous caller \<or> grants_match (pg_match_all pgrx) reads (Grants caller) l)"
  by (simp add: readAccessCondition_simps eval_join_grants)

lemma eval_operateAccessCondition:
  "col_value row col = Some l \<Longrightarrow>
   eval_sql pgrx (snd (operateAccessCondition caller col args) @ xs) row
     (fst (operateAccessCondition caller col args)) =
   Some (grants_match (pg_match_all pgrx) operates (Grants caller) l)"
  by (simp add: operateAccessCondition_simps eval_join_grants)

lemma sql_can_read_iff:
  "sql_can_read pgrx caller l \<longleftrightarrow>
     Anonymous caller \<or> grants_match (pg_match_all pgrx) reads (Grants caller) l"
  using eval_readAccessCondition [of _ ColLabels l pgrx caller "[]" "[]"]
  by (simp add: sql_can_read_def case_prod_beta col_value_def)

lemma sql_can_operate_iff:
  "sql_can_operate pgrx caller l \<longleftrightarrow> grants_match (pg_match_all pgrx) operates (Grants caller) l"
  using eval_operateAccessCondition [of _ ColLabels l pgrx caller "[]" "[]"]
  by (simp add: sql_can_operate_def case_prod_beta col_value_def)

lemma eval_read_can_read:
  "col_value row col = Some l \<Longrightarrow>
   eval_sql pgrx (snd (readAccessCondition caller col args) @ xs) row
     (fst (readAccessCondition caller col args)) = Some (sql_can_read pgrx caller l)"
  by (simp add: eval_readAccessCondition sql_can_read_iff)

lemma eval_operate_can_operate:
  "col_value row col = Some l \<Longrightarrow>
   eval_sql pgrx (snd (operateAccessCondition caller col args) @ xs) row
     (fst (operateAccessCondition caller col args)) = Some (sql_can_operate pgrx caller l)"
  by (simp add: eval_operateAccessCondition sql_can_operate_iff)

interpretation sql_access: scoped_access "pg_match_all pgrx" "sql_can_read pgrx" "sql_can_operate pgrx"
  for pgrx
  by unfold_locales
    (auto simp: sql_can_read_iff sql_can_operate_iff grants_match_def reads_def operates_def)

lemma grants_match_agree:
  assumes "known_grants gs" "\<forall>g \<in> set gs. scoped (grant_Role g) \<longrightarrow> undisputed rx pgrx l (grant_Matchers g)"
  shows "grants_match (match_all rx) scoped gs l \<longleftrightarrow> grants_match (pg_match_all pgrx) scoped gs l"
  using assms match_all_pg [of _ rx pgrx l] by (auto simp: grants_match_def known_grants_def)

lemma scopes_differ:
  assumes "known_grants (Grants caller)"
  shows "sql_can_read pgrx caller l \<noteq> CanReadLabels rx caller l \<Longrightarrow>
      \<exists>g \<in> set (Grants caller). reads (grant_Role g) \<and> \<not> undisputed rx pgrx l (grant_Matchers g)"
    and "sql_can_operate pgrx caller l \<noteq> CanOperateLabels rx caller l \<Longrightarrow>
      \<exists>g \<in> set (Grants caller). operates (grant_Role g) \<and> \<not> undisputed rx pgrx l (grant_Matchers g)"
  using grants_match_agree [OF assms, of reads rx pgrx l] grants_match_agree [OF assms, of operates rx pgrx l]
  by (auto simp: sql_can_read_iff sql_can_operate_iff go_access.read_iff go_access.operate_iff
      grants_match_def reads_def operates_def)

lemma plain_undisputed:
  "\<forall>m \<in> set ms. matcher_Operator m \<in> {''='', ''!=''} \<Longrightarrow> undisputed rx pgrx l ms"
  by (auto simp: undisputed_def disputed_def)

lemma readAccessCondition_accepted:
  "known_grants (Grants caller) \<Longrightarrow>
   statement_ok {1..length args} (fst (readAccessCondition caller col args))
     (snd (readAccessCondition caller col args)) \<longleftrightarrow>
   Anonymous caller \<or> clean_grants reads (Grants caller)"
  using join_grants_accepted [of "Grants caller" args reads col]
  by (auto simp: readAccessCondition_simps statement_ok_def)

lemma operateAccessCondition_accepted:
  "known_grants (Grants caller) \<Longrightarrow>
   statement_ok {1..length args} (fst (operateAccessCondition caller col args))
     (snd (operateAccessCondition caller col args)) \<longleftrightarrow> clean_grants operates (Grants caller)"
  using join_grants_accepted [of "Grants caller" args operates col]
  by (simp add: operateAccessCondition_simps)

lemma access_args_prefix:
  "\<exists>xs. snd (readAccessCondition caller col args) = args @ xs"
  "\<exists>xs. snd (operateAccessCondition caller col args) = args @ xs"
  by (simp_all add: readAccessCondition_simps operateAccessCondition_simps grant_conditions_args)

subsection \<open>View conditions\<close>

lemma snd_group_conditions:
  "snd (group_conditions col args gs) = args @ concat (map matcher_args gs)"
  by (induction gs arbitrary: args) (auto simp: Let_def case_prod_beta snd_match_conditions)

lemma group_conditions_Nil [simp]: "fst (group_conditions col args gs) = [] \<longleftrightarrow> gs = []"
  by (cases gs) (auto simp: Let_def case_prod_beta)

lemma params_group_conditions:
  "(\<Union>c \<in> set (fst (group_conditions col args gs)). sql_params c) =
     {length args + 1..length (snd (group_conditions col args gs))}"
proof (induction gs arbitrary: args)
  case (Cons g gs)
  let ?args1 = "args @ matcher_args g"
  have le: "length ?args1 \<le> length (snd (group_conditions col ?args1 gs))"
    by (simp add: snd_group_conditions)
  have "(\<Union>c \<in> set (fst (group_conditions col args (g # gs))). sql_params c) =
      {length args + 1..length ?args1} \<union>
      {length ?args1 + 1..length (snd (group_conditions col ?args1 gs))}"
    using Cons.IH [of ?args1] params_match_conditions [of col args g]
    by (simp add: Let_def case_prod_beta snd_match_conditions)
  also have "\<dots> = {length args + 1..length (snd (group_conditions col ?args1 gs))}"
    using le by auto
  finally show ?case by (simp add: Let_def case_prod_beta snd_match_conditions)
qed simp

lemma parses_group_conditions:
  "\<forall>g \<in> set gs. g \<noteq> [] \<and> known_operators g \<Longrightarrow>
   \<forall>c \<in> set (fst (group_conditions col args gs)). sql_parses c"
proof (induction gs arbitrary: args)
  case (Cons g gs)
  then show ?case
    using parses_match_conditions [of col args g] by (auto simp: Let_def case_prod_beta)
qed simp

lemma eval_group_conditions:
  assumes "col_value row col = Some l"
  shows "map (eval_sql pgrx (snd (group_conditions col args gs) @ xs) row) (fst (group_conditions col args gs)) =
    map (\<lambda>g. Some (pg_match_all pgrx g l)) gs"
proof (induction gs arbitrary: args)
  case (Cons g gs)
  let ?args1 = "args @ matcher_args g"
  obtain ys where ys: "snd (group_conditions col ?args1 gs) = ?args1 @ ys"
    by (simp add: snd_group_conditions)
  have here: "group_conditions col args (g # gs) =
      (SqlAnd (fst (match_conditions col args g)) # fst (group_conditions col ?args1 gs),
       snd (group_conditions col ?args1 gs))"
    by (simp add: Let_def case_prod_beta snd_match_conditions)
  show ?case
    using Cons [of ?args1] eval_and_match_conditions [OF assms, of pgrx args g "ys @ xs"]
    by (simp only: here fst_conv snd_conv list.map) (simp only: ys append_assoc)
qed simp

lemma severity_critical: "severity_of l = ''critical'' \<longleftrightarrow> IsCritical l"
  by (auto simp: severity_of_def IsCritical_iff split: option.splits)

lemma eval_visibleCondition:
  assumes "col_value row col = Some l"
  shows "eval_sql pgrx (snd (visibleCondition view col args) @ xs) row (fst (visibleCondition view col args)) =
    Some (sql_visible pgrx view l)"
proof -
  have "map (\<lambda>g. Some (pg_match_all pgrx g l)) gs = map (\<lambda>x. Some ((\<lambda>g. pg_match_all pgrx g l) x)) gs" for gs
    by simp
  then show ?thesis
    using eval_group_conditions [OF assms, of pgrx args "rv_groups view" xs] assms
    by (auto simp: visibleCondition_def Let_def case_prod_beta sql_ors_Some severity_critical sql_visible_def)
qed

lemma view_includes_sql:
  assumes "view_filtering view" "\<forall>g \<in> set (rv_groups view). g \<noteq> [] \<and> known_operators g \<and> undisputed rx pgrx l g"
  shows "view_includes rx view l \<longleftrightarrow> sql_visible pgrx view l"
proof -
  have "view_active view" using assms(1) by (simp add: view_filtering_def)
  moreover have "MatchViewGroups rx (rv_groups view) l \<longleftrightarrow> (\<exists>g \<in> set (rv_groups view). pg_match_all pgrx g l)"
    using assms(2) match_all_pg [of _ rx pgrx l] by (auto simp: MatchViewGroups_iff)
  ultimately show ?thesis
    using assms(1) by (auto simp: view_includes_def view_classify_def ClassifyView_outside sql_visible_def)
qed

lemma snd_visibleCondition:
  "snd (visibleCondition view col args) = args @ concat (map matcher_args (rv_groups view))"
  by (simp add: visibleCondition_def Let_def case_prod_beta snd_group_conditions)

lemma params_visibleCondition:
  "sql_params (fst (visibleCondition view col args)) =
     {length args + 1..length (snd (visibleCondition view col args))}"
  using params_group_conditions [of col args "rv_groups view"]
  by (simp add: visibleCondition_def Let_def case_prod_beta)

lemma parses_visibleCondition:
  assumes "rv_groups view \<noteq> []" "\<forall>g \<in> set (rv_groups view). g \<noteq> [] \<and> known_operators g"
  shows "sql_parses (fst (visibleCondition view col args))"
  using assms parses_group_conditions [of "rv_groups view" col args]
  by (simp add: visibleCondition_def Let_def case_prod_beta)

subsection \<open>List filters\<close>

lemma acc_closed_eval:
  "acc_closed acc \<Longrightarrow> c \<in> set (fst acc) \<Longrightarrow> eval_sql pgrx (snd acc @ xs) row c = eval_sql pgrx (snd acc) row c"
  by (rule eval_sql_append) (auto simp: acc_closed_def acc_params_def)

lemma acc_push:
  assumes "acc_closed acc" "sql_params c \<subseteq> {1..length (snd acc) + length xs}"
  shows "acc_closed (fst acc @ [c], snd acc @ xs)"
    and "acc_sel pgrx row (fst acc @ [c], snd acc @ xs) \<longleftrightarrow>
      acc_sel pgrx row acc \<and> sql_true (eval_sql pgrx (snd acc @ xs) row c)"
  using assms by (force simp: acc_closed_def acc_params_def, auto simp: acc_sel_def acc_closed_eval)

lemma acc_push_exact:
  assumes "acc_exact acc" "sql_params c = {length (snd acc) + 1..length (snd acc) + length xs}" "sql_parses c"
  shows "acc_exact (fst acc @ [c], snd acc @ xs)"
  using assms by (auto simp: acc_exact_def acc_params_def)

lemma filter_expressions [simp]:
  "filter_expression SqlSourceEq" "filter_expression SqlStatusEq" "filter_expression SqlSeverityEq"
  "filter_expression SqlTeamEq" "filter_expression SqlSuppressedEq" "filter_expression SqlClosedEq"
  by (simp_all add: filter_expression_def)

lemma add_filter_closed:
  "acc_closed acc \<Longrightarrow> filter_expression e \<Longrightarrow> acc_closed (add_filter present e v acc)"
  using acc_push(1) [of acc "e (length (snd acc) + 1)" "[v]"]
  by (simp add: add_filter_def filter_expression_def)

lemma add_filter_exact:
  "acc_exact acc \<Longrightarrow> filter_expression e \<Longrightarrow> acc_exact (add_filter present e v acc)"
  using acc_push_exact [of acc "e (length (snd acc) + 1)" "[v]"]
  by (simp add: add_filter_def filter_expression_def)

lemma add_filter_sel:
  "acc_closed acc \<Longrightarrow> filter_expression e \<Longrightarrow>
   acc_sel pgrx row (add_filter present e v acc) \<longleftrightarrow>
     acc_sel pgrx row acc \<and>
     (present \<longrightarrow> sql_true (eval_sql pgrx (snd acc @ [v]) row (e (Suc (length (snd acc))))))"
  using acc_push(2) [of acc "e (length (snd acc) + 1)" "[v]" pgrx row]
  by (simp add: add_filter_def filter_expression_def)

lemma match_filters_sel:
  assumes "acc_closed (conds, args)"
  shows "acc_closed (match_filters ms (conds, args)) \<and>
    (acc_sel pgrx row (match_filters ms (conds, args)) \<longleftrightarrow>
      acc_sel pgrx row (conds, args) \<and> (\<forall>m \<in> set ms. filter_matches m (sr_labels row)))"
  using assms
proof (induction ms arbitrary: conds args)
  case (Cons m ms)
  let ?c = "match_filter m (Suc (length args)) (Suc (Suc (length args)))"
  let ?xs = "[ArgText (matcher_Name m), ArgText (matcher_Value m)]"
  have p: "sql_params ?c \<subseteq> {1..length (snd (conds, args)) + length ?xs}"
    by (auto simp: match_filter_def)
  have e: "sql_true (eval_sql pgrx (args @ ?xs) row ?c) \<longleftrightarrow> filter_matches m (sr_labels row)"
    by (auto simp: match_filter_def filter_matches_def sql_or_def split: if_splits)
  show ?case
    using Cons.IH [OF acc_push(1) [OF Cons.prems p, unfolded fst_conv snd_conv]]
      acc_push(2) [OF Cons.prems p, of pgrx row, unfolded fst_conv snd_conv] e
    by (simp add: Let_def)
qed simp

lemma match_filters_exact: "acc_exact (conds, args) \<Longrightarrow> acc_exact (match_filters ms (conds, args))"
proof (induction ms arbitrary: conds args)
  case (Cons m ms)
  let ?c = "match_filter m (Suc (length args)) (Suc (Suc (length args)))"
  let ?xs = "[ArgText (matcher_Name m), ArgText (matcher_Value m)]"
  have "sql_params ?c = {length (snd (conds, args)) + 1..length (snd (conds, args)) + length ?xs}"
    "sql_parses ?c"
    by (auto simp: match_filter_def)
  from Cons.IH [OF acc_push_exact [OF Cons.prems this, unfolded fst_conv snd_conv]] show ?case
    by (simp add: Let_def)
qed simp

lemma join_grants_params:
  "sql_params (join_grants (fst (grant_conditions scoped col args gs))) \<subseteq>
     {length args + 1..length (snd (grant_conditions scoped col args gs))}"
proof (cases "fst (grant_conditions scoped col args gs)")
  case (Some cs)
  have "sql_params (join_grants (Some cs)) \<subseteq> (\<Union>c \<in> set cs. sql_params c)"
    by (simp add: join_grants_def)
  with Some grant_conditions_params [OF Some] show ?thesis by simp
qed (simp add: join_grants_def)

lemma read_params:
  "sql_params (fst (readAccessCondition caller col args)) \<subseteq>
     {length args + 1..length (snd (readAccessCondition caller col args))}"
  using join_grants_params [of reads col args "Grants caller"] by (simp add: readAccessCondition_simps)

lemma operate_params:
  "sql_params (fst (operateAccessCondition caller col args)) \<subseteq>
     {length args + 1..length (snd (operateAccessCondition caller col args))}"
  using join_grants_params [of operates col args "Grants caller"] by (simp add: operateAccessCondition_simps)

lemma alertFiltersWithView_stages:
  "alertFiltersWithView caller query view mode =
     (let acc = match_filters (query_Matches query) (option_filters query (access_filters caller view mode))
      in (SqlAnd (fst acc), snd acc))"
  by (simp add: alertFiltersWithView_def case_prod_beta Let_def)

lemma access_filters_closed: "acc_closed (access_filters caller view mode)"
  using read_params [of caller ColLabels "[]"]
    params_visibleCondition [of view ColLabels "snd (readAccessCondition caller ColLabels [])"]
  by (auto simp: access_filters_def acc_closed_def acc_params_def case_prod_beta snd_visibleCondition)

lemma access_filters_sel:
  "acc_sel pgrx row (access_filters caller view mode) \<longleftrightarrow>
     sql_can_read pgrx caller (sr_labels row) \<and>
     (if mode = viewInvert then \<not> sql_visible pgrx view (sr_labels row)
      else view_filtering view \<longrightarrow> sql_visible pgrx view (sr_labels row))"
proof -
  have col: "col_value row ColLabels = Some (sr_labels row)" by (simp add: col_value_def)
  show ?thesis
    using eval_read_can_read [OF col, of pgrx caller "[]"] eval_read_can_read [OF col, of pgrx caller "[]" "[]"]
      eval_visibleCondition [OF col, of pgrx view _ "[]"]
    by (auto simp: access_filters_def acc_sel_def case_prod_beta snd_visibleCondition)
qed

lemma option_filters_closed: "acc_closed acc \<Longrightarrow> acc_closed (option_filters query acc)"
  by (auto simp: option_filters_def Let_def add_filter_closed acc_push(1) [where xs = "[]", simplified]
      split: option.splits)

lemma option_filters_exact: "acc_exact acc \<Longrightarrow> acc_exact (option_filters query acc)"
  by (auto simp: option_filters_def Let_def add_filter_exact acc_push_exact [where xs = "[]", simplified]
      split: option.splits)

lemma sql_true_map_option [simp]: "sql_true (map_option f x) \<longleftrightarrow> (\<exists>y. x = Some y \<and> f y)"
  by (cases x) auto

lemma option_filters_sel:
  assumes "acc_closed acc"
  shows "acc_sel pgrx row (option_filters q acc) \<longleftrightarrow>
    acc_sel pgrx row acc \<and>
    (query_Source q \<noteq> '''' \<longrightarrow> sr_source row = query_Source q) \<and>
    (query_Status q \<noteq> '''' \<longrightarrow> sr_status row = query_Status q) \<and>
    (query_Severity q \<noteq> '''' \<longrightarrow> severity_of (sr_labels row) = query_Severity q) \<and>
    (query_Team q \<noteq> '''' \<longrightarrow> fmlookup (sr_labels row) ''team'' = Some (query_Team q)) \<and>
    (\<forall>b. query_Suppressed q = Some b \<longrightarrow> sr_suppressed row = b) \<and>
    sr_closed row = (query_Closed q = Some True)"
  using assms
  by (cases "query_Suppressed q"; cases "query_Closed q")
    (simp_all add: option_filters_def Let_def add_filter_closed add_filter_sel
      acc_push(2) [where xs = "[]", simplified] conj_assoc)

lemma access_filters_exact:
  assumes "known_grants (Grants caller)" "Anonymous caller \<or> clean_grants reads (Grants caller)"
    and "mode = viewInvert \<or> view_filtering view \<Longrightarrow>
      rv_groups view \<noteq> [] \<and> (\<forall>g \<in> set (rv_groups view). g \<noteq> [] \<and> known_operators g)"
  shows "acc_exact (access_filters caller view mode)"
proof -
  have ok: "statement_ok {} (fst (readAccessCondition caller ColLabels [])) (snd (readAccessCondition caller ColLabels []))"
    using assms(1,2) readAccessCondition_accepted [of caller "[]" ColLabels] by simp
  then have read: "acc_exact ([fst (readAccessCondition caller ColLabels [])], snd (readAccessCondition caller ColLabels []))"
    by (simp add: statement_ok_def acc_exact_def acc_params_def)
  show ?thesis
  proof (cases "mode = viewInvert \<or> view_filtering view")
    case True
    let ?v = "visibleCondition view ColLabels (snd (readAccessCondition caller ColLabels []))"
    have "acc_exact ([fst (readAccessCondition caller ColLabels [])] @
        [if mode = viewInvert then SqlNot (fst ?v) else fst ?v], snd ?v)"
      using acc_push_exact [OF read, of "if mode = viewInvert then SqlNot (fst ?v) else fst ?v"
          "concat (map matcher_args (rv_groups view))"]
        params_visibleCondition [of view ColLabels "snd (readAccessCondition caller ColLabels [])"]
        parses_visibleCondition [of view ColLabels] assms(3) [OF True]
      by (simp add: snd_visibleCondition)
    with True show ?thesis by (simp add: access_filters_def case_prod_beta)
  next
    case False
    with read show ?thesis by (simp add: access_filters_def case_prod_beta)
  qed
qed

lemma alertFiltersWithView_selects:
  "sql_true (eval_sql pgrx (snd (alertFiltersWithView caller q view mode)) row
       (fst (alertFiltersWithView caller q view mode))) \<longleftrightarrow>
   query_selects pgrx caller q view mode row"
proof -
  let ?acc = "option_filters q (access_filters caller view mode)"
  have closed: "acc_closed ?acc" by (simp add: option_filters_closed access_filters_closed)
  then have "acc_closed (fst ?acc, snd ?acc)" by simp
  from match_filters_sel [OF this, of "query_Matches q" pgrx row] show ?thesis
    by (simp add: alertFiltersWithView_stages Let_def acc_sel_def [symmetric]
        option_filters_sel access_filters_closed access_filters_sel query_selects_def conj_assoc)
qed

lemma alertFiltersWithView_accepted:
  assumes "known_grants (Grants caller)" "Anonymous caller \<or> clean_grants reads (Grants caller)"
    and "mode = viewInvert \<or> view_filtering view \<Longrightarrow>
      rv_groups view \<noteq> [] \<and> (\<forall>g \<in> set (rv_groups view). g \<noteq> [] \<and> known_operators g)"
  shows "statement_ok {} (fst (alertFiltersWithView caller q view mode)) (snd (alertFiltersWithView caller q view mode))"
proof -
  let ?acc = "option_filters q (access_filters caller view mode)"
  have "acc_exact (fst ?acc, snd ?acc)"
    using option_filters_exact [OF access_filters_exact [OF assms]] by simp
  from match_filters_exact [OF this, of "query_Matches q"] have
    exact: "acc_exact (match_filters (query_Matches q) ?acc)" by simp
  have "fst ?acc \<noteq> []" by (auto simp: option_filters_def Let_def add_filter_def split: option.splits)
  moreover have "fst acc \<noteq> [] \<Longrightarrow> fst (match_filters ms acc) \<noteq> []" for ms acc
    by (induction ms acc rule: match_filters.induct) (auto simp: Let_def)
  ultimately show ?thesis
    using exact by (auto simp: alertFiltersWithView_stages Let_def statement_ok_def acc_exact_def acc_params_def)
qed

section \<open>Properties\<close>

text \<open>C5: when the server accepts an access condition. The loop over the grants returns
  \<open>TRUE\<close> at the first unrestricted grant but keeps the arguments of the scoped grants before
  it, which no placeholder uses; so the statement is accepted exactly when no scoped grant comes
  before the first unrestricted one.\<close>

theorem access_condition_accepted:
  assumes "known_grants (Grants caller)"
  shows "(statement_ok {1..length args} (fst (readAccessCondition caller col args))
            (snd (readAccessCondition caller col args)) \<longleftrightarrow>
          Anonymous caller \<or> clean_grants reads (Grants caller)) \<and>
         (statement_ok {1..length args} (fst (operateAccessCondition caller col args))
            (snd (operateAccessCondition caller col args)) \<longleftrightarrow> clean_grants operates (Grants caller))"
  using readAccessCondition_accepted [OF assms] operateAccessCondition_accepted [OF assms] by blast

theorem access_condition_accepted_witness:
  "\<not> statement_ok {} (fst (readAccessCondition sample_mixed ColLabels []))
      (snd (readAccessCondition sample_mixed ColLabels [])) \<and>
   statement_ok {} (fst (readAccessCondition sample_operator ColLabels []))
      (snd (readAccessCondition sample_operator ColLabels []))"
proof -
  have k: "known_grants (Grants sample_mixed)" "known_grants (Grants sample_operator)"
    by (simp_all add: sample_mixed_def sample_operator_def sample_matcher_def known_grants_def
        known_operators_def supportedMatcherOps_def)
  have "\<not> Anonymous sample_mixed" "\<not> clean_grants reads (Grants sample_mixed)"
    "clean_grants reads (Grants sample_operator)"
    by (simp_all add: sample_mixed_def sample_operator_def sample_matcher_def unrestricted_grant_def reads_def)
  then show ?thesis
    using access_condition_accepted [OF k(1), of "[]" ColLabels] access_condition_accepted [OF k(2), of "[]" ColLabels]
    by simp
qed

text \<open>C6: for callers whose grants use the operators that bindings may use, the scope the SQL conditions enforce and the scope
  the Go functions check differ on some labels only if a grant of the caller has a regular expression that Go and PostgreSQL decide
  differently on these very labels; nothing is assumed of the two engines. So the two scopes are the same for callers without regular
  expressions, and for one grant with one matcher a disagreement of the engines is exactly a disagreement of the scopes.\<close>

theorem scope_sql_go_agree:
  assumes "known_grants (Grants caller)"
  shows "(sql_can_read pgrx caller l \<noteq> CanReadLabels rx caller l \<longrightarrow>
      (\<exists>g \<in> set (Grants caller). reads (grant_Role g) \<and> (\<exists>m \<in> set (grant_Matchers g). disputed rx pgrx l m))) \<and>
    (sql_can_operate pgrx caller l \<noteq> CanOperateLabels rx caller l \<longrightarrow>
      (\<exists>g \<in> set (Grants caller). operates (grant_Role g) \<and> (\<exists>m \<in> set (grant_Matchers g). disputed rx pgrx l m))) \<and>
    ((\<forall>g \<in> set (Grants caller). \<forall>m \<in> set (grant_Matchers g). matcher_Operator m \<in> {''='', ''!=''}) \<longrightarrow>
      (sql_can_read pgrx caller l \<longleftrightarrow> CanReadLabels rx caller l) \<and>
      (sql_can_operate pgrx caller l \<longleftrightarrow> CanOperateLabels rx caller l)) \<and>
    (Grants caller = [\<lparr>grant_Role = RoleOperator, grant_Matchers = [m]\<rparr>] \<longrightarrow>
      (sql_can_operate pgrx caller l \<noteq> CanOperateLabels rx caller l \<longleftrightarrow> disputed rx pgrx l m))"
proof -
  have one: "sql_can_operate pgrx caller l \<noteq> CanOperateLabels rx caller l \<longleftrightarrow> disputed rx pgrx l m"
    if "Grants caller = [\<lparr>grant_Role = RoleOperator, grant_Matchers = [m]\<rparr>]"
    using that assms match_one_pg [of m l rx pgrx]
    by (auto simp: sql_can_operate_iff go_access.operate_iff grants_match_def operates_def pg_match_all_def match_all_iff
        known_grants_def known_operators_def)
  have "undisputed rx pgrx l (grant_Matchers g)"
    if "\<forall>g \<in> set (Grants caller). \<forall>m \<in> set (grant_Matchers g). matcher_Operator m \<in> {''='', ''!=''}" "g \<in> set (Grants caller)" for g
    using that by (intro plain_undisputed) blast
  then show ?thesis using scopes_differ [OF assms, of pgrx l rx] one unfolding undisputed_def by blast
qed

text \<open>The witness has a pattern with a dot and a label value with a newline, on which the two engines differ as documented.\<close>

theorem scope_sql_go_agree_witness:
  "(let m = \<lparr>matcher_Name = ''team'', matcher_Operator = ''=~'', matcher_Value = ''a.b''\<rparr>;
        caller = sample_operator\<lparr>Grants := [\<lparr>grant_Role = RoleOperator, grant_Matchers = [m]\<rparr>]\<rparr>;
        go = (\<lambda>p v. Some (p = ''a.b'' \<and> v \<in> {''a-b'', ''a.b''}));
        pg = (\<lambda>p v. p = ''a.b'' \<and> v \<in> {''a-b'', ''a.b'', ''a'' @ [CHR 0x0A] @ ''b''}) in
    (sql_can_operate pg caller (fmap_of_list [(''team'', ''a-b'')]) \<longleftrightarrow> CanOperateLabels go caller (fmap_of_list [(''team'', ''a-b'')])) \<and>
    sql_can_operate pg caller (fmap_of_list [(''team'', ''a'' @ [CHR 0x0A] @ ''b'')]) \<noteq>
      CanOperateLabels go caller (fmap_of_list [(''team'', ''a'' @ [CHR 0x0A] @ ''b'')]))"
proof -
  let ?m = "\<lparr>matcher_Name = ''team'', matcher_Operator = ''=~'', matcher_Value = ''a.b''\<rparr>"
  let ?caller = "sample_operator\<lparr>Grants := [\<lparr>grant_Role = RoleOperator, grant_Matchers = [?m]\<rparr>]\<rparr>"
  have k: "known_grants (Grants ?caller)" by (simp add: known_grants_def known_operators_def supportedMatcherOps_def)
  let ?go = "\<lambda>p v. Some (p = ''a.b'' \<and> v \<in> {''a-b'', ''a.b''})"
  let ?pg = "\<lambda>p v. p = ''a.b'' \<and> v \<in> {''a-b'', ''a.b'', ''a'' @ [CHR 0x0A] @ ''b''}"
  have g: "Grants ?caller = [\<lparr>grant_Role = RoleOperator, grant_Matchers = [?m]\<rparr>]" by simp
  note iff = scope_sql_go_agree [OF k, THEN conjunct2, THEN conjunct2, THEN conjunct2, THEN mp, OF g]
  have plain: "\<not> disputed ?go ?pg (fmap_of_list [(''team'', ''a-b'')]) ?m"
    and broken: "disputed ?go ?pg (fmap_of_list [(''team'', ''a'' @ [CHR 0x0A] @ ''b'')]) ?m"
    by (simp_all add: disputed_def fmlookup_of_list)
  have "sql_can_operate ?pg ?caller (fmap_of_list [(''team'', ''a-b'')]) \<longleftrightarrow> CanOperateLabels ?go ?caller (fmap_of_list [(''team'', ''a-b'')])"
    using iff [THEN iffD1] plain by blast
  moreover have "sql_can_operate ?pg ?caller (fmap_of_list [(''team'', ''a'' @ [CHR 0x0A] @ ''b'')]) \<noteq>
      CanOperateLabels ?go ?caller (fmap_of_list [(''team'', ''a'' @ [CHR 0x0A] @ ''b'')])"
    by (rule iff [THEN iffD2, OF broken])
  ultimately show ?thesis unfolding Let_def by (rule conjI)
qed

text \<open>The rows a list query selects are exactly those its filters describe, inside the
  caller's read scope; the view only removes rows from that scope, and the inverted form counts
  exactly what the view hides.\<close>

theorem list_filter_selects:
  "sql_true (eval_sql pgrx (snd (alertFiltersWithView caller q view mode)) row
       (fst (alertFiltersWithView caller q view mode))) \<longleftrightarrow>
   query_selects pgrx caller q view mode row"
  by (rule alertFiltersWithView_selects)

text \<open>The view the snapshot filters by in SQL and the view the stream applies in Go hide
  the same alerts.\<close>

theorem view_sql_go_agree:
  assumes "view_filtering view"
    and "\<forall>g \<in> set (rv_groups view). g \<noteq> [] \<and> known_operators g \<and> undisputed rx pgrx l g"
    and "col_value row col = Some l"
  shows "sql_true (eval_sql pgrx (snd (visibleCondition view col args)) row (fst (visibleCondition view col args))) \<longleftrightarrow>
    view_includes rx view l"
  using eval_visibleCondition [OF assms(3), of pgrx view args "[]"] view_includes_sql [OF assms(1,2)] by simp

theorem view_sql_go_agree_witness:
  "sql_true (eval_sql (\<lambda>p v. p = v)
      (snd (visibleCondition \<lparr>rv_groups = [[sample_matcher]],
         rv_options = \<lparr>ShowAll = False, FilterCritical = False\<rparr>, rv_requested = True\<rparr> ColLabels []))
      \<lparr>sr_labels = sample_labels, sr_previous = None, sr_source = '''', sr_status = '''',
       sr_suppressed = False, sr_closed = False\<rparr>
      (fst (visibleCondition \<lparr>rv_groups = [[sample_matcher]],
         rv_options = \<lparr>ShowAll = False, FilterCritical = False\<rparr>, rv_requested = True\<rparr> ColLabels []))) \<longleftrightarrow>
   view_includes (\<lambda>p v. Some (p = v)) \<lparr>rv_groups = [[sample_matcher]],
      rv_options = \<lparr>ShowAll = False, FilterCritical = False\<rparr>, rv_requested = True\<rparr> sample_labels"
  by (rule view_sql_go_agree)
    (simp_all add: view_filtering_def view_active_def sample_matcher_def known_operators_def
      supportedMatcherOps_def undisputed_def disputed_def col_value_def)

end
