(* ===== verification/Store.thy ===== *)
theory Store
  imports Sources Alertmanager Access_SQL
begin

text \<open>
  The database behind \<open>internal/postgres\<close>: its tables as a record of row lists, the
  constraints the migrations declare, the statements the store shares (\<open>insertStreamEvent\<close>,
  \<open>insertHistoryEvent\<close>, the \<open>alert_history\<close> insert of operator actions, updates of
  \<open>alerts\<close>), the operations on sources, and the invariant \<open>db_ok\<close>.

  A transaction is a function from the state to \<open>db_error + db\<close>: an error is a rollback, so
  the caller keeps the old state. Transactions on one alert are serialised by the row and
  advisory locks the code takes, so a run of the server is a sequence of transactions. A row
  list is in the order the server happens to return rows.

  PostgreSQL refuses text and jsonb with a NUL byte or that is not UTF-8 (\<open>text_ok\<close>, \<open>jsonb_ok\<close>) and rolls
  back an update that breaks a \<open>CHECK\<close>, \<open>UNIQUE\<close> or foreign-key constraint
  (\<open>ErrDatabase\<close>). Ids and counters are unbounded integers; the identity columns are
  64-bit. An id a transaction drew is given back when it rolls back (\<open>next_event\<close> and the other counters are part of the state),
  so the ids of committed events have no gaps here; PostgreSQL never gives one back, and commits ids out of order. What the
  gaps and the order mean for the event stream is stated in \<open>Event_Stream\<close> without this assumption.
\<close>

section \<open>State\<close>

datatype db_error = ErrNotFound | ErrInvalid | ErrAccessDenied | ErrNoSilenceTarget | ErrDatabase
  | ErrMessage string | ErrSource source_error | ErrGroupBy group_by_error

record source_row =
  row_slug :: string
  row_name :: string
  row_token_hash :: "string option"
  row_enabled :: bool
  row_stale_after :: "int option"
  row_alertmanager_url :: string
  row_alertmanager_token :: string
  row_last_delivery_at :: "instant option"

record stream_row =
  ev_id :: int
  ev_type :: string
  ev_alert_id :: int
  ev_occurred_at :: instant
  ev_severity :: string
  ev_alert_name :: string
  ev_summary :: string
  ev_source_slug :: string
  ev_team :: string
  ev_labels :: labels
  ev_previous_labels :: "labels option"

record history_row = HistoryEvent +
  hist_alert_id :: int

record note_row = Note +
  note_alert_id :: int

record db =
  alert_sources :: "source_row list"
  alert_rows :: "alert_row list"
  stream_events :: "stream_row list"
  alert_history :: "history_row list"
  alert_notes :: "note_row list"
  alertmanager_silences :: "SilenceRecord list"
  deleted_through :: int
  next_alert :: int
  next_event :: int
  next_history :: int
  next_note :: int

section \<open>Constraints\<close>

text \<open>Well-formed UTF-8: after a leading byte the ranges of the bytes that must follow it. What is decoded from JSON is
  well-formed always, since the decoder replaces what is not.\<close>

definition utf8_lead :: "nat \<Rightarrow> (nat \<times> nat) list option" where
  "utf8_lead b =
     (if b < 0x80 then Some []
      else if 0xC2 \<le> b \<and> b \<le> 0xDF then Some [(0x80, 0xBF)]
      else if b = 0xE0 then Some [(0xA0, 0xBF), (0x80, 0xBF)]
      else if b = 0xED then Some [(0x80, 0x9F), (0x80, 0xBF)]
      else if 0xE1 \<le> b \<and> b \<le> 0xEF then Some [(0x80, 0xBF), (0x80, 0xBF)]
      else if b = 0xF0 then Some [(0x90, 0xBF), (0x80, 0xBF), (0x80, 0xBF)]
      else if 0xF1 \<le> b \<and> b \<le> 0xF3 then Some [(0x80, 0xBF), (0x80, 0xBF), (0x80, 0xBF)]
      else if b = 0xF4 then Some [(0x80, 0x8F), (0x80, 0xBF), (0x80, 0xBF)]
      else None)"

fun utf8_run :: "(nat \<times> nat) list \<Rightarrow> string \<Rightarrow> bool" where
  "utf8_run expected [] \<longleftrightarrow> expected = []"
| "utf8_run [] (c # cs) = (case utf8_lead (of_char c) of None \<Rightarrow> False | Some expected \<Rightarrow> utf8_run expected cs)"
| "utf8_run ((low, high) # expected) (c # cs) \<longleftrightarrow> low \<le> of_char c \<and> of_char c \<le> high \<and> utf8_run expected cs"

definition text_ok :: "string \<Rightarrow> bool" where
  "text_ok s \<longleftrightarrow> CHR 0x00 \<notin> set s \<and> utf8_run [] s"

definition jsonb_ok :: "labels \<Rightarrow> bool" where
  "jsonb_ok m \<longleftrightarrow> (\<forall>k \<in> set (sorted_keys m). text_ok k \<and> text_ok (golookup m k))"

text \<open>The constraints \<open>alerts_acknowledgement_state_check\<close>,
  \<open>alerts_assignment_state_check\<close> and \<open>alerts_close_state_check\<close>.\<close>

definition acknowledgement_check :: "('a alert_row_scheme) \<Rightarrow> bool" where
  "acknowledgement_check r \<longleftrightarrow>
     (Acknowledged r \<and> AcknowledgedAt r \<noteq> None \<and> AcknowledgedBy r \<noteq> '''') \<or>
     (\<not> Acknowledged r \<and> AcknowledgedAt r = None \<and> AcknowledgedBy r = '''')"

definition assignment_check :: "('a alert_row_scheme) \<Rightarrow> bool" where
  "assignment_check r \<longleftrightarrow>
     (AssignedTo r \<noteq> '''' \<and> AssignedAt r \<noteq> None \<and> AssignedBy r \<noteq> '''') \<or>
     (AssignedTo r = '''' \<and> AssignedAt r = None \<and> AssignedBy r = '''')"

definition close_check :: "('a alert_row_scheme) \<Rightarrow> bool" where
  "close_check r \<longleftrightarrow>
     (Closed r \<and> ClosedAt r \<noteq> None \<and> ClosedBy r \<noteq> '''') \<or>
     (\<not> Closed r \<and> ClosedAt r = None \<and> ClosedBy r = '''')"

definition alert_checks :: "('a alert_row_scheme) \<Rightarrow> bool" where
  "alert_checks r \<longleftrightarrow> acknowledgement_check r \<and> assignment_check r \<and> close_check r"

section \<open>Shared statements\<close>

text \<open>\<open>UPDATE alerts SET \<dots> WHERE \<dots>\<close>: refused when a row it changes breaks a check.\<close>

definition update_alerts ::
  "(alert_row \<Rightarrow> bool) \<Rightarrow> (alert_row \<Rightarrow> alert_row) \<Rightarrow> db \<Rightarrow> db_error + db" where
  "update_alerts p f s =
     (if list_all (\<lambda>r. p r \<longrightarrow> alert_checks (f r)) (alert_rows s)
      then Inr (s\<lparr>alert_rows := upd_where p f (alert_rows s)\<rparr>) else Inl ErrDatabase)"

text \<open>An \<open>UPDATE \<dots> WHERE id = $1\<close> whose text parameters are \<open>texts\<close>.\<close>

definition update_by_id ::
  "string list \<Rightarrow> int \<Rightarrow> (alert_row \<Rightarrow> alert_row) \<Rightarrow> db \<Rightarrow> db_error + db" where
  "update_by_id texts i f s =
     (if list_all text_ok texts then update_alerts (\<lambda>r. ID r = i) f s else Inl ErrDatabase)"

definition insertStreamEvent ::
  "string \<Rightarrow> int \<Rightarrow> IncomingAlert \<Rightarrow> labels option \<Rightarrow> db \<Rightarrow> db_error + db" where
  "insertStreamEvent eventType alertID alert previousLabels s =
     (let severity = golookup (in_Labels alert) ''severity'';
          severity = (if severity = '''' then ''warning'' else severity);
          alertName = golookup (in_Labels alert) ''alertname'';
          alertName = (if alertName = '''' then in_Fingerprint alert else alertName);
          event = \<lparr>ev_id = next_event s, ev_type = eventType, ev_alert_id = alertID,
                   ev_occurred_at = in_ReceivedAt alert, ev_severity = severity,
                   ev_alert_name = alertName, ev_summary = golookup (in_Annotations alert) ''summary'',
                   ev_source_slug = in_SourceSlug alert, ev_team = golookup (in_Labels alert) ''team'',
                   ev_labels = in_Labels alert, ev_previous_labels = previousLabels\<rparr>
      in if alertID \<in> ID ` set (alert_rows s)
         then Inr (s\<lparr>stream_events := stream_events s @ [event], next_event := next_event s + 1\<rparr>)
         else Inl ErrDatabase)"

text \<open>The \<open>alert_history\<close> insert with an actor and a message, which the operator actions
  issue, and \<open>insertHistoryEvent\<close>, which leaves both columns at their default.\<close>

definition insert_history ::
  "int \<Rightarrow> int \<Rightarrow> string \<Rightarrow> SourceStatus \<Rightarrow> string \<Rightarrow> string \<Rightarrow> instant \<Rightarrow> db \<Rightarrow> db_error + db" where
  "insert_history alertID occurrence eventType sourceStatus actor message occurredAt s =
     (if alertID \<in> ID ` set (alert_rows s) \<and> text_ok actor \<and> text_ok message
      then Inr (s\<lparr>alert_history := alert_history s @
                   [\<lparr>hist_ID = next_history s, hist_Occurrence = occurrence, hist_Type = eventType,
                     hist_SourceStatus = sourceStatus, hist_Actor = actor, hist_Message = message,
                     hist_OccurredAt = occurredAt, hist_alert_id = alertID\<rparr>],
                 next_history := next_history s + 1\<rparr>)
      else Inl ErrDatabase)"

definition insertHistoryEvent ::
  "int \<Rightarrow> int \<Rightarrow> string \<Rightarrow> SourceStatus \<Rightarrow> instant \<Rightarrow> db \<Rightarrow> db_error + db" where
  "insertHistoryEvent alertID occurrence eventType sourceStatus occurredAt s =
     insert_history alertID occurrence eventType sourceStatus '''' '''' occurredAt s"

text \<open>The columns a condition of \<open>Access_SQL\<close> reads.\<close>

definition status_string :: "SourceStatus \<Rightarrow> string" where
  "status_string st =
     (case st of StatusFiring \<Rightarrow> ''firing'' | StatusResolved \<Rightarrow> ''resolved'' | StatusExpired \<Rightarrow> ''expired'')"

definition row_of :: "('a alert_row_scheme) \<Rightarrow> sql_row" where
  "row_of r = \<lparr>sr_labels = Labels r, sr_previous = None, sr_source = SourceSlug r,
     sr_status = status_string (Status r), sr_suppressed = Suppressed r, sr_closed = Closed r\<rparr>"

definition nullableTime :: "instant \<Rightarrow> instant option" where
  "nullableTime t = (if t = 0 then None else Some t)"

section \<open>Sources\<close>

definition set_source_row :: "source_row \<Rightarrow> (source_row \<Rightarrow> source_row) \<Rightarrow> db \<Rightarrow> db" where
  "set_source_row fresh update s =
     (if row_slug fresh \<in> row_slug ` set (alert_sources s)
      then s\<lparr>alert_sources := upd_where (\<lambda>r. row_slug r = row_slug fresh) update (alert_sources s)\<rparr>
      else s\<lparr>alert_sources := alert_sources s @ [fresh]\<rparr>)"

definition opt_text_ok :: "string option \<Rightarrow> bool" where
  "opt_text_ok v = (case v of None \<Rightarrow> True | Some t \<Rightarrow> text_ok t)"

definition SetSource ::
  "(string \<Rightarrow> (string \<times> string) option) \<Rightarrow> (string \<Rightarrow> string) \<Rightarrow> Source \<Rightarrow> string \<Rightarrow> db \<Rightarrow> db_error + db" where
  "SetSource url_parse sha256 source rawToken s =
     (case Validate url_parse source rawToken of
        Inl e \<Rightarrow> Inl (ErrSource e)
      | Inr u \<Rightarrow>
          if \<not> (text_ok (src_Name source) \<and> opt_text_ok (src_AlertmanagerURL source) \<and>
                opt_text_ok (src_AlertmanagerToken source)) then Inl ErrDatabase
          else Inr (set_source_row
            \<lparr>row_slug = src_Slug source, row_name = src_Name source,
             row_token_hash = Some (HashToken sha256 rawToken), row_enabled = True,
             row_stale_after = src_StaleAfter source,
             row_alertmanager_url = (case src_AlertmanagerURL source of None \<Rightarrow> '''' | Some v \<Rightarrow> v),
             row_alertmanager_token = (case src_AlertmanagerToken source of None \<Rightarrow> '''' | Some v \<Rightarrow> v),
             row_last_delivery_at = None\<rparr>
            (\<lambda>r. r\<lparr>row_name := src_Name source,
                  row_token_hash := Some (HashToken sha256 rawToken), row_enabled := True,
                  row_stale_after := coalesce (src_StaleAfter source) (row_stale_after r),
                  row_alertmanager_url :=
                    (case src_AlertmanagerURL source of None \<Rightarrow> row_alertmanager_url r | Some v \<Rightarrow> v),
                  row_alertmanager_token :=
                    (case src_AlertmanagerToken source of None \<Rightarrow> row_alertmanager_token r | Some v \<Rightarrow> v)\<rparr>)
            s))"

definition UpdateSource ::
  "(string \<Rightarrow> (string \<times> string) option) \<Rightarrow> string \<Rightarrow> Patch \<Rightarrow> db \<Rightarrow> db_error + db" where
  "UpdateSource url_parse slug patch s =
     (case ValidatePatch url_parse patch of
        Inl e \<Rightarrow> Inl (ErrSource e)
      | Inr u \<Rightarrow>
          if \<not> (text_ok slug \<and> opt_text_ok (patch_Name patch) \<and>
                opt_text_ok (patch_AlertmanagerURL patch) \<and> opt_text_ok (patch_AlertmanagerToken patch))
          then Inl ErrDatabase
          else if slug \<notin> row_slug ` set (alert_sources s) then Inl (ErrMessage ''alert source does not exist'')
          else Inr (s\<lparr>alert_sources := upd_where (\<lambda>r. row_slug r = slug)
            (\<lambda>r. r\<lparr>row_name := (case patch_Name patch of None \<Rightarrow> row_name r | Some v \<Rightarrow> v),
                  row_stale_after := coalesce (patch_StaleAfter patch) (row_stale_after r),
                  row_alertmanager_url :=
                    (case patch_AlertmanagerURL patch of None \<Rightarrow> row_alertmanager_url r | Some v \<Rightarrow> v),
                  row_alertmanager_token :=
                    (case patch_AlertmanagerToken patch of None \<Rightarrow> row_alertmanager_token r | Some v \<Rightarrow> v)\<rparr>)
            (alert_sources s)\<rparr>))"

definition BootstrapSource ::
  "(string \<Rightarrow> (string \<times> string) option) \<Rightarrow> (string \<Rightarrow> string) \<Rightarrow> Source \<Rightarrow> string \<Rightarrow> db \<Rightarrow> db_error + db" where
  "BootstrapSource url_parse sha256 source rawToken s =
     (case Validate url_parse source rawToken of
        Inl e \<Rightarrow> Inl (ErrSource e)
      | Inr u \<Rightarrow>
          if \<not> text_ok (src_Name source) then Inl ErrDatabase
          else Inr (set_source_row
            \<lparr>row_slug = src_Slug source, row_name = src_Name source,
             row_token_hash = Some (HashToken sha256 rawToken), row_enabled = True,
             row_stale_after = None, row_alertmanager_url = '''', row_alertmanager_token = '''',
             row_last_delivery_at = None\<rparr>
            (\<lambda>r. if row_token_hash r = None
                 then r\<lparr>row_name := src_Name source,
                        row_token_hash := Some (HashToken sha256 rawToken), row_enabled := True\<rparr>
                 else r)
            s))"

definition AuthenticateSource :: "(string \<Rightarrow> string) \<Rightarrow> string \<Rightarrow> string \<Rightarrow> db \<Rightarrow> db_error + bool" where
  "AuthenticateSource sha256 slug rawToken s =
     (if \<not> text_ok slug then Inl ErrDatabase
      else (case filter (\<lambda>r. row_slug r = slug \<and> row_enabled r \<and> row_token_hash r \<noteq> None) (alert_sources s) of
              [] \<Rightarrow> Inr False
            | r # rs \<Rightarrow> Inr (Some (HashToken sha256 rawToken) = row_token_hash r)))"

section \<open>The invariant\<close>

definition occurrence_of :: "db \<Rightarrow> int \<Rightarrow> int" where
  "occurrence_of s i = (case filter (\<lambda>r. ID r = i) (alert_rows s) of [] \<Rightarrow> 0 | r # rs \<Rightarrow> Occurrence r)"

definition sources_ok :: "db \<Rightarrow> bool" where
  "sources_ok s \<longleftrightarrow>
     distinct (map row_slug (alert_sources s)) \<and>
     (\<forall>r \<in> set (alert_sources s). \<forall>d. row_stale_after r = Some d \<longrightarrow> 0 \<le> d)"

definition alerts_ok :: "db \<Rightarrow> bool" where
  "alerts_ok s \<longleftrightarrow>
     distinct (map ID (alert_rows s)) \<and>
     distinct (map (\<lambda>r. (SourceSlug r, Fingerprint r)) (alert_rows s)) \<and>
     (\<forall>r \<in> set (alert_rows s). alert_checks r \<and> ID r < next_alert s \<and> 1 \<le> Occurrence r \<and>
        0 \<le> RepeatCount r \<and> SourceSlug r \<in> row_slug ` set (alert_sources s))"

text \<open>Every id handed out above the watermark is still there: nothing above it was lost.\<close>

definition stream_ok :: "db \<Rightarrow> bool" where
  "stream_ok s \<longleftrightarrow>
     sorted_wrt (<) (map ev_id (stream_events s)) \<and>
     (\<forall>e \<in> set (stream_events s). 0 < ev_id e \<and> ev_id e < next_event s \<and>
        ev_alert_id e \<in> ID ` set (alert_rows s)) \<and>
     0 \<le> deleted_through s \<and> deleted_through s < next_event s \<and>
     (\<forall>i. deleted_through s < i \<and> i < next_event s \<longrightarrow> i \<in> ev_id ` set (stream_events s))"

definition history_ok :: "db \<Rightarrow> bool" where
  "history_ok s \<longleftrightarrow>
     sorted_wrt (<) (map hist_ID (alert_history s)) \<and>
     (\<forall>h \<in> set (alert_history s). hist_ID h < next_history s \<and>
        hist_alert_id h \<in> ID ` set (alert_rows s) \<and>
        hist_Occurrence h \<le> occurrence_of s (hist_alert_id h))"

definition notes_ok :: "db \<Rightarrow> bool" where
  "notes_ok s \<longleftrightarrow>
     sorted_wrt (<) (map note_ID (alert_notes s)) \<and>
     (\<forall>n \<in> set (alert_notes s). note_ID n < next_note s \<and>
        note_alert_id n \<in> ID ` set (alert_rows s) \<and>
        note_Occurrence n \<le> occurrence_of s (note_alert_id n))"

definition silences_ok :: "db \<Rightarrow> bool" where
  "silences_ok s \<longleftrightarrow> distinct (map (\<lambda>r. (rec_Source r, rec_SilenceID r)) (alertmanager_silences s))"

definition db_ok :: "db \<Rightarrow> bool" where
  "db_ok s \<longleftrightarrow> sources_ok s \<and> alerts_ok s \<and> stream_ok s \<and> history_ok s \<and> notes_ok s \<and> silences_ok s"

text \<open>The rows an update may produce from a row: same identity, occurrence and repeat count not
  smaller.\<close>

definition row_le :: "alert_row \<Rightarrow> alert_row \<Rightarrow> bool" where
  "row_le r r' \<longleftrightarrow> ID r' = ID r \<and> SourceSlug r' = SourceSlug r \<and> Fingerprint r' = Fingerprint r \<and>
     Occurrence r \<le> Occurrence r' \<and> RepeatCount r \<le> RepeatCount r'"

text \<open>The table \<open>alerts\<close> as the map its unique key makes it.\<close>

definition row_key :: "('a alert_row_scheme) \<Rightarrow> string \<times> string" where
  "row_key r = (SourceSlug r, Fingerprint r)"

definition row_at :: "db \<Rightarrow> string \<times> string \<Rightarrow> alert_row option" where
  "row_at s = map_of (map (\<lambda>r. (row_key r, r)) (alert_rows s))"

definition empty_db :: db where
  "empty_db = \<lparr>alert_sources = [], alert_rows = [], stream_events = [], alert_history = [],
     alert_notes = [], alertmanager_silences = [], deleted_through = 0,
     next_alert = 1, next_event = 1, next_history = 1, next_note = 1\<rparr>"

section \<open>Lemmas\<close>

lemma db_okD:
  assumes "db_ok s"
  shows "sources_ok s" "alerts_ok s" "stream_ok s" "history_ok s" "notes_ok s" "silences_ok s"
  using assms by (simp_all add: db_ok_def)

lemma text_ok_Nil [simp]: "text_ok []"
  by (simp add: text_ok_def)

lemma text_ok_Cons [simp]: "c \<noteq> CHR 0x00 \<Longrightarrow> of_char c < (128 :: nat) \<Longrightarrow> text_ok (c # cs) \<longleftrightarrow> text_ok cs"
  by (auto simp: text_ok_def utf8_lead_def)

lemma utf8_run_append: "utf8_run expected x \<Longrightarrow> utf8_run [] y \<Longrightarrow> utf8_run expected (x @ y)"
  by (induction expected x rule: utf8_run.induct) (auto split: option.splits)

lemma text_ok_append [simp]: "text_ok x \<Longrightarrow> text_ok y \<Longrightarrow> text_ok (x @ y)"
  by (auto simp: text_ok_def utf8_run_append)

lemma occurrence_of_eq:
  "distinct (map ID (alert_rows s)) \<Longrightarrow> r \<in> set (alert_rows s) \<Longrightarrow> occurrence_of s (ID r) = Occurrence r"
proof -
  assume d: "distinct (map ID (alert_rows s))" and r: "r \<in> set (alert_rows s)"
  then have only: "\<And>x. x \<in> set (filter (\<lambda>x. ID x = ID r) (alert_rows s)) \<Longrightarrow> x = r"
    by (auto simp: distinct_map inj_on_def)
  have "r \<in> set (filter (\<lambda>x. ID x = ID r) (alert_rows s))" using r by simp
  then obtain y ys where ys: "filter (\<lambda>x. ID x = ID r) (alert_rows s) = y # ys"
    by (cases "filter (\<lambda>x. ID x = ID r) (alert_rows s)") auto
  then have "y = r" using only [of y] by simp
  with ys show ?thesis by (simp add: occurrence_of_def)
qed

lemma occurrence_of_cong [frame]: "alert_rows s' = alert_rows s \<Longrightarrow> occurrence_of s' = occurrence_of s"
  by (simp add: occurrence_of_def fun_eq_iff)

lemma row_le_refl [simp]: "row_le r r"
  by (simp add: row_le_def)

lemma update_alerts_rows:
  "update_alerts p f s = Inr s' \<Longrightarrow> s' = s\<lparr>alert_rows := upd_where p f (alert_rows s)\<rparr>"
  by (simp add: update_alerts_def split: if_splits)

lemma map_upd_where_same:
  "(\<And>r. r \<in> set rows \<Longrightarrow> p r \<Longrightarrow> g (f r) = g r) \<Longrightarrow> map g (upd_where p f rows) = map g rows"
  by (simp add: upd_where_def)

lemma update_alerts_ids:
  assumes "update_alerts p f s = Inr s'" "\<And>r. r \<in> set (alert_rows s) \<Longrightarrow> p r \<Longrightarrow> row_le r (f r)"
  shows "map ID (alert_rows s') = map ID (alert_rows s)"
    "map (\<lambda>r. (SourceSlug r, Fingerprint r)) (alert_rows s') =
       map (\<lambda>r. (SourceSlug r, Fingerprint r)) (alert_rows s)"
  using assms(2) unfolding update_alerts_rows [OF assms(1)]
  by (auto simp: row_le_def intro!: map_upd_where_same)

lemma ids_image: "map ID xs = map ID ys \<Longrightarrow> ID ` set xs = ID ` set ys"
  by (metis list.set_map)

lemma occurrence_update:
  assumes "alerts_ok s" "update_alerts p f s = Inr s'"
    "\<And>r. r \<in> set (alert_rows s) \<Longrightarrow> p r \<Longrightarrow> row_le r (f r)" "i \<in> ID ` set (alert_rows s)"
  shows "occurrence_of s i \<le> occurrence_of s' i"
proof -
  obtain r where r: "r \<in> set (alert_rows s)" "ID r = i" using assms(4) by auto
  have d: "distinct (map ID (alert_rows s))" using assms(1) by (simp add: alerts_ok_def)
  have d': "distinct (map ID (alert_rows s'))"
    using d update_alerts_ids(1) [OF assms(2,3)] by simp
  let ?r = "if p r then f r else r"
  have r': "?r \<in> set (alert_rows s')"
    using r(1) by (auto simp: update_alerts_rows [OF assms(2)] set_upd_where)
  have "row_le r ?r" using assms(3) r(1) by simp
  then have "ID ?r = i" "Occurrence r \<le> Occurrence ?r" using r(2) by (simp_all add: row_le_def)
  then show ?thesis
    using occurrence_of_eq [OF d r(1)] occurrence_of_eq [OF d' r'] r(2) by simp
qed

lemma update_alerts_ok [keeps]:
  assumes "db_ok s" "update_alerts p f s = Inr s'"
    "\<And>r. r \<in> set (alert_rows s) \<Longrightarrow> p r \<Longrightarrow> row_le r (f r)"
  shows "db_ok s'"
proof -
  note s' = update_alerts_rows [OF assms(2)]
  note ids = update_alerts_ids [OF assms(2,3)]
  have occ: "\<And>i. i \<in> ID ` set (alert_rows s) \<Longrightarrow> occurrence_of s i \<le> occurrence_of s' i"
    using occurrence_update [OF db_okD(2) [OF assms(1)] assms(2,3)] by blast
  have checks: "\<And>r. r \<in> set (alert_rows s) \<Longrightarrow> p r \<Longrightarrow> alert_checks (f r)"
    using assms(2) by (auto simp: update_alerts_def list_all_iff split: if_splits)
  have rows: "\<forall>r \<in> set (alert_rows s'). alert_checks r \<and> ID r < next_alert s' \<and> 1 \<le> Occurrence r \<and>
      0 \<le> RepeatCount r \<and> SourceSlug r \<in> row_slug ` set (alert_sources s')"
  proof
    fix r' assume "r' \<in> set (alert_rows s')"
    then obtain r where r: "r \<in> set (alert_rows s)" "r' = (if p r then f r else r)"
      by (auto simp: s' set_upd_where)
    then have "row_le r r'" "alert_checks r'"
      using assms(3) checks db_okD(2) [OF assms(1)] by (auto simp: alerts_ok_def)
    with r(1) db_okD(2) [OF assms(1)] show "alert_checks r' \<and> ID r' < next_alert s' \<and> 1 \<le> Occurrence r' \<and>
        0 \<le> RepeatCount r' \<and> SourceSlug r' \<in> row_slug ` set (alert_sources s')"
      by (auto simp: alerts_ok_def row_le_def s')
  qed
  have "alerts_ok s'"
    using db_okD(2) [OF assms(1)] rows by (simp add: alerts_ok_def ids)
  moreover have "stream_ok s'"
    using db_okD(3) [OF assms(1)] ids_image [OF ids(1)] by (simp add: stream_ok_def s')
  moreover have "history_ok s'"
    using db_okD(4) [OF assms(1)] ids_image [OF ids(1)] occ by (fastforce simp: history_ok_def s')
  moreover have "notes_ok s'"
    using db_okD(5) [OF assms(1)] ids_image [OF ids(1)] occ by (fastforce simp: notes_ok_def s')
  moreover have "sources_ok s'" "silences_ok s'"
    using db_okD(1,6) [OF assms(1)] by (simp_all add: sources_ok_def silences_ok_def s')
  ultimately show ?thesis by (simp add: db_ok_def)
qed

text \<open>An update succeeds when the rows it writes satisfy the checks.\<close>

lemma update_alerts_total:
  "(\<And>r. r \<in> set (alert_rows s) \<Longrightarrow> p r \<Longrightarrow> alert_checks (f r)) \<Longrightarrow>
   update_alerts p f s = Inr (s\<lparr>alert_rows := upd_where p f (alert_rows s)\<rparr>)"
  by (simp add: update_alerts_def list_all_iff)

lemma insertStreamEvent_Inr:
  "insertStreamEvent ty i alert prev s = Inr s' \<longleftrightarrow>
     i \<in> ID ` set (alert_rows s) \<and>
     (\<exists>e. ev_id e = next_event s \<and> ev_type e = ty \<and> ev_alert_id e = i \<and>
          ev_occurred_at e = in_ReceivedAt alert \<and> ev_labels e = in_Labels alert \<and>
          ev_previous_labels e = prev \<and>
          ev_severity e = (if golookup (in_Labels alert) ''severity'' = '''' then ''warning''
                           else golookup (in_Labels alert) ''severity'') \<and>
          ev_alert_name e = (if golookup (in_Labels alert) ''alertname'' = '''' then in_Fingerprint alert
                           else golookup (in_Labels alert) ''alertname'') \<and>
          ev_summary e = golookup (in_Annotations alert) ''summary'' \<and>
          ev_source_slug e = in_SourceSlug alert \<and> ev_team e = golookup (in_Labels alert) ''team'' \<and>
          s' = s\<lparr>stream_events := stream_events s @ [e], next_event := next_event s + 1\<rparr>)"
  by (auto simp: insertStreamEvent_def Let_def intro!: exI)

lemma insertStreamEvent_ok [keeps]:
  assumes "db_ok s" "insertStreamEvent ty i alert prev s = Inr s'"
  shows "db_ok s'"
proof -
  obtain e where e: "ev_id e = next_event s" "ev_alert_id e = i" "i \<in> ID ` set (alert_rows s)"
    "s' = s\<lparr>stream_events := stream_events s @ [e], next_event := next_event s + 1\<rparr>"
    using assms(2) by (auto simp: insertStreamEvent_Inr)
  have "stream_ok s'"
    using db_okD(3) [OF assms(1)] e
    by (auto simp: stream_ok_def sorted_wrt_append zless_add1_eq order.strict_implies_order dest: less_trans)
  then show ?thesis
    using assms(1) e(4)
    by (simp add: db_ok_def sources_ok_def alerts_ok_def history_ok_def notes_ok_def silences_ok_def
        occurrence_of_def)
qed

lemma insert_history_Inr:
  "insert_history i occ ty st actor msg t s = Inr s' \<longleftrightarrow>
     i \<in> ID ` set (alert_rows s) \<and> text_ok actor \<and> text_ok msg \<and>
     s' = s\<lparr>alert_history := alert_history s @
        [\<lparr>hist_ID = next_history s, hist_Occurrence = occ, hist_Type = ty,
          hist_SourceStatus = st, hist_Actor = actor, hist_Message = msg,
          hist_OccurredAt = t, hist_alert_id = i\<rparr>], next_history := next_history s + 1\<rparr>"
  by (auto simp: insert_history_def)

lemma insert_history_ok [keeps]:
  assumes "db_ok s" "insert_history i occ ty st actor msg t s = Inr s'" "occ \<le> occurrence_of s i"
  shows "db_ok s'"
proof -
  have "history_ok s'"
    using db_okD(4) [OF assms(1)] assms(2,3)
    by (fastforce simp: insert_history_Inr history_ok_def sorted_wrt_append occurrence_of_def)
  then show ?thesis
    using assms(1,2)
    by (auto simp: insert_history_Inr db_ok_def sources_ok_def alerts_ok_def stream_ok_def notes_ok_def
        silences_ok_def occurrence_of_def)
qed

lemma insertStreamEvent_rows [frame]:
  "insertStreamEvent ty i alert prev s = Inr s' \<Longrightarrow>
   alert_rows s' = alert_rows s \<and> alert_sources s' = alert_sources s \<and>
   alert_history s' = alert_history s \<and> alert_notes s' = alert_notes s"
  by (auto simp: insertStreamEvent_Inr)

lemma insert_history_rows [frame]:
  "insert_history i occ ty st actor msg t s = Inr s' \<Longrightarrow>
   alert_rows s' = alert_rows s \<and> alert_sources s' = alert_sources s \<and>
   stream_events s' = stream_events s \<and> alert_notes s' = alert_notes s"
  by (auto simp: insert_history_Inr)

text \<open>Both kinds of event after a row is written.\<close>

lemma events_ok:
  assumes "db_ok s" "occ \<le> occurrence_of s i"
    and "bind_res (insertStreamEvent ty i alert prev s) (insertHistoryEvent i occ hty st t) = Inr s'"
  shows "db_ok s'" "alert_rows s' = alert_rows s" "alert_sources s' = alert_sources s"
    "length (stream_events s') = length (stream_events s) + 1"
    "length (alert_history s') = length (alert_history s) + 1"
proof -
  obtain t1 where t: "insertStreamEvent ty i alert prev s = Inr t1"
    "insert_history i occ hty st '''' '''' t t1 = Inr s'"
    using assms(3) by (auto simp: bind_res_Inr insertHistoryEvent_def)
  have "occ \<le> occurrence_of t1 i"
    using assms(2) insertStreamEvent_rows [OF t(1)] occurrence_of_cong [of t1 s] by simp
  from insert_history_ok [OF insertStreamEvent_ok [OF assms(1) t(1)] t(2) this] show "db_ok s'" .
  show "alert_rows s' = alert_rows s" "alert_sources s' = alert_sources s"
    using insertStreamEvent_rows [OF t(1)] insert_history_rows [OF t(2)] by simp_all
  show "length (stream_events s') = length (stream_events s) + 1"
    "length (alert_history s') = length (alert_history s) + 1"
    using t by (auto simp: insertStreamEvent_Inr insert_history_Inr)
qed

lemma events_total:
  assumes "i \<in> ID ` set (alert_rows s)"
  shows "\<exists>s'. bind_res (insertStreamEvent ty i alert prev s) (insertHistoryEvent i occ hty st t) = Inr s'"
  using assms by (auto simp: insertStreamEvent_def insertHistoryEvent_def insert_history_def Let_def)

lemma update_by_id_Inr:
  "update_by_id texts i f s = Inr s' \<Longrightarrow>
   update_alerts (\<lambda>r. ID r = i) f s = Inr s' \<and>
   s' = s\<lparr>alert_rows := upd_where (\<lambda>r. ID r = i) f (alert_rows s)\<rparr>"
  by (auto simp: update_by_id_def update_alerts_def split: if_splits)

lemma update_by_id_total:
  assumes "db_ok s" "list_all text_ok texts" "\<And>r. alert_checks r \<Longrightarrow> alert_checks (f r)"
  shows "\<exists>s'. update_by_id texts i f s = Inr s'"
  using assms(2,3) db_okD(2) [OF assms(1)]
    update_alerts_total [of s "\<lambda>r. ID r = i" f]
  by (auto simp: update_by_id_def alerts_ok_def)

lemma update_by_id_ok [keeps]:
  "db_ok s \<Longrightarrow> update_by_id texts i f s = Inr s' \<Longrightarrow> (\<And>r. row_le r (f r)) \<Longrightarrow> db_ok s'"
  using update_by_id_Inr update_alerts_ok by blast

lemma empty_db_ok: "db_ok empty_db"
  by (simp add: db_ok_def empty_db_def sources_ok_def alerts_ok_def stream_ok_def history_ok_def
      notes_ok_def silences_ok_def)

subsection \<open>Sources\<close>

text \<open>Changing or adding sources keeps the invariant as long as slugs stay distinct, none
  disappears and the windows are not negative.\<close>

lemma sources_change_ok:
  assumes "db_ok s" "s' = s\<lparr>alert_sources := srcs\<rparr>" "distinct (map row_slug srcs)"
    "row_slug ` set (alert_sources s) \<subseteq> row_slug ` set srcs"
    "\<forall>r \<in> set srcs. \<forall>d. row_stale_after r = Some d \<longrightarrow> 0 \<le> d"
  shows "db_ok s'"
proof -
  have "alerts_ok s'" using db_okD(2) [OF assms(1)] assms(2,4) by (auto simp: alerts_ok_def)
  moreover have "sources_ok s'" using assms(2,3,5) by (simp add: sources_ok_def)
  ultimately show ?thesis
    using assms(1,2)
    by (simp add: db_ok_def stream_ok_def history_ok_def notes_ok_def silences_ok_def occurrence_of_def)
qed

lemma set_source_row_ok:
  assumes "db_ok s" "\<And>r. row_slug r = row_slug fresh \<Longrightarrow> row_slug (update r) = row_slug fresh"
    "\<forall>d. row_stale_after fresh = Some d \<longrightarrow> 0 \<le> d"
    "\<And>r d. (\<forall>d. row_stale_after r = Some d \<longrightarrow> 0 \<le> d) \<Longrightarrow> row_stale_after (update r) = Some d \<Longrightarrow> 0 \<le> d"
  shows "db_ok (set_source_row fresh update s)"
proof (cases "row_slug fresh \<in> row_slug ` set (alert_sources s)")
  case True
  let ?srcs = "upd_where (\<lambda>r. row_slug r = row_slug fresh) update (alert_sources s)"
  have slugs: "map row_slug ?srcs = map row_slug (alert_sources s)"
    using assms(2) by (auto intro!: map_upd_where_same)
  have ok: "distinct (map row_slug ?srcs)" "row_slug ` set (alert_sources s) \<subseteq> row_slug ` set ?srcs"
    using db_okD(1) [OF assms(1)] slugs by (simp_all add: sources_ok_def) (metis list.set_map order_refl)
  have st: "\<forall>r \<in> set ?srcs. \<forall>d. row_stale_after r = Some d \<longrightarrow> 0 \<le> d"
    using db_okD(1) [OF assms(1)] assms(4) by (fastforce simp: sources_ok_def set_upd_where)
  have "set_source_row fresh update s = s\<lparr>alert_sources := ?srcs\<rparr>"
    using True by (simp add: set_source_row_def)
  from sources_change_ok [OF assms(1) this ok st] show ?thesis .
next
  case False
  with db_okD(1) [OF assms(1)] assms(3) show ?thesis
    by (intro sources_change_ok [OF assms(1), where srcs = "alert_sources s @ [fresh]"])
      (auto simp: set_source_row_def sources_ok_def)
qed

lemma SetSource_ok [keeps]:
  assumes "db_ok s" "SetSource url_parse sha256 source token s = Inr s'"
  shows "db_ok s'"
proof -
  have v: "\<forall>d. src_StaleAfter source = Some d \<longrightarrow> 0 \<le> d"
    using assms(2) Validate_ok [of url_parse source token] by (auto simp: SetSource_def split: sum.splits)
  show ?thesis
    using assms(2) v
    by (auto simp: SetSource_def coalesce_def split: sum.splits if_splits option.splits
        intro!: set_source_row_ok [OF assms(1)])
qed

lemma BootstrapSource_ok [keeps]:
  assumes "db_ok s" "BootstrapSource url_parse sha256 source token s = Inr s'"
  shows "db_ok s'"
  using assms(2)
  by (auto simp: BootstrapSource_def split: sum.splits if_splits
      intro!: set_source_row_ok [OF assms(1)])

lemma UpdateSource_ok [keeps]:
  assumes "db_ok s" "UpdateSource url_parse slug patch s = Inr s'"
  shows "db_ok s'"
proof -
  have v: "\<forall>d. patch_StaleAfter patch = Some d \<longrightarrow> 0 \<le> d"
    using assms(2) ValidatePatch_ok [of url_parse patch] by (auto simp: UpdateSource_def split: sum.splits)
  obtain f where s': "s' = s\<lparr>alert_sources := upd_where (\<lambda>r. row_slug r = slug) f (alert_sources s)\<rparr>"
    and f: "\<And>r. row_slug (f r) = row_slug r"
      "\<And>r. row_stale_after (f r) = coalesce (patch_StaleAfter patch) (row_stale_after r)"
    using assms(2) by (auto simp: UpdateSource_def split: sum.splits if_splits)
  have slugs: "map row_slug (upd_where (\<lambda>r. row_slug r = slug) f (alert_sources s)) = map row_slug (alert_sources s)"
    using f(1) by (rule upd_where_cong_field)
  show ?thesis
  proof (rule sources_change_ok [OF assms(1) s'])
    show "distinct (map row_slug (upd_where (\<lambda>r. row_slug r = slug) f (alert_sources s)))"
      using db_okD(1) [OF assms(1)] slugs by (simp add: sources_ok_def)
    show "row_slug ` set (alert_sources s) \<subseteq> row_slug ` set (upd_where (\<lambda>r. row_slug r = slug) f (alert_sources s))"
      using slugs by (metis list.set_map order_refl)
    show "\<forall>r \<in> set (upd_where (\<lambda>r. row_slug r = slug) f (alert_sources s)). \<forall>d. row_stale_after r = Some d \<longrightarrow> 0 \<le> d"
      using db_okD(1) [OF assms(1)] v f(2)
      by (auto simp: sources_ok_def set_upd_where coalesce_def split: option.splits if_splits)
  qed
qed

text \<open>Authentication by the row of the slug; the slug is unique.\<close>

lemma AuthenticateSource_row:
  assumes "sources_ok s" "r \<in> set (alert_sources s)" "row_slug r = slug" "text_ok slug"
  shows "AuthenticateSource sha256 slug token s =
    Inr (row_enabled r \<and> row_token_hash r = Some (sha256 token))"
proof -
  have only: "x = r" if "x \<in> set (alert_sources s)" "row_slug x = slug" for x
    using assms(1-3) that by (auto simp: sources_ok_def distinct_map inj_on_def)
  show ?thesis
  proof (cases "filter (\<lambda>r. row_slug r = slug \<and> row_enabled r \<and> row_token_hash r \<noteq> None) (alert_sources s)")
    case Nil
    then have "\<not> (row_enabled r \<and> row_token_hash r \<noteq> None)"
      using assms(2,3) by (auto simp: filter_empty_conv)
    with Nil assms(4) show ?thesis by (auto simp: AuthenticateSource_def)
  next
    case (Cons x xs)
    then have "x \<in> set (alert_sources s)" "row_slug x = slug" "row_enabled x"
      by (auto simp: filter_eq_Cons_iff)
    with only [of x] Cons assms(4) show ?thesis by (auto simp: AuthenticateSource_def HashToken_def)
  qed
qed

lemma set_source_row_at:
  "\<exists>r \<in> set (alert_sources (set_source_row fresh update s)).
     row_slug r = row_slug fresh \<and> (r = fresh \<or> (\<exists>q \<in> set (alert_sources s). row_slug q = row_slug fresh \<and> r = update q))"
  if "\<And>r. row_slug r = row_slug fresh \<Longrightarrow> row_slug (update r) = row_slug fresh"
proof (cases "row_slug fresh \<in> row_slug ` set (alert_sources s)")
  case True
  then obtain q where q: "q \<in> set (alert_sources s)" "row_slug q = row_slug fresh" by auto
  then have "update q \<in> set (alert_sources (set_source_row fresh update s))"
    by (force simp: set_source_row_def set_upd_where image_iff)
  with q that show ?thesis by blast
qed (auto simp: set_source_row_def)

text \<open>A source is authenticated by the token it was last set with, and by no other token the
  digest tells apart.\<close>

lemma SetSource_authenticates:
  assumes "db_ok s" "SetSource url_parse sha256 source token s = Inr s'" "text_ok (src_Slug source)"
  shows "AuthenticateSource sha256 (src_Slug source) other s' = Inr (sha256 other = sha256 token)"
proof -
  obtain fresh update where s': "s' = set_source_row fresh update s"
    and slug: "row_slug fresh = src_Slug source" "\<And>r. row_slug (update r) = row_slug r"
    and hash: "row_enabled fresh" "row_token_hash fresh = Some (sha256 token)"
      "\<And>r. row_enabled (update r)" "\<And>r. row_token_hash (update r) = Some (sha256 token)"
    using assms(2) by (auto simp: SetSource_def HashToken_def split: sum.splits if_splits)
  obtain r where r: "r \<in> set (alert_sources s')" "row_slug r = src_Slug source"
    "row_enabled r" "row_token_hash r = Some (sha256 token)"
    using set_source_row_at [of fresh update s] slug hash unfolding s' by auto
  from AuthenticateSource_row [OF db_okD(1) [OF SetSource_ok [OF assms(1,2)]] r(1,2) assms(3)] r(3,4)
  show ?thesis by auto
qed

subsection \<open>The table as a map\<close>

lemma row_at_cong [frame]: "alert_rows s' = alert_rows s \<Longrightarrow> row_at s' = row_at s"
  by (simp add: row_at_def)

lemma row_at_Some: "row_at s k = Some r \<Longrightarrow> r \<in> set (alert_rows s) \<and> row_key r = k"
  by (auto simp: row_at_def dest: map_of_SomeD)

lemma row_at_None: "row_at s k = None \<longleftrightarrow> k \<notin> row_key ` set (alert_rows s)"
  by (force simp: row_at_def map_of_eq_None_iff)

lemma alerts_ok_keys: "alerts_ok s \<Longrightarrow> distinct (map row_key (alert_rows s))"
  by (simp add: alerts_ok_def row_key_def [abs_def])

lemma row_at_row:
  assumes "alerts_ok s" "r \<in> set (alert_rows s)"
  shows "row_at s (row_key r) = Some r"
  using alerts_ok_keys [OF assms(1)] assms(2) unfolding row_at_def
  by (intro map_of_is_SomeI) (simp_all add: comp_def)

lemma row_at_upd_where:
  assumes "\<And>r. r \<in> set rows \<Longrightarrow> p r \<Longrightarrow> row_key (f r) = row_key r"
  shows "map_of (map (\<lambda>r. (row_key r, r)) (upd_where p f rows)) k =
    map_option (\<lambda>r. if p r then f r else r) (map_of (map (\<lambda>r. (row_key r, r)) rows) k)"
  using assms by (induction rows) (auto simp: upd_where_def)

lemma row_at_update:
  assumes "update_alerts p f s = Inr s'" "\<And>r. r \<in> set (alert_rows s) \<Longrightarrow> p r \<Longrightarrow> row_key (f r) = row_key r"
  shows "row_at s' k = map_option (\<lambda>r. if p r then f r else r) (row_at s k)"
  using row_at_upd_where [of "alert_rows s" p f k] assms(2)
  by (simp add: update_alerts_rows [OF assms(1)] row_at_def)

lemma row_by_id:
  "alerts_ok s \<Longrightarrow> r \<in> set (alert_rows s) \<Longrightarrow> r' \<in> set (alert_rows s) \<Longrightarrow> ID r = ID r' \<Longrightarrow> r = r'"
  by (auto simp: alerts_ok_def distinct_map inj_on_def)

lemma filter_key_head:
  "filter (\<lambda>r. SourceSlug r = slug \<and> Fingerprint r = fp) (alert_rows s) = [] \<longleftrightarrow> row_at s (slug, fp) = None"
  "filter (\<lambda>r. SourceSlug r = slug \<and> Fingerprint r = fp) (alert_rows s) = r # rs \<Longrightarrow>
   row_at s (slug, fp) = Some r"
proof -
  have "(case filter (\<lambda>r. SourceSlug r = slug \<and> Fingerprint r = fp) rows of [] \<Rightarrow> None | r # rs \<Rightarrow> Some r) =
      map_of (map (\<lambda>r. (row_key r, r)) rows) (slug, fp)" for rows :: "alert_row list"
    by (induction rows) (auto simp: row_key_def)
  from this [of "alert_rows s", symmetric]
  show "filter (\<lambda>r. SourceSlug r = slug \<and> Fingerprint r = fp) (alert_rows s) = [] \<longleftrightarrow> row_at s (slug, fp) = None"
    and "filter (\<lambda>r. SourceSlug r = slug \<and> Fingerprint r = fp) (alert_rows s) = r # rs \<Longrightarrow>
      row_at s (slug, fp) = Some r"
    by (auto simp: row_at_def split: list.splits)
qed

text \<open>Statements that leave the alert rows alone keep the invariant of the rows.\<close>

lemma row_le_key: "row_le r r' \<Longrightarrow> row_key r' = row_key r"
  by (simp add: row_le_def row_key_def)

text \<open>An update that only reaches the row at one key.\<close>

lemma row_at_update_single:
  assumes "update_alerts P f s = Inr s'" "row_at s k = Some p"
    and "\<And>r. r \<in> set (alert_rows s) \<Longrightarrow> P r \<Longrightarrow> row_key (f r) = row_key r"
    and "\<And>r. r \<in> set (alert_rows s) \<Longrightarrow> row_key r \<noteq> k \<Longrightarrow> \<not> P r"
  shows "row_at s' = (row_at s)(k \<mapsto> (if P p then f p else p))"
proof (rule ext)
  fix j
  have upd: "row_at s' j = map_option (\<lambda>r. if P r then f r else r) (row_at s j)"
    using assms(1,3) by (rule row_at_update)
  show "row_at s' j = ((row_at s)(k \<mapsto> (if P p then f p else p))) j"
  proof (cases "j = k")
    case True
    with upd assms(2) show ?thesis by (simp only: fun_upd_same option.map)
  next
    case False
    have "map_option (\<lambda>r. if P r then f r else r) (row_at s j) = row_at s j"
    proof (cases "row_at s j")
      case (Some q)
      have "\<not> P q" using row_at_Some [OF Some] False by (intro assms(4)) simp_all
      with Some show ?thesis by (simp only: option.map if_False)
    qed (simp only: option.map)
    with upd False show ?thesis by (simp only: fun_upd_other not_False_eq_True)
  qed
qed

end
