(* ===== verification/Detail.thy ===== *)
theory Detail
  imports Store
begin

text \<open>
  Reading one alert: \<open>Store.GetAlertDetail\<close> (\<open>internal/postgres/store.go\<close>) with
  \<open>silenceRecords\<close> (\<open>silence.go\<close>) and \<open>listNotes\<close> (\<open>notes.go\<close>), and the
  statement that selects one alert under an access condition, which the operator actions and
  the silence scopes share.
\<close>

section \<open>Definitions\<close>

record Detail =
  detail_Alert :: Alert
  detail_History :: "HistoryEvent list"
  detail_Silences :: "SilenceRecord list"
  detail_Notes :: "Note list"

text \<open>\<open>SELECT \<dots> WHERE alert.id = $1 AND (access)\<close>, the id being the first argument.\<close>

definition select_alert ::
  "(string \<Rightarrow> string \<Rightarrow> bool) \<Rightarrow> sql \<times> arg list \<Rightarrow> int \<Rightarrow> db \<Rightarrow> db_error + alert_row" where
  "select_alert pgrx access i s =
     (if \<not> statement_ok {1} (fst access) (snd access) then Inl ErrDatabase
      else (case filter (\<lambda>r. ID r = i \<and> sql_true (eval_sql pgrx (snd access) (row_of r) (fst access)))
                   (alert_rows s) of
              [] \<Rightarrow> Inl ErrNotFound
            | r # rs \<Rightarrow> Inr r))"

definition note_count :: "int \<Rightarrow> db \<Rightarrow> nat" where
  "note_count i s = length (filter (\<lambda>n. note_alert_id n = i) (alert_notes s))"

definition alert_of_row :: "nat \<Rightarrow> ViewMatch \<Rightarrow> alert_row \<Rightarrow> Alert" where
  "alert_of_row notes match r = alert_row.extend r (Alert.fields notes match)"

definition listNotes :: "int \<Rightarrow> db \<Rightarrow> Note list" where
  "listNotes alertID s =
     map Note.truncate (sort_key note_ID (filter (\<lambda>n. note_alert_id n = alertID) (alert_notes s)))"

definition silenceRecords :: "string \<Rightarrow> string list \<Rightarrow> db \<Rightarrow> SilenceRecord list" where
  "silenceRecords sourceSlug ids s =
     (if ids = [] then []
      else sort_key (\<lambda>r. - rec_EndsAt r)
             (filter (\<lambda>r. rec_Source r = sourceSlug \<and> rec_SilenceID r \<in> set ids) (alertmanager_silences s)))"

definition GetAlertDetail ::
  "(string \<Rightarrow> string \<Rightarrow> bool) \<Rightarrow> Principal \<Rightarrow> int \<Rightarrow> db \<Rightarrow> db_error + Detail" where
  "GetAlertDetail pgrx caller i s =
     (let access = readAccessCondition caller ColLabels [ArgInt i] in
      bind_res (select_alert pgrx access i s)
        (\<lambda>row.
           (let history = rev (sort_key hist_ID (filter
                  (\<lambda>h. hist_alert_id h = i \<and>
                       list_ex (\<lambda>r. ID r = hist_alert_id h \<and>
                          sql_true (eval_sql pgrx (snd access) (row_of r) (fst access))) (alert_rows s))
                  (alert_history s)))
            in Inr \<lparr>detail_Alert = alert_of_row (note_count i s) ViewMatchNone row,
                    detail_History = map HistoryEvent.truncate history,
                    detail_Silences = silenceRecords (SourceSlug row) (SilencedBy row) s,
                    detail_Notes = listNotes i s\<rparr>)))"

section \<open>Lemmas\<close>

lemma row_of_labels [simp]: "col_value (row_of r) ColLabels = Some (Labels r)"
  by (simp add: col_value_def row_of_def)

lemma eval_read_row:
  "sql_true (eval_sql pgrx (snd (readAccessCondition caller ColLabels args)) (row_of r)
     (fst (readAccessCondition caller ColLabels args))) \<longleftrightarrow> sql_can_read pgrx caller (Labels r)"
  using eval_read_can_read [of "row_of r" ColLabels "Labels r" pgrx caller args "[]"] by simp

lemma eval_operate_row:
  "sql_true (eval_sql pgrx (snd (operateAccessCondition caller ColLabels args)) (row_of r)
     (fst (operateAccessCondition caller ColLabels args))) \<longleftrightarrow> sql_can_operate pgrx caller (Labels r)"
  using eval_operate_can_operate [of "row_of r" ColLabels "Labels r" pgrx caller args "[]"] by simp

lemma select_alert_Inr:
  "select_alert pgrx access i s = Inr r \<Longrightarrow>
     statement_ok {1} (fst access) (snd access) \<and> r \<in> set (alert_rows s) \<and> ID r = i \<and>
     sql_true (eval_sql pgrx (snd access) (row_of r) (fst access))"
  by (auto simp: select_alert_def filter_eq_Cons_iff split: if_splits list.splits)

lemma select_alert_found:
  assumes "alerts_ok s" "statement_ok {1} (fst access) (snd access)" "r \<in> set (alert_rows s)" "ID r = i"
    "sql_true (eval_sql pgrx (snd access) (row_of r) (fst access))"
  shows "select_alert pgrx access i s = Inr r"
proof (cases "filter (\<lambda>r. ID r = i \<and> sql_true (eval_sql pgrx (snd access) (row_of r) (fst access))) (alert_rows s)")
  case Nil
  with assms(3-5) show ?thesis by (auto simp: filter_empty_conv)
next
  case (Cons x xs)
  then have "x \<in> set (alert_rows s)" "ID x = i" by (auto simp: filter_eq_Cons_iff)
  then have "x = r" using row_by_id [OF assms(1)] assms(3,4) by blast
  with Cons assms(2) show ?thesis by (simp add: select_alert_def)
qed

lemma select_operate_Inr:
  assumes "select_alert pgrx (operateAccessCondition caller ColLabels args) i s = Inr r"
  shows "r \<in> set (alert_rows s)" "ID r = i" "sql_can_operate pgrx caller (Labels r)"
  using select_alert_Inr [OF assms] by (simp_all add: eval_operate_row)

lemma statement_ok_one: "statement_ok {1} c args = statement_ok {1..length [x]} c args"
  by (simp add: statement_ok_def)

lemma alert_of_row_truncate [simp]: "alert_row.truncate (alert_of_row n m r) = r"
  by (cases r) (simp add: alert_of_row_def alert_row.defs Alert.defs)

lemma GetAlertDetail_scope:
  assumes "GetAlertDetail pgrx caller i s = Inr d"
  shows "\<exists>r \<in> set (alert_rows s). ID r = i \<and> sql_can_read pgrx caller (Labels r) \<and>
    alert_row.truncate (detail_Alert d) = r"
proof -
  obtain r where r: "select_alert pgrx (readAccessCondition caller ColLabels [ArgInt i]) i s = Inr r"
    "detail_Alert d = alert_of_row (note_count i s) ViewMatchNone r"
    using assms by (auto simp: GetAlertDetail_def Let_def bind_res_Inr)
  from select_alert_Inr [OF r(1)] r(2) show ?thesis by (auto simp: eval_read_row)
qed

lemma GetAlertDetail_total:
  assumes "alerts_ok s" "statement_ok {1} (fst (readAccessCondition caller ColLabels [ArgInt i]))
      (snd (readAccessCondition caller ColLabels [ArgInt i]))"
    "r \<in> set (alert_rows s)" "ID r = i" "sql_can_read pgrx caller (Labels r)"
  shows "\<exists>d. GetAlertDetail pgrx caller i s = Inr d \<and> alert_row.truncate (detail_Alert d) = r"
  using select_alert_found [OF assms(1,2,3,4), of pgrx] assms(5)
  by (simp add: GetAlertDetail_def Let_def eval_read_row)

end
