(* ===== verification/Samples.thy ===== *)
theory Samples
  imports Detail
begin

text \<open>
  A small database on which the properties of the store's components are instantiated: one
  source, two alerts (one firing, acknowledged, assigned and closed, one resolved), read and
  operated by the sample callers of \<open>Access_SQL\<close>.
\<close>

definition sample_source :: source_row where
  "sample_source = \<lparr>row_slug = ''prod'', row_name = ''Production'', row_token_hash = None,
     row_enabled = True, row_stale_after = Some 600000000, row_alertmanager_url = ''http://am'',
     row_alertmanager_token = '''', row_last_delivery_at = None\<rparr>"

definition sample_row :: alert_row where
  "sample_row =
     \<lparr>ID = 1, SourceSlug = ''prod'', Fingerprint = ''f1'', Status = StatusFiring,
      Labels = sample_labels, Annotations = fmempty, StartsAt = 100, EndsAt = None,
      GeneratorURL = '''', ExternalURL = '''', FirstSeen = 100, LastSeen = 200, RepeatCount = 3,
      Occurrence = 2, Acknowledged = True, AcknowledgedAt = Some 150, AcknowledgedBy = ''alice'',
      Suppressed = False, SilencedBy = [], AssignedTo = ''bob'', AssignedAt = Some 160,
      AssignedBy = ''alice'', Closed = True, ClosedAt = Some 170, ClosedBy = ''alice'',
      ReconciledAt = None, RawData = ''{}''\<rparr>"

definition sample_resolved :: alert_row where
  "sample_resolved = sample_row\<lparr>ID := 2, Fingerprint := ''f2'', Status := StatusResolved,
     Labels := fmap_of_list [(''alertname'', ''DiskFull''), (''team'', ''db'')], EndsAt := Some 190\<rparr>"

definition sample_db :: db where
  "sample_db = \<lparr>alert_sources = [sample_source], alert_rows = [sample_row, sample_resolved],
     stream_events = [], alert_history = [], alert_notes = [], alertmanager_silences = [],
     deleted_through = 0, next_alert = 3, next_event = 1, next_history = 1, next_note = 1\<rparr>"

lemmas sample_defs = sample_labels_def sample_source_def sample_row_def sample_resolved_def sample_db_def
  sample_matcher_def sample_operator_def sample_mixed_def

lemma sample_db_ok: "db_ok sample_db"
  by (simp add: sample_defs db_ok_def sources_ok_def alerts_ok_def stream_ok_def history_ok_def notes_ok_def
      silences_ok_def alert_checks_def acknowledgement_check_def assignment_check_def close_check_def)

lemma sample_rows: "alert_rows sample_db = [sample_row, sample_resolved]"
  "ID sample_row = 1" "ID sample_resolved = 2" "Labels sample_row = sample_labels"
  by (simp_all add: sample_defs)

lemma sample_operator_known: "known_grants (Grants sample_operator)" "known_grants (Grants sample_mixed)"
  by (simp_all add: sample_defs known_grants_def known_operators_def supportedMatcherOps_def)

lemma sample_operator_clean:
  "clean_grants operates (Grants sample_operator)" "clean_grants reads (Grants sample_operator)"
  "\<not> clean_grants operates (Grants sample_mixed)"
  by (simp_all add: sample_defs unrestricted_grant_def operates_def reads_def)

lemma sample_operator_reach:
  "sql_can_operate pgrx sample_operator (Labels sample_row)"
  "sql_can_read pgrx sample_operator (Labels sample_row)"
  "\<not> sql_can_operate pgrx sample_operator (Labels sample_resolved)"
  by (auto simp: sample_defs sql_can_operate_iff sql_can_read_iff grants_match_def operates_def reads_def
      pg_match_all_def pg_match_def sql_operator_def sql_compare_def)

end
