(* ===== verification/Silence_Records.thy ===== *)
theory Silence_Records
  imports Samples
begin

text \<open>
  The silence inventory (\<open>internal/postgres/silence_sync.go\<close> and the writers of
  \<open>internal/postgres/silence.go\<close>): \<open>SyncSilences\<close>, \<open>RecordSilence\<close> and
  \<open>ExpireSilenceRecord\<close> on the table \<open>alertmanager_silences\<close>, and the conversions of
  matchers. The table is specified as the map its unique key makes it (\<open>silence_at\<close>).
\<close>

section \<open>Definitions\<close>

definition equalityMatcherMap :: "Matcher list \<Rightarrow> labels" where
  "equalityMatcherMap matchers =
     fold (\<lambda>m equality. if mt_IsEqual m \<and> \<not> mt_IsRegex m then fmupd (mt_Name m) (mt_Value m) equality
                        else equality) matchers fmempty"

definition matcherList :: "Matcher list \<Rightarrow> SilenceMatcher list" where
  "matcherList = map (\<lambda>m. \<lparr>sm_Name = mt_Name m, sm_Value = mt_Value m, sm_IsRegex = mt_IsRegex m,
     sm_IsEqual = mt_IsEqual m\<rparr>)"

definition equalityMatcherList :: "labels \<Rightarrow> SilenceMatcher list" where
  "equalityMatcherList matchers =
     map (\<lambda>name. \<lparr>sm_Name = name, sm_Value = golookup matchers name, sm_IsRegex = False,
       sm_IsEqual = True\<rparr>) (sorted_keys matchers)"

definition matcher_texts_ok :: "SilenceMatcher list \<Rightarrow> bool" where
  "matcher_texts_ok = list_all (\<lambda>m. text_ok (sm_Name m) \<and> text_ok (sm_Value m))"

definition record_texts_ok :: "SilenceRecord \<Rightarrow> bool" where
  "record_texts_ok r \<longleftrightarrow> text_ok (rec_Source r) \<and> text_ok (rec_SilenceID r) \<and> jsonb_ok (rec_Matchers r) \<and>
     text_ok (rec_CreatedBy r) \<and> text_ok (rec_Comment r) \<and> text_ok (rec_State r) \<and>
     matcher_texts_ok (rec_MatcherList r)"

definition silence_key :: "SilenceRecord \<Rightarrow> string \<times> string" where
  "silence_key r = (rec_Source r, rec_SilenceID r)"

text \<open>\<open>INSERT \<dots> ON CONFLICT (source_slug, silence_id) DO UPDATE\<close>, which sets every other column.\<close>

definition upsert_silence :: "SilenceRecord \<Rightarrow> db \<Rightarrow> db_error + db" where
  "upsert_silence r s =
     (if \<not> record_texts_ok r then Inl ErrDatabase
      else if silence_key r \<in> silence_key ` set (alertmanager_silences s)
      then Inr (s\<lparr>alertmanager_silences :=
             upd_where (\<lambda>q. silence_key q = silence_key r) (\<lambda>q. r) (alertmanager_silences s)\<rparr>)
      else Inr (s\<lparr>alertmanager_silences := alertmanager_silences s @ [r]\<rparr>))"

definition listed_record :: "string \<Rightarrow> ListedSilence \<Rightarrow> SilenceRecord" where
  "listed_record sourceSlug silence =
     \<lparr>rec_Source = sourceSlug, rec_SilenceID = ls_ID silence,
      rec_Matchers = equalityMatcherMap (ls_Matchers silence), rec_CreatedBy = ls_CreatedBy silence,
      rec_Comment = ls_Comment silence, rec_StartsAt = ls_StartsAt silence,
      rec_EndsAt = ls_EndsAt silence, rec_State = ls_State silence,
      rec_MatcherList = matcherList (ls_Matchers silence)\<rparr>"

definition end_record :: "instant \<Rightarrow> SilenceRecord \<Rightarrow> SilenceRecord" where
  "end_record now r = r\<lparr>rec_State := ''expired'', rec_EndsAt := min (rec_EndsAt r) now\<rparr>"

definition SyncSilences :: "string \<Rightarrow> ListedSilence list \<Rightarrow> instant \<Rightarrow> db \<Rightarrow> db_error + db" where
  "SyncSilences sourceSlug listed now s =
     bind_res (fold_res (\<lambda>silence. upsert_silence (listed_record sourceSlug silence)) listed s)
       (\<lambda>s1. let ids = map ls_ID listed
             in Inr (s1\<lparr>alertmanager_silences :=
                  upd_where (\<lambda>r. rec_Source r = sourceSlug \<and> rec_State r \<noteq> ''expired'' \<and>
                      rec_SilenceID r \<notin> set ids)
                    (end_record now) (alertmanager_silences s1)\<rparr>))"

definition ExpireSilenceRecord :: "string \<Rightarrow> string \<Rightarrow> instant \<Rightarrow> db \<Rightarrow> db_error + db" where
  "ExpireSilenceRecord sourceSlug silenceID now s =
     (if \<not> text_ok sourceSlug \<or> \<not> text_ok silenceID then Inl ErrDatabase
      else Inr (s\<lparr>alertmanager_silences :=
             upd_where (\<lambda>r. rec_Source r = sourceSlug \<and> rec_SilenceID r = silenceID)
               (end_record now) (alertmanager_silences s)\<rparr>))"

definition RecordSilence :: "SilenceRecord \<Rightarrow> db \<Rightarrow> db_error + db" where
  "RecordSilence r s =
     upsert_silence (r\<lparr>rec_State := ''active'', rec_MatcherList := equalityMatcherList (rec_Matchers r)\<rparr>) s"

section \<open>Specification\<close>

definition silence_at :: "db \<Rightarrow> string \<times> string \<Rightarrow> SilenceRecord option" where
  "silence_at s = map_of (map (\<lambda>r. (silence_key r, r)) (alertmanager_silences s))"

definition last_listed :: "ListedSilence list \<Rightarrow> string \<Rightarrow> ListedSilence option" where
  "last_listed listed = map_of (rev (map (\<lambda>l. (ls_ID l, l)) listed))"

text \<open>The inventory after a listing: what is listed is as listed, what is not listed has ended,
  and other sources keep their records.\<close>

definition synced ::
  "string \<Rightarrow> ListedSilence list \<Rightarrow> instant \<Rightarrow> (string \<times> string \<Rightarrow> SilenceRecord option) \<Rightarrow>
   string \<times> string \<Rightarrow> SilenceRecord option" where
  "synced slug listed now m = (\<lambda>(source, i).
     if source \<noteq> slug then m (source, i)
     else (case last_listed listed i of
             Some l \<Rightarrow> Some (listed_record slug l)
           | None \<Rightarrow> map_option (\<lambda>r. if rec_State r = ''expired'' then r else end_record now r) (m (source, i))))"

definition listing_texts_ok :: "string \<Rightarrow> ListedSilence list \<Rightarrow> bool" where
  "listing_texts_ok slug listed \<longleftrightarrow> list_all (\<lambda>l. record_texts_ok (listed_record slug l)) listed"

definition sample_listed :: ListedSilence where
  "sample_listed = \<lparr>ls_ID = ''s1'', ls_State = ''active'',
     ls_Matchers = [\<lparr>mt_Name = ''team'', mt_Value = ''web'', mt_IsRegex = False, mt_IsEqual = True\<rparr>],
     ls_StartsAt = 10, ls_EndsAt = 500, ls_CreatedBy = ''alice'', ls_Comment = ''patching''\<rparr>"

section \<open>Lemmas\<close>

lemma silence_at_upd:
  assumes "\<And>r. p r \<Longrightarrow> silence_key (f r) = silence_key r"
  shows "map_of (map (\<lambda>r. (silence_key r, r)) (upd_where p f rows)) k =
    map_option (\<lambda>r. if p r then f r else r) (map_of (map (\<lambda>r. (silence_key r, r)) rows) k)"
  using assms by (induction rows) (auto simp: upd_where_def)

lemma map_of_key_in:
  "map_of (map (\<lambda>r. (g r, r)) rows) k = Some r \<Longrightarrow> g r = k \<and> r \<in> set rows"
  by (induction rows) (auto split: if_splits)

lemma silence_at_None: "silence_at s k = None \<longleftrightarrow> k \<notin> silence_key ` set (alertmanager_silences s)"
  by (simp add: silence_at_def map_of_eq_None_iff image_image)

lemma silences_frame_trans:
  "t = s\<lparr>alertmanager_silences := a\<rparr> \<Longrightarrow> u = t\<lparr>alertmanager_silences := b\<rparr> \<Longrightarrow> u = s\<lparr>alertmanager_silences := b\<rparr>"
  by simp

lemma upsert_result:
  assumes "upsert_silence r s = Inr s'"
  shows "silence_at s' = (silence_at s)(silence_key r \<mapsto> r)"
    and "s' = s\<lparr>alertmanager_silences := alertmanager_silences s'\<rparr>"
    and "silences_ok s \<Longrightarrow> silences_ok s'"
proof -
  let ?in = "silence_key r \<in> silence_key ` set (alertmanager_silences s)"
  have rows: "alertmanager_silences s' =
    (if ?in then upd_where (\<lambda>q. silence_key q = silence_key r) (\<lambda>q. r) (alertmanager_silences s)
     else alertmanager_silences s @ [r])"
    and "s' = s\<lparr>alertmanager_silences := alertmanager_silences s'\<rparr>"
    using assms by (auto simp: upsert_silence_def split: if_splits)
  then show "s' = s\<lparr>alertmanager_silences := alertmanager_silences s'\<rparr>" by simp
  show "silence_at s' = (silence_at s)(silence_key r \<mapsto> r)"
  proof (cases ?in)
    case True
    have "silence_at s (silence_key r) \<noteq> None" using True silence_at_None by blast
    moreover have "silence_at s' k = map_option (\<lambda>q. if silence_key q = silence_key r then r else q) (silence_at s k)" for k
      unfolding silence_at_def rows using True silence_at_upd [of "\<lambda>q. silence_key q = silence_key r" "\<lambda>q. r"] by simp
    moreover have "silence_key q = k" if "silence_at s k = Some q" for k q
      using map_of_key_in that unfolding silence_at_def by fast
    ultimately show ?thesis by (intro ext) (fastforce simp: option.map_sel map_option_case split: option.splits)
  next
    case False
    then have "silence_at s (silence_key r) = None" using silence_at_None by blast
    with False show ?thesis
      by (auto simp: silence_at_def rows map_add_def split: option.splits)
  qed
  show "silences_ok s'" if "silences_ok s"
  proof (cases ?in)
    case True
    have "map silence_key (upd_where (\<lambda>q. silence_key q = silence_key r) (\<lambda>q. r) rs) = map silence_key rs" for rs
      by (auto simp: upd_where_def)
    with True that show ?thesis unfolding silences_ok_def rows silence_key_def [symmetric] by simp
  next
    case False
    with that show ?thesis unfolding silences_ok_def rows silence_key_def [symmetric] by auto
  qed
qed

text \<open>Nothing but the inventory depends on the inventory.\<close>

lemma silences_frame_ok:
  assumes "db_ok s" "s' = s\<lparr>alertmanager_silences := rs\<rparr>" "silences_ok s'"
  shows "db_ok s'"
  using assms(1,3) unfolding assms(2)
  by (simp add: db_ok_def sources_ok_def alerts_ok_def stream_ok_def history_ok_def notes_ok_def occurrence_of_def)

lemma sync_upserts:
  assumes "fold_res (\<lambda>l. upsert_silence (listed_record slug l)) listed s = Inr s'"
  shows "silence_at s' (source, i) =
      (if source = slug \<and> last_listed listed i \<noteq> None then map_option (listed_record slug) (last_listed listed i)
       else silence_at s (source, i))"
    and "s' = s\<lparr>alertmanager_silences := alertmanager_silences s'\<rparr>"
    and "silences_ok s \<Longrightarrow> silences_ok s'"
proof -
  have "silence_at s' (source, i) =
      (if source = slug \<and> last_listed listed i \<noteq> None then map_option (listed_record slug) (last_listed listed i)
       else silence_at s (source, i)) \<and> s' = s\<lparr>alertmanager_silences := alertmanager_silences s'\<rparr> \<and>
      (silences_ok s \<longrightarrow> silences_ok s')"
    using assms
  proof (induction listed arbitrary: s)
    case Nil
    then show ?case by (simp add: last_listed_def)
  next
    case (Cons l ls)
    then obtain t where t: "upsert_silence (listed_record slug l) s = Inr t"
      "fold_res (\<lambda>l. upsert_silence (listed_record slug l)) ls t = Inr s'"
      by (auto simp: bind_res_Inr)
    note u = upsert_result [OF t(1)] and ih = Cons.IH [OF t(2)]
    have key: "silence_key (listed_record slug l) = (slug, ls_ID l)"
      by (simp add: silence_key_def listed_record_def)
    have "last_listed (l # ls) i = (case last_listed ls i of None \<Rightarrow> if i = ls_ID l then Some l else None | Some x \<Rightarrow> Some x)"
      by (simp add: last_listed_def map_add_def split: option.splits)
    moreover have "s' = s\<lparr>alertmanager_silences := alertmanager_silences s'\<rparr>"
      using silences_frame_trans [OF u(2)] ih by blast
    ultimately show ?case using u(1,3) ih key by (auto split: option.splits)
  qed
  then show "silence_at s' (source, i) =
      (if source = slug \<and> last_listed listed i \<noteq> None then map_option (listed_record slug) (last_listed listed i)
       else silence_at s (source, i))"
    "s' = s\<lparr>alertmanager_silences := alertmanager_silences s'\<rparr>"
    "silences_ok s \<Longrightarrow> silences_ok s'" by blast+
qed

lemma vanish_silence_at:
  "silence_at (s\<lparr>alertmanager_silences := upd_where p (end_record now) (alertmanager_silences s)\<rparr>) k =
   map_option (\<lambda>r. if p r then end_record now r else r) (silence_at s k)"
proof -
  have "silence_key (end_record now r) = silence_key r" for r by (simp add: silence_key_def end_record_def)
  then show ?thesis by (simp add: silence_at_def silence_at_upd)
qed

lemma vanish_ok:
  "silences_ok s \<Longrightarrow> silences_ok (s\<lparr>alertmanager_silences := upd_where p (end_record now) (alertmanager_silences s)\<rparr>)"
  unfolding silences_ok_def
  by (simp add: upd_where_def end_record_def o_def if_distrib cong: if_cong)

lemma sync_accepts:
  "listing_texts_ok slug listed \<Longrightarrow> \<exists>s'. fold_res (\<lambda>l. upsert_silence (listed_record slug l)) listed s = Inr s'"
proof (induction listed arbitrary: s)
  case (Cons l ls)
  then have "\<exists>t. upsert_silence (listed_record slug l) s = Inr t"
    by (auto simp: listing_texts_ok_def upsert_silence_def)
  with Cons show ?case by (auto simp: listing_texts_ok_def)
qed simp

lemma silence_at_source: "silence_at s (source, i) = Some r \<Longrightarrow> rec_Source r = source \<and> rec_SilenceID r = i"
  unfolding silence_at_def by (drule map_of_key_in) (simp add: silence_key_def)

lemma last_listed_None: "last_listed listed i = None \<longleftrightarrow> i \<notin> ls_ID ` set listed"
  by (simp add: last_listed_def map_of_eq_None_iff image_image)

lemma last_listed_id: "last_listed listed i = Some l \<Longrightarrow> ls_ID l = i \<and> l \<in> set listed"
  unfolding last_listed_def by (drule map_of_SomeD) auto

lemma sync_result:
  assumes "db_ok s" "SyncSilences slug listed now s = Inr s'"
  shows "db_ok s'" "silence_at s' = synced slug listed now (silence_at s)"
    "s' = s\<lparr>alertmanager_silences := alertmanager_silences s'\<rparr>"
proof -
  let ?p = "\<lambda>r. rec_Source r = slug \<and> rec_State r \<noteq> ''expired'' \<and> rec_SilenceID r \<notin> set (map ls_ID listed)"
  obtain s1 where s1: "fold_res (\<lambda>l. upsert_silence (listed_record slug l)) listed s = Inr s1"
    and s': "s' = s1\<lparr>alertmanager_silences := upd_where ?p (end_record now) (alertmanager_silences s1)\<rparr>"
    using assms(2) unfolding SyncSilences_def bind_res_Inr Let_def by auto
  note u = sync_upserts [OF s1]
  have fr: "s' = s\<lparr>alertmanager_silences := upd_where ?p (end_record now) (alertmanager_silences s1)\<rparr>"
    by (rule silences_frame_trans [OF u(2) s'])
  have sok: "silences_ok s'" unfolding s' by (rule vanish_ok [OF u(3) [OF db_okD(6) [OF assms(1)]]])
  show "db_ok s'" by (rule silences_frame_ok [OF assms(1) fr sok])
  show "s' = s\<lparr>alertmanager_silences := alertmanager_silences s'\<rparr>" using fr by simp
  show "silence_at s' = synced slug listed now (silence_at s)"
  proof (rule ext, clarify)
    fix source i
    have at': "silence_at s' (source, i) = map_option (\<lambda>r. if ?p r then end_record now r else r) (silence_at s1 (source, i))"
      unfolding s' by (rule vanish_silence_at)
    show "silence_at s' (source, i) = synced slug listed now (silence_at s) (source, i)"
    proof (cases "source = slug \<and> last_listed listed i \<noteq> None")
      case True
      then obtain l where l: "last_listed listed i = Some l" by auto
      with True at' u(1) [of source i] last_listed_id [OF l] show ?thesis
        by (auto simp: synced_def listed_record_def)
    next
      case False
      then have "silence_at s1 (source, i) = silence_at s (source, i)" using u(1) by auto
      with False at' last_listed_None [of listed i] silence_at_source [of s source i] show ?thesis
        by (cases "silence_at s (source, i)") (auto simp: synced_def)
    qed
  qed
qed

section \<open>Properties\<close>

text \<open>C12: syncing with an Alertmanager's listing makes the inventory mirror it. A listing of
  storable texts is accepted; afterwards every listed silence has the record of its last listing,
  every silence of the source that is not listed has ended, at the latest now, and keeps its end
  if it had ended before, and the records of other sources are untouched, as is everything else in
  the database.\<close>

theorem sync_mirrors_listing:
  assumes "db_ok s" "listing_texts_ok slug listed"
  shows "\<exists>s'. SyncSilences slug listed now s = Inr s' \<and> db_ok s' \<and>
    silence_at s' = synced slug listed now (silence_at s) \<and>
    s' = s\<lparr>alertmanager_silences := alertmanager_silences s'\<rparr>"
proof -
  obtain s' where "SyncSilences slug listed now s = Inr s'"
    using sync_accepts [OF assms(2), of s] by (auto simp: SyncSilences_def Let_def)
  with sync_result [OF assms(1) this] show ?thesis by blast
qed

theorem sync_mirrors_listing_witness:
  "\<exists>s'. SyncSilences ''prod'' [sample_listed] 600 sample_db = Inr s' \<and>
     silence_at s' (''prod'', ''s1'') = Some (listed_record ''prod'' sample_listed)"
proof -
  have "listing_texts_ok ''prod'' [sample_listed]"
    by (simp add: listing_texts_ok_def record_texts_ok_def listed_record_def sample_listed_def
        jsonb_ok_def equalityMatcherMap_def matcherList_def matcher_texts_ok_def sorted_keys_def golookup_def)
  from sync_mirrors_listing [OF sample_db_ok this, of 600] show ?thesis
    by (auto simp: synced_def last_listed_def sample_listed_def)
qed

end
