(* ===== verification/Metrics.thy ===== *)
theory Metrics
  imports Alertmanager Silence_Records
begin

text \<open>
  What the server reports about itself (\<open>internal/metrics/metrics.go\<close>), and the wrappers that count the two silence outcomes
  (\<open>cmd/promview/instrumented.go\<close>).

  A vector is a map from label values to the value of the series, which is there from its first use on; a histogram is the list
  of the durations it observed, in nanoseconds. Counters only grow by whole numbers, so they are integers here. A receiver that is
  nil is \<^const>\<open>None\<close>. The registry, its text format and the collectors of the client library are not part of the model.
\<close>

section \<open>Series\<close>

type_synonym series = "string list \<rightharpoonup> int"

definition series_value :: "series \<Rightarrow> string list \<Rightarrow> int" where
  "series_value vec labels = (case vec labels of None \<Rightarrow> 0 | Some v \<Rightarrow> v)"

definition series_inc :: "string list \<Rightarrow> series \<Rightarrow> series" where
  "series_inc labels vec = vec(labels \<mapsto> series_value vec labels + 1)"

definition observe :: "string list \<Rightarrow> int \<Rightarrow> (string list \<rightharpoonup> int list) \<Rightarrow> string list \<rightharpoonup> int list" where
  "observe labels elapsed vec = vec(labels \<mapsto> (case vec labels of None \<Rightarrow> [] | Some es \<Rightarrow> es) @ [elapsed])"

record Metrics =
  httpRequests :: series
  httpDuration :: "string list \<rightharpoonup> int list"
  reconcileRuns :: series
  reconcileLastSuccess :: series
  silenceWrites :: series
  silenceRemovals :: series
  silenceRecords :: series
  openModeElevated :: series
  loginAttempts :: series
  loginDuration :: "string list \<rightharpoonup> int list"
  streamClients :: int
  streamPolls :: int
  streamEventsSent :: int
  streamGaps :: int
  streamPruned :: int
  buildInfo :: series

definition New_metrics :: "string \<Rightarrow> Metrics" where
  "New_metrics version =
     \<lparr>httpRequests = Map.empty, httpDuration = Map.empty, reconcileRuns = Map.empty, reconcileLastSuccess = Map.empty,
      silenceWrites = Map.empty, silenceRemovals = Map.empty, silenceRecords = Map.empty, openModeElevated = Map.empty,
      loginAttempts = Map.empty, loginDuration = Map.empty, streamClients = 0, streamPolls = 0, streamEventsSent = 0,
      streamGaps = 0, streamPruned = 0, buildInfo = [[version] \<mapsto> 1]\<rparr>"

section \<open>Recording\<close>

definition ObserveRequest :: "(int \<Rightarrow> string) \<Rightarrow> string \<Rightarrow> string \<Rightarrow> int \<Rightarrow> int \<Rightarrow> Metrics option \<Rightarrow> Metrics option" where
  "ObserveRequest itoa route method status elapsed = map_option (\<lambda>m.
     m\<lparr>httpRequests := series_inc [route, method, itoa status] (httpRequests m),
       httpDuration := observe [route, method] elapsed (httpDuration m)\<rparr>)"

text \<open>Instants are in microseconds; the gauge is in whole seconds.\<close>

definition ReconcileSucceeded :: "string \<Rightarrow> instant \<Rightarrow> Metrics option \<Rightarrow> Metrics option" where
  "ReconcileSucceeded source at = map_option (\<lambda>m.
     m\<lparr>reconcileRuns := series_inc [source, ''ok''] (reconcileRuns m),
       reconcileLastSuccess := (reconcileLastSuccess m)([source] \<mapsto> at div 1000000)\<rparr>)"

definition ReconcileFailed :: "string \<Rightarrow> string \<Rightarrow> Metrics option \<Rightarrow> Metrics option" where
  "ReconcileFailed source reason = map_option (\<lambda>m. m\<lparr>reconcileRuns := series_inc [source, reason] (reconcileRuns m)\<rparr>)"

definition OpenModeElevated :: "string \<Rightarrow> bool \<Rightarrow> Metrics option \<Rightarrow> Metrics option" where
  "OpenModeElevated role elevated = map_option (\<lambda>m.
     m\<lparr>openModeElevated := (openModeElevated m)([role] \<mapsto> (if elevated then 1 else 0))\<rparr>)"

definition LoginAttempted :: "string \<Rightarrow> string \<Rightarrow> int \<Rightarrow> Metrics option \<Rightarrow> Metrics option" where
  "LoginAttempted mode result elapsed = map_option (\<lambda>m.
     m\<lparr>loginAttempts := series_inc [mode, result] (loginAttempts m),
       loginDuration := observe [mode] elapsed (loginDuration m)\<rparr>)"

definition resultOf :: "'e + 'a \<Rightarrow> string" where
  "resultOf r = (case r of Inl e \<Rightarrow> ''error'' | Inr x \<Rightarrow> ''ok'')"

definition SilenceWritten :: "string \<Rightarrow> 'e + 'a \<Rightarrow> Metrics option \<Rightarrow> Metrics option" where
  "SilenceWritten alertmanager r = map_option (\<lambda>m. m\<lparr>silenceWrites := series_inc [alertmanager, resultOf r] (silenceWrites m)\<rparr>)"

definition SilenceRemoved :: "string \<Rightarrow> 'e + 'a \<Rightarrow> Metrics option \<Rightarrow> Metrics option" where
  "SilenceRemoved alertmanager r = map_option (\<lambda>m. m\<lparr>silenceRemovals := series_inc [alertmanager, resultOf r] (silenceRemovals m)\<rparr>)"

definition SilenceRecorded :: "'e + 'a \<Rightarrow> Metrics option \<Rightarrow> Metrics option" where
  "SilenceRecorded r = map_option (\<lambda>m. m\<lparr>silenceRecords := series_inc [resultOf r] (silenceRecords m)\<rparr>)"

definition StreamOpened :: "Metrics option \<Rightarrow> Metrics option" where
  "StreamOpened = map_option (\<lambda>m. m\<lparr>streamClients := streamClients m + 1\<rparr>)"

definition StreamClosed :: "Metrics option \<Rightarrow> Metrics option" where
  "StreamClosed = map_option (\<lambda>m. m\<lparr>streamClients := streamClients m - 1\<rparr>)"

definition StreamPolled :: "int \<Rightarrow> Metrics option \<Rightarrow> Metrics option" where
  "StreamPolled events = map_option (\<lambda>m.
     let m = m\<lparr>streamPolls := streamPolls m + 1\<rparr> in
     if 0 < events then m\<lparr>streamEventsSent := streamEventsSent m + events\<rparr> else m)"

definition StreamGapped :: "Metrics option \<Rightarrow> Metrics option" where
  "StreamGapped = map_option (\<lambda>m. m\<lparr>streamGaps := streamGaps m + 1\<rparr>)"

definition StreamPruned :: "int \<Rightarrow> Metrics option \<Rightarrow> Metrics option" where
  "StreamPruned events = map_option (\<lambda>m. if events \<le> 0 then m else m\<lparr>streamPruned := streamPruned m + events\<rparr>)"

section \<open>The database pool\<close>

record PoolSnapshot =
  pool_Acquired :: int
  pool_Idle :: int
  pool_Total :: int
  pool_Max :: int
  pool_EmptyAcquires :: int
  pool_AcquireWait :: int

text \<open>What a scrape reads of the pool: the connections by state, the acquisitions that waited and how long they did, in
  nanoseconds.\<close>

definition pool_Collect :: "PoolSnapshot \<Rightarrow> (string \<times> int) set \<times> int \<times> int" where
  "pool_Collect stat =
     ({(''acquired'', pool_Acquired stat), (''idle'', pool_Idle stat), (''total'', pool_Total stat), (''max'', pool_Max stat)},
      pool_EmptyAcquires stat, pool_AcquireWait stat)"

section \<open>Wrappers\<close>

text \<open>A call that is counted: the result and what was sent pass through.\<close>

definition counting_CreateSilence ::
  "(silence_post \<Rightarrow> string http_reply) \<Rightarrow> string \<Rightarrow> string \<Rightarrow> Silence \<Rightarrow> Metrics option \<Rightarrow>
   (silence_post list \<times> (client_error + string)) \<times> Metrics option" where
  "counting_CreateSilence do_http baseURL token silence m =
     (let sent = CreateSilence do_http baseURL token silence in (sent, SilenceWritten baseURL (snd sent) m))"

definition counting_DeleteSilence ::
  "(string \<times> string option \<Rightarrow> unit http_reply) \<Rightarrow> (string \<Rightarrow> string) \<Rightarrow> string \<Rightarrow> string \<Rightarrow> string \<Rightarrow> Metrics option \<Rightarrow>
   (client_error + unit) \<times> Metrics option" where
  "counting_DeleteSilence do_http pathEscape baseURL token silenceID m =
     (let result = DeleteSilence do_http pathEscape baseURL token silenceID in (result, SilenceRemoved baseURL result m))"

definition counting_RecordSilence :: "SilenceRecord \<Rightarrow> db \<Rightarrow> Metrics option \<Rightarrow> (db_error + db) \<times> Metrics option" where
  "counting_RecordSilence record s m = (let result = RecordSilence record s in (result, SilenceRecorded result m))"

section \<open>Lemmas\<close>

lemma series_value_inc [simp]: "series_value (series_inc labels vec) ls = series_value vec ls + (if ls = labels then 1 else 0)"
  by (simp add: series_inc_def series_value_def)

text \<open>The counters of a wrapper: exactly the series of its Alertmanager and outcome moves, by one.\<close>

lemma counting_CreateSilence_counts:
  "counting_CreateSilence do_http baseURL token silence (Some m) = (sent, m') \<Longrightarrow>
   sent = CreateSilence do_http baseURL token silence \<and>
   m' = Some (m\<lparr>silenceWrites := series_inc [baseURL, if isl (snd sent) then ''error'' else ''ok''] (silenceWrites m)\<rparr>)"
  by (auto simp: counting_CreateSilence_def SilenceWritten_def resultOf_def Let_def split: sum.splits)

lemma counting_RecordSilence_counts:
  "counting_RecordSilence r s (Some m) = (result, m') \<Longrightarrow>
   result = RecordSilence r s \<and>
   m' = Some (m\<lparr>silenceRecords := series_inc [if isl result then ''error'' else ''ok''] (silenceRecords m)\<rparr>)"
  by (auto simp: counting_RecordSilence_def SilenceRecorded_def resultOf_def Let_def split: sum.splits)

text \<open>Opening and closing streams in any order: the gauge is how many are open.\<close>

lemma stream_gauge:
  "map_option streamClients (foldl (\<lambda>m opened. if opened then StreamOpened m else StreamClosed m) (Some m) opens) =
   Some (streamClients m + int (length (filter id opens)) - int (length (filter Not opens)))"
proof (induction opens arbitrary: m)
  case (Cons opened opens)
  show ?case
    using Cons.IH [of "m\<lparr>streamClients := streamClients m + (if opened then 1 else - 1)\<rparr>"]
    by (cases opened) (simp_all add: StreamOpened_def StreamClosed_def algebra_simps del: map_option_eq_Some)
qed simp

end
