(* ===== verification/Sweep.thy ===== *)
theory Sweep
  imports Store
begin

text \<open>
  The loop \<open>ExpireStaleAlerts\<close> and \<open>PruneStreamEvents\<close> share: run one bounded
  transaction after another until one does less than a full batch, adding up what they did. It
  may run for ever, so it is a partial function whose value \<^const>\<open>None\<close> is not returning;
  the locale \<open>batch_sweep\<close> states what a batch promises and shows that the loop returns.

  The batches skip rows other transactions have locked: \<open>batch k\<close> is the \<open>k\<close>-th batch of
  a sweep, with the locks held at that moment. Each batch starts from the state the one before it committed: the transactions of others
  that commit between two batches are not modelled, only the rows they hold locked.
\<close>

section \<open>The loop\<close>

type_synonym batch = "nat \<Rightarrow> db \<Rightarrow> db_error + db \<times> nat"

text \<open>The result is the state, how much was done, and the error that stopped the loop.\<close>

partial_function (option) sweep ::
  "batch \<Rightarrow> nat \<Rightarrow> nat \<Rightarrow> nat \<Rightarrow> db \<Rightarrow> (db \<times> nat \<times> db_error option) option" where
  "sweep batch bound k acc s =
     (case batch k s of
        Inl e \<Rightarrow> Some (s, acc, Some e)
      | Inr (s', n) \<Rightarrow>
          if n < bound then Some (s', acc + n, None) else sweep batch bound (Suc k) (acc + n) s')"

declare sweep.simps [code]

section \<open>The contract of a batch\<close>

text \<open>
  \<open>pending\<close> counts the work left; a batch takes off exactly what it reports, keeps the
  invariant \<open>inv\<close>, and relates the state before and after by \<open>rel\<close>, which is reflexive and
  transitive.
\<close>

locale batch_sweep =
  fixes batch :: batch
    and bound :: nat
    and pending :: "db \<Rightarrow> nat"
    and inv :: "db \<Rightarrow> bool"
    and rel :: "db \<Rightarrow> db \<Rightarrow> bool"
  assumes bound_pos: "0 < bound"
    and progress: "inv s \<Longrightarrow> batch k s = Inr (s', n) \<Longrightarrow> pending s' + n = pending s"
    and keeps_inv: "inv s \<Longrightarrow> batch k s = Inr (s', n) \<Longrightarrow> inv s'"
    and step_rel: "inv s \<Longrightarrow> batch k s = Inr (s', n) \<Longrightarrow> rel s s'"
    and rel_refl: "rel s s"
    and rel_trans: "rel s t \<Longrightarrow> rel t u \<Longrightarrow> rel s u"
begin

lemma sweep_returns:
  assumes "inv s"
  shows "\<exists>s' acc' err. sweep batch bound k acc s = Some (s', acc', err) \<and> inv s' \<and> rel s s' \<and>
    acc' + pending s' = acc + pending s"
  using assms
proof (induction "pending s" arbitrary: s k acc rule: less_induct)
  case less
  show ?case
  proof (cases "batch k s")
    case (Inl e)
    with less.prems show ?thesis by (subst sweep.simps) (simp add: rel_refl)
  next
    case (Inr p)
    obtain s' n where p: "batch k s = Inr (s', n)" using Inr by (cases p) simp
    note facts = progress [OF less.prems p] keeps_inv [OF less.prems p] step_rel [OF less.prems p]
    show ?thesis
    proof (cases "n < bound")
      case True
      with p facts show ?thesis by (subst sweep.simps) (simp add: add.assoc add.commute)
    next
      case False
      then have "pending s' < pending s" using facts(1) bound_pos by linarith
      from less.hyps [OF this facts(2), of "Suc k" "acc + n"] obtain u acc' err where
        u: "sweep batch bound (Suc k) (acc + n) s' = Some (u, acc', err)" "inv u" "rel s' u"
          "acc' + pending u = acc + n + pending s'" by blast
      moreover have "sweep batch bound k acc s = sweep batch bound (Suc k) (acc + n) s'"
        using p False by (subst sweep.simps) simp
      moreover have "rel s u" using rel_trans [OF facts(3) u(3)] .
      ultimately show ?thesis using facts(1) by (intro exI [of _ u] exI [of _ acc'] exI [of _ err]) auto
    qed
  qed
qed

text \<open>What holds of the last batch of a sweep that ends without an error holds of its result.\<close>

lemma sweep_last:
  assumes "inv s" "sweep batch bound k acc s = Some (s', acc', None)"
    and "\<And>k t t' n. inv t \<Longrightarrow> batch k t = Inr (t', n) \<Longrightarrow> n < bound \<Longrightarrow> Q t'"
  shows "Q s'"
  using assms(1,2)
proof (induction "pending s" arbitrary: s k acc rule: less_induct)
  case less
  obtain t n where p: "batch k s = Inr (t, n)"
    using less.prems(2) by (subst (asm) sweep.simps) (auto split: sum.splits)
  note facts = progress [OF less.prems(1) p] keeps_inv [OF less.prems(1) p]
  show ?case
  proof (cases "n < bound")
    case True
    then have "s' = t" using less.prems(2) p by (subst (asm) sweep.simps) simp
    with assms(3) [OF less.prems(1) p True] show ?thesis by simp
  next
    case False
    then have "sweep batch bound (Suc k) (acc + n) t = Some (s', acc', None)"
      using less.prems(2) p by (subst (asm) sweep.simps) simp
    moreover have "pending t < pending s" using facts(1) False bound_pos by linarith
    ultimately show ?thesis using less.hyps [OF _ facts(2)] by blast
  qed
qed

text \<open>A sweep whose batches all succeed ends without an error.\<close>

lemma sweep_clean:
  assumes "inv s" "good s"
    and "\<And>k t. inv t \<Longrightarrow> good t \<Longrightarrow> \<exists>p. batch k t = Inr p"
    and "\<And>t u. rel t u \<Longrightarrow> good t \<Longrightarrow> good u"
  shows "\<exists>s' acc'. sweep batch bound k acc s = Some (s', acc', None)"
  using assms(1,2)
proof (induction "pending s" arbitrary: s k acc rule: less_induct)
  case less
  obtain t n where p: "batch k s = Inr (t, n)" using assms(3) [OF less.prems, of k] by (auto simp: split_paired_Ex)
  note facts = progress [OF less.prems(1) p] keeps_inv [OF less.prems(1) p]
    assms(4) [OF step_rel [OF less.prems(1) p] less.prems(2)]
  show ?case
  proof (cases "n < bound")
    case True
    with p show ?thesis by (subst sweep.simps) simp
  next
    case False
    then have "pending t < pending s" using facts(1) bound_pos by linarith
    from less.hyps [OF this facts(2,3), of "Suc k" "acc + n"] p False show ?thesis
      by (subst sweep.simps) simp
  qed
qed

end

end
