(* ===== verification/Retention.thy ===== *)
theory Retention
  imports Sweep Samples
begin

text \<open>
  Stream retention (\<open>internal/postgres/stream_retention.go\<close>): \<open>pruneStreamBatch\<close> and
  \<open>PruneStreamEvents\<close>. \<open>locked i\<close> says that another transaction holds the event
  \<open>i\<close>; \<open>locks k\<close> are the locks the \<open>k\<close>-th batch meets. Durations and instants are
  in microseconds.
\<close>

section \<open>Definitions\<close>

definition streamPruneBatchSize :: nat where
  "streamPruneBatchSize = 1000"

definition prune_victims :: "instant \<Rightarrow> (int \<Rightarrow> bool) \<Rightarrow> db \<Rightarrow> stream_row list" where
  "prune_victims cutoff locked s =
     take streamPruneBatchSize
       (filter (\<lambda>e. \<not> locked (ev_id e))
          (sort_key ev_id (filter (\<lambda>e. ev_occurred_at e < cutoff) (stream_events s))))"

definition pruneStreamBatch :: "instant \<Rightarrow> (int \<Rightarrow> bool) \<Rightarrow> db \<Rightarrow> db_error + db \<times> nat" where
  "pruneStreamBatch cutoff locked s =
     (let victims = map ev_id (prune_victims cutoff locked s);
          removed = filter (\<lambda>e. ev_id e \<in> set victims) (stream_events s);
          highest = foldr max (map ev_id removed) 0;
          count = length removed
      in if count = 0 then Inr (s, 0)
         else Inr (s\<lparr>stream_events := filter (\<lambda>e. ev_id e \<notin> set victims) (stream_events s),
                     deleted_through := max (deleted_through s) highest\<rparr>, count))"

definition PruneStreamEvents ::
  "int \<Rightarrow> instant \<Rightarrow> (nat \<Rightarrow> int \<Rightarrow> bool) \<Rightarrow> db \<Rightarrow> (db \<times> nat \<times> db_error option) option" where
  "PruneStreamEvents retention now locks s =
     (if retention < 0 then Some (s, 0, Some (ErrMessage ''stream retention must not be negative''))
      else if retention = 0 then Some (s, 0, None)
      else sweep (\<lambda>k. pruneStreamBatch (now - retention) (locks k)) streamPruneBatchSize 0 0 s)"

section \<open>Specification\<close>

text \<open>What pruning may do to the stream: take away old events at or below the new watermark,
  which never moves back, and nothing else.\<close>

definition pruned_to :: "instant \<Rightarrow> db \<Rightarrow> db \<Rightarrow> bool" where
  "pruned_to cutoff s s' \<longleftrightarrow>
     s' = s\<lparr>stream_events := stream_events s', deleted_through := deleted_through s'\<rparr> \<and>
     deleted_through s \<le> deleted_through s' \<and>
     set (stream_events s') \<subseteq> set (stream_events s) \<and>
     (\<forall>e \<in> set (stream_events s). e \<in> set (stream_events s') \<or>
        ev_id e \<le> deleted_through s' \<and> ev_occurred_at e < cutoff)"

text \<open>Two events of the sample database, one of them old.\<close>

definition sample_event :: stream_row where
  "sample_event = \<lparr>ev_id = 1, ev_type = ''alert.created'', ev_alert_id = 1, ev_occurred_at = 10,
     ev_severity = ''critical'', ev_alert_name = ''HighCPU'', ev_summary = '''', ev_source_slug = ''prod'',
     ev_team = ''web'', ev_labels = sample_labels, ev_previous_labels = None\<rparr>"

definition sample_stream :: db where
  "sample_stream = sample_db\<lparr>stream_events := [sample_event, sample_event\<lparr>ev_id := 2, ev_occurred_at := 990\<rparr>],
     next_event := 3\<rparr>"

section \<open>Lemmas\<close>

lemma prune_victims_old:
  "e \<in> set (prune_victims cutoff locked s) \<Longrightarrow>
   e \<in> set (stream_events s) \<and> ev_occurred_at e < cutoff \<and> \<not> locked (ev_id e)"
  by (auto simp: prune_victims_def dest: in_set_takeD)

lemma foldr_max_ge: "x \<in> set xs \<Longrightarrow> x \<le> foldr max xs (b :: int)"
  by (induction xs) auto

lemma foldr_max_in: "xs \<noteq> [] \<Longrightarrow> \<forall>x \<in> set xs. b < x \<Longrightarrow> foldr max xs (b :: int) \<in> set xs"
proof (induction xs)
  case (Cons x xs)
  then show ?case by (cases xs) (auto simp: max_def)
qed simp

lemma event_unique:
  assumes "stream_ok s" "e \<in> set (stream_events s)" "f \<in> set (stream_events s)" "ev_id e = ev_id f"
  shows "e = f"
proof -
  have "distinct (map ev_id (stream_events s))"
    using assms(1) strict_sorted_iff by (auto simp: stream_ok_def)
  with assms(2-4) show ?thesis by (auto simp: distinct_map inj_on_def)
qed

lemma pruneStreamBatch_result:
  assumes "pruneStreamBatch cutoff locked s = Inr (s', n)"
  obtains vs where "vs = map ev_id (prune_victims cutoff locked s)"
    "n = length (filter (\<lambda>e. ev_id e \<in> set vs) (stream_events s))"
    "s' = (if n = 0 then s
           else s\<lparr>stream_events := filter (\<lambda>e. ev_id e \<notin> set vs) (stream_events s),
                  deleted_through := max (deleted_through s)
                    (foldr max (map ev_id (filter (\<lambda>e. ev_id e \<in> set vs) (stream_events s))) 0)\<rparr>)"
  using assms by (auto simp: pruneStreamBatch_def Let_def split: if_splits)

lemma prune_batch_pending:
  assumes "pruneStreamBatch cutoff locked s = Inr (s', n)"
  shows "length (stream_events s') + n = length (stream_events s)"
  using assms sum_length_filter_compl [of _ "stream_events s"]
  by (auto elim!: pruneStreamBatch_result simp: add.commute filter_empty_conv)

lemma prune_batch_rel:
  assumes "db_ok s" "pruneStreamBatch cutoff locked s = Inr (s', n)"
  shows "pruned_to cutoff s s'"
proof -
  obtain vs where vs: "vs = map ev_id (prune_victims cutoff locked s)"
    "n = length (filter (\<lambda>e. ev_id e \<in> set vs) (stream_events s))"
    "s' = (if n = 0 then s
           else s\<lparr>stream_events := filter (\<lambda>e. ev_id e \<notin> set vs) (stream_events s),
                  deleted_through := max (deleted_through s)
                    (foldr max (map ev_id (filter (\<lambda>e. ev_id e \<in> set vs) (stream_events s))) 0)\<rparr>)"
    using assms(2) by (rule pruneStreamBatch_result)
  show ?thesis
  proof (cases "n = 0")
    case True
    with vs(3) show ?thesis by (auto simp: pruned_to_def)
  next
    case False
    have "ev_id e \<le> deleted_through s' \<and> ev_occurred_at e < cutoff"
      if mem: "e \<in> set (stream_events s)" and v: "ev_id e \<in> set vs" for e
    proof -
      obtain f where f: "f \<in> set (prune_victims cutoff locked s)" "ev_id f = ev_id e" using v vs(1) by auto
      note old = prune_victims_old [OF f(1)]
      then have "f = e" using event_unique [OF db_okD(3) [OF assms(1)]] mem f(2) by blast
      moreover have "ev_id e \<le> foldr max (map ev_id (filter (\<lambda>e. ev_id e \<in> set vs) (stream_events s))) 0"
        using mem v by (intro foldr_max_ge) auto
      ultimately show ?thesis using old False vs(3) by simp
    qed
    with False vs(3) show ?thesis by (auto simp: pruned_to_def)
  qed
qed

lemma pruned_ok:
  assumes "db_ok s" "pruned_to cutoff s s'" "deleted_through s' < next_event s"
    "sorted_wrt (<) (map ev_id (stream_events s'))"
  shows "db_ok s'"
proof -
  have s': "s' = s\<lparr>stream_events := stream_events s', deleted_through := deleted_through s'\<rparr>"
    using assms(2) by (simp add: pruned_to_def)
  have next_e: "next_event s' = next_event s" "alert_rows s' = alert_rows s" by (subst s', simp)+
  have keep: "i \<in> ev_id ` set (stream_events s')"
    if lo: "deleted_through s' < i" and hi: "i < next_event s" for i
  proof -
    have "deleted_through s < i" using assms(2) lo by (simp add: pruned_to_def)
    then obtain e where e: "e \<in> set (stream_events s)" "i = ev_id e"
      using db_okD(3) [OF assms(1)] hi by (auto simp: stream_ok_def)
    with assms(2) lo show ?thesis by (auto simp: pruned_to_def)
  qed
  have "stream_ok s'"
    using db_okD(3) [OF assms(1)] assms(2-4) keep next_e
    by (auto simp: stream_ok_def pruned_to_def)
  moreover have "sources_ok s'" "alerts_ok s'" "history_ok s'" "notes_ok s'" "silences_ok s'"
    using db_okD [OF assms(1)]
    by (subst s', simp add: sources_ok_def alerts_ok_def history_ok_def notes_ok_def silences_ok_def
        occurrence_of_def)+
  ultimately show ?thesis by (simp add: db_ok_def)
qed

lemma prune_batch_ok [keeps]:
  assumes "db_ok s" "pruneStreamBatch cutoff locked s = Inr (s', n)"
  shows "db_ok s'"
proof (rule pruned_ok [OF assms(1) prune_batch_rel [OF assms]])
  obtain vs where vs: "n = length (filter (\<lambda>e. ev_id e \<in> set vs) (stream_events s))"
    "s' = (if n = 0 then s
           else s\<lparr>stream_events := filter (\<lambda>e. ev_id e \<notin> set vs) (stream_events s),
                  deleted_through := max (deleted_through s)
                    (foldr max (map ev_id (filter (\<lambda>e. ev_id e \<in> set vs) (stream_events s))) 0)\<rparr>)"
    using assms(2) by (rule pruneStreamBatch_result)
  note sok = db_okD(3) [OF assms(1)]
  show "deleted_through s' < next_event s"
  proof (cases "n = 0")
    case False
    let ?ids = "map ev_id (filter (\<lambda>e. ev_id e \<in> set vs) (stream_events s))"
    have "foldr max ?ids 0 \<in> set ?ids"
      using False vs(1) sok by (intro foldr_max_in) (auto simp: stream_ok_def)
    then have "foldr max ?ids 0 < next_event s" using sok by (auto simp: stream_ok_def)
    with False vs(2) sok show ?thesis by (simp add: stream_ok_def)
  qed (use vs(2) sok in \<open>simp add: stream_ok_def\<close>)
  show "sorted_wrt (<) (map ev_id (stream_events s'))"
    using sok vs(2) by (auto simp: stream_ok_def sorted_wrt_map sorted_wrt_filter)
qed

lemma pruned_to_refl: "pruned_to cutoff s s"
  by (auto simp: pruned_to_def)

lemma pruned_frame_trans:
  "t = s\<lparr>stream_events := a, deleted_through := b\<rparr> \<Longrightarrow> u = t\<lparr>stream_events := c, deleted_through := d\<rparr> \<Longrightarrow>
   u = s\<lparr>stream_events := c, deleted_through := d\<rparr>"
  by simp

lemma pruned_to_trans:
  assumes "pruned_to cutoff s t" "pruned_to cutoff t u"
  shows "pruned_to cutoff s u"
proof -
  have "u = s\<lparr>stream_events := stream_events u, deleted_through := deleted_through u\<rparr>"
    using assms pruned_frame_trans unfolding pruned_to_def by blast
  moreover have "e \<in> set (stream_events u) \<or> ev_id e \<le> deleted_through u \<and> ev_occurred_at e < cutoff"
    if "e \<in> set (stream_events s)" for e
    using assms that unfolding pruned_to_def by (meson order_trans)
  ultimately show ?thesis using assms unfolding pruned_to_def by (meson order_trans)
qed

interpretation prune: batch_sweep "\<lambda>k. pruneStreamBatch cutoff (locks k)" streamPruneBatchSize
  "\<lambda>s. length (stream_events s)" db_ok "pruned_to cutoff" for cutoff locks
  by unfold_locales
    (auto simp: streamPruneBatchSize_def prune_batch_pending pruned_to_refl
      intro: prune_batch_ok prune_batch_rel pruned_to_trans)

text \<open>A short batch with nothing locked leaves no old event.\<close>

lemma prune_batch_exhausted:
  assumes "db_ok s" "pruneStreamBatch cutoff (\<lambda>i. False) s = Inr (s', n)" "n < streamPruneBatchSize"
  shows "\<forall>e \<in> set (stream_events s'). cutoff \<le> ev_occurred_at e"
proof -
  obtain vs where vs: "vs = map ev_id (prune_victims cutoff (\<lambda>i. False) s)"
    "n = length (filter (\<lambda>e. ev_id e \<in> set vs) (stream_events s))"
    "s' = (if n = 0 then s
           else s\<lparr>stream_events := filter (\<lambda>e. ev_id e \<notin> set vs) (stream_events s),
                  deleted_through := max (deleted_through s)
                    (foldr max (map ev_id (filter (\<lambda>e. ev_id e \<in> set vs) (stream_events s))) 0)\<rparr>)"
    using assms(2) by (rule pruneStreamBatch_result)
  let ?old = "filter (\<lambda>e. ev_occurred_at e < cutoff) (stream_events s)"
  have d: "distinct (map ev_id (stream_events s))"
    using db_okD(3) [OF assms(1)] strict_sorted_iff by (auto simp: stream_ok_def)
  have "distinct (map ev_id (filter (\<lambda>e. \<not> False)
      (sort_key ev_id (filter (\<lambda>e. ev_occurred_at e < cutoff) (stream_events s)))))"
    using d by (auto simp: distinct_map intro: inj_on_subset)
  then have dv: "distinct vs"
    unfolding vs(1) prune_victims_def by (simp only: take_map [symmetric] distinct_take)
  have "set vs \<subseteq> ev_id ` set (stream_events s)"
    using prune_victims_old [of _ cutoff "\<lambda>i. False" s] by (auto simp: vs(1))
  then have "set (map ev_id (filter (\<lambda>e. ev_id e \<in> set vs) (stream_events s))) = set vs" by auto
  moreover have "distinct (map ev_id (filter (\<lambda>e. ev_id e \<in> set vs) (stream_events s)))"
    using d by (simp add: distinct_map_filter)
  ultimately have "n = length vs"
    using vs(2) dv by (metis distinct_card length_map)
  then have all: "length ?old < streamPruneBatchSize"
    using assms(3) by (simp add: vs(1) prune_victims_def)
  have hit: "ev_id e \<in> set vs" if "e \<in> set (stream_events s)" "ev_occurred_at e < cutoff" for e
    using that all by (simp add: vs(1) prune_victims_def)
  show ?thesis
  proof
    fix e assume e: "e \<in> set (stream_events s')"
    show "cutoff \<le> ev_occurred_at e"
    proof (rule ccontr)
      assume "\<not> cutoff \<le> ev_occurred_at e"
      moreover have mem: "e \<in> set (stream_events s)" using e vs(3) by (auto split: if_splits)
      ultimately have "ev_id e \<in> set vs" using hit by simp
      with e mem vs(2,3) show False by (auto simp: filter_empty_conv split: if_splits)
    qed
  qed
qed

lemma sample_stream_ok: "db_ok sample_stream"
proof -
  have "stream_ok sample_stream" by (auto simp: stream_ok_def sample_stream_def sample_event_def sample_defs)
  with sample_db_ok show ?thesis
    by (simp add: db_ok_def sample_stream_def sources_ok_def alerts_ok_def history_ok_def notes_ok_def
        silences_ok_def occurrence_of_def)
qed

section \<open>Properties\<close>

text \<open>C10: pruning always returns, keeps the invariant, and loses nothing a resuming client
  could not know about. Whether or not a batch fails, the watermark never moves back, an event
  that is gone is old and at or below the watermark, and every id above the watermark that was
  ever handed out is still there.\<close>

theorem prune_watermark_safe:
  assumes "db_ok s"
  shows "\<exists>s' n err. PruneStreamEvents retention now locks s = Some (s', n, err) \<and> db_ok s' \<and>
    pruned_to (now - retention) s s' \<and>
    n + length (stream_events s') = length (stream_events s) \<and>
    (\<forall>i. deleted_through s' < i \<and> i < next_event s \<longrightarrow> i \<in> ev_id ` set (stream_events s'))"
proof (cases "retention \<le> 0")
  case True
  then show ?thesis
    using assms db_okD(3) [OF assms] by (auto simp: PruneStreamEvents_def pruned_to_refl stream_ok_def)
next
  case False
  let ?b = "\<lambda>k. pruneStreamBatch (now - retention) (locks k)"
  obtain s' n err where r: "sweep ?b streamPruneBatchSize 0 0 s = Some (s', n, err)" "db_ok s'"
    "pruned_to (now - retention) s s'" "n + length (stream_events s') = length (stream_events s)"
    using prune.sweep_returns [OF assms, of "now - retention" locks 0 0] by auto
  have "next_event s' = next_event s" using r(3) by (metis db.select_convs(9) db.surjective db.update_convs(3,7) pruned_to_def)
  with r db_okD(3) [OF r(2)] False show ?thesis by (auto simp: PruneStreamEvents_def stream_ok_def)
qed

theorem prune_watermark_safe_witness:
  "\<exists>s' n err. PruneStreamEvents 50 1000 (\<lambda>k i. i = 1) sample_stream = Some (s', n, err) \<and>
     (\<forall>i. deleted_through s' < i \<and> i < 3 \<longrightarrow> i \<in> ev_id ` set (stream_events s'))"
proof -
  have "next_event sample_stream = 3" by (simp add: sample_stream_def)
  with prune_watermark_safe [OF sample_stream_ok, of 50 1000 "\<lambda>k i. i = 1"] show ?thesis by auto
qed

text \<open>A pruning pass that meets no locks and ends without an error leaves no event older
  than the retention window.\<close>

theorem prune_complete:
  assumes "db_ok s" "0 < retention" "PruneStreamEvents retention now (\<lambda>k i. False) s = Some (s', n, None)"
  shows "\<forall>e \<in> set (stream_events s'). now - retention \<le> ev_occurred_at e"
proof (rule prune.sweep_last [OF assms(1)])
  show "sweep (\<lambda>k. pruneStreamBatch (now - retention) (\<lambda>i. False)) streamPruneBatchSize 0 0 s = Some (s', n, None)"
    using assms(2,3) by (simp add: PruneStreamEvents_def)
qed (rule prune_batch_exhausted)

theorem prune_complete_witness:
  "\<exists>s' n. PruneStreamEvents 50 1000 (\<lambda>k i. False) sample_stream = Some (s', n, None) \<and>
     (\<forall>e \<in> set (stream_events s'). 950 \<le> ev_occurred_at e)"
proof -
  have old: "filter (\<lambda>e. ev_occurred_at e < 950) (stream_events sample_stream) =
      [sample_event]" by (simp add: sample_stream_def sample_event_def)
  have "prune_victims 950 (\<lambda>i. False) sample_stream = [sample_event]"
    by (simp add: prune_victims_def old streamPruneBatchSize_def)
  then have "\<exists>s' n. pruneStreamBatch 950 (\<lambda>i. False) sample_stream = Inr (s', n) \<and> n < streamPruneBatchSize"
    by (auto simp: pruneStreamBatch_def Let_def sample_stream_def sample_event_def streamPruneBatchSize_def)
  then obtain s' n where r: "PruneStreamEvents 50 1000 (\<lambda>k i. False) sample_stream = Some (s', n, None)"
    by (auto simp: PruneStreamEvents_def sweep.simps)
  from prune_complete [OF sample_stream_ok _ r] r show ?thesis by auto
qed

end
