(* ===== verification/Expiry.thy ===== *)
theory Expiry
  imports Sweep Samples
begin

text \<open>
  Expiry of alerts whose source went quiet (\<open>internal/postgres/expiry.go\<close>):
  \<open>expireStaleBatch\<close> and \<open>ExpireStaleAlerts\<close>.

  PostgreSQL evaluates the window of every firing alert of a known source: a \<open>timeout\<close> label
  of digits that is no \<open>bigint\<close>, or whose interval or resulting instant is out of range,
  fails the statement and so the whole batch. \<open>locked i\<close> says that another transaction holds
  the alert \<open>i\<close>, which the batch then skips.
\<close>

section \<open>Definitions\<close>

definition expiryBatchSize :: nat where
  "expiryBatchSize = 500"

definition digits_value :: "string \<Rightarrow> nat" where
  "digits_value t = foldl (\<lambda>n c. 10 * n + (of_char c - of_char (CHR ''0''))) 0 t"

text \<open>The label \<open>timeout\<close> when it matches \<open>^[0-9]+$\<close>.\<close>

definition timeout_seconds :: "labels \<Rightarrow> nat option" where
  "timeout_seconds l =
     (case fmlookup l ''timeout'' of
        None \<Rightarrow> None
      | Some t \<Rightarrow> if t \<noteq> [] \<and> list_all is_digit t then Some (digits_value t) else None)"

text \<open>The bounds of \<open>bigint\<close>, of an interval's microseconds and of \<open>timestamptz\<close>, the
  latter being the first day of the Julian calendar's day count.\<close>

definition bigint_max :: nat where
  "bigint_max = 2 ^ 63 - 1"

definition timestamp_min :: instant where
  "timestamp_min = - (1721426 * 86400 * 1000000)"

definition expiryWindow :: "int \<Rightarrow> int option \<Rightarrow> labels \<Rightarrow> db_error + int" where
  "expiryWindow defaultStaleAfter stale_after l =
     (case timeout_seconds l of
        Some n \<Rightarrow> if n > bigint_max \<or> n * 1000000 > bigint_max then Inl ErrDatabase
                  else Inr (int n * 1000000)
      | None \<Rightarrow> Inr (case stale_after of Some w \<Rightarrow> w | None \<Rightarrow> defaultStaleAfter))"

definition lastEvidence :: "alert_row \<Rightarrow> instant" where
  "lastEvidence r =
     max (LastSeen r) (case ReconciledAt r of None \<Rightarrow> LastSeen r | Some t \<Rightarrow> t)"

definition stale_condition :: "int \<Rightarrow> instant \<Rightarrow> source_row \<Rightarrow> alert_row \<Rightarrow> db_error + bool" where
  "stale_condition defaultStaleAfter now source r =
     bind_res (expiryWindow defaultStaleAfter (row_stale_after source) (Labels r))
       (\<lambda>w. if w > 0
            then (if now - w < timestamp_min then Inl ErrDatabase else Inr (lastEvidence r < now - w))
            else Inr False)"

definition source_of :: "db \<Rightarrow> alert_row \<Rightarrow> source_row option" where
  "source_of s r = find (\<lambda>src. row_slug src = SourceSlug r) (alert_sources s)"

fun select_stale :: "int \<Rightarrow> instant \<Rightarrow> db \<Rightarrow> alert_row list \<Rightarrow> db_error + alert_row list" where
  "select_stale d now s [] = Inr []"
| "select_stale d now s (r # rs) =
     bind_res (if Status r \<noteq> StatusFiring then Inr False
               else (case source_of s r of None \<Rightarrow> Inr False | Some src \<Rightarrow> stale_condition d now src r))
       (\<lambda>b. bind_res (select_stale d now s rs) (\<lambda>rest. Inr (if b then r # rest else rest)))"

definition expire_row :: "instant \<Rightarrow> alert_row \<Rightarrow> alert_row" where
  "expire_row now r = r\<lparr>Status := StatusExpired, EndsAt := coalesce (EndsAt r) (Some now)\<rparr>"

text \<open>The \<open>IncomingAlert\<close> the sweep builds for the stream.\<close>

definition expired_incoming :: "instant \<Rightarrow> alert_row \<Rightarrow> IncomingAlert" where
  "expired_incoming now r =
     \<lparr>in_SourceSlug = SourceSlug r, in_Fingerprint = Fingerprint r, in_Status = StatusExpired,
      in_Labels = Labels r, in_Annotations = Annotations r, in_StartsAt = 0, in_EndsAt = 0,
      in_GeneratorURL = '''', in_ExternalURL = '''', in_ReceivedAt = now, in_RawData = ''''\<rparr>"

definition expire_events :: "instant \<Rightarrow> alert_row \<Rightarrow> db \<Rightarrow> db_error + db" where
  "expire_events now r s =
     bind_res (insertStreamEvent ''alert.resolved'' (ID r) (expired_incoming now r) None s)
       (insertHistoryEvent (ID r) (Occurrence r) ''alert.expired'' StatusExpired now)"

definition expireStaleBatch :: "int \<Rightarrow> instant \<Rightarrow> (int \<Rightarrow> bool) \<Rightarrow> db \<Rightarrow> db_error + db \<times> nat" where
  "expireStaleBatch defaultStaleAfter now locked s =
     bind_res (select_stale defaultStaleAfter now s (alert_rows s))
       (\<lambda>candidates.
          (let stale = take expiryBatchSize
                 (filter (\<lambda>r. \<not> locked (ID r)) (sort_key LastSeen candidates))
           in if stale = [] then Inr (s, 0)
              else bind_res (update_alerts (\<lambda>r. ID r \<in> ID ` set stale) (expire_row now) s)
                (\<lambda>s1. bind_res (fold_res (expire_events now) stale s1)
                   (\<lambda>s2. Inr (s2, length stale)))))"

definition ExpireStaleAlerts ::
  "int \<Rightarrow> instant \<Rightarrow> (nat \<Rightarrow> int \<Rightarrow> bool) \<Rightarrow> db \<Rightarrow> (db \<times> nat \<times> db_error option) option" where
  "ExpireStaleAlerts defaultStaleAfter now locks s =
     (if defaultStaleAfter < 0 then Some (s, 0, Some (ErrMessage ''default stale-after must not be negative''))
      else sweep (\<lambda>k. expireStaleBatch defaultStaleAfter now (locks k)) expiryBatchSize 0 0 s)"

section \<open>Specification\<close>

definition window_of :: "int \<Rightarrow> db \<Rightarrow> alert_row \<Rightarrow> int" where
  "window_of d s r =
     (case timeout_seconds (Labels r) of
        Some n \<Rightarrow> int n * 1000000
      | None \<Rightarrow> (case source_of s r of
                  None \<Rightarrow> d
                | Some src \<Rightarrow> (case row_stale_after src of Some w \<Rightarrow> w | None \<Rightarrow> d)))"

text \<open>An alert that is due: it is firing, its window is not zero, and neither a delivery nor a
  reconciliation vouched for it within the window.\<close>

definition is_stale :: "int \<Rightarrow> instant \<Rightarrow> db \<Rightarrow> alert_row \<Rightarrow> bool" where
  "is_stale d now s r \<longleftrightarrow>
     Status r = StatusFiring \<and> source_of s r \<noteq> None \<and> 0 < window_of d s r \<and>
     LastSeen r < now - window_of d s r \<and> (\<forall>t. ReconciledAt r = Some t \<longrightarrow> t < now - window_of d s r)"

definition firing_count :: "db \<Rightarrow> nat" where
  "firing_count s = length (filter (\<lambda>r. Status r = StatusFiring) (alert_rows s))"

text \<open>What a sweep may do to the alerts: expire rows that were due, and nothing else; each one is
  announced by one event of the stream.\<close>

definition expired_to :: "int \<Rightarrow> instant \<Rightarrow> db \<Rightarrow> db \<Rightarrow> bool" where
  "expired_to d now s s' \<longleftrightarrow>
     alert_sources s' = alert_sources s \<and>
     length (stream_events s') + firing_count s' = length (stream_events s) + firing_count s \<and>
     list_all2 (\<lambda>r r'. r' = r \<or> is_stale d now s r \<and> r' = expire_row now r) (alert_rows s) (alert_rows s')"

text \<open>The statement evaluates for every firing alert: its window is one PostgreSQL can represent
  and subtract from the present.\<close>

definition windows_ok :: "int \<Rightarrow> instant \<Rightarrow> db \<Rightarrow> bool" where
  "windows_ok d now s \<longleftrightarrow>
     (\<forall>r \<in> set (alert_rows s). Status r = StatusFiring \<longrightarrow>
        window_of d s r \<le> int bigint_max \<and> timestamp_min \<le> now - window_of d s r)"

text \<open>The rows one batch expires.\<close>

definition due_rows :: "int \<Rightarrow> instant \<Rightarrow> (int \<Rightarrow> bool) \<Rightarrow> db \<Rightarrow> alert_row list" where
  "due_rows d now locked s =
     take expiryBatchSize (filter (\<lambda>r. \<not> locked (ID r)) (sort_key LastSeen (filter (is_stale d now s) (alert_rows s))))"

section \<open>Lemmas\<close>

lemma lastEvidence_less:
  "lastEvidence r < t \<longleftrightarrow> LastSeen r < t \<and> (\<forall>u. ReconciledAt r = Some u \<longrightarrow> u < t)"
  by (auto simp: lastEvidence_def split: option.splits)

lemma expiryWindow_Inr:
  "source_of s r = Some src \<Longrightarrow> expiryWindow d (row_stale_after src) (Labels r) = Inr w \<Longrightarrow> w = window_of d s r"
  by (cases "timeout_seconds (Labels r)") (simp_all add: expiryWindow_def window_of_def split: if_splits)

lemma stale_condition_Inr:
  assumes "source_of s r = Some src" "stale_condition d now src r = Inr b"
  shows "b \<longleftrightarrow> 0 < window_of d s r \<and> lastEvidence r < now - window_of d s r"
proof -
  obtain w where w: "expiryWindow d (row_stale_after src) (Labels r) = Inr w"
    "(if w > 0 then (if now - w < timestamp_min then Inl ErrDatabase else Inr (lastEvidence r < now - w))
      else Inr False) = (Inr b :: db_error + bool)"
    using assms(2) unfolding stale_condition_def bind_res_Inr by blast
  show ?thesis using expiryWindow_Inr [OF assms(1) w(1)] w(2) by (auto split: if_splits)
qed

lemma select_stale_filter:
  "select_stale d now s rows = Inr st \<Longrightarrow> st = filter (is_stale d now s) rows"
proof (induction rows arbitrary: st)
  case (Cons r rs)
  let ?c = "if Status r \<noteq> StatusFiring then Inr False
    else (case source_of s r of None \<Rightarrow> Inr False | Some src \<Rightarrow> stale_condition d now src r)"
  obtain b rest where b: "?c = Inr b" "select_stale d now s rs = Inr rest"
    "st = (if b then r # rest else rest)"
    using Cons.prems unfolding select_stale.simps bind_res_Inr by blast
  have "b \<longleftrightarrow> is_stale d now s r"
  proof (cases "Status r = StatusFiring")
    case True
    with b(1) stale_condition_Inr [of s r _ d now b] show ?thesis
      by (cases "source_of s r") (simp_all add: is_stale_def lastEvidence_less)
  qed (use b(1) in \<open>simp add: is_stale_def lastEvidence_less\<close>)
  with b(3) Cons.IH [OF b(2)] show ?case by simp
qed simp

lemma expire_row_le: "row_le r (expire_row now r)"
  by (simp add: row_le_def expire_row_def)

lemma expire_row_checks: "alert_checks r \<Longrightarrow> alert_checks (expire_row now r)"
  by (simp add: expire_row_def alert_checks_def acknowledgement_check_def assignment_check_def close_check_def)

lemma expire_events_keep [keeps]:
  assumes "db_ok s" "expire_events now r s = Inr s'" "Occurrence r \<le> occurrence_of s (ID r)"
  shows "db_ok s'" "alert_rows s' = alert_rows s" "alert_sources s' = alert_sources s"
    "length (stream_events s') = length (stream_events s) + 1"
  using events_ok [OF assms(1,3) assms(2) [unfolded expire_events_def]] by simp_all

lemma fold_expire_events:
  assumes "fold_res (expire_events now) stale s = Inr s'" "db_ok s"
    "\<forall>r \<in> set stale. Occurrence r \<le> occurrence_of s (ID r)"
  shows "db_ok s'" "alert_rows s' = alert_rows s" "alert_sources s' = alert_sources s"
    "length (stream_events s') = length (stream_events s) + length stale"
proof -
  have "db_ok s' \<and> alert_rows s' = alert_rows s \<and> alert_sources s' = alert_sources s \<and>
      length (stream_events s') = length (stream_events s) + length stale"
    using assms
  proof (induction stale arbitrary: s)
    case (Cons r rs)
    then obtain t where t: "expire_events now r s = Inr t" "fold_res (expire_events now) rs t = Inr s'"
      by (auto simp: bind_res_Inr)
    have "Occurrence r \<le> occurrence_of s (ID r)" using Cons.prems(3) by simp
    note fr = expire_events_keep [OF Cons.prems(2) t(1) this]
    have "\<forall>q \<in> set rs. Occurrence q \<le> occurrence_of t (ID q)"
      using Cons.prems(3) occurrence_of_cong [OF fr(2)] by simp
    then show ?case using Cons.IH [OF t(2) fr(1)] fr by simp
  qed simp
  then show "db_ok s'" "alert_rows s' = alert_rows s" "alert_sources s' = alert_sources s"
    "length (stream_events s') = length (stream_events s) + length stale" by simp_all
qed

subsection \<open>One batch\<close>

lemma due_rows_sub: "r \<in> set (due_rows d now locked s) \<Longrightarrow> r \<in> set (alert_rows s) \<and> is_stale d now s r"
  unfolding due_rows_def by (drule in_set_takeD) simp

lemma due_rows_by_id:
  assumes "alerts_ok s" "r \<in> set (alert_rows s)"
  shows "ID r \<in> ID ` set (due_rows d now locked s) \<longleftrightarrow> r \<in> set (due_rows d now locked s)"
  proof
  assume "ID r \<in> ID ` set (due_rows d now locked s)"
  then obtain q where q: "q \<in> set (due_rows d now locked s)" "ID q = ID r" by auto
  then have "q = r" using row_by_id [OF assms(1) _ assms(2)] due_rows_sub [OF q(1)] by simp
  with q show "r \<in> set (due_rows d now locked s)" by simp
qed simp

lemma update_due:
  assumes "alerts_ok s"
  shows "upd_where (\<lambda>r. ID r \<in> ID ` set (due_rows d now locked s)) f (alert_rows s) =
    upd_where (\<lambda>r. r \<in> set (due_rows d now locked s)) f (alert_rows s)"
  unfolding upd_where_def by (rule map_cong [OF refl]) (simp only: due_rows_by_id [OF assms])

lemma expire_batch_select:
  assumes "expireStaleBatch d now locked s = Inr p"
  shows "select_stale d now s (alert_rows s) = Inr (filter (is_stale d now s) (alert_rows s))"
proof (cases "select_stale d now s (alert_rows s)")
  case (Inl e)
  then show ?thesis using assms by (simp add: expireStaleBatch_def)
next
  case (Inr st)
  then show ?thesis using select_stale_filter [OF Inr] by simp
qed

lemma expire_batch_unfold:
  assumes "expireStaleBatch d now locked s = Inr p"
  shows "(if due_rows d now locked s = [] then Inr (s, 0)
    else bind_res (update_alerts (\<lambda>r. ID r \<in> ID ` set (due_rows d now locked s)) (expire_row now) s)
      (\<lambda>s1. bind_res (fold_res (expire_events now) (due_rows d now locked s) s1)
        (\<lambda>s2. Inr (s2, length (due_rows d now locked s))))) = Inr p"
  using assms expire_batch_select [OF assms]
  by (simp only: expireStaleBatch_def Let_def bind_res_simps due_rows_def)

lemma due_rows_occurrence:
  assumes "db_ok s" "update_alerts P (expire_row now) s = Inr s1" "r \<in> set (due_rows d now locked s)"
  shows "Occurrence r \<le> occurrence_of s1 (ID r)"
proof -
  have r: "r \<in> set (alert_rows s)" using due_rows_sub [OF assms(3)] by simp
  have "occurrence_of s (ID r) = Occurrence r"
    using db_okD(2) [OF assms(1)] occurrence_of_eq [OF _ r] by (simp add: alerts_ok_def)
  moreover have "occurrence_of s (ID r) \<le> occurrence_of s1 (ID r)"
    using occurrence_update [OF db_okD(2) [OF assms(1)] assms(2) expire_row_le] r by blast
  ultimately show ?thesis by simp
qed

lemma batch_result:
  assumes "db_ok s" "expireStaleBatch d now locked s = Inr (s', n)"
  shows "n = length (due_rows d now locked s)" "db_ok s'" "alert_sources s' = alert_sources s"
    "alert_rows s' = upd_where (\<lambda>r. r \<in> set (due_rows d now locked s)) (expire_row now) (alert_rows s)"
    "length (stream_events s') = length (stream_events s) + n"
proof -
  let ?stale = "due_rows d now locked s"
  let ?Q = "n = length ?stale \<and> db_ok s' \<and> alert_sources s' = alert_sources s \<and>
    alert_rows s' = upd_where (\<lambda>r. r \<in> set ?stale) (expire_row now) (alert_rows s) \<and>
    length (stream_events s') = length (stream_events s) + n"
  have ?Q
  proof (cases "?stale = []")
    case True
    then have "s' = s" "n = 0" using expire_batch_unfold [OF assms(2)] by simp_all
    with True assms(1) show ?thesis by (simp add: upd_where_def)
  next
    case False
    obtain s1 where s1: "update_alerts (\<lambda>r. ID r \<in> ID ` set ?stale) (expire_row now) s = Inr s1"
      and ev: "fold_res (expire_events now) ?stale s1 = Inr s'" and n: "n = length ?stale"
      using expire_batch_unfold [OF assms(2)] False by (auto simp only: bind_res_Inr if_False sum.inject prod.inject)
    have ok1: "db_ok s1" by (rule update_alerts_ok [OF assms(1) s1 expire_row_le])
    have occ: "\<forall>r \<in> set ?stale. Occurrence r \<le> occurrence_of s1 (ID r)"
      using due_rows_occurrence [OF assms(1) s1] by blast
    show ?thesis
      using fold_expire_events [OF ev ok1 occ] update_alerts_rows [OF s1]
        update_due [OF db_okD(2) [OF assms(1)]] n by simp
  qed
  then show "n = length ?stale" "db_ok s'" "alert_sources s' = alert_sources s"
    "alert_rows s' = upd_where (\<lambda>r. r \<in> set ?stale) (expire_row now) (alert_rows s)"
    "length (stream_events s') = length (stream_events s) + n" by blast+
qed

lemma expire_row_status: "Status (expire_row now r) = StatusExpired"
  by (simp add: expire_row_def)

lemma filter_upd_where_count:
  assumes "distinct rows" "set stale \<subseteq> set rows" "distinct stale"
    "\<And>r. r \<in> set stale \<Longrightarrow> P r" "\<And>r. \<not> P (f r)"
  shows "length (filter P (upd_where (\<lambda>r. r \<in> set stale) f rows)) + length stale = length (filter P rows)"
proof -
  have "length (filter P (upd_where (\<lambda>r. r \<in> set stale) f rows)) = length (filter (\<lambda>r. r \<notin> set stale) (filter P rows))"
    using assms(5) by (induction rows) (auto simp: upd_where_def)
  moreover have "length (filter (\<lambda>r. r \<in> set stale) (filter P rows)) = length stale"
  proof -
    have "set (filter (\<lambda>r. r \<in> set stale) (filter P rows)) = set stale" using assms(2,4) by auto
    then show ?thesis using assms(1,3) by (metis distinct_card distinct_filter)
  qed
  ultimately show ?thesis
    using sum_length_filter_compl [of "\<lambda>r. r \<in> set stale" "filter P rows"] by linarith
qed

lemma expire_batch_pending:
  assumes "db_ok s" "expireStaleBatch d now locked s = Inr (s', n)"
  shows "firing_count s' + n = firing_count s"
proof -
  note st = batch_result [OF assms]
  have d: "distinct (alert_rows s)"
    using db_okD(2) [OF assms(1)] by (simp add: alerts_ok_def distinct_map)
  have sub: "set (due_rows d now locked s) \<subseteq> set (alert_rows s)" using due_rows_sub by blast
  have fir: "Status r = StatusFiring" if "r \<in> set (due_rows d now locked s)" for r
    using due_rows_sub [OF that] by (simp add: is_stale_def lastEvidence_less)
  have "distinct (due_rows d now locked s)" using d by (simp add: due_rows_def)
  then show ?thesis
    using filter_upd_where_count [OF d sub, of "\<lambda>r. Status r = StatusFiring" "expire_row now"] fir st(1,4)
    by (simp add: firing_count_def expire_row_status)
qed

lemma expire_batch_rel:
  assumes "db_ok s" "expireStaleBatch d now locked s = Inr (s', n)"
  shows "expired_to d now s s'"
proof -
  note b = batch_result [OF assms]
  have "list_all2 (\<lambda>r r'. r' = r \<or> is_stale d now s r \<and> r' = expire_row now r) (alert_rows s)
      (upd_where (\<lambda>r. r \<in> set (due_rows d now locked s)) (expire_row now) (alert_rows s))"
    unfolding upd_where_def list_all2_map2
    by (rule list.rel_refl_strong) (use due_rows_sub in metis)
  with b(3-5) expire_batch_pending [OF assms] show ?thesis by (simp add: expired_to_def)
qed

lemma expired_to_refl: "expired_to d now s s"
  by (auto simp: expired_to_def list_all2_conv_all_nth)

lemma is_stale_cong:
  assumes "alert_sources t = alert_sources s"
  shows "is_stale d now t r = is_stale d now s r"
proof -
  have "source_of t r = source_of s r" unfolding source_of_def assms ..
  then show ?thesis unfolding is_stale_def lastEvidence_less window_of_def by (simp only:)
qed

lemma expired_not_stale: "\<not> is_stale d now s (expire_row now' r)"
  by (simp add: is_stale_def lastEvidence_less expire_row_def)

lemma expired_to_trans:
  assumes "expired_to d now s t" "expired_to d now t u"
  shows "expired_to d now s u"
proof -
  have st: "is_stale d now t r = is_stale d now s r" for r
    using is_stale_cong [of t s] assms(1) by (simp add: expired_to_def)
  have "list_all2 (\<lambda>r r'. r' = r \<or> is_stale d now s r \<and> r' = expire_row now r) (alert_rows s) (alert_rows u)"
  proof (rule list_all2_trans)
    show "list_all2 (\<lambda>r r'. r' = r \<or> is_stale d now s r \<and> r' = expire_row now r) (alert_rows s) (alert_rows t)"
      using assms(1) by (simp add: expired_to_def)
    show "list_all2 (\<lambda>r r'. r' = r \<or> is_stale d now s r \<and> r' = expire_row now r) (alert_rows t) (alert_rows u)"
      using assms(2) by (simp add: expired_to_def st)
  qed (use expired_not_stale [of d now s now] in blast)
  then show ?thesis using assms by (simp add: expired_to_def)
qed

interpretation expire: batch_sweep "\<lambda>k. expireStaleBatch d now (locks k)" expiryBatchSize
  firing_count db_ok "expired_to d now" for d now locks
proof
  show "0 < expiryBatchSize" by (simp add: expiryBatchSize_def)
qed (fact expire_batch_pending expired_to_refl batch_result(2) expire_batch_rel expired_to_trans)+

lemma expire_batch_exhausted:
  assumes "db_ok s" "expireStaleBatch d now (\<lambda>i. False) s = Inr (s', n)" "n < expiryBatchSize"
  shows "\<forall>r \<in> set (alert_rows s'). \<not> is_stale d now s' r"
proof
  fix r assume r: "r \<in> set (alert_rows s')"
  note b = batch_result [OF assms(1,2)]
  have len: "length (filter (is_stale d now s) (alert_rows s)) < expiryBatchSize"
    using b(1) assms(3) by (simp add: due_rows_def)
  have all: "q \<in> set (due_rows d now (\<lambda>i. False) s)" if "q \<in> set (alert_rows s)" "is_stale d now s q" for q
    using that len by (simp add: due_rows_def)
  obtain q where q: "q \<in> set (alert_rows s)"
    "r = (if q \<in> set (due_rows d now (\<lambda>i. False) s) then expire_row now q else q)"
    using r unfolding b(4) upd_where_def by auto
  have "\<not> is_stale d now s r" using q all [OF q(1)] expired_not_stale [of d now s now q] by auto
  then show "\<not> is_stale d now s' r" using is_stale_cong [OF b(3)] by simp
qed

subsection \<open>The sweep does not fail\<close>

lemma stale_condition_total:
  assumes "source_of s r = Some src" "window_of d s r \<le> int bigint_max" "timestamp_min \<le> now - window_of d s r"
  shows "\<exists>b. stale_condition d now src r = Inr b"
proof -
  have "expiryWindow d (row_stale_after src) (Labels r) = Inr (window_of d s r)"
  proof (cases "timeout_seconds (Labels r)")
    case (Some n)
    then have "int (n * 1000000) \<le> int bigint_max" using assms(2) by (simp add: window_of_def)
    then have "n * 1000000 \<le> bigint_max" "n \<le> bigint_max" by linarith+
    with Some show ?thesis by (simp add: expiryWindow_def window_of_def)
  qed (simp add: expiryWindow_def window_of_def assms(1))
  then show ?thesis using assms(3) by (auto simp: stale_condition_def)
qed

lemma select_stale_total:
  assumes "\<forall>r \<in> set rows. Status r = StatusFiring \<longrightarrow>
    window_of d s r \<le> int bigint_max \<and> timestamp_min \<le> now - window_of d s r"
  shows "\<exists>st. select_stale d now s rows = Inr st"
  using assms
proof (induction rows)
  case (Cons r rs)
  then obtain st where st: "select_stale d now s rs = Inr st" by auto
  have "\<exists>b. (if Status r \<noteq> StatusFiring then Inr False
    else (case source_of s r of None \<Rightarrow> Inr False | Some src \<Rightarrow> stale_condition d now src r)) = (Inr b :: db_error + bool)"
    using Cons.prems stale_condition_total [of s r _ d now] by (auto split: option.splits)
  then show ?case using st by (elim exE) (simp only: select_stale.simps bind_res_simps, blast)
qed simp

lemma expire_events_total:
  "ID r \<in> ID ` set (alert_rows s) \<Longrightarrow> \<exists>s'. expire_events now r s = Inr s'"
  unfolding expire_events_def by (rule events_total)

lemma fold_expire_events_total:
  "\<forall>r \<in> set stale. ID r \<in> ID ` set (alert_rows s) \<Longrightarrow> \<exists>s'. fold_res (expire_events now) stale s = Inr s'"
proof (induction stale arbitrary: s)
  case (Cons r rs)
  then obtain t where t: "expire_events now r s = Inr t" using expire_events_total [of r s now] by auto
  have "alert_rows t = alert_rows s"
    using t by (auto simp: expire_events_def insertHistoryEvent_def bind_res_Inr dest!: insertStreamEvent_rows insert_history_rows)
  with Cons.IH [of t] Cons.prems t show ?case by simp
qed simp

lemma expire_batch_total:
  assumes "db_ok s" "windows_ok d now s"
  shows "\<exists>p. expireStaleBatch d now locked s = Inr p"
proof -
  obtain st where "select_stale d now s (alert_rows s) = Inr st"
    using select_stale_total assms(2) unfolding windows_ok_def by blast
  then have sel: "select_stale d now s (alert_rows s) = Inr (filter (is_stale d now s) (alert_rows s))"
    using select_stale_filter by simp
  let ?P = "\<lambda>r. ID r \<in> ID ` set (due_rows d now locked s)"
  have "\<exists>s1. update_alerts ?P (expire_row now) s = Inr s1"
    using update_alerts_total expire_row_checks db_okD(2) [OF assms(1)] by (simp add: alerts_ok_def)
  then obtain s1 where s1: "update_alerts ?P (expire_row now) s = Inr s1" by blast
  have "\<forall>r \<in> set (due_rows d now locked s). ID r \<in> ID ` set (alert_rows s1)"
    using update_alerts_ids(1) [OF s1 expire_row_le] due_rows_sub [of _ d now locked s]
    by (metis image_eqI image_set)
  then obtain s2 where "fold_res (expire_events now) (due_rows d now locked s) s1 = Inr s2"
    using fold_expire_events_total by blast
  with s1 show ?thesis
    unfolding expireStaleBatch_def sel bind_res_simps Let_def due_rows_def [symmetric] by simp
qed

lemma windows_ok_mono:
  assumes "expired_to d now s t" "windows_ok d now s"
  shows "windows_ok d now t"
proof -
  have src: "source_of t r = source_of s r" for r
    using assms(1) unfolding source_of_def expired_to_def by simp
  have win: "window_of d t r = window_of d s r" for r unfolding window_of_def src ..
  show ?thesis unfolding windows_ok_def win
  proof (intro ballI impI)
    fix r assume r: "r \<in> set (alert_rows t)" "Status r = StatusFiring"
    then obtain i where i: "i < length (alert_rows t)" "r = alert_rows t ! i" by (auto simp: in_set_conv_nth)
    have l2: "list_all2 (\<lambda>r r'. r' = r \<or> is_stale d now s r \<and> r' = expire_row now r) (alert_rows s) (alert_rows t)"
      using assms(1) by (simp add: expired_to_def)
    have "r = alert_rows s ! i" using list_all2_nthD2 [OF l2 i(1)] r(2) i(2) by (auto simp: expire_row_def)
    then have "r \<in> set (alert_rows s)" using i(1) list_all2_lengthD [OF l2] by simp
    with assms(2) r(2) show "window_of d s r \<le> int bigint_max \<and> timestamp_min \<le> now - window_of d s r"
      by (simp add: windows_ok_def)
  qed
qed

section \<open>Properties\<close>

text \<open>C11: the expiry sweep always returns, whatever rows are locked and whether or not a batch
  fails. It keeps the invariant and expires only alerts that were due, leaving every other row as
  it was; the count it reports is the number of alerts that stopped firing, and each of them is
  announced on the stream exactly once.\<close>

theorem expiry_sound:
  assumes "db_ok s"
  shows "\<exists>s' n err. ExpireStaleAlerts d now locks s = Some (s', n, err) \<and> db_ok s' \<and>
    list_all2 (\<lambda>r r'. r' = r \<or> is_stale d now s r \<and> r' = expire_row now r) (alert_rows s) (alert_rows s') \<and>
    n + firing_count s' = firing_count s \<and>
    length (stream_events s') = length (stream_events s) + n"
proof (cases "d < 0")
  case True
  then show ?thesis using assms by (auto simp: ExpireStaleAlerts_def list.rel_refl)
next
  case False
  obtain s' n err where r: "sweep (\<lambda>k. expireStaleBatch d now (locks k)) expiryBatchSize 0 0 s = Some (s', n, err)"
    "db_ok s'" "expired_to d now s s'" "n + firing_count s' = firing_count s"
    using expire.sweep_returns [OF assms, of d now locks 0 0] by auto
  then show ?thesis using False by (auto simp: ExpireStaleAlerts_def expired_to_def)
qed

theorem expiry_sound_witness:
  "\<exists>s' n err. ExpireStaleAlerts 0 2000000000 (\<lambda>k i. False) sample_db = Some (s', n, err) \<and> db_ok s' \<and>
    n + firing_count s' = firing_count sample_db"
  using expiry_sound [OF sample_db_ok, of 0 2000000000 "\<lambda>k i. False"] by blast

text \<open>With no rows locked and windows PostgreSQL can represent, the sweep ends without an
  error and leaves no alert that is due.\<close>

theorem expiry_complete:
  assumes "db_ok s" "0 \<le> d" "windows_ok d now s"
  shows "\<exists>s' n. ExpireStaleAlerts d now (\<lambda>k i. False) s = Some (s', n, None) \<and>
    (\<forall>r \<in> set (alert_rows s'). \<not> is_stale d now s' r)"
proof -
  let ?b = "\<lambda>k :: nat. expireStaleBatch d now (\<lambda>i. False)"
  obtain s' n where r: "sweep ?b expiryBatchSize 0 0 s = Some (s', n, None)"
    using expire.sweep_clean [OF assms(1), of "windows_ok d now" d now "\<lambda>k i. False" 0 0] assms(3)
      expire_batch_total windows_ok_mono by blast
  have "\<forall>r \<in> set (alert_rows s'). \<not> is_stale d now s' r"
    by (rule expire.sweep_last [OF assms(1) r]) (rule expire_batch_exhausted)
  with r assms(2) show ?thesis by (simp add: ExpireStaleAlerts_def)
qed

lemma sample_windows: "windows_ok 0 2000000000 sample_db"
  by (simp add: windows_ok_def window_of_def sample_rows sample_defs timeout_seconds_def source_of_def
      bigint_max_def timestamp_min_def)

text \<open>The firing alert of the sample is due, so that the sweep of the witness expires it.\<close>

theorem expiry_complete_witness:
  "is_stale 0 2000000000 sample_db sample_row \<and>
   (\<exists>s' n. ExpireStaleAlerts 0 2000000000 (\<lambda>k i. False) sample_db = Some (s', n, None) \<and>
     (\<forall>r \<in> set (alert_rows s'). \<not> is_stale 0 2000000000 s' r))"
  using expiry_complete [OF sample_db_ok _ sample_windows]
  by (simp add: is_stale_def lastEvidence_less window_of_def source_of_def timeout_seconds_def lastEvidence_def sample_defs)

end
