(* ===== verification/Operators.thy ===== *)
theory Operators
  imports Samples
begin

text \<open>
  What operators do to alerts: \<open>AcknowledgeAlert\<close> (\<open>store.go\<close>), \<open>AssignAlert\<close>
  (\<open>assign.go\<close>), \<open>AddNote\<close> (\<open>notes.go\<close>), \<open>CloseAlert\<close>
  (\<open>close.go\<close>) and the bulk forms of all four (\<open>bulk.go\<close>).

  A single action is a transaction followed by a read, so it returns the new state and the
  outcome of the read: the action can be committed although the read fails. A bulk action is
  one transaction over the selection. The contract of the function type \<open>alertChange\<close>, which
  the bulk loop is written against, is the locale \<open>alert_change\<close>, interpreted on the four
  changes.
\<close>

section \<open>Names and bounds\<close>

definition operatorName :: "Principal \<Rightarrow> string" where
  "operatorName caller =
     (if Subject caller \<noteq> '''' then Subject caller
      else if DisplayName caller \<noteq> '''' then DisplayName caller
      else ''unknown'')"

definition maxAssigneeLength :: nat where
  "maxAssigneeLength = 128"

definition maxNoteLength :: nat where
  "maxNoteLength = 4000"

definition maxBulkAlerts :: nat where
  "maxBulkAlerts = 500"

definition validAssignee :: "string \<Rightarrow> db_error + string" where
  "validAssignee assignee =
     (let assignee = TrimSpace assignee in
      if length assignee > maxAssigneeLength then Inl ErrInvalid else Inr assignee)"

definition validNoteBody :: "string \<Rightarrow> db_error + string" where
  "validNoteBody body =
     (let body = TrimSpace body in
      if body = '''' then Inl ErrInvalid
      else if length body > maxNoteLength then Inl ErrInvalid
      else Inr body)"

section \<open>Statements\<close>

definition set_acknowledged :: "bool \<Rightarrow> instant \<Rightarrow> string \<Rightarrow> alert_row \<Rightarrow> alert_row" where
  "set_acknowledged acknowledged now actor r =
     (if acknowledged then r\<lparr>Acknowledged := True, AcknowledgedAt := Some now, AcknowledgedBy := actor\<rparr>
      else r\<lparr>Acknowledged := False, AcknowledgedAt := None, AcknowledgedBy := ''''\<rparr>)"

definition set_assigned :: "string \<Rightarrow> instant \<Rightarrow> string \<Rightarrow> alert_row \<Rightarrow> alert_row" where
  "set_assigned assignee now actor r =
     (if assignee = '''' then r\<lparr>AssignedTo := '''', AssignedAt := None, AssignedBy := ''''\<rparr>
      else r\<lparr>AssignedTo := assignee, AssignedAt := Some now, AssignedBy := actor\<rparr>)"

definition set_closed :: "bool \<Rightarrow> instant \<Rightarrow> string \<Rightarrow> alert_row \<Rightarrow> alert_row" where
  "set_closed closed now actor r =
     (if closed then r\<lparr>Closed := True, ClosedAt := Some now, ClosedBy := actor\<rparr>
      else r\<lparr>Closed := False, ClosedAt := None, ClosedBy := ''''\<rparr>)"

definition insert_note :: "int \<Rightarrow> int \<Rightarrow> string \<Rightarrow> string \<Rightarrow> instant \<Rightarrow> db \<Rightarrow> db_error + db" where
  "insert_note alertID occurrence author body now s =
     (if alertID \<in> ID ` set (alert_rows s) \<and> text_ok author \<and> text_ok body
      then Inr (s\<lparr>alert_notes := alert_notes s @
                   [\<lparr>note_ID = next_note s, note_Occurrence = occurrence, note_Author = author,
                     note_Body = body, note_CreatedAt = now, note_alert_id = alertID\<rparr>],
                 next_note := next_note s + 1\<rparr>)
      else Inl ErrDatabase)"

text \<open>The \<open>IncomingAlert\<close> the actions pass to \<open>insertStreamEvent\<close>.\<close>

definition incoming_of :: "alert_row \<Rightarrow> instant \<Rightarrow> IncomingAlert" where
  "incoming_of a now =
     \<lparr>in_SourceSlug = SourceSlug a, in_Fingerprint = Fingerprint a, in_Status = Status a,
      in_Labels = Labels a, in_Annotations = Annotations a, in_StartsAt = 0, in_EndsAt = 0,
      in_GeneratorURL = '''', in_ExternalURL = '''', in_ReceivedAt = now, in_RawData = ''''\<rparr>"

text \<open>The row an action locks.\<close>

definition lock_alert ::
  "(string \<Rightarrow> string \<Rightarrow> bool) \<Rightarrow> Principal \<Rightarrow> int \<Rightarrow> db \<Rightarrow> db_error + alert_row" where
  "lock_alert pgrx caller i s =
     select_alert pgrx (operateAccessCondition caller ColLabels [ArgInt i]) i s"

text \<open>The two records of an applied action.\<close>

definition record_action ::
  "alert_row \<Rightarrow> string \<Rightarrow> string \<Rightarrow> string \<Rightarrow> string \<Rightarrow> instant \<Rightarrow> db \<Rightarrow> db_error + db" where
  "record_action a eventType message streamType actor now s =
     bind_res (insert_history (ID a) (Occurrence a) eventType (Status a) actor message now s)
       (insertStreamEvent streamType (ID a) (incoming_of a now) None)"

section \<open>Single actions\<close>

definition commit_and_read ::
  "(string \<Rightarrow> string \<Rightarrow> bool) \<Rightarrow> Principal \<Rightarrow> int \<Rightarrow> db \<Rightarrow> db_error + db \<Rightarrow> db \<times> (db_error + Detail)" where
  "commit_and_read pgrx caller i s tx =
     (case tx of Inl e \<Rightarrow> (s, Inl e) | Inr s' \<Rightarrow> (s', GetAlertDetail pgrx caller i s'))"

definition AcknowledgeAlert ::
  "(string \<Rightarrow> string \<Rightarrow> bool) \<Rightarrow> Principal \<Rightarrow> int \<Rightarrow> bool \<Rightarrow> instant \<Rightarrow> db \<Rightarrow> db \<times> (db_error + Detail)" where
  "AcknowledgeAlert pgrx caller i acknowledged now s =
     (if \<not> CanOperate caller then (s, Inl ErrNotFound)
      else (let actor = operatorName caller in
        commit_and_read pgrx caller i s
          (bind_res (lock_alert pgrx caller i s)
             (\<lambda>a. if Acknowledged a = acknowledged then Inr s
                  else bind_res (update_by_id [actor] i (set_acknowledged acknowledged now actor) s)
                    (record_action a
                       (if acknowledged then ''alert.acknowledged'' else ''alert.unacknowledged'')
                       (if acknowledged then ''Alert acknowledged'' else ''Alert unacknowledged'')
                       ''alert.updated'' actor now)))))"

definition AssignAlert ::
  "(string \<Rightarrow> string \<Rightarrow> bool) \<Rightarrow> Principal \<Rightarrow> int \<Rightarrow> string \<Rightarrow> instant \<Rightarrow> db \<Rightarrow> db \<times> (db_error + Detail)" where
  "AssignAlert pgrx caller i assignee now s =
     (if \<not> CanOperate caller then (s, Inl ErrNotFound)
      else (case validAssignee assignee of
              Inl e \<Rightarrow> (s, Inl e)
            | Inr assignee \<Rightarrow>
                (let actor = operatorName caller in
                 commit_and_read pgrx caller i s
                   (bind_res (lock_alert pgrx caller i s)
                      (\<lambda>a. if AssignedTo a = assignee then Inr s
                           else bind_res (update_by_id [assignee, actor] i (set_assigned assignee now actor) s)
                             (record_action a
                                (if assignee = '''' then ''alert.unassigned'' else ''alert.assigned'')
                                (if assignee = '''' then ''Assignment cleared'' else ''Assigned to '' @ assignee)
                                ''alert.updated'' actor now))))))"

definition AddNote ::
  "(string \<Rightarrow> string \<Rightarrow> bool) \<Rightarrow> Principal \<Rightarrow> int \<Rightarrow> string \<Rightarrow> instant \<Rightarrow> db \<Rightarrow> db \<times> (db_error + Detail)" where
  "AddNote pgrx caller i body now s =
     (if \<not> CanOperate caller then (s, Inl ErrNotFound)
      else (case validNoteBody body of
              Inl e \<Rightarrow> (s, Inl e)
            | Inr body \<Rightarrow>
                (let author = operatorName caller in
                 commit_and_read pgrx caller i s
                   (bind_res (lock_alert pgrx caller i s)
                      (\<lambda>a. bind_res (insert_note i (Occurrence a) author body now s)
                             (record_action a ''alert.note'' ''Note added'' ''alert.updated'' author now))))))"

definition CloseAlert ::
  "(string \<Rightarrow> string \<Rightarrow> bool) \<Rightarrow> Principal \<Rightarrow> int \<Rightarrow> bool \<Rightarrow> instant \<Rightarrow> db \<Rightarrow> db \<times> (db_error + Detail)" where
  "CloseAlert pgrx caller i closed now s =
     (if \<not> CanOperate caller then (s, Inl ErrNotFound)
      else (let actor = operatorName caller in
        commit_and_read pgrx caller i s
          (bind_res (lock_alert pgrx caller i s)
             (\<lambda>a. if Closed a = closed then Inr s
                  else bind_res (update_by_id [actor] i (set_closed closed now actor) s)
                    (record_action a
                       (if closed then ''alert.closed'' else ''alert.reopened.local'')
                       (if closed then ''Closed by operator'' else ''Reopened by operator'')
                       (if closed then ''alert.resolved'' else ''alert.updated'') actor now)))))"

section \<open>Bulk actions\<close>

text \<open>What a change reports: nothing, or how to record it (history type, message, stream
  type).\<close>

type_synonym alertChange =
  "alert_row \<Rightarrow> string \<Rightarrow> instant \<Rightarrow> db \<Rightarrow> db_error + db \<times> (string \<times> string \<times> string) option"

definition apply_one ::
  "(string \<Rightarrow> string \<Rightarrow> bool) \<Rightarrow> Principal \<Rightarrow> alertChange \<Rightarrow> instant \<Rightarrow> int \<Rightarrow>
   db \<times> int list \<times> BulkOutcome list \<Rightarrow> db_error + db \<times> int list \<times> BulkOutcome list" where
  "apply_one pgrx caller change now i st =
     (let (s, seen, outcomes) = st; actor = operatorName caller in
      if i \<in> set seen then Inr st
      else (case lock_alert pgrx caller i s of
              Inl e \<Rightarrow>
                if e = ErrNotFound
                then Inr (s, i # seen, outcomes @ [\<lparr>outcome_ID = i, outcome_Status = BulkNotFound\<rparr>])
                else Inl e
            | Inr a \<Rightarrow>
                bind_res (change a actor now s)
                  (\<lambda>(s1, how). case how of
                      None \<Rightarrow> Inr (s1, i # seen, outcomes @ [\<lparr>outcome_ID = i, outcome_Status = BulkUnchanged\<rparr>])
                    | Some (historyType, message, streamType) \<Rightarrow>
                        bind_res (record_action a historyType message streamType actor now s1)
                          (\<lambda>s2. Inr (s2, i # seen,
                             outcomes @ [\<lparr>outcome_ID = i, outcome_Status = BulkApplied\<rparr>])))))"

definition applyToAlerts ::
  "(string \<Rightarrow> string \<Rightarrow> bool) \<Rightarrow> Principal \<Rightarrow> int list \<Rightarrow> alertChange \<Rightarrow> instant \<Rightarrow> db \<Rightarrow>
   db_error + db \<times> BulkOutcome list" where
  "applyToAlerts pgrx caller ids change now s =
     (if \<not> CanOperate caller then Inl ErrNotFound
      else if ids = [] then Inl ErrInvalid
      else if length ids > maxBulkAlerts then Inl ErrInvalid
      else bind_res (fold_res (apply_one pgrx caller change now) ids (s, [], []))
             (\<lambda>(s', seen, outcomes). Inr (s', outcomes)))"

definition acknowledge_change :: "bool \<Rightarrow> alertChange" where
  "acknowledge_change acknowledged a actor now s =
     (if Acknowledged a = acknowledged then Inr (s, None)
      else bind_res (update_by_id [actor] (ID a) (set_acknowledged acknowledged now actor) s)
        (\<lambda>s1. Inr (s1, if acknowledged then Some (''alert.acknowledged'', ''Alert acknowledged'', ''alert.updated'')
                       else Some (''alert.unacknowledged'', ''Alert unacknowledged'', ''alert.updated''))))"

definition assign_change :: "string \<Rightarrow> alertChange" where
  "assign_change assignee a actor now s =
     (if AssignedTo a = assignee then Inr (s, None)
      else bind_res (update_by_id [assignee, actor] (ID a) (set_assigned assignee now actor) s)
        (\<lambda>s1. Inr (s1, if assignee = '''' then Some (''alert.unassigned'', ''Assignment cleared'', ''alert.updated'')
                       else Some (''alert.assigned'', ''Assigned to '' @ assignee, ''alert.updated''))))"

definition close_change :: "bool \<Rightarrow> alertChange" where
  "close_change closed a actor now s =
     (if Closed a = closed then Inr (s, None)
      else bind_res (update_by_id [actor] (ID a) (set_closed closed now actor) s)
        (\<lambda>s1. Inr (s1, if closed then Some (''alert.closed'', ''Closed by operator'', ''alert.resolved'')
                       else Some (''alert.reopened.local'', ''Reopened by operator'', ''alert.updated''))))"

definition note_change :: "string \<Rightarrow> alertChange" where
  "note_change body a actor now s =
     bind_res (insert_note (ID a) (Occurrence a) actor body now s)
       (\<lambda>s1. Inr (s1, Some (''alert.note'', ''Note added'', ''alert.updated'')))"

definition BulkAcknowledge ::
  "(string \<Rightarrow> string \<Rightarrow> bool) \<Rightarrow> Principal \<Rightarrow> int list \<Rightarrow> bool \<Rightarrow> instant \<Rightarrow> db \<Rightarrow> db_error + db \<times> BulkOutcome list" where
  "BulkAcknowledge pgrx caller ids acknowledged now s =
     applyToAlerts pgrx caller ids (acknowledge_change acknowledged) now s"

definition BulkAssign ::
  "(string \<Rightarrow> string \<Rightarrow> bool) \<Rightarrow> Principal \<Rightarrow> int list \<Rightarrow> string \<Rightarrow> instant \<Rightarrow> db \<Rightarrow> db_error + db \<times> BulkOutcome list" where
  "BulkAssign pgrx caller ids assignee now s =
     (case validAssignee assignee of
        Inl e \<Rightarrow> Inl e
      | Inr assignee \<Rightarrow> applyToAlerts pgrx caller ids (assign_change assignee) now s)"

definition BulkClose ::
  "(string \<Rightarrow> string \<Rightarrow> bool) \<Rightarrow> Principal \<Rightarrow> int list \<Rightarrow> bool \<Rightarrow> instant \<Rightarrow> db \<Rightarrow> db_error + db \<times> BulkOutcome list" where
  "BulkClose pgrx caller ids closed now s =
     applyToAlerts pgrx caller ids (close_change closed) now s"

definition BulkNote ::
  "(string \<Rightarrow> string \<Rightarrow> bool) \<Rightarrow> Principal \<Rightarrow> int list \<Rightarrow> string \<Rightarrow> instant \<Rightarrow> db \<Rightarrow> db_error + db \<times> BulkOutcome list" where
  "BulkNote pgrx caller ids body now s =
     (case validNoteBody body of
        Inl e \<Rightarrow> Inl e
      | Inr body \<Rightarrow> applyToAlerts pgrx caller ids (note_change body) now s)"

section \<open>Actions\<close>

text \<open>The four actions as one type, so that a statement can speak of all of them.\<close>

datatype operator_action = Acknowledge bool | Assign string | Annotate string | Close bool

definition single_action ::
  "(string \<Rightarrow> string \<Rightarrow> bool) \<Rightarrow> Principal \<Rightarrow> int \<Rightarrow> operator_action \<Rightarrow> instant \<Rightarrow> db \<Rightarrow> db \<times> (db_error + Detail)" where
  "single_action pgrx caller i action now s =
     (case action of
        Acknowledge b \<Rightarrow> AcknowledgeAlert pgrx caller i b now s
      | Assign who \<Rightarrow> AssignAlert pgrx caller i who now s
      | Annotate body \<Rightarrow> AddNote pgrx caller i body now s
      | Close b \<Rightarrow> CloseAlert pgrx caller i b now s)"

definition bulk_action ::
  "(string \<Rightarrow> string \<Rightarrow> bool) \<Rightarrow> Principal \<Rightarrow> int list \<Rightarrow> operator_action \<Rightarrow> instant \<Rightarrow> db \<Rightarrow>
   db_error + db \<times> BulkOutcome list" where
  "bulk_action pgrx caller ids action now s =
     (case action of
        Acknowledge b \<Rightarrow> BulkAcknowledge pgrx caller ids b now s
      | Assign who \<Rightarrow> BulkAssign pgrx caller ids who now s
      | Annotate body \<Rightarrow> BulkNote pgrx caller ids body now s
      | Close b \<Rightarrow> BulkClose pgrx caller ids b now s)"

text \<open>The validated change of an action, and what holds of a row afterwards.\<close>

definition change_of :: "operator_action \<Rightarrow> db_error + alertChange" where
  "change_of action =
     (case action of
        Acknowledge b \<Rightarrow> Inr (acknowledge_change b)
      | Assign who \<Rightarrow> bind_res (validAssignee who) (\<lambda>w. Inr (assign_change w))
      | Annotate body \<Rightarrow> bind_res (validNoteBody body) (\<lambda>b. Inr (note_change b))
      | Close b \<Rightarrow> Inr (close_change b))"

definition settles :: "operator_action \<Rightarrow> alert_row \<Rightarrow> bool" where
  "settles action r =
     (case action of
        Acknowledge b \<Rightarrow> Acknowledged r = b
      | Assign who \<Rightarrow> AssignedTo r = TrimSpace who
      | Annotate body \<Rightarrow> True
      | Close b \<Rightarrow> Closed r = b)"

definition action_fits :: "operator_action \<Rightarrow> bool" where
  "action_fits action =
     (case action of
        Acknowledge b \<Rightarrow> True
      | Assign who \<Rightarrow> text_ok (TrimSpace who)
      | Annotate body \<Rightarrow> text_ok (TrimSpace body)
      | Close b \<Rightarrow> True)"

text \<open>
  What a bulk action should do, alert by alert, written without the functions of the store: whether an alert already is as asked,
  what it becomes otherwise, what is recorded about it, and which outcome its id gets.
\<close>

definition as_asked :: "operator_action \<Rightarrow> alert_row \<Rightarrow> bool" where
  "as_asked action r =
     (case action of
        Acknowledge b \<Rightarrow> Acknowledged r = b
      | Assign who \<Rightarrow> AssignedTo r = TrimSpace who
      | Annotate body \<Rightarrow> False
      | Close b \<Rightarrow> Closed r = b)"

definition asked_row :: "operator_action \<Rightarrow> string \<Rightarrow> instant \<Rightarrow> alert_row \<Rightarrow> alert_row" where
  "asked_row action actor now r =
     (case action of
        Acknowledge b \<Rightarrow> r\<lparr>Acknowledged := b, AcknowledgedAt := (if b then Some now else None), AcknowledgedBy := (if b then actor else '''')\<rparr>
      | Assign who \<Rightarrow>
          r\<lparr>AssignedTo := TrimSpace who, AssignedAt := (if TrimSpace who = '''' then None else Some now),
            AssignedBy := (if TrimSpace who = '''' then '''' else actor)\<rparr>
      | Annotate body \<Rightarrow> r
      | Close b \<Rightarrow> r\<lparr>Closed := b, ClosedAt := (if b then Some now else None), ClosedBy := (if b then actor else '''')\<rparr>)"

text \<open>The type and the message of the history entry, and the type of the stream event.\<close>

definition asked_record :: "operator_action \<Rightarrow> string \<times> string \<times> string" where
  "asked_record action =
     (case action of
        Acknowledge b \<Rightarrow> if b then (''alert.acknowledged'', ''Alert acknowledged'', ''alert.updated'')
          else (''alert.unacknowledged'', ''Alert unacknowledged'', ''alert.updated'')
      | Assign who \<Rightarrow> if TrimSpace who = '''' then (''alert.unassigned'', ''Assignment cleared'', ''alert.updated'')
          else (''alert.assigned'', ''Assigned to '' @ TrimSpace who, ''alert.updated'')
      | Annotate body \<Rightarrow> (''alert.note'', ''Note added'', ''alert.updated'')
      | Close b \<Rightarrow> if b then (''alert.closed'', ''Closed by operator'', ''alert.resolved'')
          else (''alert.reopened.local'', ''Reopened by operator'', ''alert.updated''))"

definition asked_note :: "operator_action \<Rightarrow> string option" where
  "asked_note action = (case action of Annotate body \<Rightarrow> Some (TrimSpace body) | _ \<Rightarrow> None)"

definition verdict ::
  "(string \<Rightarrow> string \<Rightarrow> bool) \<Rightarrow> Principal \<Rightarrow> (alert_row \<Rightarrow> bool) \<Rightarrow> db \<Rightarrow> int \<Rightarrow> BulkStatus" where
  "verdict pgrx caller idle s i =
     (case find (\<lambda>r. ID r = i) (alert_rows s) of
        None \<Rightarrow> BulkNotFound
      | Some r \<Rightarrow> if \<not> sql_can_operate pgrx caller (Labels r) then BulkNotFound else if idle r then BulkUnchanged else BulkApplied)"

definition note_facts :: "note_row \<Rightarrow> int \<times> int \<times> string \<times> string \<times> instant" where
  "note_facts n = (note_alert_id n, note_Occurrence n, note_Author n, note_Body n, note_CreatedAt n)"

definition history_facts :: "history_row \<Rightarrow> int \<times> string \<times> string \<times> string \<times> instant" where
  "history_facts h = (hist_alert_id h, hist_Type h, hist_Message h, hist_Actor h, hist_OccurredAt h)"

definition event_facts :: "stream_row \<Rightarrow> int \<times> string \<times> instant" where
  "event_facts e = (ev_alert_id e, ev_type e, ev_occurred_at e)"

text \<open>The ids the action is applied to, the rows after the rows at some ids were changed, and the state after the distinct ids
  \<open>ids\<close>, in order, were handled.\<close>

definition applied_ids ::
  "(string \<Rightarrow> string \<Rightarrow> bool) \<Rightarrow> Principal \<Rightarrow> (alert_row \<Rightarrow> bool) \<Rightarrow> db \<Rightarrow> int list \<Rightarrow> int list" where
  "applied_ids pgrx caller idle s ids = filter (\<lambda>i. verdict pgrx caller idle s i = BulkApplied) ids"

definition with_rows :: "int set \<Rightarrow> (alert_row \<Rightarrow> alert_row) \<Rightarrow> alert_row list \<Rightarrow> alert_row list" where
  "with_rows A target rows = map (\<lambda>r. if ID r \<in> A then target r else r) rows"

definition bulk_result ::
  "(string \<Rightarrow> string \<Rightarrow> bool) \<Rightarrow> Principal \<Rightarrow> (alert_row \<Rightarrow> bool) \<Rightarrow> (alert_row \<Rightarrow> alert_row) \<Rightarrow> string \<times> string \<times> string \<Rightarrow>
   string option \<Rightarrow> instant \<Rightarrow> db \<Rightarrow> int list \<Rightarrow> db \<Rightarrow> bool" where
  "bulk_result pgrx caller idle target how said now s ids t \<longleftrightarrow>
     (let actor = operatorName caller; applied = applied_ids pgrx caller idle s ids in
      alert_rows t = with_rows (set applied) target (alert_rows s) \<and>
      map note_facts (alert_notes t) = map note_facts (alert_notes s) @
        (case said of None \<Rightarrow> [] | Some body \<Rightarrow> map (\<lambda>i. (i, occurrence_of s i, actor, body, now)) applied) \<and>
      map history_facts (alert_history t) = map history_facts (alert_history s) @
        map (\<lambda>i. (i, fst how, fst (snd how), actor, now)) applied \<and>
      map event_facts (stream_events t) = map event_facts (stream_events s) @ map (\<lambda>i. (i, snd (snd how), now)) applied)"

section \<open>The contract of a change\<close>

text \<open>The columns a source's reports fill: a row with the operators' columns cleared.\<close>

definition reported :: "alert_row \<Rightarrow> alert_row" where
  "reported r = r\<lparr>Acknowledged := False, AcknowledgedAt := None, AcknowledgedBy := '''',
     AssignedTo := '''', AssignedAt := None, AssignedBy := '''',
     Closed := False, ClosedAt := None, ClosedBy := ''''\<rparr>"

definition in_reach :: "(string \<Rightarrow> string \<Rightarrow> bool) \<Rightarrow> Principal \<Rightarrow> int \<Rightarrow> db \<Rightarrow> bool" where
  "in_reach pgrx caller i s \<longleftrightarrow>
     (\<exists>r \<in> set (alert_rows s). ID r = i \<and> sql_can_operate pgrx caller (Labels r))"

definition lock_accepted :: "Principal \<Rightarrow> bool" where
  "lock_accepted caller \<longleftrightarrow>
     statement_ok {1} (fst (operateAccessCondition caller ColLabels [ArgInt 0]))
       (snd (operateAccessCondition caller ColLabels [ArgInt 0]))"

text \<open>One change applied to one alert, recorded as the bulk loop and the single actions do.\<close>

definition act_one ::
  "(string \<Rightarrow> string \<Rightarrow> bool) \<Rightarrow> Principal \<Rightarrow> alertChange \<Rightarrow> instant \<Rightarrow> int \<Rightarrow> db \<Rightarrow> db_error + db" where
  "act_one pgrx caller change now i s =
     bind_res (lock_alert pgrx caller i s)
       (\<lambda>a. bind_res (change a (operatorName caller) now s)
          (\<lambda>(s1, how). case how of None \<Rightarrow> Inr s1
             | Some (h, m, t) \<Rightarrow> record_action a h m t (operatorName caller) now s1))"

text \<open>Nothing but operator columns changed, and those only on rows of the selection the
  caller may operate.\<close>

definition untouched :: "(string \<Rightarrow> string \<Rightarrow> bool) \<Rightarrow> Principal \<Rightarrow> int set \<Rightarrow> db \<Rightarrow> db \<Rightarrow> bool" where
  "untouched pgrx caller ids s s' \<longleftrightarrow>
     map reported (alert_rows s') = map reported (alert_rows s) \<and>
     (\<forall>r \<in> set (alert_rows s). ID r \<notin> ids \<or> \<not> sql_can_operate pgrx caller (Labels r) \<longrightarrow>
        r \<in> set (alert_rows s'))"

text \<open>What the loop has established after the ids of a prefix of the selection.\<close>

definition bulk_inv ::
  "(string \<Rightarrow> string \<Rightarrow> bool) \<Rightarrow> Principal \<Rightarrow> (alert_row \<Rightarrow> bool) \<Rightarrow> db \<Rightarrow> int list \<Rightarrow>
   db \<times> int list \<times> BulkOutcome list \<Rightarrow> bool" where
  "bulk_inv pgrx caller settled s ids st \<longleftrightarrow>
     (case st of (t, seen, outcomes) \<Rightarrow>
        db_ok t \<and> untouched pgrx caller (set ids) s t \<and> seen = remdups (rev ids) \<and>
        map outcome_ID outcomes = rev seen \<and>
        (\<forall>o' \<in> set outcomes. outcome_Status o' = BulkNotFound \<longleftrightarrow> \<not> in_reach pgrx caller (outcome_ID o') s) \<and>
        (\<forall>r \<in> set (alert_rows t). ID r \<in> set ids \<and> sql_can_operate pgrx caller (Labels r) \<longrightarrow> settled r))"

text \<open>The shape three of the four changes share: set columns of the row unless they are already
  as asked.\<close>

definition column_change ::
  "(alert_row \<Rightarrow> bool) \<Rightarrow> (string \<Rightarrow> string list) \<Rightarrow> (instant \<Rightarrow> string \<Rightarrow> alert_row \<Rightarrow> alert_row) \<Rightarrow>
   string \<times> string \<times> string \<Rightarrow> alertChange" where
  "column_change P texts f how a actor now s =
     (if P a then Inr (s, None)
      else bind_res (update_by_id (texts actor) (ID a) (f now actor) s) (\<lambda>s1. Inr (s1, Some how)))"

text \<open>
  The laws of an \<open>alertChange\<close>: it reports \<^const>\<open>None\<close> only if it wrote nothing; it
  writes only operator columns of the alert it is given and notes about that alert; it keeps
  the invariant; afterwards \<open>settled\<close> holds of the row; and it goes through when its text
  \<open>fits\<close> the database.
\<close>

locale alert_change =
  fixes change :: alertChange
    and settled :: "alert_row \<Rightarrow> bool"
    and fits :: bool
  assumes unchanged: "change a actor now s = Inr (s', None) \<Longrightarrow> s' = s"
    and ok: "db_ok s \<Longrightarrow> a \<in> set (alert_rows s) \<Longrightarrow> change a actor now s = Inr (s', how) \<Longrightarrow> db_ok s'"
    and rows: "change a actor now s = Inr (s', how) \<Longrightarrow>
      \<exists>f. alert_rows s' = upd_where (\<lambda>r. ID r = ID a) f (alert_rows s) \<and> (\<forall>r. reported (f r) = reported r)"
    and logs: "change a actor now s = Inr (s', how) \<Longrightarrow>
      stream_events s' = stream_events s \<and> alert_history s' = alert_history s"
    and effect: "db_ok s \<Longrightarrow> a \<in> set (alert_rows s) \<Longrightarrow> change a actor now s = Inr (s', how) \<Longrightarrow>
      r \<in> set (alert_rows s') \<Longrightarrow> ID r = ID a \<Longrightarrow> settled r"
    and total: "fits \<Longrightarrow> db_ok s \<Longrightarrow> a \<in> set (alert_rows s) \<Longrightarrow> actor \<noteq> '''' \<Longrightarrow> text_ok actor \<Longrightarrow>
      \<exists>s' how. change a actor now s = Inr (s', how) \<and> (\<forall>h m t. how = Some (h, m, t) \<longrightarrow> text_ok m)"
begin

lemma ids: "change a actor now s = Inr (s', how) \<Longrightarrow> map reported (alert_rows s') = map reported (alert_rows s)"
  using rows by (fastforce simp: upd_where_def)

lemma other_rows:
  "change a actor now s = Inr (s', how) \<Longrightarrow> r \<in> set (alert_rows s) \<Longrightarrow> ID r \<noteq> ID a \<Longrightarrow> r \<in> set (alert_rows s')"
  using rows [of a actor now s s' how] by (force simp: set_upd_where image_iff)

end

text \<open>
  A change whose effect is known exactly: it does nothing when the alert is \<open>idle\<close>; otherwise it makes the row \<open>target\<close>, asks
  for \<open>how\<close> to be recorded and writes the note.
\<close>

locale exact_change = alert_change +
  fixes idle :: "alert_row \<Rightarrow> bool"
    and target :: "string \<Rightarrow> instant \<Rightarrow> alert_row \<Rightarrow> alert_row"
    and recorded :: "string \<times> string \<times> string"
    and said :: "string option"
  assumes target_reported: "reported (target actor now r) = reported r"
    and idle_exact: "idle a \<Longrightarrow> change a actor now s = Inr (s', how) \<Longrightarrow> how = None"
    and change_exact: "\<not> idle a \<Longrightarrow> change a actor now s = Inr (s', how) \<Longrightarrow>
      how = Some recorded \<and> alert_rows s' = upd_where (\<lambda>r. ID r = ID a) (target actor now) (alert_rows s) \<and>
      map note_facts (alert_notes s') = map note_facts (alert_notes s) @
        (case said of None \<Rightarrow> [] | Some body \<Rightarrow> [(ID a, Occurrence a, actor, body, now)])"

section \<open>Lemmas\<close>

lemma reported_simps [simp]:
  "ID (reported r) = ID r" "SourceSlug (reported r) = SourceSlug r"
  "Fingerprint (reported r) = Fingerprint r" "Labels (reported r) = Labels r"
  "Occurrence (reported r) = Occurrence r" "Status (reported r) = Status r"
  by (simp_all add: reported_def)

lemma reported_eqD:
  assumes "reported r = reported q"
  shows "ID r = ID q" "SourceSlug r = SourceSlug q" "Fingerprint r = Fingerprint q"
    "Labels r = Labels q" "Occurrence r = Occurrence q" "Status r = Status q"
  using assms by (metis reported_simps)+

lemma reported_rows:
  "map reported xs = map reported ys \<Longrightarrow> map ID xs = map ID ys"
proof -
  assume "map reported xs = map reported ys"
  then have "map ID (map reported xs) = map ID (map reported ys)" by simp
  then show ?thesis by (simp add: comp_def)
qed

lemma reported_member:
  "map reported xs = map reported ys \<Longrightarrow> x \<in> set xs \<Longrightarrow> \<exists>y \<in> set ys. reported x = reported y"
  by (metis (no_types) image_iff list.set_map)

lemma in_reach_reported:
  assumes "map reported (alert_rows s') = map reported (alert_rows s)"
  shows "in_reach pgrx caller i s' \<longleftrightarrow> in_reach pgrx caller i s"
  unfolding in_reach_def
  using reported_member [OF assms] reported_member [OF assms [symmetric]] reported_eqD(1,4) by metis

lemma operatorName_nonempty [simp]: "operatorName caller \<noteq> ''''"
  by (simp add: operatorName_def)

lemma set_columns:
  "reported (set_acknowledged b now actor r) = reported r"
  "reported (set_assigned who now actor r) = reported r"
  "reported (set_closed b now actor r) = reported r"
  by (simp_all add: reported_def set_acknowledged_def set_assigned_def set_closed_def)

lemma row_le_columns:
  "row_le r (set_acknowledged b now actor r)" "row_le r (set_assigned who now actor r)"
  "row_le r (set_closed b now actor r)"
  by (simp_all add: row_le_def set_acknowledged_def set_assigned_def set_closed_def)

lemma settled_columns:
  "Acknowledged (set_acknowledged b now actor r) = b" "AssignedTo (set_assigned who now actor r) = who"
  "Closed (set_closed b now actor r) = b"
  by (simp_all add: set_acknowledged_def set_assigned_def set_closed_def)

lemma checks_columns:
  assumes "alert_checks r" "actor \<noteq> ''''"
  shows "alert_checks (set_acknowledged b now actor r)" "alert_checks (set_assigned who now actor r)"
    "alert_checks (set_closed b now actor r)"
  using assms
  by (auto simp: alert_checks_def acknowledgement_check_def assignment_check_def close_check_def
      set_acknowledged_def set_assigned_def set_closed_def)

lemma insert_note_Inr:
  "insert_note i occ author body now s = Inr s' \<longleftrightarrow>
     i \<in> ID ` set (alert_rows s) \<and> text_ok author \<and> text_ok body \<and>
     s' = s\<lparr>alert_notes := alert_notes s @
        [\<lparr>note_ID = next_note s, note_Occurrence = occ, note_Author = author, note_Body = body,
          note_CreatedAt = now, note_alert_id = i\<rparr>], next_note := next_note s + 1\<rparr>"
  by (auto simp: insert_note_def)

lemma insert_note_ok [keeps]:
  assumes "db_ok s" "insert_note i occ author body now s = Inr s'" "occ \<le> occurrence_of s i"
  shows "db_ok s'"
proof -
  have "notes_ok s'"
    using db_okD(5) [OF assms(1)] assms(2,3)
    by (fastforce simp: insert_note_Inr notes_ok_def sorted_wrt_append occurrence_of_def)
  then show ?thesis
    using assms(1,2)
    by (auto simp: insert_note_Inr db_ok_def sources_ok_def alerts_ok_def stream_ok_def history_ok_def
        silences_ok_def occurrence_of_def)
qed

lemma occurrence_member: "db_ok s \<Longrightarrow> a \<in> set (alert_rows s) \<Longrightarrow> occurrence_of s (ID a) = Occurrence a"
  using db_okD(2) occurrence_of_eq by (simp add: alerts_ok_def)

lemma note_change_Inr:
  "note_change body a actor now s = Inr (s', how) \<longleftrightarrow>
     insert_note (ID a) (Occurrence a) actor body now s = Inr s' \<and>
     how = Some (''alert.note'', ''Note added'', ''alert.updated'')"
  by (auto simp: note_change_def bind_res_Inr)

lemma upd_where_none: "upd_where (\<lambda>r. ID r = i) id rows = rows"
  by (simp add: upd_where_id)

subsection \<open>The four changes\<close>

lemma column_change_cases:
  assumes "column_change P texts f how a actor now s = Inr (s', how')"
  obtains (same) "P a" "s' = s" "how' = None"
  | (set) "\<not> P a" "how' = Some how" "update_by_id (texts actor) (ID a) (f now actor) s = Inr s'"
  using assms by (auto simp: column_change_def bind_res_Inr split: if_splits)

lemma column_alert_change:
  assumes rep: "\<And>now actor r. reported (f now actor r) = reported r"
    and le: "\<And>now actor r. row_le r (f now actor r)"
    and post: "\<And>now actor r. P (f now actor r)"
    and chk: "\<And>now actor r. actor \<noteq> '''' \<Longrightarrow> alert_checks r \<Longrightarrow> alert_checks (f now actor r)"
    and tex: "\<And>actor. fits \<Longrightarrow> text_ok actor \<Longrightarrow> list_all text_ok (texts actor)"
    and msg: "fits \<Longrightarrow> text_ok (fst (snd how))"
  shows "alert_change (column_change P texts f how) P fits"
proof
  fix a actor now s s' how'
  assume ch: "column_change P texts f how a actor now s = Inr (s', how')"
  show "\<exists>g. alert_rows s' = upd_where (\<lambda>r. ID r = ID a) g (alert_rows s) \<and> (\<forall>r. reported (g r) = reported r)"
    using ch
  proof (cases rule: column_change_cases)
    case same
    then show ?thesis using upd_where_none [of "ID a" "alert_rows s"] by (intro exI [of _ id]) simp
  next
    case set
    from update_by_id_Inr [OF set(3)] rep show ?thesis by (intro exI [of _ "f now actor"]) simp
  qed
  show "stream_events s' = stream_events s \<and> alert_history s' = alert_history s"
    using ch by (cases rule: column_change_cases) (auto dest: update_by_id_Inr)
  assume ok: "db_ok s" and a: "a \<in> set (alert_rows s)"
  from ch show "db_ok s'"
    by (cases rule: column_change_cases) (simp_all add: ok update_by_id_ok [OF ok _ le])
  fix r assume r: "r \<in> set (alert_rows s')" "ID r = ID a"
  from ch show "P r"
  proof (cases rule: column_change_cases)
    case same
    with row_by_id [OF db_okD(2) [OF ok]] a r show ?thesis by blast
  next
    case set
    from update_by_id_Inr [OF set(3)] r post show ?thesis by (auto simp: set_upd_where split: if_splits)
  qed
next
  fix a actor now s s'
  assume "column_change P texts f how a actor now s = Inr (s', None)"
  then show "s' = s" by (cases rule: column_change_cases) auto
next
  fix a :: alert_row and actor :: string and now s
  assume fits and ok: "db_ok s" and actor: "actor \<noteq> ''''" "text_ok actor"
  then obtain s' where "update_by_id (texts actor) (ID a) (f now actor) s = Inr s'"
    using update_by_id_total [OF ok tex] chk by blast
  with msg [OF \<open>fits\<close>] show "\<exists>s' how'. column_change P texts f how a actor now s = Inr (s', how') \<and>
      (\<forall>h m t. how' = Some (h, m, t) \<longrightarrow> text_ok m)"
    by (auto simp: column_change_def)
qed

lemma change_eqs:
  "acknowledge_change b = column_change (\<lambda>r. Acknowledged r = b) (\<lambda>actor. [actor]) (set_acknowledged b)
     (if b then (''alert.acknowledged'', ''Alert acknowledged'', ''alert.updated'')
      else (''alert.unacknowledged'', ''Alert unacknowledged'', ''alert.updated''))"
  "assign_change who = column_change (\<lambda>r. AssignedTo r = who) (\<lambda>actor. [who, actor]) (set_assigned who)
     (if who = '''' then (''alert.unassigned'', ''Assignment cleared'', ''alert.updated'')
      else (''alert.assigned'', ''Assigned to '' @ who, ''alert.updated''))"
  "close_change b = column_change (\<lambda>r. Closed r = b) (\<lambda>actor. [actor]) (set_closed b)
     (if b then (''alert.closed'', ''Closed by operator'', ''alert.resolved'')
      else (''alert.reopened.local'', ''Reopened by operator'', ''alert.updated''))"
  by (auto simp: fun_eq_iff column_change_def acknowledge_change_def assign_change_def close_change_def)

interpretation ack: alert_change "acknowledge_change b" "\<lambda>r. Acknowledged r = b" True for b
  unfolding change_eqs
  by (rule column_alert_change)
    (auto simp: set_columns row_le_columns checks_columns settled_columns)

interpretation assign: alert_change "assign_change who" "\<lambda>r. AssignedTo r = who" "text_ok who" for who
  unfolding change_eqs
  by (rule column_alert_change)
    (auto simp: set_columns row_le_columns checks_columns settled_columns)

interpretation shut: alert_change "close_change b" "\<lambda>r. Closed r = b" True for b
  unfolding change_eqs
  by (rule column_alert_change)
    (auto simp: set_columns row_le_columns checks_columns settled_columns)

interpretation annotate: alert_change "note_change body" "\<lambda>r. True" "text_ok body" for body
proof
  fix a actor now s s' how
  assume ch: "note_change body a actor now s = Inr (s', how)"
  then show "stream_events s' = stream_events s \<and> alert_history s' = alert_history s"
    by (auto simp: note_change_Inr insert_note_Inr)
  from ch show "\<exists>f. alert_rows s' = upd_where (\<lambda>r. ID r = ID a) f (alert_rows s) \<and> (\<forall>r. reported (f r) = reported r)"
    using upd_where_none [of "ID a" "alert_rows s"]
    by (intro exI [of _ id]) (auto simp: note_change_Inr insert_note_Inr)
  assume "db_ok s" "a \<in> set (alert_rows s)"
  with ch show "db_ok s'"
    by (auto simp: note_change_Inr occurrence_member intro: insert_note_ok)
next
  fix a :: alert_row and actor :: string and now s
  assume "text_ok body" "db_ok s" "a \<in> set (alert_rows s)" "text_ok actor"
  then show "\<exists>s' how. note_change body a actor now s = Inr (s', how) \<and>
      (\<forall>h m t. how = Some (h, m, t) \<longrightarrow> text_ok m)"
    by (auto simp: note_change_def insert_note_def)
qed (simp_all add: note_change_Inr)

subsection \<open>Locking and recording\<close>

lemma lock_accepted_iff:
  "statement_ok {1} (fst (operateAccessCondition caller ColLabels [ArgInt i]))
     (snd (operateAccessCondition caller ColLabels [ArgInt i])) \<longleftrightarrow> lock_accepted caller"
proof -
  have cond: "match_conditions col (x # xs) ms = (cs, ys) \<Longrightarrow>
      match_conditions col (z # xs) ms = (cs, z # tl ys) \<and> ys = x # tl ys" for col x z xs ms cs ys
    by (induction ms arbitrary: xs cs ys) (auto simp: Let_def split: prod.splits)
  have "grant_conditions sc col (x # xs) gs = (cs, ys) \<Longrightarrow>
      grant_conditions sc col (z # xs) gs = (cs, z # tl ys) \<and> ys = x # tl ys" for sc col x z xs gs cs ys
  proof (induction gs arbitrary: xs cs ys)
    case (Cons g gs)
    obtain ms1 as1 where m: "match_conditions col (x # xs) (grant_Matchers g) = (ms1, as1)" by force
    from cond [OF m, of z] have m': "match_conditions col (z # xs) (grant_Matchers g) = (ms1, z # tl as1)"
      and as1: "as1 = x # tl as1" by simp_all
    obtain rest as2 where r: "grant_conditions sc col (x # tl as1) gs = (rest, as2)" by force
    from Cons.IH [OF r] show ?case
      using Cons.prems Cons.IH [of xs] m m' r as1 by (auto simp: Let_def split: if_splits prod.splits)
  qed simp
  then have "fst (operateAccessCondition caller ColLabels [ArgInt i]) =
      fst (operateAccessCondition caller ColLabels [ArgInt 0]) \<and>
      length (snd (operateAccessCondition caller ColLabels [ArgInt i])) =
      length (snd (operateAccessCondition caller ColLabels [ArgInt 0]))"
    by (metis (no_types, lifting) fst_conv length_Cons operateAccessCondition_simps prod.collapse snd_conv)
  then show ?thesis by (simp add: lock_accepted_def statement_ok_def)
qed

lemma lock_alert_cases:
  assumes "db_ok s"
  shows "lock_alert pgrx caller i s =
    (if \<not> lock_accepted caller then Inl ErrDatabase
     else if in_reach pgrx caller i s then Inr (THE a. a \<in> set (alert_rows s) \<and> ID a = i)
     else Inl ErrNotFound)"
proof -
  let ?acc = "operateAccessCondition caller ColLabels [ArgInt i]"
  show ?thesis
  proof (cases "lock_accepted caller \<and> in_reach pgrx caller i s")
    case True
    then obtain r where r: "r \<in> set (alert_rows s)" "ID r = i" "sql_can_operate pgrx caller (Labels r)"
      by (auto simp: in_reach_def)
    then have "select_alert pgrx ?acc i s = Inr r"
      using True by (intro select_alert_found [OF db_okD(2) [OF assms]]) (simp_all add: lock_accepted_iff [unfolded One_nat_def] eval_operate_row)
    moreover have "(THE a. a \<in> set (alert_rows s) \<and> ID a = i) = r"
      using r row_by_id [OF db_okD(2) [OF assms]] by (intro the_equality) auto
    ultimately show ?thesis using True by (simp add: lock_alert_def)
  next
    case False
    then show ?thesis
      by (auto simp: lock_alert_def select_alert_def lock_accepted_iff [unfolded One_nat_def] eval_operate_row in_reach_def
          filter_empty_conv filter_eq_Cons_iff split: list.splits)
  qed
qed

lemma lock_alert_Inr:
  assumes "lock_alert pgrx caller i s = Inr a"
  shows "a \<in> set (alert_rows s)" "ID a = i" "sql_can_operate pgrx caller (Labels a)"
  using select_operate_Inr assms unfolding lock_alert_def by blast+

lemma lock_alert_NotFound:
  "db_ok s \<Longrightarrow> lock_alert pgrx caller i s = Inl ErrNotFound \<longleftrightarrow>
     lock_accepted caller \<and> \<not> in_reach pgrx caller i s"
  by (simp add: lock_alert_cases)

lemma record_action_Inr:
  assumes "record_action a h m t actor now s = Inr s'"
  shows "alert_rows s' = alert_rows s" "alert_notes s' = alert_notes s"
    "length (stream_events s') = length (stream_events s) + 1"
    "length (alert_history s') = length (alert_history s) + 1"
  using assms
  by (auto simp: record_action_def bind_res_Inr insert_history_Inr insertStreamEvent_Inr)

lemma record_action_facts:
  assumes "record_action a h m t actor now s = Inr s'"
  shows "alert_rows s' = alert_rows s" "alert_notes s' = alert_notes s"
    "map history_facts (alert_history s') = map history_facts (alert_history s) @ [(ID a, h, m, actor, now)]"
    "map event_facts (stream_events s') = map event_facts (stream_events s) @ [(ID a, t, now)]"
  using assms
  by (auto simp: record_action_def bind_res_Inr insert_history_Inr insertStreamEvent_Inr history_facts_def event_facts_def incoming_of_def)

lemma record_action_ok [keeps]:
  assumes "db_ok s" "Occurrence a \<le> occurrence_of s (ID a)" "record_action a h m t actor now s = Inr s'"
  shows "db_ok s'"
proof -
  obtain s1 where "insert_history (ID a) (Occurrence a) h (Status a) actor m now s = Inr s1"
    "insertStreamEvent t (ID a) (incoming_of a now) None s1 = Inr s'"
    using assms(3) by (auto simp: record_action_def bind_res_Inr)
  then show ?thesis using insert_history_ok [OF assms(1) _ assms(2)] insertStreamEvent_ok by blast
qed

lemma record_action_total:
  "ID a \<in> ID ` set (alert_rows s) \<Longrightarrow> text_ok actor \<Longrightarrow> text_ok m \<Longrightarrow>
   \<exists>s'. record_action a h m t actor now s = Inr s'"
  by (simp add: record_action_def insert_history_def insertStreamEvent_def Let_def)

subsection \<open>Clients of the contract\<close>

context alert_change
begin

lemma act_keeps:
  assumes "db_ok s" "lock_alert pgrx caller i s = Inr a" "change a actor now s = Inr (s1, how)"
  shows "db_ok s1" "Occurrence a \<le> occurrence_of s1 (ID a)" "untouched pgrx caller {i} s s1"
    "\<And>r. r \<in> set (alert_rows s1) \<Longrightarrow> ID r = i \<Longrightarrow> settled r" "ID a \<in> ID ` set (alert_rows s1)"
proof -
  note a = lock_alert_Inr [OF assms(2)]
  show ok1: "db_ok s1" by (rule ok [OF assms(1) a(1) assms(3)])
  note rep = ids [OF assms(3)]
  obtain b where b: "b \<in> set (alert_rows s1)" "reported a = reported b"
    using reported_member [OF rep [symmetric] a(1)] by blast
  show "Occurrence a \<le> occurrence_of s1 (ID a)"
    using occurrence_member [OF ok1 b(1)] reported_eqD(1,5) [OF b(2)] by simp
  show "ID a \<in> ID ` set (alert_rows s1)" using b reported_eqD(1) [OF b(2)] by auto
  have "r \<in> set (alert_rows s1)"
    if "r \<in> set (alert_rows s)" "ID r \<notin> {i} \<or> \<not> sql_can_operate pgrx caller (Labels r)" for r
  proof (cases "ID r = ID a")
    case True
    then have "r = a" using row_by_id [OF db_okD(2) [OF assms(1)] that(1) a(1)] by simp
    with that(2) a show ?thesis by simp
  next
    case False
    with other_rows [OF assms(3) that(1)] show ?thesis by simp
  qed
  with rep show "untouched pgrx caller {i} s s1" by (auto simp: untouched_def)
  show "settled r" if "r \<in> set (alert_rows s1)" "ID r = i" for r
    using effect [OF assms(1) a(1) assms(3) that(1)] that(2) a(2) by simp
qed

lemma act_one_keeps:
  assumes "db_ok s" "act_one pgrx caller change now i s = Inr s'"
  shows "db_ok s'" "untouched pgrx caller {i} s s'" "\<And>r. r \<in> set (alert_rows s') \<Longrightarrow> ID r = i \<Longrightarrow> settled r"
    "in_reach pgrx caller i s"
proof -
  obtain a s1 how where a: "lock_alert pgrx caller i s = Inr a"
    and ch: "change a (operatorName caller) now s = Inr (s1, how)"
    and rest: "(case how of None \<Rightarrow> Inr s1
      | Some (h, m, t) \<Rightarrow> record_action a h m t (operatorName caller) now s1) = Inr s'"
    using assms(2) by (auto simp: act_one_def bind_res_Inr split: prod.splits)
  note k = act_keeps [OF assms(1) a ch]
  have s': "alert_rows s' = alert_rows s1 \<and> db_ok s'"
    using rest k(1,2) record_action_Inr(1) record_action_ok
    by (cases how) (auto split: prod.splits)
  then show "db_ok s'" by simp
  show "untouched pgrx caller {i} s s'" using s' k(3) by (simp add: untouched_def)
  show "settled r" if "r \<in> set (alert_rows s')" "ID r = i" for r using k(4) s' that by simp
  show "in_reach pgrx caller i s" using lock_alert_Inr [OF a] by (auto simp: in_reach_def)
qed

lemma act_one_total:
  assumes "fits" "db_ok s" "lock_accepted caller" "in_reach pgrx caller i s" "text_ok (operatorName caller)"
  shows "\<exists>s'. act_one pgrx caller change now i s = Inr s'"
proof -
  obtain a where a: "lock_alert pgrx caller i s = Inr a"
    using assms(2-4) by (simp add: lock_alert_cases)
  obtain s1 how where ch: "change a (operatorName caller) now s = Inr (s1, how)"
    "\<forall>h m t. how = Some (h, m, t) \<longrightarrow> text_ok m"
    using total [OF assms(1,2) lock_alert_Inr(1) [OF a] operatorName_nonempty assms(5)] by blast
  note k = act_keeps [OF assms(2) a ch(1)]
  show ?thesis
    using a ch k(5) record_action_total [OF k(5) assms(5)]
    by (cases how) (auto simp: act_one_def split: prod.splits)
qed

lemma act_one_idle:
  assumes "db_ok s" "act_one pgrx caller change now i s = Inr s'"
  shows "s' = s \<or> length (alert_history s') = length (alert_history s) + 1 \<and>
    length (stream_events s') = length (stream_events s) + 1"
proof -
  obtain a s1 how where a: "lock_alert pgrx caller i s = Inr a"
    and ch: "change a (operatorName caller) now s = Inr (s1, how)"
    and rest: "(case how of None \<Rightarrow> Inr s1
      | Some (h, m, t) \<Rightarrow> record_action a h m t (operatorName caller) now s1) = Inr s'"
    using assms(2) by (auto simp: act_one_def bind_res_Inr split: prod.splits)
  show ?thesis
  proof (cases how)
    case None
    with rest ch unchanged show ?thesis by auto
  next
    case (Some e)
    with rest record_action_Inr(3,4) logs [OF ch] show ?thesis by (cases e) fastforce
  qed
qed

end

lemma untouched_refl: "untouched pgrx caller A s s"
  by (simp add: untouched_def)

lemma untouched_trans:
  "untouched pgrx caller A s t \<Longrightarrow> untouched pgrx caller B t u \<Longrightarrow> untouched pgrx caller (A \<union> B) s u"
  by (auto simp: untouched_def)

lemma untouched_other:
  assumes "untouched pgrx caller A s t" "db_ok t" "r \<in> set (alert_rows t)" "ID r \<notin> A"
  shows "r \<in> set (alert_rows s)"
proof -
  have "map reported (alert_rows t) = map reported (alert_rows s)" using assms(1) by (simp add: untouched_def)
  from reported_member [OF this assms(3)] obtain q where q: "q \<in> set (alert_rows s)" "reported r = reported q"
    by blast
  then have "ID q = ID r" by (metis reported_simps(1))
  then have "q \<in> set (alert_rows t)" using assms(1,4) q(1) by (auto simp: untouched_def)
  with \<open>ID q = ID r\<close> row_by_id [OF db_okD(2) [OF assms(2)] _ assms(3)] q(1) show ?thesis by auto
qed

context alert_change
begin

lemma apply_one_cases:
  assumes "db_ok s" "apply_one pgrx caller change now i (s, seen, outcomes) = Inr (s', seen', outcomes')"
  obtains (again) "i \<in> set seen" "s' = s" "seen' = seen" "outcomes' = outcomes"
  | (absent) "i \<notin> set seen" "s' = s" "seen' = i # seen" "\<not> in_reach pgrx caller i s"
      "outcomes' = outcomes @ [\<lparr>outcome_ID = i, outcome_Status = BulkNotFound\<rparr>]"
  | (acted) st where "i \<notin> set seen" "seen' = i # seen" "act_one pgrx caller change now i s = Inr s'"
      "st \<noteq> BulkNotFound" "outcomes' = outcomes @ [\<lparr>outcome_ID = i, outcome_Status = st\<rparr>]"
proof (cases "i \<in> set seen")
  case True
  then have "(s', seen', outcomes') = (s, seen, outcomes)" using assms(2) by (simp add: apply_one_def Let_def)
  with True show ?thesis by (intro again) simp_all
next
  case False
  show ?thesis
  proof (cases "lock_alert pgrx caller i s")
    case (Inl e)
    with False assms(2) have e: "e = ErrNotFound" by (simp add: apply_one_def Let_def split: if_splits)
    with Inl have "\<not> in_reach pgrx caller i s" using lock_alert_NotFound [OF assms(1)] by simp
    moreover have "(s', seen', outcomes') =
        (s, i # seen, outcomes @ [\<lparr>outcome_ID = i, outcome_Status = BulkNotFound\<rparr>])"
      using Inl e False assms(2) by (simp add: apply_one_def Let_def)
    ultimately show ?thesis using False by (intro absent) simp_all
  next
    case (Inr a)
    then obtain s1 how where ch: "change a (operatorName caller) now s = Inr (s1, how)"
      using False assms(2) by (auto simp: apply_one_def Let_def bind_res_Inr)
    show ?thesis
    proof (cases how)
      case None
      have act: "act_one pgrx caller change now i s = Inr s1" using None Inr ch by (simp add: act_one_def)
      have "(s', seen', outcomes') =
          (s1, i # seen, outcomes @ [\<lparr>outcome_ID = i, outcome_Status = BulkUnchanged\<rparr>])"
        using None False assms(2) Inr ch by (simp add: apply_one_def Let_def)
      with False act show ?thesis by (intro acted [of BulkUnchanged]) simp_all
    next
      case (Some e)
      obtain h m ty where e: "e = (h, m, ty)" by (cases e)
      then obtain s2 where s2: "record_action a h m ty (operatorName caller) now s1 = Inr s2"
        "(s', seen', outcomes') = (s2, i # seen, outcomes @ [\<lparr>outcome_ID = i, outcome_Status = BulkApplied\<rparr>])"
        using Some False assms(2) Inr ch by (auto simp: apply_one_def Let_def bind_res_Inr)
      have "act_one pgrx caller change now i s = Inr s2" using Some e s2(1) Inr ch by (simp add: act_one_def)
      with False s2(2) show ?thesis by (intro acted [of BulkApplied]) simp_all
    qed
  qed
qed

lemma bulk_step:
  assumes "bulk_inv pgrx caller settled s ids st" "apply_one pgrx caller change now i st = Inr st'"
  shows "bulk_inv pgrx caller settled s (ids @ [i]) st'"
proof -
  obtain t seen outcomes t' seen' outcomes' where st: "st = (t, seen, outcomes)" "st' = (t', seen', outcomes')"
    by (cases st; cases st') auto
  have inv: "db_ok t" "untouched pgrx caller (set ids) s t" "seen = remdups (rev ids)"
    "map outcome_ID outcomes = rev seen"
    "\<forall>o' \<in> set outcomes. outcome_Status o' = BulkNotFound \<longleftrightarrow> \<not> in_reach pgrx caller (outcome_ID o') s"
    "\<forall>r \<in> set (alert_rows t). ID r \<in> set ids \<and> sql_can_operate pgrx caller (Labels r) \<longrightarrow> settled r"
    using assms(1) by (simp_all add: bulk_inv_def st)
  have reach: "in_reach pgrx caller i t \<longleftrightarrow> in_reach pgrx caller i s"
    using inv(2) by (intro in_reach_reported) (simp add: untouched_def)
  have more: "untouched pgrx caller (insert i (set ids)) s t" using inv(2) by (auto simp: untouched_def)
  from inv(1) assms(2) [unfolded st] show ?thesis
  proof (cases rule: apply_one_cases)
    case again
    with inv more show ?thesis by (auto simp: bulk_inv_def st)
  next
    case absent
    have "settled r" if "r \<in> set (alert_rows t)" "ID r = i" "sql_can_operate pgrx caller (Labels r)" for r
      using absent(4) that by (auto simp: in_reach_def)
    with absent inv more reach show ?thesis by (auto simp: bulk_inv_def st)
  next
    case (acted o')
    note act = act_one_keeps [OF inv(1) acted(3)]
    have "settled r" if "r \<in> set (alert_rows t')" "ID r \<in> insert i (set ids)"
      "sql_can_operate pgrx caller (Labels r)" for r
    proof (cases "ID r = i")
      case False
      then have "r \<in> set (alert_rows t)" using untouched_other [OF act(2,1) that(1)] by simp
      with inv(6) that False show ?thesis by simp
    qed (use act(3) that in simp)
    moreover have "untouched pgrx caller (set ids \<union> {i}) s t'" by (rule untouched_trans [OF inv(2) act(2)])
    ultimately show ?thesis
      using acted inv(3-5) act(1,4) reach by (auto simp: bulk_inv_def st insert_commute)
  qed
qed

lemma bulk_fold:
  assumes "db_ok s" "fold_res (apply_one pgrx caller change now) ids (s, [], []) = Inr st"
  shows "bulk_inv pgrx caller settled s ids st"
  using assms(2)
proof (induction ids arbitrary: st rule: rev_induct)
  case Nil
  then show ?case using assms(1) by (auto simp: bulk_inv_def untouched_refl)
next
  case (snoc i ids)
  then obtain st1 where "fold_res (apply_one pgrx caller change now) ids (s, [], []) = Inr st1"
    "apply_one pgrx caller change now i st1 = Inr st"
    by (auto simp: fold_res_append bind_res_Inr)
  with snoc.IH bulk_step show ?case by blast
qed

lemma applyToAlerts_spec:
  assumes "db_ok s" "applyToAlerts pgrx caller ids change now s = Inr (s', outcomes)"
  shows "db_ok s'" "untouched pgrx caller (set ids) s s'"
    "map outcome_ID outcomes = rev (remdups (rev ids))"
    "\<forall>o' \<in> set outcomes. outcome_Status o' = BulkNotFound \<longleftrightarrow> \<not> in_reach pgrx caller (outcome_ID o') s"
    "\<forall>r \<in> set (alert_rows s'). ID r \<in> set ids \<and> sql_can_operate pgrx caller (Labels r) \<longrightarrow> settled r"
proof -
  obtain seen where "fold_res (apply_one pgrx caller change now) ids (s, [], []) = Inr (s', seen, outcomes)"
    using assms(2) by (auto simp: applyToAlerts_def bind_res_Inr split: if_splits)
  from bulk_fold [OF assms(1) this] show "db_ok s'" "untouched pgrx caller (set ids) s s'"
    "map outcome_ID outcomes = rev (remdups (rev ids))"
    "\<forall>o' \<in> set outcomes. outcome_Status o' = BulkNotFound \<longleftrightarrow> \<not> in_reach pgrx caller (outcome_ID o') s"
    "\<forall>r \<in> set (alert_rows s'). ID r \<in> set ids \<and> sql_can_operate pgrx caller (Labels r) \<longrightarrow> settled r"
    by (simp_all add: bulk_inv_def)
qed

lemma apply_one_total:
  assumes "fits" "lock_accepted caller" "text_ok (operatorName caller)" "db_ok (fst st)"
  shows "\<exists>st'. apply_one pgrx caller change now i st = Inr st' \<and> db_ok (fst st')"
proof -
  obtain t seen outcomes where st: "st = (t, seen, outcomes)" by (cases st)
  show ?thesis
  proof (cases "i \<in> set seen \<or> \<not> in_reach pgrx caller i t")
    case True
    then show ?thesis
    proof (cases "i \<in> set seen")
      case False
      with True have "lock_alert pgrx caller i t = Inl ErrNotFound"
        using assms(2,4) lock_alert_NotFound [of t pgrx caller i] by (simp add: st)
      with False assms(4) show ?thesis by (simp add: apply_one_def Let_def st)
    qed (use assms(4) in \<open>simp add: apply_one_def Let_def st\<close>)
  next
    case False
    then obtain t' where t': "act_one pgrx caller change now i t = Inr t'"
      using act_one_total assms st by fastforce
    then obtain a s1 how where "lock_alert pgrx caller i t = Inr a"
      "change a (operatorName caller) now t = Inr (s1, how)"
      "(case how of None \<Rightarrow> Inr s1
        | Some (h, m, ty) \<Rightarrow> record_action a h m ty (operatorName caller) now s1) = Inr t'"
      by (auto simp: act_one_def bind_res_Inr split: prod.splits)
    with False act_one_keeps(1) [OF _ t'] assms(4) st show ?thesis
      by (cases how) (auto simp: apply_one_def Let_def)
  qed
qed

lemma applyToAlerts_total:
  assumes "fits" "lock_accepted caller" "text_ok (operatorName caller)" "db_ok s" "CanOperate caller"
    "ids \<noteq> []" "length ids \<le> maxBulkAlerts"
  shows "\<exists>s' outcomes. applyToAlerts pgrx caller ids change now s = Inr (s', outcomes)"
proof -
  have "\<exists>st'. fold_res (apply_one pgrx caller change now) ids (s, [], []) = Inr st' \<and> db_ok (fst st')"
    by (rule fold_res_total) (use assms apply_one_total in auto)
  then show ?thesis using assms(5-7) by (auto simp: applyToAlerts_def)
qed

end

subsection \<open>All actions\<close>

lemma change_of_contract: "change_of action = Inr change \<Longrightarrow> alert_change change (settles action) (action_fits action)"
proof (cases action)
  case (Acknowledge b)
  assume "change_of action = Inr change"
  with Acknowledge ack.alert_change_axioms [of b] show ?thesis
    by (simp add: change_of_def settles_def [abs_def] action_fits_def)
next
  case (Assign who)
  assume "change_of action = Inr change"
  with Assign assign.alert_change_axioms [of "TrimSpace who"] show ?thesis
    by (auto simp: change_of_def settles_def [abs_def] action_fits_def validAssignee_def Let_def split: if_splits)
next
  case (Annotate body)
  assume "change_of action = Inr change"
  with Annotate annotate.alert_change_axioms [of "TrimSpace body"] show ?thesis
    by (auto simp: change_of_def settles_def [abs_def] action_fits_def validNoteBody_def Let_def split: if_splits)
next
  case (Close b)
  assume "change_of action = Inr change"
  with Close shut.alert_change_axioms [of b] show ?thesis
    by (simp add: change_of_def settles_def [abs_def] action_fits_def)
qed

lemma applied_ids_snoc:
  "applied_ids pgrx caller idle s [] = []"
  "applied_ids pgrx caller idle s (ids @ [i]) =
     (if verdict pgrx caller idle s i = BulkApplied then applied_ids pgrx caller idle s ids @ [i] else applied_ids pgrx caller idle s ids)"
  by (simp_all add: applied_ids_def)

lemma applied_ids_subset: "i \<notin> set ids \<Longrightarrow> i \<notin> set (applied_ids pgrx caller idle s ids)"
  by (simp add: applied_ids_def)

lemma with_rows_empty [simp]: "with_rows {} target rows = rows"
  by (simp add: with_rows_def)

lemma find_SomeD: "find P xs = Some x \<Longrightarrow> x \<in> set xs \<and> P x"
  by (induction xs) (auto split: if_splits)

lemma find_row:
  assumes "db_ok s" "a \<in> set (alert_rows s)" "ID a = i"
  shows "find (\<lambda>r. ID r = i) (alert_rows s) = Some a"
proof (cases "find (\<lambda>r. ID r = i) (alert_rows s)")
  case None
  then show ?thesis using assms(2,3) by (simp add: find_None_iff)
next
  case (Some r)
  note r = find_SomeD [OF Some]
  then have "r = a" using row_by_id [OF db_okD(2) [OF assms(1)] conjunct1 [OF r] assms(2)] assms(3) by simp
  then show ?thesis using Some by simp
qed

lemma verdict_found:
  assumes "db_ok s" "a \<in> set (alert_rows s)" "ID a = i"
  shows "verdict pgrx caller idle s i =
    (if \<not> sql_can_operate pgrx caller (Labels a) then BulkNotFound else if idle a then BulkUnchanged else BulkApplied)"
  by (simp add: verdict_def find_row [OF assms])

lemma verdict_reach:
  assumes ok: "db_ok s"
  shows "verdict pgrx caller idle s i = BulkNotFound \<longleftrightarrow> \<not> in_reach pgrx caller i s"
proof (cases "\<exists>r \<in> set (alert_rows s). ID r = i")
  case True
  then obtain r where r: "r \<in> set (alert_rows s)" "ID r = i" by blast
  have "in_reach pgrx caller i s \<longleftrightarrow> sql_can_operate pgrx caller (Labels r)"
    unfolding in_reach_def using r row_by_id [OF db_okD(2) [OF ok] _ r(1)] by metis
  then show ?thesis using verdict_found [OF ok r, of pgrx caller idle] by simp
next
  case False
  then have "find (\<lambda>r. ID r = i) (alert_rows s) = None" by (auto simp: find_None_iff)
  then show ?thesis using False by (auto simp: verdict_def in_reach_def)
qed

context exact_change
begin

lemma target_simps [simp]:
  "ID (target actor now r) = ID r" "Labels (target actor now r) = Labels r" "Occurrence (target actor now r) = Occurrence r"
  using reported_eqD [OF target_reported] by simp_all

text \<open>The row at an id that was not handled yet is the row before the loop.\<close>

lemma find_with_rows: "i \<notin> A \<Longrightarrow> find (\<lambda>r. ID r = i) (with_rows A (target actor now) rows) = find (\<lambda>r. ID r = i) rows"
  by (induction rows) (auto simp: with_rows_def)

lemma upd_with_rows:
  "i \<notin> A \<Longrightarrow> upd_where (\<lambda>r. ID r = i) (target actor now) (with_rows A (target actor now) rows) =
     with_rows (insert i A) (target actor now) rows"
  by (induction rows) (auto simp: upd_where_def with_rows_def)

lemma find_result:
  assumes "bulk_result pgrx caller idle (target actor now) recorded said now s ids t" "i \<notin> set ids"
  shows "find (\<lambda>r. ID r = i) (alert_rows t) = find (\<lambda>r. ID r = i) (alert_rows s)"
  using assms(1) find_with_rows [OF applied_ids_subset [OF assms(2)]] by (simp add: bulk_result_def Let_def)

text \<open>Acting on an alert that was not handled yet.\<close>

lemma act_result:
  assumes "db_ok s" "db_ok t" "bulk_result pgrx caller idle (target (operatorName caller) now) recorded said now s ids t" "i \<notin> set ids"
    "lock_alert pgrx caller i t = Inr a" "change a (operatorName caller) now t = Inr (t1, how)"
    "(case how of None \<Rightarrow> Inr t1 | Some (h, m, ty) \<Rightarrow> record_action a h m ty (operatorName caller) now t1) = Inr t'"
  shows "verdict pgrx caller idle s i = (case how of None \<Rightarrow> BulkUnchanged | Some e \<Rightarrow> BulkApplied)"
    "bulk_result pgrx caller idle (target (operatorName caller) now) recorded said now s (ids @ [i]) t'"
proof -
  let ?actor = "operatorName caller"
  note a = lock_alert_Inr [OF assms(5)]
  have found: "find (\<lambda>r. ID r = i) (alert_rows s) = find (\<lambda>r. ID r = i) (alert_rows t)" using find_result [OF assms(3,4)] by simp
  have v: "verdict pgrx caller idle s i = (if idle a then BulkUnchanged else BulkApplied)"
    using verdict_found [OF assms(2) a(1,2), of pgrx caller] a(3) by (simp add: verdict_def found)
  have mem: "a \<in> set (alert_rows s)" using find_row [OF assms(2) a(1,2)] found find_SomeD by fastforce
  have occ: "Occurrence a = occurrence_of s i" using occurrence_member [OF assms(1) mem] a(2) by simp
  show "verdict pgrx caller idle s i = (case how of None \<Rightarrow> BulkUnchanged | Some e \<Rightarrow> BulkApplied)"
    using v idle_exact [OF _ assms(6)] change_exact [OF _ assms(6)] by (cases "idle a") auto
  show "bulk_result pgrx caller idle (target ?actor now) recorded said now s (ids @ [i]) t'"
  proof (cases "idle a")
    case True
    then have "t' = t" using idle_exact [OF True assms(6)] unchanged assms(6,7) by auto
    then show ?thesis using assms(3) v True by (simp add: bulk_result_def Let_def applied_ids_snoc)
  next
    case False
    obtain h m ty where rec: "recorded = (h, m, ty)" by (cases recorded)
    note ch = change_exact [OF False assms(6)]
    have r: "record_action a h m ty ?actor now t1 = Inr t'" using assms(7) ch rec by simp
    note facts = record_action_facts [OF r] logs [OF assms(6)]
    note old = assms(3) [unfolded bulk_result_def Let_def]
    have ap: "applied_ids pgrx caller idle s (ids @ [i]) = applied_ids pgrx caller idle s ids @ [i]"
      using v False by (simp add: applied_ids_snoc)
    have rows: "alert_rows t' = with_rows (set (applied_ids pgrx caller idle s (ids @ [i]))) (target ?actor now) (alert_rows s)"
      using upd_with_rows [OF applied_ids_subset [OF assms(4)]] old ch facts(1) a(2) by (simp add: ap)
    have said': "map note_facts (alert_notes t') = map note_facts (alert_notes s) @
        (case said of None \<Rightarrow> [] | Some body \<Rightarrow> map (\<lambda>i. (i, occurrence_of s i, ?actor, body, now)) (applied_ids pgrx caller idle s (ids @ [i])))"
      using old ch facts(2) a(2) occ by (cases said) (simp_all add: ap)
    have "map history_facts (alert_history t') = map history_facts (alert_history s) @
        map (\<lambda>i. (i, fst recorded, fst (snd recorded), ?actor, now)) (applied_ids pgrx caller idle s (ids @ [i]))"
      "map event_facts (stream_events t') = map event_facts (stream_events s) @
        map (\<lambda>i. (i, snd (snd recorded), now)) (applied_ids pgrx caller idle s (ids @ [i]))"
      using old facts a(2) by (simp_all add: ap rec)
    with rows said' show ?thesis unfolding bulk_result_def Let_def by blast
  qed
qed

lemma exact_step:
  assumes "db_ok s" "db_ok t" "seen = remdups (rev ids)"
    "bulk_result pgrx caller idle (target (operatorName caller) now) recorded said now s (rev seen) t"
    "outcomes = map (\<lambda>i. \<lparr>outcome_ID = i, outcome_Status = verdict pgrx caller idle s i\<rparr>) (rev seen)"
    "apply_one pgrx caller change now i (t, seen, outcomes) = Inr (t', seen', outcomes')"
  shows "db_ok t'" "seen' = remdups (rev (ids @ [i]))"
    "bulk_result pgrx caller idle (target (operatorName caller) now) recorded said now s (rev seen') t'"
    "outcomes' = map (\<lambda>i. \<lparr>outcome_ID = i, outcome_Status = verdict pgrx caller idle s i\<rparr>) (rev seen')"
proof -
  have "db_ok t' \<and> seen' = remdups (rev (ids @ [i])) \<and>
    bulk_result pgrx caller idle (target (operatorName caller) now) recorded said now s (rev seen') t' \<and>
    outcomes' = map (\<lambda>i. \<lparr>outcome_ID = i, outcome_Status = verdict pgrx caller idle s i\<rparr>) (rev seen')"
  proof (cases "i \<in> set seen")
    case True
    then have "(t', seen', outcomes') = (t, seen, outcomes)" using assms(6) by (simp add: apply_one_def Let_def)
    moreover have "remdups (rev (ids @ [i])) = seen" using True assms(3) by simp
    ultimately show ?thesis using assms(2,4,5) by simp
  next
    case False
    have out: "i \<notin> set ids" using False assms(3) by simp
    show ?thesis
    proof (cases "lock_alert pgrx caller i t")
      case (Inl e)
      then have e: "e = ErrNotFound" using False assms(6) by (simp add: apply_one_def Let_def split: if_splits)
      have "\<not> in_reach pgrx caller i t" using Inl e lock_alert_NotFound [OF assms(2)] by simp
      then have "verdict pgrx caller idle t i = BulkNotFound" using verdict_reach [OF assms(2)] by simp
      then have v: "verdict pgrx caller idle s i = BulkNotFound"
        using find_result [OF assms(4)] False by (simp add: verdict_def)
      have "(t', seen', outcomes') = (t, i # seen, outcomes @ [\<lparr>outcome_ID = i, outcome_Status = BulkNotFound\<rparr>])"
        using Inl e False assms(6) by (simp add: apply_one_def Let_def)
      then show ?thesis using assms(2-5) v out False by (simp add: bulk_result_def Let_def applied_ids_snoc)
    next
      case (Inr a)
      obtain t1 how where ch: "change a (operatorName caller) now t = Inr (t1, how)"
        using Inr False assms(6) by (auto simp: apply_one_def Let_def bind_res_Inr)
      have rest: "(case how of None \<Rightarrow> Inr t1 | Some (h, m, ty) \<Rightarrow> record_action a h m ty (operatorName caller) now t1) = Inr t'"
        and seen': "seen' = i # seen"
        and o': "outcomes' = outcomes @ [\<lparr>outcome_ID = i, outcome_Status = (case how of None \<Rightarrow> BulkUnchanged | Some e \<Rightarrow> BulkApplied)\<rparr>]"
        using Inr ch False assms(6) by (auto simp: apply_one_def Let_def bind_res_Inr split: option.splits prod.splits)
      have act: "act_one pgrx caller change now i t = Inr t'" using Inr ch rest by (simp add: act_one_def)
      have "i \<notin> set (rev seen)" using False by simp
      note result = act_result [OF assms(1,2,4) this Inr ch rest]
      show ?thesis using act_one_keeps(1) [OF assms(2) act] result seen' o' assms(3,5) out by simp
    qed
  qed
  then show "db_ok t'" "seen' = remdups (rev (ids @ [i]))"
    "bulk_result pgrx caller idle (target (operatorName caller) now) recorded said now s (rev seen') t'"
    "outcomes' = map (\<lambda>i. \<lparr>outcome_ID = i, outcome_Status = verdict pgrx caller idle s i\<rparr>) (rev seen')" by blast+
qed

lemma exact_fold:
  assumes "db_ok s" "fold_res (apply_one pgrx caller change now) ids (s, [], []) = Inr (t, seen, outcomes)"
  shows "db_ok t \<and> seen = remdups (rev ids) \<and>
    bulk_result pgrx caller idle (target (operatorName caller) now) recorded said now s (rev seen) t \<and>
    outcomes = map (\<lambda>i. \<lparr>outcome_ID = i, outcome_Status = verdict pgrx caller idle s i\<rparr>) (rev seen)"
  using assms(2)
proof (induction ids arbitrary: t seen outcomes rule: rev_induct)
  case Nil
  then show ?case using assms(1) by (auto simp: bulk_result_def Let_def applied_ids_snoc split: option.splits)
next
  case (snoc i ids)
  then obtain t1 seen1 outcomes1 where f: "fold_res (apply_one pgrx caller change now) ids (s, [], []) = Inr (t1, seen1, outcomes1)"
    and one: "apply_one pgrx caller change now i (t1, seen1, outcomes1) = Inr (t, seen, outcomes)"
    by (auto simp: fold_res_append bind_res_Inr)
  from snoc.IH [OF f] have prev: "db_ok t1" "seen1 = remdups (rev ids)"
    "bulk_result pgrx caller idle (target (operatorName caller) now) recorded said now s (rev seen1) t1"
    "outcomes1 = map (\<lambda>i. \<lparr>outcome_ID = i, outcome_Status = verdict pgrx caller idle s i\<rparr>) (rev seen1)"
    by blast+
  show ?case using exact_step [OF assms(1) prev one] by blast
qed

end

lemma asked_rows:
  "asked_row (Acknowledge b) actor now = set_acknowledged b now actor"
  "asked_row (Assign who) actor now = set_assigned (TrimSpace who) now actor"
  "asked_row (Close b) actor now = set_closed b now actor"
  "asked_row (Annotate body) actor now = id"
  by (auto simp: fun_eq_iff asked_row_def set_acknowledged_def set_assigned_def set_closed_def)

lemma change_of_exact:
  assumes "change_of action = Inr change"
  shows "exact_change change (settles action) (action_fits action) (as_asked action) (asked_row action) (asked_record action) (asked_note action)"
proof (rule exact_change.intro [OF change_of_contract [OF assms] exact_change_axioms.intro])
  fix actor now r
  show "reported (asked_row action actor now r) = reported r"
    by (cases action) (simp_all add: asked_row_def reported_def)
next
  fix a actor now s s' how
  assume "as_asked action a" "change a actor now s = Inr (s', how)"
  with assms show "how = None"
    by (cases action) (auto simp: change_of_def as_asked_def acknowledge_change_def assign_change_def close_change_def
        validAssignee_def Let_def split: if_splits)
next
  fix a actor now s s' how
  assume busy: "\<not> as_asked action a" and run: "change a actor now s = Inr (s', how)"
  show "how = Some (asked_record action) \<and> alert_rows s' = upd_where (\<lambda>r. ID r = ID a) (asked_row action actor now) (alert_rows s) \<and>
      map note_facts (alert_notes s') = map note_facts (alert_notes s) @
        (case asked_note action of None \<Rightarrow> [] | Some body \<Rightarrow> [(ID a, Occurrence a, actor, body, now)])"
  proof (cases action)
    case (Acknowledge b)
    then have c: "change = acknowledge_change b" "Acknowledged a \<noteq> b" using assms busy by (auto simp: change_of_def as_asked_def)
    then obtain "update_by_id [actor] (ID a) (set_acknowledged b now actor) s = Inr s'" "how = Some (asked_record action)"
      using run Acknowledge by (auto simp: acknowledge_change_def bind_res_Inr asked_record_def)
    then show ?thesis using update_by_id_Inr [of "[actor]" "ID a" "set_acknowledged b now actor" s s'] Acknowledge
      by (auto simp: asked_note_def asked_rows)
  next
    case (Assign who)
    then have c: "change = assign_change (TrimSpace who)" "AssignedTo a \<noteq> TrimSpace who"
      using assms busy by (auto simp: change_of_def as_asked_def validAssignee_def Let_def split: if_splits)
    then obtain "update_by_id [TrimSpace who, actor] (ID a) (set_assigned (TrimSpace who) now actor) s = Inr s'" "how = Some (asked_record action)"
      using run Assign by (auto simp: assign_change_def bind_res_Inr asked_record_def)
    then show ?thesis using update_by_id_Inr [of "[TrimSpace who, actor]" "ID a" "set_assigned (TrimSpace who) now actor" s s'] Assign
      by (auto simp: asked_note_def asked_rows)
  next
    case (Annotate body)
    then have "change = note_change (TrimSpace body)"
      using assms by (auto simp: change_of_def validNoteBody_def Let_def split: if_splits)
    then show ?thesis using run Annotate upd_where_none [of "ID a" "alert_rows s"]
      by (auto simp: note_change_Inr insert_note_Inr asked_record_def asked_note_def asked_rows note_facts_def)
  next
    case (Close b)
    then have c: "change = close_change b" "Closed a \<noteq> b" using assms busy by (auto simp: change_of_def as_asked_def)
    then obtain "update_by_id [actor] (ID a) (set_closed b now actor) s = Inr s'" "how = Some (asked_record action)"
      using run Close by (auto simp: close_change_def bind_res_Inr asked_record_def)
    then show ?thesis using update_by_id_Inr [of "[actor]" "ID a" "set_closed b now actor" s s'] Close
      by (auto simp: asked_note_def asked_rows)
  qed
qed

interpretation exact_ack: exact_change "acknowledge_change b" "settles (Acknowledge b)" "action_fits (Acknowledge b)"
    "as_asked (Acknowledge b)" "asked_row (Acknowledge b)" "asked_record (Acknowledge b)" "asked_note (Acknowledge b)" for b
  by (rule change_of_exact) (simp add: change_of_def)

interpretation exact_shut: exact_change "close_change b" "settles (Close b)" "action_fits (Close b)"
    "as_asked (Close b)" "asked_row (Close b)" "asked_record (Close b)" "asked_note (Close b)" for b
  by (rule change_of_exact) (simp add: change_of_def)

lemma act_one_eq:
  assumes "\<And>a. lock_alert pgrx caller i s = Inr a \<Longrightarrow>
    body a = bind_res (change a (operatorName caller) now s)
      (\<lambda>(s1, how). case how of None \<Rightarrow> Inr s1
         | Some (h, m, t) \<Rightarrow> record_action a h m t (operatorName caller) now s1)"
  shows "bind_res (lock_alert pgrx caller i s) body = act_one pgrx caller change now i s"
  using assms by (cases "lock_alert pgrx caller i s") (auto simp: act_one_def)

lemma bind_res_assoc: "bind_res (bind_res r f) g = bind_res r (\<lambda>x. bind_res (f x) g)"
  by (cases r) auto

text \<open>A single action is the change of the bulk form applied to one alert, then the read.\<close>

lemma single_actions_act:
  assumes "CanOperate caller"
  shows "AcknowledgeAlert pgrx caller i b now s =
      commit_and_read pgrx caller i s (act_one pgrx caller (acknowledge_change b) now i s)"
    "CloseAlert pgrx caller i b now s =
      commit_and_read pgrx caller i s (act_one pgrx caller (close_change b) now i s)"
    "AssignAlert pgrx caller i who now s =
      (case validAssignee who of Inl e \<Rightarrow> (s, Inl e)
       | Inr w \<Rightarrow> commit_and_read pgrx caller i s (act_one pgrx caller (assign_change w) now i s))"
    "AddNote pgrx caller i body now s =
      (case validNoteBody body of Inl e \<Rightarrow> (s, Inl e)
       | Inr w \<Rightarrow> commit_and_read pgrx caller i s (act_one pgrx caller (note_change w) now i s))"
proof -
  have e: "(if \<not> CanOperate caller then x else y) = y" for x y :: "db \<times> (db_error + Detail)"
    using assms by simp
  show "AcknowledgeAlert pgrx caller i b now s =
      commit_and_read pgrx caller i s (act_one pgrx caller (acknowledge_change b) now i s)"
    unfolding AcknowledgeAlert_def Let_def e
    by (rule arg_cong [where f = "commit_and_read pgrx caller i s"], rule act_one_eq)
      (drule lock_alert_Inr(2), auto simp: acknowledge_change_def bind_res_assoc)
  show "CloseAlert pgrx caller i b now s =
      commit_and_read pgrx caller i s (act_one pgrx caller (close_change b) now i s)"
    unfolding CloseAlert_def Let_def e
    by (rule arg_cong [where f = "commit_and_read pgrx caller i s"], rule act_one_eq)
      (drule lock_alert_Inr(2), auto simp: close_change_def bind_res_assoc)
  have assign: "bind_res (lock_alert pgrx caller i s)
      (\<lambda>a. if AssignedTo a = w then Inr s
           else bind_res (update_by_id [w, operatorName caller] i (set_assigned w now (operatorName caller)) s)
             (record_action a (if w = '''' then ''alert.unassigned'' else ''alert.assigned'')
                (if w = '''' then ''Assignment cleared'' else ''Assigned to '' @ w)
                ''alert.updated'' (operatorName caller) now)) = act_one pgrx caller (assign_change w) now i s" for w
    by (rule act_one_eq) (drule lock_alert_Inr(2), auto simp: assign_change_def bind_res_assoc)
  show "AssignAlert pgrx caller i who now s =
      (case validAssignee who of Inl e \<Rightarrow> (s, Inl e)
       | Inr w \<Rightarrow> commit_and_read pgrx caller i s (act_one pgrx caller (assign_change w) now i s))"
    unfolding AssignAlert_def Let_def e assign ..
  have noted: "bind_res (lock_alert pgrx caller i s)
      (\<lambda>a. bind_res (insert_note i (Occurrence a) (operatorName caller) w now s)
         (record_action a ''alert.note'' ''Note added'' ''alert.updated'' (operatorName caller) now)) =
      act_one pgrx caller (note_change w) now i s" for w
    by (rule act_one_eq) (drule lock_alert_Inr(2), auto simp: note_change_def bind_res_assoc)
  show "AddNote pgrx caller i body now s =
      (case validNoteBody body of Inl e \<Rightarrow> (s, Inl e)
       | Inr w \<Rightarrow> commit_and_read pgrx caller i s (act_one pgrx caller (note_change w) now i s))"
    unfolding AddNote_def Let_def e noted ..
qed

lemma single_action_act:
  assumes "CanOperate caller"
  shows "single_action pgrx caller i action now s =
    (case change_of action of
       Inl e \<Rightarrow> (s, Inl e)
     | Inr change \<Rightarrow> commit_and_read pgrx caller i s (act_one pgrx caller change now i s))"
  by (cases action)
    (auto simp: single_action_def change_of_def single_actions_act [OF assms] bind_res_def split: sum.splits)

lemma single_action_refused: "\<not> CanOperate caller \<Longrightarrow> single_action pgrx caller i action now s = (s, Inl ErrNotFound)"
  by (cases action)
    (simp_all add: single_action_def AcknowledgeAlert_def AssignAlert_def AddNote_def CloseAlert_def)

lemma bulk_action_apply:
  "bulk_action pgrx caller ids action now s =
     (case change_of action of Inl e \<Rightarrow> Inl e | Inr change \<Rightarrow> applyToAlerts pgrx caller ids change now s)"
  by (cases action)
    (auto simp: bulk_action_def change_of_def BulkAcknowledge_def BulkAssign_def BulkNote_def BulkClose_def
      bind_res_def split: sum.splits)

lemma commit_and_read_state: "fst (commit_and_read pgrx caller i s tx) = (case tx of Inl e \<Rightarrow> s | Inr s' \<Rightarrow> s')"
  by (cases tx) (simp_all add: commit_and_read_def)

lemma single_action_state:
  obtains (nothing) "fst (single_action pgrx caller i action now s) = s"
  | (acted) change s' where "CanOperate caller" "change_of action = Inr change"
      "act_one pgrx caller change now i s = Inr s'" "fst (single_action pgrx caller i action now s) = s'"
proof (cases "CanOperate caller")
  case False
  show ?thesis by (rule nothing) (simp add: single_action_refused [OF False])
next
  case True
  show ?thesis
  proof (cases "change_of action")
    case (Inl e)
    show ?thesis by (rule nothing) (simp add: single_action_act [OF True] Inl)
  next
    case (Inr change)
    show ?thesis
    proof (cases "act_one pgrx caller change now i s")
      case e: (Inl e)
      show ?thesis by (rule nothing) (simp add: single_action_act [OF True] Inr e commit_and_read_state)
    next
      case s': (Inr s')
      show ?thesis
        by (rule acted [OF True Inr s']) (simp add: single_action_act [OF True] Inr s' commit_and_read_state)
    qed
  qed
qed

lemma single_action_ok [keeps]:
  assumes "db_ok s"
  shows "db_ok (fst (single_action pgrx caller i action now s))"
    "untouched pgrx caller {i} s (fst (single_action pgrx caller i action now s))"
proof -
  have "db_ok (fst (single_action pgrx caller i action now s)) \<and>
      untouched pgrx caller {i} s (fst (single_action pgrx caller i action now s))"
  proof (cases rule: single_action_state [of pgrx caller i action now s])
    case nothing
    with assms show ?thesis by (simp add: untouched_refl)
  next
    case (acted change s')
    from alert_change.act_one_keeps(1,2) [OF change_of_contract [OF acted(2)] assms acted(3)] acted(4)
    show ?thesis by simp
  qed
  then show "db_ok (fst (single_action pgrx caller i action now s))"
    "untouched pgrx caller {i} s (fst (single_action pgrx caller i action now s))" by simp_all
qed

lemma bulk_action_ok [keeps]: "db_ok s \<Longrightarrow> bulk_action pgrx caller ids action now s = Inr (s', outcomes) \<Longrightarrow> db_ok s'"
  by (auto simp: bulk_action_apply split: sum.splits
      dest: alert_change.applyToAlerts_spec(1) [OF change_of_contract])

lemma lock_accepted_clean:
  "known_grants (Grants caller) \<Longrightarrow> lock_accepted caller \<longleftrightarrow> clean_grants operates (Grants caller)"
  using operateAccessCondition_accepted [of caller "[ArgInt 0]" ColLabels] by (simp add: lock_accepted_def)

lemma in_reach_CanOperate: "in_reach pgrx caller i s \<Longrightarrow> CanOperate caller"
  using sql_access.operate_imp_CanOperate by (auto simp: in_reach_def)

lemma applyToAlerts_single:
  assumes "db_ok s" "CanOperate caller"
  shows "(case applyToAlerts pgrx caller [i] change now s of Inl e \<Rightarrow> s | Inr (s', outcomes) \<Rightarrow> s') =
    (case act_one pgrx caller change now i s of Inl e \<Rightarrow> s | Inr s' \<Rightarrow> s')"
proof (cases "lock_alert pgrx caller i s")
  case (Inl e)
  then show ?thesis
    using assms(2)
    by (auto simp: applyToAlerts_def act_one_def apply_one_def Let_def maxBulkAlerts_def)
next
  case (Inr a)
  show ?thesis
  proof (cases "change a (operatorName caller) now s")
    case e: (Inl e)
    with Inr assms(2) show ?thesis
      by (simp add: applyToAlerts_def act_one_def apply_one_def Let_def maxBulkAlerts_def)
  next
    case ch: (Inr p)
    obtain s1 how where p: "p = (s1, how)" by (cases p)
    with Inr ch assms(2) show ?thesis
      by (cases how)
        (auto simp: applyToAlerts_def act_one_def apply_one_def Let_def maxBulkAlerts_def bind_res_def
          split: sum.splits)
  qed
qed

lemma action_commits:
  assumes "db_ok s" "in_reach pgrx caller i s" "change_of action = Inr change" "action_fits action"
    "known_grants (Grants caller)" "clean_grants operates (Grants caller)"
    "clean_grants reads (Grants caller)" "text_ok (operatorName caller)"
  shows "\<exists>d. snd (single_action pgrx caller i action now s) = Inr d \<and>
    settles action (alert_row.truncate (detail_Alert d)) \<and> ID (detail_Alert d) = i"
proof -
  note contract = change_of_contract [OF assms(3)]
  have lock: "lock_accepted caller" using lock_accepted_clean [OF assms(5)] assms(6) by simp
  obtain s' where s': "act_one pgrx caller change now i s = Inr s'"
    using alert_change.act_one_total [OF contract assms(4,1) lock assms(2,8)] by blast
  note k = alert_change.act_one_keeps [OF contract assms(1) s']
  have "in_reach pgrx caller i s'"
    using assms(2) k(2) in_reach_reported [of s' s] by (simp add: untouched_def)
  then obtain r where r: "r \<in> set (alert_rows s')" "ID r = i" "sql_can_operate pgrx caller (Labels r)"
    by (auto simp: in_reach_def)
  have "statement_ok {1} (fst (readAccessCondition caller ColLabels [ArgInt i]))
      (snd (readAccessCondition caller ColLabels [ArgInt i]))"
    using readAccessCondition_accepted [OF assms(5), of "[ArgInt i]" ColLabels] assms(7) by simp
  then obtain d where d: "GetAlertDetail pgrx caller i s' = Inr d" "alert_row.truncate (detail_Alert d) = r"
    using GetAlertDetail_total [OF db_okD(2) [OF k(1)] _ r(1,2)] sql_access.operate_imp_read [OF r(3)] by blast
  have "ID (alert_row.truncate (detail_Alert d)) = ID (detail_Alert d)" by (simp add: alert_row.defs)
  moreover have "snd (single_action pgrx caller i action now s) = Inr d"
    using assms(3) s' d(1)
    by (simp add: single_action_act [OF in_reach_CanOperate [OF assms(2)]] commit_and_read_def)
  ultimately show ?thesis using k(3) [OF r(1,2)] d(2) r(2) by auto
qed

lemma sample_reopens:
  "\<exists>d. snd (single_action (\<lambda>p v. p = v) sample_operator 1 (Close False) 300 sample_db) = Inr d"
proof -
  have "in_reach (\<lambda>p v. p = v) sample_operator 1 sample_db"
    using sample_operator_reach(1) by (auto simp: in_reach_def sample_rows)
  moreover have "change_of (Close False) = Inr (close_change False)" "action_fits (Close False)"
    "text_ok (operatorName sample_operator)"
    by (simp_all add: change_of_def action_fits_def sample_defs operatorName_def)
  ultimately show ?thesis
    using action_commits [OF sample_db_ok _ _ _ sample_operator_known(1) sample_operator_clean(1,2)] by blast
qed

lemma single_action_out_of_reach:
  assumes "db_ok s" "\<not> in_reach pgrx caller i s"
  shows "fst (single_action pgrx caller i action now s) = s"
proof (cases rule: single_action_state [of pgrx caller i action now s])
  case (acted change s')
  with assms(2) alert_change.act_one_keeps(4) [OF change_of_contract assms(1)] show ?thesis by blast
qed

lemma bulk_action_spec:
  assumes "db_ok s" "bulk_action pgrx caller ids action now s = Inr (s', outcomes)"
  shows "outcomes = map (\<lambda>i. \<lparr>outcome_ID = i, outcome_Status = verdict pgrx caller (as_asked action) s i\<rparr>) (rev (remdups (rev ids))) \<and>
    bulk_result pgrx caller (as_asked action) (asked_row action (operatorName caller) now) (asked_record action) (asked_note action)
      now s (rev (remdups (rev ids))) s' \<and>
    (\<forall>o' \<in> set outcomes. outcome_Status o' = BulkNotFound \<longleftrightarrow> \<not> in_reach pgrx caller (outcome_ID o') s) \<and>
    (\<forall>r \<in> set (alert_rows s'). ID r \<in> set ids \<and> sql_can_operate pgrx caller (Labels r) \<longrightarrow> settles action r) \<and>
    db_ok s' \<and> untouched pgrx caller (set ids) s s'"
proof -
  obtain change where ch: "change_of action = Inr change"
    "applyToAlerts pgrx caller ids change now s = Inr (s', outcomes)"
    using assms(2) by (auto simp: bulk_action_apply split: sum.splits)
  then obtain seen where "fold_res (apply_one pgrx caller change now) ids (s, [], []) = Inr (s', seen, outcomes)"
    by (auto simp: applyToAlerts_def bind_res_Inr split: if_splits)
  note exact = exact_change.exact_fold [OF change_of_exact [OF ch(1)] assms(1) this]
  show ?thesis
    using exact alert_change.applyToAlerts_spec [OF change_of_contract [OF ch(1)] assms(1) ch(2)] by blast
qed

section \<open>Properties\<close>

text \<open>C3: a single operator action keeps the invariant of the store, changes no column a source
  reports, and leaves every row alone but the one it names, which it leaves alone too when it is
  outside the caller's operate scope. An action that is refused changes nothing.\<close>

theorem operator_action_scope:
  assumes "db_ok s"
  shows "db_ok (fst (single_action pgrx caller i action now s)) \<and>
    untouched pgrx caller {i} s (fst (single_action pgrx caller i action now s)) \<and>
    (\<not> in_reach pgrx caller i s \<longrightarrow> fst (single_action pgrx caller i action now s) = s)"
  using single_action_ok [OF assms] single_action_out_of_reach [OF assms] by blast

theorem operator_action_scope_witness:
  "untouched (\<lambda>p v. p = v) sample_operator {2} sample_db
     (fst (single_action (\<lambda>p v. p = v) sample_operator 2 (Close False) 300 sample_db)) \<and>
   fst (single_action (\<lambda>p v. p = v) sample_operator 2 (Close False) 300 sample_db) = sample_db"
proof -
  have "\<not> in_reach (\<lambda>p v. p = v) sample_operator 2 sample_db"
    using sample_operator_reach(3) by (auto simp: in_reach_def sample_rows)
  with operator_action_scope [OF sample_db_ok, of "\<lambda>p v. p = v" sample_operator 2 "Close False" 300]
  show ?thesis by blast
qed

text \<open>C4: a bulk action reports exactly one outcome per distinct id, in the order of first mention: \<open>BulkNotFound\<close> when no
  alert with it is in the caller's operate scope, \<open>BulkUnchanged\<close> when the alert already is as asked (never for a note),
  \<open>BulkApplied\<close> otherwise. The alerts reported as applied, and no others, get the columns asked for, one history entry, one
  stream event and, for a note, one note with the trimmed body, the caller and the occurrence, in the order of the ids; nothing
  else is changed.\<close>

theorem bulk_action_outcomes:
  assumes "db_ok s" "bulk_action pgrx caller ids action now s = Inr (s', outcomes)"
  shows "outcomes = map (\<lambda>i. \<lparr>outcome_ID = i, outcome_Status = verdict pgrx caller (as_asked action) s i\<rparr>) (rev (remdups (rev ids))) \<and>
    bulk_result pgrx caller (as_asked action) (asked_row action (operatorName caller) now) (asked_record action) (asked_note action)
      now s (rev (remdups (rev ids))) s' \<and>
    (\<forall>o' \<in> set outcomes. outcome_Status o' = BulkNotFound \<longleftrightarrow> \<not> in_reach pgrx caller (outcome_ID o') s) \<and>
    (\<forall>r \<in> set (alert_rows s'). ID r \<in> set ids \<and> sql_can_operate pgrx caller (Labels r) \<longrightarrow> settles action r) \<and>
    db_ok s' \<and> untouched pgrx caller (set ids) s s'"
  by (rule bulk_action_spec [OF assms])

theorem bulk_action_outcomes_witness:
  "\<exists>s' outcomes.
     bulk_action (\<lambda>p v. p = v) sample_operator [1, 2, 1] (Annotate '' looking '') 300 sample_db = Inr (s', outcomes) \<and>
     outcomes = [\<lparr>outcome_ID = 1, outcome_Status = BulkApplied\<rparr>, \<lparr>outcome_ID = 2, outcome_Status = BulkNotFound\<rparr>] \<and>
     map note_facts (alert_notes s') = map note_facts (alert_notes sample_db) @
       [(1, occurrence_of sample_db 1, operatorName sample_operator, ''looking'', 300)]"
proof -
  have "lock_accepted sample_operator"
    using lock_accepted_clean [OF sample_operator_known(1)] sample_operator_clean(1) by simp
  moreover have "text_ok (operatorName sample_operator)" "CanOperate sample_operator"
    by (simp_all add: sample_defs operatorName_def CanOperate_def)
  ultimately obtain s' outcomes where
    a: "applyToAlerts (\<lambda>p v. p = v) sample_operator [1, 2, 1] (note_change ''looking'') 300 sample_db = Inr (s', outcomes)"
    using annotate.applyToAlerts_total [OF _ _ _ sample_db_ok, of "''looking''" sample_operator "[1, 2, 1]" "\<lambda>p v. p = v" 300]
    by (auto simp: maxBulkAlerts_def)
  have trim: "TrimSpace '' looking '' = ''looking''" by code_simp
  have b: "bulk_action (\<lambda>p v. p = v) sample_operator [1, 2, 1] (Annotate '' looking '') 300 sample_db = Inr (s', outcomes)"
    using a by (simp add: bulk_action_def BulkNote_def validNoteBody_def trim maxNoteLength_def)
  have "verdict (\<lambda>p v. p = v) sample_operator (as_asked (Annotate '' looking '')) sample_db 1 = BulkApplied"
    "verdict (\<lambda>p v. p = v) sample_operator (as_asked (Annotate '' looking '')) sample_db 2 = BulkNotFound"
    using sample_operator_reach by (simp_all add: verdict_def sample_rows as_asked_def sample_defs)
  with bulk_action_outcomes [OF sample_db_ok b] b show ?thesis
    by (simp add: bulk_result_def Let_def applied_ids_def asked_note_def trim)
qed

text \<open>The single form of an action leaves the store exactly as the bulk form applied to
  the selection of that one alert does.\<close>

theorem single_is_bulk_of_one:
  assumes "db_ok s"
  shows "fst (single_action pgrx caller i action now s) =
    (case bulk_action pgrx caller [i] action now s of Inl e \<Rightarrow> s | Inr (s', outcomes) \<Rightarrow> s')"
proof (cases "CanOperate caller")
  case True
  show ?thesis
    using applyToAlerts_single [OF assms True, of pgrx i]
    by (cases "change_of action")
      (simp_all add: single_action_act [OF True] bulk_action_apply commit_and_read_state)
next
  case False
  then show ?thesis
    by (cases "change_of action") (simp_all add: single_action_refused bulk_action_apply applyToAlerts_def)
qed

theorem single_is_bulk_of_one_witness:
  "fst (single_action (\<lambda>p v. p = v) sample_operator 1 (Assign ''carol'') 300 sample_db) =
     (case bulk_action (\<lambda>p v. p = v) sample_operator [1] (Assign ''carol'') 300 sample_db of
        Inl e \<Rightarrow> sample_db | Inr (s', outcomes) \<Rightarrow> s')"
  by (rule single_is_bulk_of_one [OF sample_db_ok])

text \<open>An action on an alert in scope is committed and returns that alert as asked, whatever
  state the row was in: no check constraint stands in the way. The access conditions must be
  ones the server accepts, and the texts storable.\<close>

theorem operator_action_commits:
  assumes "db_ok s" "in_reach pgrx caller i s" "change_of action = Inr change" "action_fits action"
    "known_grants (Grants caller)" "clean_grants operates (Grants caller)"
    "clean_grants reads (Grants caller)" "text_ok (operatorName caller)"
  shows "\<exists>d. snd (single_action pgrx caller i action now s) = Inr d \<and>
    settles action (alert_row.truncate (detail_Alert d)) \<and> ID (detail_Alert d) = i"
  by (rule action_commits [OF assms])

theorem operator_action_commits_witness:
  "\<exists>d. snd (single_action (\<lambda>p v. p = v) sample_operator 1 (Close False) 300 sample_db) = Inr d \<and>
     settles (Close False) (alert_row.truncate (detail_Alert d)) \<and> ID (detail_Alert d) = 1"
proof (rule operator_action_commits [OF sample_db_ok _ _ _ sample_operator_known(1) sample_operator_clean(1,2)])
  show "in_reach (\<lambda>p v. p = v) sample_operator 1 sample_db"
    using sample_operator_reach(1) by (auto simp: in_reach_def sample_rows)
  show "change_of (Close False) = Inr (close_change False)" by (simp add: change_of_def)
  show "action_fits (Close False)" by (simp add: action_fits_def)
  show "text_ok (operatorName sample_operator)" by (simp add: sample_defs operatorName_def)
qed

text \<open>Repeating an action that sets a state, after it succeeded, changes nothing: no second
  history entry, no second stream event, and the timestamp and actor of the first one stay.\<close>

theorem operator_action_idempotent:
  assumes "db_ok s" "\<forall>body. action \<noteq> Annotate body" "snd (single_action pgrx caller i action now s) = Inr d"
  shows "fst (single_action pgrx caller i action later (fst (single_action pgrx caller i action now s))) =
    fst (single_action pgrx caller i action now s)"
proof -
  have can: "CanOperate caller" using assms(3) single_action_refused by fastforce
  obtain change s' where ch: "change_of action = Inr change" and act: "act_one pgrx caller change now i s = Inr s'"
    using assms(3) by (auto simp: single_action_act [OF can] commit_and_read_def split: sum.splits)
  note k = alert_change.act_one_keeps [OF change_of_contract [OF ch] assms(1) act]
  have "act_one pgrx caller change later i s' = Inr s' \<or> (\<exists>e. act_one pgrx caller change later i s' = Inl e)"
  proof (cases "lock_alert pgrx caller i s'")
    case (Inr a)
    with k(3) lock_alert_Inr [OF Inr] have "settles action a" by blast
    with Inr ch assms(2) show ?thesis
      by (cases action)
        (auto simp: act_one_def change_of_def settles_def change_eqs column_change_def validAssignee_def Let_def
          split: if_splits)
  qed (simp add: act_one_def)
  then show ?thesis
    using ch act by (auto simp: single_action_act [OF can] commit_and_read_state)
qed

theorem operator_action_idempotent_witness:
  "fst (single_action (\<lambda>p v. p = v) sample_operator 1 (Close False) 400
     (fst (single_action (\<lambda>p v. p = v) sample_operator 1 (Close False) 300 sample_db))) =
   fst (single_action (\<lambda>p v. p = v) sample_operator 1 (Close False) 300 sample_db)"
proof -
  obtain d where "snd (single_action (\<lambda>p v. p = v) sample_operator 1 (Close False) 300 sample_db) = Inr d"
    using sample_reopens by blast
  then show ?thesis by (intro operator_action_idempotent [OF sample_db_ok]) simp_all
qed

end
