(* ===== verification/Http.thy ===== *)
theory Http
  imports Operators
begin

text \<open>
  Requests and replies of \<open>internal/httpapi\<close>: the authentication wrapper, the gates every
  mutating route shares, integers on the wire, and the parsing of label matchers.

  A request is what \<open>net/http\<close> hands a handler: path values, query values, headers (by
  canonical name), its cookies and the host. A body is what the JSON decoder makes
  of it, with unknown fields refused and the size bounded: it does not decode, it is empty, or a
  value, after which something may follow. A reply is a success with its payload or an error with
  its message, which for some errors is the text of the store's or the payload decoder's error.
\<close>

section \<open>Integers on the wire\<close>

definition int64_range :: "int \<Rightarrow> bool" where
  "int64_range i \<longleftrightarrow> - (2 ^ 63) \<le> i \<and> i < 2 ^ 63"

definition digit_value :: "char \<Rightarrow> int" where
  "digit_value c = int (of_char c) - 48"

definition decimal_value :: "string \<Rightarrow> int" where
  "decimal_value ds = foldl (\<lambda>n c. 10 * n + digit_value c) 0 ds"

text \<open>\<open>strconv.ParseInt(s, 10, 64)\<close>, and \<open>strconv.Atoi\<close> on a 64-bit platform.\<close>

definition ParseInt :: "string \<Rightarrow> int option" where
  "ParseInt s =
     (let (negative, digits) =
        (case s of [] \<Rightarrow> (False, [])
         | c # cs \<Rightarrow> if c = CHR ''+'' then (False, cs) else if c = CHR ''-'' then (True, cs) else (False, s))
      in if digits = [] \<or> \<not> list_all is_digit digits then None
         else let v = (if negative then - decimal_value digits else decimal_value digits)
              in if int64_range v then Some v else None)"

fun format_nat :: "nat \<Rightarrow> string" where
  "format_nat n =
     (if n < 10 then [char_of (48 + n)] else format_nat (n div 10) @ [char_of (48 + n mod 10)])"

declare format_nat.simps [simp del]

definition FormatInt :: "int \<Rightarrow> string" where
  "FormatInt i = (if i < 0 then CHR ''-'' # format_nat (nat (- i)) else format_nat (nat i))"

section \<open>Requests and replies\<close>

record request =
  req_path :: "string \<Rightarrow> string"
  req_query :: "string \<Rightarrow> string list"
  req_header :: "string \<Rightarrow> string"
  req_cookies :: "(string \<times> string) list"
  req_host :: string
  req_principal :: "Principal option"

definition query_get :: "request \<Rightarrow> string \<Rightarrow> string" where
  "query_get r name = (case req_query r name of [] \<Rightarrow> '''' | v # vs \<Rightarrow> v)"

datatype 'b body = BodyInvalid | BodyEmpty | BodyValue 'b bool

datatype reason = Message string | ErrorText db_error | DecodeText decode_error

datatype 'p reply = Reply nat 'p | Fail nat reason

type_synonym failure = "nat \<times> reason"

definition fail :: "failure \<Rightarrow> 'p reply" where
  "fail f = Fail (fst f) (snd f)"

definition server_error :: "string \<Rightarrow> failure" where
  "server_error message = (500, Message message)"

definition requestBearerToken :: "request \<Rightarrow> string" where
  "requestBearerToken r =
     (let header = req_header r ''Authorization''
      in if \<not> starts_with ''Bearer '' header then '''' else TrimSpace (drop 7 header))"

definition SessionCookieName :: string where
  "SessionCookieName = ''promview_session''"

text \<open>\<open>Request.Cookie\<close>: the first cookie of that name.\<close>

definition request_cookie :: "request \<Rightarrow> string \<Rightarrow> string option" where
  "request_cookie r name = map_of (req_cookies r) name"

definition validMutationOrigin :: "(string \<Rightarrow> (string \<times> string) option) \<Rightarrow> request \<Rightarrow> bool" where
  "validMutationOrigin url_parse r =
     (if requestBearerToken r \<noteq> '''' then True
      else if request_cookie r SessionCookieName = None then True
      else (case url_parse (req_header r ''Origin'') of
              None \<Rightarrow> False
            | Some (scheme, host) \<Rightarrow> scheme \<noteq> '''' \<and> host = req_host r))"

datatype auth_error = ErrUnauthenticated | AuthFailed string

definition requireAuthentication ::
  "(request \<Rightarrow> auth_error + Principal) \<Rightarrow> (request \<Rightarrow> 's \<Rightarrow> 's \<times> 'p reply) \<Rightarrow> request \<Rightarrow> 's \<Rightarrow> 's \<times> 'p reply" where
  "requireAuthentication authenticate next r s =
     (case authenticate r of
        Inl ErrUnauthenticated \<Rightarrow> (s, Fail 401 (Message ''authentication required''))
      | Inl (AuthFailed e) \<Rightarrow> (s, fail (server_error ''authentication failed''))
      | Inr caller \<Rightarrow>
          if \<not> CanRead caller then (s, Fail 403 (Message ''read access denied''))
          else next (r\<lparr>req_principal := Some caller\<rparr>) s)"

text \<open>The checks every mutating route does first.\<close>

definition operator_gate :: "(string \<Rightarrow> (string \<times> string) option) \<Rightarrow> request \<Rightarrow> failure + Principal" where
  "operator_gate url_parse r =
     (case req_principal r of
        None \<Rightarrow> Inl (server_error ''principal is unavailable'')
      | Some caller \<Rightarrow>
          if \<not> CanOperate caller then Inl (403, Message ''operator access required'')
          else if \<not> validMutationOrigin url_parse r then Inl (403, Message ''invalid request origin'')
          else Inr caller)"

definition path_id :: "request \<Rightarrow> failure + int" where
  "path_id r =
     (case ParseInt (req_path r ''id'') of
        None \<Rightarrow> Inl (400, Message ''alert id is invalid'')
      | Some i \<Rightarrow> if i < 1 then Inl (400, Message ''alert id is invalid'') else Inr i)"

section \<open>Label matchers of a query\<close>

fun index_of :: "string \<Rightarrow> string \<Rightarrow> nat option" where
  "index_of p [] = (if p = [] then Some 0 else None)"
| "index_of p (c # cs) = (if starts_with p (c # cs) then Some 0 else map_option Suc (index_of p cs))"

definition contains :: "string \<Rightarrow> string \<Rightarrow> bool" where
  "contains s p \<longleftrightarrow> index_of p s \<noteq> None"

definition parseLabelMatcher :: "string \<Rightarrow> string + LabelMatcher" where
  "parseLabelMatcher raw =
     (if contains raw ''=~'' \<or> contains raw ''!~'' then Inl ''match supports only = and !=''
      else
        let (operatorAt, operator) =
              (case index_of ''!='' raw of
                 Some i \<Rightarrow> (Some i, ''!='')
               | None \<Rightarrow> (index_of ''='' raw, ''=''))
        in case operatorAt of
             None \<Rightarrow> Inl ''match must be label=value or label!=value''
           | Some i \<Rightarrow>
               if i < 1 then Inl ''match must be label=value or label!=value''
               else let name = take i raw
                    in if \<not> label_name_pattern name then Inl ''match label is invalid''
                       else Inr \<lparr>matcher_Name = name, matcher_Operator = operator,
                              matcher_Value = drop (i + length operator) raw\<rparr>)"

section \<open>Lemmas\<close>

subsection \<open>Integers\<close>

lemma digit_value_char: "d < 10 \<Longrightarrow> digit_value (char_of (48 + d)) = int d"
  by (simp add: digit_value_def)

lemma is_digit_char: "d < 10 \<Longrightarrow> is_digit (char_of (48 + d))" for d :: nat
  by (simp add: is_digit_def less_eq_char_def)

lemma format_nat_digits: "list_all is_digit (format_nat n) \<and> format_nat n \<noteq> []"
proof (induction n rule: format_nat.induct)
  case (1 n)
  show ?case by (subst (1 2) format_nat.simps) (use 1 is_digit_char in simp)
qed

lemma decimal_value_snoc: "decimal_value (ds @ [c]) = 10 * decimal_value ds + digit_value c"
  by (simp add: decimal_value_def)

lemma decimal_value_format: "decimal_value (format_nat n) = int n"
proof (induction n rule: format_nat.induct)
  case (1 n)
  show ?case
  proof (cases "n < 10")
    case True
    then show ?thesis using digit_value_char by (subst format_nat.simps) (simp add: decimal_value_def)
  next
    case False
    have "decimal_value (format_nat n) = 10 * int (n div 10) + int (n mod 10)"
      using False 1 digit_value_char [of "n mod 10"] by (subst format_nat.simps) (simp add: decimal_value_snoc)
    then show ?thesis by presburger
  qed
qed

lemma digit_not_sign: "is_digit c \<Longrightarrow> c \<noteq> CHR ''+'' \<and> c \<noteq> CHR ''-''"
  by (auto simp: is_digit_def less_eq_char_def)

lemma ParseInt_digits:
  assumes "list_all is_digit ds" "ds \<noteq> []"
  shows "ParseInt ds = (if int64_range (decimal_value ds) then Some (decimal_value ds) else None)"
    "ParseInt (CHR ''-'' # ds) = (if int64_range (- decimal_value ds) then Some (- decimal_value ds) else None)"
proof -
  obtain c cs where ds: "ds = c # cs" using assms(2) by (cases ds) simp_all
  then have "c \<noteq> CHR ''+''" "c \<noteq> CHR ''-''" using assms(1) digit_not_sign by auto
  then show "ParseInt ds = (if int64_range (decimal_value ds) then Some (decimal_value ds) else None)"
    using assms by (simp add: ParseInt_def ds Let_def)
  show "ParseInt (CHR ''-'' # ds) = (if int64_range (- decimal_value ds) then Some (- decimal_value ds) else None)"
    using assms by (simp add: ParseInt_def Let_def)
qed

lemma ParseInt_FormatInt: "ParseInt (FormatInt i) = (if int64_range i then Some i else None)"
proof (cases "i < 0")
  case True
  then show ?thesis
    using ParseInt_digits(2) [of "format_nat (nat (- i))"] format_nat_digits [of "nat (- i)"]
    by (simp add: FormatInt_def decimal_value_format)
next
  case False
  then show ?thesis
    using ParseInt_digits(1) [of "format_nat (nat i)"] format_nat_digits [of "nat i"]
    by (simp add: FormatInt_def decimal_value_format)
qed

lemma ParseInt_range: "ParseInt s = Some i \<Longrightarrow> int64_range i"
  by (auto simp: ParseInt_def Let_def split: list.splits if_splits)

subsection \<open>Matchers\<close>

lemma index_of_skip:
  "a \<notin> set n \<Longrightarrow> index_of (a # p) (n @ s) = map_option ((+) (length n)) (index_of (a # p) s)"
proof (induction n)
  case Nil
  show ?case by (simp add: option.map_ident)
next
  case (Cons c n)
  then have "\<not> starts_with (a # p) (c # n @ s)" by (auto simp: starts_with_def)
  with Cons show ?case by (simp add: option.map_comp o_def)
qed

lemma contains_skip: "a \<notin> set n \<Longrightarrow> contains (n @ s) (a # p) \<longleftrightarrow> contains s (a # p)"
  by (simp add: contains_def index_of_skip)

lemma contains_Cons: "contains (c # s) p \<longleftrightarrow> starts_with p (c # s) \<or> contains s p"
  by (simp add: contains_def)

lemma starts_with_Cons [simp]: "starts_with (a # p) (b # s) \<longleftrightarrow> a = b \<and> starts_with p s" "starts_with [] s"
  by (auto simp: starts_with_def)

lemma label_name_chars:
  assumes "label_name_pattern n"
  shows "n \<noteq> []" "CHR ''='' \<notin> set n" "CHR ''!'' \<notin> set n"
proof -
  have ok: "is_lower c \<or> is_upper c \<or> is_digit c \<or> c = CHR ''_''" if "c \<in> set n" for c
    using assms that by (cases n) (auto simp: list_all_iff)
  show "n \<noteq> []" using assms by auto
  show "CHR ''='' \<notin> set n" "CHR ''!'' \<notin> set n"
    using ok [of "CHR ''=''"] ok [of "CHR ''!''"]
    by (auto simp: is_lower_def is_upper_def is_digit_def less_eq_char_def)
qed

section \<open>Properties\<close>

text \<open>A label matcher written as \<open>name=value\<close> or \<open>name!=value\<close> is read back exactly,
  unless its value contains \<open>=~\<close> or \<open>!~\<close>, starts with \<open>~\<close>, or, for equality, contains
  \<open>!=\<close>: those values cannot be asked for, and a value containing \<open>!=\<close> is never read as an
  equality.\<close>

theorem label_matcher_roundtrip:
  assumes "label_name_pattern n"
  shows "(parseLabelMatcher (n @ ''='' @ v) = Inr \<lparr>matcher_Name = n, matcher_Operator = ''='', matcher_Value = v\<rparr> \<longleftrightarrow>
      \<not> starts_with ''~'' v \<and> \<not> contains v ''=~'' \<and> \<not> contains v ''!~'' \<and> \<not> contains v ''!='') \<and>
    (parseLabelMatcher (n @ ''!='' @ v) = Inr \<lparr>matcher_Name = n, matcher_Operator = ''!='', matcher_Value = v\<rparr> \<longleftrightarrow>
      \<not> starts_with ''~'' v \<and> \<not> contains v ''=~'' \<and> \<not> contains v ''!~'')"
proof
  note n = label_name_chars [OF assms]
  have c: "contains (n @ ''='' @ v) ''=~'' \<longleftrightarrow> starts_with ''~'' v \<or> contains v ''=~''"
    "contains (n @ ''='' @ v) ''!~'' \<longleftrightarrow> contains v ''!~''"
    "contains (n @ ''!='' @ v) ''=~'' \<longleftrightarrow> starts_with ''~'' v \<or> contains v ''=~''"
    "contains (n @ ''!='' @ v) ''!~'' \<longleftrightarrow> contains v ''!~''"
    by (simp_all add: contains_skip n contains_Cons)
  have i: "index_of ''='' (n @ ''='' @ v) = Some (length n)" "index_of ''!='' (n @ ''!='' @ v) = Some (length n)"
    "index_of ''!='' (n @ ''='' @ v) = map_option (\<lambda>k. length n + Suc k) (index_of ''!='' v)"
    by (simp_all add: index_of_skip n option.map_comp o_def)
  show "parseLabelMatcher (n @ ''='' @ v) = Inr \<lparr>matcher_Name = n, matcher_Operator = ''='', matcher_Value = v\<rparr> \<longleftrightarrow>
      \<not> starts_with ''~'' v \<and> \<not> contains v ''=~'' \<and> \<not> contains v ''!~'' \<and> \<not> contains v ''!=''"
  proof (cases "index_of ''!='' v")
    case None
    then have "\<not> contains v ''!=''" by (simp add: contains_def)
    with None show ?thesis using n(1) assms by (simp add: parseLabelMatcher_def c [simplified] i [simplified] Let_def)
  next
    case (Some k)
    then have "contains v ''!=''" by (simp add: contains_def)
    moreover have "parseLabelMatcher (n @ ''='' @ v) \<noteq> Inr \<lparr>matcher_Name = n, matcher_Operator = ''='', matcher_Value = v\<rparr>"
      using Some by (simp add: parseLabelMatcher_def i [simplified] Let_def)
    ultimately show ?thesis by blast
  qed
  show "parseLabelMatcher (n @ ''!='' @ v) = Inr \<lparr>matcher_Name = n, matcher_Operator = ''!='', matcher_Value = v\<rparr> \<longleftrightarrow>
      \<not> starts_with ''~'' v \<and> \<not> contains v ''=~'' \<and> \<not> contains v ''!~''"
    using n(1) assms by (simp add: parseLabelMatcher_def c [simplified] i [simplified] Let_def)
qed

theorem label_matcher_roundtrip_witness:
  "parseLabelMatcher (''path'' @ ''='' @ ''/a'') = Inr \<lparr>matcher_Name = ''path'', matcher_Operator = ''='', matcher_Value = ''/a''\<rparr> \<and>
   parseLabelMatcher (''path'' @ ''='' @ ''a!=b'') \<noteq> Inr \<lparr>matcher_Name = ''path'', matcher_Operator = ''='', matcher_Value = ''a!=b''\<rparr>"
proof -
  have "label_name_pattern ''path''" by (simp add: is_lower_def less_eq_char_def)
  from label_matcher_roundtrip [OF this, of "''/a''"] label_matcher_roundtrip [OF this, of "''a!=b''"]
  show ?thesis by (simp add: contains_def starts_with_def)
qed

end
