(* ===== verification/Passwords.thy ===== *)
theory Passwords
  imports Http
begin

text \<open>
  Password hashing (\<open>internal/auth/password.go\<close>) and the base64 encodings of the standard library
  it and the session tokens use.

  Bytes are characters. \<open>pbkdf2 password salt iterations length\<close> is the key derivation of
  \<open>crypto/pbkdf2\<close> with SHA-256, \<^const>\<open>None\<close> when it fails; a salt is \<^const>\<open>None\<close> when the
  system's randomness fails. \<open>equal_fold\<close> is \<open>strings.EqualFold\<close>.
\<close>

section \<open>Base64\<close>

definition base64_std :: string where
  "base64_std = ''ABCDEFGHIJKLMNOPQRSTUVWXYZabcdefghijklmnopqrstuvwxyz0123456789+/''"

definition base64_url :: string where
  "base64_url = ''ABCDEFGHIJKLMNOPQRSTUVWXYZabcdefghijklmnopqrstuvwxyz0123456789-_''"

definition byte :: "char \<Rightarrow> nat" where
  "byte c = of_char c"

text \<open>\<open>RawStdEncoding\<close> and \<open>RawURLEncoding\<close>: no padding.\<close>

fun base64_encode :: "string \<Rightarrow> string \<Rightarrow> string" where
  "base64_encode alphabet [] = []"
| "base64_encode alphabet [a] =
     [alphabet ! (byte a div 4), alphabet ! (byte a mod 4 * 16)]"
| "base64_encode alphabet [a, b] =
     [alphabet ! (byte a div 4), alphabet ! (byte a mod 4 * 16 + byte b div 16), alphabet ! (byte b mod 16 * 4)]"
| "base64_encode alphabet (a # b # c # rest) =
     [alphabet ! (byte a div 4), alphabet ! (byte a mod 4 * 16 + byte b div 16),
      alphabet ! (byte b mod 16 * 4 + byte c div 64), alphabet ! (byte c mod 64)] @ base64_encode alphabet rest"

fun position :: "char \<Rightarrow> string \<Rightarrow> nat option" where
  "position c [] = None"
| "position c (x # xs) = (if c = x then Some 0 else map_option Suc (position c xs))"

fun sextets :: "string \<Rightarrow> string \<Rightarrow> nat list option" where
  "sextets alphabet [] = Some []"
| "sextets alphabet (c # cs) =
     (case position c alphabet of
        None \<Rightarrow> None
      | Some n \<Rightarrow> map_option (\<lambda>ns. n # ns) (sextets alphabet cs))"

text \<open>The last group may be short, but not of one character; its unused bits are not looked at.\<close>

fun base64_groups :: "nat list \<Rightarrow> string option" where
  "base64_groups [] = Some []"
| "base64_groups [x] = None"
| "base64_groups [x, y] = Some [char_of (x * 4 + y div 16)]"
| "base64_groups [x, y, z] = Some [char_of (x * 4 + y div 16), char_of (y mod 16 * 16 + z div 4)]"
| "base64_groups (x # y # z # w # rest) =
     map_option (\<lambda>bs. [char_of (x * 4 + y div 16), char_of (y mod 16 * 16 + z div 4), char_of (z mod 4 * 64 + w)] @ bs)
       (base64_groups rest)"

text \<open>The decoder skips line ends.\<close>

definition base64_decode :: "string \<Rightarrow> string \<Rightarrow> string option" where
  "base64_decode alphabet s =
     (case sextets alphabet (filter (\<lambda>c. byte c \<noteq> 10 \<and> byte c \<noteq> 13) s) of
        None \<Rightarrow> None
      | Some ns \<Rightarrow> base64_groups ns)"

section \<open>Password hashes\<close>

definition pbkdf2Iterations :: int where
  "pbkdf2Iterations = 600000"

definition pbkdf2SaltBytes :: nat where
  "pbkdf2SaltBytes = 16"

definition pbkdf2KeyBytes :: nat where
  "pbkdf2KeyBytes = 32"

definition pbkdf2Scheme :: string where
  "pbkdf2Scheme = ''pbkdf2-sha256''"

definition passwordMinLength :: nat where
  "passwordMinLength = 12"

definition passwordMaxLength :: nat where
  "passwordMaxLength = 1024"

type_synonym kdf = "string \<Rightarrow> string \<Rightarrow> int \<Rightarrow> nat \<Rightarrow> string option"

definition HashPassword :: "kdf \<Rightarrow> string option \<Rightarrow> string \<Rightarrow> string option" where
  "HashPassword pbkdf2 random password =
     (case random of
        None \<Rightarrow> None
      | Some salt \<Rightarrow>
          (case pbkdf2 password salt pbkdf2Iterations pbkdf2KeyBytes of
             None \<Rightarrow> None
           | Some key \<Rightarrow>
               Some (''$'' @ pbkdf2Scheme @ ''$i='' @ FormatInt pbkdf2Iterations @ ''$'' @
                 base64_encode base64_std salt @ ''$'' @ base64_encode base64_std key)))"

text \<open>\<open>strings.Split\<close> at one character.\<close>

fun split_at :: "char \<Rightarrow> string \<Rightarrow> string list" where
  "split_at d [] = [[]]"
| "split_at d (c # cs) =
     (if c = d then [] # split_at d cs
      else (case split_at d cs of [] \<Rightarrow> [[c]] | p # ps \<Rightarrow> (c # p) # ps))"

datatype hash_error =
  HashMalformed | HashScheme string | HashNoIterations | HashBadIterations | HashBadSalt | HashBadKey

definition parsePasswordHash :: "string \<Rightarrow> hash_error + string \<times> int \<times> string \<times> string" where
  "parsePasswordHash encoded =
     (let parts = split_at (CHR ''$'') encoded in
      if length parts \<noteq> 5 \<or> parts ! 0 \<noteq> '''' then Inl HashMalformed
      else let scheme = parts ! 1 in
      if scheme \<noteq> pbkdf2Scheme then Inl (HashScheme scheme)
      else if \<not> starts_with ''i='' (parts ! 2) then Inl HashNoIterations
      else case ParseInt (drop 2 (parts ! 2)) of
        None \<Rightarrow> Inl HashBadIterations
      | Some iterations \<Rightarrow>
          if iterations < 1 then Inl HashBadIterations
          else (case base64_decode base64_std (parts ! 3) of
            None \<Rightarrow> Inl HashBadSalt
          | Some salt \<Rightarrow>
              if salt = '''' then Inl HashBadSalt
              else (case base64_decode base64_std (parts ! 4) of
                None \<Rightarrow> Inl HashBadKey
              | Some key \<Rightarrow> if key = '''' then Inl HashBadKey else Inr (scheme, iterations, salt, key))))"

definition VerifyPassword :: "kdf \<Rightarrow> string \<Rightarrow> string \<Rightarrow> bool" where
  "VerifyPassword pbkdf2 encoded password =
     (case parsePasswordHash encoded of
        Inl e \<Rightarrow> False
      | Inr (scheme, iterations, salt, want) \<Rightarrow>
          (case pbkdf2 password salt iterations (length want) of
             None \<Rightarrow> False
           | Some got \<Rightarrow> got = want))"

text \<open>The calls of \<open>pbkdf2.Key\<close> these two make: the password, the salt, the iterations and the length. A stored hash that does not
  parse is refused before the derivation.\<close>

type_synonym derivation = "string \<times> string \<times> int \<times> nat"

definition VerifyPassword_derives :: "string \<Rightarrow> string \<Rightarrow> derivation list" where
  "VerifyPassword_derives encoded password =
     (case parsePasswordHash encoded of
        Inl e \<Rightarrow> []
      | Inr (scheme, iterations, salt, want) \<Rightarrow> [(password, salt, iterations, length want)])"

definition HashPassword_derives :: "string option \<Rightarrow> string \<Rightarrow> derivation list" where
  "HashPassword_derives random password =
     (case random of None \<Rightarrow> [] | Some salt \<Rightarrow> [(password, salt, pbkdf2Iterations, pbkdf2KeyBytes)])"

definition NeedsRehash :: "string \<Rightarrow> bool" where
  "NeedsRehash encoded =
     (case parsePasswordHash encoded of
        Inl e \<Rightarrow> False
      | Inr (scheme, iterations, salt, key) \<Rightarrow>
          scheme \<noteq> pbkdf2Scheme \<or> iterations < pbkdf2Iterations \<or> length salt < pbkdf2SaltBytes \<or> length key < pbkdf2KeyBytes)"

datatype password_error = PasswordTooShort | PasswordTooLong | PasswordIsUsername

definition ValidatePassword ::
  "(string \<Rightarrow> string \<Rightarrow> bool) \<Rightarrow> string \<Rightarrow> string \<Rightarrow> password_error + unit" where
  "ValidatePassword equal_fold username password =
     (if length password < passwordMinLength then Inl PasswordTooShort
      else if passwordMaxLength < length password then Inl PasswordTooLong
      else if username \<noteq> '''' \<and> equal_fold username password then Inl PasswordIsUsername
      else Inr ())"

text \<open>An alphabet of 64 different characters, none of them a line end.\<close>

definition alphabet_ok :: "string \<Rightarrow> bool" where
  "alphabet_ok alphabet \<longleftrightarrow> distinct alphabet \<and> length alphabet = 64 \<and>
     list_all (\<lambda>c. byte c \<noteq> 10 \<and> byte c \<noteq> 13 \<and> c \<noteq> CHR ''$'') alphabet"

text \<open>A derivation, for the examples.\<close>

definition sample_kdf :: kdf where
  "sample_kdf password salt iterations n = Some (take n (password @ replicate n (CHR ''x'')))"

section \<open>Lemmas\<close>

lemma sample_kdf_length: "\<forall>p t i n k. sample_kdf p t i n = Some k \<longrightarrow> length k = n"
  by (auto simp: sample_kdf_def)

lemma byte_bound [simp]: "byte c < 256"
  by (simp add: byte_def)

lemma char_of_byte [simp]: "char_of (byte c) = c"
  by (simp add: byte_def)

lemma alphabets_ok: "alphabet_ok base64_std" "alphabet_ok base64_url"
  by (simp_all add: alphabet_ok_def base64_std_def base64_url_def byte_def)

lemma position_nth: "distinct xs \<Longrightarrow> n < length xs \<Longrightarrow> position (xs ! n) xs = Some n"
  by (induction xs arbitrary: n) (auto simp: nth_Cons split: nat.splits)

lemma alphabet_nth:
  assumes "alphabet_ok alphabet" "n < 64"
  shows "position (alphabet ! n) alphabet = Some n" "byte (alphabet ! n) \<noteq> 10" "byte (alphabet ! n) \<noteq> 13" "alphabet ! n \<noteq> CHR ''$''"
  using assms by (auto simp: alphabet_ok_def position_nth list_all_length)

lemma sextet_bounds:
  "byte a div 4 < 64" "byte a mod 4 * 16 < 64" "byte a mod 4 * 16 + byte b div 16 < 64" "byte b mod 16 * 4 < 64"
  "byte b mod 16 * 4 + byte c div 64 < 64" "byte c mod 64 < 64"
proof -
  have "byte a mod 4 < 4" "byte b mod 16 < 16" "byte a div 4 < 64" "byte b div 16 < 16" "byte c div 64 < 4"
    using byte_bound [of a] byte_bound [of b] byte_bound [of c] by (simp_all add: less_mult_imp_div_less)
  then show "byte a div 4 < 64" "byte a mod 4 * 16 < 64" "byte a mod 4 * 16 + byte b div 16 < 64" "byte b mod 16 * 4 < 64"
    "byte b mod 16 * 4 + byte c div 64 < 64" "byte c mod 64 < 64" by simp_all
qed

lemma byte_parts [simp]:
  "byte b div 16 div 16 = 0" "byte b div 16 mod 16 = byte b div 16" "byte c div 64 div 4 = 0" "byte c div 64 mod 4 = byte c div 64"
  using byte_bound [of b] byte_bound [of c] by (simp_all add: div_mult2_eq [symmetric] less_mult_imp_div_less)

lemma byte_sum [simp]: "byte b div 16 * 16 + byte b mod 16 = byte b"
  by simp

lemma base64_encode_chars:
  assumes "alphabet_ok alphabet"
  shows "set (base64_encode alphabet s) \<subseteq> {c. byte c \<noteq> 10 \<and> byte c \<noteq> 13 \<and> c \<noteq> CHR ''$''}"
  using assms
  by (induction alphabet s rule: base64_encode.induct)
    (simp_all add: alphabet_nth sextet_bounds)

lemma sextets_encode:
  assumes "alphabet_ok alphabet"
  shows "\<exists>ns. sextets alphabet (base64_encode alphabet s) = Some ns \<and> base64_groups ns = Some s"
  using assms
proof (induction alphabet s rule: base64_encode.induct)
  case (4 alphabet a b c rest)
  then obtain ns where "sextets alphabet (base64_encode alphabet rest) = Some ns" "base64_groups ns = Some rest" by blast
  then show ?case
    using 4(2) by (simp add: alphabet_nth sextet_bounds)
qed (simp_all add: alphabet_nth sextet_bounds)

lemma base64_roundtrip:
  assumes "alphabet_ok alphabet"
  shows "base64_decode alphabet (base64_encode alphabet s) = Some s"
proof -
  have "filter (\<lambda>c. byte c \<noteq> 10 \<and> byte c \<noteq> 13) (base64_encode alphabet s) = base64_encode alphabet s"
    using base64_encode_chars [OF assms, of s] by (auto intro!: filter_True)
  then show ?thesis using sextets_encode [OF assms, of s] by (auto simp: base64_decode_def)
qed

lemma split_at_no: "d \<notin> set s \<Longrightarrow> split_at d s = [s]"
  by (induction s) auto

lemma split_at_field: "d \<notin> set s \<Longrightarrow> split_at d (s @ d # rest) = s # split_at d rest"
  by (induction s) auto

lemma base64_encode_Nil [simp]: "base64_encode alphabet s = [] \<longleftrightarrow> s = []"
  by (cases "(alphabet, s)" rule: base64_encode.cases) simp_all

lemma FormatInt_no_dollar: "0 \<le> i \<Longrightarrow> CHR ''$'' \<notin> set (FormatInt i)"
  using format_nat_digits [of "nat i"] by (auto simp: FormatInt_def list_all_iff is_digit_def less_eq_char_def)

text \<open>What is written is what is read.\<close>

lemma parsePasswordHash_written:
  assumes "0 < iterations" "int64_range iterations" "salt \<noteq> []" "key \<noteq> []"
  shows "parsePasswordHash (''$'' @ pbkdf2Scheme @ ''$i='' @ FormatInt iterations @ ''$'' @
      base64_encode base64_std salt @ ''$'' @ base64_encode base64_std key) = Inr (pbkdf2Scheme, iterations, salt, key)"
proof -
  have no: "CHR ''$'' \<notin> set (base64_encode base64_std x)" for x
    using base64_encode_chars [OF alphabets_ok(1), of x] by auto
  have "split_at (CHR ''$'') (''$'' @ pbkdf2Scheme @ ''$i='' @ FormatInt iterations @ ''$'' @
      base64_encode base64_std salt @ ''$'' @ base64_encode base64_std key) =
    [[], pbkdf2Scheme, ''i='' @ FormatInt iterations, base64_encode base64_std salt, base64_encode base64_std key]"
    using split_at_field [of "CHR ''$''" pbkdf2Scheme] split_at_field [of "CHR ''$''" "''i='' @ FormatInt iterations"]
      split_at_field [OF no, of salt] split_at_no [OF no, of key] FormatInt_no_dollar [of iterations] assms(1)
    by (simp add: pbkdf2Scheme_def)
  then show ?thesis
    using assms by (simp add: parsePasswordHash_def Let_def starts_with_def ParseInt_FormatInt base64_roundtrip alphabets_ok)
qed

lemma HashPassword_parses:
  assumes "HashPassword pbkdf2 (Some salt) password = Some encoded" "length salt = pbkdf2SaltBytes"
    "\<forall>p t i n k. pbkdf2 p t i n = Some k \<longrightarrow> length k = n"
  obtains key where "pbkdf2 password salt pbkdf2Iterations pbkdf2KeyBytes = Some key" "length key = pbkdf2KeyBytes"
    "parsePasswordHash encoded = Inr (pbkdf2Scheme, pbkdf2Iterations, salt, key)"
proof -
  obtain key where key: "pbkdf2 password salt pbkdf2Iterations pbkdf2KeyBytes = Some key"
    "encoded = ''$'' @ pbkdf2Scheme @ ''$i='' @ FormatInt pbkdf2Iterations @ ''$'' @
      base64_encode base64_std salt @ ''$'' @ base64_encode base64_std key"
    using assms(1) by (auto simp: HashPassword_def split: option.splits)
  have len: "length key = pbkdf2KeyBytes" using assms(3) key(1) by blast
  then have "salt \<noteq> []" "key \<noteq> []" using assms(2) by (auto simp: pbkdf2SaltBytes_def pbkdf2KeyBytes_def)
  then have "parsePasswordHash encoded = Inr (pbkdf2Scheme, pbkdf2Iterations, salt, key)"
    unfolding key(2) by (intro parsePasswordHash_written) (simp_all add: pbkdf2Iterations_def int64_range_def)
  then show thesis using key(1) len that by blast
qed

section \<open>Properties\<close>

text \<open>A stored password. The hash of a password is text that names its own scheme, cost and
  salt. Reading it back gives them and the key, the password it was made from verifies against it and
  any other verifies only if the derivation gives the same key, and a hash made now is not one to make
  again.\<close>

theorem password_hash_roundtrip:
  assumes "HashPassword pbkdf2 (Some salt) password = Some encoded" "length salt = pbkdf2SaltBytes"
    "\<forall>p t i n k. pbkdf2 p t i n = Some k \<longrightarrow> length k = n"
  shows "\<exists>key. pbkdf2 password salt pbkdf2Iterations pbkdf2KeyBytes = Some key \<and>
    parsePasswordHash encoded = Inr (pbkdf2Scheme, pbkdf2Iterations, salt, key) \<and>
    (\<forall>other. VerifyPassword pbkdf2 encoded other \<longleftrightarrow> pbkdf2 other salt pbkdf2Iterations pbkdf2KeyBytes = Some key) \<and>
    VerifyPassword pbkdf2 encoded password \<and> \<not> NeedsRehash encoded"
proof -
  obtain key where "pbkdf2 password salt pbkdf2Iterations pbkdf2KeyBytes = Some key" "length key = pbkdf2KeyBytes"
    "parsePasswordHash encoded = Inr (pbkdf2Scheme, pbkdf2Iterations, salt, key)"
    by (rule HashPassword_parses [OF assms])
  then show ?thesis using assms(2) by (auto simp: VerifyPassword_def NeedsRehash_def split: option.splits)
qed

theorem password_hash_roundtrip_witness:
  "\<exists>encoded. HashPassword sample_kdf (Some ''0123456789abcdef'') ''correct horse'' = Some encoded \<and>
    VerifyPassword sample_kdf encoded ''correct horse''"
proof -
  obtain encoded where e: "HashPassword sample_kdf (Some ''0123456789abcdef'') ''correct horse'' = Some encoded"
    by (simp add: HashPassword_def sample_kdf_def)
  have "length ''0123456789abcdef'' = pbkdf2SaltBytes" by (simp add: pbkdf2SaltBytes_def)
  note full = password_hash_roundtrip [OF e this]
  have "VerifyPassword sample_kdf encoded ''correct horse''"
    using full [OF sample_kdf_length] by (elim exE conjE) assumption+
  then show ?thesis using e by blast
qed

end
