(* ===== verification/Configuration.thy ===== *)
theory Configuration
  imports Http Passwords
begin

text \<open>
  The configuration (\<open>internal/config/config.go\<close>): what the environment of the process is read as, and what
  is refused. \<open>time.ParseDuration\<close>, in nanoseconds, and \<open>url.Parse\<close> are parameters, and so is the choice
  Go's iteration over a map makes among the missing settings.
\<close>

section \<open>Reading the environment\<close>

record config_url =
  cu_Scheme :: string
  cu_Host :: string
  cu_Hostname :: string
  cu_Path :: string
  cu_RawQuery :: string
  cu_Fragment :: string

record config_env =
  ce_getenv :: "string \<Rightarrow> string"
  ce_duration :: "string \<Rightarrow> int option"
  ce_url :: "string \<Rightarrow> config_url option"
  ce_first :: "string list \<Rightarrow> string"

record Config =
  cfg_ListenAddress :: string
  cfg_MetricsAddress :: string
  cfg_DatabaseURL :: string
  cfg_AuthMode :: string
  cfg_WebDirectory :: string
  cfg_MigrationsDir :: string
  cfg_BootstrapSourceSlug :: string
  cfg_BootstrapSourceName :: string
  cfg_BootstrapSourceToken :: string
  cfg_OIDCIssuerURL :: string
  cfg_OIDCClientID :: string
  cfg_OIDCClientSecret :: string
  cfg_OIDCRedirectURL :: string
  cfg_OIDCScopes :: "string list"
  cfg_OIDCUsernameClaim :: string
  cfg_OIDCEmailClaim :: string
  cfg_OIDCDisplayNameClaim :: string
  cfg_OIDCGroupsClaim :: string
  cfg_LDAPURL :: string
  cfg_LDAPIssuer :: string
  cfg_LDAPBindDN :: string
  cfg_LDAPBindPassword :: string
  cfg_LDAPBaseDN :: string
  cfg_LDAPUserFilter :: string
  cfg_LDAPGroupAttribute :: string
  cfg_LDAPGroupBaseDN :: string
  cfg_LDAPGroupFilter :: string
  cfg_LDAPGroupNameAttr :: string
  cfg_LDAPGroupFormat :: string
  cfg_LDAPUsernameAttr :: string
  cfg_LDAPEmailAttr :: string
  cfg_LDAPDisplayNameAttr :: string
  cfg_LDAPStartTLS :: bool
  cfg_LDAPTimeout :: int
  cfg_OpenModeRole :: string
  cfg_OpenModeAuthor :: string
  cfg_SessionCookieSecure :: bool
  cfg_AlertStaleAfter :: int
  cfg_AlertExpiryInterval :: int
  cfg_ReconcileInterval :: int
  cfg_ReconcileTimeout :: int
  cfg_SilenceDefaultDuration :: int
  cfg_StreamRetention :: int
  cfg_SilenceMaxDuration :: int

definition Second :: int where "Second = 1000000000"

definition Minute :: int where "Minute = 60 * Second"

definition Hour :: int where "Hour = 60 * Minute"

definition envOrDefault :: "config_env \<Rightarrow> string \<Rightarrow> string \<Rightarrow> string" where
  "envOrDefault env name fallback = (let value = ce_getenv env name in if value \<noteq> '''' then value else fallback)"

definition splitCSV :: "string \<Rightarrow> string list" where
  "splitCSV raw = filter (\<lambda>v. v \<noteq> '''') (map TrimSpace (split_at (CHR '','') raw))"

definition config_isLoopbackHost :: "string \<Rightarrow> bool" where
  "config_isLoopbackHost host \<longleftrightarrow> host = ''localhost'' \<or> host = ''127.0.0.1'' \<or> host = ''::1''"

text \<open>\<open>strconv.ParseBool\<close>.\<close>

definition ParseBool :: "string \<Rightarrow> bool option" where
  "ParseBool s =
     (if s \<in> {''1'', ''t'', ''T'', ''true'', ''TRUE'', ''True''} then Some True
      else if s \<in> {''0'', ''f'', ''F'', ''false'', ''FALSE'', ''False''} then Some False
      else None)"

fun last_index :: "char \<Rightarrow> string \<Rightarrow> nat option" where
  "last_index d [] = None"
| "last_index d (c # cs) =
     (case last_index d cs of Some i \<Rightarrow> Some (Suc i) | None \<Rightarrow> if c = d then Some 0 else None)"

text \<open>The host of \<open>net.SplitHostPort\<close>.\<close>

definition SplitHost :: "string \<Rightarrow> string option" where
  "SplitHost hostport =
     (case last_index (CHR '':'') hostport of
        None \<Rightarrow> None
      | Some i \<Rightarrow>
          if hostport ! 0 = CHR ''['' then
            (case index_of '']'' hostport of
               None \<Rightarrow> None
             | Some stop \<Rightarrow>
                 if stop + 1 \<noteq> i then None
                 else if CHR ''['' \<in> set (drop 1 hostport) \<or> CHR '']'' \<in> set (drop (stop + 1) hostport) then None
                 else Some (take (stop - 1) (drop 1 hostport)))
          else let host = take i hostport in
            if CHR '':'' \<in> set host then None
            else if CHR ''['' \<in> set hostport \<or> CHR '']'' \<in> set hostport then None
            else Some host)"

definition config_defaults :: "config_env \<Rightarrow> Config" where
  "config_defaults env =
     (let get = ce_getenv env; dflt = envOrDefault env in
      \<lparr>cfg_ListenAddress = dflt ''PROMVIEW_LISTEN_ADDRESS'' '':8080'',
       cfg_MetricsAddress = dflt ''PROMVIEW_METRICS_ADDRESS'' '':9090'',
       cfg_DatabaseURL = get ''PROMVIEW_DATABASE_URL'',
       cfg_AuthMode = dflt ''PROMVIEW_AUTH_MODE'' ''open'',
       cfg_WebDirectory = dflt ''PROMVIEW_WEB_DIRECTORY'' ''web/dist'',
       cfg_MigrationsDir = dflt ''PROMVIEW_MIGRATIONS_DIRECTORY'' ''migrations'',
       cfg_BootstrapSourceSlug = get ''PROMVIEW_BOOTSTRAP_SOURCE_SLUG'',
       cfg_BootstrapSourceName = get ''PROMVIEW_BOOTSTRAP_SOURCE_NAME'',
       cfg_BootstrapSourceToken = get ''PROMVIEW_BOOTSTRAP_SOURCE_TOKEN'',
       cfg_OIDCIssuerURL = get ''PROMVIEW_OIDC_ISSUER_URL'',
       cfg_OIDCClientID = get ''PROMVIEW_OIDC_CLIENT_ID'',
       cfg_OIDCClientSecret = get ''PROMVIEW_OIDC_CLIENT_SECRET'',
       cfg_OIDCRedirectURL = get ''PROMVIEW_OIDC_REDIRECT_URL'',
       cfg_OIDCScopes = splitCSV (dflt ''PROMVIEW_OIDC_SCOPES'' ''openid,profile,email,groups''),
       cfg_OIDCUsernameClaim = dflt ''PROMVIEW_OIDC_USERNAME_CLAIM'' ''preferred_username'',
       cfg_OIDCEmailClaim = dflt ''PROMVIEW_OIDC_EMAIL_CLAIM'' ''email'',
       cfg_OIDCDisplayNameClaim = dflt ''PROMVIEW_OIDC_DISPLAY_NAME_CLAIM'' ''name'',
       cfg_OIDCGroupsClaim = dflt ''PROMVIEW_OIDC_GROUPS_CLAIM'' ''groups'',
       cfg_LDAPURL = get ''PROMVIEW_LDAP_URL'',
       cfg_LDAPIssuer = get ''PROMVIEW_LDAP_ISSUER'',
       cfg_LDAPBindDN = get ''PROMVIEW_LDAP_BIND_DN'',
       cfg_LDAPBindPassword = get ''PROMVIEW_LDAP_BIND_PASSWORD'',
       cfg_LDAPBaseDN = get ''PROMVIEW_LDAP_BASE_DN'',
       cfg_LDAPUserFilter = dflt ''PROMVIEW_LDAP_USER_FILTER'' ''(uid=%s)'',
       cfg_LDAPGroupAttribute = dflt ''PROMVIEW_LDAP_GROUP_ATTRIBUTE'' ''memberOf'',
       cfg_LDAPGroupBaseDN = get ''PROMVIEW_LDAP_GROUP_BASE_DN'',
       cfg_LDAPGroupFilter = dflt ''PROMVIEW_LDAP_GROUP_FILTER'' ''(member=%s)'',
       cfg_LDAPGroupNameAttr = dflt ''PROMVIEW_LDAP_GROUP_NAME_ATTRIBUTE'' ''cn'',
       cfg_LDAPGroupFormat = dflt ''PROMVIEW_LDAP_GROUP_FORMAT'' ''cn'',
       cfg_LDAPUsernameAttr = dflt ''PROMVIEW_LDAP_USERNAME_ATTRIBUTE'' ''uid'',
       cfg_LDAPEmailAttr = dflt ''PROMVIEW_LDAP_EMAIL_ATTRIBUTE'' ''mail'',
       cfg_LDAPDisplayNameAttr = dflt ''PROMVIEW_LDAP_DISPLAY_NAME_ATTRIBUTE'' ''cn'',
       cfg_LDAPStartTLS = False, cfg_LDAPTimeout = 10 * Second,
       cfg_OpenModeRole = dflt ''PROMVIEW_OPEN_MODE_ROLE'' ''viewer'',
       cfg_OpenModeAuthor = dflt ''PROMVIEW_OPEN_MODE_AUTHOR'' ''promview-open-mode'',
       cfg_SessionCookieSecure = True, cfg_AlertStaleAfter = 12 * Hour, cfg_AlertExpiryInterval = Minute,
       cfg_ReconcileInterval = Minute, cfg_ReconcileTimeout = 10 * Second, cfg_SilenceDefaultDuration = 2 * Hour,
       cfg_StreamRetention = 24 * Hour, cfg_SilenceMaxDuration = 30 * 24 * Hour\<rparr>)"

text \<open>A flag and a duration, which an unset variable leaves at its default.\<close>

definition env_flag :: "config_env \<Rightarrow> string \<Rightarrow> bool \<Rightarrow> string + bool" where
  "env_flag env name current =
     (let raw = ce_getenv env name in
      if raw = '''' then Inr current
      else case ParseBool raw of None \<Rightarrow> Inl (name @ '' must be true or false'') | Some b \<Rightarrow> Inr b)"

definition env_duration :: "config_env \<Rightarrow> string \<Rightarrow> bool \<Rightarrow> string \<Rightarrow> int \<Rightarrow> string + int" where
  "env_duration env name zero_ok message current =
     (let raw = ce_getenv env name in
      if raw = '''' then Inr current
      else case ce_duration env raw of
        None \<Rightarrow> Inl message
      | Some d \<Rightarrow> if (if zero_ok then d < 0 else d \<le> 0) then Inl message else Inr d)"

definition session_cookie_name :: "config_env \<Rightarrow> string" where
  "session_cookie_name env =
     (if ce_getenv env ''PROMVIEW_SESSION_COOKIE_SECURE'' = '''' then ''PROMVIEW_OIDC_COOKIE_SECURE''
      else ''PROMVIEW_SESSION_COOKIE_SECURE'')"

definition read_settings :: "config_env \<Rightarrow> Config \<Rightarrow> string + Config" where
  "read_settings env cfg =
     bind_res (env_flag env (session_cookie_name env) (cfg_SessionCookieSecure cfg)) (\<lambda>secure.
     bind_res (env_flag env ''PROMVIEW_LDAP_START_TLS'' (cfg_LDAPStartTLS cfg)) (\<lambda>startTLS.
     bind_res (env_duration env ''PROMVIEW_LDAP_TIMEOUT'' False
       ''PROMVIEW_LDAP_TIMEOUT must be a positive duration such as 10s'' (cfg_LDAPTimeout cfg)) (\<lambda>ldapTimeout.
     bind_res (env_duration env ''PROMVIEW_ALERT_STALE_AFTER'' True
       ''PROMVIEW_ALERT_STALE_AFTER must be a non-negative duration such as 12h'' (cfg_AlertStaleAfter cfg)) (\<lambda>staleAfter.
     bind_res (env_duration env ''PROMVIEW_ALERT_EXPIRY_INTERVAL'' False
       ''PROMVIEW_ALERT_EXPIRY_INTERVAL must be a positive duration such as 1m'' (cfg_AlertExpiryInterval cfg)) (\<lambda>expiryInterval.
     bind_res (env_duration env ''PROMVIEW_SILENCE_DEFAULT_DURATION'' False
       ''PROMVIEW_SILENCE_DEFAULT_DURATION must be a positive duration such as 2h'' (cfg_SilenceDefaultDuration cfg)) (\<lambda>silenceDefault.
     bind_res (env_duration env ''PROMVIEW_SILENCE_MAX_DURATION'' False
       ''PROMVIEW_SILENCE_MAX_DURATION must be a positive duration such as 720h'' (cfg_SilenceMaxDuration cfg)) (\<lambda>silenceMax.
     bind_res (env_duration env ''PROMVIEW_STREAM_RETENTION'' True
       ''PROMVIEW_STREAM_RETENTION must be a non-negative duration such as 24h'' (cfg_StreamRetention cfg)) (\<lambda>retention.
     bind_res (env_duration env ''PROMVIEW_RECONCILE_INTERVAL'' True
       ''PROMVIEW_RECONCILE_INTERVAL must be a non-negative duration such as 1m'' (cfg_ReconcileInterval cfg)) (\<lambda>reconcileInterval.
     bind_res (env_duration env ''PROMVIEW_RECONCILE_TIMEOUT'' False
       ''PROMVIEW_RECONCILE_TIMEOUT must be a positive duration such as 10s'' (cfg_ReconcileTimeout cfg)) (\<lambda>reconcileTimeout.
     Inr (cfg\<lparr>cfg_SessionCookieSecure := secure, cfg_LDAPStartTLS := startTLS, cfg_LDAPTimeout := ldapTimeout,
       cfg_AlertStaleAfter := staleAfter, cfg_AlertExpiryInterval := expiryInterval,
       cfg_SilenceDefaultDuration := silenceDefault, cfg_SilenceMaxDuration := silenceMax, cfg_StreamRetention := retention,
       cfg_ReconcileInterval := reconcileInterval, cfg_ReconcileTimeout := reconcileTimeout\<rparr>)))))))))))"

section \<open>Validation\<close>

definition validateLocal :: "Config \<Rightarrow> string + unit" where
  "validateLocal cfg =
     (if cfg_SessionCookieSecure cfg then Inr ()
      else let host = (case SplitHost (cfg_ListenAddress cfg) of None \<Rightarrow> cfg_ListenAddress cfg | Some h \<Rightarrow> h) in
        if host = '''' \<or> \<not> config_isLoopbackHost host
        then Inl ''PROMVIEW_SESSION_COOKIE_SECURE may be false only when listening on loopback''
        else Inr ())"

text \<open>The settings of a mode that are missing; the message names the one the iteration meets first.\<close>

definition require_settings :: "config_env \<Rightarrow> string \<Rightarrow> (string \<times> string) list \<Rightarrow> string + unit" where
  "require_settings env mode settings =
     (let missing = map fst (filter (\<lambda>(name, value). value = '''') settings) in
      if missing \<noteq> [] then Inl (ce_first env missing @ '' is required in '' @ mode @ '' mode'') else Inr ())"

definition validate_ldap_url :: "config_env \<Rightarrow> Config \<Rightarrow> string + unit" where
  "validate_ldap_url env cfg =
     (case ce_url env (cfg_LDAPURL cfg) of
        None \<Rightarrow> Inl ''PROMVIEW_LDAP_URL must be an absolute URL such as ldaps://directory.example.com:636''
      | Some directory \<Rightarrow>
          if cu_Scheme directory = '''' \<or> cu_Host directory = ''''
          then Inl ''PROMVIEW_LDAP_URL must be an absolute URL such as ldaps://directory.example.com:636''
          else if cu_Scheme directory = ''ldaps'' then Inr ()
          else if cu_Scheme directory = ''ldap'' then
            (if \<not> cfg_LDAPStartTLS cfg \<and> \<not> config_isLoopbackHost (cu_Hostname directory)
             then Inl ''PROMVIEW_LDAP_URL must use ldaps://, set PROMVIEW_LDAP_START_TLS=true, or point at a loopback host''
             else Inr ())
          else Inl ''PROMVIEW_LDAP_URL must use the ldap or ldaps scheme'')"

definition validate_ldap_issuer :: "config_env \<Rightarrow> Config \<Rightarrow> string + unit" where
  "validate_ldap_issuer env cfg =
     (if cfg_LDAPIssuer cfg = '''' then Inr ()
      else case ce_url env (cfg_LDAPIssuer cfg) of
        None \<Rightarrow> Inl ''PROMVIEW_LDAP_ISSUER must be an ldap:// or ldaps:// URL''
      | Some issuer \<Rightarrow>
          if cu_Scheme issuer \<noteq> ''ldap'' \<and> cu_Scheme issuer \<noteq> ''ldaps'' \<or> cu_Host issuer = ''''
          then Inl ''PROMVIEW_LDAP_ISSUER must be an ldap:// or ldaps:// URL'' else Inr ())"

definition validateLDAP :: "config_env \<Rightarrow> Config \<Rightarrow> string + unit" where
  "validateLDAP env cfg =
     bind_res (require_settings env ''LDAP'' [(''PROMVIEW_LDAP_URL'', cfg_LDAPURL cfg), (''PROMVIEW_LDAP_BASE_DN'', cfg_LDAPBaseDN cfg),
       (''PROMVIEW_LDAP_BIND_DN'', cfg_LDAPBindDN cfg)]) (\<lambda>_.
     if cfg_LDAPBindPassword cfg = '''' then Inl ''PROMVIEW_LDAP_BIND_PASSWORD is required in LDAP mode''
     else bind_res (validate_ldap_url env cfg) (\<lambda>_.
     bind_res (validate_ldap_issuer env cfg) (\<lambda>_.
     if \<not> contains (cfg_LDAPUserFilter cfg) ''%s'' then Inl ''PROMVIEW_LDAP_USER_FILTER must contain %s for the username''
     else if cfg_LDAPGroupBaseDN cfg \<noteq> '''' \<and> \<not> contains (cfg_LDAPGroupFilter cfg) ''%s''
     then Inl ''PROMVIEW_LDAP_GROUP_FILTER must contain %s for the user DN''
     else if cfg_LDAPGroupFormat cfg \<noteq> ''cn'' \<and> cfg_LDAPGroupFormat cfg \<noteq> ''dn''
     then Inl ''PROMVIEW_LDAP_GROUP_FORMAT must be cn or dn''
     else validateLocal cfg)))"

definition validate_oidc_issuer :: "config_env \<Rightarrow> Config \<Rightarrow> string + unit" where
  "validate_oidc_issuer env cfg =
     (case ce_url env (cfg_OIDCIssuerURL cfg) of
        None \<Rightarrow> Inl ''PROMVIEW_OIDC_ISSUER_URL must be an absolute URL''
      | Some issuer \<Rightarrow>
          if cu_Scheme issuer = '''' \<or> cu_Host issuer = '''' then Inl ''PROMVIEW_OIDC_ISSUER_URL must be an absolute URL''
          else if cu_Scheme issuer \<noteq> ''https'' \<and> \<not> config_isLoopbackHost (cu_Hostname issuer)
          then Inl ''PROMVIEW_OIDC_ISSUER_URL must use HTTPS except on loopback hosts''
          else Inr ())"

definition validate_oidc_redirect :: "config_env \<Rightarrow> Config \<Rightarrow> string + unit" where
  "validate_oidc_redirect env cfg =
     (case ce_url env (cfg_OIDCRedirectURL cfg) of
        None \<Rightarrow> Inl ''PROMVIEW_OIDC_REDIRECT_URL must be an absolute URL''
      | Some redirect \<Rightarrow>
          if cu_Scheme redirect = '''' \<or> cu_Host redirect = '''' then Inl ''PROMVIEW_OIDC_REDIRECT_URL must be an absolute URL''
          else if cu_Scheme redirect \<noteq> ''https'' \<and> \<not> config_isLoopbackHost (cu_Hostname redirect)
          then Inl ''PROMVIEW_OIDC_REDIRECT_URL must use HTTPS except on loopback hosts''
          else if cu_Path redirect \<noteq> ''/api/v1/auth/oidc/callback'' \<or> cu_RawQuery redirect \<noteq> '''' \<or> cu_Fragment redirect \<noteq> ''''
          then Inl ''PROMVIEW_OIDC_REDIRECT_URL must end at /api/v1/auth/oidc/callback without a query or fragment''
          else if \<not> cfg_SessionCookieSecure cfg \<and> \<not> config_isLoopbackHost (cu_Hostname redirect)
          then Inl ''PROMVIEW_SESSION_COOKIE_SECURE may be false only on loopback hosts''
          else Inr ())"

definition validateOIDC :: "config_env \<Rightarrow> Config \<Rightarrow> string + unit" where
  "validateOIDC env cfg =
     bind_res (require_settings env ''OIDC'' [(''PROMVIEW_OIDC_ISSUER_URL'', cfg_OIDCIssuerURL cfg),
       (''PROMVIEW_OIDC_CLIENT_ID'', cfg_OIDCClientID cfg), (''PROMVIEW_OIDC_CLIENT_SECRET'', cfg_OIDCClientSecret cfg),
       (''PROMVIEW_OIDC_REDIRECT_URL'', cfg_OIDCRedirectURL cfg)]) (\<lambda>_.
     bind_res (validate_oidc_issuer env cfg) (\<lambda>_.
     bind_res (validate_oidc_redirect env cfg) (\<lambda>_.
     if ''openid'' \<notin> set (cfg_OIDCScopes cfg) then Inl ''PROMVIEW_OIDC_SCOPES must include openid'' else Inr ())))"

definition SupportedAuthModes :: "string list" where
  "SupportedAuthModes = [''open'', ''oidc'', ''local'', ''ldap'']"

definition validate_open :: "Config \<Rightarrow> string + unit" where
  "validate_open cfg =
     (if cfg_OpenModeRole cfg \<notin> {''viewer'', ''operator'', ''administrator''}
      then Inl ''PROMVIEW_OPEN_MODE_ROLE must be viewer, operator, or administrator''
      else if TrimSpace (cfg_OpenModeAuthor cfg) = '''' then Inl ''PROMVIEW_OPEN_MODE_AUTHOR must not be blank''
      else Inr ())"

definition validate_mode :: "config_env \<Rightarrow> Config \<Rightarrow> string + unit" where
  "validate_mode env cfg =
     (if cfg_AuthMode cfg = ''open'' then validate_open cfg
      else if cfg_AuthMode cfg = ''local'' then validateLocal cfg
      else if cfg_AuthMode cfg = ''ldap'' then validateLDAP env cfg
      else if cfg_AuthMode cfg = ''oidc'' then validateOIDC env cfg
      else Inl ''PROMVIEW_AUTH_MODE must be one of open, oidc, local, ldap'')"

text \<open>The settings of open mode, which no other mode takes.\<close>

definition open_settings :: "config_env \<Rightarrow> Config \<Rightarrow> string + unit" where
  "open_settings env cfg =
     (if cfg_AuthMode cfg = ''open'' then Inr ()
      else case filter (\<lambda>name. ce_getenv env name \<noteq> '''') [''PROMVIEW_OPEN_MODE_ROLE'', ''PROMVIEW_OPEN_MODE_AUTHOR''] of
        [] \<Rightarrow> Inr ()
      | name # names \<Rightarrow> Inl (name @ '' applies only when PROMVIEW_AUTH_MODE=open''))"

definition Load :: "config_env \<Rightarrow> string + Config" where
  "Load env =
     bind_res (read_settings env (config_defaults env)) (\<lambda>cfg.
     if cfg_SilenceMaxDuration cfg < cfg_SilenceDefaultDuration cfg
     then Inl ''PROMVIEW_SILENCE_DEFAULT_DURATION must not exceed PROMVIEW_SILENCE_MAX_DURATION''
     else if cfg_DatabaseURL cfg = '''' then Inl ''PROMVIEW_DATABASE_URL is required''
     else if (cfg_BootstrapSourceSlug cfg \<noteq> '''') \<noteq> (cfg_BootstrapSourceToken cfg \<noteq> '''')
     then Inl ''PROMVIEW_BOOTSTRAP_SOURCE_SLUG and PROMVIEW_BOOTSTRAP_SOURCE_TOKEN must be set together''
     else
       let cfg = (if cfg_BootstrapSourceSlug cfg \<noteq> '''' \<and> cfg_BootstrapSourceName cfg = ''''
                  then cfg\<lparr>cfg_BootstrapSourceName := cfg_BootstrapSourceSlug cfg\<rparr> else cfg)
       in bind_res (open_settings env cfg) (\<lambda>_. bind_res (validate_mode env cfg) (\<lambda>_. Inr cfg)))"

section \<open>Specification\<close>

text \<open>Every interval and window in its range.\<close>

definition durations_ok :: "Config \<Rightarrow> bool" where
  "durations_ok cfg \<longleftrightarrow>
     0 < cfg_LDAPTimeout cfg \<and> 0 < cfg_AlertExpiryInterval cfg \<and> 0 < cfg_ReconcileTimeout cfg \<and>
     0 \<le> cfg_AlertStaleAfter cfg \<and> 0 \<le> cfg_StreamRetention cfg \<and> 0 \<le> cfg_ReconcileInterval cfg \<and>
     0 < cfg_SilenceDefaultDuration cfg \<and> 0 < cfg_SilenceMaxDuration cfg"

text \<open>The host the server listens on is this machine only.\<close>

definition listens_on_loopback :: "Config \<Rightarrow> bool" where
  "listens_on_loopback cfg \<longleftrightarrow>
     config_isLoopbackHost (case SplitHost (cfg_ListenAddress cfg) of None \<Rightarrow> cfg_ListenAddress cfg | Some h \<Rightarrow> h)"

text \<open>What protects credentials: the session cookie is sent over TLS only or never leaves the machine, passwords reach
  a directory over TLS or on this machine, and so do the messages of an OpenID provider.\<close>

definition over_tls :: "string \<Rightarrow> config_url \<Rightarrow> bool" where
  "over_tls scheme u \<longleftrightarrow> cu_Host u \<noteq> [] \<and> (cu_Scheme u = scheme \<or> config_isLoopbackHost (cu_Hostname u))"

definition cookie_protected :: "config_env \<Rightarrow> Config \<Rightarrow> bool" where
  "cookie_protected env cfg \<longleftrightarrow>
     cfg_AuthMode cfg = ''open'' \<or> cfg_SessionCookieSecure cfg \<or>
     (if cfg_AuthMode cfg = ''oidc''
      then (case ce_url env (cfg_OIDCRedirectURL cfg) of None \<Rightarrow> False | Some u \<Rightarrow> config_isLoopbackHost (cu_Hostname u))
      else listens_on_loopback cfg)"

definition directory_protected :: "config_env \<Rightarrow> Config \<Rightarrow> bool" where
  "directory_protected env cfg \<longleftrightarrow>
     (case ce_url env (cfg_LDAPURL cfg) of
        None \<Rightarrow> False
      | Some u \<Rightarrow> over_tls ''ldaps'' u \<or> cu_Scheme u = ''ldap'' \<and> cfg_LDAPStartTLS cfg) \<and>
     cfg_LDAPBindDN cfg \<noteq> [] \<and> cfg_LDAPBindPassword cfg \<noteq> [] \<and> contains (cfg_LDAPUserFilter cfg) ''%s''"

definition provider_protected :: "config_env \<Rightarrow> Config \<Rightarrow> bool" where
  "provider_protected env cfg \<longleftrightarrow>
     (case (ce_url env (cfg_OIDCIssuerURL cfg), ce_url env (cfg_OIDCRedirectURL cfg)) of
        (Some issuer, Some redirect) \<Rightarrow>
          over_tls ''https'' issuer \<and> over_tls ''https'' redirect \<and> cu_Path redirect = ''/api/v1/auth/oidc/callback''
      | _ \<Rightarrow> False) \<and>
     cfg_OIDCClientSecret cfg \<noteq> [] \<and> ''openid'' \<in> set (cfg_OIDCScopes cfg)"

definition mode_ok :: "config_env \<Rightarrow> Config \<Rightarrow> bool" where
  "mode_ok env cfg \<longleftrightarrow>
     cookie_protected env cfg \<and>
     (if cfg_AuthMode cfg = ''open''
      then cfg_OpenModeRole cfg \<in> {''viewer'', ''operator'', ''administrator''} \<and> TrimSpace (cfg_OpenModeAuthor cfg) \<noteq> []
      else ce_getenv env ''PROMVIEW_OPEN_MODE_ROLE'' = [] \<and> ce_getenv env ''PROMVIEW_OPEN_MODE_AUTHOR'' = []) \<and>
     (cfg_AuthMode cfg = ''ldap'' \<longrightarrow> directory_protected env cfg) \<and>
     (cfg_AuthMode cfg = ''oidc'' \<longrightarrow> provider_protected env cfg)"

definition sample_config_env :: config_env where
  "sample_config_env =
     \<lparr>ce_getenv = (\<lambda>n. if n = ''PROMVIEW_DATABASE_URL'' then ''postgres://db'' else if n = ''PROMVIEW_AUTH_MODE'' then ''local''
                       else if n = ''PROMVIEW_SESSION_COOKIE_SECURE'' then ''false''
                       else if n = ''PROMVIEW_LISTEN_ADDRESS'' then ''[::1]:8080'' else []),
      ce_duration = (\<lambda>s. None), ce_url = (\<lambda>u. None), ce_first = hd\<rparr>"

section \<open>Lemmas\<close>

lemma env_duration_Inr:
  assumes "env_duration env name zero_ok message current = Inr d"
  shows "0 < current \<Longrightarrow> 0 \<le> d" "0 < current \<Longrightarrow> \<not> zero_ok \<Longrightarrow> 0 < d"
  using assms by (auto simp: env_duration_def Let_def split: if_splits option.splits)

lemma config_defaults_positive:
  "0 < cfg_LDAPTimeout (config_defaults env)" "0 < cfg_AlertExpiryInterval (config_defaults env)" "0 < cfg_ReconcileTimeout (config_defaults env)"
  "0 < cfg_AlertStaleAfter (config_defaults env)" "0 < cfg_StreamRetention (config_defaults env)" "0 < cfg_ReconcileInterval (config_defaults env)"
  "0 < cfg_SilenceDefaultDuration (config_defaults env)" "0 < cfg_SilenceMaxDuration (config_defaults env)"
  by (simp_all add: config_defaults_def Let_def Second_def Minute_def Hour_def)

lemma envOrDefault_nonempty: "fallback \<noteq> [] \<Longrightarrow> envOrDefault env name fallback \<noteq> []"
  by (simp add: envOrDefault_def Let_def)

lemma read_settings_Inr:
  assumes "read_settings env (config_defaults env) = Inr cfg"
  shows "durations_ok cfg" "cfg_MetricsAddress cfg \<noteq> []"
proof -
  obtain secure startTLS a b c d e f g h where
    d: "env_duration env ''PROMVIEW_LDAP_TIMEOUT'' False
          ''PROMVIEW_LDAP_TIMEOUT must be a positive duration such as 10s'' (cfg_LDAPTimeout (config_defaults env)) = Inr a"
       "env_duration env ''PROMVIEW_ALERT_STALE_AFTER'' True
          ''PROMVIEW_ALERT_STALE_AFTER must be a non-negative duration such as 12h'' (cfg_AlertStaleAfter (config_defaults env)) = Inr b"
       "env_duration env ''PROMVIEW_ALERT_EXPIRY_INTERVAL'' False
          ''PROMVIEW_ALERT_EXPIRY_INTERVAL must be a positive duration such as 1m'' (cfg_AlertExpiryInterval (config_defaults env)) = Inr c"
       "env_duration env ''PROMVIEW_SILENCE_DEFAULT_DURATION'' False
          ''PROMVIEW_SILENCE_DEFAULT_DURATION must be a positive duration such as 2h'' (cfg_SilenceDefaultDuration (config_defaults env)) = Inr d"
       "env_duration env ''PROMVIEW_SILENCE_MAX_DURATION'' False
          ''PROMVIEW_SILENCE_MAX_DURATION must be a positive duration such as 720h'' (cfg_SilenceMaxDuration (config_defaults env)) = Inr e"
       "env_duration env ''PROMVIEW_STREAM_RETENTION'' True
          ''PROMVIEW_STREAM_RETENTION must be a non-negative duration such as 24h'' (cfg_StreamRetention (config_defaults env)) = Inr f"
       "env_duration env ''PROMVIEW_RECONCILE_INTERVAL'' True
          ''PROMVIEW_RECONCILE_INTERVAL must be a non-negative duration such as 1m'' (cfg_ReconcileInterval (config_defaults env)) = Inr g"
       "env_duration env ''PROMVIEW_RECONCILE_TIMEOUT'' False
          ''PROMVIEW_RECONCILE_TIMEOUT must be a positive duration such as 10s'' (cfg_ReconcileTimeout (config_defaults env)) = Inr h" and
    cfg: "cfg = (config_defaults env)\<lparr>cfg_SessionCookieSecure := secure, cfg_LDAPStartTLS := startTLS, cfg_LDAPTimeout := a,
       cfg_AlertStaleAfter := b, cfg_AlertExpiryInterval := c, cfg_SilenceDefaultDuration := d, cfg_SilenceMaxDuration := e,
       cfg_StreamRetention := f, cfg_ReconcileInterval := g, cfg_ReconcileTimeout := h\<rparr>"
    using assms unfolding read_settings_def bind_res_Inr by blast
  show "durations_ok cfg"
    using d(1,3,4,5,8) [THEN env_duration_Inr(2)] d(2,6,7) [THEN env_duration_Inr(1)] config_defaults_positive
    by (simp add: durations_ok_def cfg)
  show "cfg_MetricsAddress cfg \<noteq> []" by (simp add: cfg config_defaults_def Let_def envOrDefault_nonempty)
qed

lemma validateLocal_Inr: "validateLocal cfg = Inr u \<longleftrightarrow> cfg_SessionCookieSecure cfg \<or> listens_on_loopback cfg"
  by (auto simp: validateLocal_def listens_on_loopback_def config_isLoopbackHost_def Let_def split: option.splits)

lemma require_settings_Inr: "require_settings env mode settings = Inr u \<longleftrightarrow> (\<forall>(name, value) \<in> set settings. value \<noteq> [])"
  by (auto simp: require_settings_def Let_def filter_empty_conv)

lemma validateLDAP_Inr:
  assumes "validateLDAP env cfg = Inr u"
  shows "directory_protected env cfg" "validateLocal cfg = Inr ()"
  using assms
  by (auto simp: validateLDAP_def directory_protected_def bind_res_Inr require_settings_Inr validate_ldap_url_def over_tls_def
      split: if_splits option.splits)

lemma validateOIDC_Inr:
  assumes "validateOIDC env cfg = Inr u"
  shows "provider_protected env cfg" "cfg_AuthMode cfg = ''oidc'' \<Longrightarrow> cookie_protected env cfg"
  using assms
  by (auto simp: validateOIDC_def provider_protected_def cookie_protected_def bind_res_Inr require_settings_Inr
      validate_oidc_issuer_def validate_oidc_redirect_def over_tls_def split: if_splits option.splits)

lemma validate_mode_Inr:
  assumes "validate_mode env cfg = Inr u" "open_settings env cfg = Inr v"
  shows "cfg_AuthMode cfg \<in> set SupportedAuthModes" "mode_ok env cfg"
proof -
  have opened: "ce_getenv env ''PROMVIEW_OPEN_MODE_ROLE'' = [] \<and> ce_getenv env ''PROMVIEW_OPEN_MODE_AUTHOR'' = []"
    if "cfg_AuthMode cfg \<noteq> ''open''"
    using assms(2) that by (auto simp: open_settings_def split: if_splits)
  consider "cfg_AuthMode cfg = ''open''" "validate_open cfg = Inr u" | "cfg_AuthMode cfg = ''local''" "validateLocal cfg = Inr u"
    | "cfg_AuthMode cfg = ''ldap''" "validateLDAP env cfg = Inr u" | "cfg_AuthMode cfg = ''oidc''" "validateOIDC env cfg = Inr u"
    using assms(1) by (auto simp: validate_mode_def split: if_splits)
  then show "cfg_AuthMode cfg \<in> set SupportedAuthModes" "mode_ok env cfg"
  proof (atomize(full), cases)
    case 1
    then show "cfg_AuthMode cfg \<in> set SupportedAuthModes \<and> mode_ok env cfg"
      by (auto simp: mode_ok_def cookie_protected_def validate_open_def SupportedAuthModes_def split: if_splits)
  next
    case 2
    then show "cfg_AuthMode cfg \<in> set SupportedAuthModes \<and> mode_ok env cfg"
      using opened by (simp add: mode_ok_def cookie_protected_def validateLocal_Inr SupportedAuthModes_def)
  next
    case 3
    then show "cfg_AuthMode cfg \<in> set SupportedAuthModes \<and> mode_ok env cfg"
      using opened validateLDAP_Inr [OF 3(2)] by (simp add: mode_ok_def cookie_protected_def validateLocal_Inr SupportedAuthModes_def)
  next
    case 4
    then show "cfg_AuthMode cfg \<in> set SupportedAuthModes \<and> mode_ok env cfg"
      using opened validateOIDC_Inr [OF 4(2)] by (simp add: mode_ok_def SupportedAuthModes_def)
  qed
qed

section \<open>Properties\<close>

text \<open>C29: a configuration that is loaded is sound. The mode is one the program serves, every interval is in its range and
  the default silence is no longer than the longest one allowed, a bootstrap source has its token and a
  name; the session cookie is restricted to TLS unless the sign-in happens on this machine, passwords go to a
  directory and messages to a provider over TLS or on this machine, and the settings of open mode are
  valid and given in open mode only. The metrics address is never empty, whatever the variable holds, so the
  listener cannot be turned off through it.\<close>

theorem load_sound:
  assumes "Load env = Inr cfg"
  shows "cfg_AuthMode cfg \<in> set SupportedAuthModes \<and> mode_ok env cfg \<and> durations_ok cfg \<and>
    cfg_SilenceDefaultDuration cfg \<le> cfg_SilenceMaxDuration cfg \<and> cfg_DatabaseURL cfg \<noteq> [] \<and>
    (cfg_BootstrapSourceSlug cfg \<noteq> [] \<longrightarrow> cfg_BootstrapSourceToken cfg \<noteq> [] \<and> cfg_BootstrapSourceName cfg \<noteq> []) \<and>
    cfg_MetricsAddress cfg \<noteq> []"
proof -
  obtain c where c: "read_settings env (config_defaults env) = Inr c" "cfg_SilenceDefaultDuration c \<le> cfg_SilenceMaxDuration c"
    "cfg_DatabaseURL c \<noteq> []" "(cfg_BootstrapSourceSlug c \<noteq> []) = (cfg_BootstrapSourceToken c \<noteq> [])"
    "cfg = (if cfg_BootstrapSourceSlug c \<noteq> [] \<and> cfg_BootstrapSourceName c = []
            then c\<lparr>cfg_BootstrapSourceName := cfg_BootstrapSourceSlug c\<rparr> else c)"
    "open_settings env cfg = Inr ()" "validate_mode env cfg = Inr ()"
    using assms by (auto simp: Load_def bind_res_Inr Let_def not_less split: if_splits)
  have "durations_ok cfg = durations_ok c" "cfg_MetricsAddress cfg = cfg_MetricsAddress c" "cfg_SilenceDefaultDuration cfg = cfg_SilenceDefaultDuration c"
    "cfg_SilenceMaxDuration cfg = cfg_SilenceMaxDuration c" "cfg_DatabaseURL cfg = cfg_DatabaseURL c"
    "cfg_BootstrapSourceSlug cfg = cfg_BootstrapSourceSlug c" "cfg_BootstrapSourceToken cfg = cfg_BootstrapSourceToken c"
    "cfg_BootstrapSourceSlug c \<noteq> [] \<Longrightarrow> cfg_BootstrapSourceName cfg \<noteq> []"
    by (simp_all add: c(5) durations_ok_def)
  then show ?thesis using read_settings_Inr [OF c(1)] validate_mode_Inr [OF c(7,6)] c(2-4) by simp
qed

lemma sample_config: "\<exists>cfg. Load sample_config_env = Inr cfg \<and> cfg_AuthMode cfg = ''local'' \<and> \<not> cfg_SessionCookieSecure cfg"
  by (simp add: Load_def read_settings_def config_defaults_def sample_config_env_def env_flag_def env_duration_def session_cookie_name_def
      envOrDefault_def ParseBool_def bind_res_def open_settings_def validate_mode_def validateLocal_def SplitHost_def config_isLoopbackHost_def
      Second_def Minute_def Hour_def starts_with_def Let_def)

theorem load_sound_witness:
  "\<exists>cfg. Load sample_config_env = Inr cfg \<and> \<not> cfg_SessionCookieSecure cfg \<and> listens_on_loopback cfg"
proof -
  obtain cfg where cfg: "Load sample_config_env = Inr cfg" "cfg_AuthMode cfg = ''local''" "\<not> cfg_SessionCookieSecure cfg"
    using sample_config by blast
  then show ?thesis using load_sound [OF cfg(1)] by (auto simp: mode_ok_def cookie_protected_def)
qed

end
