(* ===== verification/Housekeeping.thy ===== *)
theory Housekeeping
  imports Metrics Retention Expiry Configuration
begin

text \<open>
  The loops of the server that run on a ticker (\<open>cmd/promview/main.go\<close>): \<open>runStreamPruning\<close> and \<open>runExpirySweeps\<close>, and the
  warning about an elevated open mode. The sweeps of the sign-in limiter are in \<open>Limiter\<close>.

  A loop is run on the ticks it meets. Before each the rest of the server may have changed the database in any way, which is
  a function of the tick; a tick also says when it is, which rows other transactions hold, and whether the server is being
  stopped. Windows are in microseconds.
\<close>

section \<open>Loops\<close>

record tick =
  tk_others :: "db \<Rightarrow> db"
  tk_now :: instant
  tk_locks :: "nat \<Rightarrow> int \<Rightarrow> bool"
  tk_stopping :: bool

text \<open>A sweep that fails is left to the next tick, unless the server is stopping. \<^const>\<open>None\<close> is a sweep that never returns.\<close>

fun prune_ticks :: "int \<Rightarrow> tick list \<Rightarrow> db \<Rightarrow> Metrics option \<Rightarrow> (db \<times> Metrics option) option" where
  "prune_ticks retention [] s instruments = Some (s, instruments)"
| "prune_ticks retention (t # ts) s instruments =
     (case PruneStreamEvents retention (tk_now t) (tk_locks t) (tk_others t s) of
        None \<Rightarrow> None
      | Some (s', pruned, err) \<Rightarrow>
          let instruments' = StreamPruned (int pruned) instruments in
          if err \<noteq> None \<and> tk_stopping t then Some (s', instruments') else prune_ticks retention ts s' instruments')"

definition runStreamPruning :: "int \<Rightarrow> tick list \<Rightarrow> db \<Rightarrow> Metrics option \<Rightarrow> (db \<times> Metrics option) option" where
  "runStreamPruning retention ticks s instruments =
     (if retention = 0 then Some (s, instruments) else prune_ticks retention ticks s instruments)"

fun expiry_ticks :: "int \<Rightarrow> tick list \<Rightarrow> db \<Rightarrow> db option" where
  "expiry_ticks staleAfter [] s = Some s"
| "expiry_ticks staleAfter (t # ts) s =
     (case ExpireStaleAlerts staleAfter (tk_now t) (tk_locks t) (tk_others t s) of
        None \<Rightarrow> None
      | Some (s', expired, err) \<Rightarrow> if err \<noteq> None \<and> tk_stopping t then Some s' else expiry_ticks staleAfter ts s')"

definition runExpirySweeps :: "int \<Rightarrow> tick list \<Rightarrow> db \<Rightarrow> db option" where
  "runExpirySweeps staleAfter ticks s = (if staleAfter = 0 then Some s else expiry_ticks staleAfter ticks s)"

text \<open>The warnings are the two log lines, by the role that is in force.\<close>

datatype open_warning = ElevationEnabled | GrantsAdministrator

definition warnAboutOpenModeElevation :: "Config \<Rightarrow> Metrics option \<Rightarrow> Metrics option \<times> open_warning list" where
  "warnAboutOpenModeElevation cfg instruments =
     (if cfg_AuthMode cfg \<noteq> ''open'' then (instruments, [])
      else let elevated = (cfg_OpenModeRole cfg \<noteq> ''viewer'');
               instruments' = OpenModeElevated (cfg_OpenModeRole cfg) elevated instruments in
        if \<not> elevated then (instruments', [])
        else (instruments', ElevationEnabled # (if cfg_OpenModeRole cfg = ''administrator'' then [GrantsAdministrator] else [])))"

section \<open>Specification\<close>

text \<open>The events a run of the pruning loop takes away, read off the database before and after each sweep.\<close>

fun events_taken :: "int \<Rightarrow> tick list \<Rightarrow> db \<Rightarrow> nat" where
  "events_taken retention [] s = 0"
| "events_taken retention (t # ts) s =
     (case PruneStreamEvents retention (tk_now t) (tk_locks t) (tk_others t s) of
        None \<Rightarrow> 0
      | Some (s', pruned, err) \<Rightarrow>
          length (stream_events (tk_others t s)) - length (stream_events s') +
          (if err \<noteq> None \<and> tk_stopping t then 0 else events_taken retention ts s'))"

definition orderly :: "tick \<Rightarrow> bool" where
  "orderly t \<longleftrightarrow> (\<forall>s. db_ok s \<longrightarrow> db_ok (tk_others t s))"

section \<open>Lemmas\<close>

lemma prune_returns:
  assumes "db_ok s"
  obtains s' n err where "PruneStreamEvents retention now locks s = Some (s', n, err)" "db_ok s'"
    "n + length (stream_events s') = length (stream_events s)"
proof (cases "retention \<le> 0")
  case True
  then have "\<exists>err. PruneStreamEvents retention now locks s = Some (s, 0, err)" by (simp add: PruneStreamEvents_def)
  then show ?thesis using assms that by auto
next
  case False
  obtain s' n err where "sweep (\<lambda>k. pruneStreamBatch (now - retention) (locks k)) streamPruneBatchSize 0 0 s = Some (s', n, err)"
      "db_ok s'" "n + length (stream_events s') = length (stream_events s)"
    using prune.sweep_returns [OF assms, of "now - retention" locks 0 0] by auto
  then show ?thesis using False that by (auto simp: PruneStreamEvents_def)
qed

lemma expiry_returns:
  assumes "db_ok s"
  obtains s' n err where "ExpireStaleAlerts d now locks s = Some (s', n, err)" "db_ok s'"
proof (cases "d < 0")
  case True
  then show ?thesis using assms that by (auto simp: ExpireStaleAlerts_def)
next
  case False
  obtain s' n err where "sweep (\<lambda>k. expireStaleBatch d now (locks k)) expiryBatchSize 0 0 s = Some (s', n, err)" "db_ok s'"
    using expire.sweep_returns [OF assms, of d now locks 0 0] by auto
  then show ?thesis using False that by (auto simp: ExpireStaleAlerts_def)
qed

text \<open>The expiry loop survives every failing sweep and keeps the constraints of the database.\<close>

lemma expiry_loop_runs:
  assumes "db_ok s" "\<forall>t \<in> set ticks. orderly t"
  shows "\<exists>s'. runExpirySweeps staleAfter ticks s = Some s' \<and> db_ok s'"
proof -
  have "\<exists>s'. expiry_ticks staleAfter ticks s = Some s' \<and> db_ok s'"
    using assms
  proof (induction ticks arbitrary: s)
    case (Cons t ticks)
    have "db_ok (tk_others t s)" using Cons.prems by (auto simp: orderly_def)
    then obtain s' n err where "ExpireStaleAlerts staleAfter (tk_now t) (tk_locks t) (tk_others t s) = Some (s', n, err)" "db_ok s'"
      by (rule expiry_returns)
    then show ?case using Cons.IH [of s'] Cons.prems(2) by auto
  qed simp
  then show ?thesis using assms(1) by (simp add: runExpirySweeps_def)
qed

section \<open>Properties\<close>

text \<open>The pruning loop. On any ticks, whatever the rest of the server does to the database in between and whichever sweeps fail,
  the loop gets through every tick up to its stop, the constraints of the database hold, and the counter of pruned events has
  grown by exactly the events that its sweeps deleted, those of failed sweeps included.\<close>

theorem pruning_loop_counts:
  assumes "db_ok s" "\<forall>t \<in> set ticks. orderly t" "retention \<noteq> 0"
  shows "\<exists>s' m'. runStreamPruning retention ticks s (Some m) = Some (s', Some m') \<and> db_ok s' \<and>
    m' = m\<lparr>streamPruned := streamPruned m + int (events_taken retention ticks s)\<rparr>"
proof -
  have "\<exists>s' m'. prune_ticks retention ticks s (Some m) = Some (s', Some m') \<and> db_ok s' \<and>
      m' = m\<lparr>streamPruned := streamPruned m + int (events_taken retention ticks s)\<rparr>"
    using assms(1,2)
  proof (induction ticks arbitrary: s m)
    case (Cons t ticks)
    have "db_ok (tk_others t s)" using Cons.prems by (auto simp: orderly_def)
    then obtain s' n err where r: "PruneStreamEvents retention (tk_now t) (tk_locks t) (tk_others t s) = Some (s', n, err)" "db_ok s'"
        "n + length (stream_events s') = length (stream_events (tk_others t s))"
      by (rule prune_returns)
    let ?m = "m\<lparr>streamPruned := streamPruned m + int n\<rparr>"
    have "StreamPruned (int n) (Some m) = Some ?m" by (simp add: StreamPruned_def)
    moreover have "length (stream_events (tk_others t s)) - length (stream_events s') = n" using r(3) by simp
    moreover have "\<forall>t \<in> set ticks. orderly t" using Cons.prems(2) by simp
    ultimately show ?case using Cons.IH [OF r(2), of ?m] r(1,2) by (auto simp: Let_def add.assoc)
  qed simp
  then show ?thesis using assms(3) by (simp add: runStreamPruning_def)
qed

theorem pruning_loop_counts_witness:
  "\<exists>s' m'. runStreamPruning 50 [\<lparr>tk_others = id, tk_now = 1000, tk_locks = (\<lambda>k i. False), tk_stopping = False\<rparr>] sample_stream
      (Some (New_metrics ''dev'')) = Some (s', Some m') \<and> db_ok s' \<and>
    streamPruned m' = int (events_taken 50 [\<lparr>tk_others = id, tk_now = 1000, tk_locks = (\<lambda>k i. False), tk_stopping = False\<rparr>] sample_stream)"
proof -
  have "orderly \<lparr>tk_others = id, tk_now = 1000, tk_locks = (\<lambda>k i. False), tk_stopping = False\<rparr>" by (simp add: orderly_def)
  with pruning_loop_counts [OF sample_stream_ok, of "[\<lparr>tk_others = id, tk_now = 1000, tk_locks = (\<lambda>k i. False), tk_stopping = False\<rparr>]" 50
      "New_metrics ''dev''"]
  show ?thesis by (auto simp: New_metrics_def)
qed

end
