(* ===== verification/Migrations.thy ===== *)
theory Migrations
  imports Authz Http
begin

text \<open>
  The migration runner (\<open>internal/postgres/migrate.go\<close>) and the check with which the server refuses
  a database behind its binary (\<open>run\<close> in \<open>cmd/promview/main.go\<close>).

  The database is its ledger \<open>schema_migrations\<close>, \<^const>\<open>None\<close> before it is created, and a catalog, of
  any type: what the SQL of a migration does to it and which tables and columns it has are parameters, as
  is the migrations directory. A connection answers a number of statements and fails from then on; a
  transaction counts as one, since it happens whole or not at all. The advisory lock keeps other runners
  out between its acquisition and its release, so a run sees no change but its own.
\<close>

section \<open>State\<close>

record 'c schema_db =
  ledger :: "(int \<times> string) list option"
  catalog :: 'c
  answers :: nat

record 'c mig_env =
  read_dir :: "(string \<times> bool) list option"
  read_file :: "string \<Rightarrow> string option"
  run_sql :: "string \<Rightarrow> 'c \<Rightarrow> 'c option"
  to_regclass :: "'c \<Rightarrow> string \<Rightarrow> bool"
  has_column :: "'c \<Rightarrow> string \<Rightarrow> string \<Rightarrow> bool"

record migration =
  mig_version :: int
  mig_name :: string

datatype mig_error =
  ReadDirectory | NoPrefix string | InvalidVersion string | DuplicateVersion int
| AcquireConnection | AcquireLock | CreateLedger | CountApplied | CheckLegacy int | BaselineMigration int
| CheckMigration int | ReadMigration string | ApplyMigration string | ReadApplied

definition ledger_rows :: "'c schema_db \<Rightarrow> (int \<times> string) list" where
  "ledger_rows d = (case ledger d of None \<Rightarrow> [] | Some rows \<Rightarrow> rows)"

text \<open>A statement, which fails with \<open>e\<close> once the connection is lost, and two statements in a row.\<close>

definition statement :: "mig_error \<Rightarrow> ('c schema_db \<Rightarrow> (mig_error + unit) \<times> 'c schema_db) \<Rightarrow> 'c schema_db \<Rightarrow>
    (mig_error + unit) \<times> 'c schema_db" where
  "statement e f d = (if answers d = 0 then (Inl e, d) else f (d\<lparr>answers := answers d - 1\<rparr>))"

definition and_then :: "(mig_error + unit) \<times> 'd \<Rightarrow> ('d \<Rightarrow> (mig_error + unit) \<times> 'd) \<Rightarrow> (mig_error + unit) \<times> 'd" where
  "and_then r f = (case fst r of Inl e \<Rightarrow> r | Inr u \<Rightarrow> f (snd r))"

text \<open>\<open>INSERT INTO schema_migrations\<close>: the version is the primary key.\<close>

definition ledger_insert :: "mig_error \<Rightarrow> int \<Rightarrow> string \<Rightarrow> 'c schema_db \<Rightarrow> (mig_error + unit) \<times> 'c schema_db" where
  "ledger_insert e version name d =
     (if version \<in> fst ` set (ledger_rows d) then (Inl e, d)
      else (Inr (), d\<lparr>ledger := Some (ledger_rows d @ [(version, name)])\<rparr>))"

section \<open>The directory\<close>

definition up_suffix :: "string \<Rightarrow> bool" where
  "up_suffix name \<longleftrightarrow> starts_with (rev ''.up.sql'') (rev name)"

definition parse_migration :: "string \<Rightarrow> mig_error + migration" where
  "parse_migration name =
     (case split_first ''_'' name of
        None \<Rightarrow> Inl (NoPrefix name)
      | Some (prefix, rest) \<Rightarrow>
          if prefix = [] then Inl (NoPrefix name)
          else case ParseInt prefix of
            None \<Rightarrow> Inl (InvalidVersion name)
          | Some version \<Rightarrow>
              if version < 1 then Inl (InvalidVersion name) else Inr \<lparr>mig_version = version, mig_name = name\<rparr>)"

fun parse_entries :: "(string \<times> bool) list \<Rightarrow> mig_error + migration list" where
  "parse_entries [] = Inr []"
| "parse_entries ((name, is_dir) # entries) =
     (if is_dir \<or> \<not> up_suffix name then parse_entries entries
      else bind_res (parse_migration name) (\<lambda>m. bind_res (parse_entries entries) (\<lambda>ms. Inr (m # ms))))"

fun duplicate_version :: "migration list \<Rightarrow> int option" where
  "duplicate_version (m # n # ms) =
     (if mig_version m = mig_version n then Some (mig_version n) else duplicate_version (n # ms))"
| "duplicate_version ms = None"

definition loadMigrations :: "'c mig_env \<Rightarrow> mig_error + migration list" where
  "loadMigrations env =
     (case read_dir env of
        None \<Rightarrow> Inl ReadDirectory
      | Some entries \<Rightarrow>
          bind_res (parse_entries entries) (\<lambda>ms.
          let migrations = sort_key mig_version ms in
          case duplicate_version migrations of Some v \<Rightarrow> Inl (DuplicateVersion v) | None \<Rightarrow> Inr migrations))"

section \<open>Legacy schemas\<close>

definition legacy_tables :: "(int \<times> string \<times> string) list" where
  "legacy_tables =
     [(1, ''000001_initial.up.sql'', ''alerts''),
      (2, ''000002_stream_events.up.sql'', ''stream_events''),
      (3, ''000003_alert_history.up.sql'', ''alert_history''),
      (4, ''000004_auth_sources.up.sql'', ''sessions''),
      (5, ''000005_oidc_transactions.up.sql'', ''oidc_login_transactions''),
      (7, ''000007_oidc_authorization.up.sql'', ''users'')]"

text \<open>Each known migration with whether the catalog has what it creates, in the order of the checks.\<close>

definition legacy_schema :: "'c mig_env \<Rightarrow> 'c \<Rightarrow> (int \<times> string \<times> bool) list" where
  "legacy_schema env c =
     map (\<lambda>(version, name, table). (version, name, to_regclass env c table)) legacy_tables @
     [(6, ''000006_stream_notification_metadata.up.sql'', has_column env c ''stream_events'' ''severity'')]"

fun baseline_known :: "(int \<times> string \<times> bool) list \<Rightarrow> 'c schema_db \<Rightarrow> (mig_error + unit) \<times> 'c schema_db" where
  "baseline_known [] d = (Inr (), d)"
| "baseline_known ((version, name, exists) # known) d =
     and_then (statement (CheckLegacy version) (\<lambda>d.
         if exists then statement (BaselineMigration version) (ledger_insert (BaselineMigration version) version name) d
         else (Inr (), d)) d)
       (baseline_known known)"

definition baselineLegacySchema :: "'c mig_env \<Rightarrow> 'c schema_db \<Rightarrow> (mig_error + unit) \<times> 'c schema_db" where
  "baselineLegacySchema env =
     statement CountApplied (\<lambda>d.
       if ledger_rows d \<noteq> [] then (Inr (), d) else baseline_known (legacy_schema env (catalog d)) d)"

section \<open>Applying\<close>

definition migrate_tx :: "'c mig_env \<Rightarrow> migration \<Rightarrow> string \<Rightarrow> 'c schema_db \<Rightarrow> (mig_error + unit) \<times> 'c schema_db" where
  "migrate_tx env m sql d =
     (case run_sql env sql (catalog d) of
        None \<Rightarrow> (Inl (ApplyMigration (mig_name m)), d)
      | Some c \<Rightarrow>
          (case ledger_insert (ApplyMigration (mig_name m)) (mig_version m) (mig_name m) (d\<lparr>catalog := c\<rparr>) of
             (Inl e, _) \<Rightarrow> (Inl e, d)
           | (Inr u, d') \<Rightarrow> (Inr (), d')))"

definition apply_migration :: "'c mig_env \<Rightarrow> migration \<Rightarrow> 'c schema_db \<Rightarrow> (mig_error + unit) \<times> 'c schema_db" where
  "apply_migration env m =
     statement (CheckMigration (mig_version m)) (\<lambda>d.
       if mig_version m \<in> fst ` set (ledger_rows d) then (Inr (), d)
       else case read_file env (mig_name m) of
         None \<Rightarrow> (Inl (ReadMigration (mig_name m)), d)
       | Some sql \<Rightarrow> statement (ApplyMigration (mig_name m)) (migrate_tx env m sql) d)"

fun apply_all :: "'c mig_env \<Rightarrow> migration list \<Rightarrow> 'c schema_db \<Rightarrow> (mig_error + unit) \<times> 'c schema_db" where
  "apply_all env [] d = (Inr (), d)"
| "apply_all env (m # ms) d = and_then (apply_migration env m d) (apply_all env ms)"

definition create_ledger :: "'c schema_db \<Rightarrow> 'c schema_db" where
  "create_ledger d = d\<lparr>ledger := Some (ledger_rows d)\<rparr>"

definition ApplyMigrations :: "'c mig_env \<Rightarrow> 'c schema_db \<Rightarrow> (mig_error + unit) \<times> 'c schema_db" where
  "ApplyMigrations env d =
     (case loadMigrations env of
        Inl e \<Rightarrow> (Inl e, d)
      | Inr migrations \<Rightarrow>
          statement AcquireConnection (statement AcquireLock (statement CreateLedger (\<lambda>d.
            and_then (baselineLegacySchema env (create_ledger d)) (apply_all env migrations)))) d)"

definition appliedVersions :: "'c schema_db \<Rightarrow> int list" where
  "appliedVersions d = (case ledger d of None \<Rightarrow> [] | Some rows \<Rightarrow> map fst rows)"

definition PendingMigrations :: "'c mig_env \<Rightarrow> 'c schema_db \<Rightarrow> mig_error + string list" where
  "PendingMigrations env d =
     bind_res (loadMigrations env) (\<lambda>migrations.
     if answers d = 0 then Inl ReadApplied
     else Inr (map mig_name (filter (\<lambda>m. mig_version m \<notin> set (appliedVersions d)) migrations)))"

text \<open>What the server checks before it serves: it refuses with the pending names, or because it could not read them.\<close>

datatype start_refusal = CheckFailed mig_error | SchemaBehind "string list"

definition schema_gate :: "'c mig_env \<Rightarrow> 'c schema_db \<Rightarrow> start_refusal + unit" where
  "schema_gate env d =
     (case PendingMigrations env d of
        Inl e \<Rightarrow> Inl (CheckFailed e)
      | Inr pending \<Rightarrow> if pending \<noteq> [] then Inl (SchemaBehind pending) else Inr ())"

section \<open>Specification\<close>

text \<open>The rows a run starts from, the migrations that are not among them, and the catalog after their SQL in order.\<close>

definition baseline_rows :: "'c mig_env \<Rightarrow> 'c \<Rightarrow> (int \<times> string) list" where
  "baseline_rows env c = map (\<lambda>(v, n, _). (v, n)) (filter (\<lambda>(_, _, exists). exists) (legacy_schema env c))"

definition start_rows :: "'c mig_env \<Rightarrow> 'c schema_db \<Rightarrow> (int \<times> string) list" where
  "start_rows env d = (if ledger_rows d = [] then baseline_rows env (catalog d) else ledger_rows d)"

definition unapplied :: "(int \<times> string) list \<Rightarrow> migration list \<Rightarrow> migration list" where
  "unapplied rows = filter (\<lambda>m. mig_version m \<notin> fst ` set rows)"

definition ledger_row :: "migration \<Rightarrow> int \<times> string" where
  "ledger_row m = (mig_version m, mig_name m)"

fun run_all :: "'c mig_env \<Rightarrow> migration list \<Rightarrow> 'c \<Rightarrow> 'c option" where
  "run_all env [] c = Some c"
| "run_all env (m # ms) c =
     (case read_file env (mig_name m) of
        None \<Rightarrow> None
      | Some sql \<Rightarrow> (case run_sql env sql c of None \<Rightarrow> None | Some c' \<Rightarrow> run_all env ms c'))"

text \<open>A database that has a ledger with rows, or nothing that a legacy schema would have left.\<close>

definition settled :: "'c mig_env \<Rightarrow> 'c schema_db \<Rightarrow> bool" where
  "settled env d \<longleftrightarrow> ledger_rows d \<noteq> [] \<or> baseline_rows env (catalog d) = []"

text \<open>Runs one after the other, each on a connection that answers so many statements.\<close>

definition attempts :: "'c mig_env \<Rightarrow> nat list \<Rightarrow> 'c schema_db \<Rightarrow> 'c schema_db" where
  "attempts env ns d = foldl (\<lambda>d n. snd (ApplyMigrations env (d\<lparr>answers := n\<rparr>))) d ns"

text \<open>A directory of two migrations, in which a migration is the name of the table it creates and the catalog the tables there are.\<close>

definition sample_migrations :: "string list mig_env" where
  "sample_migrations =
     \<lparr>read_dir = Some [(''000002_stream_events.up.sql'', False), (''000001_initial.up.sql'', False), (''000001_initial.down.sql'', False)],
      read_file = (\<lambda>name. Some (if name = ''000001_initial.up.sql'' then ''alerts'' else ''stream_events'')),
      run_sql = (\<lambda>table tables. if table \<in> set tables then None else Some (table # tables)),
      to_regclass = (\<lambda>tables table. table \<in> set tables), has_column = (\<lambda>tables table column. False)\<rparr>"

definition new_database :: "string list schema_db" where
  "new_database = \<lparr>ledger = None, catalog = [], answers = 0\<rparr>"

definition legacy_database :: "string list schema_db" where
  "legacy_database = \<lparr>ledger = None, catalog = [''alerts'', ''stream_events''], answers = 0\<rparr>"

section \<open>Lemmas\<close>

lemma ledger_rows_update [simp]:
  "ledger_rows (d\<lparr>answers := n\<rparr>) = ledger_rows d" "ledger_rows (d\<lparr>catalog := c\<rparr>) = ledger_rows d"
  "ledger_rows (d\<lparr>ledger := Some rows\<rparr>) = rows" "ledger_rows (create_ledger d) = ledger_rows d"
  by (simp_all add: ledger_rows_def create_ledger_def)

lemma create_ledger_simps [simp]: "catalog (create_ledger d) = catalog d" "answers (create_ledger d) = answers d"
  by (simp_all add: create_ledger_def)

lemma and_then_simps [simp]: "and_then (Inl e, d) f = (Inl e, d)" "and_then (Inr u, d) f = f d"
  by (simp_all add: and_then_def)

lemma statement_simps [simp]:
  "answers d = 0 \<Longrightarrow> statement e f d = (Inl e, d)"
  "0 < answers d \<Longrightarrow> statement e f d = f (d\<lparr>answers := answers d - 1\<rparr>)"
  by (simp_all add: statement_def)

lemma mem_appliedVersions [simp]: "set (appliedVersions d) = fst ` set (ledger_rows d)"
  by (cases "ledger d") (simp_all add: appliedVersions_def ledger_rows_def)

lemma duplicate_version_None:
  "sorted (map mig_version ms) \<Longrightarrow> duplicate_version ms = None \<Longrightarrow> distinct (map mig_version ms)"
proof (induction ms rule: duplicate_version.induct)
  case (1 m n ms)
  then have "mig_version m < mig_version n" "\<forall>k \<in> set ms. mig_version n \<le> mig_version k" "distinct (map mig_version (n # ms))"
    by (auto split: if_splits)
  then show ?case by auto
qed simp_all

lemma loadMigrations_ordered:
  assumes "loadMigrations env = Inr ms"
  shows "sorted (map mig_version ms)" "distinct (map mig_version ms)"
  using assms duplicate_version_None [of "sort_key mig_version xs" for xs]
  by (auto simp: loadMigrations_def bind_res_Inr Let_def split: option.splits)

lemma run_all_append:
  "run_all env (ms @ ns) c = (case run_all env ms c of None \<Rightarrow> None | Some c' \<Rightarrow> run_all env ns c')"
  by (induction ms arbitrary: c) (auto split: option.splits)

lemma unapplied_Cons: "unapplied rows (m # ms) = (if mig_version m \<in> fst ` set rows then unapplied rows ms else m # unapplied rows ms)"
  by (simp add: unapplied_def)

lemma unapplied_append:
  "unapplied (rows @ map ledger_row done_ms) ms = filter (\<lambda>m. mig_version m \<notin> mig_version ` set done_ms) (unapplied rows ms)"
  by (simp add: unapplied_def ledger_row_def image_image image_Un)

lemma unapplied_other: "mig_version m \<notin> mig_version ` set ms \<Longrightarrow> unapplied (rows @ [ledger_row m]) ms = unapplied rows ms"
  unfolding unapplied_def by (rule filter_cong) (auto simp: ledger_row_def image_iff)

text \<open>One migration: recorded and skipped, or its SQL and its row together, or nothing.\<close>

lemma apply_migration_cases:
  assumes "apply_migration env m d = (r, d')"
  obtains (skipped) "r = Inr ()" "mig_version m \<in> fst ` set (ledger_rows d)" "catalog d' = catalog d" "ledger_rows d' = ledger_rows d"
    | (applied) "r = Inr ()" "mig_version m \<notin> fst ` set (ledger_rows d)" "run_all env [m] (catalog d) = Some (catalog d')"
        "ledger_rows d' = ledger_rows d @ [ledger_row m]"
    | (failed) e where "r = Inl e" "catalog d' = catalog d" "ledger_rows d' = ledger_rows d"
proof (cases "answers d = 0")
  case True
  then show ?thesis using assms failed by (auto simp: apply_migration_def)
next
  case answered: False
  show ?thesis
  proof (cases "mig_version m \<in> fst ` set (ledger_rows d)")
    case True
    then show ?thesis using assms answered skipped by (auto simp: apply_migration_def)
  next
    case False
    show ?thesis
    proof (cases "answers d = 1 \<or> run_all env [m] (catalog d) = None")
      case True
      then have "(\<exists>e. r = Inl e) \<and> catalog d' = catalog d \<and> ledger_rows d' = ledger_rows d"
        using assms answered False
        by (auto simp: apply_migration_def migrate_tx_def statement_def split: option.splits if_splits)
      then show ?thesis using failed by blast
    next
      case ready: False
      then have "r = Inr () \<and> run_all env [m] (catalog d) = Some (catalog d') \<and> ledger_rows d' = ledger_rows d @ [ledger_row m]"
        using assms answered False
        by (auto simp: apply_migration_def migrate_tx_def statement_def ledger_insert_def ledger_row_def split: option.splits if_splits)
      then show ?thesis using applied False by blast
    qed
  qed
qed

lemma apply_migration_enough:
  assumes "2 \<le> answers d" "mig_version m \<in> fst ` set (ledger_rows d) \<or> run_all env [m] (catalog d) \<noteq> None"
  shows "\<exists>d'. apply_migration env m d = (Inr (), d') \<and> answers d \<le> answers d' + 2"
  using assms
  by (auto simp: apply_migration_def migrate_tx_def ledger_insert_def split: option.splits)

text \<open>A run over the migrations applies a prefix of those that are unapplied, all of them when it succeeds.\<close>

lemma apply_all_prefix:
  assumes "apply_all env ms d = (r, d')" "distinct (map mig_version ms)"
  shows "\<exists>applied rest. unapplied (ledger_rows d) ms = applied @ rest \<and>
      run_all env applied (catalog d) = Some (catalog d') \<and> ledger_rows d' = ledger_rows d @ map ledger_row applied \<and>
      (r = Inr () \<longrightarrow> rest = [])"
  using assms
proof (induction ms arbitrary: d)
  case Nil
  then show ?case by (auto simp: unapplied_def)
next
  case (Cons m ms)
  obtain r1 d1 where one: "apply_migration env m d = (r1, d1)" by fastforce
  from one show ?case
  proof (cases rule: apply_migration_cases)
    case skipped
    then show ?thesis using Cons.IH [of d1] Cons.prems one by (simp add: unapplied_Cons)
  next
    case applied
    with Cons.IH [of d1] Cons.prems one obtain done_ms rest where
      "unapplied (ledger_rows d1) ms = done_ms @ rest" "run_all env done_ms (catalog d1) = Some (catalog d')"
      "ledger_rows d' = ledger_rows d1 @ map ledger_row done_ms" "r = Inr () \<longrightarrow> rest = []"
      by auto
    moreover have "unapplied (ledger_rows d1) ms = unapplied (ledger_rows d) ms"
      using applied Cons.prems by (simp add: unapplied_other)
    ultimately show ?thesis
      using applied run_all_append [of env "[m]" done_ms "catalog d"]
      by (intro exI [of _ "m # done_ms"] exI [of _ rest]) (simp add: unapplied_Cons)
  next
    case (failed e)
    then show ?thesis using Cons.prems one by (intro exI [of _ "[]"] exI [of _ "unapplied (ledger_rows d) (m # ms)"]) auto
  qed
qed

lemma apply_all_enough:
  assumes "2 * length ms \<le> answers d" "distinct (map mig_version ms)" "run_all env (unapplied (ledger_rows d) ms) (catalog d) \<noteq> None"
  shows "\<exists>d'. apply_all env ms d = (Inr (), d') \<and> answers d \<le> answers d' + 2 * length ms"
  using assms
proof (induction ms arbitrary: d)
  case (Cons m ms)
  have possible: "mig_version m \<in> fst ` set (ledger_rows d) \<or> run_all env [m] (catalog d) \<noteq> None"
    using Cons.prems(3) by (auto simp: unapplied_Cons split: option.splits if_splits)
  have "2 \<le> answers d" using Cons.prems(1) by simp
  from apply_migration_enough [OF this possible] obtain d1
    where one: "apply_migration env m d = (Inr (), d1)" "answers d \<le> answers d1 + 2" by blast
  from one(1) have "run_all env (unapplied (ledger_rows d1) ms) (catalog d1) \<noteq> None"
  proof (cases rule: apply_migration_cases)
    case skipped
    then show ?thesis using Cons.prems by (simp add: unapplied_Cons)
  next
    case applied
    then show ?thesis
      using Cons.prems run_all_append [of env "[m]" "unapplied (ledger_rows d) ms" "catalog d"]
      by (simp add: unapplied_Cons unapplied_other)
  qed simp
  with Cons.IH [of d1] Cons.prems one show ?case by force
qed simp

text \<open>Recording a legacy schema touches only the ledger, and stops short only when a statement fails.\<close>

lemma baseline_known_prefix:
  assumes "baseline_known ks d = (r, d')" "distinct (map fst ks)" "fst ` set ks \<inter> fst ` set (ledger_rows d) = {}"
  shows "catalog d' = catalog d \<and> (\<exists>base missing. map (\<lambda>(v, n, _). (v, n)) (filter (\<lambda>(_, _, exists). exists) ks) = base @ missing \<and>
      ledger_rows d' = ledger_rows d @ base \<and> (r = Inr () \<longrightarrow> missing = []))"
  using assms
proof (induction ks arbitrary: d)
  case Nil
  then show ?case by auto
next
  case (Cons k ks)
  obtain v n b where k: "k = (v, n, b)" by (cases k) auto
  consider (lost) "answers d < (if b then 2 else 1)" | (on) "(if b then 2 else 1) \<le> answers d" by linarith
  then show ?case
  proof cases
    case lost
    then show ?thesis using Cons.prems by (auto simp: k statement_def split: if_splits)
  next
    case on
    define d1 where "d1 = (if b then d\<lparr>answers := answers d - 2, ledger := Some (ledger_rows d @ [(v, n)])\<rparr> else d\<lparr>answers := answers d - 1\<rparr>)"
    have "baseline_known ks d1 = (r, d')"
      using Cons.prems(1,3) on
      by (auto simp: k d1_def ledger_insert_def numeral_2_eq_2 split: if_splits)
    moreover have "fst ` set ks \<inter> fst ` set (ledger_rows d1) = {}" "catalog d1 = catalog d"
      using Cons.prems(2,3) by (auto simp: k d1_def)
    ultimately show ?thesis using Cons.IH [of d1] Cons.prems(2) by (force simp: k d1_def)
  qed
qed

lemma baseline_known_enough:
  assumes "2 * length ks \<le> answers d" "distinct (map fst ks)" "fst ` set ks \<inter> fst ` set (ledger_rows d) = {}"
  shows "\<exists>d'. baseline_known ks d = (Inr (), d') \<and> answers d \<le> answers d' + 2 * length ks"
  using assms
proof (induction ks arbitrary: d)
  case (Cons k ks)
  obtain v n b where k: "k = (v, n, b)" by (cases k) auto
  define d1 where "d1 = (if b then d\<lparr>answers := answers d - 2, ledger := Some (ledger_rows d @ [(v, n)])\<rparr> else d\<lparr>answers := answers d - 1\<rparr>)"
  have "baseline_known (k # ks) d = baseline_known ks d1"
    using Cons.prems by (auto simp: k d1_def ledger_insert_def numeral_2_eq_2)
  moreover have "fst ` set ks \<inter> fst ` set (ledger_rows d1) = {}" "answers d \<le> answers d1 + 2" "2 * length ks \<le> answers d1"
    using Cons.prems by (auto simp: k d1_def)
  ultimately show ?case using Cons.IH [of d1] Cons.prems(2) by force
qed simp

lemma legacy_schema_versions: "map fst (legacy_schema env c) = [1, 2, 3, 4, 5, 7, 6]"
  by (simp add: legacy_schema_def legacy_tables_def)

lemma baseline_prefix:
  assumes "baselineLegacySchema env d = (r, d')"
  shows "catalog d' = catalog d \<and> (\<exists>base missing. start_rows env d = base @ missing \<and> ledger_rows d' = base \<and>
      (r = Inr () \<or> ledger_rows d \<noteq> [] \<longrightarrow> missing = []))"
proof (cases "answers d = 0 \<or> ledger_rows d \<noteq> []")
  case True
  then show ?thesis using assms by (auto simp: baselineLegacySchema_def start_rows_def statement_def split: if_splits)
next
  case False
  then show ?thesis
    using assms baseline_known_prefix [of "legacy_schema env (catalog d)" "d\<lparr>answers := answers d - 1\<rparr>" r d']
    by (auto simp: baselineLegacySchema_def start_rows_def baseline_rows_def legacy_schema_versions)
qed

lemma baseline_enough:
  assumes "15 \<le> answers d"
  shows "\<exists>d'. baselineLegacySchema env d = (Inr (), d') \<and> answers d \<le> answers d' + 15"
proof (cases "ledger_rows d = []")
  case True
  have "length (legacy_schema env (catalog d)) = 7" by (simp add: legacy_schema_def legacy_tables_def)
  moreover have "14 \<le> answers d - 1" using assms by simp
  ultimately obtain d' where "baseline_known (legacy_schema env (catalog d)) (d\<lparr>answers := answers d - 1\<rparr>) = (Inr (), d')"
      "answers d - 1 \<le> answers d' + 14"
    using baseline_known_enough [of "legacy_schema env (catalog d)" "d\<lparr>answers := answers d - 1\<rparr>"]
    using True by (auto simp: legacy_schema_versions)
  then show ?thesis using True assms by (auto simp: baselineLegacySchema_def)
next
  case False
  then show ?thesis using assms by (auto simp: baselineLegacySchema_def)
qed

text \<open>A run: some of the legacy rows, then, once they are all there, some of the migrations that are unapplied.\<close>

lemma ApplyMigrations_prefix:
  assumes "ApplyMigrations env d = (r, d')" "loadMigrations env = Inr ms"
  shows "\<exists>base missing applied rest. start_rows env d = base @ missing \<and> unapplied (start_rows env d) ms = applied @ rest \<and>
      run_all env applied (catalog d) = Some (catalog d') \<and> ledger_rows d' = base @ map ledger_row applied \<and>
      (missing \<noteq> [] \<longrightarrow> applied = []) \<and> (r = Inr () \<or> ledger_rows d \<noteq> [] \<longrightarrow> missing = []) \<and> (r = Inr () \<longrightarrow> rest = [])"
proof (cases "answers d < 3")
  case True
  then have "r \<noteq> Inr ()" "catalog d' = catalog d" "ledger_rows d' = ledger_rows d"
    using assms by (auto simp: ApplyMigrations_def statement_def split: if_splits)
  then show ?thesis
    by (intro exI [of _ "ledger_rows d"] exI [of _ "if ledger_rows d = [] then start_rows env d else []"]
        exI [of _ "[]"] exI [of _ "unapplied (start_rows env d) ms"]) (simp add: start_rows_def)
next
  case False
  let ?d = "create_ledger (d\<lparr>answers := answers d - 3\<rparr>)"
  obtain r1 d1 where base: "baselineLegacySchema env ?d = (r1, d1)" by fastforce
  have run: "and_then (r1, d1) (apply_all env ms) = (r, d')"
    using assms False base by (simp add: ApplyMigrations_def numeral_3_eq_3)
  have same: "start_rows env ?d = start_rows env d" "ledger_rows ?d = ledger_rows d" "catalog ?d = catalog d"
    by (simp_all add: start_rows_def)
  obtain got missing where got: "catalog d1 = catalog d" "start_rows env d = got @ missing" "ledger_rows d1 = got"
      "r1 = Inr () \<or> ledger_rows d \<noteq> [] \<longrightarrow> missing = []"
    using baseline_prefix [OF base] unfolding same by blast
  show ?thesis
  proof (cases r1)
    case (Inl e)
    then show ?thesis using run got
      by (intro exI [of _ got] exI [of _ missing] exI [of _ "[]"] exI [of _ "unapplied (start_rows env d) ms"]) auto
  next
    case (Inr u)
    then have "apply_all env ms d1 = (r, d')" "missing = []" using run got(4) by simp_all
    then show ?thesis
      using apply_all_prefix [OF _ loadMigrations_ordered(2) [OF assms(2)], of env d1 r d'] got by auto
  qed
qed

lemma ApplyMigrations_enough:
  assumes "loadMigrations env = Inr ms" "18 + 2 * length ms \<le> answers d" "run_all env (unapplied (start_rows env d) ms) (catalog d) \<noteq> None"
  shows "\<exists>d'. ApplyMigrations env d = (Inr (), d')"
proof -
  let ?d = "create_ledger (d\<lparr>answers := answers d - 3\<rparr>)"
  have same: "start_rows env ?d = start_rows env d" "catalog ?d = catalog d" by (simp_all add: start_rows_def)
  obtain d1 where base: "baselineLegacySchema env ?d = (Inr (), d1)" "answers d \<le> answers d1 + 18"
    using baseline_enough [of ?d env] assms(2) by fastforce
  have "ledger_rows d1 = start_rows env d" "catalog d1 = catalog d"
    using baseline_prefix [OF base(1)] unfolding same by auto
  then obtain d2 where "apply_all env ms d1 = (Inr (), d2)"
    using apply_all_enough [OF _ loadMigrations_ordered(2) [OF assms(1)], of d1 env] assms(2,3) base(2) by auto
  then show ?thesis using assms(1,2) base by (auto simp: ApplyMigrations_def numeral_3_eq_3)
qed

lemma settled_start: "settled env d \<Longrightarrow> start_rows env d = ledger_rows d"
  by (auto simp: settled_def start_rows_def)

lemma settled_answers [simp]: "settled env (d\<lparr>answers := n\<rparr>) = settled env d"
  by (simp add: settled_def)

text \<open>What attempts leave of a settled database: a prefix of its unapplied migrations is done.\<close>

lemma settled_attempt:
  assumes "settled env d" "loadMigrations env = Inr ms" "ApplyMigrations env d = (r, d')"
  shows "settled env d' \<and> (\<exists>applied. unapplied (ledger_rows d) ms = applied @ unapplied (ledger_rows d') ms \<and>
      run_all env applied (catalog d) = Some (catalog d') \<and> ledger_rows d' = ledger_rows d @ map ledger_row applied)"
proof -
  obtain applied rest where a: "unapplied (ledger_rows d) ms = applied @ rest" "run_all env applied (catalog d) = Some (catalog d')"
      "ledger_rows d' = ledger_rows d @ map ledger_row applied"
  proof -
    obtain base missing applied rest where p: "ledger_rows d = base @ missing" "unapplied (ledger_rows d) ms = applied @ rest"
        "run_all env applied (catalog d) = Some (catalog d')" "ledger_rows d' = base @ map ledger_row applied"
        "ledger_rows d \<noteq> [] \<longrightarrow> missing = []"
      using ApplyMigrations_prefix [OF assms(3,2)] unfolding settled_start [OF assms(1)] by blast
    then show ?thesis using that [of applied rest] by (cases "ledger_rows d = []") simp_all
  qed
  have "distinct (map mig_version (applied @ rest))"
    unfolding a(1) [symmetric] unapplied_def using loadMigrations_ordered(2) [OF assms(2)] by (simp add: distinct_map_filter)
  then have "unapplied (ledger_rows d') ms = rest"
    unfolding a(3) unapplied_append a(1) by (auto simp: filter_empty_conv intro!: filter_True)
  moreover have "settled env d'"
    using assms(1) a(2,3) by (cases applied) (auto simp: settled_def)
  ultimately show ?thesis using a by auto
qed

lemma settled_attempts:
  assumes "settled env d" "loadMigrations env = Inr ms"
  shows "settled env (attempts env ns d) \<and> (\<exists>applied. unapplied (ledger_rows d) ms = applied @ unapplied (ledger_rows (attempts env ns d)) ms \<and>
      run_all env applied (catalog d) = Some (catalog (attempts env ns d)) \<and>
      ledger_rows (attempts env ns d) = ledger_rows d @ map ledger_row applied)"
  using assms
proof (induction ns arbitrary: d)
  case Nil
  then show ?case by (auto simp: attempts_def)
next
  case (Cons n ns)
  obtain r d1 where one: "ApplyMigrations env (d\<lparr>answers := n\<rparr>) = (r, d1)" by fastforce
  obtain applied where a: "settled env d1" "unapplied (ledger_rows d) ms = applied @ unapplied (ledger_rows d1) ms"
      "run_all env applied (catalog d) = Some (catalog d1)" "ledger_rows d1 = ledger_rows d @ map ledger_row applied"
    using settled_attempt [OF _ Cons.prems(2) one] Cons.prems(1) by auto
  from Cons.IH [OF a(1) Cons.prems(2)] obtain more where
    "settled env (attempts env ns d1)" "unapplied (ledger_rows d1) ms = more @ unapplied (ledger_rows (attempts env ns d1)) ms"
    "run_all env more (catalog d1) = Some (catalog (attempts env ns d1))"
    "ledger_rows (attempts env ns d1) = ledger_rows d1 @ map ledger_row more" by blast
  moreover have "attempts env (n # ns) d = attempts env ns d1" by (simp add: attempts_def one)
  ultimately show ?case using a by (intro conjI exI [of _ "applied @ more"]) (auto simp: run_all_append)
qed

text \<open>With enough answers a run on a settled database applies all that is left, or fails where the SQL does.\<close>

lemma settled_run:
  assumes "settled env d" "loadMigrations env = Inr ms" "18 + 2 * length ms \<le> answers d"
  shows "case run_all env (unapplied (ledger_rows d) ms) (catalog d) of
      None \<Rightarrow> fst (ApplyMigrations env d) \<noteq> Inr ()
    | Some c \<Rightarrow> \<exists>d'. ApplyMigrations env d = (Inr (), d') \<and> catalog d' = c \<and>
        ledger_rows d' = ledger_rows d @ map ledger_row (unapplied (ledger_rows d) ms)"
proof -
  obtain r d' where run: "ApplyMigrations env d = (r, d')" by fastforce
  note enough = ApplyMigrations_enough [OF assms(2,3), unfolded settled_start [OF assms(1)]]
  note prefix = ApplyMigrations_prefix [OF run assms(2), unfolded settled_start [OF assms(1)]]
  show ?thesis
  proof (cases "run_all env (unapplied (ledger_rows d) ms) (catalog d)")
    case None
    then show ?thesis using prefix run by auto
  next
    case (Some c)
    then have "r = Inr ()" using enough run by auto
    then show ?thesis using prefix Some run by auto
  qed
qed

lemma sample_migrations_simps [simp]:
  "read_file sample_migrations name = Some (if name = ''000001_initial.up.sql'' then ''alerts'' else ''stream_events'')"
  "run_sql sample_migrations table tables = (if table \<in> set tables then None else Some (table # tables))"
  "to_regclass sample_migrations tables table \<longleftrightarrow> table \<in> set tables" "\<not> has_column sample_migrations tables table column"
  by (simp_all add: sample_migrations_def)

lemmas sample_rows = start_rows_def baseline_rows_def legacy_schema_def legacy_tables_def ledger_rows_def unapplied_def

lemma new_database_simps [simp]:
  "ledger_rows new_database = []" "catalog new_database = []" "start_rows sample_migrations (new_database\<lparr>answers := n\<rparr>) = []"
  by (simp_all add: new_database_def sample_rows)

lemma sample_load:
  "loadMigrations sample_migrations =
     Inr [\<lparr>mig_version = 1, mig_name = ''000001_initial.up.sql''\<rparr>, \<lparr>mig_version = 2, mig_name = ''000002_stream_events.up.sql''\<rparr>]"
  by code_simp

section \<open>Properties\<close>

text \<open>C26: a run of the migrations that succeeds. The SQL of exactly the migrations that were not recorded ran, each once and in
  the order of their versions, each is recorded with its row, and the server accepts the database; another run changes neither the
  schema nor the ledger.\<close>

theorem migrations_complete:
  assumes "ApplyMigrations env d = (Inr (), d')"
  shows "\<exists>ms. loadMigrations env = Inr ms \<and> sorted (map mig_version (unapplied (start_rows env d) ms)) \<and>
      run_all env (unapplied (start_rows env d) ms) (catalog d) = Some (catalog d') \<and>
      ledger_rows d' = start_rows env d @ map ledger_row (unapplied (start_rows env d) ms) \<and>
      schema_gate env (d'\<lparr>answers := 1\<rparr>) = Inr () \<and>
      (\<exists>d''. ApplyMigrations env (d'\<lparr>answers := 18 + 2 * length ms\<rparr>) = (Inr (), d'') \<and>
         ledger_rows d'' = ledger_rows d' \<and> catalog d'' = catalog d')"
proof -
  from assms obtain ms where ms: "loadMigrations env = Inr ms" by (auto simp: ApplyMigrations_def split: sum.splits)
  let ?todo = "unapplied (start_rows env d) ms"
  have after: "run_all env ?todo (catalog d) = Some (catalog d')" "ledger_rows d' = start_rows env d @ map ledger_row ?todo"
    using ApplyMigrations_prefix [OF assms ms] by auto
  have "unapplied (ledger_rows d') ms = []"
    unfolding after(2) unapplied_append by (simp add: filter_empty_conv)
  moreover have "settled env d'"
    using after by (cases ?todo) (auto simp: settled_def start_rows_def split: if_splits)
  ultimately have "\<exists>d''. ApplyMigrations env (d'\<lparr>answers := 18 + 2 * length ms\<rparr>) = (Inr (), d'') \<and>
      ledger_rows d'' = ledger_rows d' \<and> catalog d'' = catalog d'"
    "schema_gate env (d'\<lparr>answers := 1\<rparr>) = Inr ()"
    using settled_run [OF _ ms, of "d'\<lparr>answers := 18 + 2 * length ms\<rparr>"]
    by (auto simp: schema_gate_def PendingMigrations_def ms unapplied_def)
  moreover have "sorted (map mig_version ?todo)"
    unfolding unapplied_def using loadMigrations_ordered(1) [OF ms] by (rule sorted_filter)
  ultimately show ?thesis using ms after by blast
qed

theorem migrations_complete_witness:
  "\<exists>d'. ApplyMigrations sample_migrations (new_database\<lparr>answers := 22\<rparr>) = (Inr (), d') \<and>
     catalog d' = [''stream_events'', ''alerts''] \<and> schema_gate sample_migrations (d'\<lparr>answers := 1\<rparr>) = Inr ()"
proof -
  obtain d' where run: "ApplyMigrations sample_migrations (new_database\<lparr>answers := 22\<rparr>) = (Inr (), d')"
    using ApplyMigrations_enough [OF sample_load, of "new_database\<lparr>answers := 22\<rparr>"]
    by (auto simp: unapplied_def)
  from migrations_complete [OF run] show ?thesis
    unfolding sample_load
    by (auto simp: run unapplied_def)
qed

text \<open>C27: interrupted migrations resume. On a database with a ledger, or with nothing a legacy schema would have left, any
  number of runs that stop anywhere followed by one that gets its answers end as one run would have: with the same schema and
  the same ledger when the SQL of the migrations succeeds, and refused when it does not.\<close>

theorem interrupted_migrations_resume:
  assumes "settled env d" "loadMigrations env = Inr ms" "18 + 2 * length ms \<le> n"
  shows "case ApplyMigrations env (d\<lparr>answers := n\<rparr>) of
      (Inl e, _) \<Rightarrow> \<exists>e' d''. ApplyMigrations env ((attempts env ns d)\<lparr>answers := n\<rparr>) = (Inl e', d'')
    | (Inr u, d') \<Rightarrow> \<exists>d''. ApplyMigrations env ((attempts env ns d)\<lparr>answers := n\<rparr>) = (Inr (), d'') \<and>
        ledger_rows d'' = ledger_rows d' \<and> catalog d'' = catalog d'"
proof -
  let ?a = "attempts env ns d"
  obtain applied where a: "settled env ?a" "unapplied (ledger_rows d) ms = applied @ unapplied (ledger_rows ?a) ms"
      "run_all env applied (catalog d) = Some (catalog ?a)" "ledger_rows ?a = ledger_rows d @ map ledger_row applied"
    using settled_attempts [OF assms(1,2)] by blast
  have same: "run_all env (unapplied (ledger_rows d) ms) (catalog d) = run_all env (unapplied (ledger_rows ?a) ms) (catalog ?a)"
    unfolding a(2) run_all_append a(3) by simp
  have rows: "ledger_rows d @ map ledger_row (unapplied (ledger_rows d) ms) =
      ledger_rows ?a @ map ledger_row (unapplied (ledger_rows ?a) ms)"
    unfolding a(2) by (subst (2) a(4)) simp
  obtain r1 d1 r2 d2 where runs: "ApplyMigrations env (d\<lparr>answers := n\<rparr>) = (r1, d1)" "ApplyMigrations env (?a\<lparr>answers := n\<rparr>) = (r2, d2)"
    by fastforce
  have once: "case run_all env (unapplied (ledger_rows ?a) ms) (catalog ?a) of None \<Rightarrow> r1 \<noteq> Inr ()
      | Some c \<Rightarrow> r1 = Inr () \<and> catalog d1 = c \<and> ledger_rows d1 = ledger_rows ?a @ map ledger_row (unapplied (ledger_rows ?a) ms)"
    using settled_run [of env "d\<lparr>answers := n\<rparr>", OF _ assms(2)] assms(1,3)
    by (simp add: same [symmetric] rows [symmetric] runs split: option.splits)
  have again: "case run_all env (unapplied (ledger_rows ?a) ms) (catalog ?a) of None \<Rightarrow> r2 \<noteq> Inr ()
      | Some c \<Rightarrow> r2 = Inr () \<and> catalog d2 = c \<and> ledger_rows d2 = ledger_rows ?a @ map ledger_row (unapplied (ledger_rows ?a) ms)"
    using settled_run [of env "?a\<lparr>answers := n\<rparr>", OF _ assms(2)] a(1) assms(3)
    by (simp add: runs split: option.splits)
  show ?thesis
    using once again unfolding runs
    by (cases "run_all env (unapplied (ledger_rows ?a) ms) (catalog ?a)"; cases r1; cases r2) auto
qed


theorem interrupted_migrations_resume_witness:
  "\<exists>d''. ApplyMigrations sample_migrations ((attempts sample_migrations [3, 14, 0] new_database)\<lparr>answers := 22\<rparr>) = (Inr (), d'') \<and>
     catalog d'' = [''stream_events'', ''alerts'']"
proof -
  have settled: "settled sample_migrations new_database"
    by (simp add: settled_def baseline_rows_def legacy_schema_def legacy_tables_def new_database_def)
  obtain d' where "ApplyMigrations sample_migrations (new_database\<lparr>answers := 22\<rparr>) = (Inr (), d')" "catalog d' = [''stream_events'', ''alerts'']"
    using settled_run [OF _ sample_load, of "new_database\<lparr>answers := 22\<rparr>"] settled
    by (auto simp: unapplied_def)
  with interrupted_migrations_resume [OF settled sample_load, of 22 "[3, 14, 0]"] show ?thesis by auto
qed

text \<open>C28: an interrupted baseline is never completed. The rows of a legacy schema are inserted one by one outside a transaction
  and only into an empty ledger, so a run that loses its connection between two of them leaves a database on which every
  later run fails, at a migration whose tables are there already, though one run would have succeeded.\<close>

theorem interrupted_baseline_stuck:
  "fst (ApplyMigrations sample_migrations (legacy_database\<lparr>answers := 22\<rparr>)) = Inr () \<and>
   (\<forall>n. fst (ApplyMigrations sample_migrations ((attempts sample_migrations [6] legacy_database)\<lparr>answers := n\<rparr>)) \<noteq> Inr ())"
proof (intro conjI allI)
  show "fst (ApplyMigrations sample_migrations (legacy_database\<lparr>answers := 22\<rparr>)) = Inr ()"
    using ApplyMigrations_enough [OF sample_load, of "legacy_database\<lparr>answers := 22\<rparr>"]
    by (auto simp: legacy_database_def sample_rows)
next
  fix n
  let ?d = "attempts sample_migrations [6] legacy_database"
  have stopped: "ledger_rows ?d = [(1, ''000001_initial.up.sql'')]" "catalog ?d = [''alerts'', ''stream_events'']"
    by code_simp+
  obtain r d' where run: "ApplyMigrations sample_migrations (?d\<lparr>answers := n\<rparr>) = (r, d')" by fastforce
  have "run_all sample_migrations (unapplied (start_rows sample_migrations (?d\<lparr>answers := n\<rparr>))
      [\<lparr>mig_version = 1, mig_name = ''000001_initial.up.sql''\<rparr>, \<lparr>mig_version = 2, mig_name = ''000002_stream_events.up.sql''\<rparr>])
      (catalog (?d\<lparr>answers := n\<rparr>)) = None"
    by (simp add: start_rows_def stopped unapplied_def)
  then have "r \<noteq> Inr ()" using ApplyMigrations_prefix [OF run sample_load] by auto
  then show "fst (ApplyMigrations sample_migrations (?d\<lparr>answers := n\<rparr>)) \<noteq> Inr ()" by (simp add: run)
qed

end
