(* ===== verification/Accounts.thy ===== *)
theory Accounts
  imports Store "HOL-Library.Product_Lexorder"
begin

text \<open>
  Who may do what: the tables of users, identities, role bindings and view groups, the
  administration of role bindings (\<open>internal/postgres/access.go\<close>, \<open>store.go\<close>), the
  upsert of a directory identity, and \<open>resolvePrincipal\<close>, which every session and every
  stream goes through.

  A binding is kept with its selectors in the order of their ordinals, a view group likewise. An
  operation of the store is given the state and \<open>now\<close>, the time of its transaction, and returns
  the state it commits; a transaction that fails leaves the state as it was. Reads do not fail.
  \<open>pg_regex\<close> says that PostgreSQL accepts a regular expression, \<open>strxfrm\<close> gives the sort
  keys of the database's collation and \<open>lower\<close> is \<open>lower\<close> of PostgreSQL.
\<close>

section \<open>State\<close>

datatype access_error =
  InvalidRoleBinding binding_error | LastAdministrator | AccessDenied
| InvalidViewGroup view_group_error | ViewGroupRegex | PinUserMissing | ViewGroupNotFound | ViewGroupPinned
| AccountExists | AccountNotFound | InvalidCredentials | Unauthenticated | CodeInvalid | InvalidTransaction
| NoSubject | AccessMessage string | AccessDatabase

record user_row =
  user_id :: int
  user_email :: string
  user_display_name :: string
  user_enabled :: bool
  user_last_login_at :: "instant option"

record identity_row =
  identity_id :: int
  identity_user :: int
  identity_issuer :: string
  identity_subject :: string
  identity_username :: string
  identity_email :: string
  identity_display_name :: string
  identity_last_seen_at :: instant

record binding_row =
  rb_id :: int
  rb_name :: string
  rb_kind :: string
  rb_user :: "int option"
  rb_issuer :: "string option"
  rb_group :: "string option"
  rb_role :: Role
  rb_matchers :: "LabelMatcher list"

record view_group_row =
  vgr_id :: int
  vgr_name :: string
  vgr_description :: string
  vgr_matchers :: "LabelMatcher list"

record pin_row =
  pr_id :: int
  pr_view_group :: int
  pr_kind :: string
  pr_user :: "int option"
  pr_issuer :: "string option"
  pr_group :: "string option"

record accounts =
  users :: "user_row list"
  identities :: "identity_row list"
  identity_groups :: "(int \<times> string) list"
  role_bindings :: "binding_row list"
  view_groups :: "view_group_row list"
  view_group_members :: "(int \<times> int) list"
  view_group_pins :: "pin_row list"
  next_user :: int
  next_identity :: int
  next_binding :: int
  next_view_group :: int
  next_pin :: int

section \<open>Resolving a principal\<close>

text \<open>The groups a user belongs to in a directory: \<open>EXISTS (SELECT 1 FROM auth_identities \<dots>)\<close>.\<close>

definition member_of :: "accounts \<Rightarrow> int \<Rightarrow> string option \<Rightarrow> string option \<Rightarrow> bool" where
  "member_of a uid issuer grp \<longleftrightarrow>
     list_ex (\<lambda>i. identity_user i = uid \<and> issuer = Some (identity_issuer i) \<and>
       list_ex (\<lambda>(m, g). m = identity_id i \<and> grp = Some g) (identity_groups a)) (identities a)"

definition subject_applies ::
  "accounts \<Rightarrow> int \<Rightarrow> string \<Rightarrow> int option \<Rightarrow> string option \<Rightarrow> string option \<Rightarrow> bool" where
  "subject_applies a uid kind user issuer grp \<longleftrightarrow>
     (kind = ''user'' \<and> user = Some uid) \<or>
     ((kind = ''oidc_group'' \<or> kind = ''ldap_group'') \<and> member_of a uid issuer grp)"

definition binding_applies :: "accounts \<Rightarrow> int \<Rightarrow> binding_row \<Rightarrow> bool" where
  "binding_applies a uid b = subject_applies a uid (rb_kind b) (rb_user b) (rb_issuer b) (rb_group b)"

definition pinnedToUser :: "accounts \<Rightarrow> int \<Rightarrow> int \<Rightarrow> bool" where
  "pinnedToUser a groupID uid \<longleftrightarrow>
     list_ex (\<lambda>p. pr_view_group p = groupID \<and> subject_applies a uid (pr_kind p) (pr_user p) (pr_issuer p) (pr_group p))
       (view_group_pins a)"

text \<open>The inner join leaves out a view group without selectors.\<close>

definition viewGroupMatchers :: "accounts \<Rightarrow> int \<Rightarrow> LabelMatcher list list" where
  "viewGroupMatchers a uid =
     map vgr_matchers (filter (\<lambda>g. vgr_matchers g \<noteq> [])
       (sort_key vgr_id (filter (\<lambda>g. (vgr_id g, uid) \<in> set (view_group_members a) \<or> pinnedToUser a (vgr_id g) uid)
         (view_groups a))))"

text \<open>The identity seen last, of two seen at the same time the one with the higher id.\<close>

definition latest_identity :: "accounts \<Rightarrow> int \<Rightarrow> identity_row option" where
  "latest_identity a uid =
     (case rev (sort_key identity_last_seen_at
             (sort_key identity_id (filter (\<lambda>i. identity_user i = uid) (identities a)))) of
        [] \<Rightarrow> None | i # is \<Rightarrow> Some i)"

definition principal_grants :: "accounts \<Rightarrow> int \<Rightarrow> Grant list" where
  "principal_grants a uid =
     map (\<lambda>b. \<lparr>grant_Role = rb_role b, grant_Matchers = rb_matchers b\<rparr>)
       (sort_key rb_id (filter (binding_applies a uid) (role_bindings a)))"

definition resolvePrincipal :: "accounts \<Rightarrow> int \<Rightarrow> access_error + Principal" where
  "resolvePrincipal a uid =
     (case find (\<lambda>u. user_id u = uid) (users a) of
        None \<Rightarrow> Inl AccessDenied
      | Some u \<Rightarrow>
          if \<not> user_enabled u then Inl AccessDenied
          else
            let subject = (case latest_identity a uid of None \<Rightarrow> ''''
                           | Some i \<Rightarrow> identity_issuer i @ ''|'' @ identity_subject i);
                grants = principal_grants a uid;
                caller = \<lparr>UserID = user_id u, Subject = subject, Email = user_email u,
                  DisplayName = user_display_name u, Roles = RolesFromGrants grants, Anonymous = False,
                  Grants = grants, ViewGroups = []\<rparr>
            in if \<not> CanRead caller then Inl AccessDenied
               else Inr (caller\<lparr>ViewGroups := viewGroupMatchers a uid\<rparr>))"

section \<open>Role bindings\<close>

definition ValidateRoleBinding ::
  "(string \<Rightarrow> (string \<times> string) option) \<Rightarrow> RoleBinding \<Rightarrow> access_error + unit" where
  "ValidateRoleBinding url_parse binding =
     (case validateRoleBinding url_parse binding of Inl e \<Rightarrow> Inl (InvalidRoleBinding e) | Inr u \<Rightarrow> Inr ())"

definition administrators :: "accounts \<Rightarrow> binding_row list" where
  "administrators a = filter (\<lambda>b. rb_role b = RoleAdministrator) (role_bindings a)"

text \<open>The transactions on bindings run at \<open>READ COMMITTED\<close> and take no lock on the rows they count, so each of their statements sees
  what was committed when it started. They are given a state for each: \<open>counted\<close> and \<open>named\<close> are what the two statements of the
  guard read, \<open>a\<close> is what the writes meet. Without another transaction in between the three are the same.\<close>

definition guardLastAdministrator :: "string \<Rightarrow> bool \<Rightarrow> accounts \<Rightarrow> accounts \<Rightarrow> access_error + unit" where
  "guardLastAdministrator name stillAdministrator counted named =
     (if length (administrators counted) = 0 then Inr ()
      else if list_ex (\<lambda>b. rb_name b = name \<and> rb_role b = RoleAdministrator) (role_bindings named) \<and>
        length (administrators counted) = 1 \<and> \<not> stillAdministrator then Inl LastAdministrator
      else Inr ())"

text \<open>\<open>SELECT '' ~ $1\<close> for every selector with a regular expression.\<close>

definition regex_selectors_ok :: "(string \<Rightarrow> bool) \<Rightarrow> LabelMatcher list \<Rightarrow> bool" where
  "regex_selectors_ok pg_regex ms =
     list_all (\<lambda>m. (matcher_Operator m = ''=~'' \<or> matcher_Operator m = ''!~'') \<longrightarrow>
       text_ok (matcher_Value m) \<and> pg_regex (matcher_Value m)) ms"

text \<open>What the tables of selectors accept.\<close>

definition selectors_ok :: "LabelMatcher list \<Rightarrow> bool" where
  "selectors_ok ms =
     list_all (\<lambda>m. matcher_Operator m \<in> {''='', ''!='', ''=~'', ''!~''} \<and> text_ok (matcher_Name m) \<and>
       text_ok (matcher_Value m)) ms"

definition nullif :: "'a \<Rightarrow> 'a \<Rightarrow> 'a option" where
  "nullif v w = (if v = w then None else Some v)"

text \<open>The checks on the subject columns of \<open>role_bindings\<close> and \<open>view_group_pins\<close>, with the
  reference to \<open>users\<close>.\<close>

definition subject_check :: "string \<Rightarrow> int option \<Rightarrow> string option \<Rightarrow> string option \<Rightarrow> bool" where
  "subject_check kind user issuer grp \<longleftrightarrow>
     (kind = ''user'' \<and> user \<noteq> None \<and> issuer = None \<and> grp = None) \<or>
     ((kind = ''oidc_group'' \<or> kind = ''ldap_group'') \<and> user = None \<and> issuer \<noteq> None \<and> grp \<noteq> None)"

definition user_exists :: "accounts \<Rightarrow> int option \<Rightarrow> bool" where
  "user_exists a user = (case user of None \<Rightarrow> True | Some uid \<Rightarrow> uid \<in> user_id ` set (users a))"

definition binding_row_of :: "int \<Rightarrow> RoleBinding \<Rightarrow> binding_row" where
  "binding_row_of i binding =
     \<lparr>rb_id = i, rb_name = binding_Name binding, rb_kind = binding_SubjectKind binding,
      rb_user = nullif (binding_UserID binding) 0, rb_issuer = nullif (binding_SubjectIssuer binding) '''',
      rb_group = nullif (binding_SubjectGroup binding) '''', rb_role = binding_Role binding,
      rb_matchers = binding_Matchers binding\<rparr>"

definition binding_storable :: "accounts \<Rightarrow> RoleBinding \<Rightarrow> bool" where
  "binding_storable a binding \<longleftrightarrow>
     (let r = binding_row_of 0 binding in
      text_ok (rb_name r) \<and> text_ok (rb_kind r) \<and> pred_option text_ok (rb_issuer r) \<and>
      pred_option text_ok (rb_group r) \<and> subject_check (rb_kind r) (rb_user r) (rb_issuer r) (rb_group r) \<and>
      rb_role r \<in> {RoleViewer, RoleOperator, RoleAdministrator} \<and> user_exists a (rb_user r))"

text \<open>\<open>INSERT \<dots> ON CONFLICT (name) DO UPDATE\<close>: a row keeps its id, a new one takes the next.\<close>

definition put_binding :: "RoleBinding \<Rightarrow> accounts \<Rightarrow> accounts" where
  "put_binding binding a =
     (case find (\<lambda>b. rb_name b = binding_Name binding) (role_bindings a) of
        Some old \<Rightarrow> a\<lparr>role_bindings := upd_where (\<lambda>b. rb_name b = binding_Name binding)
          (\<lambda>b. binding_row_of (rb_id b) binding) (role_bindings a), next_binding := next_binding a + 1\<rparr>
      | None \<Rightarrow> a\<lparr>role_bindings := role_bindings a @ [binding_row_of (next_binding a) binding],
          next_binding := next_binding a + 1\<rparr>)"

definition SetRoleBinding ::
  "(string \<Rightarrow> (string \<times> string) option) \<Rightarrow> (string \<Rightarrow> bool) \<Rightarrow> RoleBinding \<Rightarrow> accounts \<Rightarrow> accounts \<Rightarrow> accounts \<Rightarrow>
   access_error + accounts" where
  "SetRoleBinding url_parse pg_regex binding counted named a =
     bind_res (ValidateRoleBinding url_parse binding) (\<lambda>_.
     bind_res (guardLastAdministrator (binding_Name binding) (binding_Role binding = RoleAdministrator) counted named) (\<lambda>_.
     if \<not> regex_selectors_ok pg_regex (binding_Matchers binding) then Inl AccessDatabase
     else if \<not> binding_storable a binding then Inl AccessDatabase
     else if \<not> selectors_ok (binding_Matchers binding) then Inl AccessDatabase
     else Inr (put_binding binding a)))"

definition DeleteRoleBinding :: "string \<Rightarrow> accounts \<Rightarrow> accounts \<Rightarrow> accounts \<Rightarrow> access_error + accounts" where
  "DeleteRoleBinding name counted named a =
     (if \<not> text_ok name then Inl AccessDatabase
      else bind_res (guardLastAdministrator name False counted named)
        (\<lambda>_. Inr (a\<lparr>role_bindings := filter (\<lambda>b. rb_name b \<noteq> name) (role_bindings a)\<rparr>)))"

definition coalesced :: "'a option \<Rightarrow> 'a \<Rightarrow> 'a" where
  "coalesced v d = (case v of None \<Rightarrow> d | Some x \<Rightarrow> x)"

definition binding_of_row :: "binding_row \<Rightarrow> RoleBinding" where
  "binding_of_row b =
     \<lparr>binding_Name = rb_name b, binding_SubjectKind = rb_kind b, binding_UserID = coalesced (rb_user b) 0,
      binding_SubjectIssuer = coalesced (rb_issuer b) '''', binding_SubjectGroup = coalesced (rb_group b) '''',
      binding_Role = rb_role b, binding_Matchers = rb_matchers b\<rparr>"

text \<open>The rows of the left join: a binding with an empty selector if it has none, otherwise once
  with each.\<close>

definition join_matchers :: "binding_row \<Rightarrow> (RoleBinding \<times> LabelMatcher) list" where
  "join_matchers b =
     (let head = (binding_of_row b)\<lparr>binding_Matchers := []\<rparr>;
          empty = \<lparr>matcher_Name = '''', matcher_Operator = '''', matcher_Value = ''''\<rparr>
      in if rb_matchers b = [] then [(head, empty)] else map (\<lambda>m. (head, m)) (rb_matchers b))"

text \<open>The scanning loop: consecutive rows with one name are one binding, and a row whose label name
  is empty adds no selector.\<close>

definition collect_binding :: "RoleBinding list \<Rightarrow> RoleBinding \<times> LabelMatcher \<Rightarrow> RoleBinding list" where
  "collect_binding bindings row =
     (let (before, binding) =
            (if bindings \<noteq> [] \<and> binding_Name (last bindings) = binding_Name (fst row)
             then (butlast bindings, last bindings) else (bindings, fst row));
          binding = (if matcher_Name (snd row) \<noteq> ''''
                     then binding\<lparr>binding_Matchers := binding_Matchers binding @ [snd row]\<rparr> else binding)
      in before @ [binding])"

definition RoleBindings :: "(string \<Rightarrow> string) \<Rightarrow> accounts \<Rightarrow> RoleBinding list" where
  "RoleBindings strxfrm a =
     foldl collect_binding []
       (concat (map join_matchers (sort_key (\<lambda>b. (strxfrm (rb_name b), rb_name b)) (role_bindings a))))"

section \<open>Directory identities\<close>

record DirectoryIdentity =
  dir_Issuer :: string
  dir_Subject :: string
  dir_Username :: string
  dir_Email :: string
  dir_DisplayName :: string
  dir_Groups :: "string list"

definition display_name :: "DirectoryIdentity \<Rightarrow> string" where
  "display_name identity =
     (let displayName = dir_DisplayName identity;
          displayName = (if displayName = '''' then dir_Username identity else displayName);
          displayName = (if displayName = '''' then dir_Email identity else displayName)
      in if displayName = '''' then dir_Subject identity else displayName)"

definition LocalIssuer :: string where
  "LocalIssuer = ''local''"

text \<open>The unique index on the usernames of local identities.\<close>

definition local_name_free :: "(string \<Rightarrow> string) \<Rightarrow> int option \<Rightarrow> string \<Rightarrow> string \<Rightarrow> accounts \<Rightarrow> bool" where
  "local_name_free lower skip issuer username a \<longleftrightarrow>
     issuer \<noteq> LocalIssuer \<or>
     \<not> list_ex (\<lambda>i. skip \<noteq> Some (identity_id i) \<and> identity_issuer i = LocalIssuer \<and>
         lower (identity_username i) = lower username) (identities a)"

text \<open>The user and the identity: both created when the directory's identity is new, both brought up
  to date otherwise.\<close>

definition upsert_identity ::
  "(string \<Rightarrow> string) \<Rightarrow> instant \<Rightarrow> DirectoryIdentity \<Rightarrow> accounts \<Rightarrow> access_error + int \<times> int \<times> accounts" where
  "upsert_identity lower now identity a =
     (let name = display_name identity in
      if \<not> list_all text_ok [dir_Issuer identity, dir_Subject identity, dir_Username identity, dir_Email identity, name]
      then Inl AccessDatabase
      else case find (\<lambda>i. identity_issuer i = dir_Issuer identity \<and> identity_subject i = dir_Subject identity) (identities a) of
        None \<Rightarrow>
          if \<not> local_name_free lower None (dir_Issuer identity) (dir_Username identity) a then Inl AccessDatabase
          else Inr (next_identity a, next_user a,
            a\<lparr>users := users a @ [\<lparr>user_id = next_user a, user_email = dir_Email identity, user_display_name = name,
                 user_enabled = True, user_last_login_at = Some now\<rparr>],
              identities := identities a @ [\<lparr>identity_id = next_identity a, identity_user = next_user a,
                 identity_issuer = dir_Issuer identity, identity_subject = dir_Subject identity,
                 identity_username = dir_Username identity, identity_email = dir_Email identity,
                 identity_display_name = name, identity_last_seen_at = now\<rparr>],
              next_user := next_user a + 1, next_identity := next_identity a + 1\<rparr>)
      | Some i \<Rightarrow>
          if \<not> local_name_free lower (Some (identity_id i)) (dir_Issuer identity) (dir_Username identity) a
          then Inl AccessDatabase
          else Inr (identity_id i, identity_user i,
            a\<lparr>users := upd_where (\<lambda>u. user_id u = identity_user i)
                 (\<lambda>u. u\<lparr>user_email := dir_Email identity, user_display_name := name, user_last_login_at := Some now\<rparr>) (users a),
              identities := upd_where (\<lambda>j. identity_id j = identity_id i)
                 (\<lambda>j. j\<lparr>identity_username := dir_Username identity, identity_email := dir_Email identity,
                    identity_display_name := name, identity_last_seen_at := now\<rparr>) (identities a)\<rparr>))"

text \<open>The loop over the groups, with \<open>ON CONFLICT DO NOTHING\<close>.\<close>

fun add_groups :: "int \<Rightarrow> string list \<Rightarrow> (int \<times> string) list \<Rightarrow> (int \<times> string) list" where
  "add_groups i [] gs = gs"
| "add_groups i (g # groups) gs =
     add_groups i groups (if g = '''' \<or> (i, g) \<in> set gs then gs else gs @ [(i, g)])"

definition ResolveDirectoryIdentity ::
  "(string \<Rightarrow> string) \<Rightarrow> instant \<Rightarrow> DirectoryIdentity \<Rightarrow> accounts \<Rightarrow> accounts \<times> (access_error + Principal)" where
  "ResolveDirectoryIdentity lower now identity a =
     (if dir_Issuer identity = '''' \<or> dir_Subject identity = ''''
      then (a, Inl (AccessMessage ''OIDC issuer and subject are required''))
      else case upsert_identity lower now identity a of
        Inl e \<Rightarrow> (a, Inl e)
      | Inr (i, uid, a') \<Rightarrow>
          if \<not> list_all text_ok (dir_Groups identity) then (a, Inl AccessDatabase)
          else let a'' = a'\<lparr>identity_groups :=
                     add_groups i (dir_Groups identity) (filter (\<lambda>(m, g). m \<noteq> i) (identity_groups a'))\<rparr>
               in (a'', resolvePrincipal a'' uid))"

section \<open>Diagnostics\<close>

record IdentityDiagnostic =
  diag_UserID :: int
  diag_Issuer :: string
  diag_Subject :: string
  diag_Username :: string
  diag_Email :: string
  diag_DisplayName :: string
  diag_LastSeenAt :: instant
  diag_Groups :: "string list"

definition AuthorizationDiagnostics ::
  "(string \<Rightarrow> string) \<Rightarrow> accounts \<Rightarrow> IdentityDiagnostic list \<times> RoleBinding list" where
  "AuthorizationDiagnostics strxfrm a =
     (map (\<lambda>i. \<lparr>diag_UserID = identity_user i, diag_Issuer = identity_issuer i, diag_Subject = identity_subject i,
          diag_Username = identity_username i, diag_Email = identity_email i, diag_DisplayName = identity_display_name i,
          diag_LastSeenAt = identity_last_seen_at i,
          diag_Groups = sort_key (\<lambda>g. (strxfrm g, g)) (map snd (filter (\<lambda>(m, g). m = identity_id i) (identity_groups a)))\<rparr>)
        (sort_key identity_user (sort_key identity_id (identities a))),
      map (\<lambda>b. (binding_of_row b)\<lparr>binding_Matchers := []\<rparr>)
        (sort_key (\<lambda>b. (strxfrm (rb_name b), rb_name b)) (role_bindings a)))"

section \<open>Constraints\<close>

text \<open>The constraints of the tables.\<close>

definition identities_ok :: "accounts \<Rightarrow> bool" where
  "identities_ok a \<longleftrightarrow>
     0 < next_user a \<and> distinct (map user_id (users a)) \<and> set (map user_id (users a)) \<subseteq> {0<..<next_user a} \<and>
     distinct (map identity_id (identities a)) \<and> set (map identity_id (identities a)) \<subseteq> {..<next_identity a} \<and>
     set (map identity_user (identities a)) \<subseteq> set (map user_id (users a)) \<and>
     distinct (map (\<lambda>i. (identity_issuer i, identity_subject i)) (identities a)) \<and>
     distinct (identity_groups a) \<and> set (map fst (identity_groups a)) \<subseteq> set (map identity_id (identities a))"

definition binding_row_ok :: "accounts \<Rightarrow> binding_row \<Rightarrow> bool" where
  "binding_row_ok a b \<longleftrightarrow>
     rb_id b < next_binding a \<and> user_exists a (rb_user b) \<and>
     subject_check (rb_kind b) (rb_user b) (rb_issuer b) (rb_group b) \<and>
     rb_role b \<in> {RoleViewer, RoleOperator, RoleAdministrator}"

definition bindings_ok :: "accounts \<Rightarrow> bool" where
  "bindings_ok a \<longleftrightarrow>
     distinct (map rb_id (role_bindings a)) \<and> distinct (map rb_name (role_bindings a)) \<and>
     (\<forall>b \<in> set (role_bindings a). binding_row_ok a b)"

definition accounts_ok :: "accounts \<Rightarrow> bool" where
  "accounts_ok a \<longleftrightarrow> identities_ok a \<and> bindings_ok a"

text \<open>The operations that write these tables, administration and sign-in, run one after the other.\<close>

inductive access_step ::
  "(string \<Rightarrow> (string \<times> string) option) \<Rightarrow> (string \<Rightarrow> bool) \<Rightarrow> (string \<Rightarrow> string) \<Rightarrow> accounts \<Rightarrow> accounts \<Rightarrow> bool"
  for url_parse pg_regex lower where
  set_binding: "SetRoleBinding url_parse pg_regex binding a a a = Inr a' \<Longrightarrow> access_step url_parse pg_regex lower a a'"
| delete_binding: "DeleteRoleBinding name a a a = Inr a' \<Longrightarrow> access_step url_parse pg_regex lower a a'"
| sign_in: "ResolveDirectoryIdentity lower now identity a = (a', r) \<Longrightarrow> access_step url_parse pg_regex lower a a'"

text \<open>
  The same operations overlapping, at most \<open>limit\<close> transactions on bindings at a time. A transaction starts by counting the
  administrators, then reads the named binding, each time in the state committed by then, and then writes and commits, or
  rolls back. What it writes is seen by nobody before it commits, so the writes and the commit are one step.
\<close>

datatype binding_change = PutBinding RoleBinding | DropBinding string

datatype binding_tx = Counted binding_change accounts | Guarded binding_change accounts accounts

definition commit_change ::
  "(string \<Rightarrow> (string \<times> string) option) \<Rightarrow> (string \<Rightarrow> bool) \<Rightarrow> binding_change \<Rightarrow> accounts \<Rightarrow> accounts \<Rightarrow> accounts \<Rightarrow>
   access_error + accounts" where
  "commit_change url_parse pg_regex change counted named a =
     (case change of
        PutBinding binding \<Rightarrow> SetRoleBinding url_parse pg_regex binding counted named a
      | DropBinding name \<Rightarrow> DeleteRoleBinding name counted named a)"

inductive overlap_step ::
  "(string \<Rightarrow> (string \<times> string) option) \<Rightarrow> (string \<Rightarrow> bool) \<Rightarrow> (string \<Rightarrow> string) \<Rightarrow> nat \<Rightarrow>
   accounts \<times> binding_tx list \<Rightarrow> accounts \<times> binding_tx list \<Rightarrow> bool"
  for url_parse pg_regex lower limit where
  count: "length txs < limit \<Longrightarrow> overlap_step url_parse pg_regex lower limit (a, txs) (a, txs @ [Counted change a])"
| check: "overlap_step url_parse pg_regex lower limit (a, us @ Counted change counted # vs) (a, us @ Guarded change counted a # vs)"
| commit: "commit_change url_parse pg_regex change counted named a = Inr a' \<Longrightarrow>
    overlap_step url_parse pg_regex lower limit (a, us @ Guarded change counted named # vs) (a', us @ vs)"
| rollback: "overlap_step url_parse pg_regex lower limit (a, us @ tx # vs) (a, us @ vs)"
| directory: "ResolveDirectoryIdentity lower now identity a = (a', r) \<Longrightarrow>
    overlap_step url_parse pg_regex lower limit (a, txs) (a', txs)"

text \<open>What a transaction under way has read is what is stored.\<close>

definition reads_current :: "accounts \<Rightarrow> binding_tx \<Rightarrow> bool" where
  "reads_current a tx =
     (case tx of
        Counted change counted \<Rightarrow> role_bindings counted = role_bindings a
      | Guarded change counted named \<Rightarrow> role_bindings counted = role_bindings a \<and> role_bindings named = role_bindings a)"

text \<open>What the administration API shows of a binding.\<close>

definition listed_binding :: "binding_row \<Rightarrow> RoleBinding" where
  "listed_binding b =
     (binding_of_row b)\<lparr>binding_Matchers := filter (\<lambda>m. matcher_Name m \<noteq> []) (rb_matchers b)\<rparr>"

text \<open>Sample tables: one local user, in no group, with an administrator binding.\<close>

definition sample_accounts :: accounts where
  "sample_accounts =
     \<lparr>users = [\<lparr>user_id = 7, user_email = [], user_display_name = ''Alice'', user_enabled = True, user_last_login_at = None\<rparr>],
      identities = [\<lparr>identity_id = 1, identity_user = 7, identity_issuer = ''local'', identity_subject = ''7'',
        identity_username = ''alice'', identity_email = [], identity_display_name = ''Alice'', identity_last_seen_at = 1\<rparr>],
      identity_groups = [],
      role_bindings = [\<lparr>rb_id = 1, rb_name = ''root'', rb_kind = ''user'', rb_user = Some 7, rb_issuer = None, rb_group = None,
        rb_role = RoleAdministrator, rb_matchers = []\<rparr>],
      view_groups = [], view_group_members = [], view_group_pins = [], next_user = 8, next_identity = 2,
      next_binding = 2, next_view_group = 1, next_pin = 1\<rparr>"

definition sample_binding :: RoleBinding where
  "sample_binding = \<lparr>binding_Name = ''web'', binding_SubjectKind = ''user'', binding_UserID = 7,
     binding_SubjectIssuer = [], binding_SubjectGroup = [], binding_Role = RoleOperator,
     binding_Matchers = [\<lparr>matcher_Name = ''team'', matcher_Operator = ''='', matcher_Value = ''web''\<rparr>]\<rparr>"

section \<open>Lemmas\<close>

subsection \<open>Listing\<close>

lemma collect_matchers:
  assumes "binding_Name h' = binding_Name h"
  shows "foldl collect_binding (bs @ [h]) (map (\<lambda>m. (h', m)) ms) =
    bs @ [h\<lparr>binding_Matchers := binding_Matchers h @ filter (\<lambda>m. matcher_Name m \<noteq> []) ms\<rparr>]"
  using assms
proof (induction ms arbitrary: h)
  case (Cons m ms)
  then show ?case by (simp add: collect_binding_def)
qed simp

lemma collect_row:
  assumes "bs = [] \<or> binding_Name (last bs) \<noteq> rb_name b"
  shows "foldl collect_binding bs (join_matchers b) = bs @ [listed_binding b]"
proof (cases "rb_matchers b")
  case Nil
  then show ?thesis
    using assms by (auto simp: join_matchers_def collect_binding_def listed_binding_def binding_of_row_def Let_def)
next
  case (Cons m ms)
  let ?head = "(binding_of_row b)\<lparr>binding_Matchers := []\<rparr>"
  have "collect_binding bs (?head, m) = bs @ [?head\<lparr>binding_Matchers := filter (\<lambda>m. matcher_Name m \<noteq> []) [m]\<rparr>]"
    using assms by (auto simp: collect_binding_def binding_of_row_def)
  then show ?thesis
    using Cons collect_matchers [of ?head "?head\<lparr>binding_Matchers := filter (\<lambda>m. matcher_Name m \<noteq> []) [m]\<rparr>" bs ms] assms
    by (auto simp: join_matchers_def Let_def listed_binding_def binding_of_row_def)
qed

lemma collect_rows:
  assumes "distinct (map rb_name rows)" "bs = [] \<or> binding_Name (last bs) \<notin> rb_name ` set rows"
  shows "foldl collect_binding bs (concat (map join_matchers rows)) = bs @ map listed_binding rows"
  using assms
proof (induction rows arbitrary: bs)
  case (Cons b rows)
  have "foldl collect_binding bs (join_matchers b) = bs @ [listed_binding b]"
    using Cons.prems(2) by (intro collect_row) auto
  moreover have "binding_Name (listed_binding b) = rb_name b" by (simp add: listed_binding_def binding_of_row_def)
  ultimately show ?case using Cons.IH [of "bs @ [listed_binding b]"] Cons.prems(1) by simp
qed simp

lemma RoleBindings_rows:
  assumes "accounts_ok a"
  shows "RoleBindings strxfrm a =
    map listed_binding (sort_key (\<lambda>b. (strxfrm (rb_name b), rb_name b)) (role_bindings a))"
proof -
  have "distinct (map rb_name (role_bindings a))" using assms by (simp add: accounts_ok_def bindings_ok_def)
  then have "distinct (map rb_name (sort_key (\<lambda>b. (strxfrm (rb_name b), rb_name b)) (role_bindings a)))"
    by (simp add: distinct_map)
  then show ?thesis by (simp add: RoleBindings_def collect_rows)
qed

subsection \<open>Setting and deleting a binding\<close>

lemma binding_row_of_fields [simp]:
  "rb_id (binding_row_of i b) = i" "rb_name (binding_row_of i b) = binding_Name b"
  "rb_role (binding_row_of i b) = binding_Role b" "rb_matchers (binding_row_of i b) = binding_Matchers b"
  by (simp_all add: binding_row_of_def)

lemma binding_of_row_of [simp]: "binding_of_row (binding_row_of i b) = b"
  by (simp add: binding_of_row_def binding_row_of_def coalesced_def nullif_def)

lemma put_binding_rows:
  assumes "accounts_ok a"
  obtains i where
    "set (role_bindings (put_binding b a)) =
      insert (binding_row_of i b) {r \<in> set (role_bindings a). rb_name r \<noteq> binding_Name b}"
    "distinct (map rb_name (role_bindings (put_binding b a)))" "distinct (map rb_id (role_bindings (put_binding b a)))"
    "i < next_binding (put_binding b a)"
proof (cases "find (\<lambda>r. rb_name r = binding_Name b) (role_bindings a)")
  case None
  then have new: "\<forall>r \<in> set (role_bindings a). rb_name r \<noteq> binding_Name b" by (auto simp: find_None_iff)
  have ok: "distinct (map rb_name (role_bindings a))" "distinct (map rb_id (role_bindings a))"
    "\<forall>r \<in> set (role_bindings a). rb_id r < next_binding a"
    using assms by (simp_all add: accounts_ok_def bindings_ok_def binding_row_ok_def)
  show thesis
  proof (rule that [of "next_binding a"])
    show "set (role_bindings (put_binding b a)) =
        insert (binding_row_of (next_binding a) b) {r \<in> set (role_bindings a). rb_name r \<noteq> binding_Name b}"
      using None new by (auto simp: put_binding_def)
  qed (use None new ok in \<open>auto simp: put_binding_def\<close>)
next
  case (Some old)
  then have old: "old \<in> set (role_bindings a)" "rb_name old = binding_Name b" by (auto simp: find_Some_iff)
  have ok: "distinct (map rb_name (role_bindings a))" "distinct (map rb_id (role_bindings a))"
    "\<forall>r \<in> set (role_bindings a). rb_id r < next_binding a"
    using assms by (simp_all add: accounts_ok_def bindings_ok_def binding_row_ok_def)
  have only: "r = old" if "r \<in> set (role_bindings a)" "rb_name r = binding_Name b" for r
    using ok(1) old that by (auto simp: distinct_map inj_on_def)
  have rows: "role_bindings (put_binding b a) =
      upd_where (\<lambda>r. rb_name r = binding_Name b) (\<lambda>r. binding_row_of (rb_id r) b) (role_bindings a)"
    using Some by (simp add: put_binding_def)
  show thesis
  proof (rule that [of "rb_id old"])
    show "set (role_bindings (put_binding b a)) =
        insert (binding_row_of (rb_id old) b) {r \<in> set (role_bindings a). rb_name r \<noteq> binding_Name b}"
    proof -
      have "set (role_bindings a) = insert old {r \<in> set (role_bindings a). rb_name r \<noteq> binding_Name b}"
        using old only by blast
      then have "set (role_bindings (put_binding b a)) =
          (\<lambda>r. if rb_name r = binding_Name b then binding_row_of (rb_id r) b else r) `
            insert old {r \<in> set (role_bindings a). rb_name r \<noteq> binding_Name b}"
        unfolding rows set_upd_where by (rule arg_cong)
      also have "\<dots> = insert (binding_row_of (rb_id old) b) {r \<in> set (role_bindings a). rb_name r \<noteq> binding_Name b}"
        using old(2) by (auto simp: image_iff)
      finally show ?thesis .
    qed
    show "distinct (map rb_name (role_bindings (put_binding b a)))"
      "distinct (map rb_id (role_bindings (put_binding b a)))"
      unfolding rows using ok by (simp_all add: map_upd_where_same)
    show "rb_id old < next_binding (put_binding b a)" using ok(3) old(1) Some by (auto simp: put_binding_def)
  qed
qed

lemma user_exists_bindings [simp]: "user_exists (a\<lparr>role_bindings := rows\<rparr>) = user_exists a"
  by (simp add: user_exists_def fun_eq_iff split: option.split)

lemma put_binding_other [simp]:
  "users (put_binding b a) = users a" "identities (put_binding b a) = identities a"
  "identity_groups (put_binding b a) = identity_groups a" "next_user (put_binding b a) = next_user a"
  "next_identity (put_binding b a) = next_identity a" "user_exists (put_binding b a) = user_exists a"
  "next_binding (put_binding b a) = next_binding a + 1"
  "view_groups (put_binding b a) = view_groups a" "view_group_members (put_binding b a) = view_group_members a"
  "view_group_pins (put_binding b a) = view_group_pins a"
  by (simp_all add: put_binding_def user_exists_def fun_eq_iff split: option.split)

lemma SetRoleBinding_Inr:
  assumes "SetRoleBinding url_parse pg_regex b counted named a = Inr a'"
  shows "a' = put_binding b a" "validateRoleBinding url_parse b = Inr ()" "binding_storable a b"
    "selectors_ok (binding_Matchers b)"
    "guardLastAdministrator (binding_Name b) (binding_Role b = RoleAdministrator) counted named = Inr ()"
  using assms by (auto simp: SetRoleBinding_def ValidateRoleBinding_def bind_res_Inr split: sum.splits if_splits)

lemma DeleteRoleBinding_Inr:
  assumes "DeleteRoleBinding name counted named a = Inr a'"
  shows "a' = a\<lparr>role_bindings := filter (\<lambda>b. rb_name b \<noteq> name) (role_bindings a)\<rparr>"
    "guardLastAdministrator name False counted named = Inr ()"
  using assms by (auto simp: DeleteRoleBinding_def bind_res_Inr split: if_splits)

lemma administrators_iff: "administrators a \<noteq> [] \<longleftrightarrow> (\<exists>b \<in> set (role_bindings a). rb_role b = RoleAdministrator)"
  by (auto simp: administrators_def filter_empty_conv)

text \<open>What the guard lets through: an administrator binding other than the named one stays.\<close>

lemma guard_leaves_administrator:
  assumes "guardLastAdministrator name still counted named = Inr ()" "accounts_ok a" "administrators a \<noteq> []"
    "role_bindings counted = role_bindings a" "role_bindings named = role_bindings a"
  shows "still \<or> (\<exists>b \<in> set (role_bindings a). rb_role b = RoleAdministrator \<and> rb_name b \<noteq> name)"
proof (rule ccontr)
  assume "\<not> ?thesis"
  then have no: "\<not> still" "\<And>b. b \<in> set (role_bindings a) \<Longrightarrow> rb_role b = RoleAdministrator \<Longrightarrow> rb_name b = name"
    by auto
  have "distinct (map rb_name (administrators a))"
    using assms(2) by (simp add: accounts_ok_def bindings_ok_def administrators_def distinct_map_filter)
  moreover have "set (map rb_name (administrators a)) \<subseteq> {name}" using no(2) by (auto simp: administrators_def)
  ultimately have "length (administrators a) \<le> 1"
    using card_mono [of "{name}" "set (map rb_name (administrators a))"] distinct_card [of "map rb_name (administrators a)"]
    by simp
  then have "length (administrators a) = 1" using assms(3) by (cases "administrators a") auto
  moreover have "list_ex (\<lambda>b. rb_name b = name \<and> rb_role b = RoleAdministrator) (role_bindings a)"
    using assms(3) no(2) by (auto simp: administrators_iff list_ex_iff)
  moreover have "administrators counted = administrators a" using assms(4) by (simp add: administrators_def)
  ultimately show False using assms(1,5) no(1) by (simp add: guardLastAdministrator_def split: if_splits)
qed

lemma set_keeps:
  assumes "SetRoleBinding url_parse pg_regex b counted named a = Inr a'" "accounts_ok a"
  shows "accounts_ok a'" "administrators a \<noteq> [] \<Longrightarrow> role_bindings counted = role_bindings a \<Longrightarrow>
      role_bindings named = role_bindings a \<Longrightarrow> administrators a' \<noteq> []"
proof -
  obtain i where i: "set (role_bindings (put_binding b a)) =
      insert (binding_row_of i b) {r \<in> set (role_bindings a). rb_name r \<noteq> binding_Name b}"
    "distinct (map rb_name (role_bindings (put_binding b a)))" "distinct (map rb_id (role_bindings (put_binding b a)))"
    "i < next_binding (put_binding b a)"
    by (rule put_binding_rows [OF assms(2)])
  note r = SetRoleBinding_Inr [OF assms(1)]
  have new: "binding_row_ok a' (binding_row_of i b)"
    using r(3) i(4) unfolding r(1) by (simp add: binding_storable_def binding_row_ok_def binding_row_of_def Let_def)
  have keep: "binding_row_ok a' x" if "binding_row_ok a x" for x
    using that unfolding r(1) by (simp add: binding_row_ok_def)
  have "bindings_ok a'"
    using assms(2) i(2,3) new keep unfolding r(1) by (auto simp: accounts_ok_def bindings_ok_def i(1))
  then show "accounts_ok a'"
    using assms(2) unfolding r(1) by (simp add: accounts_ok_def identities_ok_def)
  show "administrators a' \<noteq> []" if "administrators a \<noteq> []" "role_bindings counted = role_bindings a" "role_bindings named = role_bindings a"
    using guard_leaves_administrator [OF r(5) assms(2) that] i(1) unfolding r(1) administrators_iff by auto
qed

lemma delete_keeps:
  assumes "DeleteRoleBinding name counted named a = Inr a'" "accounts_ok a"
  shows "accounts_ok a'" "administrators a \<noteq> [] \<Longrightarrow> role_bindings counted = role_bindings a \<Longrightarrow>
      role_bindings named = role_bindings a \<Longrightarrow> administrators a' \<noteq> []"
proof -
  note r = DeleteRoleBinding_Inr [OF assms(1)]
  show "accounts_ok a'"
    using assms(2) unfolding r(1)
    by (simp add: accounts_ok_def bindings_ok_def binding_row_ok_def identities_ok_def distinct_map_filter)
  show "administrators a' \<noteq> []" if "administrators a \<noteq> []" "role_bindings counted = role_bindings a" "role_bindings named = role_bindings a"
    using guard_leaves_administrator [OF r(2) assms(2) that] unfolding r(1) administrators_iff by auto
qed

subsection \<open>Sign-in\<close>

lemma add_groups_props:
  "distinct gs \<Longrightarrow> distinct (add_groups i groups gs)"
  "set (add_groups i groups gs) = set gs \<union> (\<lambda>g. (i, g)) ` (set groups - {[]})"
  by (induction i groups gs rule: add_groups.induct) auto

lemma upsert_identity_Inr:
  assumes "upsert_identity lower now identity a = Inr (i, uid, a')"
  obtains (new) "find (\<lambda>i. identity_issuer i = dir_Issuer identity \<and> identity_subject i = dir_Subject identity) (identities a) = None"
      "i = next_identity a" "uid = next_user a" "next_user a' = next_user a + 1" "next_identity a' = next_identity a + 1"
      "map user_id (users a') = map user_id (users a) @ [uid]"
      "map identity_id (identities a') = map identity_id (identities a) @ [i]"
      "map identity_user (identities a') = map identity_user (identities a) @ [uid]"
      "map (\<lambda>i. (identity_issuer i, identity_subject i)) (identities a') =
        map (\<lambda>i. (identity_issuer i, identity_subject i)) (identities a) @ [(dir_Issuer identity, dir_Subject identity)]"
    | (old) j where "j \<in> set (identities a)" "i = identity_id j" "uid = identity_user j" "next_user a' = next_user a"
      "next_identity a' = next_identity a" "map user_id (users a') = map user_id (users a)"
      "map identity_id (identities a') = map identity_id (identities a)"
      "map identity_user (identities a') = map identity_user (identities a)"
      "map (\<lambda>i. (identity_issuer i, identity_subject i)) (identities a') =
        map (\<lambda>i. (identity_issuer i, identity_subject i)) (identities a)"
proof (cases "find (\<lambda>i. identity_issuer i = dir_Issuer identity \<and> identity_subject i = dir_Subject identity) (identities a)")
  case None
  show thesis
    by (rule new) (use assms None in \<open>auto simp: upsert_identity_def Let_def split: if_splits\<close>)
next
  case (Some j)
  then have "j \<in> set (identities a)" by (auto simp: find_Some_iff)
  then show thesis
    by (rule old) (use assms Some in \<open>auto simp: upsert_identity_def Let_def map_upd_where_same split: if_splits\<close>)
qed

lemma upsert_identity_other:
  assumes "upsert_identity lower now identity a = Inr (i, uid, a')"
  shows "role_bindings a' = role_bindings a" "next_binding a' = next_binding a" "identity_groups a' = identity_groups a"
  using assms by (auto simp: upsert_identity_def Let_def split: if_splits option.splits)

lemma upsert_identity_users:
  assumes "upsert_identity lower now identity a = Inr (i, uid, a')"
  shows "set (map user_id (users a)) \<subseteq> set (map user_id (users a'))"
  using assms
proof (cases rule: upsert_identity_Inr)
  case new
  show ?thesis unfolding new(6) by auto
next
  case (old j)
  show ?thesis unfolding old(6) by simp
qed

lemma upsert_identity_ok:
  assumes "upsert_identity lower now identity a = Inr (i, uid, a')" "identities_ok a"
  shows "identities_ok a' \<and> i \<in> set (map identity_id (identities a')) \<and> uid \<in> set (map user_id (users a'))"
  using assms(1)
proof (cases rule: upsert_identity_Inr)
  case new
  have "next_user a \<notin> set (map user_id (users a))" "next_identity a \<notin> set (map identity_id (identities a))"
    "(dir_Issuer identity, dir_Subject identity) \<notin> set (map (\<lambda>i. (identity_issuer i, identity_subject i)) (identities a))"
    using assms(2) new(1) by (auto simp: identities_ok_def find_None_iff)
  moreover have "set (map user_id (users a)) \<subseteq> {0<..<next_user a + 1}" "set (map identity_id (identities a)) \<subseteq> {..<next_identity a + 1}"
    using assms(2) by (fastforce simp: identities_ok_def)+
  ultimately show ?thesis
    using assms(2) unfolding identities_ok_def new(2-9) upsert_identity_other(3) [OF assms(1)] distinct_append set_append
    by (auto simp del: set_map)
next
  case (old j)
  have "identities_ok a'"
    using assms(2) unfolding identities_ok_def old(4-9) upsert_identity_other(3) [OF assms(1)] .
  moreover have "identity_user j \<in> set (map user_id (users a))" using assms(2) old(1) by (auto simp: identities_ok_def)
  ultimately show ?thesis using old(1) unfolding old(2,3,6,7) by simp
qed

lemma sign_in_keeps:
  assumes "ResolveDirectoryIdentity lower now identity a = (a', r)" "accounts_ok a"
  shows "accounts_ok a'" "administrators a' = administrators a" "role_bindings a' = role_bindings a"
proof -
  have "accounts_ok a' \<and> role_bindings a' = role_bindings a"
  proof (cases "a' = a")
    case False
    then obtain i uid b where
      u: "upsert_identity lower now identity a = Inr (i, uid, b)" and
      a': "a' = b\<lparr>identity_groups := add_groups i (dir_Groups identity) (filter (\<lambda>(m, g). m \<noteq> i) (identity_groups b))\<rparr>"
      using assms(1) by (auto simp: ResolveDirectoryIdentity_def Let_def split: if_splits sum.splits)
    have b: "identities_ok b" "i \<in> set (map identity_id (identities b))" "identity_groups b = identity_groups a"
      using upsert_identity_ok [OF u] upsert_identity_other [OF u] assms(2) by (simp_all add: accounts_ok_def)
    note rb = upsert_identity_other(1,2) [OF u] upsert_identity_users [OF u]
    have "distinct (identity_groups b)" "set (map fst (identity_groups b)) \<subseteq> set (map identity_id (identities b))"
      using b(1) by (simp_all add: identities_ok_def)
    then have "identities_ok a'"
      using b(1,2) unfolding a' by (auto simp: identities_ok_def add_groups_props)
    moreover have "user_exists a' u" if "user_exists a u" for u
      using that rb(3) unfolding a' by (auto simp: user_exists_def split: option.splits)
    then have "bindings_ok a'"
      using assms(2) rb(1,2) unfolding a' by (auto simp: accounts_ok_def bindings_ok_def binding_row_ok_def)
    ultimately show ?thesis using rb(1) unfolding a' by (simp add: accounts_ok_def)
  qed (use assms(2) in simp)
  then show "accounts_ok a'" "administrators a' = administrators a" "role_bindings a' = role_bindings a"
    by (auto simp: administrators_def)
qed

subsection \<open>Grants\<close>

lemma binding_applies_tables:
  "identities a' = identities a \<Longrightarrow> identity_groups a' = identity_groups a \<Longrightarrow>
    binding_applies a' uid r = binding_applies a uid r"
  by (simp add: binding_applies_def subject_applies_def member_of_def)

lemma principal_grants_set:
  "set (principal_grants a uid) =
    (\<lambda>r. \<lparr>grant_Role = rb_role r, grant_Matchers = rb_matchers r\<rparr>) ` {r \<in> set (role_bindings a). binding_applies a uid r}"
  by (auto simp: principal_grants_def)

lemma RoleBindings_set: "accounts_ok a \<Longrightarrow> set (RoleBindings strxfrm a) = listed_binding ` set (role_bindings a)"
  by (simp add: RoleBindings_rows)

lemma listed_binding_name [simp]: "binding_Name (listed_binding r) = rb_name r"
  by (simp add: listed_binding_def binding_of_row_def)

subsection \<open>Samples\<close>

lemma sample_accounts_ok: "accounts_ok sample_accounts" "administrators sample_accounts \<noteq> []"
  by (simp_all add: sample_accounts_def accounts_ok_def identities_ok_def bindings_ok_def binding_row_ok_def
      user_exists_def subject_check_def administrators_def)

lemma sample_binding_set:
  "SetRoleBinding url_parse pg_regex sample_binding sample_accounts sample_accounts sample_accounts = Inr (put_binding sample_binding sample_accounts)"
  by (simp add: SetRoleBinding_def ValidateRoleBinding_def validateRoleBinding_def validate_subject_def sample_binding_def
      guardLastAdministrator_def administrators_def sample_accounts_def regex_selectors_ok_def binding_storable_def
      binding_row_of_def selectors_ok_def nullif_def subject_check_def user_exists_def is_lower_def
      less_eq_char_def Let_def)

text \<open>Two administrators.\<close>

definition sample_pair :: accounts where
  "sample_pair = sample_accounts\<lparr>role_bindings := role_bindings sample_accounts @
     [\<lparr>rb_id = 2, rb_name = ''second'', rb_kind = ''user'', rb_user = Some 7, rb_issuer = None, rb_group = None,
       rb_role = RoleAdministrator, rb_matchers = []\<rparr>], next_binding := 3\<rparr>"

subsection \<open>Overlapping transactions\<close>

lemma commit_keeps:
  assumes "commit_change url_parse pg_regex change counted named a = Inr a'" "accounts_ok a"
  shows "accounts_ok a'" "administrators a \<noteq> [] \<Longrightarrow> reads_current a (Guarded change counted named) \<Longrightarrow> administrators a' \<noteq> []"
  using assms set_keeps delete_keeps by (cases change; fastforce simp: commit_change_def reads_current_def)+

lemma overlap_keeps:
  assumes "(overlap_step url_parse pg_regex lower limit)\<^sup>*\<^sup>* (a, []) st" "accounts_ok a" "administrators a \<noteq> []"
  shows "accounts_ok (fst st) \<and> length (snd st) \<le> limit \<and>
    (limit \<le> 1 \<longrightarrow> administrators (fst st) \<noteq> [] \<and> list_all (reads_current (fst st)) (snd st))"
  using assms(1)
proof (induction rule: rtranclp_induct)
  case (step st st')
  from step.hyps(2) show ?case
  proof cases
    case (commit change counted named b b' us vs)
    have "Suc (length us + length vs) \<le> limit" using step.IH commit(1) by simp
    then have alone: "us = [] \<and> vs = []" if "limit \<le> 1" using that by (cases us; cases vs) simp_all
    have "accounts_ok b'" using commit_keeps(1) [OF commit(3)] step.IH commit(1) by simp
    moreover have "administrators b' \<noteq> []" if "limit \<le> 1"
      using commit_keeps(2) [OF commit(3)] step.IH commit(1) that by simp
    ultimately show ?thesis using commit(1,2) step.IH alone by (cases "limit \<le> 1") simp_all
  next
    case (directory now identity b b' r txs)
    then have "accounts_ok b" using step.IH by simp
    note keeps = sign_in_keeps [OF directory(3) this]
    then have "reads_current b' = reads_current b" by (simp add: reads_current_def fun_eq_iff split: binding_tx.split)
    then show ?thesis using step.IH keeps directory(1,2) by simp
  qed (use step.IH in \<open>auto simp: reads_current_def\<close>)
qed (use assms in simp)

text \<open>Two administrators who drop each other's binding at the same time both succeed.\<close>

lemma both_dropped:
  "(overlap_step url_parse pg_regex lower 2)\<^sup>*\<^sup>* (sample_pair, []) (sample_pair\<lparr>role_bindings := []\<rparr>, [])"
proof -
  let ?step = "overlap_step url_parse pg_regex lower 2" and ?a = "sample_pair"
  let ?t = "\<lambda>name. Guarded (DropBinding name) ?a ?a" and ?c = "\<lambda>name. Counted (DropBinding name) ?a"
  let ?b = "?a\<lparr>role_bindings := [hd (tl (role_bindings ?a))]\<rparr>"
  have "?step (?a, []) (?a, [?c ''root''])" using overlap_step.count [of "[]" 2 _ _ _ ?a] by simp
  moreover have "?step (?a, [?c ''root'']) (?a, [?c ''root'', ?c ''second''])" using overlap_step.count [of "[?c ''root'']" 2 _ _ _ ?a] by simp
  moreover have "?step (?a, [?c ''root'', ?c ''second'']) (?a, [?t ''root'', ?c ''second''])"
    using overlap_step.check [of _ _ _ 2 ?a "[]"] by simp
  moreover have "?step (?a, [?t ''root'', ?c ''second'']) (?a, [?t ''root'', ?t ''second''])"
    using overlap_step.check [of _ _ _ 2 ?a "[?t ''root'']" _ _ "[]"] by simp
  moreover have "commit_change url_parse pg_regex (DropBinding ''root'') ?a ?a ?a = Inr ?b"
    "commit_change url_parse pg_regex (DropBinding ''second'') ?a ?a ?b = Inr (?a\<lparr>role_bindings := []\<rparr>)"
    by (simp_all add: commit_change_def DeleteRoleBinding_def guardLastAdministrator_def administrators_def sample_pair_def
        sample_accounts_def)
  then have "?step (?a, [?t ''root'', ?t ''second'']) (?b, [?t ''second''])" "?step (?b, [?t ''second'']) (?a\<lparr>role_bindings := []\<rparr>, [])"
    using overlap_step.commit [of _ _ "DropBinding ''root''" ?a ?a ?a ?b _ 2 "[]" "[?t ''second'']"]
      overlap_step.commit [of _ _ "DropBinding ''second''" ?a ?a ?b _ _ 2 "[]" "[]"] by simp_all
  ultimately show ?thesis by (meson rtranclp.rtrancl_refl rtranclp.rtrancl_into_rtrancl)
qed

section \<open>Properties\<close>

text \<open>C24: the last administrator. Whatever role bindings are set and deleted and whoever signs in, however the statements of the
  transactions interleave, the constraints of the tables hold; and when at most one transaction on bindings runs at a time, once some
  binding grants the administrator role one always does. Two overlapping transactions are enough to lose the last one: the guard counts
  without a lock, so both may count an administrator that the other is about to drop, contrary to its comment and to the
  documentation.\<close>

theorem administrator_kept:
  assumes "(overlap_step url_parse pg_regex lower limit)\<^sup>*\<^sup>* (a, []) (a', txs)" "accounts_ok a" "administrators a \<noteq> []"
  shows "accounts_ok a' \<and> (limit \<le> 1 \<longrightarrow> administrators a' \<noteq> []) \<and>
    (\<exists>b b'. accounts_ok b \<and> length (administrators b) = 2 \<and> administrators b' = [] \<and>
       (overlap_step url_parse pg_regex lower 2)\<^sup>*\<^sup>* (b, []) (b', []))"
proof -
  have "accounts_ok sample_pair" "length (administrators sample_pair) = 2" "administrators (sample_pair\<lparr>role_bindings := []\<rparr>) = []"
    by (simp_all add: sample_pair_def sample_accounts_def accounts_ok_def identities_ok_def bindings_ok_def binding_row_ok_def
        user_exists_def subject_check_def administrators_def)
  then show ?thesis using overlap_keeps [OF assms] both_dropped [of url_parse pg_regex lower] by fastforce
qed

theorem administrator_kept_witness:
  "accounts_ok (put_binding sample_binding sample_accounts) \<and>
    administrators (put_binding sample_binding sample_accounts) \<noteq> []"
proof -
  let ?step = "overlap_step (\<lambda>u. None) (\<lambda>p. True) id 1" and ?a = sample_accounts and ?ch = "PutBinding sample_binding"
  have "?step (?a, []) (?a, [Counted ?ch ?a])" using overlap_step.count [of "[]" 1] by simp
  moreover have "?step (?a, [Counted ?ch ?a]) (?a, [Guarded ?ch ?a ?a])" using overlap_step.check [of _ _ _ 1 ?a "[]"] by simp
  moreover have "?step (?a, [Guarded ?ch ?a ?a]) (put_binding sample_binding ?a, [])"
    using overlap_step.commit [of _ _ ?ch ?a ?a ?a "put_binding sample_binding ?a" _ 1 "[]" "[]"]
    by (simp add: commit_change_def sample_binding_set)
  ultimately have "?step\<^sup>*\<^sup>* (?a, []) (put_binding sample_binding ?a, [])"
    by (meson rtranclp.rtrancl_refl rtranclp.rtrancl_into_rtrancl)
  from administrator_kept [OF this sample_accounts_ok] show ?thesis by simp
qed

text \<open>A stored role binding. Once a binding is stored the listing shows it, with the
  selectors that name a label, and every other binding as before; the grants of each user are
  those of the other bindings that apply and, when it names the user or one of the user's groups,
  the stored role with all its selectors.\<close>

theorem binding_in_force:
  assumes "SetRoleBinding url_parse pg_regex b counted named a = Inr a'" "accounts_ok a"
  shows "set (RoleBindings strxfrm a') =
      insert (b\<lparr>binding_Matchers := filter (\<lambda>m. matcher_Name m \<noteq> []) (binding_Matchers b)\<rparr>)
        {x \<in> set (RoleBindings strxfrm a). binding_Name x \<noteq> binding_Name b} \<and>
    set (principal_grants a' uid) =
      {g. \<exists>r \<in> set (role_bindings a). binding_applies a uid r \<and> rb_name r \<noteq> binding_Name b \<and>
         g = \<lparr>grant_Role = rb_role r, grant_Matchers = rb_matchers r\<rparr>} \<union>
      (if subject_applies a uid (binding_SubjectKind b) (nullif (binding_UserID b) 0)
            (nullif (binding_SubjectIssuer b) []) (nullif (binding_SubjectGroup b) [])
       then {\<lparr>grant_Role = binding_Role b, grant_Matchers = binding_Matchers b\<rparr>} else {})"
proof -
  obtain i where i: "set (role_bindings (put_binding b a)) =
      insert (binding_row_of i b) {r \<in> set (role_bindings a). rb_name r \<noteq> binding_Name b}"
    by (rule put_binding_rows [OF assms(2)])
  note r = SetRoleBinding_Inr(1) [OF assms(1)]
  have "listed_binding (binding_row_of i b) = b\<lparr>binding_Matchers := filter (\<lambda>m. matcher_Name m \<noteq> []) (binding_Matchers b)\<rparr>"
    by (simp add: listed_binding_def)
  then have "set (RoleBindings strxfrm a') =
      insert (b\<lparr>binding_Matchers := filter (\<lambda>m. matcher_Name m \<noteq> []) (binding_Matchers b)\<rparr>)
        {x \<in> set (RoleBindings strxfrm a). binding_Name x \<noteq> binding_Name b}"
    using set_keeps(1) [OF assms] i unfolding r by (auto simp: RoleBindings_set assms(2))
  moreover have "binding_applies a uid (binding_row_of i b) \<longleftrightarrow>
      subject_applies a uid (binding_SubjectKind b) (nullif (binding_UserID b) 0)
        (nullif (binding_SubjectIssuer b) []) (nullif (binding_SubjectGroup b) [])"
    by (simp add: binding_applies_def binding_row_of_def)
  ultimately show ?thesis
    unfolding r principal_grants_set i binding_applies_tables [of "put_binding b a" a, simplified]
    by (auto simp: image_iff) (metis binding_row_of_fields(3,4))
qed

theorem binding_in_force_witness:
  "set (principal_grants (put_binding sample_binding sample_accounts) 7) =
    {\<lparr>grant_Role = RoleAdministrator, grant_Matchers = []\<rparr>,
     \<lparr>grant_Role = RoleOperator, grant_Matchers = [\<lparr>matcher_Name = ''team'', matcher_Operator = ''='', matcher_Value = ''web''\<rparr>]\<rparr>}"
  using binding_in_force [OF sample_binding_set sample_accounts_ok(1), of id 7]
  by (auto simp: sample_accounts_def sample_binding_def binding_applies_def subject_applies_def nullif_def)

end
