(* ===== verification/View_Groups.thy ===== *)
theory View_Groups
  imports Accounts
begin

text \<open>
  View groups (\<open>internal/postgres/viewgroups.go\<close>): selectors an administrator defines, that a
  user joins or an administrator pins on a user or a directory group, and that narrow what a
  console shows by default.
\<close>

section \<open>Operations\<close>

definition ValidateViewGroup :: "regex \<Rightarrow> ViewGroup \<Rightarrow> access_error + unit" where
  "ValidateViewGroup rx grp =
     (case validateViewGroup rx grp of Inl e \<Rightarrow> Inl (InvalidViewGroup e) | Inr u \<Rightarrow> Inr ())"

definition check_pin :: "(string \<Rightarrow> (string \<times> string) option) \<Rightarrow> ViewGroupPin \<Rightarrow> access_error + unit" where
  "check_pin url_parse pin =
     (case ValidateViewGroupPin url_parse pin of Inl e \<Rightarrow> Inl (InvalidViewGroup e) | Inr u \<Rightarrow> Inr ())"

definition put_view_group :: "ViewGroup \<Rightarrow> accounts \<Rightarrow> accounts" where
  "put_view_group grp a =
     (if list_ex (\<lambda>g. vgr_name g = vg_Name grp) (view_groups a)
      then a\<lparr>view_groups := upd_where (\<lambda>g. vgr_name g = vg_Name grp)
               (\<lambda>g. g\<lparr>vgr_description := vg_Description grp, vgr_matchers := vg_Matchers grp\<rparr>) (view_groups a),
             next_view_group := next_view_group a + 1\<rparr>
      else a\<lparr>view_groups := view_groups a @ [\<lparr>vgr_id = next_view_group a, vgr_name = vg_Name grp,
               vgr_description = vg_Description grp, vgr_matchers = vg_Matchers grp\<rparr>],
             next_view_group := next_view_group a + 1\<rparr>)"

definition SetViewGroup :: "regex \<Rightarrow> (string \<Rightarrow> bool) \<Rightarrow> ViewGroup \<Rightarrow> accounts \<Rightarrow> access_error + accounts" where
  "SetViewGroup rx pg_regex grp a =
     bind_res (ValidateViewGroup rx grp) (\<lambda>_.
     if \<not> regex_selectors_ok pg_regex (vg_Matchers grp) then Inl ViewGroupRegex
     else if \<not> text_ok (vg_Name grp) \<or> \<not> text_ok (vg_Description grp) \<or> \<not> selectors_ok (vg_Matchers grp)
     then Inl AccessDatabase
     else Inr (put_view_group grp a))"

text \<open>Deleting a view group deletes its memberships and pins.\<close>

definition DeleteViewGroup :: "string \<Rightarrow> accounts \<Rightarrow> access_error + accounts" where
  "DeleteViewGroup name a =
     (if \<not> text_ok name then Inl AccessDatabase
      else case find (\<lambda>g. vgr_name g = name) (view_groups a) of
        None \<Rightarrow> Inl ViewGroupNotFound
      | Some g \<Rightarrow> Inr (a\<lparr>view_groups := filter (\<lambda>h. vgr_name h \<noteq> name) (view_groups a),
          view_group_members := filter (\<lambda>(m, u). m \<noteq> vgr_id g) (view_group_members a),
          view_group_pins := filter (\<lambda>p. pr_view_group p \<noteq> vgr_id g) (view_group_pins a)\<rparr>))"

definition viewGroupID :: "string \<Rightarrow> accounts \<Rightarrow> access_error + int" where
  "viewGroupID name a =
     (if \<not> text_ok name then Inl AccessDatabase
      else case find (\<lambda>g. vgr_name g = name) (view_groups a) of
        None \<Rightarrow> Inl ViewGroupNotFound | Some g \<Rightarrow> Inr (vgr_id g))"

definition JoinViewGroup :: "int \<Rightarrow> string \<Rightarrow> accounts \<Rightarrow> access_error + accounts" where
  "JoinViewGroup uid name a =
     bind_res (viewGroupID name a) (\<lambda>i.
     if (i, uid) \<in> set (view_group_members a) then Inr a
     else if uid \<notin> user_id ` set (users a) then Inl AccessDatabase
     else Inr (a\<lparr>view_group_members := view_group_members a @ [(i, uid)]\<rparr>))"

definition LeaveViewGroup :: "int \<Rightarrow> string \<Rightarrow> accounts \<Rightarrow> access_error + accounts" where
  "LeaveViewGroup uid name a =
     bind_res (viewGroupID name a) (\<lambda>i.
     if pinnedToUser a i uid then Inl ViewGroupPinned
     else Inr (a\<lparr>view_group_members := filter (\<lambda>m. m \<noteq> (i, uid)) (view_group_members a)\<rparr>))"

definition pin_row_of :: "int \<Rightarrow> int \<Rightarrow> ViewGroupPin \<Rightarrow> pin_row" where
  "pin_row_of i groupID pin =
     \<lparr>pr_id = i, pr_view_group = groupID, pr_kind = pin_SubjectKind pin, pr_user = nullif (pin_UserID pin) 0,
      pr_issuer = nullif (pin_SubjectIssuer pin) '''', pr_group = nullif (pin_SubjectGroup pin) ''''\<rparr>"

text \<open>The two unique indexes, on the user of a user's pin and on the subject of a group's.\<close>

definition pin_conflict :: "pin_row \<Rightarrow> pin_row \<Rightarrow> bool" where
  "pin_conflict p q \<longleftrightarrow>
     pr_view_group p = pr_view_group q \<and> pr_kind p = pr_kind q \<and>
     (if pr_kind p = ''user'' then pr_user p = pr_user q else pr_issuer p = pr_issuer q \<and> pr_group p = pr_group q)"

definition pin_texts_ok :: "ViewGroupPin \<Rightarrow> bool" where
  "pin_texts_ok pin = list_all text_ok [pin_SubjectKind pin, pin_SubjectIssuer pin, pin_SubjectGroup pin]"

definition PinViewGroup ::
  "(string \<Rightarrow> (string \<times> string) option) \<Rightarrow> string \<Rightarrow> ViewGroupPin \<Rightarrow> accounts \<Rightarrow> access_error + accounts" where
  "PinViewGroup url_parse name pin a =
     bind_res (check_pin url_parse pin) (\<lambda>_.
     bind_res (viewGroupID name a) (\<lambda>i.
     let row = pin_row_of (next_pin a) i pin in
     if \<not> pin_texts_ok pin \<or> \<not> subject_check (pr_kind row) (pr_user row) (pr_issuer row) (pr_group row)
     then Inl AccessDatabase
     else if list_ex (pin_conflict row) (view_group_pins a) then Inr (a\<lparr>next_pin := next_pin a + 1\<rparr>)
     else if \<not> user_exists a (pr_user row) then Inl PinUserMissing
     else Inr (a\<lparr>view_group_pins := view_group_pins a @ [row], next_pin := next_pin a + 1\<rparr>)))"

definition UnpinViewGroup ::
  "(string \<Rightarrow> (string \<times> string) option) \<Rightarrow> string \<Rightarrow> ViewGroupPin \<Rightarrow> accounts \<Rightarrow> access_error + accounts" where
  "UnpinViewGroup url_parse name pin a =
     bind_res (check_pin url_parse pin) (\<lambda>_.
     bind_res (viewGroupID name a) (\<lambda>i.
     let row = pin_row_of 0 i pin in
     if \<not> pin_texts_ok pin then Inl AccessDatabase
     else Inr (a\<lparr>view_group_pins := filter (\<lambda>p. \<not> (pr_view_group p = i \<and> pr_kind p = pr_kind row \<and>
       pr_user p = pr_user row \<and> pr_issuer p = pr_issuer row \<and> pr_group p = pr_group row)) (view_group_pins a)\<rparr>)))"

section \<open>Listing\<close>

record ViewGroupStatus =
  status_Name :: string
  status_Description :: string
  status_Matchers :: "LabelMatcher list"
  status_Joined :: bool
  status_Pinned :: bool
  status_Pins :: "ViewGroupPin list"
  status_Members :: nat

definition pin_of_row :: "pin_row \<Rightarrow> ViewGroupPin" where
  "pin_of_row p =
     \<lparr>pin_SubjectKind = pr_kind p, pin_UserID = coalesced (pr_user p) 0,
      pin_SubjectIssuer = coalesced (pr_issuer p) '''', pin_SubjectGroup = coalesced (pr_group p) ''''\<rparr>"

definition ViewGroups_of :: "(string \<Rightarrow> string) \<Rightarrow> Principal \<Rightarrow> accounts \<Rightarrow> ViewGroupStatus list" where
  "ViewGroups_of strxfrm caller a =
     map (\<lambda>g.
       \<lparr>status_Name = vgr_name g, status_Description = vgr_description g,
        status_Matchers = (if CanAdminister caller then vgr_matchers g else []),
        status_Joined = ((vgr_id g, UserID caller) \<in> set (view_group_members a)),
        status_Pinned = pinnedToUser a (vgr_id g) (UserID caller),
        status_Pins = (if CanAdminister caller
          then map pin_of_row (sort_key pr_id (filter (\<lambda>p. pr_view_group p = vgr_id g) (view_group_pins a))) else []),
        status_Members = (if CanAdminister caller
          then length (filter (\<lambda>(m, u). m = vgr_id g) (view_group_members a)) else 0)\<rparr>)
     (sort_key (\<lambda>g. (strxfrm (vgr_name g), vgr_name g)) (view_groups a))"

section \<open>Constraints\<close>

definition view_groups_ok :: "accounts \<Rightarrow> bool" where
  "view_groups_ok a \<longleftrightarrow>
     distinct (map vgr_id (view_groups a)) \<and> distinct (map vgr_name (view_groups a)) \<and>
     set (map vgr_id (view_groups a)) \<subseteq> {..<next_view_group a} \<and>
     (\<forall>g \<in> set (view_groups a). vgr_matchers g \<noteq> []) \<and>
     distinct (view_group_members a) \<and> set (map fst (view_group_members a)) \<subseteq> set (map vgr_id (view_groups a)) \<and>
     set (map pr_view_group (view_group_pins a)) \<subseteq> set (map vgr_id (view_groups a))"

text \<open>The operations on view groups.\<close>

inductive view_step ::
  "regex \<Rightarrow> (string \<Rightarrow> (string \<times> string) option) \<Rightarrow> (string \<Rightarrow> bool) \<Rightarrow> accounts \<Rightarrow> accounts \<Rightarrow> bool"
  for rx url_parse pg_regex where
  set_group: "SetViewGroup rx pg_regex grp a = Inr a' \<Longrightarrow> view_step rx url_parse pg_regex a a'"
| delete_group: "DeleteViewGroup name a = Inr a' \<Longrightarrow> view_step rx url_parse pg_regex a a'"
| join_group: "JoinViewGroup uid name a = Inr a' \<Longrightarrow> view_step rx url_parse pg_regex a a'"
| leave_group: "LeaveViewGroup uid name a = Inr a' \<Longrightarrow> view_step rx url_parse pg_regex a a'"
| pin_group: "PinViewGroup url_parse name pin a = Inr a' \<Longrightarrow> view_step rx url_parse pg_regex a a'"
| unpin_group: "UnpinViewGroup url_parse name pin a = Inr a' \<Longrightarrow> view_step rx url_parse pg_regex a a'"

text \<open>The part of the tables that authorizes.\<close>

definition same_authority :: "accounts \<Rightarrow> accounts \<Rightarrow> bool" where
  "same_authority a b \<longleftrightarrow>
     users a = users b \<and> identities a = identities b \<and> identity_groups a = identity_groups b \<and>
     role_bindings a = role_bindings b"

text \<open>What a user resolves to, the selectors of the view left out.\<close>

definition authority_of :: "accounts \<Rightarrow> int \<Rightarrow> access_error + Principal" where
  "authority_of a uid = bind_res (resolvePrincipal a uid) (\<lambda>p. Inr (p\<lparr>ViewGroups := []\<rparr>))"

text \<open>The view groups a user has, by name.\<close>

definition view_names :: "accounts \<Rightarrow> int \<Rightarrow> string set" where
  "view_names a uid =
     {vgr_name g | g. g \<in> set (view_groups a) \<and> ((vgr_id g, uid) \<in> set (view_group_members a) \<or> pinnedToUser a (vgr_id g) uid)}"

definition sample_view :: accounts where
  "sample_view = sample_accounts\<lparr>view_groups := [\<lparr>vgr_id = 1, vgr_name = ''web'', vgr_description = [],
     vgr_matchers = [\<lparr>matcher_Name = ''team'', matcher_Operator = ''='', matcher_Value = ''web''\<rparr>]\<rparr>], next_view_group := 2\<rparr>"

section \<open>Lemmas\<close>

lemma viewGroupID_Inr:
  "viewGroupID name a = Inr i \<longleftrightarrow> text_ok name \<and> (\<exists>g. find (\<lambda>g. vgr_name g = name) (view_groups a) = Some g \<and> vgr_id g = i)"
  by (auto simp: viewGroupID_def split: option.splits)

lemma viewGroupID_mem: "viewGroupID name a = Inr i \<Longrightarrow> \<exists>g \<in> set (view_groups a). vgr_name g = name \<and> vgr_id g = i"
  by (auto simp: viewGroupID_Inr find_Some_iff)

lemma put_view_group_ok:
  assumes "view_groups_ok a" "vg_Matchers grp \<noteq> []"
  shows "view_groups_ok (put_view_group grp a)"
proof (cases "list_ex (\<lambda>g. vgr_name g = vg_Name grp) (view_groups a)")
  case True
  have same: "map vgr_id (view_groups (put_view_group grp a)) = map vgr_id (view_groups a)"
    "map vgr_name (view_groups (put_view_group grp a)) = map vgr_name (view_groups a)"
    "view_group_members (put_view_group grp a) = view_group_members a"
    "view_group_pins (put_view_group grp a) = view_group_pins a" "next_view_group (put_view_group grp a) = next_view_group a + 1"
    using True by (simp_all add: put_view_group_def map_upd_where_same)
  have "\<forall>g \<in> set (view_groups (put_view_group grp a)). vgr_matchers g \<noteq> []"
    using True assms by (auto simp: put_view_group_def set_upd_where view_groups_ok_def)
  then show ?thesis
    using assms(1) unfolding view_groups_ok_def same by (auto simp del: set_map)
next
  case False
  have rows: "map vgr_id (view_groups (put_view_group grp a)) = map vgr_id (view_groups a) @ [next_view_group a]"
    "map vgr_name (view_groups (put_view_group grp a)) = map vgr_name (view_groups a) @ [vg_Name grp]"
    "view_group_members (put_view_group grp a) = view_group_members a"
    "view_group_pins (put_view_group grp a) = view_group_pins a" "next_view_group (put_view_group grp a) = next_view_group a + 1"
    using False by (simp_all add: put_view_group_def)
  have "\<forall>g \<in> set (view_groups (put_view_group grp a)). vgr_matchers g \<noteq> []"
    using False assms by (auto simp: put_view_group_def view_groups_ok_def)
  moreover have "vg_Name grp \<notin> set (map vgr_name (view_groups a))" using False by (auto simp: list_ex_iff)
  moreover have "next_view_group a \<notin> set (map vgr_id (view_groups a))"
    "set (map vgr_id (view_groups a)) \<subseteq> {..<next_view_group a + 1}"
    using assms(1) by (fastforce simp: view_groups_ok_def)+
  ultimately show ?thesis
    using assms(1) unfolding view_groups_ok_def rows by (auto simp del: set_map)
qed

lemma delete_view_group_ok:
  assumes "view_groups_ok a" "DeleteViewGroup name a = Inr a'"
  shows "view_groups_ok a'"
proof -
  from assms(2) obtain g where g: "find (\<lambda>g. vgr_name g = name) (view_groups a) = Some g" and
    a': "a' = a\<lparr>view_groups := filter (\<lambda>h. vgr_name h \<noteq> name) (view_groups a),
          view_group_members := filter (\<lambda>(m, u). m \<noteq> vgr_id g) (view_group_members a),
          view_group_pins := filter (\<lambda>p. pr_view_group p \<noteq> vgr_id g) (view_group_pins a)\<rparr>"
    by (auto simp: DeleteViewGroup_def split: if_splits option.splits)
  have "g \<in> set (view_groups a)" "vgr_name g = name" using g by (auto simp: find_Some_iff)
  then have "vgr_id h = vgr_id g" if "h \<in> set (view_groups a)" "vgr_name h = name" for h
    using assms(1) that by (auto simp: view_groups_ok_def distinct_map inj_on_def)
  then have keep: "x \<in> set (map vgr_id (filter (\<lambda>h. vgr_name h \<noteq> name) (view_groups a)))"
    if "x \<in> set (map vgr_id (view_groups a))" "x \<noteq> vgr_id g" for x
    using that by auto
  show ?thesis
    using assms(1) keep unfolding a' view_groups_ok_def
    by (auto simp: distinct_map_filter)
qed

lemma SetViewGroup_Inr:
  assumes "SetViewGroup rx pg_regex grp a = Inr a'"
  shows "a' = put_view_group grp a" "vg_Matchers grp \<noteq> []"
  using assms
  by (auto simp: SetViewGroup_def ValidateViewGroup_def validateViewGroup_def bind_res_Inr split: if_splits sum.splits)

lemma JoinViewGroup_Inr:
  assumes "JoinViewGroup uid name a = Inr a'"
  obtains i where "viewGroupID name a = Inr i"
    "a' = (if (i, uid) \<in> set (view_group_members a) then a
           else a\<lparr>view_group_members := view_group_members a @ [(i, uid)]\<rparr>)"
  using assms by (auto simp: JoinViewGroup_def bind_res_Inr split: if_splits)

lemma LeaveViewGroup_Inr:
  assumes "LeaveViewGroup uid name a = Inr a'"
  obtains i where "viewGroupID name a = Inr i" "\<not> pinnedToUser a i uid"
    "a' = a\<lparr>view_group_members := filter (\<lambda>m. m \<noteq> (i, uid)) (view_group_members a)\<rparr>"
  using assms by (auto simp: LeaveViewGroup_def bind_res_Inr split: if_splits)

lemma view_groups_ok_pins:
  assumes "view_groups_ok a" "set (map pr_view_group ps) \<subseteq> set (map vgr_id (view_groups a))"
  shows "view_groups_ok (a\<lparr>view_group_pins := ps\<rparr>)" "view_groups_ok (a\<lparr>view_group_pins := ps, next_pin := n\<rparr>)"
    "view_groups_ok (a\<lparr>next_pin := n\<rparr>)"
  using assms unfolding view_groups_ok_def by (simp_all del: set_map)

lemma pin_steps_ok:
  assumes "view_groups_ok a"
  shows "PinViewGroup url_parse name pin a = Inr a' \<Longrightarrow> view_groups_ok a'"
    "UnpinViewGroup url_parse name pin a = Inr a' \<Longrightarrow> view_groups_ok a'"
proof -
  have pins: "set (map pr_view_group (view_group_pins a)) \<subseteq> set (map vgr_id (view_groups a))"
    using assms by (simp add: view_groups_ok_def)
  show "view_groups_ok a'" if "PinViewGroup url_parse name pin a = Inr a'"
  proof -
    from that obtain i where i: "viewGroupID name a = Inr i" and
      a': "a' = a\<lparr>next_pin := next_pin a + 1\<rparr> \<or>
           a' = a\<lparr>view_group_pins := view_group_pins a @ [pin_row_of (next_pin a) i pin], next_pin := next_pin a + 1\<rparr>"
      by (auto simp: PinViewGroup_def bind_res_Inr Let_def split: if_splits)
    have "set (map pr_view_group (view_group_pins a @ [pin_row_of (next_pin a) i pin])) \<subseteq> set (map vgr_id (view_groups a))"
      using pins viewGroupID_mem [OF i] by (auto simp: pin_row_of_def)
    with a' view_groups_ok_pins [OF assms] pins show ?thesis by blast
  qed
  show "view_groups_ok a'" if "UnpinViewGroup url_parse name pin a = Inr a'"
    using that pins
    by (auto simp: UnpinViewGroup_def bind_res_Inr Let_def simp del: set_map split: if_splits
        intro!: view_groups_ok_pins(1) [OF assms]) auto
qed

lemma membership_steps_ok:
  assumes "view_groups_ok a"
  shows "JoinViewGroup uid name a = Inr a' \<Longrightarrow> view_groups_ok a'"
    "LeaveViewGroup uid name a = Inr a' \<Longrightarrow> view_groups_ok a'"
proof -
  show "view_groups_ok a'" if j: "JoinViewGroup uid name a = Inr a'"
    using j by (rule JoinViewGroup_Inr) (use assms in \<open>auto simp: view_groups_ok_def dest!: viewGroupID_mem\<close>)
  show "view_groups_ok a'" if l: "LeaveViewGroup uid name a = Inr a'"
    using l by (rule LeaveViewGroup_Inr) (use assms in \<open>auto simp: view_groups_ok_def\<close>)
qed

lemma view_step_keeps:
  assumes "view_step rx url_parse pg_regex a a'"
  shows "same_authority a' a" "view_groups_ok a \<Longrightarrow> view_groups_ok a'"
proof -
  show "same_authority a' a"
    using assms
    by (cases rule: view_step.cases)
      (auto simp: same_authority_def DeleteViewGroup_def PinViewGroup_def UnpinViewGroup_def bind_res_Inr Let_def
        put_view_group_def dest!: SetViewGroup_Inr(1) elim!: JoinViewGroup_Inr LeaveViewGroup_Inr
        split: if_splits option.splits)
  show "view_groups_ok a'" if "view_groups_ok a"
    using assms
    by (cases rule: view_step.cases)
      (use that in \<open>auto dest: SetViewGroup_Inr put_view_group_ok delete_view_group_ok pin_steps_ok membership_steps_ok\<close>)
qed

lemma same_authority_grants:
  assumes "same_authority a b"
  shows "binding_applies a uid = binding_applies b uid" "principal_grants a uid = principal_grants b uid"
    "latest_identity a uid = latest_identity b uid"
proof -
  show "binding_applies a uid = binding_applies b uid"
    using assms by (auto simp: same_authority_def binding_applies_def subject_applies_def member_of_def fun_eq_iff)
  with assms show "principal_grants a uid = principal_grants b uid" "latest_identity a uid = latest_identity b uid"
    by (simp_all add: same_authority_def principal_grants_def latest_identity_def)
qed

lemma resolvePrincipal_authority:
  assumes "same_authority a b"
  shows "authority_of a uid = authority_of b uid"
  using assms same_authority_grants [OF assms]
  by (auto simp: authority_of_def resolvePrincipal_def same_authority_def Let_def split: option.splits)

lemma pinned_members [simp]:
  "pinnedToUser (a\<lparr>view_group_members := ms\<rparr>) = pinnedToUser a"
  by (simp add: pinnedToUser_def subject_applies_def member_of_def fun_eq_iff)

lemma viewGroupID_only:
  assumes "viewGroupID name a = Inr i" "view_groups_ok a" "g \<in> set (view_groups a)"
  shows "vgr_id g = i \<longleftrightarrow> vgr_name g = name"
proof -
  obtain h where "h \<in> set (view_groups a)" "vgr_name h = name" "vgr_id h = i" using viewGroupID_mem [OF assms(1)] by blast
  with assms(2,3) show ?thesis by (auto simp: view_groups_ok_def distinct_map inj_on_def)
qed

lemma join_view_names:
  assumes "JoinViewGroup uid name a = Inr a'" "view_groups_ok a"
  shows "view_names a' u = (if u = uid then insert name (view_names a u) else view_names a u)"
  using assms(1)
proof (rule JoinViewGroup_Inr)
  fix i
  assume i: "viewGroupID name a = Inr i"
    and a': "a' = (if (i, uid) \<in> set (view_group_members a) then a
      else a\<lparr>view_group_members := view_group_members a @ [(i, uid)]\<rparr>)"
  have members: "set (view_group_members a') = insert (i, uid) (set (view_group_members a))"
    "view_groups a' = view_groups a" "pinnedToUser a' = pinnedToUser a" by (auto simp: a')
  obtain h where "h \<in> set (view_groups a)" "vgr_name h = name" "vgr_id h = i" using viewGroupID_mem [OF i] by blast
  then show ?thesis
    unfolding view_names_def members using viewGroupID_only [OF i assms(2)] by auto
qed

lemma leave_view_names:
  assumes "LeaveViewGroup uid name a = Inr a'" "view_groups_ok a"
  shows "view_names a' u = (if u = uid then view_names a u - {name} else view_names a u)"
  using assms(1)
proof (rule LeaveViewGroup_Inr)
  fix i
  assume i: "viewGroupID name a = Inr i" "\<not> pinnedToUser a i uid"
    and a': "a' = a\<lparr>view_group_members := filter (\<lambda>m. m \<noteq> (i, uid)) (view_group_members a)\<rparr>"
  show ?thesis
    unfolding view_names_def a' using viewGroupID_only [OF i(1) assms(2)] i(2) by auto
qed

lemma viewGroupMatchers_names:
  assumes "view_groups_ok a"
  shows "set (viewGroupMatchers a uid) = {vgr_matchers g | g. g \<in> set (view_groups a) \<and> vgr_name g \<in> view_names a uid}"
proof -
  have "distinct (map vgr_name (view_groups a))" "\<forall>g \<in> set (view_groups a). vgr_matchers g \<noteq> []"
    using assms by (simp_all add: view_groups_ok_def)
  then have only: "g = h" if "g \<in> set (view_groups a)" "h \<in> set (view_groups a)" "vgr_name g = vgr_name h" for g h
    using that by (auto simp: distinct_map inj_on_def)
  show ?thesis
    using \<open>\<forall>g \<in> set (view_groups a). vgr_matchers g \<noteq> []\<close>
    by (auto simp: viewGroupMatchers_def view_names_def dest: only)
qed

section \<open>Properties\<close>

text \<open>C31: view groups are not permissions. However view groups are defined, deleted, joined, left,
  pinned and unpinned, every user resolves to the same principal as before but for the selectors of
  the view, or is refused as before, and the constraints on their tables hold.\<close>

theorem view_groups_grant_nothing:
  assumes "(view_step rx url_parse pg_regex)\<^sup>*\<^sup>* a a'" "view_groups_ok a"
  shows "view_groups_ok a' \<and> authority_of a' uid = authority_of a uid"
  using assms
proof (induction rule: rtranclp_induct)
  case (step b c)
  then show ?case
    using view_step_keeps [OF step.hyps(2)] resolvePrincipal_authority [of c b uid] by simp
qed simp

theorem view_groups_grant_nothing_witness:
  "\<exists>a. JoinViewGroup 7 ''web'' sample_view = Inr a \<and> view_groups_ok a \<and> authority_of a 7 = authority_of sample_view 7"
proof -
  have "\<exists>a. JoinViewGroup 7 ''web'' sample_view = Inr a"
    by (simp add: JoinViewGroup_def viewGroupID_def sample_view_def sample_accounts_def)
  then obtain a where a: "JoinViewGroup 7 ''web'' sample_view = Inr a" by blast
  then have "view_step (\<lambda>p v. None) (\<lambda>u. None) (\<lambda>p. True) sample_view a" by (rule view_step.join_group)
  then have "(view_step (\<lambda>p v. None) (\<lambda>u. None) (\<lambda>p. True))\<^sup>*\<^sup>* sample_view a" by simp
  moreover have "view_groups_ok sample_view" by (simp add: sample_view_def sample_accounts_def view_groups_ok_def)
  ultimately show ?thesis
    using view_groups_grant_nothing [of "\<lambda>p v. None" "\<lambda>u. None" "\<lambda>p. True" sample_view a 7] a by blast
qed

text \<open>Membership of view groups. The view selectors of a user are those of the groups the
  user has; joining a group adds exactly that group for exactly that user, leaving it takes exactly
  that group away, and leaving is refused exactly when the group is pinned on the user.\<close>

theorem view_membership:
  assumes "view_groups_ok a" "viewGroupID name a = Inr i"
  shows "set (viewGroupMatchers a u) = {vgr_matchers g | g. g \<in> set (view_groups a) \<and> vgr_name g \<in> view_names a u} \<and>
    (uid \<in> user_id ` set (users a) \<longrightarrow>
      (\<exists>a'. JoinViewGroup uid name a = Inr a' \<and>
        view_names a' u = (if u = uid then insert name (view_names a u) else view_names a u))) \<and>
    (if pinnedToUser a i uid then LeaveViewGroup uid name a = Inl ViewGroupPinned
     else \<exists>a'. LeaveViewGroup uid name a = Inr a' \<and>
        view_names a' u = (if u = uid then view_names a u - {name} else view_names a u))"
proof (intro conjI impI)
  show "set (viewGroupMatchers a u) = {vgr_matchers g | g. g \<in> set (view_groups a) \<and> vgr_name g \<in> view_names a u}"
    by (rule viewGroupMatchers_names [OF assms(1)])
  show "\<exists>a'. JoinViewGroup uid name a = Inr a' \<and>
      view_names a' u = (if u = uid then insert name (view_names a u) else view_names a u)"
    if "uid \<in> user_id ` set (users a)"
  proof -
    have "\<exists>a'. JoinViewGroup uid name a = Inr a'" using that assms(2) by (simp add: JoinViewGroup_def)
    with join_view_names [OF _ assms(1)] show ?thesis by blast
  qed
  show "if pinnedToUser a i uid then LeaveViewGroup uid name a = Inl ViewGroupPinned
     else \<exists>a'. LeaveViewGroup uid name a = Inr a' \<and>
        view_names a' u = (if u = uid then view_names a u - {name} else view_names a u)"
  proof (cases "pinnedToUser a i uid")
    case False
    then have "\<exists>a'. LeaveViewGroup uid name a = Inr a'" using assms(2) by (simp add: LeaveViewGroup_def)
    with leave_view_names [OF _ assms(1)] False show ?thesis by auto
  qed (simp add: LeaveViewGroup_def assms(2))
qed

theorem view_membership_witness:
  "\<exists>a. JoinViewGroup 7 ''web'' sample_view = Inr a \<and> view_names a 7 = {''web''}"
proof -
  have "view_groups_ok sample_view" "viewGroupID ''web'' sample_view = Inr 1" "7 \<in> user_id ` set (users sample_view)"
    "view_names sample_view 7 = {}"
    by (simp_all add: sample_view_def sample_accounts_def view_groups_ok_def viewGroupID_def view_names_def
        pinnedToUser_def)
  then show ?thesis using view_membership [of sample_view "''web''" 1 7 7] by auto
qed

end
