(* ===== verification/Admin_API.thy ===== *)
theory Admin_API
  imports View_Groups Http
begin

text \<open>
  Administration over HTTP: role bindings (\<open>internal/httpapi/access.go\<close>) and view groups
  (\<open>internal/httpapi/viewgroups.go\<close>). A handler takes the request, its decoded body and the access
  tables. \<open>text\<close> is the text of an error, \<open>strxfrm\<close> the sort keys of the database's collation. The transaction of a
  request meets one state of the tables; what overlapping ones do is \<open>overlap_step\<close> of \<open>Accounts\<close>.
\<close>

section \<open>Gates\<close>

datatype admin_payload =
  BindingsPayload "RoleBinding list" | BindingPayload RoleBinding
| GroupsPayload "ViewGroupStatus list" | GroupPayload ViewGroup | NoContent

record admin_env =
  adm_url_parse :: "string \<Rightarrow> (string \<times> string) option"
  adm_pg_regex :: "string \<Rightarrow> bool"
  adm_rx :: regex
  adm_strxfrm :: "string \<Rightarrow> string"
  adm_text :: "access_error \<Rightarrow> string"

definition accessGate :: "admin_env \<Rightarrow> request \<Rightarrow> bool \<Rightarrow> failure + Principal" where
  "accessGate env r mutating =
     (case req_principal r of
        None \<Rightarrow> Inl (server_error ''principal is unavailable'')
      | Some caller \<Rightarrow>
          if \<not> CanAdminister caller then Inl (403, Message ''administrator access required'')
          else if mutating \<and> \<not> validMutationOrigin (adm_url_parse env) r then Inl (403, Message ''invalid request origin'')
          else Inr caller)"

definition viewGroupCaller :: "admin_env \<Rightarrow> request \<Rightarrow> bool \<Rightarrow> failure + Principal" where
  "viewGroupCaller env r mutating =
     (case req_principal r of
        None \<Rightarrow> Inl (server_error ''principal is unavailable'')
      | Some caller \<Rightarrow>
          if Anonymous caller \<or> UserID caller = 0
          then Inl (404, Message ''view groups are unavailable without a signed-in user'')
          else if mutating \<and> \<not> validMutationOrigin (adm_url_parse env) r then Inl (403, Message ''invalid request origin'')
          else Inr caller)"

definition decodeStrict :: "'b body \<Rightarrow> failure + 'b" where
  "decodeStrict b =
     (case b of
        BodyValue v rest \<Rightarrow> if rest then Inl (400, Message ''request body is invalid'') else Inr v
      | _ \<Rightarrow> Inl (400, Message ''request body is invalid''))"

definition writeAccessError :: "admin_env \<Rightarrow> string \<Rightarrow> access_error \<Rightarrow> failure" where
  "writeAccessError env what e =
     (case e of
        InvalidRoleBinding b \<Rightarrow> (400, Message (adm_text env e))
      | LastAdministrator \<Rightarrow> (400, Message (adm_text env e))
      | _ \<Rightarrow> server_error what)"

definition writeViewGroupError :: "admin_env \<Rightarrow> string \<Rightarrow> access_error \<Rightarrow> failure" where
  "writeViewGroupError env what e =
     (case e of
        InvalidViewGroup b \<Rightarrow> (400, Message (adm_text env e))
      | ViewGroupRegex \<Rightarrow> (400, Message (adm_text env e))
      | PinUserMissing \<Rightarrow> (400, Message (adm_text env e))
      | ViewGroupNotFound \<Rightarrow> (404, Message (adm_text env e))
      | ViewGroupPinned \<Rightarrow> (409, Message (adm_text env e))
      | _ \<Rightarrow> server_error what)"

text \<open>Answering with what the store returned: the tables change only when it succeeded.\<close>

definition admin_commit ::
  "(access_error \<Rightarrow> failure) \<Rightarrow> admin_payload reply \<Rightarrow> accounts \<Rightarrow> access_error + accounts \<Rightarrow> accounts \<times> admin_payload reply" where
  "admin_commit refuse reply a result = (case result of Inl e \<Rightarrow> (a, fail (refuse e)) | Inr a' \<Rightarrow> (a', reply))"

section \<open>Role bindings\<close>

definition listRoleBindings :: "admin_env \<Rightarrow> request \<Rightarrow> accounts \<Rightarrow> accounts \<times> admin_payload reply" where
  "listRoleBindings env r a =
     (case accessGate env r False of
        Inl f \<Rightarrow> (a, fail f)
      | Inr caller \<Rightarrow> (a, Reply 200 (BindingsPayload (RoleBindings (adm_strxfrm env) a))))"

definition setRoleBinding :: "admin_env \<Rightarrow> request \<Rightarrow> binding_wire body \<Rightarrow> accounts \<Rightarrow> accounts \<times> admin_payload reply" where
  "setRoleBinding env r b a =
     (case accessGate env r True of
        Inl f \<Rightarrow> (a, fail f)
      | Inr caller \<Rightarrow>
          let name = req_path r ''name'' in
          if name = '''' then (a, Fail 400 (Message ''binding name is required''))
          else case decodeStrict b of
            Inl f \<Rightarrow> (a, fail f)
          | Inr wire \<Rightarrow>
              (case binding_of_wire wire of
                 Inl e \<Rightarrow> (a, Fail 400 (Message ''request body is invalid''))
               | Inr binding \<Rightarrow>
                   if binding_Name binding \<noteq> '''' \<and> binding_Name binding \<noteq> name
                   then (a, Fail 400 (Message ''binding name in the body must match the path''))
                   else let binding = binding\<lparr>binding_Name := name\<rparr>
                        in admin_commit (writeAccessError env ''set role binding'') (Reply 200 (BindingPayload binding)) a
                             (SetRoleBinding (adm_url_parse env) (adm_pg_regex env) binding a a a)))"

definition deleteRoleBinding :: "admin_env \<Rightarrow> request \<Rightarrow> accounts \<Rightarrow> accounts \<times> admin_payload reply" where
  "deleteRoleBinding env r a =
     (case accessGate env r True of
        Inl f \<Rightarrow> (a, fail f)
      | Inr caller \<Rightarrow>
          let name = req_path r ''name'' in
          if name = '''' then (a, Fail 400 (Message ''binding name is required''))
          else admin_commit (writeAccessError env ''delete role binding'') (Reply 204 NoContent) a (DeleteRoleBinding name a a a))"

section \<open>View groups\<close>

definition listViewGroups :: "admin_env \<Rightarrow> request \<Rightarrow> accounts \<Rightarrow> accounts \<times> admin_payload reply" where
  "listViewGroups env r a =
     (case viewGroupCaller env r False of
        Inl f \<Rightarrow> (a, fail f)
      | Inr caller \<Rightarrow> (a, Reply 200 (GroupsPayload (ViewGroups_of (adm_strxfrm env) caller a))))"

definition setViewGroup :: "admin_env \<Rightarrow> request \<Rightarrow> ViewGroup body \<Rightarrow> accounts \<Rightarrow> accounts \<times> admin_payload reply" where
  "setViewGroup env r b a =
     (case accessGate env r True of
        Inl f \<Rightarrow> (a, fail f)
      | Inr caller \<Rightarrow>
          (case decodeStrict b of
             Inl f \<Rightarrow> (a, fail f)
           | Inr grp \<Rightarrow>
               let name = req_path r ''name'' in
               if vg_Name grp \<noteq> '''' \<and> vg_Name grp \<noteq> name
               then (a, Fail 400 (Message ''view group name in the body must match the path''))
               else let grp = grp\<lparr>vg_Name := name\<rparr>
                    in admin_commit (writeViewGroupError env ''set view group'') (Reply 200 (GroupPayload grp)) a
                         (SetViewGroup (adm_rx env) (adm_pg_regex env) grp a)))"

definition deleteViewGroup :: "admin_env \<Rightarrow> request \<Rightarrow> accounts \<Rightarrow> accounts \<times> admin_payload reply" where
  "deleteViewGroup env r a =
     (case accessGate env r True of
        Inl f \<Rightarrow> (a, fail f)
      | Inr caller \<Rightarrow>
          admin_commit (writeViewGroupError env ''delete view group'') (Reply 204 NoContent) a
            (DeleteViewGroup (req_path r ''name'') a))"

definition joinViewGroup :: "admin_env \<Rightarrow> request \<Rightarrow> accounts \<Rightarrow> accounts \<times> admin_payload reply" where
  "joinViewGroup env r a =
     (case viewGroupCaller env r True of
        Inl f \<Rightarrow> (a, fail f)
      | Inr caller \<Rightarrow>
          admin_commit (writeViewGroupError env ''join view group'') (Reply 204 NoContent) a
            (JoinViewGroup (UserID caller) (req_path r ''name'') a))"

definition leaveViewGroup :: "admin_env \<Rightarrow> request \<Rightarrow> accounts \<Rightarrow> accounts \<times> admin_payload reply" where
  "leaveViewGroup env r a =
     (case viewGroupCaller env r True of
        Inl f \<Rightarrow> (a, fail f)
      | Inr caller \<Rightarrow>
          admin_commit (writeViewGroupError env ''leave view group'') (Reply 204 NoContent) a
            (LeaveViewGroup (UserID caller) (req_path r ''name'') a))"

definition pinViewGroup :: "admin_env \<Rightarrow> request \<Rightarrow> ViewGroupPin body \<Rightarrow> accounts \<Rightarrow> accounts \<times> admin_payload reply" where
  "pinViewGroup env r b a =
     (case accessGate env r True of
        Inl f \<Rightarrow> (a, fail f)
      | Inr caller \<Rightarrow>
          (case decodeStrict b of
             Inl f \<Rightarrow> (a, fail f)
           | Inr pin \<Rightarrow>
               admin_commit (writeViewGroupError env ''pin view group'') (Reply 204 NoContent) a
                 (PinViewGroup (adm_url_parse env) (req_path r ''name'') pin a)))"

definition unpinViewGroup :: "admin_env \<Rightarrow> request \<Rightarrow> ViewGroupPin body \<Rightarrow> accounts \<Rightarrow> accounts \<times> admin_payload reply" where
  "unpinViewGroup env r b a =
     (case accessGate env r True of
        Inl f \<Rightarrow> (a, fail f)
      | Inr caller \<Rightarrow>
          (case decodeStrict b of
             Inl f \<Rightarrow> (a, fail f)
           | Inr pin \<Rightarrow>
               admin_commit (writeViewGroupError env ''unpin view group'') (Reply 204 NoContent) a
                 (UnpinViewGroup (adm_url_parse env) (req_path r ''name'') pin a)))"

text \<open>The routes of the two files, behind authentication.\<close>

datatype admin_route =
  ListRoleBindings | SetRoleBindingRoute "binding_wire body" | DeleteRoleBindingRoute
| ListViewGroups | SetViewGroupRoute "ViewGroup body" | DeleteViewGroupRoute | JoinRoute | LeaveRoute
| PinRoute "ViewGroupPin body" | UnpinRoute "ViewGroupPin body"

definition admin_handler :: "admin_env \<Rightarrow> admin_route \<Rightarrow> request \<Rightarrow> accounts \<Rightarrow> accounts \<times> admin_payload reply" where
  "admin_handler env q r a =
     (case q of
        ListRoleBindings \<Rightarrow> listRoleBindings env r a
      | SetRoleBindingRoute b \<Rightarrow> setRoleBinding env r b a
      | DeleteRoleBindingRoute \<Rightarrow> deleteRoleBinding env r a
      | ListViewGroups \<Rightarrow> listViewGroups env r a
      | SetViewGroupRoute b \<Rightarrow> setViewGroup env r b a
      | DeleteViewGroupRoute \<Rightarrow> deleteViewGroup env r a
      | JoinRoute \<Rightarrow> joinViewGroup env r a
      | LeaveRoute \<Rightarrow> leaveViewGroup env r a
      | PinRoute b \<Rightarrow> pinViewGroup env r b a
      | UnpinRoute b \<Rightarrow> unpinViewGroup env r b a)"

section \<open>Specification\<close>

text \<open>Only the memberships of one user differ.\<close>

definition own_membership :: "int \<Rightarrow> accounts \<Rightarrow> accounts \<Rightarrow> bool" where
  "own_membership uid a a' \<longleftrightarrow>
     a' = a\<lparr>view_group_members := view_group_members a'\<rparr> \<and>
     (\<forall>i u. u \<noteq> uid \<longrightarrow> ((i, u) \<in> set (view_group_members a') \<longleftrightarrow> (i, u) \<in> set (view_group_members a)))"

text \<open>What a request may do to the tables: as an administrator a step of the store, as a signed-in user a
  change of the user's own memberships.\<close>

definition admin_change :: "admin_env \<Rightarrow> request \<Rightarrow> accounts \<Rightarrow> accounts \<Rightarrow> bool" where
  "admin_change env r a a' \<longleftrightarrow>
     (\<exists>caller. req_principal r = Some caller \<and> validMutationOrigin (adm_url_parse env) r \<and>
        (CanAdminister caller \<and>
           ((\<exists>binding. binding_Name binding = req_path r ''name'' \<and>
               SetRoleBinding (adm_url_parse env) (adm_pg_regex env) binding a a a = Inr a') \<or>
            DeleteRoleBinding (req_path r ''name'') a a a = Inr a' \<or>
            view_step (adm_rx env) (adm_url_parse env) (adm_pg_regex env) a a') \<or>
         \<not> Anonymous caller \<and> own_membership (UserID caller) a a' \<and>
           view_step (adm_rx env) (adm_url_parse env) (adm_pg_regex env) a a'))"

definition sample_admin :: Principal where
  "sample_admin = \<lparr>UserID = 7, Subject = ''local|7'', Email = [], DisplayName = ''Alice'', Roles = [],
     Anonymous = False, Grants = [\<lparr>grant_Role = RoleAdministrator, grant_Matchers = []\<rparr>], ViewGroups = []\<rparr>"

definition sample_admin_env :: admin_env where
  "sample_admin_env = \<lparr>adm_url_parse = (\<lambda>u. None), adm_pg_regex = (\<lambda>p. True), adm_rx = (\<lambda>p v. None), adm_strxfrm = id,
     adm_text = (\<lambda>e. [])\<rparr>"

definition sample_admin_request :: request where
  "sample_admin_request = \<lparr>req_path = (\<lambda>n. ''web''), req_query = (\<lambda>n. []), req_header = (\<lambda>n. []), req_cookies = [],
     req_host = [], req_principal = None\<rparr>"

section \<open>Lemmas\<close>

lemma accessGate_Inr:
  "accessGate env r mutating = Inr caller \<longleftrightarrow>
     req_principal r = Some caller \<and> CanAdminister caller \<and> (mutating \<longrightarrow> validMutationOrigin (adm_url_parse env) r)"
  by (auto simp: accessGate_def server_error_def split: option.splits if_splits)

lemma viewGroupCaller_Inr:
  "viewGroupCaller env r mutating = Inr caller \<longleftrightarrow>
     req_principal r = Some caller \<and> \<not> Anonymous caller \<and> UserID caller \<noteq> 0 \<and> (mutating \<longrightarrow> validMutationOrigin (adm_url_parse env) r)"
  by (auto simp: viewGroupCaller_def server_error_def split: option.splits if_splits)

lemma admin_commit_fst [simp]: "fst (admin_commit refuse reply a result) = (case result of Inl e \<Rightarrow> a | Inr a' \<Rightarrow> a')"
  by (simp add: admin_commit_def split: sum.splits)

lemma memberships_own:
  "JoinViewGroup uid name a = Inr a' \<Longrightarrow> own_membership uid a a'"
  "LeaveViewGroup uid name a = Inr a' \<Longrightarrow> own_membership uid a a'"
  by (auto simp: own_membership_def split: if_splits elim!: JoinViewGroup_Inr LeaveViewGroup_Inr)

text \<open>What passes a gate may change the tables.\<close>

lemma admin_changeI:
  "accessGate env r True = Inr caller \<Longrightarrow> SetRoleBinding (adm_url_parse env) (adm_pg_regex env) binding a a a = Inr a' \<Longrightarrow>
     binding_Name binding = req_path r ''name'' \<Longrightarrow> admin_change env r a a'"
  "accessGate env r True = Inr caller \<Longrightarrow> DeleteRoleBinding (req_path r ''name'') a a a = Inr a' \<Longrightarrow> admin_change env r a a'"
  "accessGate env r True = Inr caller \<Longrightarrow> view_step (adm_rx env) (adm_url_parse env) (adm_pg_regex env) a a' \<Longrightarrow> admin_change env r a a'"
  "viewGroupCaller env r True = Inr caller \<Longrightarrow> own_membership (UserID caller) a a' \<Longrightarrow>
     view_step (adm_rx env) (adm_url_parse env) (adm_pg_regex env) a a' \<Longrightarrow> admin_change env r a a'"
  unfolding admin_change_def accessGate_Inr viewGroupCaller_Inr by blast+

lemma binding_routes:
  "fst (setRoleBinding env r b a) = a \<or> admin_change env r a (fst (setRoleBinding env r b a))"
  "fst (deleteRoleBinding env r a) = a \<or> admin_change env r a (fst (deleteRoleBinding env r a))"
  by (simp_all add: setRoleBinding_def deleteRoleBinding_def Let_def split: sum.splits) (auto intro: admin_changeI(1,2))

lemma administrator_view_routes:
  "fst (setViewGroup env r g a) = a \<or> admin_change env r a (fst (setViewGroup env r g a))"
  "fst (deleteViewGroup env r a) = a \<or> admin_change env r a (fst (deleteViewGroup env r a))"
  "fst (pinViewGroup env r p a) = a \<or> admin_change env r a (fst (pinViewGroup env r p a))"
  "fst (unpinViewGroup env r p a) = a \<or> admin_change env r a (fst (unpinViewGroup env r p a))"
  by (simp_all add: setViewGroup_def deleteViewGroup_def pinViewGroup_def unpinViewGroup_def Let_def split: sum.splits)
    (auto intro: admin_changeI(3) view_step.intros)

lemma membership_routes:
  "fst (joinViewGroup env r a) = a \<or> admin_change env r a (fst (joinViewGroup env r a))"
  "fst (leaveViewGroup env r a) = a \<or> admin_change env r a (fst (leaveViewGroup env r a))"
  by (simp_all add: joinViewGroup_def leaveViewGroup_def split: sum.splits)
    (auto intro: admin_changeI(4) memberships_own view_step.intros)

lemma admin_handler_change: "fst (admin_handler env q r a) = a \<or> admin_change env r a (fst (admin_handler env q r a))"
  by (cases q) (simp_all add: admin_handler_def binding_routes administrator_view_routes membership_routes
      listRoleBindings_def listViewGroups_def split: sum.splits)

lemma accounts_ok_view_tables [simp]:
  "accounts_ok (a\<lparr>view_groups := gs\<rparr>) = accounts_ok a" "accounts_ok (a\<lparr>next_view_group := n\<rparr>) = accounts_ok a"
  "accounts_ok (a\<lparr>view_group_members := ms\<rparr>) = accounts_ok a" "accounts_ok (a\<lparr>view_group_pins := ps\<rparr>) = accounts_ok a"
  "accounts_ok (a\<lparr>next_pin := n\<rparr>) = accounts_ok a"
  by (simp_all add: accounts_ok_def identities_ok_def bindings_ok_def binding_row_ok_def user_exists_def cong: option.case_cong)

lemma view_step_accounts_ok:
  assumes "view_step rx url_parse pg_regex a a'"
  shows "accounts_ok a' = accounts_ok a" "administrators a' = administrators a"
proof -
  show "administrators a' = administrators a" using view_step_keeps(1) [OF assms] by (simp add: same_authority_def administrators_def)
  show "accounts_ok a' = accounts_ok a"
    using assms
  proof (cases rule: view_step.cases)
    case (set_group grp)
    then show ?thesis by (simp add: SetViewGroup_Inr(1) [OF set_group] put_view_group_def)
  next
    case (join_group uid name)
    then show ?thesis by (auto split: if_splits elim!: JoinViewGroup_Inr)
  next
    case (leave_group uid name)
    then show ?thesis by (auto elim!: LeaveViewGroup_Inr)
  qed (auto simp: DeleteViewGroup_def PinViewGroup_def UnpinViewGroup_def bind_res_Inr Let_def split: if_splits option.splits)
qed

lemma binding_view_groups_ok:
  "SetRoleBinding url_parse pg_regex binding counted named a = Inr a' \<Longrightarrow> view_groups_ok a' = view_groups_ok a"
  "DeleteRoleBinding name counted named a = Inr a' \<Longrightarrow> view_groups_ok a' = view_groups_ok a"
proof -
  have "view_groups_ok (put_binding binding a) = view_groups_ok a" by (simp add: put_binding_def view_groups_ok_def Let_def split: option.splits)
  then show "SetRoleBinding url_parse pg_regex binding counted named a = Inr a' \<Longrightarrow> view_groups_ok a' = view_groups_ok a"
    by (auto simp: SetRoleBinding_def bind_res_Inr split: if_splits)
  have "view_groups_ok (a\<lparr>role_bindings := bs\<rparr>) = view_groups_ok a" for bs by (simp add: view_groups_ok_def)
  then show "DeleteRoleBinding name counted named a = Inr a' \<Longrightarrow> view_groups_ok a' = view_groups_ok a"
    by (auto simp: DeleteRoleBinding_def bind_res_Inr split: if_splits)
qed

lemma admin_change_keeps:
  assumes "admin_change env r a a'" "accounts_ok a" "view_groups_ok a"
  shows "accounts_ok a' \<and> view_groups_ok a' \<and> (administrators a \<noteq> [] \<longrightarrow> administrators a' \<noteq> [])"
proof -
  from assms(1) consider binding where "SetRoleBinding (adm_url_parse env) (adm_pg_regex env) binding a a a = Inr a'"
    | "DeleteRoleBinding (req_path r ''name'') a a a = Inr a'"
    | "view_step (adm_rx env) (adm_url_parse env) (adm_pg_regex env) a a'"
    unfolding admin_change_def by blast
  then show ?thesis
  proof cases
    case (1 binding)
    then show ?thesis using set_keeps [OF 1 assms(2)] binding_view_groups_ok(1) [OF 1] assms(3) by blast
  next
    case 2
    then show ?thesis using delete_keeps [OF 2 assms(2)] binding_view_groups_ok(2) [OF 2] assms(3) by blast
  next
    case 3
    then show ?thesis using view_step_accounts_ok [OF 3] view_step_keeps(2) [OF 3 assms(3)] assms(2) by simp
  qed
qed

section \<open>Properties\<close>

text \<open>C25: administration over HTTP, one request at a time. Whatever a request to the administration routes carries, the constraints of
  the access tables hold afterwards; the last administrator is still there when no other change of the bindings overlaps the
  request (overlapping ones can lose it, see C24); the tables change only for a caller the server authenticated, with an acceptable
  origin, either by one operation of the store for a caller with an administrator grant, a binding being the one its path
  names, or by a signed-in user's joining or leaving a view group, which changes that user's memberships only. An administrator grant is
  all the gate asks for: in an open mode elevated to administrator the anonymous caller has it, as in the witness, although the
  documentation says it is refused.\<close>

theorem administration_guarded:
  assumes "requireAuthentication authenticate (admin_handler env q) r a = (a', reply)" "accounts_ok a" "view_groups_ok a"
  shows "accounts_ok a' \<and> view_groups_ok a' \<and> (administrators a \<noteq> [] \<longrightarrow> administrators a' \<noteq> []) \<and>
    (a' \<noteq> a \<longrightarrow>
      (\<exists>caller. authenticate r = Inr caller \<and> CanRead caller \<and> admin_change env (r\<lparr>req_principal := Some caller\<rparr>) a a'))"
proof (cases "a' = a")
  case False
  then obtain caller where caller: "authenticate r = Inr caller" "CanRead caller"
      "fst (admin_handler env q (r\<lparr>req_principal := Some caller\<rparr>) a) = a'"
    using assms(1) by (auto simp: requireAuthentication_def split: sum.splits auth_error.splits if_splits)
  then have "admin_change env (r\<lparr>req_principal := Some caller\<rparr>) a a'" using admin_handler_change [of env q "r\<lparr>req_principal := Some caller\<rparr>" a] False by simp
  with caller show ?thesis using admin_change_keeps [OF _ assms(2,3)] by blast
qed (use assms in simp)

lemma sample_join:
  "requireAuthentication (\<lambda>r. Inr sample_admin) (admin_handler sample_admin_env JoinRoute) sample_admin_request sample_view =
     (sample_view\<lparr>view_group_members := [(1, 7)]\<rparr>, Reply 204 NoContent)"
  by (simp add: requireAuthentication_def admin_handler_def joinViewGroup_def viewGroupCaller_def sample_admin_def sample_admin_request_def
      sample_admin_env_def validMutationOrigin_def request_cookie_def admin_commit_def JoinViewGroup_def viewGroupID_def sample_view_def
      sample_accounts_def CanRead_def)

text \<open>The witness: a signed-in user joins a view group, and an anonymous caller with an administrator grant deletes a binding.\<close>

definition sample_elevated :: Principal where
  "sample_elevated = sample_admin\<lparr>UserID := 0, Anonymous := True\<rparr>"

lemma sample_elevated_delete:
  "requireAuthentication (\<lambda>r. Inr sample_elevated) (admin_handler sample_admin_env DeleteRoleBindingRoute) sample_admin_request
      (put_binding sample_binding sample_accounts) =
     (put_binding sample_binding sample_accounts\<lparr>role_bindings := role_bindings sample_accounts\<rparr>, Reply 204 NoContent)"
  by (simp add: requireAuthentication_def admin_handler_def deleteRoleBinding_def accessGate_def sample_elevated_def sample_admin_def
      sample_admin_request_def sample_admin_env_def validMutationOrigin_def request_cookie_def admin_commit_def DeleteRoleBinding_def
      guardLastAdministrator_def administrators_def sample_accounts_def sample_binding_def put_binding_def binding_row_of_def
      CanAdminister_def CanRead_def)

theorem administration_guarded_witness:
  "admin_change sample_admin_env (sample_admin_request\<lparr>req_principal := Some sample_admin\<rparr>) sample_view
      (sample_view\<lparr>view_group_members := [(1, 7)]\<rparr>) \<and>
   Anonymous sample_elevated \<and>
   admin_change sample_admin_env (sample_admin_request\<lparr>req_principal := Some sample_elevated\<rparr>) (put_binding sample_binding sample_accounts)
      (put_binding sample_binding sample_accounts\<lparr>role_bindings := role_bindings sample_accounts\<rparr>)"
proof -
  have "accounts_ok sample_view" "view_groups_ok sample_view"
    using sample_accounts_ok(1) by (simp add: sample_view_def) (simp add: sample_view_def view_groups_ok_def sample_accounts_def)
  moreover have "sample_view\<lparr>view_group_members := [(1, 7)]\<rparr> \<noteq> sample_view" by (simp add: sample_view_def sample_accounts_def)
  ultimately have join: "admin_change sample_admin_env (sample_admin_request\<lparr>req_principal := Some sample_admin\<rparr>) sample_view
      (sample_view\<lparr>view_group_members := [(1, 7)]\<rparr>)"
    using administration_guarded [OF sample_join] by auto
  let ?a = "put_binding sample_binding sample_accounts"
  have "accounts_ok ?a" by (rule set_keeps(1) [OF sample_binding_set sample_accounts_ok(1)])
  moreover have "view_groups_ok ?a" by (simp add: view_groups_ok_def sample_accounts_def sample_binding_def put_binding_def)
  moreover have "?a\<lparr>role_bindings := role_bindings sample_accounts\<rparr> \<noteq> ?a"
    by (simp add: sample_accounts_def sample_binding_def put_binding_def)
  ultimately show ?thesis
    using administration_guarded [OF sample_elevated_delete] join by (auto simp: sample_elevated_def)
qed

end
