(* ===== verification/Sessions.thy ===== *)
theory Sessions
  imports Accounts Http
begin

text \<open>
  Sessions, one-time desktop codes and OIDC sign-in: the tables (\<open>internal/postgres/store.go\<close>,
  \<open>desktop.go\<close>), the session manager (\<open>internal/auth/auth.go\<close>) and the OIDC handler
  (\<open>internal/auth/oidc.go\<close>, \<open>desktop.go\<close>).

  The random tokens are arguments, \<^const>\<open>None\<close> when the system's randomness fails. \<open>now\<close> is the
  clock of the process, read once per request, and \<open>db_now\<close> that of the database. What the handlers
  are built with is a record: SHA-256, the identity provider as the interface the code declares
  (\<open>AuthorizationURL\<close>, \<open>Exchange\<close>), \<open>url.Parse\<close> of a redirect and the text of a URL with a
  parameter of its query set, the lifetime of a session, and whether desktop codes are wired. A database
  that cannot be reached is not modelled: the errors of the tables are those of their constraints.
\<close>

section \<open>Tables\<close>

record Session =
  session_TokenHash :: string
  session_UserID :: int
  session_ExpiresAt :: instant

record session_row = Session +
  session_last_seen_at :: instant

record DesktopCode =
  code_Hash :: string
  code_UserID :: int
  code_ExpiresAt :: instant

record OIDCTransaction =
  tx_StateHash :: string
  tx_Nonce :: string
  tx_CodeVerifier :: string
  tx_ExpiresAt :: instant
  tx_DesktopRedirect :: string

record credential_row =
  cred_user_id :: int
  cred_password_hash :: string
  cred_failed_attempts :: int
  cred_locked_until :: "instant option"
  cred_password_changed_at :: instant

record auth_state =
  st_accounts :: accounts
  st_credentials :: "credential_row list"
  st_sessions :: "session_row list"
  st_codes :: "DesktopCode list"
  st_transactions :: "OIDCTransaction list"

definition StoreSession :: "instant \<Rightarrow> Session \<Rightarrow> auth_state \<Rightarrow> access_error + auth_state" where
  "StoreSession db_now session s =
     (if session_TokenHash session \<in> session_TokenHash ` set (st_sessions s) \<or>
         session_UserID session \<notin> user_id ` set (users (st_accounts s)) then Inl AccessDatabase
      else Inr (s\<lparr>st_sessions := st_sessions s @
        [\<lparr>session_TokenHash = session_TokenHash session, session_UserID = session_UserID session,
          session_ExpiresAt = session_ExpiresAt session, session_last_seen_at = db_now\<rparr>]\<rparr>))"

definition FindSession :: "string \<Rightarrow> instant \<Rightarrow> auth_state \<Rightarrow> auth_state \<times> (access_error + Session \<times> Principal)" where
  "FindSession tokenHash now s =
     (let live = (\<lambda>r. session_TokenHash r = tokenHash \<and> now < session_ExpiresAt r) in
      case find live (st_sessions s) of
        None \<Rightarrow> (s, Inl Unauthenticated)
      | Some r \<Rightarrow>
          (s\<lparr>st_sessions := upd_where live (\<lambda>r. r\<lparr>session_last_seen_at := now\<rparr>) (st_sessions s)\<rparr>,
           case resolvePrincipal (st_accounts s) (session_UserID r) of
             Inl AccessDenied \<Rightarrow> Inl Unauthenticated
           | Inl e \<Rightarrow> Inl e
           | Inr caller \<Rightarrow> Inr (Session.truncate r, caller)))"

definition DeleteSession :: "string \<Rightarrow> auth_state \<Rightarrow> auth_state" where
  "DeleteSession tokenHash s = s\<lparr>st_sessions := filter (\<lambda>r. session_TokenHash r \<noteq> tokenHash) (st_sessions s)\<rparr>"

definition StoreDesktopCode :: "instant \<Rightarrow> DesktopCode \<Rightarrow> auth_state \<Rightarrow> access_error + auth_state" where
  "StoreDesktopCode db_now code s =
     (let kept = filter (\<lambda>c. \<not> code_ExpiresAt c \<le> db_now) (st_codes s) in
      if code_Hash code \<in> code_Hash ` set kept \<or> code_UserID code \<notin> user_id ` set (users (st_accounts s))
      then Inl AccessDatabase else Inr (s\<lparr>st_codes := kept @ [code]\<rparr>))"

definition ConsumeDesktopCode :: "string \<Rightarrow> instant \<Rightarrow> auth_state \<Rightarrow> auth_state \<times> (access_error + int)" where
  "ConsumeDesktopCode codeHash now s =
     (let hit = (\<lambda>c. code_Hash c = codeHash \<and> now < code_ExpiresAt c) in
      case find hit (st_codes s) of
        None \<Rightarrow> (s, Inl CodeInvalid)
      | Some c \<Rightarrow> (s\<lparr>st_codes := filter (\<lambda>c. \<not> hit c) (st_codes s)\<rparr>, Inr (code_UserID c)))"

definition StoreOIDCTransaction :: "instant \<Rightarrow> OIDCTransaction \<Rightarrow> auth_state \<Rightarrow> access_error + auth_state" where
  "StoreOIDCTransaction db_now tx s =
     (let kept = filter (\<lambda>t. \<not> tx_ExpiresAt t \<le> db_now) (st_transactions s) in
      if tx_StateHash tx \<in> tx_StateHash ` set kept \<or>
         \<not> list_all text_ok [tx_Nonce tx, tx_CodeVerifier tx, tx_DesktopRedirect tx]
      then Inl AccessDatabase else Inr (s\<lparr>st_transactions := kept @ [tx]\<rparr>))"

definition ConsumeOIDCTransaction :: "string \<Rightarrow> instant \<Rightarrow> auth_state \<Rightarrow> auth_state \<times> (access_error + OIDCTransaction)" where
  "ConsumeOIDCTransaction stateHash now s =
     (let hit = (\<lambda>t. tx_StateHash t = stateHash \<and> now < tx_ExpiresAt t) in
      case find hit (st_transactions s) of
        None \<Rightarrow> (s, Inl InvalidTransaction)
      | Some t \<Rightarrow> (s\<lparr>st_transactions := filter (\<lambda>t. \<not> hit t) (st_transactions s)\<rparr>, Inr t))"

section \<open>Session manager\<close>

record parsed_url =
  url_Scheme :: string
  url_Hostname :: string
  url_Port :: string
  url_RawQuery :: string
  url_Fragment :: string
  url_HasUser :: bool
  url_Text :: string

record auth_env =
  env_hash :: "string \<Rightarrow> string"
  env_lower :: "string \<Rightarrow> string"
  env_redirect_parts :: "string \<Rightarrow> parsed_url option"
  env_set_query :: "parsed_url \<Rightarrow> string \<Rightarrow> string \<Rightarrow> string"
  env_authorization_url :: "string \<Rightarrow> string \<Rightarrow> string \<Rightarrow> string"
  env_challenge :: "string \<Rightarrow> string"
  env_exchange :: "string \<Rightarrow> string \<Rightarrow> (DirectoryIdentity \<times> string) option"
  env_session_ttl :: int
  env_desktop_codes :: bool

definition NewSession ::
  "auth_env \<Rightarrow> string option \<Rightarrow> instant \<Rightarrow> instant \<Rightarrow> int \<Rightarrow> auth_state \<Rightarrow> access_error + string \<times> auth_state" where
  "NewSession env random now db_now uid s =
     (if uid < 1 then Inl (AccessMessage ''persistent user is required for a session'')
      else case random of
        None \<Rightarrow> Inl (AccessMessage ''randomness'')
      | Some token \<Rightarrow>
          bind_res (StoreSession db_now \<lparr>session_TokenHash = env_hash env token, session_UserID = uid, session_ExpiresAt = now + env_session_ttl env\<rparr> s)
            (\<lambda>s'. Inr (token, s')))"

definition requestSessionToken :: "request \<Rightarrow> string" where
  "requestSessionToken r =
     (let token = requestBearerToken r in
      if token = '''' then (case request_cookie r SessionCookieName of None \<Rightarrow> '''' | Some v \<Rightarrow> v) else token)"

definition Authenticate ::
  "auth_env \<Rightarrow> instant \<Rightarrow> request \<Rightarrow> auth_state \<Rightarrow> auth_state \<times> (access_error + Principal)" where
  "Authenticate env now r s =
     (let token = requestSessionToken r in
      if token = '''' then (s, Inl Unauthenticated)
      else let (s', found) = FindSession (env_hash env token) now s
           in (s', bind_res found (\<lambda>(session, caller). Inr caller)))"

definition Revoke :: "auth_env \<Rightarrow> request \<Rightarrow> auth_state \<Rightarrow> auth_state" where
  "Revoke env r s =
     (let token = requestSessionToken r in if token = '''' then s else DeleteSession (env_hash env token) s)"

section \<open>Desktop redirects\<close>

definition isLoopbackHost :: "string \<Rightarrow> bool" where
  "isLoopbackHost host \<longleftrightarrow> host = ''127.0.0.1'' \<or> host = ''::1'' \<or> host = ''localhost''"

definition ValidateDesktopRedirect :: "auth_env \<Rightarrow> string \<Rightarrow> string option" where
  "ValidateDesktopRedirect env raw =
     (if raw = '''' then None
      else case env_redirect_parts env raw of
        None \<Rightarrow> None
      | Some u \<Rightarrow>
          if url_Scheme u \<noteq> ''http'' then None
          else if \<not> isLoopbackHost (url_Hostname u) then None
          else if url_Port u = '''' then None
          else if url_RawQuery u \<noteq> '''' \<or> url_Fragment u \<noteq> '''' then None
          else if url_HasUser u then None
          else Some (url_Text u))"

definition DesktopRedirectWithCode :: "auth_env \<Rightarrow> string \<Rightarrow> string \<Rightarrow> string option" where
  "DesktopRedirectWithCode env redirect code =
     (case env_redirect_parts env redirect of
        None \<Rightarrow> None
      | Some u \<Rightarrow> Some (env_set_query env u ''code'' code))"

section \<open>OIDC sign-in\<close>

datatype auth_reply =
  Refused nat string | SignedIn string | AuthorizeAt string string | DesktopCodeAt string string
| DesktopCodeBody string | DesktopToken string instant | SignedOut | Throttled int | NoReply | PathNotFound | MethodNotAllowed

definition oidcStateCookieName :: string where
  "oidcStateCookieName = ''promview_oidc_state''"

text \<open>Five minutes and one minute, in microseconds.\<close>

definition oidcTransactionTTL :: int where
  "oidcTransactionTTL = 5 * 60 * 1000000"

definition DesktopCodeTTL :: int where
  "DesktopCodeTTL = 60 * 1000000"

text \<open>\<open>OIDCHandler.login\<close>: the reply carries the address of the provider and the state cookie.\<close>

definition oidc_login ::
  "auth_env \<Rightarrow> string option \<times> string option \<times> string option \<Rightarrow> instant \<Rightarrow> instant \<Rightarrow> request \<Rightarrow> auth_state \<Rightarrow> auth_state \<times> auth_reply" where
  "oidc_login env randoms now db_now r s =
     (case randoms of
        (Some state, Some nonce, Some verifier) \<Rightarrow>
          (let raw = query_get r ''desktop_redirect'';
               redirect = (if raw = '''' then Some '''' else ValidateDesktopRedirect env raw)
           in case redirect of
                None \<Rightarrow> (s, Refused 400 ''invalid desktop redirect'')
              | Some desktopRedirect \<Rightarrow>
                  (case StoreOIDCTransaction db_now \<lparr>tx_StateHash = env_hash env state, tx_Nonce = nonce, tx_CodeVerifier = verifier,
                      tx_ExpiresAt = now + oidcTransactionTTL, tx_DesktopRedirect = desktopRedirect\<rparr> s of
                     Inl e \<Rightarrow> (s, Refused 500 ''could not start sign-in'')
                   | Inr s' \<Rightarrow> (s', AuthorizeAt (env_authorization_url env state nonce (env_challenge env verifier)) state)))
      | _ \<Rightarrow> (s, Refused 500 ''could not start sign-in''))"

text \<open>\<open>OIDCHandler.completeDesktopSignIn\<close>.\<close>

definition oidc_desktop ::
  "auth_env \<Rightarrow> string option \<Rightarrow> instant \<Rightarrow> instant \<Rightarrow> string \<Rightarrow> Principal \<Rightarrow>
   auth_state \<Rightarrow> auth_state \<times> auth_reply" where
  "oidc_desktop env random now db_now redirect caller s =
     (if \<not> env_desktop_codes env then (s, Refused 501 ''desktop sign-in is not configured'')
      else case random of
        None \<Rightarrow> (s, Refused 500 ''could not complete sign-in'')
      | Some code \<Rightarrow>
          (case StoreDesktopCode db_now \<lparr>code_Hash = env_hash env code, code_UserID = UserID caller,
                code_ExpiresAt = now + DesktopCodeTTL\<rparr> s of
             Inl e \<Rightarrow> (s, Refused 500 ''could not complete sign-in'')
           | Inr s' \<Rightarrow>
               (case DesktopRedirectWithCode env redirect code of
                  None \<Rightarrow> (s', Refused 400 ''invalid desktop redirect'')
                | Some target \<Rightarrow> (s', DesktopCodeAt target code))))"

text \<open>The end of a sign-in: the session in a cookie, or the desktop's code.\<close>

definition oidc_finish ::
  "auth_env \<Rightarrow> string option \<Rightarrow> instant \<Rightarrow> instant \<Rightarrow>
   OIDCTransaction \<Rightarrow> Principal \<Rightarrow> auth_state \<Rightarrow> auth_state \<times> auth_reply" where
  "oidc_finish env random now db_now tx caller s =
     (if tx_DesktopRedirect tx \<noteq> ''''
      then oidc_desktop env random now db_now (tx_DesktopRedirect tx) caller s
      else case NewSession env random now db_now (UserID caller) s of
        Inl e \<Rightarrow> (s, Refused 500 ''could not create session'')
      | Inr (token, s') \<Rightarrow> (s', SignedIn token))"

definition oidc_callback ::
  "auth_env \<Rightarrow> string option \<Rightarrow> instant \<Rightarrow> instant \<Rightarrow> request \<Rightarrow> auth_state \<Rightarrow> auth_state \<times> auth_reply" where
  "oidc_callback env random now db_now r s =
     (let state = query_get r ''state'' in
      if request_cookie r oidcStateCookieName \<noteq> Some state \<or> state = '''' then (s, Refused 400 ''invalid sign-in response'')
      else let (s1, consumed) = ConsumeOIDCTransaction (env_hash env state) now s in
      case consumed of
        Inl e \<Rightarrow> (s1, Refused 400 ''invalid sign-in response'')
      | Inr tx \<Rightarrow>
          if query_get r ''error'' \<noteq> '''' \<or> query_get r ''code'' = ''''
          then (s1, Refused 400 ''identity provider rejected sign-in'')
          else case env_exchange env (query_get r ''code'') (tx_CodeVerifier tx) of
            None \<Rightarrow> (s1, Refused 502 ''identity provider validation failed'')
          | Some (identity, nonce) \<Rightarrow>
              if tx_Nonce tx \<noteq> nonce then (s1, Refused 502 ''identity provider validation failed'')
              else let (a', resolved) = ResolveDirectoryIdentity (env_lower env) db_now identity (st_accounts s1);
                       s2 = s1\<lparr>st_accounts := a'\<rparr>
                   in case resolved of
                        Inl AccessDenied \<Rightarrow> (s2, Refused 403 ''read access denied'')
                      | Inl e \<Rightarrow> (s2, Refused 500 ''could not resolve identity'')
                      | Inr caller \<Rightarrow> oidc_finish env random now db_now tx caller s2)"

definition ExchangeDesktopCode ::
  "auth_env \<Rightarrow> string option \<Rightarrow> instant \<Rightarrow> instant \<Rightarrow> string \<Rightarrow> auth_state \<Rightarrow>
   auth_state \<times> (access_error + string \<times> instant)" where
  "ExchangeDesktopCode env random now db_now code s =
     (if \<not> env_desktop_codes env then (s, Inl CodeInvalid)
      else let (s1, consumed) = ConsumeDesktopCode (env_hash env code) now s in
      case consumed of
        Inl e \<Rightarrow> (s1, Inl e)
      | Inr uid \<Rightarrow>
          (case NewSession env random now db_now uid s1 of
             Inl e \<Rightarrow> (s1, Inl e)
           | Inr (token, s2) \<Rightarrow> (s2, Inr (token, now + env_session_ttl env))))"

definition oidc_exchange ::
  "auth_env \<Rightarrow> string option \<Rightarrow> instant \<Rightarrow> instant \<Rightarrow> string body \<Rightarrow> auth_state \<Rightarrow> auth_state \<times> auth_reply" where
  "oidc_exchange env random now db_now body s =
     (case body of
        BodyValue code rest \<Rightarrow>
          if code = '''' then (s, Refused 400 ''code is required'')
          else (case ExchangeDesktopCode env random now db_now code s of
                  (s', Inl CodeInvalid) \<Rightarrow> (s', Refused 401 ''code is invalid or has already been used'')
                | (s', Inl e) \<Rightarrow> (s', Refused 500 ''could not complete sign-in'')
                | (s', Inr (token, expiresAt)) \<Rightarrow> (s', DesktopToken token expiresAt))
      | _ \<Rightarrow> (s, Refused 400 ''code is required''))"

section \<open>Constraints\<close>

text \<open>The primary keys of the tables, and the references to \<open>users\<close>.\<close>

definition auth_ok :: "auth_state \<Rightarrow> bool" where
  "auth_ok s \<longleftrightarrow>
     accounts_ok (st_accounts s) \<and>
     distinct (map session_TokenHash (st_sessions s)) \<and> distinct (map code_Hash (st_codes s)) \<and>
     distinct (map tx_StateHash (st_transactions s)) \<and> distinct (map cred_user_id (st_credentials s)) \<and>
     set (map session_UserID (st_sessions s)) \<subseteq> set (map user_id (users (st_accounts s))) \<and>
     set (map code_UserID (st_codes s)) \<subseteq> set (map user_id (users (st_accounts s))) \<and>
     set (map cred_user_id (st_credentials s)) \<subseteq> set (map user_id (users (st_accounts s)))"

text \<open>The codes and the transactions as maps from the hash to what is handed back and its expiry.\<close>

definition code_entries :: "auth_state \<Rightarrow> string \<rightharpoonup> int \<times> instant" where
  "code_entries s = map_of (map (\<lambda>c. (code_Hash c, code_UserID c, code_ExpiresAt c)) (st_codes s))"

definition tx_entries :: "auth_state \<Rightarrow> string \<rightharpoonup> OIDCTransaction \<times> instant" where
  "tx_entries s = map_of (map (\<lambda>t. (tx_StateHash t, t, tx_ExpiresAt t)) (st_transactions s))"

definition session_entries :: "auth_state \<Rightarrow> string \<rightharpoonup> int \<times> instant" where
  "session_entries s = map_of (map (\<lambda>r. (session_TokenHash r, session_UserID r, session_ExpiresAt r)) (st_sessions s))"

text \<open>What the end of a sign-in leaves behind.\<close>

definition signed_in :: "auth_env \<Rightarrow> instant \<Rightarrow> int \<Rightarrow> auth_state \<Rightarrow> auth_reply \<Rightarrow> auth_state \<Rightarrow> bool" where
  "signed_in env now uid s reply s' \<longleftrightarrow>
     (case reply of
        SignedIn token \<Rightarrow> code_entries s' = code_entries s \<and>
          session_entries s' = (session_entries s)(env_hash env token \<mapsto> (uid, now + env_session_ttl env))
      | DesktopCodeAt target code \<Rightarrow> session_entries s' = session_entries s \<and>
          code_entries s' (env_hash env code) = Some (uid, now + DesktopCodeTTL)
      | _ \<Rightarrow> False)"

section \<open>Samples\<close>

text \<open>A sign-in by somebody the accounts know, with the hash the identity.\<close>

definition sample_env :: auth_env where
  "sample_env = \<lparr>env_hash = (\<lambda>t. t), env_lower = (\<lambda>n. n),
     env_redirect_parts = (\<lambda>u. Some \<lparr>url_Scheme = ''http'', url_Hostname = ''localhost'', url_Port = ''9000'',
       url_RawQuery = [], url_Fragment = [], url_HasUser = False, url_Text = u\<rparr>),
     env_set_query = (\<lambda>u name v. url_Text u @ ''?'' @ name @ ''='' @ v),
     env_authorization_url = (\<lambda>state nonce challenge. ''https://id.example/?state='' @ state),
     env_challenge = (\<lambda>v. v),
     env_exchange = (\<lambda>code verifier. Some (\<lparr>dir_Issuer = ''local'', dir_Subject = ''7'', dir_Username = ''alice'',
       dir_Email = [], dir_DisplayName = [], dir_Groups = []\<rparr>, ''nonce'')),
     env_session_ttl = 1000, env_desktop_codes = True\<rparr>"

definition sample_auth :: auth_state where
  "sample_auth = \<lparr>st_accounts = sample_accounts, st_credentials = [], st_sessions = [], st_codes = [],
     st_transactions = [\<lparr>tx_StateHash = ''st'', tx_Nonce = ''nonce'', tx_CodeVerifier = ''v'', tx_ExpiresAt = 100,
       tx_DesktopRedirect = []\<rparr>]\<rparr>"

definition sample_callback :: request where
  "sample_callback = \<lparr>req_path = (\<lambda>_. []),
     req_query = (\<lambda>q. if q = ''state'' then [''st''] else if q = ''code'' then [''c''] else []),
     req_header = (\<lambda>_. []), req_cookies = [(oidcStateCookieName, ''st'')], req_host = ''host'', req_principal = None\<rparr>"

section \<open>One-time entries\<close>

text \<open>A table of entries that are handed out once: what is stored replaces nothing that is live, what
  has expired when something is stored is swept, and taking an entry that is live removes it.\<close>

locale one_time =
  fixes ok :: "'s \<Rightarrow> bool"
    and entries :: "'s \<Rightarrow> string \<rightharpoonup> 'v \<times> instant"
    and put :: "instant \<Rightarrow> 'e \<Rightarrow> 's \<Rightarrow> access_error + 's"
    and take :: "string \<Rightarrow> instant \<Rightarrow> 's \<Rightarrow> 's \<times> (access_error + 'v)"
    and key :: "'e \<Rightarrow> string"
    and content :: "'e \<Rightarrow> 'v \<times> instant"
    and missing :: access_error
  assumes put_entries: "ok s \<Longrightarrow> put db_now e s = Inr s' \<Longrightarrow>
      entries s' k = (if k = key e then Some (content e)
        else (case entries s k of Some (v, t) \<Rightarrow> if t \<le> db_now then None else Some (v, t) | None \<Rightarrow> None))"
    and put_ok: "ok s \<Longrightarrow> put db_now e s = Inr s' \<Longrightarrow> ok s'"
    and take_live: "ok s \<Longrightarrow> entries s k = Some (v, t) \<Longrightarrow> now < t \<Longrightarrow>
      \<exists>s'. take k now s = (s', Inr v) \<and> ok s' \<and> entries s' = (entries s)(k := None)"
    and take_dead: "ok s \<Longrightarrow> (\<And>v t. entries s k = Some (v, t) \<Longrightarrow> t \<le> now) \<Longrightarrow> take k now s = (s, Inl missing)"
begin

text \<open>Present or not, as a number: taking something makes it one less.\<close>

definition held :: "string \<Rightarrow> 's \<Rightarrow> nat" where
  "held k s = (if entries s k = None then 0 else 1)"

lemma take_cases:
  assumes "ok s"
  obtains (live) v t s' where "entries s k = Some (v, t)" "now < t" "take k now s = (s', Inr v)" "ok s'"
      "entries s' = (entries s)(k := None)"
    | (dead) "take k now s = (s, Inl missing)"
proof (cases "\<exists>v t. entries s k = Some (v, t) \<and> now < t")
  case True
  then obtain v t where "entries s k = Some (v, t)" "now < t" by blast
  then show thesis using take_live [OF assms] live by blast
next
  case False
  then have "take k now s = (s, Inl missing)" by (intro take_dead [OF assms]) fastforce
  then show thesis by (rule dead)
qed

lemma take_ok: "ok s \<Longrightarrow> ok (fst (take k now s))"
  by (cases rule: take_cases [of s k now]) auto

lemma take_again:
  assumes "ok s"
  shows "snd (take k now' (fst (take k now s))) = Inl missing \<or> snd (take k now s) = Inl missing"
  using assms
proof (cases rule: take_cases [of s k now])
  case (live v t s')
  have "take k now' s' = (s', Inl missing)" by (rule take_dead [OF live(4)]) (simp add: live(5))
  then show ?thesis using live(3) by simp
qed simp

lemma take_held:
  assumes "ok s"
  shows "held k (fst (take k' now s)) + (if k' = k \<and> snd (take k' now s) \<noteq> Inl missing then 1 else 0) \<le> held k s"
  using assms by (cases rule: take_cases [of s k' now]) (auto simp: held_def)

lemma put_held: "ok s \<Longrightarrow> put db_now e s = Inr s' \<Longrightarrow> held k s' \<le> held k s + (if k = key e then 1 else 0)"
  by (auto simp: held_def put_entries split: option.splits)

end

section \<open>Lemmas\<close>

lemma map_of_filter_keys:
  "distinct (map f xs) \<Longrightarrow>
    map_of (map (\<lambda>x. (f x, g x)) (filter p xs)) k =
      (case find (\<lambda>x. f x = k) xs of None \<Rightarrow> None | Some x \<Rightarrow> if p x then Some (g x) else None)"
  by (induction xs) (auto simp: map_of_eq_None_iff find_Some_iff find_None_iff image_iff split: option.splits)

lemma map_of_find: "map_of (map (\<lambda>x. (f x, g x)) xs) k = map_option g (find (\<lambda>x. f x = k) xs)"
  by (induction xs) auto

lemma find_key: "find (\<lambda>x. f x = k) xs = Some x \<Longrightarrow> x \<in> set xs \<and> f x = k"
  by (auto simp: find_Some_iff)

lemma find_keyed:
  "distinct (map f xs) \<Longrightarrow>
    find (\<lambda>x. f x = k \<and> q x) xs =
      (case find (\<lambda>x. f x = k) xs of None \<Rightarrow> None | Some x \<Rightarrow> if q x then Some x else None)"
proof (induction xs)
  case (Cons a xs)
  then show ?case
    by (cases "f a = k") (auto simp: find_None_iff split: option.splits dest!: find_key, metis image_eqI)
qed simp

lemma map_of_filter_out:
  assumes "distinct (map f xs)" "find (\<lambda>x. f x = k) xs = Some x" "q x"
  shows "map_of (map (\<lambda>x. (f x, g x)) (filter (\<lambda>x. \<not> (f x = k \<and> q x)) xs)) =
      (map_of (map (\<lambda>x. (f x, g x)) xs))(k := None)"
proof
  fix j
  show "map_of (map (\<lambda>x. (f x, g x)) (filter (\<lambda>x. \<not> (f x = k \<and> q x)) xs)) j =
      ((map_of (map (\<lambda>x. (f x, g x)) xs))(k := None)) j"
    unfolding map_of_filter_keys [OF assms(1)] using assms(2,3)
    by (cases "j = k") (auto simp: map_of_find split: option.splits dest: find_key)
qed

lemma map_of_store:
  assumes "distinct (map f xs)" "f e \<notin> f ` set (filter p xs)"
  shows "map_of (map (\<lambda>x. (f x, g x)) (filter p xs @ [e])) k =
    (if k = f e then Some (g e) else (case find (\<lambda>x. f x = k) xs of None \<Rightarrow> None | Some x \<Rightarrow> if p x then Some (g x) else None))"
proof -
  have "map_of (map (\<lambda>x. (f x, g x)) (filter p xs)) (f e) = None"
    using assms(2) by (auto simp: map_of_eq_None_iff)
  then show ?thesis
    using map_of_filter_keys [OF assms(1), of g p k] by (cases "k = f e") (auto simp: map_add_def split: option.splits)
qed

lemma distinct_map_keep: "distinct (map f xs) \<Longrightarrow> distinct (map f (filter p xs))"
  by (simp add: distinct_map inj_on_def)

lemma StoreDesktopCode_Inr:
  assumes "StoreDesktopCode db_now code s = Inr s'"
  shows "s' = s\<lparr>st_codes := filter (\<lambda>c. \<not> code_ExpiresAt c \<le> db_now) (st_codes s) @ [code]\<rparr>"
    "code_Hash code \<notin> code_Hash ` set (filter (\<lambda>c. \<not> code_ExpiresAt c \<le> db_now) (st_codes s))"
    "code_UserID code \<in> user_id ` set (users (st_accounts s))"
  using assms by (auto simp: StoreDesktopCode_def Let_def split: if_splits)

lemma StoreOIDCTransaction_Inr:
  assumes "StoreOIDCTransaction db_now tx s = Inr s'"
  shows "s' = s\<lparr>st_transactions := filter (\<lambda>t. \<not> tx_ExpiresAt t \<le> db_now) (st_transactions s) @ [tx]\<rparr>"
    "tx_StateHash tx \<notin> tx_StateHash ` set (filter (\<lambda>t. \<not> tx_ExpiresAt t \<le> db_now) (st_transactions s))"
  using assms by (auto simp: StoreOIDCTransaction_def Let_def split: if_splits)

lemma StoreSession_Inr:
  assumes "StoreSession db_now session s = Inr s'"
  shows "s' = s\<lparr>st_sessions := st_sessions s @
        [\<lparr>session_TokenHash = session_TokenHash session, session_UserID = session_UserID session,
          session_ExpiresAt = session_ExpiresAt session, session_last_seen_at = db_now\<rparr>]\<rparr>"
    "session_TokenHash session \<notin> session_TokenHash ` set (st_sessions s)"
    "session_UserID session \<in> user_id ` set (users (st_accounts s))"
  using assms by (auto simp: StoreSession_def split: if_splits)

interpretation codes: one_time auth_ok code_entries StoreDesktopCode ConsumeDesktopCode code_Hash
  "\<lambda>c. (code_UserID c, code_ExpiresAt c)" CodeInvalid
proof
  fix s s' :: auth_state and db_now and e :: DesktopCode and k
  assume ok: "auth_ok s" and put: "StoreDesktopCode db_now e s = Inr s'"
  note r = StoreDesktopCode_Inr [OF put]
  have d: "distinct (map code_Hash (st_codes s))" using ok by (simp add: auth_ok_def)
  show "code_entries s' k = (if k = code_Hash e then Some (code_UserID e, code_ExpiresAt e)
      else (case code_entries s k of Some (v, t) \<Rightarrow> if t \<le> db_now then None else Some (v, t) | None \<Rightarrow> None))"
    using map_of_store [OF d r(2), of "\<lambda>c. (code_UserID c, code_ExpiresAt c)" k] unfolding r(1)
    by (simp add: code_entries_def map_of_find split: option.splits)
  show "auth_ok s'"
    using ok r(2,3) unfolding r(1) by (auto simp: auth_ok_def distinct_map_keep)
next
  fix s :: auth_state and k v t and now :: instant
  assume ok: "auth_ok s" and live: "code_entries s k = Some (v, t)" "now < t"
  have d: "distinct (map code_Hash (st_codes s))" using ok by (simp add: auth_ok_def)
  obtain c where c: "find (\<lambda>c. code_Hash c = k) (st_codes s) = Some c" "v = code_UserID c" "t = code_ExpiresAt c"
    using live by (auto simp: code_entries_def map_of_find)
  have "auth_ok (s\<lparr>st_codes := filter (\<lambda>c. \<not> (code_Hash c = k \<and> now < code_ExpiresAt c)) (st_codes s)\<rparr>)"
    using ok by (auto simp: auth_ok_def distinct_map_keep)
  then show "\<exists>s'. ConsumeDesktopCode k now s = (s', Inr v) \<and> auth_ok s' \<and> code_entries s' = (code_entries s)(k := None)"
    using live(2) c map_of_filter_out [OF d c(1), of "\<lambda>c. now < code_ExpiresAt c" "\<lambda>c. (code_UserID c, code_ExpiresAt c)"]
    by (simp add: ConsumeDesktopCode_def find_keyed [OF d] code_entries_def)
next
  fix s :: auth_state and k and now :: instant
  assume ok: "auth_ok s" and dead: "\<And>v t. code_entries s k = Some (v, t) \<Longrightarrow> t \<le> now"
  have d: "distinct (map code_Hash (st_codes s))" using ok by (simp add: auth_ok_def)
  show "ConsumeDesktopCode k now s = (s, Inl CodeInvalid)"
    using dead by (auto simp: ConsumeDesktopCode_def find_keyed [OF d] code_entries_def map_of_find split: option.splits)
qed

interpretation txs: one_time auth_ok tx_entries StoreOIDCTransaction ConsumeOIDCTransaction tx_StateHash
  "\<lambda>t. (t, tx_ExpiresAt t)" InvalidTransaction
proof
  fix s s' :: auth_state and db_now and e :: OIDCTransaction and k
  assume ok: "auth_ok s" and put: "StoreOIDCTransaction db_now e s = Inr s'"
  note r = StoreOIDCTransaction_Inr [OF put]
  have d: "distinct (map tx_StateHash (st_transactions s))" using ok by (simp add: auth_ok_def)
  show "tx_entries s' k = (if k = tx_StateHash e then Some (e, tx_ExpiresAt e)
      else (case tx_entries s k of Some (v, t) \<Rightarrow> if t \<le> db_now then None else Some (v, t) | None \<Rightarrow> None))"
    using map_of_store [OF d r(2), of "\<lambda>t. (t, tx_ExpiresAt t)" k] unfolding r(1)
    by (simp add: tx_entries_def map_of_find split: option.splits)
  show "auth_ok s'"
    using ok r(2) unfolding r(1) by (auto simp: auth_ok_def distinct_map_keep)
next
  fix s :: auth_state and k v t and now :: instant
  assume ok: "auth_ok s" and live: "tx_entries s k = Some (v, t)" "now < t"
  have d: "distinct (map tx_StateHash (st_transactions s))" using ok by (simp add: auth_ok_def)
  obtain c where c: "find (\<lambda>c. tx_StateHash c = k) (st_transactions s) = Some c" "v = c" "t = tx_ExpiresAt c"
    using live by (auto simp: tx_entries_def map_of_find)
  have "auth_ok (s\<lparr>st_transactions := filter (\<lambda>c. \<not> (tx_StateHash c = k \<and> now < tx_ExpiresAt c)) (st_transactions s)\<rparr>)"
    using ok by (auto simp: auth_ok_def distinct_map_keep)
  then show "\<exists>s'. ConsumeOIDCTransaction k now s = (s', Inr v) \<and> auth_ok s' \<and> tx_entries s' = (tx_entries s)(k := None)"
    using live(2) c map_of_filter_out [OF d c(1), of "\<lambda>c. now < tx_ExpiresAt c" "\<lambda>t. (t, tx_ExpiresAt t)"]
    by (simp add: ConsumeOIDCTransaction_def find_keyed [OF d] tx_entries_def)
next
  fix s :: auth_state and k and now :: instant
  assume ok: "auth_ok s" and dead: "\<And>v t. tx_entries s k = Some (v, t) \<Longrightarrow> t \<le> now"
  have d: "distinct (map tx_StateHash (st_transactions s))" using ok by (simp add: auth_ok_def)
  show "ConsumeOIDCTransaction k now s = (s, Inl InvalidTransaction)"
    using dead by (auto simp: ConsumeOIDCTransaction_def find_keyed [OF d] tx_entries_def map_of_find split: option.splits)
qed

subsection \<open>Sessions\<close>

lemma session_entries_simps [simp]:
  "session_entries (s\<lparr>st_codes := c\<rparr>) = session_entries s"
  "session_entries (s\<lparr>st_transactions := t\<rparr>) = session_entries s"
  "session_entries (s\<lparr>st_accounts := a\<rparr>) = session_entries s"
  "session_entries (s\<lparr>st_credentials := cs\<rparr>) = session_entries s"
  by (simp_all add: session_entries_def)

lemma code_entries_simps [simp]:
  "code_entries (s\<lparr>st_sessions := ss\<rparr>) = code_entries s"
  "code_entries (s\<lparr>st_transactions := t\<rparr>) = code_entries s"
  "code_entries (s\<lparr>st_accounts := a\<rparr>) = code_entries s"
  "code_entries (s\<lparr>st_credentials := cs\<rparr>) = code_entries s"
  by (simp_all add: code_entries_def)

lemma NewSession_Inr:
  assumes "NewSession env random now db_now uid s = Inr (token, s')" "auth_ok s"
  shows "random = Some token" "auth_ok s'" "code_entries s' = code_entries s" "st_accounts s' = st_accounts s"
    "session_entries s (env_hash env token) = None"
    "session_entries s' = (session_entries s)(env_hash env token \<mapsto> (uid, now + env_session_ttl env))"
proof -
  obtain st where st: "random = Some token"
    "StoreSession db_now \<lparr>session_TokenHash = env_hash env token, session_UserID = uid,
       session_ExpiresAt = now + env_session_ttl env\<rparr> s = Inr st" "s' = st"
    using assms(1) by (auto simp: NewSession_def bind_res_Inr split: if_splits option.splits)
  note r = StoreSession_Inr [OF st(2), simplified]
  show "random = Some token" by (fact st(1))
  show "auth_ok s'" "code_entries s' = code_entries s" "st_accounts s' = st_accounts s"
    using assms(2) r(2,3) unfolding st(3) r(1) by (auto simp: auth_ok_def)
  show none: "session_entries s (env_hash env token) = None"
    using r(2) by (auto simp: session_entries_def map_of_eq_None_iff)
  show "session_entries s' = (session_entries s)(env_hash env token \<mapsto> (uid, now + env_session_ttl env))"
    using none unfolding st(3) r(1) by (auto simp: session_entries_def map_add_def fun_eq_iff split: option.splits)
qed

lemma resolvePrincipal_Inl: "resolvePrincipal a uid = Inl e \<Longrightarrow> e = AccessDenied"
  by (auto simp: resolvePrincipal_def Let_def split: option.splits if_splits)

lemma FindSession_result:
  assumes "auth_ok s"
  shows "snd (FindSession h now s) =
    (case session_entries s h of
       None \<Rightarrow> Inl Unauthenticated
     | Some (uid, t) \<Rightarrow>
         if t \<le> now then Inl Unauthenticated
         else (case resolvePrincipal (st_accounts s) uid of
                 Inl e \<Rightarrow> Inl Unauthenticated
               | Inr caller \<Rightarrow> Inr (\<lparr>session_TokenHash = h, session_UserID = uid, session_ExpiresAt = t\<rparr>, caller)))"
proof -
  have d: "distinct (map session_TokenHash (st_sessions s))" using assms by (simp add: auth_ok_def)
  show ?thesis
  proof (cases "find (\<lambda>r. session_TokenHash r = h) (st_sessions s)")
    case (Some r)
    then show ?thesis
      using find_key [OF Some]
      by (cases "resolvePrincipal (st_accounts s) (session_UserID r)")
        (auto simp: FindSession_def Let_def find_keyed [OF d] session_entries_def map_of_find Session.truncate_def
          dest: resolvePrincipal_Inl)
  qed (simp add: FindSession_def find_keyed [OF d] session_entries_def map_of_find)
qed

lemma FindSession_state:
  "session_entries (fst (FindSession h now s)) = session_entries s"
  "code_entries (fst (FindSession h now s)) = code_entries s"
  "st_accounts (fst (FindSession h now s)) = st_accounts s"
  "st_credentials (fst (FindSession h now s)) = st_credentials s"
  by (auto simp: FindSession_def Let_def session_entries_def upd_where_def o_def split: option.splits
      intro!: arg_cong [where f = map_of] map_cong)

lemma map_upd_same: "(\<And>x. f (g x) = f x) \<Longrightarrow> map f (upd_where p g xs) = map f xs"
  by (simp add: upd_where_def)

lemma FindSession_ok: "auth_ok s \<Longrightarrow> auth_ok (fst (FindSession h now s))"
  by (auto simp: FindSession_def Let_def auth_ok_def map_upd_same simp del: set_map split: option.splits)

lemma DeleteSession_state:
  assumes "auth_ok s"
  shows "auth_ok (DeleteSession h s)" "session_entries (DeleteSession h s) = (session_entries s)(h := None)"
    "code_entries (DeleteSession h s) = code_entries s" "st_accounts (DeleteSession h s) = st_accounts s"
proof -
  have d: "distinct (map session_TokenHash (st_sessions s))" using assms by (simp add: auth_ok_def)
  show "auth_ok (DeleteSession h s)" "code_entries (DeleteSession h s) = code_entries s" "st_accounts (DeleteSession h s) = st_accounts s"
    using assms by (auto simp: auth_ok_def DeleteSession_def distinct_map_keep)
  show "session_entries (DeleteSession h s) = (session_entries s)(h := None)"
    by (auto simp: session_entries_def DeleteSession_def map_of_filter_keys [OF d]
        map_of_find [of session_TokenHash _ "st_sessions s"] fun_eq_iff split: option.splits dest: find_key)
qed

lemma ConsumeDesktopCode_other:
  "session_entries (fst (ConsumeDesktopCode h now s)) = session_entries s"
  "st_accounts (fst (ConsumeDesktopCode h now s)) = st_accounts s"
  by (simp_all add: ConsumeDesktopCode_def Let_def split: option.splits)

lemma ConsumeOIDCTransaction_other:
  "session_entries (fst (ConsumeOIDCTransaction h now s)) = session_entries s"
  "code_entries (fst (ConsumeOIDCTransaction h now s)) = code_entries s"
  "st_accounts (fst (ConsumeOIDCTransaction h now s)) = st_accounts s"
  by (simp_all add: ConsumeOIDCTransaction_def Let_def split: option.splits)

lemma sign_in_users:
  assumes "ResolveDirectoryIdentity lower now identity a = (a', r)"
  shows "set (map user_id (users a)) \<subseteq> set (map user_id (users a'))"
proof (cases "a' = a")
  case False
  then obtain i uid b where "upsert_identity lower now identity a = Inr (i, uid, b)" "users a' = users b"
    using assms by (auto simp: ResolveDirectoryIdentity_def Let_def split: if_splits sum.splits)
  then show ?thesis using upsert_identity_users by metis
qed simp

lemma accounts_auth_ok:
  "auth_ok s \<Longrightarrow> accounts_ok a' \<Longrightarrow> set (map user_id (users (st_accounts s))) \<subseteq> set (map user_id (users a')) \<Longrightarrow>
    auth_ok (s\<lparr>st_accounts := a'\<rparr>)"
  by (auto simp: auth_ok_def simp del: set_map)

subsection \<open>OIDC sign-in\<close>

lemma tx_entries_simps [simp]:
  "tx_entries (s\<lparr>st_codes := c\<rparr>) = tx_entries s"
  "tx_entries (s\<lparr>st_sessions := ss\<rparr>) = tx_entries s"
  "tx_entries (s\<lparr>st_accounts := a\<rparr>) = tx_entries s"
  "tx_entries (s\<lparr>st_credentials := cs\<rparr>) = tx_entries s"
  by (simp_all add: tx_entries_def)

lemma NewSession_tx:
  "NewSession env random now db_now uid s = Inr (token, s') \<Longrightarrow> tx_entries s' = tx_entries s"
  by (auto simp: NewSession_def StoreSession_def bind_res_Inr split: if_splits option.splits)

lemma StoreDesktopCode_other:
  assumes "StoreDesktopCode db_now code s = Inr s'"
  shows "session_entries s' = session_entries s" "tx_entries s' = tx_entries s" "st_accounts s' = st_accounts s"
  unfolding StoreDesktopCode_Inr(1) [OF assms] by simp_all

lemma tx_entries_self: "tx_entries s h = Some (tx, t) \<Longrightarrow> t = tx_ExpiresAt tx"
  by (auto simp: tx_entries_def map_of_find)

lemma resolve_ok:
  assumes "ResolveDirectoryIdentity lower now identity (st_accounts s) = (a', r)" "auth_ok s"
  shows "auth_ok (s\<lparr>st_accounts := a'\<rparr>)"
  using assms(2) sign_in_keeps(1) [OF assms(1)] sign_in_users [OF assms(1)]
  by (intro accounts_auth_ok) (auto simp: auth_ok_def simp del: set_map)

lemma oidc_finish_signed_in:
  assumes "oidc_finish env random now db_now tx caller s = (s', reply)" "auth_ok s"
    "\<And>status msg. reply \<noteq> Refused status msg"
  shows "signed_in env now (UserID caller) s reply s' \<and> auth_ok s' \<and> tx_entries s' = tx_entries s \<and> st_accounts s' = st_accounts s"
proof (cases "tx_DesktopRedirect tx = []")
  case True
  then obtain token where t: "NewSession env random now db_now (UserID caller) s = Inr (token, s')" "reply = SignedIn token"
    using assms(1,3) by (auto simp: oidc_finish_def split: sum.splits)
  then show ?thesis
    using NewSession_Inr [OF t(1) assms(2)] NewSession_tx [OF t(1)] by (simp add: signed_in_def)
next
  case False
  then obtain code target where c: "reply = DesktopCodeAt target code"
    "StoreDesktopCode db_now \<lparr>code_Hash = env_hash env code, code_UserID = UserID caller, code_ExpiresAt = now + DesktopCodeTTL\<rparr> s = Inr s'"
    using assms(1,3) by (auto simp: oidc_finish_def oidc_desktop_def split: sum.splits option.splits if_splits)
  then show ?thesis
    using codes.put_entries [OF assms(2) c(2)] codes.put_ok [OF assms(2) c(2)] StoreDesktopCode_other [OF c(2)]
    by (simp add: signed_in_def)
qed

lemma oidc_callback_cases:
  assumes "oidc_callback env random now db_now r s = (s', reply)" "auth_ok s"
  obtains (refused) status msg where "reply = Refused status msg"
    | (accepted) tx identity caller a' where "request_cookie r oidcStateCookieName = Some (query_get r ''state'')"
      "query_get r ''state'' \<noteq> []" "tx_entries s (env_hash env (query_get r ''state'')) = Some (tx, tx_ExpiresAt tx)"
      "now < tx_ExpiresAt tx"
      "env_exchange env (query_get r ''code'') (tx_CodeVerifier tx) = Some (identity, tx_Nonce tx)"
      "ResolveDirectoryIdentity (env_lower env) db_now identity (st_accounts s) = (a', Inr caller)"
      "auth_ok ((fst (ConsumeOIDCTransaction (env_hash env (query_get r ''state'')) now s))\<lparr>st_accounts := a'\<rparr>)"
      "tx_entries (fst (ConsumeOIDCTransaction (env_hash env (query_get r ''state'')) now s)) =
        (tx_entries s)(env_hash env (query_get r ''state'') := None)"
      "oidc_finish env random now db_now tx caller
        ((fst (ConsumeOIDCTransaction (env_hash env (query_get r ''state'')) now s))\<lparr>st_accounts := a'\<rparr>) = (s', reply)"
proof (cases "\<exists>status msg. reply = Refused status msg")
  case False
  define h where "h = env_hash env (query_get r ''state'')"
  have cookie: "request_cookie r oidcStateCookieName = Some (query_get r ''state'')" "query_get r ''state'' \<noteq> []"
    using assms(1) False by (auto simp: oidc_callback_def Let_def split: if_splits)
  obtain tx s1 where tx: "tx_entries s h = Some (tx, tx_ExpiresAt tx)" "now < tx_ExpiresAt tx"
    "ConsumeOIDCTransaction h now s = (s1, Inr tx)" "auth_ok s1" "tx_entries s1 = (tx_entries s)(h := None)"
  proof (rule txs.take_cases [OF assms(2), of h now])
    assume "ConsumeOIDCTransaction h now s = (s, Inl InvalidTransaction)"
    then show thesis using assms(1) cookie False by (auto simp: oidc_callback_def Let_def h_def)
  qed (use that tx_entries_self in metis)
  obtain identity caller a' where ex: "env_exchange env (query_get r ''code'') (tx_CodeVerifier tx) = Some (identity, tx_Nonce tx)"
    "ResolveDirectoryIdentity (env_lower env) db_now identity (st_accounts s1) = (a', Inr caller)"
    "oidc_finish env random now db_now tx caller (s1\<lparr>st_accounts := a'\<rparr>) = (s', reply)"
    using assms(1) cookie False tx(3) unfolding oidc_callback_def h_def
    by (auto simp: Let_def split: if_splits option.splits prod.splits sum.splits access_error.splits)
  have "st_accounts s1 = st_accounts s" using ConsumeOIDCTransaction_other(3) [of h now s] by (simp add: tx(3))
  then show thesis
    using accepted [OF cookie tx(1) [unfolded h_def] tx(2) ex(1)] ex(2,3) resolve_ok [OF ex(2) tx(4)] tx(3,5)
    by (simp add: h_def)
qed (use refused in blast)

lemma callback_replayed:
  assumes "auth_ok s" "tx_entries s (env_hash env (query_get r ''state'')) = None"
  shows "oidc_callback env random now db_now r s = (s, Refused 400 ''invalid sign-in response'')"
  using txs.take_dead [OF assms(1), of "env_hash env (query_get r ''state'')" now] assms(2)
  by (auto simp: oidc_callback_def Let_def)

section \<open>Properties\<close>

text \<open>C35: signing in with OIDC. A callback that ends in a session or a desktop code carried the
  state its browser was given in a cookie, for a transaction that was stored and has not expired; the
  provider vouched for the identity in an exchange that used the transaction's verifier and echoed its
  nonce, and the session or the code is that of the user the identity resolves to. The transaction is
  gone: any later callback with the same state is refused.\<close>

theorem oidc_sign_in:
  assumes "oidc_callback env random now db_now r s = (s', reply)" "auth_ok s"
    "\<And>status msg. reply \<noteq> Refused status msg"
  shows "\<exists>tx identity caller.
    request_cookie r oidcStateCookieName = Some (query_get r ''state'') \<and>
    tx_entries s (env_hash env (query_get r ''state'')) = Some (tx, tx_ExpiresAt tx) \<and> now < tx_ExpiresAt tx \<and>
    env_exchange env (query_get r ''code'') (tx_CodeVerifier tx) = Some (identity, tx_Nonce tx) \<and>
    ResolveDirectoryIdentity (env_lower env) db_now identity (st_accounts s) = (st_accounts s', Inr caller) \<and>
    signed_in env now (UserID caller) s reply s' \<and> auth_ok s' \<and>
    (\<forall>r' random' now' db_now'. query_get r' ''state'' = query_get r ''state'' \<longrightarrow>
       oidc_callback env random' now' db_now' r' s' = (s', Refused 400 ''invalid sign-in response''))"
  using assms(1,2)
proof (cases rule: oidc_callback_cases)
  case (accepted tx identity caller a')
  let ?s = "(fst (ConsumeOIDCTransaction (env_hash env (query_get r ''state'')) now s))\<lparr>st_accounts := a'\<rparr>"
  have f: "signed_in env now (UserID caller) ?s reply s'" "auth_ok s'" "tx_entries s' = tx_entries ?s"
    "st_accounts s' = st_accounts ?s"
    using oidc_finish_signed_in [OF accepted(9,7) assms(3)] by simp_all
  have "signed_in env now (UserID caller) s reply s'"
    using f(1) by (simp add: signed_in_def ConsumeOIDCTransaction_other cong: auth_reply.case_cong)
  moreover have "oidc_callback env random' now' db_now' r' s' = (s', Refused 400 ''invalid sign-in response'')"
    if "query_get r' ''state'' = query_get r ''state''" for r' random' now' db_now'
    by (rule callback_replayed [OF f(2)]) (simp add: that f(3) accepted(8))
  ultimately show ?thesis using accepted(1,3-6) f(2,4) by (intro exI [of _ tx] exI [of _ identity] exI [of _ caller]) simp
qed (use assms(3) in blast)

theorem oidc_sign_in_witness:
  "signed_in sample_env 10 7 sample_auth (SignedIn ''tok'') (fst (oidc_callback sample_env (Some ''tok'') 10 10 sample_callback sample_auth))"
proof -
  have reply: "snd (oidc_callback sample_env (Some ''tok'') 10 10 sample_callback sample_auth) = SignedIn ''tok''"
    by code_simp
  have user: "map_option UserID (case snd (ResolveDirectoryIdentity (env_lower sample_env) 10
      (fst (the (env_exchange sample_env ''c'' ''v''))) sample_accounts) of Inl e \<Rightarrow> None | Inr c \<Rightarrow> Some c) = Some 7"
    by code_simp
  have ok: "auth_ok sample_auth"
    using sample_accounts_ok(1) by (simp add: auth_ok_def sample_auth_def)
  have query: "query_get sample_callback ''code'' = ''c''" by (simp add: query_get_def sample_callback_def)
  obtain s' where s': "oidc_callback sample_env (Some ''tok'') 10 10 sample_callback sample_auth = (s', SignedIn ''tok'')"
    using reply by (metis prod.collapse)
  have "\<And>status msg. SignedIn ''tok'' \<noteq> Refused status msg" by simp
  note full = oidc_sign_in [OF s' ok this]
  from full obtain tx :: OIDCTransaction and identity caller where
    r: "env_exchange sample_env (query_get sample_callback ''code'') (tx_CodeVerifier tx) = Some (identity, tx_Nonce tx)"
    "ResolveDirectoryIdentity (env_lower sample_env) 10 identity (st_accounts sample_auth) = (st_accounts s', Inr caller)"
    "signed_in sample_env 10 (UserID caller) sample_auth (SignedIn ''tok'') s'" by blast
  then have "UserID caller = 7" using user by (simp add: sample_env_def sample_auth_def query)
  then show ?thesis using r(3) s' by simp
qed

end
