(* ===== verification/Local_Accounts.thy ===== *)
theory Local_Accounts
  imports Sessions Passwords
begin

text \<open>
  Local accounts: the tables behind them (\<open>internal/postgres/local.go\<close>) and the directory that
  verifies a username and a password against them (\<open>internal/auth/local.go\<close>).

  The functions of other packages are a record: \<open>strings.ToLower\<close>, \<open>strings.EqualFold\<close>,
  \<open>lower\<close> of PostgreSQL and the key derivation. \<open>now\<close> is the clock of the process, \<open>db_now\<close>
  that of the transaction, both in microseconds. Verifying returns, besides the result, the password
  derivations it made: the calls of \<open>pbkdf2.Key\<close> with their arguments.
\<close>

section \<open>Accounts\<close>

record local_env =
  le_to_lower :: "string \<Rightarrow> string"
  le_equal_fold :: "string \<Rightarrow> string \<Rightarrow> bool"
  le_lower :: "string \<Rightarrow> string"
  le_pbkdf2 :: kdf

definition lockoutAfterAttempts :: int where
  "lockoutAfterAttempts = 5"

text \<open>In seconds.\<close>

definition lockoutBase :: int where
  "lockoutBase = 30"

definition lockoutCeiling :: int where
  "lockoutCeiling = 15 * 60"

definition second :: int where
  "second = 1000000"

definition NormalizeUsername :: "local_env \<Rightarrow> string \<Rightarrow> string" where
  "NormalizeUsername le username = le_to_lower le (TrimSpace username)"

text \<open>\<open>issuer = 'local' AND lower(username) = $1\<close>\<close>

definition local_identity :: "local_env \<Rightarrow> string \<Rightarrow> identity_row \<Rightarrow> bool" where
  "local_identity le username i \<longleftrightarrow> identity_issuer i = LocalIssuer \<and> le_lower le (identity_username i) = username"

definition password_text :: "password_error \<Rightarrow> string" where
  "password_text e =
     (case e of
        PasswordTooShort \<Rightarrow> ''password must be at least 12 characters''
      | PasswordTooLong \<Rightarrow> ''password must not exceed 1024 characters''
      | PasswordIsUsername \<Rightarrow> ''password must not be the username'')"

record LocalAccount =
  la_UserID :: int
  la_Username :: string
  la_Email :: string
  la_DisplayName :: string
  la_Enabled :: bool
  la_LockedUntil :: "instant option"
  la_LastLoginAt :: "instant option"

text \<open>Checking a password that is being set, and hashing it.\<close>

definition accepted_hash :: "local_env \<Rightarrow> string option \<Rightarrow> string \<Rightarrow> string \<Rightarrow> access_error + string" where
  "accepted_hash le random username password =
     (case ValidatePassword (le_equal_fold le) username password of
        Inl e \<Rightarrow> Inl (AccessMessage (password_text e))
      | Inr u \<Rightarrow>
          (case HashPassword (le_pbkdf2 le) random password of
             None \<Rightarrow> Inl (AccessMessage ''randomness'')
           | Some encoded \<Rightarrow> Inr encoded))"

text \<open>The three rows of a new account.\<close>

definition insert_local_account ::
  "instant \<Rightarrow> string \<Rightarrow> string \<Rightarrow> string \<Rightarrow> string \<Rightarrow> auth_state \<Rightarrow> auth_state" where
  "insert_local_account db_now username email displayName encoded s =
     (let a = st_accounts s; uid = next_user a in
      s\<lparr>st_accounts := a\<lparr>
          users := users a @ [\<lparr>user_id = uid, user_email = email, user_display_name = displayName,
            user_enabled = True, user_last_login_at = None\<rparr>],
          identities := identities a @ [\<lparr>identity_id = next_identity a, identity_user = uid, identity_issuer = LocalIssuer,
            identity_subject = FormatInt uid, identity_username = username, identity_email = email,
            identity_display_name = displayName, identity_last_seen_at = db_now\<rparr>],
          next_user := uid + 1, next_identity := next_identity a + 1\<rparr>,
        st_credentials := st_credentials s @ [\<lparr>cred_user_id = uid, cred_password_hash = encoded, cred_failed_attempts = 0,
          cred_locked_until = None, cred_password_changed_at = db_now\<rparr>]\<rparr>)"

definition CreateLocalAccount ::
  "local_env \<Rightarrow> string option \<Rightarrow> instant \<Rightarrow> LocalAccount \<Rightarrow> string \<Rightarrow> auth_state \<Rightarrow> access_error + int \<times> auth_state" where
  "CreateLocalAccount le random db_now account password s =
     (let username = NormalizeUsername le (la_Username account); a = st_accounts s in
      if username = '''' then Inl (AccessMessage ''username is required'')
      else bind_res (accepted_hash le random username password) (\<lambda>encoded.
      let displayName = (if la_DisplayName account = '''' then username else la_DisplayName account);
          uid = next_user a in
      if \<not> text_ok username then Inl AccessDatabase
      else if list_ex (local_identity le username) (identities a) then Inl AccountExists
      else if \<not> text_ok (la_Email account) \<or> \<not> text_ok displayName then Inl AccessDatabase
      else if (LocalIssuer, FormatInt uid) \<in> (\<lambda>i. (identity_issuer i, identity_subject i)) ` set (identities a) \<or>
        \<not> local_name_free (le_lower le) None LocalIssuer username a then Inl AccessDatabase
      else Inr (uid, insert_local_account db_now username (la_Email account) displayName encoded s)))"

record LocalCredential =
  lc_UserID :: int
  lc_Username :: string
  lc_Email :: string
  lc_DisplayName :: string
  lc_PasswordHash :: string
  lc_Enabled :: bool
  lc_LockedUntil :: "instant option"

text \<open>The join of an identity with its credential and its user.\<close>

definition account_rows ::
  "credential_row list \<Rightarrow> user_row list \<Rightarrow> identity_row \<Rightarrow> (identity_row \<times> credential_row \<times> user_row) list" where
  "account_rows cs us i =
     concat (map (\<lambda>c. map (\<lambda>u. (i, c, u)) (filter (\<lambda>u. user_id u = identity_user i) us))
       (filter (\<lambda>c. cred_user_id c = identity_user i) cs))"

definition local_rows :: "auth_state \<Rightarrow> (identity_row \<times> credential_row \<times> user_row) list" where
  "local_rows s =
     concat (map (account_rows (st_credentials s) (users (st_accounts s)))
       (filter (\<lambda>i. identity_issuer i = LocalIssuer) (identities (st_accounts s))))"

definition FindLocalCredential :: "local_env \<Rightarrow> string \<Rightarrow> auth_state \<Rightarrow> access_error + LocalCredential" where
  "FindLocalCredential le username s =
     (let name = NormalizeUsername le username in
      if \<not> text_ok name then Inl AccessDatabase
      else case find (\<lambda>(i, c, u). le_lower le (identity_username i) = name) (local_rows s) of
        None \<Rightarrow> Inl InvalidCredentials
      | Some (i, c, u) \<Rightarrow>
          Inr \<lparr>lc_UserID = identity_user i, lc_Username = identity_username i, lc_Email = identity_email i,
            lc_DisplayName = identity_display_name i, lc_PasswordHash = cred_password_hash c,
            lc_Enabled = user_enabled u, lc_LockedUntil = cred_locked_until c\<rparr>)"

text \<open>The backoff is computed in double precision, where \<open>30 * 2 ^ 1020\<close> is out of range: the
  statement then fails.\<close>

definition backoff_overflows :: "int \<Rightarrow> bool" where
  "backoff_overflows attempts \<longleftrightarrow> lockoutAfterAttempts \<le> attempts \<and> 1020 \<le> attempts - lockoutAfterAttempts"

definition backoff :: "int \<Rightarrow> int" where
  "backoff attempts = min (lockoutBase * 2 ^ nat (attempts - lockoutAfterAttempts)) lockoutCeiling * second"

definition not_locked :: "instant \<Rightarrow> credential_row \<Rightarrow> bool" where
  "not_locked db_now c = (case cred_locked_until c of None \<Rightarrow> True | Some t \<Rightarrow> t \<le> db_now)"

definition RecordLocalLoginFailure :: "instant \<Rightarrow> int \<Rightarrow> auth_state \<Rightarrow> access_error + auth_state" where
  "RecordLocalLoginFailure db_now uid s =
     (let hit = (\<lambda>c. cred_user_id c = uid \<and> not_locked db_now c) in
      if list_ex (\<lambda>c. hit c \<and> backoff_overflows (cred_failed_attempts c + 1)) (st_credentials s) then Inl AccessDatabase
      else Inr (s\<lparr>st_credentials := upd_where hit
        (\<lambda>c. c\<lparr>cred_failed_attempts := cred_failed_attempts c + 1,
               cred_locked_until := (if lockoutAfterAttempts \<le> cred_failed_attempts c + 1
                 then Some (db_now + backoff (cred_failed_attempts c + 1)) else cred_locked_until c)\<rparr>)
        (st_credentials s)\<rparr>))"

definition RecordLocalLoginSuccess :: "instant \<Rightarrow> int \<Rightarrow> string \<Rightarrow> auth_state \<Rightarrow> auth_state" where
  "RecordLocalLoginSuccess db_now uid rehashed s =
     s\<lparr>st_credentials := upd_where (\<lambda>c. cred_user_id c = uid)
         (\<lambda>c. c\<lparr>cred_failed_attempts := 0, cred_locked_until := None,
            cred_password_hash := coalesced (nullif rehashed '''') (cred_password_hash c),
            cred_password_changed_at := (if rehashed = '''' then cred_password_changed_at c else db_now)\<rparr>) (st_credentials s),
       st_accounts := (st_accounts s)\<lparr>users := upd_where (\<lambda>u. user_id u = uid)
         (\<lambda>u. u\<lparr>user_last_login_at := Some db_now\<rparr>) (users (st_accounts s))\<rparr>\<rparr>"

definition named_local :: "local_env \<Rightarrow> string \<Rightarrow> auth_state \<Rightarrow> int \<Rightarrow> bool" where
  "named_local le username s uid =
     list_ex (\<lambda>i. local_identity le (NormalizeUsername le username) i \<and> identity_user i = uid) (identities (st_accounts s))"

definition SetLocalPassword ::
  "local_env \<Rightarrow> string option \<Rightarrow> instant \<Rightarrow> string \<Rightarrow> string \<Rightarrow> auth_state \<Rightarrow> access_error + auth_state" where
  "SetLocalPassword le random db_now username password s =
     bind_res (accepted_hash le random (NormalizeUsername le username) password) (\<lambda>encoded.
     if \<not> text_ok (NormalizeUsername le username) then Inl AccessDatabase
     else if \<not> list_ex (\<lambda>c. named_local le username s (cred_user_id c)) (st_credentials s) then Inl AccountNotFound
     else Inr (s\<lparr>st_credentials := upd_where (\<lambda>c. named_local le username s (cred_user_id c))
       (\<lambda>c. c\<lparr>cred_password_hash := encoded, cred_password_changed_at := db_now, cred_failed_attempts := 0,
          cred_locked_until := None\<rparr>) (st_credentials s)\<rparr>))"

definition UnlockLocalAccount :: "local_env \<Rightarrow> string \<Rightarrow> auth_state \<Rightarrow> access_error + auth_state" where
  "UnlockLocalAccount le username s =
     (if \<not> text_ok (NormalizeUsername le username) then Inl AccessDatabase
      else if \<not> list_ex (\<lambda>c. named_local le username s (cred_user_id c)) (st_credentials s) then Inl AccountNotFound
      else Inr (s\<lparr>st_credentials := upd_where (\<lambda>c. named_local le username s (cred_user_id c))
        (\<lambda>c. c\<lparr>cred_failed_attempts := 0, cred_locked_until := None\<rparr>) (st_credentials s)\<rparr>))"

definition SetLocalAccountEnabled :: "local_env \<Rightarrow> string \<Rightarrow> bool \<Rightarrow> auth_state \<Rightarrow> access_error + auth_state" where
  "SetLocalAccountEnabled le username enabled s =
     (let a = st_accounts s in
      if \<not> text_ok (NormalizeUsername le username) then Inl AccessDatabase
      else if \<not> list_ex (\<lambda>u. named_local le username s (user_id u)) (users a) then Inl AccountNotFound
      else Inr (s\<lparr>st_accounts := a\<lparr>users := upd_where (\<lambda>u. named_local le username s (user_id u))
        (\<lambda>u. u\<lparr>user_enabled := enabled\<rparr>) (users a)\<rparr>\<rparr>))"

definition ListLocalAccounts :: "local_env \<Rightarrow> (string \<Rightarrow> string) \<Rightarrow> auth_state \<Rightarrow> LocalAccount list" where
  "ListLocalAccounts le strxfrm s =
     map (\<lambda>(i, c, u). \<lparr>la_UserID = identity_user i, la_Username = identity_username i, la_Email = identity_email i,
         la_DisplayName = identity_display_name i, la_Enabled = user_enabled u, la_LockedUntil = cred_locked_until c,
         la_LastLoginAt = user_last_login_at u\<rparr>)
       (sort_key (\<lambda>(i, c, u). (strxfrm (le_lower le (identity_username i)), le_lower le (identity_username i))) (local_rows s))"

section \<open>The directory\<close>

definition lockedOut :: "instant \<Rightarrow> LocalCredential \<Rightarrow> bool" where
  "lockedOut now credential = (case lc_LockedUntil credential of None \<Rightarrow> False | Some t \<Rightarrow> now < t)"

definition localSubject :: "int \<Rightarrow> string" where
  "localSubject uid = FormatInt uid"

definition local_identity_of :: "LocalCredential \<Rightarrow> DirectoryIdentity" where
  "local_identity_of credential =
     \<lparr>dir_Issuer = LocalIssuer, dir_Subject = localSubject (lc_UserID credential), dir_Username = lc_Username credential,
      dir_Email = lc_Email credential,
      dir_DisplayName = (if lc_DisplayName credential = '''' then lc_Username credential else lc_DisplayName credential),
      dir_Groups = []\<rparr>"

text \<open>\<open>LocalDirectory.Verify\<close>, with the derivations of its calls of \<open>verify\<close> and \<open>hash\<close>.\<close>

definition local_Verify ::
  "local_env \<Rightarrow> string \<Rightarrow> string option \<Rightarrow> instant \<Rightarrow> instant \<Rightarrow> string \<Rightarrow> string \<Rightarrow> auth_state \<Rightarrow>
   auth_state \<times> (access_error + DirectoryIdentity) \<times> derivation list" where
  "local_Verify le decoy random now db_now username password s =
     (case FindLocalCredential le (NormalizeUsername le username) s of
        Inl InvalidCredentials \<Rightarrow> (s, Inl InvalidCredentials, VerifyPassword_derives decoy password)
      | Inl e \<Rightarrow> (s, Inl e, [])
      | Inr credential \<Rightarrow>
          let matched = VerifyPassword (le_pbkdf2 le) (lc_PasswordHash credential) password;
              derived = VerifyPassword_derives (lc_PasswordHash credential) password in
          if \<not> lc_Enabled credential \<or> lockedOut now credential then (s, Inl InvalidCredentials, derived)
          else if \<not> matched then
            (case RecordLocalLoginFailure db_now (lc_UserID credential) s of
               Inl e \<Rightarrow> (s, Inl e, derived)
             | Inr s' \<Rightarrow> (s', Inl InvalidCredentials, derived))
          else
            let rehash = NeedsRehash (lc_PasswordHash credential);
                rehashed = (if rehash
                  then (case HashPassword (le_pbkdf2 le) random password of None \<Rightarrow> '''' | Some h \<Rightarrow> h) else '''')
            in (RecordLocalLoginSuccess db_now (lc_UserID credential) rehashed s, Inr (local_identity_of credential),
                derived @ (if rehash then HashPassword_derives random password else [])))"

section \<open>Runs of attempts\<close>

text \<open>One attempt: when, the salt at hand, the username and the password. The clocks agree.\<close>

type_synonym attempt = "instant \<times> string option \<times> string \<times> string"

fun verify_run :: "local_env \<Rightarrow> string \<Rightarrow> attempt list \<Rightarrow> auth_state \<Rightarrow> auth_state" where
  "verify_run le decoy [] s = s"
| "verify_run le decoy ((t, random, username, password) # rest) s =
     verify_run le decoy rest (fst (local_Verify le decoy random t t username password s))"

definition lock_ok :: "instant \<Rightarrow> credential_row \<Rightarrow> bool" where
  "lock_ok t c \<longleftrightarrow> 0 \<le> cred_failed_attempts c \<and>
     (case cred_locked_until c of None \<Rightarrow> True
      | Some u \<Rightarrow> lockoutAfterAttempts \<le> cred_failed_attempts c \<and> u \<le> t + lockoutCeiling * second)"

section \<open>Samples\<close>

definition sample_local :: local_env where
  "sample_local = \<lparr>le_to_lower = (\<lambda>n. n), le_equal_fold = (\<lambda>x y. x = y), le_lower = (\<lambda>n. n), le_pbkdf2 = sample_kdf\<rparr>"

definition sample_account :: LocalAccount where
  "sample_account = \<lparr>la_UserID = 0, la_Username = ''bob'', la_Email = [], la_DisplayName = [], la_Enabled = False,
     la_LockedUntil = None, la_LastLoginAt = None\<rparr>"

text \<open>An account whose password failed four times.\<close>

definition sample_failing :: auth_state where
  "sample_failing = sample_auth\<lparr>st_credentials := [\<lparr>cred_user_id = 7, cred_password_hash = ''x'', cred_failed_attempts = 4,
     cred_locked_until = None, cred_password_changed_at = 0\<rparr>]\<rparr>"

section \<open>Lemmas\<close>

lemma backoff_bounds: "lockoutBase * second \<le> backoff n \<and> backoff n \<le> lockoutCeiling * second"
proof -
  have "(1::int) \<le> 2 ^ nat (n - lockoutAfterAttempts)" by simp
  then show ?thesis by (simp add: backoff_def lockoutBase_def lockoutCeiling_def second_def)
qed

lemma backoff_mono: "m \<le> n \<Longrightarrow> backoff m \<le> backoff n"
proof -
  assume "m \<le> n"
  then have "(2::int) ^ nat (m - lockoutAfterAttempts) \<le> 2 ^ nat (n - lockoutAfterAttempts)"
    by (intro power_increasing) auto
  then show ?thesis
    unfolding backoff_def by (intro mult_right_mono min.mono order_refl mult_left_mono) (simp_all add: second_def lockoutBase_def)
qed

lemma lock_ok_later: "lock_ok t c \<Longrightarrow> t \<le> t' \<Longrightarrow> lock_ok t' c"
  by (auto simp: lock_ok_def split: option.splits)

lemma RecordLocalLoginFailure_Inr:
  assumes "RecordLocalLoginFailure t uid s = Inr s'"
  shows "st_accounts s' = st_accounts s" "session_entries s' = session_entries s" "code_entries s' = code_entries s"
    "tx_entries s' = tx_entries s"
    "st_credentials s' = upd_where (\<lambda>c. cred_user_id c = uid \<and> not_locked t c)
        (\<lambda>c. c\<lparr>cred_failed_attempts := cred_failed_attempts c + 1,
               cred_locked_until := (if lockoutAfterAttempts \<le> cred_failed_attempts c + 1
                 then Some (t + backoff (cred_failed_attempts c + 1)) else cred_locked_until c)\<rparr>) (st_credentials s)"
  using assms by (auto simp: RecordLocalLoginFailure_def Let_def split: if_splits)

lemma failure_lock_ok:
  assumes "RecordLocalLoginFailure t uid s = Inr s'" "\<forall>c \<in> set (st_credentials s). lock_ok t c"
  shows "\<forall>c \<in> set (st_credentials s'). lock_ok t c"
proof -
  have "lock_ok t (c\<lparr>cred_failed_attempts := cred_failed_attempts c + 1,
      cred_locked_until := (if lockoutAfterAttempts \<le> cred_failed_attempts c + 1
        then Some (t + backoff (cred_failed_attempts c + 1)) else cred_locked_until c)\<rparr>)" if "lock_ok t c" for c
    using that backoff_bounds [of "cred_failed_attempts c + 1"] by (auto simp: lock_ok_def split: option.splits)
  then show ?thesis using assms(2) unfolding RecordLocalLoginFailure_Inr(5) [OF assms(1)] set_upd_where by auto
qed

lemma success_lock_ok:
  "\<forall>c \<in> set (st_credentials s). lock_ok t c \<Longrightarrow> \<forall>c \<in> set (st_credentials (RecordLocalLoginSuccess t uid rehashed s)). lock_ok t c"
  by (auto simp: RecordLocalLoginSuccess_def set_upd_where lock_ok_def)

lemma local_Verify_cases:
  obtains (unknown) "FindLocalCredential le (NormalizeUsername le username) s = Inl InvalidCredentials"
      "local_Verify le decoy random now db_now username password s = (s, Inl InvalidCredentials, VerifyPassword_derives decoy password)"
    | (failed) e where "FindLocalCredential le (NormalizeUsername le username) s = Inl e" "e \<noteq> InvalidCredentials"
      "local_Verify le decoy random now db_now username password s = (s, Inl e, [])"
    | (barred) c where "FindLocalCredential le (NormalizeUsername le username) s = Inr c"
      "\<not> lc_Enabled c \<or> lockedOut now c"
      "local_Verify le decoy random now db_now username password s = (s, Inl InvalidCredentials, VerifyPassword_derives (lc_PasswordHash c) password)"
    | (wrong) c where "FindLocalCredential le (NormalizeUsername le username) s = Inr c" "lc_Enabled c" "\<not> lockedOut now c"
      "\<not> VerifyPassword (le_pbkdf2 le) (lc_PasswordHash c) password"
      "local_Verify le decoy random now db_now username password s =
        (case RecordLocalLoginFailure db_now (lc_UserID c) s of
           Inl e \<Rightarrow> (s, Inl e, VerifyPassword_derives (lc_PasswordHash c) password)
         | Inr s' \<Rightarrow> (s', Inl InvalidCredentials, VerifyPassword_derives (lc_PasswordHash c) password))"
    | (right) c rehashed more where "FindLocalCredential le (NormalizeUsername le username) s = Inr c" "lc_Enabled c" "\<not> lockedOut now c"
      "VerifyPassword (le_pbkdf2 le) (lc_PasswordHash c) password"
      "local_Verify le decoy random now db_now username password s =
        (RecordLocalLoginSuccess db_now (lc_UserID c) rehashed s, Inr (local_identity_of c), VerifyPassword_derives (lc_PasswordHash c) password @ more)"
proof (cases "FindLocalCredential le (NormalizeUsername le username) s")
  case (Inl e)
  then show thesis using unknown failed by (cases e) (auto simp: local_Verify_def)
next
  case (Inr c)
  show thesis
  proof (cases "\<not> lc_Enabled c \<or> lockedOut now c")
    case True
    then show thesis using barred [OF Inr] by (simp add: local_Verify_def Inr Let_def)
  next
    case False
    then show thesis
      using wrong [OF Inr] right [OF Inr] by (cases "VerifyPassword (le_pbkdf2 le) (lc_PasswordHash c) password")
        (simp_all add: local_Verify_def Inr Let_def)
  qed
qed

lemma local_Verify_lock_ok:
  assumes "\<forall>c \<in> set (st_credentials s). lock_ok db_now c"
  shows "\<forall>c \<in> set (st_credentials (fst (local_Verify le decoy random now db_now username password s))). lock_ok db_now c"
proof (cases rule: local_Verify_cases [of le username s decoy random now db_now password])
  case (wrong c)
  then show ?thesis using assms failure_lock_ok by (auto split: sum.splits)
next
  case (right c rehashed more)
  then show ?thesis using success_lock_ok [OF assms] by simp
qed (use assms in simp_all)

lemma verify_run_lock_ok:
  assumes "sorted (t # map fst attempts)" "\<forall>c \<in> set (st_credentials s). lock_ok t c"
  shows "\<forall>c \<in> set (st_credentials (verify_run le decoy attempts s)). lock_ok (last (t # map fst attempts)) c"
  using assms
proof (induction attempts arbitrary: t s)
  case (Cons x rest)
  obtain t' random username password where x: "x = (t', random, username, password)" by (metis prod_cases4)
  have "\<forall>c \<in> set (st_credentials s). lock_ok t' c"
    using Cons.prems lock_ok_later by (auto simp: x)
  note Cons.IH [OF _ local_Verify_lock_ok [OF this]]
  then show ?case using Cons.prems(1) by (simp add: x)
qed simp

lemma local_rows_iff:
  "(i, c, u) \<in> set (local_rows s) \<longleftrightarrow>
    i \<in> set (identities (st_accounts s)) \<and> identity_issuer i = LocalIssuer \<and> c \<in> set (st_credentials s) \<and>
    cred_user_id c = identity_user i \<and> u \<in> set (users (st_accounts s)) \<and> user_id u = identity_user i"
  by (auto simp: local_rows_def account_rows_def)

lemma find_local_row:
  assumes "FindLocalCredential le username s = Inr lc"
  obtains i c u where "(i, c, u) \<in> set (local_rows s)" "lc_UserID lc = identity_user i"
    "lc_PasswordHash lc = cred_password_hash c" "lc_LockedUntil lc = cred_locked_until c" "lc_Enabled lc = user_enabled u"
proof -
  obtain i c u where f: "find (\<lambda>(i, c, u). le_lower le (identity_username i) = NormalizeUsername le username) (local_rows s) = Some (i, c, u)"
    "lc_UserID lc = identity_user i" "lc_PasswordHash lc = cred_password_hash c" "lc_LockedUntil lc = cred_locked_until c"
    "lc_Enabled lc = user_enabled u"
    using assms by (auto simp: FindLocalCredential_def Let_def split: if_splits option.splits)
  have "(i, c, u) \<in> set (local_rows s)" using f(1) by (metis (no_types, lifting) find_Some_iff nth_mem)
  then show thesis using f(2-5) by (rule that)
qed

subsection \<open>A created account\<close>

lemma CreateLocalAccount_Inr:
  assumes "CreateLocalAccount le random db_now account password s = Inr (uid, s')"
  obtains encoded email displayName where
    "HashPassword (le_pbkdf2 le) random password = Some encoded" "uid = next_user (st_accounts s)"
    "NormalizeUsername le (la_Username account) \<noteq> []" "text_ok (NormalizeUsername le (la_Username account))"
    "\<not> list_ex (local_identity le (NormalizeUsername le (la_Username account))) (identities (st_accounts s))"
    "(LocalIssuer, FormatInt uid) \<notin> (\<lambda>i. (identity_issuer i, identity_subject i)) ` set (identities (st_accounts s))"
    "s' = insert_local_account db_now (NormalizeUsername le (la_Username account)) email displayName encoded s"
  using assms
  by (auto simp: CreateLocalAccount_def accepted_hash_def Let_def bind_res_Inr split: if_splits sum.splits option.splits)

lemma next_user_fresh:
  assumes "auth_ok s"
  shows "next_user (st_accounts s) \<notin> set (map user_id (users (st_accounts s)))"
    "next_user (st_accounts s) \<notin> set (map identity_user (identities (st_accounts s)))"
    "next_user (st_accounts s) \<notin> set (map cred_user_id (st_credentials s))"
proof -
  have sub: "set (map user_id (users (st_accounts s))) \<subseteq> {0<..<next_user (st_accounts s)}"
    "set (map identity_user (identities (st_accounts s))) \<subseteq> set (map user_id (users (st_accounts s)))"
    "set (map cred_user_id (st_credentials s)) \<subseteq> set (map user_id (users (st_accounts s)))"
    using assms by (simp_all add: auth_ok_def accounts_ok_def identities_ok_def)
  show "next_user (st_accounts s) \<notin> set (map user_id (users (st_accounts s)))" using sub(1) by fastforce
  then show "next_user (st_accounts s) \<notin> set (map identity_user (identities (st_accounts s)))"
    "next_user (st_accounts s) \<notin> set (map cred_user_id (st_credentials s))"
    using sub(2,3) by blast+
qed

lemma local_rows_insert:
  assumes "auth_ok s"
  shows "local_rows (insert_local_account db_now username email displayName encoded s) = local_rows s @
    [(\<lparr>identity_id = next_identity (st_accounts s), identity_user = next_user (st_accounts s), identity_issuer = LocalIssuer,
       identity_subject = FormatInt (next_user (st_accounts s)), identity_username = username, identity_email = email,
       identity_display_name = displayName, identity_last_seen_at = db_now\<rparr>,
      \<lparr>cred_user_id = next_user (st_accounts s), cred_password_hash = encoded, cred_failed_attempts = 0,
       cred_locked_until = None, cred_password_changed_at = db_now\<rparr>,
      \<lparr>user_id = next_user (st_accounts s), user_email = email, user_display_name = displayName,
       user_enabled = True, user_last_login_at = None\<rparr>)]"
proof -
  note fresh = next_user_fresh [OF assms]
  have none: "filter (\<lambda>u. user_id u = next_user (st_accounts s)) (users (st_accounts s)) = []"
    "filter (\<lambda>c. cred_user_id c = next_user (st_accounts s)) (st_credentials s) = []"
    using fresh(1,3) by (auto simp: filter_empty_conv image_iff)
  have "next_user (st_accounts s) \<noteq> identity_user i" if "i \<in> set (identities (st_accounts s))" for i
    using fresh(2) that by (auto simp: image_iff)
  then have same: "account_rows (st_credentials s @ [c]) (users (st_accounts s) @ [u]) i =
      account_rows (st_credentials s) (users (st_accounts s)) i"
    if "cred_user_id c = next_user (st_accounts s)" "user_id u = next_user (st_accounts s)" "i \<in> set (identities (st_accounts s))" for c u i
    using that by (auto simp: account_rows_def)
  have same_map: "map (account_rows (st_credentials s @ [c]) (users (st_accounts s) @ [u]))
        (filter (\<lambda>i. identity_issuer i = LocalIssuer) (identities (st_accounts s))) =
      map (account_rows (st_credentials s) (users (st_accounts s)))
        (filter (\<lambda>i. identity_issuer i = LocalIssuer) (identities (st_accounts s)))"
    if "cred_user_id c = next_user (st_accounts s)" "user_id u = next_user (st_accounts s)" for c u
    by (rule map_cong) (use that in \<open>auto simp: same\<close>)
  show ?thesis
    unfolding local_rows_def insert_local_account_def Let_def
    by (simp add: same_map) (simp add: account_rows_def none)
qed

lemma insert_local_account_ok:
  assumes "auth_ok s"
    "(LocalIssuer, FormatInt (next_user (st_accounts s))) \<notin> (\<lambda>i. (identity_issuer i, identity_subject i)) ` set (identities (st_accounts s))"
  shows "auth_ok (insert_local_account db_now username email displayName encoded s)"
proof -
  let ?s = "insert_local_account db_now username email displayName encoded s"
  have a: "identities_ok (st_accounts s)" "bindings_ok (st_accounts s)" using assms(1) by (simp_all add: auth_ok_def accounts_ok_def)
  have "next_identity (st_accounts s) \<notin> set (map identity_id (identities (st_accounts s)))"
    using a(1) by (auto simp: identities_ok_def)
  then have "identities_ok (st_accounts ?s)"
    using a(1) assms(2) next_user_fresh(1) [OF assms(1)]
    by (auto simp: identities_ok_def insert_local_account_def Let_def)
  moreover have "bindings_ok (st_accounts ?s)"
    using a(2) by (auto simp: bindings_ok_def binding_row_ok_def user_exists_def insert_local_account_def Let_def split: option.splits)
  ultimately show ?thesis
    using assms(1) next_user_fresh(3) [OF assms(1)]
    by (auto simp: auth_ok_def accounts_ok_def insert_local_account_def Let_def)
qed

lemma find_append_miss: "find P xs = None \<Longrightarrow> find P (xs @ ys) = find P ys"
  by (induction xs) auto

lemma find_created:
  assumes "auth_ok s" "\<not> list_ex (local_identity le username) (identities (st_accounts s))" "text_ok username"
    "NormalizeUsername le username = username" "le_lower le username = username"
  shows "FindLocalCredential le username (insert_local_account db_now username email displayName encoded s) =
    Inr \<lparr>lc_UserID = next_user (st_accounts s), lc_Username = username, lc_Email = email, lc_DisplayName = displayName,
      lc_PasswordHash = encoded, lc_Enabled = True, lc_LockedUntil = None\<rparr>"
proof -
  have "find (\<lambda>(i, c, u). le_lower le (identity_username i) = username) (local_rows s) = None"
    using assms(2) by (auto simp: find_None_iff local_rows_iff list_ex_iff local_identity_def)
  then show ?thesis
    using assms(3-5) by (simp add: FindLocalCredential_def local_rows_insert [OF assms(1)] find_append_miss)
qed

lemma success_accounts:
  "identities (st_accounts (RecordLocalLoginSuccess t uid rehashed s)) = identities (st_accounts s)"
  "role_bindings (st_accounts (RecordLocalLoginSuccess t uid rehashed s)) = role_bindings (st_accounts s)"
  by (simp_all add: RecordLocalLoginSuccess_def)

lemma resolvePrincipal_user: "resolvePrincipal a uid = Inr caller \<Longrightarrow> UserID caller = uid"
  by (auto simp: resolvePrincipal_def Let_def find_Some_iff split: if_splits option.splits)

lemma resolve_user:
  assumes "ResolveDirectoryIdentity lower now identity a = (a', Inr caller)"
    "find (\<lambda>i. identity_issuer i = dir_Issuer identity \<and> identity_subject i = dir_Subject identity) (identities a) = Some i"
  shows "UserID caller = identity_user i"
proof -
  obtain j uid b c where "upsert_identity lower now identity a = Inr (j, uid, b)" "resolvePrincipal c uid = Inr caller"
    using assms(1) by (auto simp: ResolveDirectoryIdentity_def Let_def split: if_splits sum.splits)
  then show ?thesis
    using assms(2) resolvePrincipal_user by (auto simp: upsert_identity_def Let_def split: if_splits)
qed

lemma success_find:
  "find P (identities (st_accounts (RecordLocalLoginSuccess t uid rehashed s))) = find P (identities (st_accounts s))"
  by (simp add: success_accounts)

section \<open>Properties\<close>

text \<open>C38: local sign-in gives nothing away. An unknown username, a disabled account, a locked one and a wrong password are refused
  with the same error, and the attempt makes exactly one derivation of the password that was sent: at the current cost against the decoy when
  the account is unknown, at the cost of the stored hash otherwise. Only a stored hash that does not parse is refused without a
  derivation, and a wrong password is answered with another error only when the failure could not be counted. A wrong password is counted;
  the other refusals change nothing; no refusal changes the accounts, the sessions or the codes. An identity is returned
  exactly for an enabled account that is not locked, to the password its hash verifies.\<close>

theorem local_refusals_alike:
  assumes "local_Verify le decoy random now db_now username password s = (s', result, derivations)"
    "HashPassword (le_pbkdf2 le) (Some salt) decoyPassword = Some decoy" "length salt = pbkdf2SaltBytes"
    "\<forall>p t i n k. le_pbkdf2 le p t i n = Some k \<longrightarrow> length k = n"
  shows "case FindLocalCredential le (NormalizeUsername le username) s of
      Inl e \<Rightarrow> s' = s \<and> result = Inl e \<and> (e = InvalidCredentials \<longrightarrow> derivations = [(password, salt, pbkdf2Iterations, pbkdf2KeyBytes)])
    | Inr c \<Rightarrow>
        (if lc_Enabled c \<and> \<not> lockedOut now c \<and> VerifyPassword (le_pbkdf2 le) (lc_PasswordHash c) password
         then result = Inr (local_identity_of c)
         else st_accounts s' = st_accounts s \<and> session_entries s' = session_entries s \<and> code_entries s' = code_entries s \<and>
           (case parsePasswordHash (lc_PasswordHash c) of
              Inl e \<Rightarrow> derivations = []
            | Inr (scheme, iterations, salt', key) \<Rightarrow> derivations = [(password, salt', iterations, length key)]) \<and>
           (if lc_Enabled c \<and> \<not> lockedOut now c
            then (case RecordLocalLoginFailure db_now (lc_UserID c) s of
                    Inl e \<Rightarrow> s' = s \<and> result = Inl e
                  | Inr counted \<Rightarrow> s' = counted \<and> result = Inl InvalidCredentials)
            else s' = s \<and> result = Inl InvalidCredentials))"
proof -
  obtain key where "length key = pbkdf2KeyBytes" "parsePasswordHash decoy = Inr (pbkdf2Scheme, pbkdf2Iterations, salt, key)"
    by (rule HashPassword_parses [OF assms(2-4)])
  then have decoy: "VerifyPassword_derives decoy password = [(password, salt, pbkdf2Iterations, pbkdf2KeyBytes)]"
    by (simp add: VerifyPassword_derives_def)
  show ?thesis
  proof (cases rule: local_Verify_cases [of le username s decoy random now db_now password])
    case unknown
    then show ?thesis using assms(1) decoy by simp
  next
    case (barred c)
    then show ?thesis using assms(1) by (auto simp: VerifyPassword_derives_def split: sum.splits)
  next
    case (wrong c)
    then show ?thesis
      using assms(1) RecordLocalLoginFailure_Inr by (auto simp: VerifyPassword_derives_def split: sum.splits)
  qed (use assms(1) in auto)
qed

text \<open>The witness: a name nobody has and a wrong password for one that exists.\<close>

definition sample_hash :: string where
  "sample_hash = (case HashPassword sample_kdf (Some ''0123456789abcdef'') ''correct horse'' of None \<Rightarrow> '''' | Some h \<Rightarrow> h)"

definition sample_password :: "string \<Rightarrow> auth_state" where
  "sample_password h = sample_auth\<lparr>st_credentials := [\<lparr>cred_user_id = 7, cred_password_hash = h, cred_failed_attempts = 0,
     cred_locked_until = None, cred_password_changed_at = 0\<rparr>]\<rparr>"

lemma sample_alice:
  "FindLocalCredential sample_local (NormalizeUsername sample_local ''nobody'') (sample_password h) = Inl InvalidCredentials"
  "FindLocalCredential sample_local (NormalizeUsername sample_local ''alice'') (sample_password h) =
     Inr \<lparr>lc_UserID = 7, lc_Username = ''alice'', lc_Email = [], lc_DisplayName = ''Alice'', lc_PasswordHash = h, lc_Enabled = True,
       lc_LockedUntil = None\<rparr>"
  "\<exists>s. RecordLocalLoginFailure 5 7 (sample_password h) = Inr s"
proof -
  have "NormalizeUsername sample_local ''nobody'' = ''nobody''" "NormalizeUsername sample_local ''alice'' = ''alice''"
    "text_ok ''nobody''" "text_ok ''alice''" by code_simp+
  then show "FindLocalCredential sample_local (NormalizeUsername sample_local ''nobody'') (sample_password h) = Inl InvalidCredentials"
    "FindLocalCredential sample_local (NormalizeUsername sample_local ''alice'') (sample_password h) =
     Inr \<lparr>lc_UserID = 7, lc_Username = ''alice'', lc_Email = [], lc_DisplayName = ''Alice'', lc_PasswordHash = h, lc_Enabled = True,
       lc_LockedUntil = None\<rparr>"
    by (simp_all add: FindLocalCredential_def local_rows_def account_rows_def sample_password_def sample_auth_def sample_accounts_def
        LocalIssuer_def) (simp_all add: sample_local_def)
  show "\<exists>s. RecordLocalLoginFailure 5 7 (sample_password h) = Inr s"
    by (simp add: RecordLocalLoginFailure_def sample_password_def backoff_overflows_def lockoutAfterAttempts_def)
qed

theorem local_refusals_alike_witness:
  "(\<exists>s'. local_Verify sample_local sample_hash None 5 5 ''nobody'' ''guess'' (sample_password sample_hash) =
      (s', Inl InvalidCredentials, [(''guess'', ''0123456789abcdef'', pbkdf2Iterations, pbkdf2KeyBytes)])) \<and>
   (\<exists>s'. local_Verify sample_local sample_hash None 5 5 ''alice'' ''guess'' (sample_password sample_hash) =
      (s', Inl InvalidCredentials, [(''guess'', ''0123456789abcdef'', pbkdf2Iterations, pbkdf2KeyBytes)]))"
proof -
  have hash: "HashPassword (le_pbkdf2 sample_local) (Some ''0123456789abcdef'') ''correct horse'' = Some sample_hash"
    by (simp add: sample_local_def sample_hash_def HashPassword_def sample_kdf_def)
  have len: "length ''0123456789abcdef'' = pbkdf2SaltBytes" by (simp add: pbkdf2SaltBytes_def)
  have kdf: "\<forall>p t i n k. le_pbkdf2 sample_local p t i n = Some k \<longrightarrow> length k = n"
    using sample_kdf_length by (simp add: sample_local_def)
  obtain key where parsed: "le_pbkdf2 sample_local ''correct horse'' ''0123456789abcdef'' pbkdf2Iterations pbkdf2KeyBytes = Some key"
    "length key = pbkdf2KeyBytes" "parsePasswordHash sample_hash = Inr (pbkdf2Scheme, pbkdf2Iterations, ''0123456789abcdef'', key)"
    by (rule HashPassword_parses [OF hash len kdf])
  then have wrong: "\<not> VerifyPassword (le_pbkdf2 sample_local) sample_hash ''guess''"
    by (auto simp: VerifyPassword_def sample_local_def sample_kdf_def pbkdf2KeyBytes_def)
  obtain counted where counted: "RecordLocalLoginFailure 5 7 (sample_password sample_hash) = Inr counted" using sample_alice(3) by blast
  obtain s1 r1 d1 where v1: "local_Verify sample_local sample_hash None 5 5 ''nobody'' ''guess'' (sample_password sample_hash) = (s1, r1, d1)"
    by (metis prod_cases3)
  obtain s2 r2 d2 where v2: "local_Verify sample_local sample_hash None 5 5 ''alice'' ''guess'' (sample_password sample_hash) = (s2, r2, d2)"
    by (metis prod_cases3)
  show ?thesis
    using local_refusals_alike [OF v1 hash len kdf] local_refusals_alike [OF v2 hash len kdf] parsed wrong counted v1 v2
    by (simp add: sample_alice(1,2) lockedOut_def)
qed

text \<open>C39: lockouts end by themselves. Whatever usernames and passwords are tried, an account is
  locked only after five failures in a row, and its lock ends at most fifteen minutes after the last
  attempt: the lock after the n-th failure lasts between thirty seconds and fifteen minutes, no less
  than the one before it.\<close>

theorem lockout_self_expires:
  assumes "sorted (t # map fst attempts)" "\<forall>c \<in> set (st_credentials s). lock_ok t c"
    "c \<in> set (st_credentials (verify_run le decoy attempts s))" "cred_locked_until c = Some u"
  shows "lockoutAfterAttempts \<le> cred_failed_attempts c \<and> u \<le> last (t # map fst attempts) + 15 * 60 * second \<and>
    (\<forall>n. 30 * second \<le> backoff n \<and> backoff n \<le> backoff (n + 1) \<and> backoff n \<le> 15 * 60 * second)"
proof -
  have "lock_ok (last (t # map fst attempts)) c"
    using verify_run_lock_ok [OF assms(1,2)] assms(3) by blast
  moreover have "30 * second \<le> backoff n \<and> backoff n \<le> backoff (n + 1) \<and> backoff n \<le> 15 * 60 * second" for n
    using backoff_bounds [of n] backoff_mono [of n "n + 1"] by (simp add: lockoutBase_def lockoutCeiling_def)
  ultimately show ?thesis using assms(4) by (simp add: lock_ok_def lockoutCeiling_def)
qed

theorem lockout_self_expires_witness:
  "\<exists>c \<in> set (st_credentials (verify_run sample_local ''decoy'' [(10, None, ''alice'', ''guess'')] sample_failing)).
     cred_locked_until c = Some (10 + 30 * second) \<and> lockoutAfterAttempts \<le> cred_failed_attempts c"
proof -
  have run: "st_credentials (verify_run sample_local ''decoy'' [(10, None, ''alice'', ''guess'')] sample_failing) =
      [\<lparr>cred_user_id = 7, cred_password_hash = ''x'', cred_failed_attempts = 5,
        cred_locked_until = Some (10 + 30 * second), cred_password_changed_at = 0\<rparr>]"
    by code_simp
  have "\<forall>c \<in> set (st_credentials sample_failing). lock_ok 10 c" by (simp add: sample_failing_def lock_ok_def)
  then show ?thesis
    using lockout_self_expires [of 10 "[(10, None, ''alice'', ''guess'')]" sample_failing _ sample_local "''decoy''"] run by auto
qed

text \<open>Creating an account and signing in. The password an account was created with signs it in,
  at any time and however the username is spelled, and the identity it signs in as is the one that was
  created: when that resolves to a principal, it is the new account's user.\<close>

theorem created_account_signs_in:
  assumes "CreateLocalAccount le (Some salt) t account password s = Inr (uid, s')" "auth_ok s"
    "length salt = pbkdf2SaltBytes" "\<forall>p t i n k. le_pbkdf2 le p t i n = Some k \<longrightarrow> length k = n"
    "NormalizeUsername le username = NormalizeUsername le (la_Username account)"
    "NormalizeUsername le (NormalizeUsername le username) = NormalizeUsername le username"
    "le_lower le (NormalizeUsername le username) = NormalizeUsername le username"
  shows "auth_ok s' \<and> (\<exists>s'' identity derivations.
    local_Verify le decoy random now db_now username password s' = (s'', Inr identity, derivations) \<and>
    (\<forall>a' caller. ResolveDirectoryIdentity (le_lower le) db_now identity (st_accounts s'') = (a', Inr caller) \<longrightarrow> UserID caller = uid))"
proof -
  let ?name = "NormalizeUsername le (la_Username account)"
  obtain encoded email displayName where c: "HashPassword (le_pbkdf2 le) (Some salt) password = Some encoded" "uid = next_user (st_accounts s)"
    "text_ok ?name" "\<not> list_ex (local_identity le ?name) (identities (st_accounts s))"
    "(LocalIssuer, FormatInt uid) \<notin> (\<lambda>i. (identity_issuer i, identity_subject i)) ` set (identities (st_accounts s))"
    "s' = insert_local_account t ?name email displayName encoded s"
    using assms(1) by (rule CreateLocalAccount_Inr)
  obtain key where key: "le_pbkdf2 le password salt pbkdf2Iterations pbkdf2KeyBytes = Some key" "length key = pbkdf2KeyBytes"
    "encoded = ''$'' @ pbkdf2Scheme @ ''$i='' @ FormatInt pbkdf2Iterations @ ''$'' @
      base64_encode base64_std salt @ ''$'' @ base64_encode base64_std key"
    using c(1) assms(4) by (auto simp: HashPassword_def split: option.splits)
  have "parsePasswordHash encoded = Inr (pbkdf2Scheme, pbkdf2Iterations, salt, key)"
    unfolding key(3) using key(2) assms(3)
    by (intro parsePasswordHash_written) (auto simp: pbkdf2Iterations_def int64_range_def pbkdf2SaltBytes_def pbkdf2KeyBytes_def)
  then have verifies: "VerifyPassword (le_pbkdf2 le) encoded password" using key(1,2) by (simp add: VerifyPassword_def)
  define lc where "lc = \<lparr>lc_UserID = uid, lc_Username = ?name, lc_Email = email, lc_DisplayName = displayName,
      lc_PasswordHash = encoded, lc_Enabled = True, lc_LockedUntil = None\<rparr>"
  have f: "FindLocalCredential le (NormalizeUsername le username) s' = Inr lc"
    using find_created [OF assms(2) c(4,3)] assms(5-7) by (simp add: c(6,2) lc_def)
  obtain rehashed derivations where v: "local_Verify le decoy random now db_now username password s' =
      (RecordLocalLoginSuccess db_now uid rehashed s', Inr (local_identity_of lc), derivations)"
    using verifies f by (cases rule: local_Verify_cases [of le username s' decoy random now db_now password])
      (auto simp: lc_def lockedOut_def)
  have "find (\<lambda>i. identity_issuer i = LocalIssuer \<and> identity_subject i = FormatInt uid) (identities (st_accounts s)) = None"
    using c(5) by (auto simp: find_None_iff image_iff)
  then obtain i where "find (\<lambda>i. identity_issuer i = LocalIssuer \<and> identity_subject i = FormatInt uid) (identities (st_accounts s')) = Some i"
      "identity_user i = uid"
    by (simp add: c(6,2) insert_local_account_def Let_def find_append_miss)
  then have "UserID caller = uid"
    if "ResolveDirectoryIdentity (le_lower le) db_now (local_identity_of lc)
        (st_accounts (RecordLocalLoginSuccess db_now uid rehashed s')) = (a', Inr caller)" for a' caller
    using resolve_user [OF that] by (simp add: local_identity_of_def localSubject_def lc_def success_find)
  moreover have "auth_ok s'" using insert_local_account_ok [OF assms(2)] c(5) by (simp add: c(6,2))
  ultimately show ?thesis using v by blast
qed

theorem created_account_signs_in_witness:
  "\<exists>s' s'' identity derivations.
     CreateLocalAccount sample_local (Some ''0123456789abcdef'') 1 sample_account ''correct horse'' sample_auth = Inr (8, s') \<and>
     local_Verify sample_local ''decoy'' None 9 9 '' bob '' ''correct horse'' s' = (s'', Inr identity, derivations)"
proof -
  let ?r = "CreateLocalAccount sample_local (Some ''0123456789abcdef'') 1 sample_account ''correct horse'' sample_auth"
  have bob: "NormalizeUsername sample_local (la_Username sample_account) = ''bob''" by code_simp
  obtain encoded where e: "HashPassword sample_kdf (Some ''0123456789abcdef'') ''correct horse'' = Some encoded"
    by (simp add: HashPassword_def sample_kdf_def)
  have "text_ok ''bob''" "text_ok []" "FormatInt 8 \<noteq> ''7''" by code_simp+
  then obtain s' where s': "?r = Inr (8, s')"
    using bob e by (simp add: CreateLocalAccount_def accepted_hash_def ValidatePassword_def passwordMinLength_def
        passwordMaxLength_def sample_local_def sample_account_def sample_auth_def sample_accounts_def local_identity_def
        local_name_free_def LocalIssuer_def Let_def)
  have names: "NormalizeUsername sample_local '' bob '' = NormalizeUsername sample_local (la_Username sample_account)" by code_simp
  have kdf: "\<forall>p t i n k. le_pbkdf2 sample_local p t i n = Some k \<longrightarrow> length k = n"
    using sample_kdf_length by (simp add: sample_local_def)
  have idem: "NormalizeUsername sample_local (NormalizeUsername sample_local '' bob '') = NormalizeUsername sample_local '' bob ''"
    "le_lower sample_local (NormalizeUsername sample_local '' bob '') = NormalizeUsername sample_local '' bob ''"
    by code_simp+
  have ok: "auth_ok sample_auth" using sample_accounts_ok(1) by (simp add: auth_ok_def sample_auth_def)
  have len: "length ''0123456789abcdef'' = pbkdf2SaltBytes" by (simp add: pbkdf2SaltBytes_def)
  show ?thesis using created_account_signs_in [OF s' ok len kdf names idem, of "''decoy''" None 9 9] s' by blast
qed

end
