(* ===== verification/Commands.thy ===== *)
theory Commands
  imports Admin_API Local_Accounts
begin

text \<open>
  The administration commands of the shell (\<open>cmd/promview\<close>): \<open>access\<close>, \<open>source\<close>, \<open>view-group\<close> and \<open>user\<close>.

  Parsing flags is a parameter: \<open>cmd_parse\<close> is \<open>FlagSet.Parse\<close> of the set with that name on the arguments
  after the subcommand, \<^const>\<open>None\<close> when it fails. A duration is in microseconds, the unit in which
  sources are stored. A command answers with an error, or with what it prints and the new state.
\<close>

section \<open>Flags\<close>

text \<open>The flags after parsing: the text of each flag that was given, of a repeated flag all its texts, and the
  values of the number and the switches, which are zero and off when they were not given.\<close>

record flag_set =
  fs_given :: "string \<Rightarrow> string option"
  fs_int :: "string \<Rightarrow> int"
  fs_bool :: "string \<Rightarrow> bool"
  fs_repeated :: "string \<Rightarrow> string list"

definition flag_string :: "flag_set \<Rightarrow> string \<Rightarrow> string" where
  "flag_string flags name = (case fs_given flags name of None \<Rightarrow> '''' | Some v \<Rightarrow> v)"

definition isFlagSet :: "flag_set \<Rightarrow> string \<Rightarrow> bool" where
  "isFlagSet flags name \<longleftrightarrow> fs_given flags name \<noteq> None"

datatype cmd_error =
  CmdMessage string | CmdFlags | CmdInput | CmdStaleAfter | CmdSelector selector_error | CmdAccess access_error | CmdStore db_error

record cmd_env =
  cmd_parse :: "string \<Rightarrow> string list \<Rightarrow> flag_set option"
  cmd_rx :: regex
  cmd_url_parse :: "string \<Rightarrow> (string \<times> string) option"
  cmd_pg_regex :: "string \<Rightarrow> bool"
  cmd_strxfrm :: "string \<Rightarrow> string"
  cmd_sha256 :: "string \<Rightarrow> string"
  cmd_duration :: "string \<Rightarrow> int option"
  cmd_rfc3339 :: "instant \<Rightarrow> string"
  cmd_quote :: "string \<Rightarrow> string"

datatype cmd_output =
  Silent | Diagnosed "IdentityDiagnostic list \<times> RoleBinding list" | Groups "ViewGroupStatus list"
| Created int | Accounts "(int \<times> string \<times> string \<times> string) list"

definition parse_flags :: "cmd_env \<Rightarrow> string \<Rightarrow> string list \<Rightarrow> cmd_error + flag_set" where
  "parse_flags env set_name args = (case cmd_parse env set_name args of None \<Rightarrow> Inl CmdFlags | Some flags \<Rightarrow> Inr flags)"

definition store_result :: "('e \<Rightarrow> cmd_error) \<Rightarrow> 'e + 's \<Rightarrow> cmd_error + cmd_output \<times> 's" where
  "store_result wrap result = (case result of Inl e \<Rightarrow> Inl (wrap e) | Inr s \<Rightarrow> Inr (Silent, s))"

section \<open>Access\<close>

fun firstNonEmptyFlag :: "string list \<Rightarrow> string" where
  "firstNonEmptyFlag [] = ''''"
| "firstNonEmptyFlag (v # vs) = (if v \<noteq> '''' then v else firstNonEmptyFlag vs)"

fun parse_selectors :: "regex \<Rightarrow> string list \<Rightarrow> cmd_error + LabelMatcher list" where
  "parse_selectors rx [] = Inr []"
| "parse_selectors rx (raw # raws) =
     (case ParseLabelMatcher rx raw of
        Inl e \<Rightarrow> Inl (CmdSelector e)
      | Inr m \<Rightarrow> bind_res (parse_selectors rx raws) (\<lambda>ms. Inr (m # ms)))"

definition role_of_string :: "string \<Rightarrow> Role" where
  "role_of_string s =
     (if s = ''viewer'' then RoleViewer else if s = ''operator'' then RoleOperator
      else if s = ''administrator'' then RoleAdministrator else RoleOther s)"

text \<open>The kind of a subject follows from the scheme of its issuer.\<close>

definition group_kind :: "string \<Rightarrow> string" where
  "group_kind issuer =
     (case split_first ''://'' issuer of
        None \<Rightarrow> ''oidc_group''
      | Some (scheme, rest) \<Rightarrow> if scheme = ''ldap'' \<or> scheme = ''ldaps'' then ''ldap_group'' else ''oidc_group'')"

definition one_subject :: "int \<Rightarrow> string \<Rightarrow> string \<Rightarrow> cmd_error + string" where
  "one_subject userID issuer grp =
     (if 0 < userID \<and> issuer = '''' \<and> grp = '''' then Inr ''user''
      else if userID = 0 \<and> issuer \<noteq> '''' \<and> grp \<noteq> '''' then Inr (group_kind issuer)
      else Inl (CmdMessage ''set exactly one subject with --user-id or --issuer and --group''))"

text \<open>The binding that the flags describe.\<close>

definition access_binding :: "cmd_env \<Rightarrow> flag_set \<Rightarrow> cmd_error + RoleBinding" where
  "access_binding env flags =
     (let issuer = flag_string flags ''issuer''; deprecatedIssuer = flag_string flags ''oidc-issuer'';
          grp = flag_string flags ''group''; deprecatedGroup = flag_string flags ''oidc-group'' in
      if issuer \<noteq> '''' \<and> deprecatedIssuer \<noteq> '''' \<and> issuer \<noteq> deprecatedIssuer
      then Inl (CmdMessage ''--issuer and --oidc-issuer disagree; set one'')
      else if grp \<noteq> '''' \<and> deprecatedGroup \<noteq> '''' \<and> grp \<noteq> deprecatedGroup
      then Inl (CmdMessage ''--group and --oidc-group disagree; set one'')
      else
        let subjectIssuer = firstNonEmptyFlag [issuer, deprecatedIssuer];
            subjectGroup = firstNonEmptyFlag [grp, deprecatedGroup];
            userID = fs_int flags ''user-id'' in
        bind_res (one_subject userID subjectIssuer subjectGroup) (\<lambda>kind.
        bind_res (parse_selectors (cmd_rx env) (fs_repeated flags ''selector'')) (\<lambda>matchers.
        Inr \<lparr>binding_Name = flag_string flags ''name'', binding_SubjectKind = kind, binding_UserID = userID,
              binding_SubjectIssuer = subjectIssuer, binding_SubjectGroup = subjectGroup,
              binding_Role = role_of_string (flag_string flags ''role''), binding_Matchers = matchers\<rparr>)))"

definition access_set :: "cmd_env \<Rightarrow> flag_set \<Rightarrow> accounts \<Rightarrow> cmd_error + cmd_output \<times> accounts" where
  "access_set env flags a =
     bind_res (access_binding env flags) (\<lambda>binding.
     case ValidateRoleBinding (cmd_url_parse env) binding of
       Inl e \<Rightarrow> Inl (CmdAccess e)
     | Inr u \<Rightarrow> store_result CmdAccess (SetRoleBinding (cmd_url_parse env) (cmd_pg_regex env) binding a a a))"

definition runAccessCommand :: "cmd_env \<Rightarrow> string list \<Rightarrow> accounts \<Rightarrow> cmd_error + cmd_output \<times> accounts" where
  "runAccessCommand env args a =
     (case args of
        [] \<Rightarrow> Inl (CmdMessage ''usage: promview access [set|delete|inspect]'')
      | cmd # rest \<Rightarrow>
          if cmd = ''inspect'' then
            (if rest \<noteq> [] then Inl (CmdMessage ''usage: promview access inspect'')
             else Inr (Diagnosed (AuthorizationDiagnostics (cmd_strxfrm env) a), a))
          else if cmd = ''delete'' then
            bind_res (parse_flags env ''promview access delete'' rest) (\<lambda>flags.
            if flag_string flags ''name'' = '''' then Inl (CmdMessage ''--name is required'')
            else store_result CmdAccess (DeleteRoleBinding (flag_string flags ''name'') a a a))
          else if cmd = ''set'' then
            bind_res (parse_flags env ''promview access set'' rest) (\<lambda>flags. access_set env flags a)
          else Inl (CmdMessage ''usage: promview access [set|delete|inspect]''))"

section \<open>Sources\<close>

definition stale_flag :: "cmd_env \<Rightarrow> string \<Rightarrow> cmd_error + int option" where
  "stale_flag env raw =
     (case cmd_duration env raw of None \<Rightarrow> Inl CmdStaleAfter | Some d \<Rightarrow> Inr (Some d))"

definition runSourceUpdate :: "cmd_env \<Rightarrow> string list \<Rightarrow> db \<Rightarrow> cmd_error + cmd_output \<times> db" where
  "runSourceUpdate env args s =
     bind_res (parse_flags env ''promview source update'' args) (\<lambda>flags.
     if flag_string flags ''slug'' = ''''
     then Inl (CmdMessage ''usage: promview source update --slug <slug> [--name <name>] [--stale-after <duration>] [--alertmanager-url <url>] [--alertmanager-token <token>]'')
     else
       let given = (\<lambda>n. if isFlagSet flags n then Some (flag_string flags n) else None) in
       bind_res (if isFlagSet flags ''stale-after'' then stale_flag env (flag_string flags ''stale-after'') else Inr None) (\<lambda>staleAfter.
       store_result CmdStore (UpdateSource (cmd_url_parse env) (flag_string flags ''slug'')
         \<lparr>patch_Name = given ''name'', patch_StaleAfter = staleAfter, patch_AlertmanagerURL = given ''alertmanager-url'',
          patch_AlertmanagerToken = given ''alertmanager-token''\<rparr> s)))"

definition runSourceCommand :: "cmd_env \<Rightarrow> string list \<Rightarrow> db \<Rightarrow> cmd_error + cmd_output \<times> db" where
  "runSourceCommand env args s =
     (case args of
        [] \<Rightarrow> Inl (CmdMessage ''usage: promview source [set|update]'')
      | cmd # rest \<Rightarrow>
          if cmd = ''update'' then runSourceUpdate env rest s
          else if cmd \<noteq> ''set''
          then Inl (CmdMessage ''usage: promview source set --slug <slug> --name <name> --token <token> [--stale-after <duration>] [--alertmanager-url <url>] [--alertmanager-token <token>]'')
          else bind_res (parse_flags env ''promview source set'' rest) (\<lambda>flags.
            let given = (\<lambda>n. if isFlagSet flags n then Some (flag_string flags n) else None) in
            bind_res (if flag_string flags ''stale-after'' \<noteq> '''' then stale_flag env (flag_string flags ''stale-after'') else Inr None)
              (\<lambda>staleAfter.
                store_result CmdStore (SetSource (cmd_url_parse env) (cmd_sha256 env)
                  \<lparr>src_Slug = flag_string flags ''slug'', src_Name = flag_string flags ''name'', src_StaleAfter = staleAfter,
                   src_AlertmanagerURL = given ''alertmanager-url'', src_AlertmanagerToken = given ''alertmanager-token''\<rparr>
                  (flag_string flags ''token'') s))))"

section \<open>View groups\<close>

definition viewGroupUsage :: string where
  "viewGroupUsage = ''usage: promview view-group [set|delete|list|pin|unpin]''"

definition shell_administrator :: Principal where
  "shell_administrator = \<lparr>UserID = 0, Subject = '''', Email = '''', DisplayName = '''', Roles = [''administrator''], Anonymous = False,
     Grants = [\<lparr>grant_Role = RoleAdministrator, grant_Matchers = []\<rparr>], ViewGroups = []\<rparr>"

definition view_group_pin :: "cmd_env \<Rightarrow> string \<Rightarrow> string list \<Rightarrow> accounts \<Rightarrow> cmd_error + cmd_output \<times> accounts" where
  "view_group_pin env cmd rest a =
     bind_res (parse_flags env (''promview view-group '' @ cmd) rest) (\<lambda>flags.
     let name = flag_string flags ''name''; userID = fs_int flags ''user-id'';
         issuer = flag_string flags ''issuer''; grp = flag_string flags ''group'' in
     if name = '''' then Inl (CmdMessage ''--name is required'')
     else bind_res (one_subject userID issuer grp) (\<lambda>kind.
       let pin = \<lparr>pin_SubjectKind = kind, pin_UserID = userID, pin_SubjectIssuer = issuer, pin_SubjectGroup = grp\<rparr> in
       store_result CmdAccess
         (if cmd = ''pin'' then PinViewGroup (cmd_url_parse env) name pin a else UnpinViewGroup (cmd_url_parse env) name pin a)))"

definition runViewGroupCommand :: "cmd_env \<Rightarrow> string list \<Rightarrow> accounts \<Rightarrow> cmd_error + cmd_output \<times> accounts" where
  "runViewGroupCommand env args a =
     (case args of
        [] \<Rightarrow> Inl (CmdMessage viewGroupUsage)
      | cmd # rest \<Rightarrow>
          if cmd = ''list'' then
            (if rest \<noteq> [] then Inl (CmdMessage ''usage: promview view-group list'')
             else Inr (Groups (ViewGroups_of (cmd_strxfrm env) shell_administrator a), a))
          else if cmd = ''delete'' then
            bind_res (parse_flags env ''promview view-group delete'' rest) (\<lambda>flags.
            if flag_string flags ''name'' = '''' then Inl (CmdMessage ''--name is required'')
            else store_result CmdAccess (DeleteViewGroup (flag_string flags ''name'') a))
          else if cmd = ''set'' then
            bind_res (parse_flags env ''promview view-group set'' rest) (\<lambda>flags.
            bind_res (parse_selectors (cmd_rx env) (fs_repeated flags ''selector'')) (\<lambda>matchers.
            store_result CmdAccess (SetViewGroup (cmd_rx env) (cmd_pg_regex env)
              \<lparr>vg_Name = flag_string flags ''name'', vg_Description = flag_string flags ''description'', vg_Matchers = matchers\<rparr> a)))
          else if cmd = ''pin'' \<or> cmd = ''unpin'' then view_group_pin env cmd rest a
          else Inl (CmdMessage viewGroupUsage))"

section \<open>Users\<close>

text \<open>What a user command meets: the input up to its first newline or its end, \<^const>\<open>None\<close> when reading fails, the
  environment variable if it is set, random bytes and the clock.\<close>

record user_input =
  ui_stdin :: "string option"
  ui_password :: "string option"
  ui_random :: "string option"
  ui_now :: instant

definition trim_newline :: "string \<Rightarrow> string" where
  "trim_newline s = rev (dropWhile (\<lambda>c. byte c = 13 \<or> byte c = 10) (rev s))"

definition readPassword :: "user_input \<Rightarrow> bool \<Rightarrow> cmd_error + string" where
  "readPassword input fromStdin =
     (if fromStdin then (case ui_stdin input of None \<Rightarrow> Inl CmdInput | Some line \<Rightarrow> Inr (trim_newline line))
      else case ui_password input of
        Some password \<Rightarrow> Inr password
      | None \<Rightarrow> Inl (CmdMessage ''pass --password-stdin or set PROMVIEW_LOCAL_PASSWORD''))"

definition accountState :: "cmd_env \<Rightarrow> instant \<Rightarrow> LocalAccount \<Rightarrow> string" where
  "accountState env now account =
     (if \<not> la_Enabled account then ''disabled''
      else case la_LockedUntil account of
        None \<Rightarrow> ''enabled''
      | Some t \<Rightarrow> if now < t then ''locked until '' @ cmd_rfc3339 env t else ''enabled'')"

definition lastLogin :: "cmd_env \<Rightarrow> LocalAccount \<Rightarrow> string" where
  "lastLogin env account = (case la_LastLoginAt account of None \<Rightarrow> ''never'' | Some t \<Rightarrow> cmd_rfc3339 env t)"

definition user_create :: "cmd_env \<Rightarrow> local_env \<Rightarrow> user_input \<Rightarrow> string list \<Rightarrow> auth_state \<Rightarrow> cmd_error + cmd_output \<times> auth_state" where
  "user_create env le input rest s =
     bind_res (parse_flags env ''promview user create'' rest) (\<lambda>flags.
     bind_res (readPassword input (fs_bool flags ''password-stdin'')) (\<lambda>password.
     case CreateLocalAccount le (ui_random input) (ui_now input)
         \<lparr>la_UserID = 0, la_Username = flag_string flags ''username'', la_Email = flag_string flags ''email'',
          la_DisplayName = flag_string flags ''display-name'', la_Enabled = False, la_LockedUntil = None, la_LastLoginAt = None\<rparr>
         password s of
       Inl e \<Rightarrow> Inl (CmdAccess e)
     | Inr (userID, s') \<Rightarrow> Inr (Created userID, s')))"

definition runUserCommand :: "cmd_env \<Rightarrow> local_env \<Rightarrow> user_input \<Rightarrow> string list \<Rightarrow> auth_state \<Rightarrow> cmd_error + cmd_output \<times> auth_state" where
  "runUserCommand env le input args s =
     (case args of
        [] \<Rightarrow> Inl (CmdMessage ''usage: promview user [create|set-password|unlock|enable|disable|list]'')
      | cmd # rest \<Rightarrow>
          if cmd = ''create'' then user_create env le input rest s
          else if cmd = ''set-password'' then
            bind_res (parse_flags env ''promview user set-password'' rest) (\<lambda>flags.
            bind_res (readPassword input (fs_bool flags ''password-stdin'')) (\<lambda>password.
            store_result CmdAccess (SetLocalPassword le (ui_random input) (ui_now input) (flag_string flags ''username'') password s)))
          else if cmd = ''unlock'' then
            bind_res (parse_flags env ''promview user unlock'' rest) (\<lambda>flags.
            store_result CmdAccess (UnlockLocalAccount le (flag_string flags ''username'') s))
          else if cmd = ''enable'' \<or> cmd = ''disable'' then
            bind_res (parse_flags env (''promview user '' @ cmd) rest) (\<lambda>flags.
            store_result CmdAccess (SetLocalAccountEnabled le (flag_string flags ''username'') (cmd = ''enable'') s))
          else if cmd = ''list'' then
            Inr (Accounts (map (\<lambda>account. (la_UserID account, la_Username account, accountState env (ui_now input) account, lastLogin env account))
              (ListLocalAccounts le (cmd_strxfrm env) s)), s)
          else Inl (CmdMessage (''unknown user command '' @ cmd_quote env cmd)))"

section \<open>Specification\<close>

text \<open>The body of a request that asks for what the flags of \<open>access set\<close> ask for.\<close>

definition access_wire :: "flag_set \<Rightarrow> string \<Rightarrow> LabelMatcher list \<Rightarrow> binding_wire" where
  "access_wire flags kind matchers =
     \<lparr>binding_Name = flag_string flags ''name'', binding_SubjectKind = kind, binding_UserID = fs_int flags ''user-id'',
      binding_SubjectIssuer = flag_string flags ''issuer'', binding_SubjectGroup = flag_string flags ''group'',
      binding_Role = role_of_string (flag_string flags ''role''), binding_Matchers = matchers,
      wire_OIDCIssuer = flag_string flags ''oidc-issuer'', wire_OIDCGroup = flag_string flags ''oidc-group''\<rparr>"

definition sample_flags :: flag_set where
  "sample_flags =
     \<lparr>fs_given = (\<lambda>n. if n = ''name'' then Some ''web'' else if n = ''role'' then Some ''operator'' else None),
      fs_int = (\<lambda>n. 7), fs_bool = (\<lambda>n. False), fs_repeated = (\<lambda>n. [''team=web''])\<rparr>"

definition sample_cmd_env :: cmd_env where
  "sample_cmd_env =
     \<lparr>cmd_parse = (\<lambda>n args. Some sample_flags), cmd_rx = (\<lambda>p v. None), cmd_url_parse = (\<lambda>u. None), cmd_pg_regex = (\<lambda>p. True),
      cmd_strxfrm = id, cmd_sha256 = id, cmd_duration = (\<lambda>d. None), cmd_rfc3339 = FormatInt, cmd_quote = id\<rparr>"

section \<open>Lemmas\<close>

lemma firstNonEmptyFlag_eq: "firstNonEmptyFlag vs = firstNonEmpty vs"
  by (induction vs) simp_all

lemma store_result_Inr: "store_result wrap result = Inr (out, s') \<longleftrightarrow> out = Silent \<and> result = Inr s'"
  by (auto simp: store_result_def split: sum.splits)

text \<open>The commands on the access tables are steps of the store.\<close>

lemma access_set_Inr:
  assumes "access_set env flags a = Inr (out, a')"
  shows "\<exists>binding. SetRoleBinding (cmd_url_parse env) (cmd_pg_regex env) binding a a a = Inr a'"
proof -
  obtain binding where
    "(case ValidateRoleBinding (cmd_url_parse env) binding of
        Inl e \<Rightarrow> Inl (CmdAccess e)
      | Inr u \<Rightarrow> store_result CmdAccess (SetRoleBinding (cmd_url_parse env) (cmd_pg_regex env) binding a a a)) = Inr (out, a')"
    using assms by (auto simp: access_set_def bind_res_Inr)
  then show ?thesis by (cases "ValidateRoleBinding (cmd_url_parse env) binding") (auto simp: store_result_Inr)
qed

lemma access_command_steps:
  assumes "runAccessCommand env args a = Inr (out, a')"
  shows "a' = a \<or> access_step (cmd_url_parse env) (cmd_pg_regex env) lower a a'"
  using assms
  by (auto simp: runAccessCommand_def bind_res_Inr store_result_Inr
      split: list.splits if_splits dest!: access_set_Inr intro: access_step.intros)

lemma view_group_pin_steps:
  assumes "view_group_pin env cmd rest a = Inr (out, a')"
  shows "view_step (cmd_rx env) (cmd_url_parse env) (cmd_pg_regex env) a a'"
  using assms
  by (auto simp only: view_group_pin_def Let_def bind_res_Inr store_result_Inr split: if_splits intro: view_step.intros)

lemma view_group_command_steps:
  assumes "runViewGroupCommand env args a = Inr (out, a')"
  shows "a' = a \<or> view_step (cmd_rx env) (cmd_url_parse env) (cmd_pg_regex env) a a'"
proof (cases args)
  case (Cons cmd rest)
  note run = assms [unfolded Cons runViewGroupCommand_def list.case]
  consider (ls) "cmd = ''list''" | (del) "cmd = ''delete''" | (put) "cmd = ''set''" | (pins) "cmd = ''pin'' \<or> cmd = ''unpin''"
    using run by (auto split: if_split_asm)
  then show ?thesis
  proof cases
    case ls
    then show ?thesis using run by (simp split: if_split_asm)
  next
    case del
    then show ?thesis using run by (auto simp: bind_res_Inr store_result_Inr intro: view_step.intros split: if_split_asm)
  next
    case put
    then show ?thesis using run by (auto simp: bind_res_Inr store_result_Inr intro: view_step.intros)
  next
    case pins
    then have "view_group_pin env cmd rest a = Inr (out, a')" using run by auto
    then show ?thesis using view_group_pin_steps by blast
  qed
qed (use assms in \<open>simp add: runViewGroupCommand_def\<close>)

text \<open>The commands on sources keep the constraints of the database, and change no alert.\<close>

lemma source_command_ok:
  assumes "runSourceCommand env args s = Inr (out, s')" "db_ok s"
  shows "db_ok s'"
  using assms
  by (auto simp: runSourceCommand_def runSourceUpdate_def Let_def bind_res_Inr store_result_Inr
      split: list.splits if_splits intro: SetSource_ok UpdateSource_ok)

lemma shell_keeps:
  assumes "accounts_ok a" "view_groups_ok a"
  shows "runAccessCommand env args a = Inr (out, a') \<Longrightarrow>
      accounts_ok a' \<and> (administrators a \<noteq> [] \<longrightarrow> administrators a' \<noteq> [])"
    "runViewGroupCommand env args a = Inr (out, a') \<Longrightarrow> accounts_ok a' \<and> view_groups_ok a' \<and> same_authority a' a"
proof -
  show "accounts_ok a' \<and> (administrators a \<noteq> [] \<longrightarrow> administrators a' \<noteq> [])" if "runAccessCommand env args a = Inr (out, a')"
    using access_command_steps [OF that, of id] assms(1)
    by (auto dest: set_keeps delete_keeps sign_in_keeps elim!: access_step.cases)
  show "accounts_ok a' \<and> view_groups_ok a' \<and> same_authority a' a" if "runViewGroupCommand env args a = Inr (out, a')"
    using view_group_command_steps [OF that] assms view_step_keeps view_step_accounts_ok(1)
    by (auto simp: same_authority_def)
qed

section \<open>Properties\<close>

text \<open>C30: the shell and the HTTP API administer alike. For flags of \<open>access set\<close> that name one subject and whose selectors
  parse, the command and an administrator's request with the same fields, the deprecated spellings included, leave
  the same tables behind: both store the binding, or both refuse and change nothing.\<close>

theorem access_set_matches_put:
  assumes "parse_flags env ''promview access set'' rest = Inr flags"
    "one_subject (fs_int flags ''user-id'') (firstNonEmptyFlag [flag_string flags ''issuer'', flag_string flags ''oidc-issuer''])
       (firstNonEmptyFlag [flag_string flags ''group'', flag_string flags ''oidc-group'']) = Inr kind"
    "parse_selectors (cmd_rx env) (fs_repeated flags ''selector'') = Inr matchers"
    "accessGate adm r True = Inr caller" "req_path r ''name'' = flag_string flags ''name''"
    "adm_url_parse adm = cmd_url_parse env" "adm_pg_regex adm = cmd_pg_regex env"
  shows "case runAccessCommand env (''set'' # rest) a of
      Inl e \<Rightarrow> fst (setRoleBinding adm r (BodyValue (access_wire flags kind matchers) False) a) = a
    | Inr (out, a') \<Rightarrow> \<exists>binding. setRoleBinding adm r (BodyValue (access_wire flags kind matchers) False) a =
        (a', Reply 200 (BindingPayload binding))"
proof -
  define binding where "binding = \<lparr>binding_Name = flag_string flags ''name'', binding_SubjectKind = kind,
    binding_UserID = fs_int flags ''user-id'',
    binding_SubjectIssuer = firstNonEmpty [flag_string flags ''issuer'', flag_string flags ''oidc-issuer''],
    binding_SubjectGroup = firstNonEmpty [flag_string flags ''group'', flag_string flags ''oidc-group''],
    binding_Role = role_of_string (flag_string flags ''role''), binding_Matchers = matchers\<rparr>"
  have command: "runAccessCommand env (''set'' # rest) a = access_set env flags a"
    using assms(1) by (simp add: runAccessCommand_def)
  have named: "binding\<lparr>binding_Name := flag_string flags ''name''\<rparr> = binding" "binding_Name binding = flag_string flags ''name''"
    by (simp_all add: binding_def)
  show ?thesis
  proof (cases "binding_of_wire (access_wire flags kind matchers)")
    case (Inl e)
    then have "\<exists>e. access_set env flags a = Inl e"
      by (auto simp: access_set_def access_binding_def binding_of_wire_def access_wire_def Let_def split: if_splits)
    moreover have "fst (setRoleBinding adm r (BodyValue (access_wire flags kind matchers) False) a) = a"
      using assms(4) Inl by (simp add: setRoleBinding_def decodeStrict_def Let_def)
    ultimately show ?thesis by (auto simp: command)
  next
    case (Inr b)
    then have b: "b = binding" by (auto simp: binding_of_wire_def access_wire_def Let_def binding_def split: if_splits)
    have "flag_string flags ''oidc-issuer'' = [] \<or> flag_string flags ''issuer'' \<in> {[], flag_string flags ''oidc-issuer''}"
      "flag_string flags ''oidc-group'' = [] \<or> flag_string flags ''group'' \<in> {[], flag_string flags ''oidc-group''}"
      using Inr by (auto simp: binding_of_wire_def access_wire_def Let_def split: if_split_asm)
    then have "access_binding env flags = Inr binding"
      using assms(2,3) unfolding binding_def firstNonEmptyFlag_eq [symmetric]
      by (auto simp: access_binding_def Let_def simp del: firstNonEmptyFlag.simps)
    then have agree: "access_set env flags a =
        (case ValidateRoleBinding (cmd_url_parse env) binding of
           Inl e \<Rightarrow> Inl (CmdAccess e)
         | Inr u \<Rightarrow> store_result CmdAccess (SetRoleBinding (cmd_url_parse env) (cmd_pg_regex env) binding a a a))"
      by (simp add: access_set_def)
    have refused: "ValidateRoleBinding (cmd_url_parse env) binding = Inl e \<Longrightarrow>
        SetRoleBinding (cmd_url_parse env) (cmd_pg_regex env) binding a a a = Inl e" for e
      by (simp add: SetRoleBinding_def bind_res_def)
    have unnamed: "flag_string flags ''name'' = [] \<Longrightarrow> \<exists>e. ValidateRoleBinding (cmd_url_parse env) binding = Inl e"
      by (auto simp: ValidateRoleBinding_def validateRoleBinding_def named(2) slug_pattern_nonempty split: sum.splits)
    have request: "setRoleBinding adm r (BodyValue (access_wire flags kind matchers) False) a =
        (if flag_string flags ''name'' = [] then (a, Fail 400 (Message ''binding name is required''))
         else admin_commit (writeAccessError adm ''set role binding'') (Reply 200 (BindingPayload binding)) a
           (SetRoleBinding (cmd_url_parse env) (cmd_pg_regex env) binding a a a))"
      using assms(4-7) Inr by (simp add: setRoleBinding_def decodeStrict_def Let_def b named)
    show ?thesis
      unfolding command agree request using refused unnamed
      by (auto simp: admin_commit_def store_result_def split: sum.splits)
  qed
qed

theorem access_set_matches_put_witness:
  "\<exists>binding a'. setRoleBinding sample_admin_env (sample_admin_request\<lparr>req_principal := Some sample_admin\<rparr>)
      (BodyValue (access_wire sample_flags ''user'' [\<lparr>matcher_Name = ''team'', matcher_Operator = ''='', matcher_Value = ''web''\<rparr>]) False)
      sample_accounts = (a', Reply 200 (BindingPayload binding)) \<and> a' \<noteq> sample_accounts"
proof -
  let ?ms = "[\<lparr>matcher_Name = ''team'', matcher_Operator = ''='', matcher_Value = ''web''\<rparr>]"
  let ?r = "sample_admin_request\<lparr>req_principal := Some sample_admin\<rparr>"
  have flags: "parse_flags sample_cmd_env ''promview access set'' [] = Inr sample_flags"
    by (simp add: parse_flags_def sample_cmd_env_def)
  have subject: "one_subject (fs_int sample_flags ''user-id'')
      (firstNonEmptyFlag [flag_string sample_flags ''issuer'', flag_string sample_flags ''oidc-issuer''])
      (firstNonEmptyFlag [flag_string sample_flags ''group'', flag_string sample_flags ''oidc-group'']) = Inr ''user''"
    by (simp add: sample_flags_def flag_string_def one_subject_def)
  have selectors: "parse_selectors (cmd_rx sample_cmd_env) (fs_repeated sample_flags ''selector'') = Inr ?ms"
    by (simp add: sample_flags_def sample_cmd_env_def) code_simp
  have gate: "accessGate sample_admin_env ?r True = Inr sample_admin"
    by (simp add: accessGate_def sample_admin_request_def sample_admin_def CanAdminister_def sample_admin_env_def
        validMutationOrigin_def request_cookie_def)
  have path: "req_path ?r ''name'' = flag_string sample_flags ''name''" "adm_url_parse sample_admin_env = cmd_url_parse sample_cmd_env"
    "adm_pg_regex sample_admin_env = cmd_pg_regex sample_cmd_env"
    by (simp_all add: sample_admin_request_def sample_flags_def flag_string_def sample_admin_env_def sample_cmd_env_def)
  have "access_binding sample_cmd_env sample_flags = Inr sample_binding"
    using subject selectors
    by (simp add: access_binding_def flag_string_def sample_flags_def sample_binding_def role_of_string_def Let_def)
  moreover have "ValidateRoleBinding (cmd_url_parse sample_cmd_env) sample_binding = Inr ()"
    using sample_binding_set [of "cmd_url_parse sample_cmd_env" "cmd_pg_regex sample_cmd_env"]
    by (cases "ValidateRoleBinding (cmd_url_parse sample_cmd_env) sample_binding") (simp_all add: SetRoleBinding_def)
  ultimately have "runAccessCommand sample_cmd_env [''set''] sample_accounts = Inr (Silent, put_binding sample_binding sample_accounts)"
    using flags by (simp add: runAccessCommand_def access_set_def store_result_def sample_binding_set)
  moreover have "put_binding sample_binding sample_accounts \<noteq> sample_accounts"
    by (simp add: put_binding_def sample_accounts_def sample_binding_def)
  ultimately show ?thesis
    using access_set_matches_put [OF flags subject selectors gate path, of sample_accounts] by auto
qed

end
