(* ===== verification/Directories.thy ===== *)
theory Directories
  imports Accounts Http
begin

text \<open>
  The directories that vouch for somebody: LDAP, search-then-bind (\<open>internal/auth/ldap.go\<close>), and the
  exchange with a discovered OIDC provider (\<open>internal/auth/oidc.go\<close>).

  What the LDAP directory answers is a record of functions: whether it can be reached, whether a bind
  is accepted, refused or gets no answer, and what a search finds for whoever is bound; each search names who that is. Everything of
  the libraries is another record: \<open>ldap.EscapeFilter\<close>, \<open>ldap.ParseDN\<close> (the attributes of each
  relative name), \<open>fmt.Sprintf\<close> with one argument, \<open>strings.ToLower\<close> and \<open>strings.EqualFold\<close>.
  Connections, TLS and time limits are not modelled beyond their being asked for.
\<close>

section \<open>LDAP\<close>

record LDAPConfig =
  ldap_URL :: string
  ldap_Issuer :: string
  ldap_BindDN :: string
  ldap_BindPassword :: string
  ldap_BaseDN :: string
  ldap_UserFilter :: string
  ldap_GroupAttribute :: string
  ldap_GroupBaseDN :: string
  ldap_GroupFilter :: string
  ldap_GroupNameAttribute :: string
  ldap_GroupFormat :: string
  ldap_UsernameAttr :: string
  ldap_EmailAttr :: string
  ldap_DisplayNameAttr :: string
  ldap_Timeout :: int

record ldap_entry =
  entry_DN :: string
  entry_attributes :: "string \<Rightarrow> string list"

definition GetAttributeValue :: "ldap_entry \<Rightarrow> string \<Rightarrow> string" where
  "GetAttributeValue entry name = (case entry_attributes entry name of [] \<Rightarrow> '''' | v # vs \<Rightarrow> v)"

record SearchRequest =
  sr_BaseDN :: string
  sr_SizeLimit :: int
  sr_TimeLimit :: int
  sr_Filter :: string
  sr_Attributes :: "string list"

text \<open>A bind returns nil, the error of a directory that refused it, or any other error: the connection lost, a time limit, a
  directory that is busy.\<close>

datatype bind_answer = BindAccepted | BindRefused | BindLost

record ldap_server =
  srv_dial :: bool
  srv_bind :: "string \<Rightarrow> string \<Rightarrow> bind_answer"
  srv_search :: "string \<Rightarrow> SearchRequest \<Rightarrow> ldap_entry list option"

record ldap_library =
  lib_escape :: "string \<Rightarrow> string"
  lib_parse_dn :: "string \<Rightarrow> (string \<times> string) list list option"
  lib_sprintf :: "string \<Rightarrow> string \<Rightarrow> string"
  lib_to_lower :: "string \<Rightarrow> string"
  lib_equal_fold :: "string \<Rightarrow> string \<Rightarrow> bool"

definition LDAPGroupFormatCN :: string where
  "LDAPGroupFormatCN = ''cn''"

definition LDAPGroupFormatDN :: string where
  "LDAPGroupFormatDN = ''dn''"

definition defaulted :: "string \<Rightarrow> string \<Rightarrow> string" where
  "defaulted v d = (if v = '''' then d else v)"

definition NewLDAPDirectory :: "LDAPConfig \<Rightarrow> string + LDAPConfig" where
  "NewLDAPDirectory config =
     (if ldap_URL config = '''' \<or> ldap_BaseDN config = '''' \<or> ldap_UserFilter config = ''''
      then Inl ''LDAP URL, base DN and user filter are required''
      else if \<not> contains (ldap_UserFilter config) ''%s'' then Inl ''LDAP user filter must contain %s for the username''
      else
        let config = config\<lparr>ldap_Issuer := defaulted (ldap_Issuer config) (ldap_URL config),
              ldap_GroupAttribute := defaulted (ldap_GroupAttribute config) ''memberOf'',
              ldap_GroupFormat := defaulted (ldap_GroupFormat config) LDAPGroupFormatCN,
              ldap_GroupFilter := defaulted (ldap_GroupFilter config) ''(member=%s)'',
              ldap_GroupNameAttribute := defaulted (ldap_GroupNameAttribute config) ''cn''\<rparr>
        in if ldap_GroupBaseDN config \<noteq> '''' \<and> \<not> contains (ldap_GroupFilter config) ''%s''
           then Inl ''LDAP group filter must contain %s for the user DN''
           else Inr (config\<lparr>ldap_UsernameAttr := defaulted (ldap_UsernameAttr config) ''uid'',
                  ldap_EmailAttr := defaulted (ldap_EmailAttr config) ''mail'',
                  ldap_DisplayNameAttr := defaulted (ldap_DisplayNameAttr config) ''cn'',
                  ldap_Timeout := (if ldap_Timeout config \<le> 0 then 10 else ldap_Timeout config)\<rparr>))"

text \<open>The loops that keep the first of each non-empty name.\<close>

fun first_names :: "string set \<Rightarrow> string list \<Rightarrow> string list" where
  "first_names seen [] = []"
| "first_names seen (name # names) =
     (if name = '''' \<or> name \<in> seen then first_names seen names
      else name # first_names (insert name seen) names)"

definition mergeGroups :: "string list list \<Rightarrow> string list" where
  "mergeGroups groups = first_names {} (concat groups)"

definition ldap_attributes :: "LDAPConfig \<Rightarrow> string list" where
  "ldap_attributes config =
     first_names {} [ldap_UsernameAttr config, ldap_EmailAttr config, ldap_DisplayNameAttr config,
       ldap_GroupAttribute config, ''entryUUID'', ''objectGUID'']"

definition commonNameOf :: "ldap_library \<Rightarrow> string \<Rightarrow> string" where
  "commonNameOf lib v =
     (case lib_parse_dn lib v of
        None \<Rightarrow> v
      | Some [] \<Rightarrow> v
      | Some (rdn # rdns) \<Rightarrow>
          (case find (\<lambda>(t, x). lib_equal_fold lib t ''cn'') rdn of None \<Rightarrow> v | Some (t, x) \<Rightarrow> x))"

definition group_name :: "ldap_library \<Rightarrow> string \<Rightarrow> string" where
  "group_name lib name = lib_to_lower lib (TrimSpace name)"

definition groupsFrom :: "ldap_library \<Rightarrow> LDAPConfig \<Rightarrow> ldap_entry \<Rightarrow> string list" where
  "groupsFrom lib config entry =
     first_names {} (map (\<lambda>v. group_name lib (if ldap_GroupFormat config = LDAPGroupFormatCN then commonNameOf lib v else v))
       (entry_attributes entry (ldap_GroupAttribute config)))"

definition identityFrom :: "ldap_library \<Rightarrow> LDAPConfig \<Rightarrow> ldap_entry \<Rightarrow> DirectoryIdentity" where
  "identityFrom lib config entry =
     (let subject = GetAttributeValue entry ''entryUUID'';
          subject = (if subject = '''' then GetAttributeValue entry ''objectGUID'' else subject);
          subject = (if subject = '''' then entry_DN entry else subject);
          displayName = GetAttributeValue entry (ldap_DisplayNameAttr config);
          username = GetAttributeValue entry (ldap_UsernameAttr config);
          displayName = (if displayName = '''' then username else displayName)
      in \<lparr>dir_Issuer = ldap_Issuer config, dir_Subject = subject, dir_Username = username,
          dir_Email = GetAttributeValue entry (ldap_EmailAttr config), dir_DisplayName = displayName,
          dir_Groups = groupsFrom lib config entry\<rparr>)"

definition user_search :: "ldap_library \<Rightarrow> LDAPConfig \<Rightarrow> string \<Rightarrow> SearchRequest" where
  "user_search lib config username =
     \<lparr>sr_BaseDN = ldap_BaseDN config, sr_SizeLimit = 2, sr_TimeLimit = ldap_Timeout config,
      sr_Filter = lib_sprintf lib (ldap_UserFilter config) (lib_escape lib username),
      sr_Attributes = ldap_attributes config\<rparr>"

definition unavailable :: "string \<Rightarrow> access_error" where
  "unavailable detail = AccessMessage (''directory is unavailable: '' @ detail)"

definition searchUser ::
  "ldap_library \<Rightarrow> LDAPConfig \<Rightarrow> ldap_server \<Rightarrow> string \<Rightarrow> string \<Rightarrow> access_error + ldap_entry" where
  "searchUser lib config server bound username =
     (case srv_search server bound (user_search lib config username) of
        None \<Rightarrow> Inl (unavailable ''user search failed'')
      | Some [entry] \<Rightarrow> Inr entry
      | Some [] \<Rightarrow> Inl InvalidCredentials
      | Some entries \<Rightarrow> Inl (unavailable ''user filter matched more than one entry''))"

definition searchGroups ::
  "ldap_library \<Rightarrow> LDAPConfig \<Rightarrow> ldap_server \<Rightarrow> string \<Rightarrow> string \<Rightarrow> access_error + string list" where
  "searchGroups lib config server bound userDN =
     (case srv_search server bound
          \<lparr>sr_BaseDN = ldap_GroupBaseDN config, sr_SizeLimit = 0, sr_TimeLimit = ldap_Timeout config,
           sr_Filter = lib_sprintf lib (ldap_GroupFilter config) (lib_escape lib userDN),
           sr_Attributes = [ldap_GroupNameAttribute config]\<rparr> of
        None \<Rightarrow> Inl (unavailable ''group search failed'')
      | Some entries \<Rightarrow>
          Inr (filter (\<lambda>n. n \<noteq> '''')
            (map (\<lambda>entry. group_name lib (if ldap_GroupFormat config = LDAPGroupFormatDN then entry_DN entry
                else GetAttributeValue entry (ldap_GroupNameAttribute config))) entries)))"

text \<open>\<open>LDAPDirectory.Verify\<close>. The connection is bound as the service account until the password is
  checked, which is the last bind.\<close>

definition ldap_Verify ::
  "ldap_library \<Rightarrow> LDAPConfig \<Rightarrow> ldap_server \<Rightarrow> string \<Rightarrow> string \<Rightarrow> access_error + DirectoryIdentity" where
  "ldap_Verify lib config server username password =
     (if password = '''' \<or> TrimSpace username = '''' then Inl InvalidCredentials
      else if \<not> srv_dial server then Inl (unavailable ''dial'')
      else if srv_bind server (ldap_BindDN config) (ldap_BindPassword config) \<noteq> BindAccepted then Inl (unavailable ''service bind failed'')
      else bind_res (searchUser lib config server (ldap_BindDN config) username) (\<lambda>entry.
        let identity = identityFrom lib config entry in
        bind_res
          (if ldap_GroupBaseDN config = '''' then Inr identity
           else bind_res (searchGroups lib config server (ldap_BindDN config) (entry_DN entry)) (\<lambda>found.
             Inr (identity\<lparr>dir_Groups := mergeGroups [dir_Groups identity, found]\<rparr>)))
          (\<lambda>identity.
            if srv_bind server (entry_DN entry) password \<noteq> BindAccepted then Inl InvalidCredentials else Inr identity)))"

section \<open>OIDC\<close>

text \<open>A claim as the JSON of an ID token has it.\<close>

datatype claim = ClaimNull | ClaimString string | ClaimArray "claim list" | ClaimOther

text \<open>Decoding into a string: \<open>null\<close> leaves it empty.\<close>

definition claim_string :: "claim \<Rightarrow> string option" where
  "claim_string c = (case c of ClaimNull \<Rightarrow> Some '''' | ClaimString s \<Rightarrow> Some s | _ \<Rightarrow> None)"

definition stringClaim :: "(string \<rightharpoonup> claim) \<Rightarrow> string \<Rightarrow> string" where
  "stringClaim claims name =
     (case claims name of None \<Rightarrow> ''''
      | Some c \<Rightarrow> (case claim_string c of None \<Rightarrow> '''' | Some s \<Rightarrow> s))"

fun all_strings :: "claim list \<Rightarrow> string list option" where
  "all_strings [] = Some []"
| "all_strings (c # cs) =
     (case (claim_string c, all_strings cs) of (Some s, Some ss) \<Rightarrow> Some (s # ss) | _ \<Rightarrow> None)"

definition claim_strings :: "claim \<Rightarrow> string list option" where
  "claim_strings c = (case c of ClaimNull \<Rightarrow> Some [] | ClaimArray cs \<Rightarrow> all_strings cs | _ \<Rightarrow> None)"

definition stringsClaim :: "(string \<rightharpoonup> claim) \<Rightarrow> string \<Rightarrow> string list" where
  "stringsClaim claims name =
     (case Option.bind (claims name) claim_strings of
        Some vs \<Rightarrow> vs
      | None \<Rightarrow> (let v = stringClaim claims name in if v \<noteq> '''' then [v] else []))"

record id_token =
  tok_Issuer :: string
  tok_Subject :: string
  tok_Claims :: "(string \<rightharpoonup> claim) option"

record oidc_provider =
  oidc_token :: "string \<Rightarrow> string \<Rightarrow> string option option"
  oidc_verify :: "string \<Rightarrow> id_token option"
  oidc_usernameClaim :: string
  oidc_emailClaim :: string
  oidc_displayNameClaim :: string
  oidc_groupsClaim :: string

text \<open>\<open>discoveredOIDCProvider.Exchange\<close>: \<open>oidc_token\<close> is the token endpoint, which fails or answers
  with or without an ID token, \<open>oidc_verify\<close> the verification of its signature, issuer and audience.\<close>

definition oidc_Exchange :: "oidc_provider \<Rightarrow> string \<Rightarrow> string \<Rightarrow> (DirectoryIdentity \<times> string) option" where
  "oidc_Exchange provider code verifier =
     (case oidc_token provider code verifier of
        None \<Rightarrow> None
      | Some None \<Rightarrow> None
      | Some (Some raw) \<Rightarrow>
          if raw = '''' then None
          else (case oidc_verify provider raw of
            None \<Rightarrow> None
          | Some token \<Rightarrow>
              (case tok_Claims token of
                 None \<Rightarrow> None
               | Some claims \<Rightarrow>
                   let nonce = stringClaim claims ''nonce'' in
                   if nonce = '''' then None
                   else Some (\<lparr>dir_Issuer = tok_Issuer token, dir_Subject = tok_Subject token,
                     dir_Username = stringClaim claims (oidc_usernameClaim provider),
                     dir_Email = stringClaim claims (oidc_emailClaim provider),
                     dir_DisplayName = stringClaim claims (oidc_displayNameClaim provider),
                     dir_Groups = stringsClaim claims (oidc_groupsClaim provider)\<rparr>, nonce))))"

section \<open>Samples\<close>

definition sample_ldap :: LDAPConfig where
  "sample_ldap = \<lparr>ldap_URL = ''ldaps://d'', ldap_Issuer = ''ldaps://d'', ldap_BindDN = ''cn=svc'', ldap_BindPassword = ''s'',
     ldap_BaseDN = ''dc=x'', ldap_UserFilter = ''(uid=%s)'', ldap_GroupAttribute = ''memberOf'', ldap_GroupBaseDN = [],
     ldap_GroupFilter = ''(member=%s)'', ldap_GroupNameAttribute = ''cn'', ldap_GroupFormat = ''cn'', ldap_UsernameAttr = ''uid'',
     ldap_EmailAttr = ''mail'', ldap_DisplayNameAttr = ''cn'', ldap_Timeout = 10\<rparr>"

definition sample_library :: ldap_library where
  "sample_library = \<lparr>lib_escape = (\<lambda>u. u), lib_parse_dn = (\<lambda>v. None), lib_sprintf = (\<lambda>f u. u), lib_to_lower = (\<lambda>n. n),
     lib_equal_fold = (\<lambda>x y. x = y)\<rparr>"

definition sample_server :: ldap_server where
  "sample_server = \<lparr>srv_dial = True, srv_bind = (\<lambda>dn pw. if (dn, pw) \<in> {(''cn=svc'', ''s''), (''uid=bob'', ''pw'')} then BindAccepted else BindRefused),
     srv_search = (\<lambda>bound r. Some [\<lparr>entry_DN = ''uid=bob'',
       entry_attributes = (\<lambda>n. if n = ''uid'' then [''bob''] else if n = ''memberOf'' then [''sre'', '' sre ''] else [])\<rparr>])\<rparr>"

section \<open>Lemmas\<close>

lemma first_names_spec:
  "distinct (first_names seen names)" "set (first_names seen names) = set names - seen - {[]}"
  by (induction seen names rule: first_names.induct) auto

lemma ldap_Verify_Inr:
  assumes "ldap_Verify lib config server username password = Inr identity"
  obtains entry where "password \<noteq> []" "TrimSpace username \<noteq> []" "srv_dial server"
    "srv_bind server (ldap_BindDN config) (ldap_BindPassword config) = BindAccepted"
    "srv_search server (ldap_BindDN config) (user_search lib config username) = Some [entry]"
    "srv_bind server (entry_DN entry) password = BindAccepted"
    "ldap_GroupBaseDN config = [] \<Longrightarrow> identity = identityFrom lib config entry"
    "ldap_GroupBaseDN config \<noteq> [] \<Longrightarrow> \<exists>found. searchGroups lib config server (ldap_BindDN config) (entry_DN entry) = Inr found \<and>
       identity = (identityFrom lib config entry)\<lparr>dir_Groups := mergeGroups [dir_Groups (identityFrom lib config entry), found]\<rparr>"
proof -
  obtain entry where e: "searchUser lib config server (ldap_BindDN config) username = Inr entry"
    "password \<noteq> []" "TrimSpace username \<noteq> []" "srv_dial server" "srv_bind server (ldap_BindDN config) (ldap_BindPassword config) = BindAccepted"
    using assms by (auto simp: ldap_Verify_def bind_res_Inr split: if_splits)
  have "srv_search server (ldap_BindDN config) (user_search lib config username) = Some [entry]"
    using e(1) by (auto simp: searchUser_def split: option.splits list.splits)
  moreover have "srv_bind server (entry_DN entry) password = BindAccepted \<and>
      (if ldap_GroupBaseDN config = [] then identity = identityFrom lib config entry
       else \<exists>found. searchGroups lib config server (ldap_BindDN config) (entry_DN entry) = Inr found \<and>
         identity = (identityFrom lib config entry)\<lparr>dir_Groups := mergeGroups [dir_Groups (identityFrom lib config entry), found]\<rparr>)"
    using assms e by (auto simp: ldap_Verify_def bind_res_Inr Let_def split: if_splits)
  ultimately show thesis using that e by (auto split: if_splits)
qed

lemma bind_not_accepted: "b \<noteq> BindAccepted \<longleftrightarrow> b \<in> {BindRefused, BindLost}"
  by (cases b) simp_all

lemma ldap_Verify_Inl:
  assumes "ldap_Verify lib config server username password = Inl e"
  shows "e = InvalidCredentials \<longleftrightarrow> password = [] \<or> TrimSpace username = [] \<or>
        srv_dial server \<and> srv_bind server (ldap_BindDN config) (ldap_BindPassword config) = BindAccepted \<and>
        (srv_search server (ldap_BindDN config) (user_search lib config username) = Some [] \<or>
         (\<exists>entry. srv_search server (ldap_BindDN config) (user_search lib config username) = Some [entry] \<and>
            (ldap_GroupBaseDN config = [] \<or>
             (\<exists>found. searchGroups lib config server (ldap_BindDN config) (entry_DN entry) = Inr found)) \<and>
            srv_bind server (entry_DN entry) password \<in> {BindRefused, BindLost}))"
proof (cases "searchUser lib config server (ldap_BindDN config) username")
  case (Inl f)
  then show ?thesis
    using assms by (auto simp: ldap_Verify_def searchUser_def unavailable_def split: if_splits option.splits list.splits)
next
  case (Inr entry)
  then have one: "srv_search server (ldap_BindDN config) (user_search lib config username) = Some [entry]"
    by (auto simp: searchUser_def split: option.splits list.splits)
  have groups: "searchGroups lib config server bound dn = Inl g \<Longrightarrow> g \<noteq> InvalidCredentials" for bound dn g
    by (auto simp: searchGroups_def unavailable_def split: option.splits)
  show ?thesis
    using assms Inr one groups unfolding bind_not_accepted [symmetric]
    by (cases "searchGroups lib config server (ldap_BindDN config) (entry_DN entry)")
      (auto simp: ldap_Verify_def unavailable_def Let_def split: if_splits)
qed

lemma identityFrom_fields:
  "dir_Issuer (identityFrom lib config entry) = ldap_Issuer config"
  "entry_DN entry \<noteq> [] \<Longrightarrow> dir_Subject (identityFrom lib config entry) \<noteq> []"
  "distinct (dir_Groups (identityFrom lib config entry))" "[] \<notin> set (dir_Groups (identityFrom lib config entry))"
  by (simp_all add: identityFrom_def Let_def groupsFrom_def first_names_spec)

section \<open>Properties\<close>

text \<open>C40: signing in with LDAP. An identity is returned only for a password that is not empty: the
  service account could bind and found exactly one entry for the escaped username, and the directory
  accepted the password for that entry; the identity is that entry's, under the configured issuer, with
  each group once. The credentials are called wrong exactly when the password or the username is empty, no entry matches, or the
  directory answered everything up to the last bind and that bind was not accepted, be it refused or left without an answer. So a
  directory that cannot be reached, searched or bound to by the service account is never a wrong password, but one that is lost at the
  last bind is.\<close>

theorem ldap_sign_in:
  "case ldap_Verify lib config server username password of
      Inr identity \<Rightarrow> password \<noteq> [] \<and> srv_bind server (ldap_BindDN config) (ldap_BindPassword config) = BindAccepted \<and>
        (\<exists>entry. srv_search server (ldap_BindDN config) (user_search lib config username) = Some [entry] \<and>
           srv_bind server (entry_DN entry) password = BindAccepted \<and>
           dir_Subject identity = dir_Subject (identityFrom lib config entry)) \<and>
        dir_Issuer identity = ldap_Issuer config \<and> distinct (dir_Groups identity) \<and> [] \<notin> set (dir_Groups identity)
    | Inl e \<Rightarrow> e = InvalidCredentials \<longleftrightarrow> password = [] \<or> TrimSpace username = [] \<or>
        srv_dial server \<and> srv_bind server (ldap_BindDN config) (ldap_BindPassword config) = BindAccepted \<and>
        (srv_search server (ldap_BindDN config) (user_search lib config username) = Some [] \<or>
         (\<exists>entry. srv_search server (ldap_BindDN config) (user_search lib config username) = Some [entry] \<and>
            (ldap_GroupBaseDN config = [] \<or>
             (\<exists>found. searchGroups lib config server (ldap_BindDN config) (entry_DN entry) = Inr found)) \<and>
            srv_bind server (entry_DN entry) password \<in> {BindRefused, BindLost}))"
proof (cases "ldap_Verify lib config server username password")
  case (Inr identity)
  then show ?thesis
  proof (rule ldap_Verify_Inr)
    fix entry
    assume e: "password \<noteq> []" "srv_bind server (ldap_BindDN config) (ldap_BindPassword config) = BindAccepted"
      "srv_search server (ldap_BindDN config) (user_search lib config username) = Some [entry]"
      "srv_bind server (entry_DN entry) password = BindAccepted"
      "ldap_GroupBaseDN config = [] \<Longrightarrow> identity = identityFrom lib config entry"
      "ldap_GroupBaseDN config \<noteq> [] \<Longrightarrow> \<exists>found. searchGroups lib config server (ldap_BindDN config) (entry_DN entry) = Inr found \<and>
         identity = (identityFrom lib config entry)\<lparr>dir_Groups := mergeGroups [dir_Groups (identityFrom lib config entry), found]\<rparr>"
    have "dir_Issuer identity = ldap_Issuer config \<and> dir_Subject identity = dir_Subject (identityFrom lib config entry) \<and>
        distinct (dir_Groups identity) \<and> [] \<notin> set (dir_Groups identity)"
      using e(5,6) by (cases "ldap_GroupBaseDN config = []") (auto simp: identityFrom_fields mergeGroups_def first_names_spec)
    then show ?thesis using e(1-4) Inr by auto
  qed
next
  case (Inl e)
  show ?thesis using ldap_Verify_Inl [OF Inl] by (simp add: Inl)
qed

theorem ldap_sign_in_witness:
  "(case ldap_Verify sample_library sample_ldap sample_server ''bob'' ''pw'' of
      Inl e \<Rightarrow> False | Inr identity \<Rightarrow> dir_Subject identity = ''uid=bob'' \<and> distinct (dir_Groups identity)) \<and>
   ldap_Verify sample_library sample_ldap
     (sample_server\<lparr>srv_bind := (\<lambda>dn pw. if dn = ''cn=svc'' then BindAccepted else BindLost)\<rparr>) ''bob'' ''pw'' = Inl InvalidCredentials"
proof -
  have "case ldap_Verify sample_library sample_ldap sample_server ''bob'' ''pw'' of
      Inl e \<Rightarrow> False | Inr identity \<Rightarrow> dir_Subject identity = ''uid=bob''"
    by code_simp
  moreover have "ldap_Verify sample_library sample_ldap
      (sample_server\<lparr>srv_bind := (\<lambda>dn pw. if dn = ''cn=svc'' then BindAccepted else BindLost)\<rparr>) ''bob'' ''pw'' = Inl InvalidCredentials"
    by code_simp
  ultimately show ?thesis using ldap_sign_in [where lib = sample_library and config = sample_ldap and server = sample_server and username = "''bob''" and password = "''pw''"]
    by (auto split: sum.splits)
qed

end
