(* ===== verification/Limiter.thy ===== *)
theory Limiter
  imports Prelude
begin

text \<open>
  The limiter of sign-in attempts (\<open>internal/auth/limiter.go\<close>): a token bucket per key, one budget
  per prefix of the key.

  Times and durations are integers, in nanoseconds. A number of tokens is a rational, and \<open>fl\<close>
  rounds a result to double precision: every operation on floating-point numbers is \<open>fl\<close> of the exact
  one. What the theorems need of \<open>fl\<close> is that it keeps the order and leaves the integers in the range
  of a burst alone.
\<close>

section \<open>Buckets\<close>

record Budget =
  bg_Burst :: int
  bg_Refill :: int

record loginBucket =
  lb_tokens :: rat
  lb_lastSeen :: int
  lb_budget :: Budget

record LoginLimiter =
  ll_buckets :: "(string, loginBucket) fmap"
  ll_budgets :: "string \<rightharpoonup> Budget"

definition LoginKeyUser :: string where
  "LoginKeyUser = ''user''"

definition LoginKeyAddress :: string where
  "LoginKeyAddress = ''addr''"

definition DefaultLoginBudgets :: "string \<rightharpoonup> Budget" where
  "DefaultLoginBudgets =
     [LoginKeyUser \<mapsto> \<lparr>bg_Burst = 5, bg_Refill = 12 * 1000000000\<rparr>,
      LoginKeyAddress \<mapsto> \<lparr>bg_Burst = 20, bg_Refill = 3 * 1000000000\<rparr>]"

definition NewLoginLimiter :: "(string \<rightharpoonup> Budget) option \<Rightarrow> LoginLimiter" where
  "NewLoginLimiter budgets =
     \<lparr>ll_buckets = fmempty, ll_budgets = (case budgets of None \<Rightarrow> DefaultLoginBudgets | Some b \<Rightarrow> b)\<rparr>"

definition LoginKey :: "string \<Rightarrow> string \<Rightarrow> string" where
  "LoginKey prefix suffix = prefix @ '':'' @ suffix"

fun cutKeyPrefix :: "string \<Rightarrow> (string \<times> string) option" where
  "cutKeyPrefix [] = None"
| "cutKeyPrefix (c # cs) =
     (if c = CHR '':'' then Some ([], cs) else map_option (\<lambda>(p, v). (c # p, v)) (cutKeyPrefix cs))"

definition refill :: "(rat \<Rightarrow> rat) \<Rightarrow> int \<Rightarrow> loginBucket \<Rightarrow> loginBucket" where
  "refill fl now bucket =
     (let elapsed = now - lb_lastSeen bucket; bucket = bucket\<lparr>lb_lastSeen := now\<rparr> in
      if elapsed \<le> 0 then bucket
      else let tokens = fl (lb_tokens bucket +
                 fl (fl (of_int elapsed) / fl (of_int (bg_Refill (lb_budget bucket)))));
               ceiling = fl (of_int (bg_Burst (lb_budget bucket)))
           in bucket\<lparr>lb_tokens := (if ceiling < tokens then ceiling else tokens)\<rparr>)"

text \<open>The conversion to a duration drops the fraction.\<close>

definition waitFor :: "(rat \<Rightarrow> rat) \<Rightarrow> rat \<Rightarrow> loginBucket \<Rightarrow> int" where
  "waitFor fl tokens bucket =
     (let missing = fl (tokens - lb_tokens bucket) in
      if missing \<le> 0 then 0 else \<lfloor>fl (missing * fl (of_int (bg_Refill (lb_budget bucket))))\<rfloor>)"

text \<open>The budget of a key, when it is limited at all.\<close>

definition key_budget :: "(string \<rightharpoonup> Budget) \<Rightarrow> string \<Rightarrow> Budget option" where
  "key_budget budgets key =
     (case cutKeyPrefix key of
        None \<Rightarrow> None
      | Some (prefix, suffix) \<Rightarrow>
          (case budgets prefix of
             None \<Rightarrow> None
           | Some budget \<Rightarrow> if bg_Burst budget < 1 \<or> bg_Refill budget \<le> 0 then None else Some budget))"

definition bucketLocked ::
  "(rat \<Rightarrow> rat) \<Rightarrow> (string \<rightharpoonup> Budget) \<Rightarrow> int \<Rightarrow> string \<Rightarrow> (string, loginBucket) fmap \<Rightarrow>
   (string, loginBucket) fmap \<times> loginBucket option" where
  "bucketLocked fl budgets now key buckets =
     (case key_budget budgets key of
        None \<Rightarrow> (buckets, None)
      | Some budget \<Rightarrow>
          let bucket = (case fmlookup buckets key of
                None \<Rightarrow> \<lparr>lb_tokens = fl (of_int (bg_Burst budget)), lb_lastSeen = now, lb_budget = budget\<rparr>
              | Some bucket \<Rightarrow> refill fl now (bucket\<lparr>lb_budget := budget\<rparr>))
          in (fmupd key bucket buckets, Some bucket))"

text \<open>The loop over the keys: the buckets to spend from, whether all of them have a token, and the
  longest wait of those that have none.\<close>

fun scan_keys ::
  "(rat \<Rightarrow> rat) \<Rightarrow> (string \<rightharpoonup> Budget) \<Rightarrow> int \<Rightarrow> string list \<Rightarrow> (string, loginBucket) fmap \<Rightarrow>
   (string, loginBucket) fmap \<times> string list \<times> bool \<times> int" where
  "scan_keys fl budgets now [] buckets = (buckets, [], True, 0)"
| "scan_keys fl budgets now (key # keys) buckets =
     (let (buckets', found) = bucketLocked fl budgets now key buckets;
          (buckets'', spend, allowed, longest) = scan_keys fl budgets now keys buckets'
      in case found of
           None \<Rightarrow> (buckets'', spend, allowed, longest)
         | Some bucket \<Rightarrow>
             if lb_tokens bucket < 1 then (buckets'', spend, False, max (waitFor fl 1 bucket) longest)
             else (buckets'', key # spend, allowed, longest))"

definition spend_token :: "(rat \<Rightarrow> rat) \<Rightarrow> string \<Rightarrow> (string, loginBucket) fmap \<Rightarrow> (string, loginBucket) fmap" where
  "spend_token fl key buckets =
     (case fmlookup buckets key of
        None \<Rightarrow> buckets
      | Some bucket \<Rightarrow> fmupd key (bucket\<lparr>lb_tokens := fl (lb_tokens bucket - 1)\<rparr>) buckets)"

definition Allow :: "(rat \<Rightarrow> rat) \<Rightarrow> int \<Rightarrow> string list \<Rightarrow> LoginLimiter \<Rightarrow> LoginLimiter \<times> bool \<times> int" where
  "Allow fl now keys limiter =
     (let (buckets, spend, allowed, longest) = scan_keys fl (ll_budgets limiter) now keys (ll_buckets limiter) in
      if \<not> allowed then (limiter\<lparr>ll_buckets := buckets\<rparr>, False, longest)
      else (limiter\<lparr>ll_buckets := fold (spend_token fl) spend buckets\<rparr>, True, 0))"

definition limiter_Reset :: "string list \<Rightarrow> LoginLimiter \<Rightarrow> LoginLimiter" where
  "limiter_Reset keys limiter = limiter\<lparr>ll_buckets := fold fmdrop keys (ll_buckets limiter)\<rparr>"

definition limiter_Sweep :: "int \<Rightarrow> int \<Rightarrow> LoginLimiter \<Rightarrow> LoginLimiter \<times> nat" where
  "limiter_Sweep now idle limiter =
     (let cutoff = now - idle;
          stale = (\<lambda>key. case fmlookup (ll_buckets limiter) key of None \<Rightarrow> False | Some b \<Rightarrow> lb_lastSeen b < cutoff)
      in (limiter\<lparr>ll_buckets := fmfilter (\<lambda>key. \<not> stale key) (ll_buckets limiter)\<rparr>,
          length (filter stale (sorted_keys (ll_buckets limiter)))))"

text \<open>The server's run: sign-in attempts, the reset of their keys after a sign-in that succeeded, and the ticks on which
  \<open>runLoginLimiterSweeps\<close> drops the buckets that were idle for an hour, with what the attempts were answered: whether they
  were let through and how long to wait.\<close>

datatype limiter_event = Attempt "string list" | Succeeded "string list" | SweepTick

definition sweep_idle :: int where
  "sweep_idle = 3600 * 1000000000"

fun limiter_run :: "(rat \<Rightarrow> rat) \<Rightarrow> (int \<times> limiter_event) list \<Rightarrow> LoginLimiter \<Rightarrow> LoginLimiter \<times> (bool \<times> int) list" where
  "limiter_run fl [] limiter = (limiter, [])"
| "limiter_run fl ((now, Attempt keys) # rest) limiter =
     (let (limiter', allowed, wait) = Allow fl now keys limiter;
          (limiter'', answers) = limiter_run fl rest limiter'
      in (limiter'', (allowed, wait) # answers))"
| "limiter_run fl ((now, Succeeded keys) # rest) limiter = limiter_run fl rest (limiter_Reset keys limiter)"
| "limiter_run fl ((now, SweepTick) # rest) limiter = limiter_run fl rest (fst (limiter_Sweep now sweep_idle limiter))"

text \<open>The run of a server that never sweeps.\<close>

definition without_sweeps :: "(int \<times> limiter_event) list \<Rightarrow> (int \<times> limiter_event) list" where
  "without_sweeps events = filter (\<lambda>(t, e). e \<noteq> SweepTick) events"

fun event_keys_distinct :: "limiter_event \<Rightarrow> bool" where
  "event_keys_distinct (Attempt keys) \<longleftrightarrow> distinct keys"
| "event_keys_distinct e \<longleftrightarrow> True"

section \<open>Levels\<close>

text \<open>The tokens a key has at some time: what its bucket would be refilled to.\<close>

definition level :: "(rat \<Rightarrow> rat) \<Rightarrow> Budget \<Rightarrow> int \<Rightarrow> string \<Rightarrow> (string, loginBucket) fmap \<Rightarrow> rat" where
  "level fl budget now key buckets =
     (case fmlookup buckets key of
        None \<Rightarrow> fl (of_int (bg_Burst budget))
      | Some bucket \<Rightarrow> lb_tokens (refill fl now (bucket\<lparr>lb_budget := budget\<rparr>)))"

definition limiter_ok :: "LoginLimiter \<Rightarrow> bool" where
  "limiter_ok limiter \<longleftrightarrow>
     (\<forall>key bucket. fmlookup (ll_buckets limiter) key = Some bucket \<longrightarrow>
        (\<exists>budget. key_budget (ll_budgets limiter) key = Some budget \<and> 0 \<le> lb_tokens bucket \<and>
           lb_tokens bucket \<le> of_int (bg_Burst budget)))"

text \<open>What is used of double precision.\<close>

definition rounding :: "(rat \<Rightarrow> rat) \<Rightarrow> bool" where
  "rounding fl \<longleftrightarrow> (\<forall>x y. x \<le> y \<longrightarrow> fl x \<le> fl y) \<and> (\<forall>i. \<bar>i\<bar> \<le> 2 ^ 53 \<longrightarrow> fl (of_int i) = of_int i)"

text \<open>Exact arithmetic.\<close>

definition exact :: "rat \<Rightarrow> rat" where
  "exact x = x"

text \<open>A run of attempts and what was answered.\<close>

fun allow_run :: "(rat \<Rightarrow> rat) \<Rightarrow> (int \<times> string list) list \<Rightarrow> LoginLimiter \<Rightarrow> LoginLimiter \<times> bool list" where
  "allow_run fl [] limiter = (limiter, [])"
| "allow_run fl ((now, keys) # rest) limiter =
     (let (limiter', allowed, wait) = Allow fl now keys limiter;
          (limiter'', answers) = allow_run fl rest limiter'
      in (limiter'', allowed # answers))"

definition allowed_with :: "string \<Rightarrow> (int \<times> string list) list \<Rightarrow> bool list \<Rightarrow> nat" where
  "allowed_with key attempts answers =
     length (filter (\<lambda>((now, keys), allowed). allowed \<and> key \<in> set keys) (zip attempts answers))"

text \<open>What the loop over the keys finds out.\<close>

definition scanned ::
  "(rat \<Rightarrow> rat) \<Rightarrow> (string \<rightharpoonup> Budget) \<Rightarrow> int \<Rightarrow> string list \<Rightarrow> (string, loginBucket) fmap \<Rightarrow> (string, loginBucket) fmap \<Rightarrow>
   string list \<Rightarrow> bool \<Rightarrow> bool" where
  "scanned fl budgets now keys m m' spend allowed \<longleftrightarrow>
     (\<forall>k bg. key_budget budgets k = Some bg \<longrightarrow> level fl bg now k m' = level fl bg now k m) \<and>
     (\<forall>k bg. key_budget budgets k = Some bg \<and> k \<in> set keys \<longrightarrow>
        (\<exists>b. fmlookup m' k = Some b \<and> lb_lastSeen b = now) \<and> (k \<in> set spend \<longleftrightarrow> 1 \<le> level fl bg now k m)) \<and>
     set spend \<subseteq> {k \<in> set keys. \<exists>bg. key_budget budgets k = Some bg} \<and> distinct spend \<and>
     (allowed \<longleftrightarrow> (\<forall>k bg. key_budget budgets k = Some bg \<and> k \<in> set keys \<longrightarrow> 1 \<le> level fl bg now k m)) \<and>
     (\<forall>k. k \<notin> set keys \<longrightarrow> fmlookup m' k = fmlookup m k)"

section \<open>Lemmas\<close>

lemma rounding_mono: "rounding fl \<Longrightarrow> x \<le> y \<Longrightarrow> fl x \<le> fl y"
  by (simp add: rounding_def)

lemma rounding_int: "rounding fl \<Longrightarrow> \<bar>i\<bar> \<le> 2 ^ 53 \<Longrightarrow> fl (of_int i) = of_int i"
  by (simp add: rounding_def)

lemma rounding_nonneg: "rounding fl \<Longrightarrow> 0 \<le> x \<Longrightarrow> 0 \<le> fl x"
  using rounding_mono [of fl 0 x] rounding_int [of fl 0] by simp

lemma cut_LoginKey: "CHR '':'' \<notin> set prefix \<Longrightarrow> cutKeyPrefix (LoginKey prefix v) = Some (prefix, v)"
  by (induction prefix) (auto simp: LoginKey_def)

lemma refill_fields [simp]:
  "lb_lastSeen (refill fl now b) = now" "lb_budget (refill fl now b) = lb_budget b"
  by (simp_all add: refill_def Let_def)

lemma refill_now: "now \<le> lb_lastSeen b \<Longrightarrow> lb_tokens (refill fl now b) = lb_tokens b"
  by (simp add: refill_def Let_def)

lemma level_fmupd:
  "level fl bg now k (fmupd key b m) =
    (if k = key then lb_tokens (refill fl now (b\<lparr>lb_budget := bg\<rparr>)) else level fl bg now k m)"
  by (simp add: level_def)

lemma bucketLocked_limited:
  assumes "key_budget budgets key = Some bg"
  obtains b where "bucketLocked fl budgets now key m = (fmupd key b m, Some b)" "lb_tokens b = level fl bg now key m"
    "lb_lastSeen b = now"
proof (cases "fmlookup m key")
  case None
  show thesis
    by (rule that [of "\<lparr>lb_tokens = fl (of_int (bg_Burst bg)), lb_lastSeen = now, lb_budget = bg\<rparr>"])
      (simp_all add: bucketLocked_def level_def assms None Let_def)
next
  case (Some b)
  show thesis
    by (rule that [of "refill fl now (b\<lparr>lb_budget := bg\<rparr>)"]) (simp_all add: bucketLocked_def level_def assms Some Let_def)
qed

lemma bucketLocked_level:
  assumes "key_budget budgets k = Some bg"
  shows "level fl bg now k (fst (bucketLocked fl budgets now key m)) = level fl bg now k m"
proof (cases "key_budget budgets key")
  case (Some bg')
  then obtain b where b: "bucketLocked fl budgets now key m = (fmupd key b m, Some b)" "lb_tokens b = level fl bg' now key m"
    "lb_lastSeen b = now"
    by (rule bucketLocked_limited)
  then show ?thesis using Some assms by (auto simp: level_fmupd refill_now)
qed (simp add: bucketLocked_def)

lemma scan_keys_scanned:
  "scan_keys fl budgets now keys m = (m', spend, allowed, longest) \<Longrightarrow> distinct keys \<Longrightarrow>
    scanned fl budgets now keys m m' spend allowed"
proof (induction keys arbitrary: m m' spend allowed longest)
  case Nil
  then show ?case by (auto simp: scanned_def)
next
  case (Cons key keys)
  obtain m1 found where f: "bucketLocked fl budgets now key m = (m1, found)" by fastforce
  obtain spend2 allowed2 longest2 where s: "scan_keys fl budgets now keys m1 = (m', spend2, allowed2, longest2)"
    using Cons.prems(1) by (auto simp: f split: prod.splits option.splits if_splits)
  have IH: "scanned fl budgets now keys m1 m' spend2 allowed2" using Cons.IH [OF s] Cons.prems(2) by simp
  have key: "key \<notin> set keys" using Cons.prems(2) by simp
  have lv: "level fl bg now k m1 = level fl bg now k m" if "key_budget budgets k = Some bg" for k bg
    using bucketLocked_level [OF that, of fl now key m] by (simp add: f)
  show ?case
  proof (cases "key_budget budgets key")
    case None
    then have "found = None" "m1 = m" using f by (auto simp: bucketLocked_def)
    moreover from this have "spend = spend2" "allowed = allowed2" using Cons.prems(1) s f by auto
    ultimately show ?thesis using IH None unfolding scanned_def by auto
  next
    case (Some bg)
    then obtain b where b: "m1 = fmupd key b m" "found = Some b" "lb_tokens b = level fl bg now key m" "lb_lastSeen b = now"
      using f by (metis bucketLocked_limited prod.inject)
    have "allowed = (allowed2 \<and> 1 \<le> level fl bg now key m)"
      "spend = (if 1 \<le> level fl bg now key m then key # spend2 else spend2)"
      using Cons.prems(1) b(3) by (auto simp: f s b(2) not_less split: if_splits)
    moreover have "fmlookup m' key = Some b" using IH key by (simp add: scanned_def b(1))
    moreover have "key \<notin> set spend2" using IH key by (auto simp: scanned_def)
    ultimately show ?thesis using IH lv Some b(1,4) key unfolding scanned_def by auto
  qed
qed

lemma spend_token_level:
  assumes "fmlookup m k = Some b" "lb_lastSeen b = now"
  shows "level fl bg now k (spend_token fl k m) = fl (level fl bg now k m - 1)"
  using assms by (simp add: spend_token_def level_def refill_now)

lemma spend_token_other:
  "k \<noteq> key \<Longrightarrow> fmlookup (spend_token fl key m) k = fmlookup m k"
  by (simp add: spend_token_def split: option.splits)

lemma level_cong: "fmlookup m k = fmlookup m' k \<Longrightarrow> level fl bg now k m = level fl bg now k m'"
  by (simp add: level_def)

lemma spend_all:
  "distinct ks \<Longrightarrow> \<forall>k \<in> set ks. \<exists>b. fmlookup m k = Some b \<and> lb_lastSeen b = now \<Longrightarrow>
    level fl bg now k (fold (spend_token fl) ks m) = (if k \<in> set ks then fl (level fl bg now k m - 1) else level fl bg now k m)"
proof (induction ks arbitrary: m)
  case (Cons key ks)
  have "fmlookup (spend_token fl key m) k = fmlookup m k" if "k \<in> set ks" for k
    using that Cons.prems(1) by (intro spend_token_other) auto
  then have "\<forall>k \<in> set ks. \<exists>b. fmlookup (spend_token fl key m) k = Some b \<and> lb_lastSeen b = now"
    using Cons.prems(2) by simp
  note IH = Cons.IH [OF _ this]
  show ?case
  proof (cases "k = key")
    case True
    then have "k \<notin> set ks" using Cons.prems(1) by auto
    then show ?thesis using IH Cons.prems True by (auto simp: spend_token_level)
  next
    case False
    then show ?thesis
      using IH Cons.prems(1) level_cong [OF spend_token_other [OF False]] by simp
  qed
qed simp

text \<open>An attempt, seen from one key: the level falls by one exactly when it is allowed and the key is
  among its keys, and then there was a token to take.\<close>

lemma Allow_level:
  assumes "Allow fl now keys limiter = (limiter', allowed, wait)" "distinct keys"
    "key_budget (ll_budgets limiter) k = Some bg"
  shows "level fl bg now k (ll_buckets limiter') =
      (if allowed \<and> k \<in> set keys then fl (level fl bg now k (ll_buckets limiter) - 1) else level fl bg now k (ll_buckets limiter))"
    "allowed \<Longrightarrow> k \<in> set keys \<Longrightarrow> 1 \<le> level fl bg now k (ll_buckets limiter)"
    "ll_budgets limiter' = ll_budgets limiter"
proof -
  obtain m' spend a longest where s: "scan_keys fl (ll_budgets limiter) now keys (ll_buckets limiter) = (m', spend, a, longest)"
    by (metis prod_cases4)
  note sc = scan_keys_scanned [OF s assms(2)]
  have l: "limiter' = limiter\<lparr>ll_buckets := (if a then fold (spend_token fl) spend m' else m')\<rparr>" "allowed = a"
    using assms(1) by (auto simp: Allow_def s split: if_splits)
  show "ll_budgets limiter' = ll_budgets limiter" by (simp add: l)
  show "1 \<le> level fl bg now k (ll_buckets limiter)" if "allowed" "k \<in> set keys"
    using sc that assms(3) by (auto simp: scanned_def l)
  have "\<forall>k \<in> set spend. \<exists>b. fmlookup m' k = Some b \<and> lb_lastSeen b = now"
    using sc unfolding scanned_def by blast
  moreover have "distinct spend" using sc by (simp add: scanned_def)
  moreover have "k \<in> set spend \<longleftrightarrow> k \<in> set keys" if a using sc assms(3) that unfolding scanned_def by blast
  moreover have "level fl bg now k m' = level fl bg now k (ll_buckets limiter)" using sc assms(3) unfolding scanned_def by blast
  ultimately show "level fl bg now k (ll_buckets limiter') =
      (if allowed \<and> k \<in> set keys then fl (level fl bg now k (ll_buckets limiter) - 1) else level fl bg now k (ll_buckets limiter))"
    by (simp add: l spend_all)
qed

lemma level_bounds:
  assumes "rounding fl" "limiter_ok limiter" "key_budget (ll_budgets limiter) k = Some bg" "bg_Burst bg \<le> 2 ^ 53"
  shows "level fl bg now k (ll_buckets limiter) \<le> of_int (bg_Burst bg)"
proof -
  have "1 \<le> bg_Burst bg" using assms(3) by (auto simp: key_budget_def split: option.splits if_splits)
  then have "fl (of_int (bg_Burst bg)) = of_int (bg_Burst bg)" using assms(1,4) by (intro rounding_int) auto
  moreover have "lb_tokens b \<le> of_int (bg_Burst bg)" if "fmlookup (ll_buckets limiter) k = Some b" for b
    using assms(2,3) that unfolding limiter_ok_def by fastforce
  ultimately show ?thesis by (auto simp: level_def refill_def Let_def split: option.splits)
qed

text \<open>At one time: every attempt that is allowed takes one of the tokens the key had.\<close>

lemma allow_run_level:
  assumes "rounding fl" "key_budget (ll_budgets limiter) k = Some bg"
    "\<forall>(t, keys) \<in> set attempts. t = now \<and> distinct keys" "level fl bg now k (ll_buckets limiter) \<le> of_nat m" "m \<le> 2 ^ 53"
  shows "allowed_with k attempts (snd (allow_run fl attempts limiter)) \<le> m"
  using assms
proof (induction attempts arbitrary: limiter m)
  case Nil
  then show ?case by (simp add: allowed_with_def)
next
  case (Cons x attempts)
  obtain keys where x: "x = (now, keys)" "distinct keys" using Cons.prems(3) by auto
  obtain l' allowed w where a: "Allow fl now keys limiter = (l', allowed, w)" by (metis prod_cases3)
  note lv = Allow_level [OF a x(2) Cons.prems(2)]
  obtain l'' answers where r: "allow_run fl attempts l' = (l'', answers)" by fastforce
  show ?case
  proof (cases "allowed \<and> k \<in> set keys")
    case True
    then have "1 \<le> m" using lv(2) Cons.prems(4) by (metis of_nat_1 of_nat_le_iff order_trans)
    have "fl (level fl bg now k (ll_buckets limiter) - 1) \<le> fl (of_int (int (m - 1)))"
      by (rule rounding_mono [OF Cons.prems(1)]) (use Cons.prems(4) \<open>1 \<le> m\<close> in \<open>simp add: of_nat_diff\<close>)
    also have "\<dots> = of_nat (m - 1)" using rounding_int [OF Cons.prems(1), of "int (m - 1)"] Cons.prems(5) by simp
    finally have "allowed_with k attempts (snd (allow_run fl attempts l')) \<le> m - 1"
      using Cons.prems True lv(1,3) by (intro Cons.IH) auto
    then show ?thesis using True \<open>1 \<le> m\<close> by (simp add: x a r allowed_with_def)
  next
    case False
    then have "allowed_with k attempts (snd (allow_run fl attempts l')) \<le> m"
      using Cons.prems lv(1,3) by (intro Cons.IH) auto
    then show ?thesis using False by (auto simp: x a r allowed_with_def)
  qed
qed

text \<open>Between two times, with exact arithmetic: what is refilled is the time that passed.\<close>

lemma level_passes:
  assumes "t \<le> t'" "0 < bg_Refill bg"
  shows "level exact bg t k m \<le> level exact bg t' k m \<or> of_int (bg_Burst bg) \<le> level exact bg t' k m"
    "level exact bg t' k m \<le> level exact bg t k m + of_int (t' - t) / of_int (bg_Refill bg)"
proof -
  have r: "(0::rat) < of_int (bg_Refill bg)" using assms(2) by simp
  have d: "(of_int (t - x) :: rat) / of_int (bg_Refill bg) \<le> of_int (t' - x) / of_int (bg_Refill bg)"
    "(of_int (t' - x) :: rat) / of_int (bg_Refill bg) = of_int (t - x) / of_int (bg_Refill bg) + of_int (t' - t) / of_int (bg_Refill bg)"
    "(0::rat) \<le> of_int (t' - t) / of_int (bg_Refill bg)" for x
    using assms(1) r by (simp_all add: divide_right_mono add_divide_distrib [symmetric])
  show "level exact bg t k m \<le> level exact bg t' k m \<or> of_int (bg_Burst bg) \<le> level exact bg t' k m"
  proof (cases "fmlookup m k")
    case (Some b)
    have "(0::rat) \<le> of_int (t' - lb_lastSeen b) / of_int (bg_Refill bg)" if "lb_lastSeen b < t'" using that r by simp
    then show ?thesis using d(1) [of "lb_lastSeen b"] assms(1) by (auto simp: level_def refill_def Let_def exact_def Some)
  qed (simp add: level_def exact_def)
  show "level exact bg t' k m \<le> level exact bg t k m + of_int (t' - t) / of_int (bg_Refill bg)"
  proof (cases "fmlookup m k")
    case (Some b)
    have "(of_int (t' - lb_lastSeen b) :: rat) / of_int (bg_Refill bg) \<le> of_int (t' - t) / of_int (bg_Refill bg)"
      if "t \<le> lb_lastSeen b" using that r by (intro divide_right_mono) simp_all
    then show ?thesis using d(2) [of "lb_lastSeen b"] d(3) assms(1) by (auto simp: level_def refill_def Let_def exact_def Some)
  qed (use d(3) in \<open>simp add: level_def exact_def\<close>)
qed

lemma allow_run_rate:
  assumes "key_budget (ll_budgets limiter) k = Some bg" "sorted (t # map fst attempts)" "\<forall>(t, keys) \<in> set attempts. distinct keys"
    "0 \<le> level exact bg t k (ll_buckets limiter)"
  shows "of_nat (allowed_with k attempts (snd (allow_run exact attempts limiter))) \<le>
    level exact bg t k (ll_buckets limiter) + of_int (last (t # map fst attempts) - t) / of_int (bg_Refill bg)"
  using assms
proof (induction attempts arbitrary: limiter t)
  case Nil
  then show ?case by (simp add: allowed_with_def)
next
  case (Cons x attempts)
  obtain t' keys where x: "x = (t', keys)" "distinct keys" "t \<le> t'" using Cons.prems(2,3) by (cases x) auto
  obtain l' allowed w where a: "Allow exact t' keys limiter = (l', allowed, w)" by (metis prod_cases3)
  note lv = Allow_level [OF a x(2) Cons.prems(1)]
  obtain l'' answers where r: "allow_run exact attempts l' = (l'', answers)" by fastforce
  have b: "0 < bg_Refill bg" "1 \<le> bg_Burst bg" using Cons.prems(1) by (auto simp: key_budget_def split: option.splits if_splits)
  note p = level_passes [OF x(3) b(1), of k "ll_buckets limiter"]
  have "(0::rat) \<le> of_int (bg_Burst bg)" using b(2) by simp
  then have nonneg: "0 \<le> level exact bg t' k (ll_buckets limiter)" using p(1) Cons.prems(4) by linarith
  have "0 \<le> level exact bg t' k (ll_buckets l')" using lv(1,2) nonneg by (auto simp: exact_def)
  then have IH: "of_nat (allowed_with k attempts answers) \<le>
      level exact bg t' k (ll_buckets l') + of_int (last (t' # map fst attempts) - t') / of_int (bg_Refill bg)"
    using Cons.IH [of l' t'] Cons.prems(1-3) lv(3) x(1) r by simp
  have split: "(of_int (last (t' # map fst attempts) - t) :: rat) / of_int (bg_Refill bg) =
      of_int (last (t' # map fst attempts) - t') / of_int (bg_Refill bg) + of_int (t' - t) / of_int (bg_Refill bg)"
    by (simp add: add_divide_distrib [symmetric])
  have count: "of_nat (allowed_with k (x # attempts) (snd (allow_run exact (x # attempts) limiter))) =
      (if allowed \<and> k \<in> set keys then 1 else 0) + (of_nat (allowed_with k attempts answers) :: rat)"
    by (auto simp: x(1) a r allowed_with_def)
  have times: "last (t # map fst (x # attempts)) = last (t' # map fst attempts)" by (simp add: x(1))
  have "level exact bg t' k (ll_buckets l') + (if allowed \<and> k \<in> set keys then 1 else 0) = level exact bg t' k (ll_buckets limiter)"
    using lv(1) by (simp add: exact_def)
  then show ?case using IH p(2) split unfolding count times by linarith
qed

section \<open>Properties\<close>

text \<open>The burst. However many sign-in attempts arrive at one moment, in whatever order and
  with whatever other keys, no more of those that carry a key are let through than the burst of its
  budget; one that is refused takes no token from any key.\<close>

theorem limiter_burst:
  assumes "rounding fl" "limiter_ok limiter" "key_budget (ll_budgets limiter) k = Some bg" "bg_Burst bg \<le> 2 ^ 53"
    "\<forall>(t, keys) \<in> set attempts. t = now \<and> distinct keys"
  shows "int (allowed_with k attempts (snd (allow_run fl attempts limiter))) \<le> bg_Burst bg \<and>
    (\<forall>keys limiter' wait k' bg'. distinct keys \<and> Allow fl now keys limiter = (limiter', False, wait) \<and>
       key_budget (ll_budgets limiter) k' = Some bg' \<longrightarrow>
       level fl bg' now k' (ll_buckets limiter') = level fl bg' now k' (ll_buckets limiter))"
proof -
  have b: "1 \<le> bg_Burst bg" using assms(3) by (auto simp: key_budget_def split: option.splits if_splits)
  have "level fl bg now k (ll_buckets limiter) \<le> of_nat (nat (bg_Burst bg))"
    using level_bounds [OF assms(1-4)] b by simp
  then have "allowed_with k attempts (snd (allow_run fl attempts limiter)) \<le> nat (bg_Burst bg)"
    using assms(4) by (intro allow_run_level [OF assms(1,3,5)]) auto
  then show ?thesis using b Allow_level(1) [of fl now _ limiter _ False] by auto
qed

theorem limiter_burst_witness:
  "allowed_with ''user:bob'' (replicate 7 (5, [''user:bob'', ''addr:h'']))
     (snd (allow_run id (replicate 7 (5, [''user:bob'', ''addr:h''])) (NewLoginLimiter None))) \<le> 5"
proof -
  have k: "key_budget (ll_budgets (NewLoginLimiter None)) ''user:bob'' = Some \<lparr>bg_Burst = 5, bg_Refill = 12 * 1000000000\<rparr>"
    by (simp add: key_budget_def NewLoginLimiter_def DefaultLoginBudgets_def LoginKeyUser_def LoginKeyAddress_def)
  have "rounding id" by (simp add: rounding_def)
  moreover have "limiter_ok (NewLoginLimiter None)" by (simp add: limiter_ok_def NewLoginLimiter_def)
  ultimately show ?thesis
    using limiter_burst [of id "NewLoginLimiter None" "''user:bob''" _ "replicate 7 (5, [''user:bob'', ''addr:h''])" 5] k by auto
qed

text \<open>The rate. Over any stretch of time, with exact arithmetic, the attempts let through
  that carry a key are no more than the burst of its budget and one for every refill interval that
  passed.\<close>

theorem limiter_rate:
  assumes "limiter_ok limiter" "key_budget (ll_budgets limiter) k = Some bg" "bg_Burst bg \<le> 2 ^ 53"
    "sorted (t # map fst attempts)" "\<forall>(t, keys) \<in> set attempts. distinct keys"
  shows "of_nat (allowed_with k attempts (snd (allow_run exact attempts limiter))) \<le>
    (of_int (bg_Burst bg) :: rat) + of_int (last (t # map fst attempts) - t) / of_int (bg_Refill bg)"
proof -
  have b: "0 < bg_Refill bg" "1 \<le> bg_Burst bg" using assms(2) by (auto simp: key_budget_def split: option.splits if_splits)
  have "rounding exact" by (simp add: rounding_def exact_def)
  note top = level_bounds [OF this assms(1-3), of t]
  have "0 \<le> lb_tokens c" if "fmlookup (ll_buckets limiter) k = Some c" for c
    using assms(1) that unfolding limiter_ok_def by blast
  then have "0 \<le> level exact bg t k (ll_buckets limiter)"
    using b by (auto simp: level_def refill_def Let_def exact_def split: option.splits)
  note allow_run_rate [OF assms(2,4,5) this]
  then show ?thesis using top by linarith
qed

theorem limiter_rate_witness:
  "of_nat (allowed_with ''user:bob'' [(0, [''user:bob'']), (24 * 1000000000, [''user:bob''])]
     (snd (allow_run exact [(0, [''user:bob'']), (24 * 1000000000, [''user:bob''])] (NewLoginLimiter None)))) \<le> (7::rat)"
proof -
  have k: "key_budget (ll_budgets (NewLoginLimiter None)) ''user:bob'' = Some \<lparr>bg_Burst = 5, bg_Refill = 12 * 1000000000\<rparr>"
    by (simp add: key_budget_def NewLoginLimiter_def DefaultLoginBudgets_def LoginKeyUser_def LoginKeyAddress_def)
  have "limiter_ok (NewLoginLimiter None)" by (simp add: limiter_ok_def NewLoginLimiter_def)
  then show ?thesis
    using limiter_rate [of "NewLoginLimiter None" "''user:bob''" _ 0 "[(0, [''user:bob'']), (24 * 1000000000, [''user:bob''])]"] k by auto
qed

section \<open>Sweeping\<close>

text \<open>Two limiters that no attempt from some time on can tell apart.\<close>

definition same_levels :: "(rat \<Rightarrow> rat) \<Rightarrow> int \<Rightarrow> LoginLimiter \<Rightarrow> LoginLimiter \<Rightarrow> bool" where
  "same_levels fl t l l' \<longleftrightarrow> ll_budgets l' = ll_budgets l \<and>
     (\<forall>k bg t'. key_budget (ll_budgets l) k = Some bg \<and> t \<le> t' \<longrightarrow>
        level fl bg t' k (ll_buckets l') = level fl bg t' k (ll_buckets l))"

lemma fold_spend_seen:
  "fmlookup m k = Some b \<Longrightarrow> \<exists>b'. fmlookup (fold (spend_token fl) ks m) k = Some b' \<and> lb_lastSeen b' = lb_lastSeen b"
proof (induction ks arbitrary: m b)
  case (Cons key ks)
  have "\<exists>b'. fmlookup (spend_token fl key m) k = Some b' \<and> lb_lastSeen b' = lb_lastSeen b"
    using Cons.prems by (cases "k = key") (auto simp: spend_token_def split: option.splits)
  with Cons.IH show ?case by fastforce
qed simp

lemma fold_spend_other: "k \<notin> set ks \<Longrightarrow> fmlookup (fold (spend_token fl) ks m) k = fmlookup m k"
  by (induction ks arbitrary: m) (simp_all add: spend_token_other)

lemma Allow_buckets:
  assumes "Allow fl now keys limiter = (limiter', allowed, wait)" "distinct keys"
  shows "allowed \<longleftrightarrow> (\<forall>k bg. key_budget (ll_budgets limiter) k = Some bg \<and> k \<in> set keys \<longrightarrow> 1 \<le> level fl bg now k (ll_buckets limiter))"
    "key_budget (ll_budgets limiter) k = Some bg \<Longrightarrow> k \<in> set keys \<Longrightarrow> \<exists>b. fmlookup (ll_buckets limiter') k = Some b \<and> lb_lastSeen b = now"
    "k \<notin> set keys \<Longrightarrow> fmlookup (ll_buckets limiter') k = fmlookup (ll_buckets limiter) k"
proof -
  obtain m' spend a longest where s: "scan_keys fl (ll_budgets limiter) now keys (ll_buckets limiter) = (m', spend, a, longest)"
    by (metis prod_cases4)
  note sc = scan_keys_scanned [OF s assms(2), unfolded scanned_def]
  have l: "limiter' = limiter\<lparr>ll_buckets := (if a then fold (spend_token fl) spend m' else m')\<rparr>" "allowed = a"
    using assms(1) by (auto simp: Allow_def s split: if_splits)
  show "allowed \<longleftrightarrow> (\<forall>k bg. key_budget (ll_budgets limiter) k = Some bg \<and> k \<in> set keys \<longrightarrow> 1 \<le> level fl bg now k (ll_buckets limiter))"
    using sc unfolding l(2) by - (elim conjE)
  show "\<exists>b. fmlookup (ll_buckets limiter') k = Some b \<and> lb_lastSeen b = now"
    if key: "key_budget (ll_budgets limiter) k = Some bg" "k \<in> set keys"
  proof -
    obtain b where b: "fmlookup m' k = Some b" "lb_lastSeen b = now" using sc key by blast
    then show ?thesis using fold_spend_seen [OF b(1), of fl spend] by (auto simp: l)
  qed
  show "fmlookup (ll_buckets limiter') k = fmlookup (ll_buckets limiter) k" if "k \<notin> set keys"
  proof -
    have "k \<notin> set spend" "fmlookup m' k = fmlookup (ll_buckets limiter) k" using sc that by auto
    then show ?thesis by (simp add: l fold_spend_other)
  qed
qed

text \<open>The level of a bucket from the time it was last seen on depends on its tokens then.\<close>

lemma level_seen:
  assumes "fmlookup m k = Some b" "fmlookup m' k = Some b'" "lb_lastSeen b = now" "lb_lastSeen b' = now"
    "level fl bg now k m = level fl bg now k m'"
  shows "level fl bg t k m = level fl bg t k m'"
proof -
  have "lb_tokens b = lb_tokens b'" using assms by (simp add: level_def refill_now)
  then show ?thesis using assms(1-4) by (simp add: level_def refill_def Let_def)
qed

text \<open>The wait depends on the levels only.\<close>

definition waited :: "(rat \<Rightarrow> rat) \<Rightarrow> (string \<rightharpoonup> Budget) \<Rightarrow> int \<Rightarrow> string list \<Rightarrow> (string, loginBucket) fmap \<Rightarrow> int" where
  "waited fl budgets now keys m =
     foldr (\<lambda>k acc. case key_budget budgets k of
         None \<Rightarrow> acc
       | Some bg \<Rightarrow> if level fl bg now k m < 1
           then max (waitFor fl 1 \<lparr>lb_tokens = level fl bg now k m, lb_lastSeen = now, lb_budget = bg\<rparr>) acc else acc) keys 0"

lemma waited_cong:
  assumes "\<And>k bg. key_budget budgets k = Some bg \<Longrightarrow> level fl bg now k m = level fl bg now k m'"
  shows "waited fl budgets now keys m = waited fl budgets now keys m'"
  by (induction keys) (simp_all add: waited_def assms split: option.split)

lemma scan_keys_waited: "snd (snd (snd (scan_keys fl budgets now keys m))) = waited fl budgets now keys m"
proof (induction keys arbitrary: m)
  case (Cons key keys)
  obtain m1 found where f: "bucketLocked fl budgets now key m = (m1, found)" by fastforce
  obtain m2 spend allowed longest where s: "scan_keys fl budgets now keys m1 = (m2, spend, allowed, longest)" by (metis prod_cases4)
  have rest: "waited fl budgets now keys m1 = waited fl budgets now keys m"
    using bucketLocked_level [of budgets _ _ fl now key m] by (intro waited_cong) (simp add: f)
  have longest: "longest = waited fl budgets now keys m" using Cons.IH [of m1] rest by (simp add: s)
  show ?case
  proof (cases "key_budget budgets key")
    case None
    then have "found = None" using f by (simp add: bucketLocked_def)
    then show ?thesis using longest None by (simp add: f s waited_def)
  next
    case (Some bg)
    then obtain b where b: "found = Some b" "lb_tokens b = level fl bg now key m" "lb_budget b = bg"
      using f by (auto simp: bucketLocked_def level_def Let_def split: option.splits)
    then have "waitFor fl 1 b = waitFor fl 1 \<lparr>lb_tokens = level fl bg now key m, lb_lastSeen = now, lb_budget = bg\<rparr>"
      by (simp add: waitFor_def Let_def)
    then show ?thesis using longest Some b(1,2) by (simp add: f s waited_def)
  qed
qed (simp add: waited_def)

lemma Allow_wait:
  assumes "Allow fl now keys l = (l', allowed, wait)"
  shows "wait = (if allowed then 0 else waited fl (ll_budgets l) now keys (ll_buckets l))"
  using assms scan_keys_waited [of fl "ll_budgets l" now keys "ll_buckets l"] by (auto simp: Allow_def split: prod.splits if_splits)

lemma fold_fmdrop: "fmlookup (fold fmdrop ks m) k = (if k \<in> set ks then None else fmlookup m k)"
  by (induction ks arbitrary: m) auto

lemma Reset_same_levels: "same_levels fl t l l' \<Longrightarrow> same_levels fl t (limiter_Reset keys l) (limiter_Reset keys l')"
  unfolding same_levels_def by (auto simp: limiter_Reset_def level_def fold_fmdrop)

lemma Reset_ok: "limiter_ok l \<Longrightarrow> limiter_ok (limiter_Reset keys l)"
  by (auto simp: limiter_ok_def limiter_Reset_def fold_fmdrop split: if_splits)

lemma Allow_same_levels:
  assumes "same_levels fl t l l'" "t \<le> now" "distinct keys"
    "Allow fl now keys l = (l1, allowed, wait)" "Allow fl now keys l' = (l1', allowed', wait')"
  shows "allowed' = allowed" "same_levels fl now l1 l1'" "wait' = wait"
proof -
  have budgets: "ll_budgets l' = ll_budgets l" and
    lv: "\<And>k bg t'. key_budget (ll_budgets l) k = Some bg \<Longrightarrow> t \<le> t' \<Longrightarrow> level fl bg t' k (ll_buckets l') = level fl bg t' k (ll_buckets l)"
    using assms(1) unfolding same_levels_def by blast+
  have kept: "ll_budgets l1 = ll_budgets l" "ll_budgets l1' = ll_budgets l"
    using assms(4,5) budgets by (auto simp: Allow_def split: prod.splits if_splits)
  show same: "allowed' = allowed"
    using Allow_buckets(1) [OF assms(4,3)] Allow_buckets(1) [OF assms(5,3)] lv assms(2) unfolding budgets by auto
  have "waited fl (ll_budgets l) now keys (ll_buckets l') = waited fl (ll_budgets l) now keys (ll_buckets l)"
    using lv assms(2) by (intro waited_cong) simp
  then show "wait' = wait" using Allow_wait [OF assms(4)] Allow_wait [OF assms(5)] same budgets by simp
  have "level fl bg t' k (ll_buckets l1') = level fl bg t' k (ll_buckets l1)" if k: "key_budget (ll_budgets l) k = Some bg" "now \<le> t'" for k bg t'
  proof (cases "k \<in> set keys")
    case True
    have "level fl bg now k (ll_buckets l1') = level fl bg now k (ll_buckets l1)"
      using Allow_level(1) [OF assms(4,3) k(1)] Allow_level(1) [OF assms(5,3), unfolded budgets, OF k(1)] lv [OF k(1) assms(2)] same by simp
    moreover obtain b b' where "fmlookup (ll_buckets l1) k = Some b" "lb_lastSeen b = now" "fmlookup (ll_buckets l1') k = Some b'" "lb_lastSeen b' = now"
      using Allow_buckets(2) [OF assms(4,3) k(1) True] Allow_buckets(2) [OF assms(5,3), unfolded budgets, OF k(1) True] by blast
    ultimately show ?thesis by (auto intro: level_seen)
  next
    case False
    then show ?thesis
      using Allow_buckets(3) [OF assms(4,3)] Allow_buckets(3) [OF assms(5,3)] lv [OF k(1)] assms(2) k(2) by (simp add: level_def)
  qed
  then show "same_levels fl now l1 l1'" unfolding same_levels_def kept by blast
qed

lemma factors_le:
  assumes "1 \<le> x" "0 < (y :: int)" "x * y \<le> m"
  shows "x \<le> m" "y \<le> m"
proof -
  have "x * 1 \<le> x * y" using assms by (intro mult_left_mono) auto
  then show "x \<le> m" using assms(3) by simp
  have "1 * y \<le> x * y" using assms by (intro mult_right_mono) auto
  then show "y \<le> m" using assms(3) by simp
qed

text \<open>A bucket that was idle for as long as its budget takes to fill is full.\<close>

lemma refill_full:
  assumes "rounding fl" "0 \<le> lb_tokens b" "1 \<le> bg_Burst (lb_budget b)" "0 < bg_Refill (lb_budget b)"
    "bg_Burst (lb_budget b) * bg_Refill (lb_budget b) \<le> 2 ^ 53"
    "bg_Burst (lb_budget b) * bg_Refill (lb_budget b) \<le> now - lb_lastSeen b"
  shows "lb_tokens (refill fl now b) = of_int (bg_Burst (lb_budget b))"
proof -
  let ?burst = "bg_Burst (lb_budget b)" and ?refill = "bg_Refill (lb_budget b)"
  have small: "?burst \<le> 2 ^ 53" "?refill \<le> 2 ^ 53"
    using factors_le [OF assms(3-5)] .
  have product: "0 < ?burst * ?refill" using assms(3,4) by (intro mult_pos_pos) auto
  have fl: "fl (of_int ?burst) = of_int ?burst" "fl (of_int ?refill) = of_int ?refill"
      "fl (of_int (?burst * ?refill)) = of_int (?burst * ?refill)"
    by (rule rounding_int [OF assms(1)]; use assms(3-5) small product in linarith)+
  have "(of_int (?burst * ?refill) :: rat) \<le> of_int (now - lb_lastSeen b)" using assms(6) by (rule of_int_le_iff [THEN iffD2])
  then have "(of_int (?burst * ?refill) :: rat) \<le> fl (of_int (now - lb_lastSeen b))"
    using rounding_mono [OF assms(1)] fl(3) by metis
  then have "of_int ?burst \<le> fl (of_int (now - lb_lastSeen b)) / of_int ?refill"
    using assms(4) by (simp add: pos_le_divide_eq)
  then have "of_int ?burst \<le> fl (fl (of_int (now - lb_lastSeen b)) / of_int ?refill)"
    using rounding_mono [OF assms(1)] fl(1) by metis
  then have "of_int ?burst \<le> lb_tokens b + fl (fl (of_int (now - lb_lastSeen b)) / of_int ?refill)" using assms(2) by simp
  then have "of_int ?burst \<le> fl (lb_tokens b + fl (fl (of_int (now - lb_lastSeen b)) / of_int ?refill))"
    using rounding_mono [OF assms(1)] fl(1) by metis
  moreover have "0 < now - lb_lastSeen b"
    using assms(6) product by linarith
  ultimately show ?thesis by (simp add: refill_def Let_def fl)
qed

lemma Sweep_same_levels:
  assumes "rounding fl" "limiter_ok limiter"
    "\<forall>k bg. key_budget (ll_budgets limiter) k = Some bg \<longrightarrow> bg_Burst bg * bg_Refill bg \<le> idle \<and> bg_Burst bg * bg_Refill bg \<le> 2 ^ 53"
  shows "same_levels fl now limiter (fst (limiter_Sweep now idle limiter))"
proof -
  have "level fl bg t k (ll_buckets (fst (limiter_Sweep now idle limiter))) = level fl bg t k (ll_buckets limiter)"
    if k: "key_budget (ll_budgets limiter) k = Some bg" "now \<le> t" for k bg t
  proof (cases "\<exists>b. fmlookup (ll_buckets limiter) k = Some b \<and> lb_lastSeen b < now - idle")
    case True
    then obtain b where b: "fmlookup (ll_buckets limiter) k = Some b" "lb_lastSeen b < now - idle" by blast
    have bg: "1 \<le> bg_Burst bg" "0 < bg_Refill bg" using k(1) by (auto simp: key_budget_def split: option.splits if_splits)
    have "bg_Burst bg \<le> 2 ^ 53"
      using factors_le(1) [OF bg, of "2 ^ 53"] assms(3) k(1) by blast
    then have "fl (of_int (bg_Burst bg)) = of_int (bg_Burst bg)" using assms(1) bg by (intro rounding_int) auto
    moreover have "lb_tokens (refill fl t (b\<lparr>lb_budget := bg\<rparr>)) = of_int (bg_Burst bg)"
      using refill_full [OF assms(1), of "b\<lparr>lb_budget := bg\<rparr>" t] assms(2,3) k b bg unfolding limiter_ok_def by fastforce
    ultimately show ?thesis using b by (simp add: limiter_Sweep_def Let_def level_def)
  next
    case False
    then show ?thesis by (auto simp: limiter_Sweep_def Let_def level_def split: option.splits)
  qed
  then show ?thesis by (auto simp: same_levels_def limiter_Sweep_def Let_def)
qed

text \<open>The limiter is never left out of its range.\<close>

lemma scan_keys_unlimited:
  "key_budget budgets k = None \<Longrightarrow> fmlookup (fst (scan_keys fl budgets now keys m)) k = fmlookup m k"
proof (induction keys arbitrary: m)
  case (Cons key keys)
  obtain m1 found where f: "bucketLocked fl budgets now key m = (m1, found)" by fastforce
  have "fmlookup m1 k = fmlookup m k"
    using Cons.prems f by (cases "key = k") (auto simp: bucketLocked_def Let_def split: option.splits)
  with Cons show ?case by (auto simp: f split: prod.splits option.splits if_splits) (metis fst_conv)+
qed simp

lemma level_nonneg:
  assumes "rounding fl" "limiter_ok limiter" "key_budget (ll_budgets limiter) k = Some bg" "bg_Burst bg \<le> 2 ^ 53"
  shows "0 \<le> level fl bg now k (ll_buckets limiter)"
proof -
  have bg: "1 \<le> bg_Burst bg" "0 < bg_Refill bg" using assms(3) by (auto simp: key_budget_def split: option.splits if_splits)
  then have burst: "fl (of_int (bg_Burst bg)) = of_int (bg_Burst bg)" using assms(1,4) by (intro rounding_int) auto
  have "0 \<le> fl (of_int e) / fl (of_int (bg_Refill bg))" if "0 < e" for e
    using that bg by (intro divide_nonneg_nonneg rounding_nonneg [OF assms(1)]) simp_all
  then have "0 \<le> fl (x + fl (fl (of_int e) / fl (of_int (bg_Refill bg))))" if "0 < e" "0 \<le> x" for x e
    using that by (intro rounding_nonneg [OF assms(1)] add_nonneg_nonneg) simp_all
  moreover have "0 \<le> lb_tokens b" if "fmlookup (ll_buckets limiter) k = Some b" for b
    using assms(2) that unfolding limiter_ok_def by blast
  ultimately show ?thesis using bg burst by (auto simp: level_def refill_def Let_def simp del: of_int_diff split: option.splits)
qed

lemma Allow_ok:
  assumes "rounding fl" "limiter_ok limiter" "\<forall>k bg. key_budget (ll_budgets limiter) k = Some bg \<longrightarrow> bg_Burst bg \<le> 2 ^ 53"
    "Allow fl now keys limiter = (limiter', allowed, wait)" "distinct keys"
  shows "limiter_ok limiter'" "ll_budgets limiter' = ll_budgets limiter"
proof -
  show budgets: "ll_budgets limiter' = ll_budgets limiter"
    using assms(4) by (auto simp: Allow_def split: prod.splits if_splits)
  obtain m' spend a longest where s: "scan_keys fl (ll_budgets limiter) now keys (ll_buckets limiter) = (m', spend, a, longest)"
    by (metis prod_cases4)
  have l: "ll_buckets limiter' = (if a then fold (spend_token fl) spend m' else m')"
    using assms(4) by (auto simp: Allow_def s split: if_splits)
  have "\<exists>bg. key_budget (ll_budgets limiter) k = Some bg \<and> 0 \<le> lb_tokens b \<and> lb_tokens b \<le> of_int (bg_Burst bg)"
    if b: "fmlookup (ll_buckets limiter') k = Some b" for k b
  proof (cases "key_budget (ll_budgets limiter) k")
    case None
    then have "k \<notin> set spend" using scan_keys_scanned [OF s assms(5)] by (auto simp: scanned_def)
    then have "fmlookup (ll_buckets limiter) k = Some b"
      using b scan_keys_unlimited [OF None, of fl now keys "ll_buckets limiter"] by (simp add: l s fold_spend_other split: if_splits)
    then show ?thesis using assms(2) None unfolding limiter_ok_def by fastforce
  next
    case (Some bg)
    have burst: "bg_Burst bg \<le> 2 ^ 53" using assms(3) Some by blast
    note range = level_nonneg [OF assms(1,2) Some burst, of now] level_bounds [OF assms(1,2) Some burst, of now]
    show ?thesis
    proof (cases "k \<in> set keys")
      case True
      have tokens: "lb_tokens b = level fl bg now k (ll_buckets limiter')"
        using Allow_buckets(2) [OF assms(4,5) Some True] b by (auto simp: level_def refill_now)
      have "0 \<le> fl (x - 1) \<and> fl (x - 1) \<le> of_int (bg_Burst bg)" if "1 \<le> x" "x \<le> of_int (bg_Burst bg)" for x
        using that rounding_nonneg [OF assms(1), of "x - 1"] rounding_mono [OF assms(1), of "x - 1" "of_int (bg_Burst bg)"]
          rounding_int [OF assms(1), of "bg_Burst bg"] burst by (auto simp: abs_le_iff)
      then show ?thesis using Allow_level(1,2) [OF assms(4,5) Some] range tokens True Some by auto
    next
      case False
      then show ?thesis using Allow_buckets(3) [OF assms(4,5) False] b assms(2) by (auto simp: limiter_ok_def)
    qed
  qed
  then show "limiter_ok limiter'" by (auto simp: limiter_ok_def budgets)
qed

lemma Sweep_ok: "limiter_ok limiter \<Longrightarrow> limiter_ok (fst (limiter_Sweep now idle limiter))"
  by (auto simp: limiter_ok_def limiter_Sweep_def Let_def)

text \<open>Attempts that carry on from two such limiters end in two such limiters.\<close>

lemma limiter_run_same:
  assumes "rounding fl" "limiter_ok l'" "same_levels fl t l l'"
    "\<forall>k bg. key_budget (ll_budgets l) k = Some bg \<longrightarrow> bg_Burst bg * bg_Refill bg \<le> sweep_idle"
    "sorted (t # map fst events)" "\<forall>(t, e) \<in> set events. event_keys_distinct e"
  shows "snd (limiter_run fl events l') = snd (limiter_run fl (without_sweeps events) l)"
  using assms(2-)
proof (induction events arbitrary: t l l')
  case (Cons a events)
  obtain now e where a: "a = (now, e)" by fastforce
  have budgets: "ll_budgets l' = ll_budgets l" using Cons.prems(2) by (simp add: same_levels_def)
  have fits: "bg_Burst bg * bg_Refill bg \<le> sweep_idle \<and> bg_Burst bg * bg_Refill bg \<le> 2 ^ 53 \<and> bg_Burst bg \<le> 2 ^ 53"
    if k: "key_budget (ll_budgets l) k = Some bg" for k bg
  proof -
    have "1 \<le> bg_Burst bg" "0 < bg_Refill bg" using k by (auto simp: key_budget_def split: option.splits if_splits)
    moreover have "bg_Burst bg * bg_Refill bg \<le> sweep_idle" using Cons.prems(3) k by blast
    moreover have "sweep_idle \<le> 2 ^ 53" by (simp add: sweep_idle_def)
    ultimately show ?thesis using factors_le(1) [of "bg_Burst bg" "bg_Refill bg" "2 ^ 53"] by linarith
  qed
  show ?case
  proof (cases e)
    case (Attempt keys)
    obtain l1 allowed wait where one: "Allow fl now keys l = (l1, allowed, wait)" by (metis prod_cases3)
    obtain l1' allowed' wait' where other: "Allow fl now keys l' = (l1', allowed', wait')" by (metis prod_cases3)
    have k: "t \<le> now" "distinct keys" using Cons.prems by (auto simp: a Attempt)
    note step = Allow_same_levels [OF Cons.prems(2) k one other]
    note ok = Allow_ok [OF assms(1) Cons.prems(1) _ other k(2), unfolded budgets]
    have "ll_budgets l1 = ll_budgets l" using one by (auto simp: Allow_def split: prod.splits if_splits)
    then have "snd (limiter_run fl events l1') = snd (limiter_run fl (without_sweeps events) l1)"
      using Cons.IH [OF ok(1) step(2)] fits Cons.prems(3-) by (auto simp: a)
    then show ?thesis by (auto simp: a Attempt one other step(1,3) without_sweeps_def split: prod.splits)
  next
    case (Succeeded keys)
    have "same_levels fl now l l'" using Cons.prems(2,4) unfolding same_levels_def by (auto simp: a)
    note reset = Reset_same_levels [OF this, of keys]
    have "ll_budgets (limiter_Reset keys l) = ll_budgets l" by (simp add: limiter_Reset_def)
    then show ?thesis
      using Cons.IH [OF Reset_ok [OF Cons.prems(1)] reset] Cons.prems(3-) by (auto simp: a Succeeded without_sweeps_def)
  next
    case SweepTick
    have "same_levels fl now l' (fst (limiter_Sweep now sweep_idle l'))"
      using Sweep_same_levels [OF assms(1) Cons.prems(1)] fits unfolding budgets by blast
    then have "same_levels fl now l (fst (limiter_Sweep now sweep_idle l'))"
      using Cons.prems(2,4) unfolding same_levels_def by (auto simp: a)
    then show ?thesis
      using Cons.IH [OF Sweep_ok [OF Cons.prems(1)]] Cons.prems(3-) by (auto simp: a SweepTick without_sweeps_def)
  qed
qed (simp add: without_sweeps_def)

text \<open>C37: the sweeps of the limiter are invisible. A server that sweeps its limiter at any times between sign-in attempts, and the
  resets after those that succeed, answers every attempt as it would without sweeping: it lets through exactly the same ones and tells
  the others to wait as long, in rounded arithmetic too. The buckets it keeps after a sweep were used within the last hour.\<close>

theorem sweeps_invisible:
  assumes "rounding fl" "sorted (map fst events)" "\<forall>(t, e) \<in> set events. event_keys_distinct e"
  shows "snd (limiter_run fl events (NewLoginLimiter None)) = snd (limiter_run fl (without_sweeps events) (NewLoginLimiter None)) \<and>
    (\<forall>now limiter k b. fmlookup (ll_buckets (fst (limiter_Sweep now sweep_idle limiter))) k = Some b \<longrightarrow> now - sweep_idle \<le> lb_lastSeen b)"
proof
  let ?l = "NewLoginLimiter None"
  have "limiter_ok ?l" "\<And>t. same_levels fl t ?l ?l" by (simp_all add: limiter_ok_def NewLoginLimiter_def same_levels_def)
  moreover have "\<forall>k bg. key_budget (ll_budgets ?l) k = Some bg \<longrightarrow> bg_Burst bg * bg_Refill bg \<le> sweep_idle"
    by (auto simp: key_budget_def NewLoginLimiter_def DefaultLoginBudgets_def sweep_idle_def split: option.splits if_splits)
  moreover have "sorted ((if events = [] then 0 else fst (hd events)) # map fst events)"
    using assms(2) by (cases events) auto
  ultimately show "snd (limiter_run fl events ?l) = snd (limiter_run fl (without_sweeps events) ?l)"
    using limiter_run_same [OF assms(1)] assms(3) by blast
  show "\<forall>now limiter k b. fmlookup (ll_buckets (fst (limiter_Sweep now sweep_idle limiter))) k = Some b \<longrightarrow> now - sweep_idle \<le> lb_lastSeen b"
    by (auto simp: limiter_Sweep_def Let_def not_less split: if_splits)
qed

theorem sweeps_invisible_witness:
  "let bob = [''user:bob'']; events = [(0, Attempt bob), (1, Succeeded bob), (1, Attempt bob), (3600000000002, SweepTick), (3600000000002, Attempt bob)]
   in snd (limiter_run exact events (NewLoginLimiter None)) =
      snd (limiter_run exact [(0, Attempt bob), (1, Succeeded bob), (1, Attempt bob), (3600000000002, Attempt bob)] (NewLoginLimiter None)) \<and>
      fmdom' (ll_buckets (fst (limiter_Sweep 3600000000002 sweep_idle (fst (limiter_run exact (take 3 events) (NewLoginLimiter None)))))) = {}"
proof -
  let ?bob = "[''user:bob'']"
  let ?events = "[(0, Attempt ?bob), (1, Succeeded ?bob), (1, Attempt ?bob), (3600000000002, SweepTick), (3600000000002, Attempt ?bob)]"
  have "rounding exact" by (simp add: rounding_def exact_def)
  from sweeps_invisible [OF this, of ?events]
  have "snd (limiter_run exact ?events (NewLoginLimiter None)) =
      snd (limiter_run exact [(0, Attempt ?bob), (1, Succeeded ?bob), (1, Attempt ?bob), (3600000000002, Attempt ?bob)] (NewLoginLimiter None))"
    by (simp add: without_sweeps_def)
  moreover have "fmdom' (ll_buckets (fst (limiter_Sweep 3600000000002 sweep_idle
      (fst (limiter_run exact (take 3 ?events) (NewLoginLimiter None)))))) = {}" by code_simp
  ultimately show ?thesis unfolding Let_def by (rule conjI)
qed

end
