(* ===== verification/Login.thy ===== *)
theory Login
  imports Local_Accounts Directories Limiter
begin

text \<open>
  Signing in and out over HTTP: username and password (\<open>internal/auth/credentials.go\<close>) and the
  routes under \<open>/api/v1/auth/\<close> (\<open>internal/auth/router.go\<close>, \<open>OIDCHandler.ServeHTTP\<close>).

  The state is that of the tables with the limiter's, which is there when one is wired. A request
  comes with a moment: the clocks of the process (in microseconds, and in nanoseconds for the limiter)
  and of the database, the random bytes it may draw, and whether its client gives up while it waits
  for a slot to verify a password in. \<open>split_host\<close> is the host of \<open>net.SplitHostPort\<close>.
\<close>

section \<open>Username and password\<close>

record login_state =
  ls_auth :: auth_state
  ls_limiter :: "LoginLimiter option"

record moment =
  m_now :: instant
  m_db_now :: instant
  m_clock :: int
  m_salt :: "string option"
  m_random :: "string option"
  m_state :: "string option"
  m_nonce :: "string option"
  m_verifier :: "string option"
  m_cancelled :: bool

type_synonym verifier = "moment \<Rightarrow> string \<Rightarrow> string \<Rightarrow> auth_state \<Rightarrow> auth_state \<times> (access_error + DirectoryIdentity)"

record credential_config =
  cc_verify :: verifier
  cc_normalize :: "string \<Rightarrow> string"
  cc_url_parse :: "string \<Rightarrow> (string \<times> string) option"
  cc_split_host :: "string \<Rightarrow> string option"
  cc_round :: "rat \<Rightarrow> rat"

record login_body =
  body_Username :: string
  body_Password :: string
  body_DesktopRedirect :: string

datatype login_result = loginSucceeded | loginInvalid | loginThrottled | loginDenied | loginError

definition sameOriginRequest :: "credential_config \<Rightarrow> request \<Rightarrow> bool" where
  "sameOriginRequest cc r =
     (if requestBearerToken r \<noteq> '''' then True
      else (case cc_url_parse cc (req_header r ''Origin'') of
              None \<Rightarrow> False
            | Some (scheme, host) \<Rightarrow> scheme \<noteq> '''' \<and> host = req_host r))"

definition requestHost :: "credential_config \<Rightarrow> string \<Rightarrow> string" where
  "requestHost cc remoteAddr = (case cc_split_host cc remoteAddr of None \<Rightarrow> remoteAddr | Some host \<Rightarrow> host)"

definition login_keys :: "credential_config \<Rightarrow> string \<Rightarrow> login_body \<Rightarrow> string list" where
  "login_keys cc remoteAddr body =
     [LoginKey LoginKeyUser (cc_normalize cc (body_Username body)), LoginKey LoginKeyAddress (requestHost cc remoteAddr)]"

text \<open>\<open>Limiter.Allow\<close>, when there is a limiter: how long to wait if the attempt is refused.\<close>

definition limit_attempt :: "credential_config \<Rightarrow> int \<Rightarrow> string list \<Rightarrow> login_state \<Rightarrow> login_state \<times> int option" where
  "limit_attempt cc clock keys s =
     (case ls_limiter s of
        None \<Rightarrow> (s, None)
      | Some limiter \<Rightarrow>
          (case Allow (cc_round cc) clock keys limiter of
             (limiter', allowed, retryAfter) \<Rightarrow>
               (s\<lparr>ls_limiter := Some limiter'\<rparr>, if allowed then None else Some retryAfter)))"

text \<open>\<open>CredentialHandler.completeDesktopSignIn\<close>\<close>

definition credential_desktop ::
  "auth_env \<Rightarrow> moment \<Rightarrow> string \<Rightarrow> Principal \<Rightarrow> auth_state \<Rightarrow> auth_state \<times> auth_reply \<times> login_result" where
  "credential_desktop env m redirect caller s =
     (if \<not> env_desktop_codes env then (s, Refused 501 ''desktop sign-in is not configured'', loginError)
      else case ValidateDesktopRedirect env redirect of
        None \<Rightarrow> (s, Refused 400 ''invalid desktop redirect'', loginInvalid)
      | Some validated \<Rightarrow>
          (case m_random m of
             None \<Rightarrow> (s, Refused 500 ''could not complete sign-in'', loginError)
           | Some code \<Rightarrow>
               (case StoreDesktopCode (m_db_now m) \<lparr>code_Hash = env_hash env code, code_UserID = UserID caller,
                     code_ExpiresAt = m_now m + DesktopCodeTTL\<rparr> s of
                  Inl e \<Rightarrow> (s, Refused 500 ''could not complete sign-in'', loginError)
                | Inr s' \<Rightarrow> (s', DesktopCodeBody code, loginSucceeded))))"

text \<open>The end of a sign-in that was let through.\<close>

definition credential_finish ::
  "auth_env \<Rightarrow> moment \<Rightarrow> string \<Rightarrow> Principal \<Rightarrow> auth_state \<Rightarrow> auth_state \<times> auth_reply \<times> login_result" where
  "credential_finish env m redirect caller s =
     (if redirect \<noteq> '''' then credential_desktop env m redirect caller s
      else case NewSession env (m_random m) (m_now m) (m_db_now m) (UserID caller) s of
        Inl e \<Rightarrow> (s, Refused 500 ''could not create session'', loginError)
      | Inr (token, s') \<Rightarrow> (s', SignedIn token, loginSucceeded))"

text \<open>\<open>CredentialHandler.verify\<close> under the bound on concurrent derivations: \<^const>\<open>None\<close> when the
  client is gone first.\<close>

definition bounded_verify ::
  "credential_config \<Rightarrow> moment \<Rightarrow> string \<Rightarrow> string \<Rightarrow> auth_state \<Rightarrow> auth_state \<times> (access_error + DirectoryIdentity) option" where
  "bounded_verify cc m username password s =
     (if m_cancelled m then (s, None)
      else let (s', result) = cc_verify cc m username password s in (s', Some result))"

definition credential_login ::
  "auth_env \<Rightarrow> credential_config \<Rightarrow> moment \<Rightarrow> request \<Rightarrow> string \<Rightarrow> login_body body \<Rightarrow> login_state \<Rightarrow>
   login_state \<times> auth_reply \<times> login_result" where
  "credential_login env cc m r remoteAddr body s =
     (if \<not> sameOriginRequest cc r then (s, Refused 403 ''cross-origin sign-in is refused'', loginDenied)
      else case body of
        BodyValue b rest \<Rightarrow>
          if body_Username b = '''' then (s, Refused 400 ''username and password are required'', loginInvalid)
          else
            let keys = login_keys cc remoteAddr b; (s1, limited) = limit_attempt cc (m_clock m) keys s in
            (case limited of
               Some retryAfter \<Rightarrow> (s1, Throttled (retryAfter div 1000000000 + 1), loginThrottled)
             | None \<Rightarrow>
                 let (a2, verified) = bounded_verify cc m (body_Username b) (body_Password b) (ls_auth s1);
                     s2 = s1\<lparr>ls_auth := a2\<rparr> in
                 (case verified of
                    None \<Rightarrow> (s2, NoReply, loginError)
                  | Some (Inl InvalidCredentials) \<Rightarrow> (s2, Refused 401 ''invalid credentials'', loginInvalid)
                  | Some (Inl e) \<Rightarrow> (s2, Refused 502 ''could not complete sign-in'', loginError)
                  | Some (Inr identity) \<Rightarrow>
                      let (accounts', resolved) = ResolveDirectoryIdentity (env_lower env) (m_db_now m) identity (st_accounts a2);
                          s3 = s2\<lparr>ls_auth := a2\<lparr>st_accounts := accounts'\<rparr>\<rparr> in
                      (case resolved of
                         Inl AccessDenied \<Rightarrow> (s3, Refused 403 ''read access denied'', loginDenied)
                       | Inl e \<Rightarrow> (s3, Refused 500 ''could not resolve identity'', loginError)
                       | Inr caller \<Rightarrow>
                           let s4 = s3\<lparr>ls_limiter := map_option (limiter_Reset keys) (ls_limiter s3)\<rparr>;
                               (a5, reply, result) = credential_finish env m (body_DesktopRedirect b) caller (ls_auth s4)
                           in (s4\<lparr>ls_auth := a5\<rparr>, reply, result))))
      | _ \<Rightarrow> (s, Refused 400 ''username and password are required'', loginInvalid))"

section \<open>Routes\<close>

definition credential_serve ::
  "auth_env \<Rightarrow> credential_config \<Rightarrow> moment \<Rightarrow> string \<Rightarrow> string \<Rightarrow> request \<Rightarrow> string \<Rightarrow> login_body body \<Rightarrow> login_state \<Rightarrow>
   login_state \<times> auth_reply" where
  "credential_serve env cc m path meth r remoteAddr body s =
     (if path \<noteq> ''/api/v1/auth/login'' then (s, PathNotFound)
      else if meth \<noteq> ''POST'' then (s, MethodNotAllowed)
      else case credential_login env cc m r remoteAddr body s of (s', reply, result) \<Rightarrow> (s', reply))"

text \<open>\<open>OIDCHandler.ServeHTTP\<close>\<close>

definition oidc_serve ::
  "auth_env \<Rightarrow> moment \<Rightarrow> string \<Rightarrow> string \<Rightarrow> request \<Rightarrow> string body \<Rightarrow> auth_state \<Rightarrow> auth_state \<times> auth_reply" where
  "oidc_serve env m path meth r code s =
     (if path = ''/api/v1/auth/oidc/login'' then
        if meth \<noteq> ''GET'' then (s, MethodNotAllowed)
        else oidc_login env (m_state m, m_nonce m, m_verifier m) (m_now m) (m_db_now m) r s
      else if path = ''/api/v1/auth/desktop/exchange'' then
        if meth \<noteq> ''POST'' then (s, MethodNotAllowed)
        else oidc_exchange env (m_random m) (m_now m) (m_db_now m) code s
      else if path = ''/api/v1/auth/oidc/callback'' then
        if meth \<noteq> ''GET'' then (s, MethodNotAllowed)
        else oidc_callback env (m_random m) (m_now m) (m_db_now m) r s
      else (s, PathNotFound))"

record auth_router =
  rt_oidc :: bool
  rt_credentials :: "credential_config option"

definition router_logout :: "auth_env \<Rightarrow> request \<Rightarrow> auth_state \<Rightarrow> auth_state \<times> auth_reply" where
  "router_logout env r s = (Revoke env r s, SignedOut)"

text \<open>\<open>Router.ServeHTTP\<close>; the two bodies are the one body, decoded for the route that reads it.\<close>

definition router_serve ::
  "auth_env \<Rightarrow> auth_router \<Rightarrow> moment \<Rightarrow> string \<Rightarrow> string \<Rightarrow> request \<Rightarrow> string \<Rightarrow> login_body body \<Rightarrow> string body \<Rightarrow> login_state \<Rightarrow>
   login_state \<times> auth_reply" where
  "router_serve env router m path meth r remoteAddr body code s =
     (if path = ''/api/v1/auth/logout'' then
        if meth \<noteq> ''POST'' then (s, MethodNotAllowed)
        else let (a, reply) = router_logout env r (ls_auth s) in (s\<lparr>ls_auth := a\<rparr>, reply)
      else case (rt_credentials router, path = ''/api/v1/auth/login'') of
        (Some cc, True) \<Rightarrow> credential_serve env cc m path meth r remoteAddr body s
      | _ \<Rightarrow>
          if rt_oidc router then let (a, reply) = oidc_serve env m path meth r code (ls_auth s) in (s\<lparr>ls_auth := a\<rparr>, reply)
          else (s, PathNotFound))"

section \<open>Runs\<close>

text \<open>What happens: a request under \<open>/api/v1/auth/\<close>, a request of the API that is authenticated, and
  anything that leaves the sessions and the codes alone (administration, the account commands).\<close>

datatype auth_event =
  Served moment string string request string "login_body body" "string body" | Asked instant request | Elsewhere

inductive auth_step :: "auth_env \<Rightarrow> auth_router \<Rightarrow> login_state \<Rightarrow> auth_event \<times> auth_reply \<Rightarrow> login_state \<Rightarrow> bool"
  for env :: auth_env and router :: auth_router
where
  served: "router_serve env router m path meth r remoteAddr body code s = (s', reply) \<Longrightarrow>
    auth_step env router s (Served m path meth r remoteAddr body code, reply) s'"
| asked: "auth_step env router s (Asked now r, NoReply) (s\<lparr>ls_auth := fst (Authenticate env now r (ls_auth s))\<rparr>)"
| elsewhere: "auth_ok (ls_auth s') \<Longrightarrow> session_entries (ls_auth s') = session_entries (ls_auth s) \<Longrightarrow>
    code_entries (ls_auth s') = code_entries (ls_auth s) \<Longrightarrow> auth_step env router s (Elsewhere, NoReply) s'"

inductive auth_trace :: "auth_env \<Rightarrow> auth_router \<Rightarrow> login_state \<Rightarrow> (auth_event \<times> auth_reply) list \<Rightarrow> login_state \<Rightarrow> bool"
  for env :: auth_env and router :: auth_router
where
  nil: "auth_trace env router s [] s"
| cons: "auth_step env router s e s1 \<Longrightarrow> auth_trace env router s1 es s' \<Longrightarrow> auth_trace env router s (e # es) s'"

inductive_cases auth_traceE: "auth_trace env router s (e # es) s'"
inductive_simps auth_trace_simps: "auth_trace env router s [] s'" "auth_trace env router s (e # es) s'"

text \<open>A sign-out with a session's token.\<close>

fun signs_out :: "auth_env \<Rightarrow> string \<Rightarrow> auth_event \<Rightarrow> bool" where
  "signs_out env h (Served m path meth r remoteAddr body code) \<longleftrightarrow>
     path = ''/api/v1/auth/logout'' \<and> meth = ''POST'' \<and> env_hash env (requestSessionToken r) = h"
| "signs_out env h e = False"

text \<open>A code that was exchanged for a session.\<close>

fun redeemed :: "string \<Rightarrow> auth_event \<times> auth_reply \<Rightarrow> bool" where
  "redeemed c (Served m path meth r remoteAddr body code, reply) \<longleftrightarrow>
     path = ''/api/v1/auth/desktop/exchange'' \<and> (case code of BodyValue c' rest \<Rightarrow> c' = c | _ \<Rightarrow> False) \<and>
     (case reply of DesktopToken token t \<Rightarrow> True | _ \<Rightarrow> False)"
| "redeemed c (e, reply) = False"

text \<open>The random tokens drawn for sessions and codes.\<close>

fun drawn :: "auth_event \<times> auth_reply \<Rightarrow> string option" where
  "drawn (Served m path meth r remoteAddr body code, reply) = m_random m"
| "drawn (e, reply) = None"

section \<open>Samples\<close>

text \<open>Requests served one after another.\<close>

fun served_run ::
  "auth_env \<Rightarrow> auth_router \<Rightarrow> (moment \<times> string \<times> string \<times> request \<times> string body) list \<Rightarrow> login_state \<Rightarrow>
   (auth_event \<times> auth_reply) list \<times> login_state" where
  "served_run env router [] s = ([], s)"
| "served_run env router ((m, path, meth, r, code) # rest) s =
     (let (s1, reply) = router_serve env router m path meth r [] BodyEmpty code s;
          (es, s') = served_run env router rest s1
      in ((Served m path meth r [] BodyEmpty code, reply) # es, s'))"

definition sample_moment :: "string \<Rightarrow> moment" where
  "sample_moment token = \<lparr>m_now = 10, m_db_now = 10, m_clock = 0, m_salt = None, m_random = Some token, m_state = None,
     m_nonce = None, m_verifier = None, m_cancelled = False\<rparr>"

definition sample_router :: auth_router where
  "sample_router = \<lparr>rt_oidc = True, rt_credentials = None\<rparr>"

definition sample_login :: login_state where
  "sample_login = \<lparr>ls_auth = sample_auth\<lparr>st_transactions := [\<lparr>tx_StateHash = ''st'', tx_Nonce = ''nonce'', tx_CodeVerifier = ''v'',
     tx_ExpiresAt = 100, tx_DesktopRedirect = ''http://localhost:9000/cb''\<rparr>]\<rparr>, ls_limiter = None\<rparr>"

text \<open>A desktop sign-in whose code is presented twice.\<close>

definition sample_requests :: "(moment \<times> string \<times> string \<times> request \<times> string body) list" where
  "sample_requests =
     [(sample_moment ''cd'', ''/api/v1/auth/oidc/callback'', ''GET'', sample_callback, BodyEmpty),
      (sample_moment ''t1'', ''/api/v1/auth/desktop/exchange'', ''POST'', sample_callback, BodyValue ''cd'' False),
      (sample_moment ''t2'', ''/api/v1/auth/desktop/exchange'', ''POST'', sample_callback, BodyValue ''cd'' False)]"

definition sample_session :: login_state where
  "sample_session = \<lparr>ls_auth = sample_auth\<lparr>st_sessions := [\<lparr>session_TokenHash = ''tok'', session_UserID = 7,
     session_ExpiresAt = 100, session_last_seen_at = 1\<rparr>]\<rparr>, ls_limiter = None\<rparr>"

definition sample_bearer_request :: request where
  "sample_bearer_request = sample_callback\<lparr>req_header := (\<lambda>n. if n = ''Authorization'' then ''Bearer tok'' else [])\<rparr>"

section \<open>Credential verifiers\<close>

definition local_verifier :: "local_env \<Rightarrow> string \<Rightarrow> verifier" where
  "local_verifier le decoy m username password s =
     (case local_Verify le decoy (m_salt m) (m_now m) (m_db_now m) username password s of (s', result, derivations) \<Rightarrow> (s', result))"

definition ldap_verifier :: "ldap_library \<Rightarrow> LDAPConfig \<Rightarrow> ldap_server \<Rightarrow> verifier" where
  "ldap_verifier lib config server m username password s = (s, ldap_Verify lib config server username password)"

text \<open>What a request leaves behind: the constraints, the sessions there were, and for each code no more
  than were there or drawn, less those redeemed.\<close>

definition auth_kept :: "auth_env \<Rightarrow> string option \<Rightarrow> string \<Rightarrow> nat \<Rightarrow> auth_state \<Rightarrow> auth_state \<Rightarrow> bool" where
  "auth_kept env random h n s s' \<longleftrightarrow>
     auth_ok s' \<and> session_entries s \<subseteq>\<^sub>m session_entries s' \<and>
     codes.held h s' + n \<le> codes.held h s + (if map_option (env_hash env) random = Some h then 1 else 0)"

text \<open>The verifiers the server is wired with.\<close>

definition wired :: "auth_router \<Rightarrow> bool" where
  "wired router \<longleftrightarrow>
     (\<forall>cc. rt_credentials router = Some cc \<longrightarrow>
        (\<exists>le decoy. cc_verify cc = local_verifier le decoy) \<or>
        (\<exists>lib config server. cc_verify cc = ldap_verifier lib config server))"

text \<open>What a step leaves of the sessions and of the code \<open>c\<close>.\<close>

definition step_kept :: "auth_env \<Rightarrow> string \<Rightarrow> auth_event \<times> auth_reply \<Rightarrow> auth_state \<Rightarrow> auth_state \<Rightarrow> bool" where
  "step_kept env c e s s' \<longleftrightarrow>
     auth_ok s' \<and>
     (\<forall>h entry. session_entries s h = Some entry \<and> \<not> signs_out env h (fst e) \<longrightarrow> session_entries s' h = Some entry) \<and>
     codes.held (env_hash env c) s' + (if redeemed c e then 1 else 0) \<le>
       codes.held (env_hash env c) s + (if map_option (env_hash env) (drawn e) = Some (env_hash env c) then 1 else 0)"

definition sample_credentials :: credential_config where
  "sample_credentials = \<lparr>cc_verify = local_verifier sample_local ''decoy'', cc_normalize = (\<lambda>n. n), cc_url_parse = (\<lambda>u. None),
     cc_split_host = (\<lambda>a. None), cc_round = (\<lambda>x. x)\<rparr>"

text \<open>What the handler relies on of whatever verifies a username and a password: it leaves the sessions
  and the codes alone and keeps the constraints of the tables.\<close>

locale credential_verifier =
  fixes verify :: verifier
  assumes verify_ok: "auth_ok s \<Longrightarrow> auth_ok (fst (verify m username password s))"
    and verify_sessions: "session_entries (fst (verify m username password s)) = session_entries s"
    and verify_codes: "code_entries (fst (verify m username password s)) = code_entries s"
begin

lemma bounded_verify_keeps:
  assumes "cc_verify cc = verify" "bounded_verify cc m username password s = (s', result)" "auth_ok s"
  shows "auth_ok s'" "session_entries s' = session_entries s" "code_entries s' = code_entries s"
  using assms verify_ok [OF assms(3)] verify_sessions verify_codes
  by (auto simp: bounded_verify_def split: if_splits prod.splits) (metis fst_conv)+

end

section \<open>Lemmas\<close>

lemma auth_kept_same:
  "auth_ok s' \<Longrightarrow> session_entries s' = session_entries s \<Longrightarrow> code_entries s' = code_entries s \<Longrightarrow> auth_kept env random h 0 s s'"
  by (simp add: auth_kept_def codes.held_def)

lemma auth_kept_refl: "auth_ok s \<Longrightarrow> auth_kept env random h 0 s s"
  by (simp add: auth_kept_same)

text \<open>A step that touches neither, before one that may.\<close>

lemma auth_kept_after:
  "auth_kept env random h n s1 s' \<Longrightarrow> session_entries s1 = session_entries s \<Longrightarrow> code_entries s1 = code_entries s \<Longrightarrow>
    auth_kept env random h n s s'"
  by (simp add: auth_kept_def codes.held_def)

lemma NewSession_kept:
  assumes "NewSession env random now db_now uid s = Inr (token, s')" "auth_ok s"
  shows "auth_kept env random h 0 s s'"
  using NewSession_Inr [OF assms] by (auto simp: auth_kept_def codes.held_def map_le_def)

lemma StoreDesktopCode_kept:
  assumes "StoreDesktopCode db_now \<lparr>code_Hash = env_hash env code, code_UserID = uid, code_ExpiresAt = t\<rparr> s = Inr s'" "auth_ok s"
  shows "auth_kept env (Some code) h 0 s s'"
  using codes.put_held [OF assms(2,1), of h] codes.put_ok [OF assms(2,1)] StoreDesktopCode_other(1) [OF assms(1)]
  by (simp add: auth_kept_def split: if_splits)

lemma oidc_desktop_kept:
  assumes "oidc_desktop env random now db_now redirect caller s = (s', reply)" "auth_ok s"
  shows "auth_kept env random h 0 s s'"
proof (cases "s' = s")
  case False
  then obtain code where "random = Some code"
    "StoreDesktopCode db_now \<lparr>code_Hash = env_hash env code, code_UserID = UserID caller, code_ExpiresAt = now + DesktopCodeTTL\<rparr> s = Inr s'"
    using assms(1) by (auto simp: oidc_desktop_def split: if_splits option.splits sum.splits)
  then show ?thesis using StoreDesktopCode_kept [OF _ assms(2)] by simp
qed (use assms(2) in \<open>simp add: auth_kept_refl\<close>)

lemma oidc_finish_kept:
  assumes "oidc_finish env random now db_now tx caller s = (s', reply)" "auth_ok s"
  shows "auth_kept env random h 0 s s'"
  using assms oidc_desktop_kept [OF _ assms(2)] NewSession_kept [OF _ assms(2)] auth_kept_refl [OF assms(2)]
  by (auto simp: oidc_finish_def split: if_splits sum.splits)

lemma credential_desktop_kept:
  assumes "credential_desktop env m redirect caller s = (s', reply, result)" "auth_ok s"
  shows "auth_kept env (m_random m) h 0 s s'"
proof (cases "s' = s")
  case False
  then obtain code where "m_random m = Some code"
    "StoreDesktopCode (m_db_now m) \<lparr>code_Hash = env_hash env code, code_UserID = UserID caller, code_ExpiresAt = m_now m + DesktopCodeTTL\<rparr> s = Inr s'"
    using assms(1) by (auto simp: credential_desktop_def split: if_splits option.splits sum.splits)
  then show ?thesis using StoreDesktopCode_kept [OF _ assms(2)] by simp
qed (use assms(2) in \<open>simp add: auth_kept_refl\<close>)

lemma credential_finish_kept:
  assumes "credential_finish env m redirect caller s = (s', reply, result)" "auth_ok s"
  shows "auth_kept env (m_random m) h 0 s s'"
  using assms credential_desktop_kept [OF _ assms(2)] NewSession_kept [OF _ assms(2)] auth_kept_refl [OF assms(2)]
  by (auto simp: credential_finish_def split: if_splits sum.splits)

lemma oidc_login_kept:
  assumes "oidc_login env randoms now db_now r s = (s', reply)" "auth_ok s"
  shows "auth_kept env random h 0 s s'"
proof (cases "s' = s")
  case False
  then obtain tx where "StoreOIDCTransaction db_now tx s = Inr s'"
    using assms(1) by (auto simp: oidc_login_def Let_def split: if_splits option.splits sum.splits prod.splits)
  then show ?thesis
    using txs.put_ok [OF assms(2)] by (intro auth_kept_same) (auto dest!: StoreOIDCTransaction_Inr(1))
qed (use assms(2) in \<open>simp add: auth_kept_refl\<close>)

lemma callback_ends:
  assumes "oidc_callback env random now db_now r s = (s', reply)"
  defines "s1 \<equiv> fst (ConsumeOIDCTransaction (env_hash env (query_get r ''state'')) now s)"
  obtains (untouched) "s' = s" | (consumed) "s' = s1"
    | (resolved) identity a' res where "ResolveDirectoryIdentity (env_lower env) db_now identity (st_accounts s1) = (a', res)"
      "s' = s1\<lparr>st_accounts := a'\<rparr>"
    | (finished) identity a' res tx caller where "ResolveDirectoryIdentity (env_lower env) db_now identity (st_accounts s1) = (a', res)"
      "oidc_finish env random now db_now tx caller (s1\<lparr>st_accounts := a'\<rparr>) = (s', reply)"
proof -
  obtain c where c: "ConsumeOIDCTransaction (env_hash env (query_get r ''state'')) now s = (s1, c)"
    unfolding s1_def by (metis prod.collapse)
  show thesis
    using assms(1) untouched consumed resolved finished unfolding oidc_callback_def Let_def c
    by (fastforce split: if_splits sum.splits option.splits prod.splits access_error.splits)
qed

lemma oidc_callback_kept:
  assumes "oidc_callback env random now db_now r s = (s', reply)" "auth_ok s"
  shows "auth_kept env random h 0 s s'"
proof -
  let ?s1 = "fst (ConsumeOIDCTransaction (env_hash env (query_get r ''state'')) now s)"
  have ok: "auth_ok ?s1" by (rule txs.take_ok [OF assms(2)])
  note same = ConsumeOIDCTransaction_other(1,2) [of "env_hash env (query_get r ''state'')" now s]
  from assms(1) show ?thesis
  proof (cases rule: callback_ends)
    case (resolved identity a' res)
    then show ?thesis using resolve_ok [OF resolved(1) ok] same by (intro auth_kept_same) simp_all
  next
    case (finished identity a' res tx caller)
    show ?thesis
      by (rule auth_kept_after [OF oidc_finish_kept [OF finished(2) resolve_ok [OF finished(1) ok]]]) (simp_all add: same)
  qed (use assms(2) ok same in \<open>simp_all add: auth_kept_refl auth_kept_same\<close>)
qed

text \<open>An exchange that answers with a token took the code out of the table.\<close>

lemma oidc_exchange_kept:
  assumes "oidc_exchange env random now db_now code s = (s', reply)" "auth_ok s"
  shows "auth_kept env random (env_hash env c) (if (\<exists>rest. code = BodyValue c rest) \<and> (\<exists>token t. reply = DesktopToken token t) then 1 else 0) s s'"
proof (cases "\<exists>token t. reply = DesktopToken token t")
  case True
  then obtain token t c' rest uid s1 where e: "reply = DesktopToken token t" "code = BodyValue c' rest"
    "ConsumeDesktopCode (env_hash env c') now s = (s1, Inr uid)" "NewSession env random now db_now uid s1 = Inr (token, s')"
    using assms(1) by (auto simp: oidc_exchange_def ExchangeDesktopCode_def Let_def split: body.splits if_splits sum.splits prod.splits access_error.splits)
  have ok: "auth_ok s1" using codes.take_ok [OF assms(2), of "env_hash env c'" now] by (simp add: e(3))
  have "session_entries s1 = session_entries s" using ConsumeDesktopCode_other(1) [of "env_hash env c'" now s] by (simp add: e(3))
  moreover have "codes.held (env_hash env c) s1 + (if c' = c then 1 else 0) \<le> codes.held (env_hash env c) s"
    using codes.take_held [OF assms(2), of "env_hash env c" "env_hash env c'" now] by (auto simp: e(3) split: if_splits)
  ultimately show ?thesis
    using NewSession_kept [OF e(4) ok, of "env_hash env c"] by (auto simp: auth_kept_def e(1,2))
next
  case False
  define s1 where "s1 = (case code of BodyValue c' rest \<Rightarrow> fst (ConsumeDesktopCode (env_hash env c') now s) | _ \<Rightarrow> s)"
  have "s' = s \<or> s' = s1"
    using assms(1) False unfolding s1_def
    by (auto simp: oidc_exchange_def ExchangeDesktopCode_def Let_def split: body.splits if_splits sum.splits prod.splits access_error.splits)
  moreover have "auth_ok s1" "session_entries s1 = session_entries s"
    using codes.take_ok [OF assms(2)] assms(2) ConsumeDesktopCode_other(1) by (auto simp: s1_def split: body.splits)
  moreover have "codes.held (env_hash env c) s1 \<le> codes.held (env_hash env c) s"
  proof (cases code)
    case (BodyValue c' rest)
    then show ?thesis using codes.take_held [OF assms(2), of "env_hash env c" "env_hash env c'" now] by (simp add: s1_def split: if_splits)
  qed (simp_all add: s1_def)
  ultimately show ?thesis using False assms(2) by (auto simp: auth_kept_def)
qed

lemma oidc_serve_kept:
  assumes "oidc_serve env m path meth r code s = (s', reply)" "auth_ok s"
  shows "auth_kept env (m_random m) (env_hash env c)
    (if path = ''/api/v1/auth/desktop/exchange'' \<and> (\<exists>rest. code = BodyValue c rest) \<and> (\<exists>token t. reply = DesktopToken token t)
     then 1 else 0) s s'"
proof (cases "path = ''/api/v1/auth/desktop/exchange'' \<and> meth = ''POST''")
  case True
  then have "oidc_exchange env (m_random m) (m_now m) (m_db_now m) code s = (s', reply)" using assms(1) by (simp add: oidc_serve_def)
  from oidc_exchange_kept [OF this assms(2), of c] show ?thesis using True by simp
next
  case False
  have "auth_kept env (m_random m) (env_hash env c) 0 s s'"
    using assms(1) False oidc_login_kept [OF _ assms(2)] oidc_callback_kept [OF _ assms(2)] auth_kept_refl [OF assms(2)]
    by (auto simp: oidc_serve_def split: if_splits)
  moreover have "reply = MethodNotAllowed" if "path = ''/api/v1/auth/desktop/exchange''"
    using assms(1) False that by (simp add: oidc_serve_def)
  ultimately show ?thesis by auto
qed

lemma limit_attempt_auth: "limit_attempt cc clock keys s = (s', limited) \<Longrightarrow> ls_auth s' = ls_auth s"
  by (auto simp: limit_attempt_def split: option.splits prod.splits)

text \<open>How a sign-in ends: turned away before the verifier, refused by it or by the accounts, or finished.\<close>

lemma credential_login_ends:
  assumes "credential_login env cc m r remoteAddr body s = (s', reply, result)"
  obtains (turned_away) "ls_auth s' = ls_auth s" "\<And>token. reply \<noteq> SignedIn token" "\<And>code. reply \<noteq> DesktopCodeBody code"
    | (refused) b rest verified where "body = BodyValue b rest"
      "bounded_verify cc m (body_Username b) (body_Password b) (ls_auth s) = (ls_auth s', verified)"
      "\<And>token. reply \<noteq> SignedIn token" "\<And>code. reply \<noteq> DesktopCodeBody code"
    | (denied) b rest a identity e accounts' where "body = BodyValue b rest"
      "bounded_verify cc m (body_Username b) (body_Password b) (ls_auth s) = (a, Some (Inr identity))"
      "ResolveDirectoryIdentity (env_lower env) (m_db_now m) identity (st_accounts a) = (accounts', Inl e)"
      "ls_auth s' = a\<lparr>st_accounts := accounts'\<rparr>" "\<And>token. reply \<noteq> SignedIn token" "\<And>code. reply \<noteq> DesktopCodeBody code"
    | (finished) b rest a identity caller accounts' where "body = BodyValue b rest" "sameOriginRequest cc r" "body_Username b \<noteq> []"
      "snd (limit_attempt cc (m_clock m) (login_keys cc remoteAddr b) s) = None"
      "bounded_verify cc m (body_Username b) (body_Password b) (ls_auth s) = (a, Some (Inr identity))"
      "ResolveDirectoryIdentity (env_lower env) (m_db_now m) identity (st_accounts a) = (accounts', Inr caller)"
      "credential_finish env m (body_DesktopRedirect b) caller (a\<lparr>st_accounts := accounts'\<rparr>) = (ls_auth s', reply, result)"
proof (cases body)
  case (BodyValue b rest)
  obtain s1 limited where l: "limit_attempt cc (m_clock m) (login_keys cc remoteAddr b) s = (s1, limited)" by fastforce
  have s1: "ls_auth s1 = ls_auth s" by (rule limit_attempt_auth [OF l])
  show thesis
  proof (cases "\<not> sameOriginRequest cc r \<or> body_Username b = [] \<or> limited \<noteq> None")
    case True
    then show thesis
      using turned_away assms s1 by (auto simp: credential_login_def BodyValue l Let_def split: if_splits option.splits)
  next
    case False
    obtain a verified where v: "bounded_verify cc m (body_Username b) (body_Password b) (ls_auth s) = (a, verified)" by fastforce
    show thesis
    proof (cases "\<exists>identity. verified = Some (Inr identity)")
      case bad: False
      then show thesis
        using refused [OF BodyValue, of verified] assms False s1
        by (auto simp: credential_login_def BodyValue l v Let_def split: option.splits sum.splits access_error.splits)
    next
      case True
      then obtain identity where i: "verified = Some (Inr identity)" by blast
      obtain accounts' resolved where r: "ResolveDirectoryIdentity (env_lower env) (m_db_now m) identity (st_accounts a) = (accounts', resolved)"
        by fastforce
      show thesis
      proof (cases resolved)
        case (Inl e)
        then show thesis
          using denied [OF BodyValue v [unfolded i] r [unfolded Inl]] assms False s1
          by (auto simp: credential_login_def BodyValue l v i r Let_def split: access_error.splits)
      next
        case (Inr caller)
        then show thesis
          using finished [OF BodyValue _ _ _ v [unfolded i] r [unfolded Inr]] assms False s1
          by (auto simp: credential_login_def BodyValue l v i r Let_def split: prod.splits)
      qed
    qed
  qed
qed (use turned_away assms in \<open>auto simp: credential_login_def split: if_splits\<close>)

context credential_verifier
begin

lemma credential_login_kept:
  assumes "credential_login env cc m r remoteAddr body s = (s', reply, result)" "cc_verify cc = verify" "auth_ok (ls_auth s)"
  shows "auth_kept env (m_random m) h 0 (ls_auth s) (ls_auth s')"
  using assms(1)
proof (cases rule: credential_login_ends)
  case (refused b rest verified)
  then show ?thesis using bounded_verify_keeps [OF assms(2) refused(2) assms(3)] by (intro auth_kept_same)
next
  case (denied b rest a identity e accounts')
  note k = bounded_verify_keeps [OF assms(2) denied(2) assms(3)]
  show ?thesis using resolve_ok [OF denied(3) k(1)] k by (intro auth_kept_same) (simp_all add: denied(4))
next
  case (finished b rest a identity caller accounts')
  note k = bounded_verify_keeps [OF assms(2) finished(5) assms(3)]
  show ?thesis
    by (rule auth_kept_after [OF credential_finish_kept [OF finished(7) resolve_ok [OF finished(6) k(1)]]]) (simp_all add: k)
qed (use assms(3) in \<open>simp add: auth_kept_refl\<close>)

lemma credential_serve_kept:
  assumes "credential_serve env cc m path meth r remoteAddr body s = (s', reply)" "cc_verify cc = verify" "auth_ok (ls_auth s)"
  shows "auth_kept env (m_random m) h 0 (ls_auth s) (ls_auth s')"
  using assms(1) credential_login_kept [OF _ assms(2,3)] auth_kept_refl [OF assms(3)]
  by (auto simp: credential_serve_def split: if_splits prod.splits)

end

text \<open>Rewriting a user or a credential without changing its id.\<close>

lemma auth_ok_rewrite:
  assumes "auth_ok s" "map user_id us = map user_id (users (st_accounts s))" "map cred_user_id cs = map cred_user_id (st_credentials s)"
  shows "auth_ok (s\<lparr>st_credentials := cs, st_accounts := (st_accounts s)\<lparr>users := us\<rparr>\<rparr>)"
proof -
  have sets: "user_id ` set us = user_id ` set (users (st_accounts s))" "cred_user_id ` set cs = cred_user_id ` set (st_credentials s)"
    using assms(2,3) by (metis set_map)+
  have "binding_row_ok ((st_accounts s)\<lparr>users := us\<rparr>) b = binding_row_ok (st_accounts s) b" for b
    by (simp add: binding_row_ok_def user_exists_def sets cong: option.case_cong)
  then show ?thesis
    using assms(1) by (simp add: auth_ok_def accounts_ok_def identities_ok_def bindings_ok_def sets assms(2,3))
qed

lemma success_keeps: "auth_ok s \<Longrightarrow> auth_ok (RecordLocalLoginSuccess t uid rehashed s)"
  unfolding RecordLocalLoginSuccess_def by (rule auth_ok_rewrite) (simp_all add: map_upd_same)

lemma failure_keeps:
  assumes "RecordLocalLoginFailure t uid s = Inr s'" "auth_ok s"
  shows "auth_ok s'"
proof -
  obtain cs where "s' = s\<lparr>st_credentials := cs\<rparr>" "map cred_user_id cs = map cred_user_id (st_credentials s)"
    using assms(1) by (auto simp: RecordLocalLoginFailure_def Let_def map_upd_same split: if_splits)
  then show ?thesis using auth_ok_rewrite [OF assms(2), of "users (st_accounts s)" cs] by simp
qed

lemma success_entries:
  "session_entries (RecordLocalLoginSuccess t uid rehashed s) = session_entries s"
  "code_entries (RecordLocalLoginSuccess t uid rehashed s) = code_entries s"
  by (simp_all add: RecordLocalLoginSuccess_def)

interpretation local: credential_verifier "local_verifier le decoy"
proof
  fix s :: auth_state and m username password
  show "auth_ok (fst (local_verifier le decoy m username password s))" if ok: "auth_ok s"
    by (cases rule: local_Verify_cases [of le username s decoy "m_salt m" "m_now m" "m_db_now m" password])
      (auto simp: local_verifier_def ok success_keeps failure_keeps [OF _ ok] split: sum.splits)
  show "session_entries (fst (local_verifier le decoy m username password s)) = session_entries s"
    by (cases rule: local_Verify_cases [of le username s decoy "m_salt m" "m_now m" "m_db_now m" password])
      (auto simp: local_verifier_def success_entries RecordLocalLoginFailure_Inr split: sum.splits)
  show "code_entries (fst (local_verifier le decoy m username password s)) = code_entries s"
    by (cases rule: local_Verify_cases [of le username s decoy "m_salt m" "m_now m" "m_db_now m" password])
      (auto simp: local_verifier_def success_entries RecordLocalLoginFailure_Inr split: sum.splits)
qed

interpretation ldap: credential_verifier "ldap_verifier lib config server"
  by unfold_locales (simp_all add: ldap_verifier_def)

lemma redeemed_served:
  "redeemed c (Served m path meth r remoteAddr body code, reply) \<longleftrightarrow>
    path = ''/api/v1/auth/desktop/exchange'' \<and> (\<exists>rest. code = BodyValue c rest) \<and> (\<exists>token t. reply = DesktopToken token t)"
  by (auto split: body.splits auth_reply.splits)

declare redeemed.simps(1) [simp del]

lemma auth_kept_sessions: "auth_kept env random h n s s' \<Longrightarrow> session_entries s k = Some e \<Longrightarrow> session_entries s' k = Some e"
  by (force simp: auth_kept_def map_le_def)

lemma served_kept:
  assumes "wired router" "router_serve env router m path meth r remoteAddr body code s = (s', reply)" "auth_ok (ls_auth s)"
  shows "step_kept env c (Served m path meth r remoteAddr body code, reply) (ls_auth s) (ls_auth s')"
proof (cases "path = ''/api/v1/auth/logout''")
  case True
  note d = DeleteSession_state [OF assms(3), of "env_hash env (requestSessionToken r)"]
  have "ls_auth s' = ls_auth s \<or> meth = ''POST'' \<and> ls_auth s' = DeleteSession (env_hash env (requestSessionToken r)) (ls_auth s)"
    using assms(2) True by (auto simp: router_serve_def router_logout_def Revoke_def Let_def split: if_splits)
  then show ?thesis
    using d assms(3) True by (auto simp: step_kept_def codes.held_def redeemed_served)
next
  case False
  have "\<exists>n. auth_kept env (m_random m) (env_hash env c) n (ls_auth s) (ls_auth s') \<and>
      (if redeemed c (Served m path meth r remoteAddr body code, reply) then 1 else 0) \<le> n"
  proof (cases "\<exists>cc. rt_credentials router = Some cc \<and> path = ''/api/v1/auth/login''")
    case True
    then obtain cc where cc: "rt_credentials router = Some cc" "path = ''/api/v1/auth/login''" by blast
    have serve: "credential_serve env cc m path meth r remoteAddr body s = (s', reply)"
      using assms(2) by (simp add: router_serve_def cc)
    from assms(1) cc(1) consider le decoy where "cc_verify cc = local_verifier le decoy"
      | lib config server where "cc_verify cc = ldap_verifier lib config server"
      unfolding wired_def by blast
    then have "auth_kept env (m_random m) (env_hash env c) 0 (ls_auth s) (ls_auth s')"
      using local.credential_serve_kept [OF serve _ assms(3)] ldap.credential_serve_kept [OF serve _ assms(3)] by cases blast+
    then show ?thesis using cc(2) by (auto simp: redeemed_served)
  next
    case no: False
    then consider "rt_oidc router" "oidc_serve env m path meth r code (ls_auth s) = (ls_auth s', reply)" | "s' = s" "reply = PathNotFound"
      using assms(2) False by (auto simp: router_serve_def split: option.splits prod.splits if_splits bool.splits)
    then show ?thesis
    proof cases
      case 1
      from oidc_serve_kept [OF 1(2) assms(3), of c] show ?thesis by (auto simp: redeemed_served)
    next
      case 2
      then show ?thesis using auth_kept_refl [OF assms(3)] by (auto simp: redeemed_served)
    qed
  qed
  then obtain n where n: "auth_kept env (m_random m) (env_hash env c) n (ls_auth s) (ls_auth s')"
    "(if redeemed c (Served m path meth r remoteAddr body code, reply) then 1 else 0) \<le> n" by blast
  then show ?thesis
    using auth_kept_sessions [OF n(1)] unfolding step_kept_def by (auto simp: auth_kept_def)
qed

lemma step_kept_auth_step:
  assumes "auth_step env router s e s'" "wired router" "auth_ok (ls_auth s)"
  shows "step_kept env c e (ls_auth s) (ls_auth s')"
  using assms(1)
proof cases
  case (served m path meth r remoteAddr body code reply)
  then show ?thesis using served_kept [OF assms(2) _ assms(3)] by simp
next
  case (asked now r)
  have "auth_ok (fst (Authenticate env now r (ls_auth s)))"
    "session_entries (fst (Authenticate env now r (ls_auth s))) = session_entries (ls_auth s)"
    "code_entries (fst (Authenticate env now r (ls_auth s))) = code_entries (ls_auth s)"
    using FindSession_ok [OF assms(3), of "env_hash env (requestSessionToken r)" now]
      FindSession_state [of "env_hash env (requestSessionToken r)" now "ls_auth s"] assms(3)
    by (auto simp: Authenticate_def Let_def split: prod.splits)
  then show ?thesis by (simp add: asked step_kept_def codes.held_def)
next
  case elsewhere
  then show ?thesis by (simp add: step_kept_def codes.held_def)
qed

lemma trace_kept:
  assumes "auth_trace env router s es s'" "wired router" "auth_ok (ls_auth s)"
  shows "auth_ok (ls_auth s') \<and>
    (\<forall>h entry. session_entries (ls_auth s) h = Some entry \<and> (\<forall>e \<in> set es. \<not> signs_out env h (fst e)) \<longrightarrow>
       session_entries (ls_auth s') h = Some entry) \<and>
    codes.held (env_hash env c) (ls_auth s') + length (filter (redeemed c) es) \<le> codes.held (env_hash env c) (ls_auth s) +
      length (filter (\<lambda>e. map_option (env_hash env) (drawn e) = Some (env_hash env c)) es)"
  using assms
proof (induction rule: auth_trace.induct)
  case (cons s e s1 es s')
  note k = step_kept_auth_step [OF cons(1,4,5), of c, unfolded step_kept_def]
  have "auth_ok (ls_auth s1)" using k by simp
  note IH = cons.IH [OF cons(4) this]
  then show ?case using k by (auto split: if_splits)
qed simp

lemma set_map_filter_Some: "x \<in> set (List.map_filter f es) \<longleftrightarrow> (\<exists>e \<in> set es. f e = Some x)"
  by (induction es) (auto simp: map_filter_simps split: option.splits)

lemma map_filter_once:
  "distinct (List.map_filter f es) \<Longrightarrow> length (filter (\<lambda>e. f e = Some x) es) \<le> 1"
proof (induction es)
  case (Cons e es)
  have "filter (\<lambda>e. f e = Some x) es = []" if "x \<notin> set (List.map_filter f es)"
    using that by (auto simp: set_map_filter_Some filter_empty_conv)
  then show ?case using Cons by (auto simp: map_filter_simps split: option.splits)
qed simp

lemma Authenticate_result:
  assumes "auth_ok s" "requestSessionToken r \<noteq> []"
  shows "snd (Authenticate env now r s) =
    (case session_entries s (env_hash env (requestSessionToken r)) of
       None \<Rightarrow> Inl Unauthenticated
     | Some (uid, t) \<Rightarrow> if t \<le> now then Inl Unauthenticated
         else (case resolvePrincipal (st_accounts s) uid of Inl e \<Rightarrow> Inl Unauthenticated | Inr caller \<Rightarrow> Inr caller))"
  using FindSession_result [OF assms(1), of "env_hash env (requestSessionToken r)" now] assms(2)
  by (auto simp: Authenticate_def Let_def bind_res_def split: prod.splits option.splits sum.splits if_splits)

lemma credential_finish_ended:
  assumes "credential_finish env m redirect caller s = (s', reply, result)" "auth_ok s"
    "\<exists>token. reply = SignedIn token \<or> reply = DesktopCodeBody token"
  shows "result = loginSucceeded" "st_accounts s' = st_accounts s"
    "reply = SignedIn token \<Longrightarrow> session_entries s' (env_hash env token) = Some (UserID caller, m_now m + env_session_ttl env)"
    "reply = DesktopCodeBody code \<Longrightarrow> ValidateDesktopRedirect env redirect \<noteq> None \<and>
      code_entries s' (env_hash env code) = Some (UserID caller, m_now m + DesktopCodeTTL)"
proof -
  consider token where "NewSession env (m_random m) (m_now m) (m_db_now m) (UserID caller) s = Inr (token, s')"
      "reply = SignedIn token" "result = loginSucceeded"
    | code where "StoreDesktopCode (m_db_now m) \<lparr>code_Hash = env_hash env code, code_UserID = UserID caller,
        code_ExpiresAt = m_now m + DesktopCodeTTL\<rparr> s = Inr s'" "reply = DesktopCodeBody code" "result = loginSucceeded"
      "ValidateDesktopRedirect env redirect \<noteq> None"
    using assms(1,3) by (auto simp: credential_finish_def credential_desktop_def split: if_splits sum.splits option.splits)
  then have "result = loginSucceeded \<and> st_accounts s' = st_accounts s \<and>
      (\<forall>token. reply = SignedIn token \<longrightarrow> session_entries s' (env_hash env token) = Some (UserID caller, m_now m + env_session_ttl env)) \<and>
      (\<forall>code. reply = DesktopCodeBody code \<longrightarrow> ValidateDesktopRedirect env redirect \<noteq> None \<and>
         code_entries s' (env_hash env code) = Some (UserID caller, m_now m + DesktopCodeTTL))"
  proof cases
    case (1 token)
    then show ?thesis using NewSession_Inr [OF 1(1) assms(2)] by simp
  next
    case (2 code)
    then show ?thesis using codes.put_entries [OF assms(2) 2(1)] StoreDesktopCode_other(3) [OF 2(1)] by simp
  qed
  then show "result = loginSucceeded" "st_accounts s' = st_accounts s"
    "reply = SignedIn token \<Longrightarrow> session_entries s' (env_hash env token) = Some (UserID caller, m_now m + env_session_ttl env)"
    "reply = DesktopCodeBody code \<Longrightarrow> ValidateDesktopRedirect env redirect \<noteq> None \<and>
      code_entries s' (env_hash env code) = Some (UserID caller, m_now m + DesktopCodeTTL)" by blast+
qed

lemma served_run_trace: "auth_trace env router s (fst (served_run env router reqs s)) (snd (served_run env router reqs s))"
  by (induction env router reqs s rule: served_run.induct)
    (auto simp: auth_trace.nil split: prod.splits intro!: auth_trace.cons auth_step.served)

section \<open>Properties\<close>

text \<open>C33: a desktop code is good for one session. Whatever requests the authentication routes
  serve, in whatever order and however often a code is presented, it is exchanged for a session at
  most once, as long as no two of the random tokens drawn have the same hash.\<close>

theorem code_redeemed_once:
  assumes "auth_trace env router s es s'" "wired router" "auth_ok (ls_auth s)"
    "code_entries (ls_auth s) (env_hash env c) = None"
    "distinct (List.map_filter (\<lambda>e. map_option (env_hash env) (drawn e)) es)"
  shows "length (filter (redeemed c) es) \<le> 1"
proof -
  have "codes.held (env_hash env c) (ls_auth s) = 0" by (simp add: codes.held_def assms(4))
  then show ?thesis
    using trace_kept [OF assms(1-3), of c] map_filter_once [OF assms(5), of "env_hash env c"] by linarith
qed

theorem code_redeemed_once_witness:
  "length (filter (redeemed ''cd'') (fst (served_run sample_env sample_router sample_requests sample_login))) \<le> 1 \<and>
    map snd (fst (served_run sample_env sample_router sample_requests sample_login)) =
      [DesktopCodeAt ''http://localhost:9000/cb?code=cd'' ''cd'', DesktopToken ''t1'' 1010,
       Refused 401 ''code is invalid or has already been used'']"
proof
  have "distinct (List.map_filter (\<lambda>e. map_option (env_hash sample_env) (drawn e))
      (fst (served_run sample_env sample_router sample_requests sample_login)))"
    by code_simp
  moreover have "auth_ok (ls_auth sample_login)"
    using sample_accounts_ok(1) by (simp add: auth_ok_def sample_login_def sample_auth_def)
  ultimately show "length (filter (redeemed ''cd'') (fst (served_run sample_env sample_router sample_requests sample_login))) \<le> 1"
    by (intro code_redeemed_once [OF served_run_trace])
      (simp_all add: wired_def sample_router_def code_entries_def sample_login_def sample_auth_def)
  show "map snd (fst (served_run sample_env sample_router sample_requests sample_login)) =
      [DesktopCodeAt ''http://localhost:9000/cb?code=cd'' ''cd'', DesktopToken ''t1'' 1010,
       Refused 401 ''code is invalid or has already been used'']"
    by code_simp
qed

text \<open>C34: the life of a session. From when it is in the table until a sign-out with its token, and
  whatever else happens, a session stays what it was: a request with its token is answered for the user
  it was made for with the grants that user has at that moment, and is refused once the session has
  expired or when the user no longer has any access.\<close>

theorem session_lifecycle:
  assumes "auth_trace env router s es s'" "wired router" "auth_ok (ls_auth s)"
    "session_entries (ls_auth s) h = Some (uid, t)" "\<forall>e \<in> set es. \<not> signs_out env h (fst e)"
    "env_hash env (requestSessionToken r) = h" "requestSessionToken r \<noteq> []"
  shows "snd (Authenticate env now r (ls_auth s')) =
      (if t \<le> now then Inl Unauthenticated
       else case resolvePrincipal (st_accounts (ls_auth s')) uid of Inl e \<Rightarrow> Inl Unauthenticated | Inr caller \<Rightarrow> Inr caller) \<and>
    snd (Authenticate env now r (Revoke env r (ls_auth s'))) = Inl Unauthenticated"
proof -
  have ok: "auth_ok (ls_auth s')" "session_entries (ls_auth s') h = Some (uid, t)"
    using trace_kept [OF assms(1-3)] assms(4,5) by simp_all
  note d = DeleteSession_state [OF ok(1), of h]
  have "Revoke env r (ls_auth s') = DeleteSession h (ls_auth s')" using assms(6,7) by (simp add: Revoke_def Let_def)
  then show ?thesis
    using Authenticate_result [OF ok(1) assms(7)] Authenticate_result [OF d(1) assms(7)] by (simp add: assms(6) ok(2) d(2))
qed

theorem session_lifecycle_witness:
  "snd (Authenticate sample_env 50 sample_bearer_request (ls_auth sample_session)) = resolvePrincipal sample_accounts 7 \<and>
    snd (Authenticate sample_env 50 sample_bearer_request (Revoke sample_env sample_bearer_request (ls_auth sample_session))) =
      Inl Unauthenticated"
proof -
  have "requestSessionToken sample_bearer_request = ''tok''" by code_simp
  moreover have "auth_ok (ls_auth sample_session)"
    using sample_accounts_ok(1) by (simp add: auth_ok_def sample_session_def sample_auth_def sample_accounts_def)
  moreover have "case resolvePrincipal sample_accounts 7 of Inl e \<Rightarrow> False | Inr p \<Rightarrow> True" by code_simp
  moreover have "st_accounts (ls_auth sample_session) = sample_accounts" by (simp add: sample_session_def sample_auth_def)
  ultimately show ?thesis
    using session_lifecycle [OF auth_trace.nil, of sample_router sample_session "''tok''" 7 100 sample_env sample_bearer_request 50]
    by (auto simp: wired_def sample_router_def session_entries_def sample_session_def sample_env_def split: sum.splits)
qed

text \<open>C36: signing in with a password, against local accounts or LDAP. A sign-in that ends in a session or a desktop code came with the
  server's own origin or with a bearer header, whatever its token, was let through by the limiter before the password
  was looked at, and was for the user the verifier's identity resolves to; a desktop code is handed out
  only to a loopback address. In every case the constraints of the tables hold and the sessions there
  were are still there.\<close>

theorem credential_sign_in:
  assumes "credential_login env cc m r remoteAddr body s = (s', reply, result)" "auth_ok (ls_auth s)"
    "(\<exists>le decoy. cc_verify cc = local_verifier le decoy) \<or> (\<exists>lib config server. cc_verify cc = ldap_verifier lib config server)"
  shows "auth_ok (ls_auth s') \<and> session_entries (ls_auth s) \<subseteq>\<^sub>m session_entries (ls_auth s') \<and>
    ((\<exists>token. reply = SignedIn token \<or> reply = DesktopCodeBody token) \<longrightarrow>
      (\<exists>b rest a identity caller.
         body = BodyValue b rest \<and> result = loginSucceeded \<and>
         (requestBearerToken r \<noteq> [] \<or>
          (\<exists>scheme. cc_url_parse cc (req_header r ''Origin'') = Some (scheme, req_host r) \<and> scheme \<noteq> [])) \<and>
         snd (limit_attempt cc (m_clock m) (login_keys cc remoteAddr b) s) = None \<and>
         cc_verify cc m (body_Username b) (body_Password b) (ls_auth s) = (a, Inr identity) \<and>
         ResolveDirectoryIdentity (env_lower env) (m_db_now m) identity (st_accounts a) = (st_accounts (ls_auth s'), Inr caller) \<and>
         (\<forall>token. reply = SignedIn token \<longrightarrow>
            session_entries (ls_auth s') (env_hash env token) = Some (UserID caller, m_now m + env_session_ttl env)) \<and>
         (\<forall>code. reply = DesktopCodeBody code \<longrightarrow> ValidateDesktopRedirect env (body_DesktopRedirect b) \<noteq> None \<and>
            code_entries (ls_auth s') (env_hash env code) = Some (UserID caller, m_now m + DesktopCodeTTL))))"
proof -
  have v: "credential_verifier (cc_verify cc)"
    using assms(3) local.credential_verifier_axioms ldap.credential_verifier_axioms by auto
  note kept = credential_verifier.credential_login_kept [OF v assms(1) refl assms(2), of undefined, unfolded auth_kept_def]
  have "\<exists>b rest a identity caller.
         body = BodyValue b rest \<and> result = loginSucceeded \<and>
         (requestBearerToken r \<noteq> [] \<or>
          (\<exists>scheme. cc_url_parse cc (req_header r ''Origin'') = Some (scheme, req_host r) \<and> scheme \<noteq> [])) \<and>
         snd (limit_attempt cc (m_clock m) (login_keys cc remoteAddr b) s) = None \<and>
         cc_verify cc m (body_Username b) (body_Password b) (ls_auth s) = (a, Inr identity) \<and>
         ResolveDirectoryIdentity (env_lower env) (m_db_now m) identity (st_accounts a) = (st_accounts (ls_auth s'), Inr caller) \<and>
         (\<forall>token. reply = SignedIn token \<longrightarrow>
            session_entries (ls_auth s') (env_hash env token) = Some (UserID caller, m_now m + env_session_ttl env)) \<and>
         (\<forall>code. reply = DesktopCodeBody code \<longrightarrow> ValidateDesktopRedirect env (body_DesktopRedirect b) \<noteq> None \<and>
            code_entries (ls_auth s') (env_hash env code) = Some (UserID caller, m_now m + DesktopCodeTTL))"
    if ended: "\<exists>token. reply = SignedIn token \<or> reply = DesktopCodeBody token"
    using assms(1)
  proof (cases rule: credential_login_ends)
    case (finished b rest a identity caller accounts')
    note k = credential_verifier.bounded_verify_keeps [OF v refl finished(5) assms(2)]
    note e = credential_finish_ended [OF finished(7) resolve_ok [OF finished(6) k(1)] ended]
    have "cc_verify cc m (body_Username b) (body_Password b) (ls_auth s) = (a, Inr identity)"
      using finished(5) by (simp add: bounded_verify_def split: if_splits prod.splits)
    moreover have "requestBearerToken r \<noteq> [] \<or>
        (\<exists>scheme. cc_url_parse cc (req_header r ''Origin'') = Some (scheme, req_host r) \<and> scheme \<noteq> [])"
      using finished(2) by (auto simp: sameOriginRequest_def split: if_splits option.splits)
    ultimately show ?thesis
      using finished(1,4,6) e
      by (intro exI [of _ b] exI [of _ rest] exI [of _ a] exI [of _ identity] exI [of _ caller]) simp
  qed (use ended in auto)
  then show ?thesis using kept by blast
qed

text \<open>The witness: somebody the directory knows, in a group with a binding, signs in with the right password.\<close>

definition sample_ldap_login :: credential_config where
  "sample_ldap_login = sample_credentials\<lparr>cc_verify := ldap_verifier sample_library sample_ldap sample_server\<rparr>"

definition sample_members :: login_state where
  "sample_members = sample_session\<lparr>ls_auth := (ls_auth sample_session)\<lparr>st_accounts := sample_accounts\<lparr>role_bindings :=
     role_bindings sample_accounts @ [\<lparr>rb_id = 2, rb_name = ''sre'', rb_kind = ''ldap_group'', rb_user = None, rb_issuer = Some ''ldaps://d'',
       rb_group = Some ''sre'', rb_role = RoleViewer, rb_matchers = []\<rparr>], next_binding := 3\<rparr>\<rparr>\<rparr>"

theorem credential_sign_in_witness:
  "let attempt = credential_login sample_env sample_ldap_login (sample_moment ''t'') sample_bearer_request ''1.2.3.4:5''
       (BodyValue \<lparr>body_Username = ''bob'', body_Password = ''pw'', body_DesktopRedirect = []\<rparr> False) sample_members
   in fst (snd attempt) = SignedIn ''t'' \<and>
      session_entries (ls_auth sample_members) \<subseteq>\<^sub>m session_entries (ls_auth (fst attempt)) \<and>
      (\<exists>caller :: Principal. session_entries (ls_auth (fst attempt)) (env_hash sample_env ''t'') = Some (UserID caller, 10 + env_session_ttl sample_env))"
proof -
  let ?attempt = "credential_login sample_env sample_ldap_login (sample_moment ''t'') sample_bearer_request ''1.2.3.4:5''
    (BodyValue \<lparr>body_Username = ''bob'', body_Password = ''pw'', body_DesktopRedirect = []\<rparr> False) sample_members"
  have reply: "fst (snd ?attempt) = SignedIn ''t''" by code_simp
  obtain s' result where a: "?attempt = (s', SignedIn ''t'', result)" using reply by (metis prod.collapse)
  have ok: "auth_ok (ls_auth sample_members)"
    by (simp add: auth_ok_def sample_members_def sample_session_def sample_auth_def sample_accounts_def accounts_ok_def identities_ok_def
        bindings_ok_def binding_row_ok_def user_exists_def subject_check_def)
  have wired: "(\<exists>le decoy. cc_verify sample_ldap_login = local_verifier le decoy) \<or>
      (\<exists>lib config server. cc_verify sample_ldap_login = ldap_verifier lib config server)"
    by (rule disjI2, intro exI) (simp add: sample_ldap_login_def)
  have now: "m_now (sample_moment ''t'') = 10" by (simp add: sample_moment_def)
  note full = credential_sign_in [OF a ok wired, unfolded now]
  then obtain caller :: Principal where
    "session_entries (ls_auth s') (env_hash sample_env ''t'') = Some (UserID caller, 10 + env_session_ttl sample_env)" by blast
  then show ?thesis using conjunct1 [OF conjunct2 [OF full]] unfolding Let_def a fst_conv snd_conv by blast
qed

end
