(* ===== verification/Listing.thy ===== *)
theory Listing
  imports Http "HOL-Library.Product_Lexorder"
begin

text \<open>
  Listing alerts page by page: \<open>Store.ListAlerts\<close> (\<open>internal/postgres/store.go\<close>) with the
  severity counts and the stream cursor (\<open>grouping.go\<close>) and the view summary
  (\<open>view.go\<close>).

  The value of a sort expression is a triple that is compared as its SQL type is: times and
  integers by the first component, texts by the sort key of the database's collation
  (\<open>strxfrm\<close>) and then bytewise. \<open>format_time\<close> is \<open>time.RFC3339Nano\<close> in UTC and
  \<open>pg_time\<close> the cast to \<open>timestamptz\<close>; \<open>digest\<close> is the digest of the query a cursor is
  bound to. The statements of one call are evaluated on one state of the database.
\<close>

section \<open>Sorting\<close>

definition severityRank :: "labels \<Rightarrow> int" where
  "severityRank l =
     (let severity = severity_of l
      in if severity = ''critical'' then 3 else if severity = ''warning'' then 2
         else if severity = ''info'' then 1 else 0)"

type_synonym sort_value = "int \<times> string \<times> string"

definition number_value :: "int \<Rightarrow> sort_value" where
  "number_value n = (n, '''', '''')"

definition text_value :: "(string \<Rightarrow> string) \<Rightarrow> string \<Rightarrow> sort_value" where
  "text_value strxfrm t = (0, strxfrm t, t)"

datatype cursor_type = Timestamptz | Integer | Text

definition alertSorts :: "string \<Rightarrow> cursor_type option" where
  "alertSorts = map_of
     [(''lastSeen'', Timestamptz), (''startsAt'', Timestamptz), (''severity'', Integer), (''alertname'', Text),
      (''summary'', Text), (''status'', Text), (''team'', Text), (''instance'', Text), (''source'', Text)]"

definition sort_expression :: "(string \<Rightarrow> string) \<Rightarrow> string \<Rightarrow> alert_row \<Rightarrow> sort_value" where
  "sort_expression strxfrm name r =
     (if name = ''lastSeen'' then number_value (LastSeen r)
      else if name = ''startsAt'' then number_value (StartsAt r)
      else if name = ''severity'' then number_value (severityRank (Labels r))
      else text_value strxfrm
        (if name = ''alertname'' then golookup (Labels r) ''alertname''
         else if name = ''summary'' then golookup (Annotations r) ''summary''
         else if name = ''status'' then status_string (Status r)
         else if name = ''team'' then golookup (Labels r) ''team''
         else if name = ''instance'' then golookup (Labels r) ''instance''
         else if name = ''source'' then SourceSlug r
         else ''''))"

text \<open>The cast of a cursor's value in the comparison.\<close>

definition cast_cursor ::
  "(string \<Rightarrow> instant option) \<Rightarrow> (string \<Rightarrow> string) \<Rightarrow> cursor_type \<Rightarrow> string \<Rightarrow> db_error + sort_value" where
  "cast_cursor pg_time strxfrm ty v =
     (case ty of
        Timestamptz \<Rightarrow> (case pg_time v of None \<Rightarrow> Inl ErrDatabase | Some t \<Rightarrow> Inr (number_value t))
      | Integer \<Rightarrow> (case ParseInt v of None \<Rightarrow> Inl ErrDatabase | Some n \<Rightarrow> Inr (number_value n))
      | Text \<Rightarrow> if text_ok v then Inr (text_value strxfrm v) else Inl ErrDatabase)"

definition alertCursorValue :: "(instant \<Rightarrow> string) \<Rightarrow> alert_row \<Rightarrow> string \<Rightarrow> string" where
  "alertCursorValue format_time alert name =
     (if name = ''lastSeen'' then format_time (LastSeen alert)
      else if name = ''startsAt'' then format_time (StartsAt alert)
      else if name = ''severity'' then
        (let severity = golookup (Labels alert) ''severity''
         in if severity = ''critical'' then ''3'' else if severity = ''info'' then ''1''
            else if severity = ''warning'' \<or> severity = '''' then ''2'' else ''0'')
      else if name = ''alertname'' then golookup (Labels alert) ''alertname''
      else if name = ''summary'' then golookup (Annotations alert) ''summary''
      else if name = ''status'' then status_string (Status alert)
      else if name = ''team'' then golookup (Labels alert) ''team''
      else if name = ''instance'' then golookup (Labels alert) ''instance''
      else if name = ''source'' then SourceSlug alert
      else '''')"

section \<open>The other statements\<close>

definition args_ok :: "arg list \<Rightarrow> bool" where
  "args_ok args = list_all (\<lambda>a. case a of ArgText t \<Rightarrow> text_ok t | _ \<Rightarrow> True) args"

text \<open>The rows of \<open>alerts\<close> a condition selects.\<close>

definition select_rows ::
  "(string \<Rightarrow> string \<Rightarrow> bool) \<Rightarrow> sql \<times> arg list \<Rightarrow> db \<Rightarrow> db_error + alert_row list" where
  "select_rows pgrx condition s =
     (if statement_ok {} (fst condition) (snd condition) \<and> args_ok (snd condition)
      then Inr (filter (\<lambda>r. sql_true (eval_sql pgrx (snd condition) (row_of r) (fst condition))) (alert_rows s))
      else Inl ErrDatabase)"

definition event_row :: "stream_row \<Rightarrow> sql_row" where
  "event_row e = \<lparr>sr_labels = ev_labels e, sr_previous = ev_previous_labels e, sr_source = ev_source_slug e,
     sr_status = '''', sr_suppressed = False, sr_closed = False\<rparr>"

definition readStreamCursor :: "(string \<Rightarrow> string \<Rightarrow> bool) \<Rightarrow> Principal \<Rightarrow> db \<Rightarrow> db_error + int" where
  "readStreamCursor pgrx caller s =
     (let (streamAccess, args1) = readAccessCondition caller ColLabels [];
          (previousAccess, args) = readAccessCondition caller ColPrevious args1
      in if \<not> (sql_parses streamAccess \<and> statement_ok (sql_params streamAccess) previousAccess args)
         then Inl ErrDatabase
         else Inr (foldr max (map ev_id (filter (\<lambda>e.
                sql_true (eval_sql pgrx args (event_row e) streamAccess) \<or>
                ev_previous_labels e \<noteq> None \<and> sql_true (eval_sql pgrx args (event_row e) previousAccess))
              (stream_events s))) 0))"

definition severity_counts :: "alert_row list \<Rightarrow> (string \<times> nat) list" where
  "severity_counts rows =
     map (\<lambda>severity. (severity, length (filter (\<lambda>r. severity_of (Labels r) = severity) rows)))
       (remdups (map (\<lambda>r. severity_of (Labels r)) rows))"

definition readSeverityCounts ::
  "(string \<Rightarrow> string \<Rightarrow> bool) \<Rightarrow> sql \<times> arg list \<Rightarrow> db \<Rightarrow> db_error + (string, nat) fmap \<times> nat" where
  "readSeverityCounts pgrx condition s =
     bind_res (select_rows pgrx condition s)
       (\<lambda>rows. Inr (fmap_of_list (severity_counts rows), sum_list (map snd (severity_counts rows))))"

definition summarizeView ::
  "(string \<Rightarrow> string \<Rightarrow> bool) \<Rightarrow> Principal \<Rightarrow> Query \<Rightarrow> resolvedView \<Rightarrow> db \<Rightarrow> db_error + ViewSummary option" where
  "summarizeView pgrx caller query view s =
     (if \<not> rv_requested view then Inr None
      else
        let summary = \<lparr>view_Active = view_active view, view_ShowingAll = ShowAll (rv_options view),
              view_Hidden = 0, view_CriticalBypass = \<not> FilterCritical (rv_options view)\<rparr>
        in if \<not> view_active view then Inr (Some summary)
           else bind_res (select_rows pgrx (alertFiltersWithView caller query view viewInvert) s)
             (\<lambda>rows. Inr (Some (summary\<lparr>view_Hidden := length rows\<rparr>))))"

section \<open>ListAlerts\<close>

record ListResult =
  list_Alerts :: "Alert list"
  list_NextCursor :: "Cursor option"
  list_SeverityCounts :: "(string, nat) fmap"
  list_Total :: nat
  list_StreamCursor :: int
  list_View :: "ViewSummary option"

definition row_position :: "(string \<Rightarrow> string) \<Rightarrow> string \<Rightarrow> alert_row \<Rightarrow> sort_value \<times> int" where
  "row_position strxfrm name r = (sort_expression strxfrm name r, ID r)"

text \<open>\<open>ORDER BY expression order, alert.id order\<close>.\<close>

definition ordered_rows :: "(string \<Rightarrow> string) \<Rightarrow> string \<Rightarrow> string \<Rightarrow> alert_row list \<Rightarrow> alert_row list" where
  "ordered_rows strxfrm name order rows =
     (let ascending = sort_key (row_position strxfrm name) rows
      in if order = ''desc'' then rev ascending else ascending)"

text \<open>The rows after a cursor.\<close>

definition cursor_condition ::
  "(string \<Rightarrow> instant option) \<Rightarrow> (string \<Rightarrow> string) \<Rightarrow> string \<Rightarrow> string \<Rightarrow> cursor_type \<Rightarrow> Cursor option \<Rightarrow>
   db_error + (alert_row \<Rightarrow> bool)" where
  "cursor_condition pg_time strxfrm name order ty cursor =
     (case cursor of
        None \<Rightarrow> Inr (\<lambda>r. True)
      | Some c \<Rightarrow>
          bind_res (cast_cursor pg_time strxfrm ty (cursor_Value c))
            (\<lambda>v. Inr (\<lambda>r. if order = ''desc'' then row_position strxfrm name r < (v, cursor_ID c)
                         else (v, cursor_ID c) < row_position strxfrm name r)))"

definition next_cursor ::
  "(instant \<Rightarrow> string) \<Rightarrow> (identity_payload \<Rightarrow> string) \<Rightarrow> Query \<Rightarrow> alert_row \<Rightarrow> Cursor" where
  "next_cursor format_time digest query row =
     \<lparr>cursor_LastSeen = LastSeen row, cursor_ID = ID row, cursor_Sort = query_Sort query,
      cursor_Order = query_Order query, cursor_Query = CursorIdentity digest query,
      cursor_Value = alertCursorValue format_time row (query_Sort query)\<rparr>"

text \<open>The page: one row more than the limit is read to know whether there is another page.
  Cutting it at a limit below one is out of range.\<close>

definition page_of ::
  "(instant \<Rightarrow> string) \<Rightarrow> (identity_payload \<Rightarrow> string) \<Rightarrow> Query \<Rightarrow> alert_row list \<Rightarrow>
   db_error + alert_row list \<times> Cursor option" where
  "page_of format_time digest query rows =
     (let limit = query_Limit query
      in if limit + 1 < 0 then Inl ErrDatabase
         else let items = take (nat (limit + 1)) rows
              in if int (length items) > limit
                 then if limit < 1 then Inl (ErrMessage ''index out of range'')
                      else let items = take (nat limit) items
                           in Inr (items, Some (next_cursor format_time digest query (last items)))
                 else Inr (items, None))"

definition list_defaults :: "Query \<Rightarrow> Query" where
  "list_defaults query0 =
     (let query1 = (if query_Sort query0 = [] then query0\<lparr>query_Sort := DefaultSort\<rparr> else query0)
      in if query_Order query1 = [] then query1\<lparr>query_Order := DefaultOrder\<rparr> else query1)"

definition ListAlerts ::
  "(string \<Rightarrow> string \<Rightarrow> bool) \<Rightarrow> regex \<Rightarrow> (string \<Rightarrow> string) \<Rightarrow> (instant \<Rightarrow> string) \<Rightarrow> (string \<Rightarrow> instant option) \<Rightarrow>
   (identity_payload \<Rightarrow> string) \<Rightarrow> Principal \<Rightarrow> Query \<Rightarrow> db \<Rightarrow> db_error + ListResult" where
  "ListAlerts pgrx rx strxfrm format_time pg_time digest caller query0 s =
     (let query = list_defaults query0
      in case alertSorts (query_Sort query) of
           None \<Rightarrow> Inl (ErrMessage ''invalid alert sort'')
         | Some ty \<Rightarrow>
             if query_Order query \<noteq> ''asc'' \<and> query_Order query \<noteq> ''desc''
             then Inl (ErrMessage ''invalid alert sort'')
             else
               bind_res (readStreamCursor pgrx caller s) (\<lambda>streamCursor.
               let view = resolveView caller (query_View query);
                   condition = alertFiltersWithView caller query view viewApply
               in bind_res (readSeverityCounts pgrx condition s) (\<lambda>(counts, total).
                  bind_res (summarizeView pgrx caller query view s) (\<lambda>viewSummary.
                  bind_res (cursor_condition pg_time strxfrm (query_Sort query) (query_Order query) ty
                      (query_Cursor query)) (\<lambda>after.
                  bind_res (select_rows pgrx condition s) (\<lambda>selected.
                  bind_res (page_of format_time digest query
                      (ordered_rows strxfrm (query_Sort query) (query_Order query) (filter after selected)))
                    (\<lambda>(items, next).
                       Inr \<lparr>list_Alerts = map (\<lambda>r. alert_of_row (note_count (ID r) s) (view_classify rx view (Labels r)) r) items,
                            list_NextCursor = next, list_SeverityCounts = counts, list_Total = total,
                            list_StreamCursor = streamCursor, list_View = viewSummary\<rparr>)))))))"

section \<open>Specification\<close>

text \<open>The rows a query lists, in order.\<close>

definition listed_rows :: "(string \<Rightarrow> string \<Rightarrow> bool) \<Rightarrow> (string \<Rightarrow> string) \<Rightarrow> Principal \<Rightarrow> Query \<Rightarrow> db \<Rightarrow> alert_row list" where
  "listed_rows pgrx strxfrm caller q s =
     ordered_rows strxfrm (query_Sort (list_defaults q)) (query_Order (list_defaults q))
       (filter (\<lambda>r. query_selects pgrx caller (list_defaults q) (resolveView caller (query_View q)) viewApply (row_of r))
          (alert_rows s))"

text \<open>Reading page after page with the cursors the pages carry, at most \<open>n\<close> pages.\<close>

fun read_pages :: "('c option \<Rightarrow> ('a list \<times> 'c option) option) \<Rightarrow> nat \<Rightarrow> 'c option \<Rightarrow> 'a list list option" where
  "read_pages fetch 0 c = None"
| "read_pages fetch (Suc n) c =
     (case fetch c of
        None \<Rightarrow> None
      | Some (items, None) \<Rightarrow> Some [items]
      | Some (items, Some c') \<Rightarrow> map_option ((#) items) (read_pages fetch n (Some c')))"

definition list_page ::
  "(string \<Rightarrow> string \<Rightarrow> bool) \<Rightarrow> regex \<Rightarrow> (string \<Rightarrow> string) \<Rightarrow> (instant \<Rightarrow> string) \<Rightarrow> (string \<Rightarrow> instant option) \<Rightarrow>
   (identity_payload \<Rightarrow> string) \<Rightarrow> Principal \<Rightarrow> Query \<Rightarrow> db \<Rightarrow> Cursor option \<Rightarrow> (Alert list \<times> Cursor option) option" where
  "list_page pgrx rx strxfrm format_time pg_time digest caller q s c =
     (case ListAlerts pgrx rx strxfrm format_time pg_time digest caller (q\<lparr>query_Cursor := c\<rparr>) s of
        Inl e \<Rightarrow> None
      | Inr result \<Rightarrow> Some (list_Alerts result, list_NextCursor result))"

text \<open>The rows whose position a cursor states exactly: it cannot tell an empty severity from an
  absent one, and a text column holds no zero byte.\<close>

definition cursor_exact :: "(instant \<Rightarrow> string) \<Rightarrow> string \<Rightarrow> alert_row \<Rightarrow> bool" where
  "cursor_exact format_time name r \<longleftrightarrow>
     (name = ''severity'' \<longrightarrow> fmlookup (Labels r) ''severity'' \<noteq> Some []) \<and>
     (alertSorts name = Some Text \<longrightarrow> text_ok (alertCursorValue format_time r name))"

text \<open>The times of a row survive being written and read back.\<close>

definition times_exact :: "(instant \<Rightarrow> string) \<Rightarrow> (string \<Rightarrow> instant option) \<Rightarrow> alert_row \<Rightarrow> bool" where
  "times_exact format_time pg_time r \<longleftrightarrow>
     pg_time (format_time (LastSeen r)) = Some (LastSeen r) \<and> pg_time (format_time (StartsAt r)) = Some (StartsAt r)"

definition follows :: "string \<Rightarrow> 'a::linorder \<Rightarrow> 'a \<Rightarrow> bool" where
  "follows order p q \<longleftrightarrow> (if order = ''desc'' then q < p else p < q)"

text \<open>A sample query: the closed alerts, one to a page, read with open access.\<close>

definition sample_reader :: Principal where
  "sample_reader = sample_operator\<lparr>Anonymous := True\<rparr>"

definition sample_query :: Query where
  "sample_query = \<lparr>query_Limit = 1, query_Cursor = None, query_Source = [], query_Status = [], query_Severity = [],
     query_Team = [], query_Suppressed = None, query_Closed = Some True, query_Matches = [], query_Sort = [],
     query_Order = [], query_View = None, query_GroupBy = [], query_GroupCursor = None\<rparr>"

section \<open>Lemmas\<close>

lemma ParseInt_ranks:
  "ParseInt ''0'' = Some 0" "ParseInt ''1'' = Some 1" "ParseInt ''2'' = Some 2" "ParseInt ''3'' = Some 3"
  by (simp_all add: ParseInt_def is_digit_def less_eq_char_def decimal_value_def digit_value_def int64_range_def)

lemma cast_cursor_value:
  assumes "times_exact format_time pg_time r" "alertSorts name = Some ty" "cursor_exact format_time name r"
  shows "cast_cursor pg_time strxfrm ty (alertCursorValue format_time r name) = Inr (sort_expression strxfrm name r)"
proof -
  consider "name = ''lastSeen''" "ty = Timestamptz" | "name = ''startsAt''" "ty = Timestamptz"
    | "name = ''severity''" "ty = Integer"
    | "name \<in> {''alertname'', ''summary'', ''status'', ''team'', ''instance'', ''source''}" "ty = Text"
    using assms(2) by (auto simp: alertSorts_def split: if_splits)
  then show ?thesis
  proof cases
    case 3
    have "fmlookup (Labels r) ''severity'' \<noteq> Some []" using assms(3) 3(1) by (simp add: cursor_exact_def)
    then show ?thesis
      using 3 by (cases "fmlookup (Labels r) ''severity''")
        (auto simp: cast_cursor_def alertCursorValue_def sort_expression_def severityRank_def severity_of_def Let_def
          ParseInt_ranks)
  next
    case 4
    then have "text_ok (alertCursorValue format_time r name)" using assms(2,3) by (simp add: cursor_exact_def)
    then show ?thesis
      using 4 by (auto simp: cast_cursor_def alertCursorValue_def sort_expression_def)
  qed (simp_all add: cast_cursor_def alertCursorValue_def sort_expression_def assms(1) [unfolded times_exact_def])
qed

text \<open>The cursor of a row with an empty severity states another position than the row has.\<close>

lemma empty_severity_cursor:
  assumes "fmlookup (Labels r) ''severity'' = Some []"
  shows "sort_expression strxfrm ''severity'' r = number_value 0"
    "cast_cursor pg_time strxfrm Integer (alertCursorValue format_time r ''severity'') = Inr (number_value 2)"
  using assms
  by (simp_all add: sort_expression_def severityRank_def severity_of_def cast_cursor_def alertCursorValue_def
      ParseInt_ranks)

lemma filter_after:
  assumes "sorted_wrt R (map f xs)" "i < length xs" "\<And>x. \<not> R x x" "\<And>x y. R x y \<Longrightarrow> \<not> R y x"
  shows "filter (\<lambda>x. R (f (xs ! i)) (f x)) xs = drop (Suc i) xs"
proof -
  have pair: "R (f (xs ! a)) (f (xs ! b))" if "a < b" "b < length xs" for a b
    using sorted_wrt_nth_less [OF assms(1)] that by simp
  have "xs = take (Suc i) xs @ drop (Suc i) xs" by simp
  moreover have "filter (\<lambda>x. R (f (xs ! i)) (f x)) (take (Suc i) xs) = []"
  proof (rule filter_False, rule ballI)
    fix x
    assume "x \<in> set (take (Suc i) xs)"
    then obtain j where "j < length (take (Suc i) xs)" "x = take (Suc i) xs ! j" by (metis in_set_conv_nth)
    then have j: "j \<le> i" "x = xs ! j" by simp_all
    show "\<not> R (f (xs ! i)) (f x)"
      using j assms(2-4) pair [of j i] by (cases "j = i") auto
  qed
  moreover have "filter (\<lambda>x. R (f (xs ! i)) (f x)) (drop (Suc i) xs) = drop (Suc i) xs"
  proof (rule filter_True, rule ballI)
    fix x
    assume "x \<in> set (drop (Suc i) xs)"
    then obtain j where "j < length xs - Suc i" "x = xs ! (Suc i + j)" by (auto simp: in_set_conv_nth)
    then show "R (f (xs ! i)) (f x)" using pair [of i "Suc i + j"] by simp
  qed
  ultimately show ?thesis by (metis filter_append self_append_conv2)
qed

lemma ordered_rows_filter:
  "ordered_rows strxfrm name order (filter P rows) = filter P (ordered_rows strxfrm name order rows)"
  by (simp add: ordered_rows_def Let_def filter_sort [symmetric] rev_filter)

lemma set_ordered_rows [simp]: "set (ordered_rows strxfrm name order rows) = set rows"
  by (simp add: ordered_rows_def Let_def)

lemma length_ordered_rows [simp]: "length (ordered_rows strxfrm name order rows) = length rows"
  by (simp add: ordered_rows_def Let_def)

lemma ordered_rows_sorted:
  assumes "distinct (map ID rows)"
  shows "sorted_wrt (follows order) (map (row_position strxfrm name) (ordered_rows strxfrm name order rows))"
proof -
  let ?asc = "sort_key (row_position strxfrm name) rows"
  have "distinct (map (snd \<circ> row_position strxfrm name) rows)" using assms by (simp add: row_position_def comp_def)
  then have "distinct (map (row_position strxfrm name) rows)" by (metis distinct_map list.map_comp)
  then have "distinct (map (row_position strxfrm name) ?asc)"
    by (simp add: distinct_map)
  then have "sorted_wrt (<) (map (row_position strxfrm name) ?asc)" by (simp add: strict_sorted_iff)
  then show ?thesis
    by (cases "order = ''desc''") (simp_all add: ordered_rows_def Let_def follows_def [abs_def] rev_map [symmetric] sorted_wrt_rev)
qed

subsection \<open>Pages\<close>

lemma list_defaults_cursor [simp]:
  "list_defaults (q\<lparr>query_Cursor := c\<rparr>) = (list_defaults q)\<lparr>query_Cursor := c\<rparr>"
  "query_Cursor (list_defaults q) = query_Cursor q" "query_View (list_defaults q) = query_View q"
  "query_Limit (list_defaults q) = query_Limit q"
  by (simp_all add: list_defaults_def Let_def)

lemma filters_cursor [simp]:
  "alertFiltersWithView caller (q\<lparr>query_Cursor := c\<rparr>) view mode = alertFiltersWithView caller q view mode"
  by (simp add: alertFiltersWithView_def option_filters_def)

lemma summarizeView_cursor [simp]:
  "summarizeView pgrx caller (q\<lparr>query_Cursor := c\<rparr>) view s = summarizeView pgrx caller q view s"
  by (simp add: summarizeView_def Let_def)

lemma next_cursor_cursor [simp]:
  "next_cursor format_time digest (q\<lparr>query_Cursor := c\<rparr>) r = next_cursor format_time digest q r"
  by (simp add: next_cursor_def CursorIdentity_def cursor_payload_def)

lemma page_of_cursor [simp]:
  "page_of format_time digest (q\<lparr>query_Cursor := c\<rparr>) rows = page_of format_time digest q rows"
  by (simp add: page_of_def Let_def)

lemma page_of_ok:
  assumes "1 \<le> query_Limit q"
  shows "page_of format_time digest q rows =
    Inr (take (nat (query_Limit q)) rows,
      if length rows \<le> nat (query_Limit q) then None
      else Some (next_cursor format_time digest q (rows ! (nat (query_Limit q) - 1))))"
proof (cases "length rows \<le> nat (query_Limit q)")
  case True
  with assms show ?thesis by (auto simp: page_of_def Let_def)
next
  case False
  have "nat (query_Limit q + 1) = Suc (nat (query_Limit q))" using assms by simp
  moreover have "last (take (nat (query_Limit q)) rows) = rows ! (nat (query_Limit q) - 1)"
    using False assms by (subst last_conv_nth) auto
  ultimately show ?thesis using False assms by (auto simp: page_of_def Let_def min_def)
qed

lemma severity_counts_total: "sum_list (map snd (severity_counts rows)) = length rows"
proof -
  let ?f = "\<lambda>r. severity_of (Labels r)"
  have "sum_list (map snd (severity_counts rows)) =
      (\<Sum>severity \<in> ?f ` set rows. length (filter (\<lambda>r. ?f r = severity) rows))"
    by (simp add: severity_counts_def comp_def sum_list_distinct_conv_sum_set)
  also have "\<dots> = (\<Sum>severity \<in> set (map ?f rows). count_list (map ?f rows) severity)"
    by (intro sum.cong) (simp_all add: count_list_eq_length_filter filter_map comp_def eq_commute)
  also have "\<dots> = length rows" by (simp only: sum_count_set [OF subset_refl finite_set] length_map)
  finally show ?thesis .
qed

lemma selected_rows:
  assumes "select_rows pgrx (alertFiltersWithView caller q view mode) s = Inr rows"
  shows "rows = filter (\<lambda>r. query_selects pgrx caller q view mode (row_of r)) (alert_rows s)"
  using assms by (auto simp: select_rows_def alertFiltersWithView_selects split: if_splits)

text \<open>An accepted query, with any cursor whose value has a position.\<close>

lemma ListAlerts_cursor:
  assumes "ListAlerts pgrx rx strxfrm format_time pg_time digest caller q s = Inr first" "query_Cursor q = None"
    "1 \<le> query_Limit q"
  obtains ty where "alertSorts (query_Sort (list_defaults q)) = Some ty"
    "list_Total first = length (listed_rows pgrx strxfrm caller q s)"
    "\<And>c after. cursor_condition pg_time strxfrm (query_Sort (list_defaults q)) (query_Order (list_defaults q)) ty c = Inr after \<Longrightarrow>
       \<exists>result. ListAlerts pgrx rx strxfrm format_time pg_time digest caller (q\<lparr>query_Cursor := c\<rparr>) s = Inr result \<and>
         map alert_row.truncate (list_Alerts result) =
           take (nat (query_Limit q)) (filter after (listed_rows pgrx strxfrm caller q s)) \<and>
         list_NextCursor result =
           (if length (filter after (listed_rows pgrx strxfrm caller q s)) \<le> nat (query_Limit q) then None
            else Some (next_cursor format_time digest (list_defaults q)
              (filter after (listed_rows pgrx strxfrm caller q s) ! (nat (query_Limit q) - 1))))"
proof -
  let ?q = "list_defaults q"
  let ?view = "resolveView caller (query_View q)"
  let ?condition = "alertFiltersWithView caller ?q ?view viewApply"
  obtain ty sc summary rows where
    k: "alertSorts (query_Sort ?q) = Some ty" "query_Order ?q = ''asc'' \<or> query_Order ?q = ''desc''"
      "readStreamCursor pgrx caller s = Inr sc" "summarizeView pgrx caller ?q ?view s = Inr summary"
      "select_rows pgrx ?condition s = Inr rows"
    and total: "list_Total first = length rows"
    using assms(1)
    by (auto simp: ListAlerts_def Let_def bind_res_Inr readSeverityCounts_def severity_counts_total
        split: option.splits if_splits prod.splits)
  have rows: "ordered_rows strxfrm (query_Sort ?q) (query_Order ?q) rows = listed_rows pgrx strxfrm caller q s"
    using selected_rows [OF k(5)] by (simp add: listed_rows_def)
  show thesis
  proof (rule that [OF k(1)])
    show "list_Total first = length (listed_rows pgrx strxfrm caller q s)" using total by (simp add: rows [symmetric])
    fix c after
    assume "cursor_condition pg_time strxfrm (query_Sort ?q) (query_Order ?q) ty c = Inr after"
    then show "\<exists>result. ListAlerts pgrx rx strxfrm format_time pg_time digest caller (q\<lparr>query_Cursor := c\<rparr>) s = Inr result \<and>
         map alert_row.truncate (list_Alerts result) =
           take (nat (query_Limit q)) (filter after (listed_rows pgrx strxfrm caller q s)) \<and>
         list_NextCursor result =
           (if length (filter after (listed_rows pgrx strxfrm caller q s)) \<le> nat (query_Limit q) then None
            else Some (next_cursor format_time digest (list_defaults q)
              (filter after (listed_rows pgrx strxfrm caller q s) ! (nat (query_Limit q) - 1))))"
      using k assms(3)
      by (auto simp: ListAlerts_def Let_def readSeverityCounts_def page_of_ok ordered_rows_filter rows comp_def)
  qed
qed

lemma follows_irrefl: "\<not> follows order p p" "follows order p q \<Longrightarrow> \<not> follows order q p"
  by (auto simp: follows_def)

text \<open>A cursor made from the row at a place resumes right after that place.\<close>

lemma cursor_resumes:
  assumes "alerts_ok s" "times_exact format_time pg_time (listed_rows pgrx strxfrm caller q s ! i)"
    "alertSorts (query_Sort (list_defaults q)) = Some ty" "i < length (listed_rows pgrx strxfrm caller q s)"
    "cursor_exact format_time (query_Sort (list_defaults q)) (listed_rows pgrx strxfrm caller q s ! i)"
  shows "\<exists>after. cursor_condition pg_time strxfrm (query_Sort (list_defaults q)) (query_Order (list_defaults q)) ty
      (Some (next_cursor format_time digest (list_defaults q) (listed_rows pgrx strxfrm caller q s ! i))) = Inr after \<and>
    filter after (listed_rows pgrx strxfrm caller q s) = drop (Suc i) (listed_rows pgrx strxfrm caller q s)"
proof -
  let ?q = "list_defaults q"
  let ?L = "listed_rows pgrx strxfrm caller q s"
  let ?pos = "row_position strxfrm (query_Sort ?q)"
  have "distinct (map ID (alert_rows s))" using assms(1) by (simp add: alerts_ok_def)
  then have sorted: "sorted_wrt (follows (query_Order ?q)) (map ?pos ?L)"
    unfolding listed_rows_def by (intro ordered_rows_sorted) (simp add: distinct_map_filter)
  have "cast_cursor pg_time strxfrm ty (alertCursorValue format_time (?L ! i) (query_Sort ?q)) =
      Inr (sort_expression strxfrm (query_Sort ?q) (?L ! i))"
    by (rule cast_cursor_value [OF assms(2,3,5)])
  then have "cursor_condition pg_time strxfrm (query_Sort ?q) (query_Order ?q) ty
      (Some (next_cursor format_time digest ?q (?L ! i))) = Inr (\<lambda>r. follows (query_Order ?q) (?pos (?L ! i)) (?pos r))"
    by (simp add: cursor_condition_def next_cursor_def row_position_def follows_def)
  with filter_after [OF sorted assms(4) follows_irrefl] show ?thesis by blast
qed

lemma butlast_Cons_ne: "xs \<noteq> [] \<Longrightarrow> butlast (x # xs) = x # butlast xs"
  by simp

text \<open>Pages that are cut from one list at the places their cursors resume at make up the list.\<close>

lemma read_pages_from:
  assumes "1 \<le> k"
    "\<And>c m. resumes c m \<Longrightarrow> \<exists>items next. fetch c = Some (items, next) \<and> map f items = take k (drop m L) \<and>
       (if length L - m \<le> k then next = None else \<exists>c'. next = Some c' \<and> resumes (Some c') (m + k))"
    "resumes c m" "length L - m < n"
  shows "\<exists>pages. read_pages fetch n c = Some pages \<and> pages \<noteq> [] \<and> map f (concat pages) = drop m L \<and>
    (\<forall>p \<in> set (butlast pages). length p = k)"
  using assms(3,4)
proof (induction n arbitrary: c m)
  case (Suc n)
  from assms(2) [OF Suc.prems(1)] obtain items after where
    f: "fetch c = Some (items, after)" "map f items = take k (drop m L)"
      "if length L - m \<le> k then after = None else \<exists>c'. after = Some c' \<and> resumes (Some c') (m + k)"
    by blast
  show ?case
  proof (cases "length L - m \<le> k")
    case True
    with f show ?thesis by simp
  next
    case False
    with f(3) obtain c' where c': "after = Some c'" "resumes (Some c') (m + k)" by auto
    have "length L - (m + k) < n" using Suc.prems(2) False assms(1) by simp
    from Suc.IH [OF c'(2) this] obtain pages where
      p: "read_pages fetch n (Some c') = Some pages" "pages \<noteq> []" "map f (concat pages) = drop (m + k) L"
        "\<forall>p \<in> set (butlast pages). length p = k"
      by blast
    have "drop (m + k) L = drop k (drop m L)" by (simp add: add.commute)
    then have "map f (items @ concat pages) = drop m L"
      unfolding map_append f(2) p(3) by (simp only: append_take_drop_id)
    moreover have "length items = k" using arg_cong [OF f(2), of length] False by simp
    ultimately show ?thesis using f(1) c'(1) p(1,2,4) by (auto simp: butlast_Cons_ne)
  qed
qed simp

lemma list_pages_from:
  assumes "ListAlerts pgrx rx strxfrm format_time pg_time digest caller q s = Inr first" "query_Cursor q = None"
    "1 \<le> query_Limit q" "alerts_ok s" "\<forall>r \<in> set (alert_rows s). times_exact format_time pg_time r"
    "\<forall>r \<in> set (alert_rows s). cursor_exact format_time (query_Sort (list_defaults q)) r"
    "length (listed_rows pgrx strxfrm caller q s) < n"
  shows "\<exists>pages. read_pages (list_page pgrx rx strxfrm format_time pg_time digest caller q s) n None = Some pages \<and>
    pages \<noteq> [] \<and> map alert_row.truncate (concat pages) = listed_rows pgrx strxfrm caller q s \<and>
    (\<forall>p \<in> set (butlast pages). length p = nat (query_Limit q))"
proof -
  let ?L = "listed_rows pgrx strxfrm caller q s"
  let ?k = "nat (query_Limit q)"
  obtain ty where ty: "alertSorts (query_Sort (list_defaults q)) = Some ty"
    "\<And>c after. cursor_condition pg_time strxfrm (query_Sort (list_defaults q)) (query_Order (list_defaults q)) ty c = Inr after \<Longrightarrow>
       \<exists>result. ListAlerts pgrx rx strxfrm format_time pg_time digest caller (q\<lparr>query_Cursor := c\<rparr>) s = Inr result \<and>
         map alert_row.truncate (list_Alerts result) = take ?k (filter after ?L) \<and>
         list_NextCursor result =
           (if length (filter after ?L) \<le> ?k then None
            else Some (next_cursor format_time digest (list_defaults q) (filter after ?L ! (?k - 1))))"
    by (rule ListAlerts_cursor [OF assms(1-3)]) blast
  define resumes where "resumes c m \<longleftrightarrow>
    (\<exists>after. cursor_condition pg_time strxfrm (query_Sort (list_defaults q)) (query_Order (list_defaults q)) ty c = Inr after \<and>
      filter after ?L = drop m ?L)" for c m
  have "\<exists>pages. read_pages (list_page pgrx rx strxfrm format_time pg_time digest caller q s) n None = Some pages \<and>
      pages \<noteq> [] \<and> map alert_row.truncate (concat pages) = drop 0 ?L \<and> (\<forall>p \<in> set (butlast pages). length p = ?k)"
  proof (rule read_pages_from [where resumes = resumes])
    show "1 \<le> ?k" "resumes None 0" "length ?L - 0 < n"
      using assms(3,7) by (auto simp: resumes_def cursor_condition_def)
    fix c m
    assume "resumes c m"
    then obtain after where a:
      "cursor_condition pg_time strxfrm (query_Sort (list_defaults q)) (query_Order (list_defaults q)) ty c = Inr after"
      "filter after ?L = drop m ?L" unfolding resumes_def by blast
    from ty(2) [OF a(1)] obtain result where r:
      "ListAlerts pgrx rx strxfrm format_time pg_time digest caller (q\<lparr>query_Cursor := c\<rparr>) s = Inr result"
      "map alert_row.truncate (list_Alerts result) = take ?k (drop m ?L)"
      "list_NextCursor result = (if length (drop m ?L) \<le> ?k then None
         else Some (next_cursor format_time digest (list_defaults q) (drop m ?L ! (?k - 1))))"
      unfolding a(2) by blast
    have "resumes (Some (next_cursor format_time digest (list_defaults q) (drop m ?L ! (?k - 1)))) (m + ?k)"
      if "\<not> length ?L - m \<le> ?k"
    proof -
      let ?i = "m + (?k - 1)"
      have i: "?i < length ?L" "drop m ?L ! (?k - 1) = ?L ! ?i" "Suc ?i = m + ?k" using that assms(3) by simp_all
      have "?L ! ?i \<in> set (alert_rows s)" using nth_mem [OF i(1)] by (auto simp: listed_rows_def)
      with assms(5,6) have ex: "times_exact format_time pg_time (?L ! ?i)"
        "cursor_exact format_time (query_Sort (list_defaults q)) (?L ! ?i)" by blast+
      from cursor_resumes [OF assms(4) ex(1) ty(1) i(1) ex(2), of digest] show ?thesis
        unfolding resumes_def i(2,3) .
    qed
    with r show "\<exists>items next. list_page pgrx rx strxfrm format_time pg_time digest caller q s c = Some (items, next) \<and>
        map alert_row.truncate items = take ?k (drop m ?L) \<and>
        (if length ?L - m \<le> ?k then next = None else \<exists>c'. next = Some c' \<and> resumes (Some c') (m + ?k))"
      by (auto simp: list_page_def)
  qed
  then show ?thesis by simp
qed

section \<open>Properties\<close>

text \<open>Reading a list page by page. Following the cursors of the pages from the first one
  returns every alert the query selects exactly once, in the order asked for, all pages but the
  last being full; the total is their number. This needs a cursor to state its position exactly:
  times survive being written and read back, and for the severity order no alert has an empty
  severity label.\<close>

theorem list_pages_complete:
  assumes "ListAlerts pgrx rx strxfrm format_time pg_time digest caller q s = Inr first" "query_Cursor q = None"
    "1 \<le> query_Limit q" "db_ok s" "\<forall>r \<in> set (alert_rows s). times_exact format_time pg_time r"
    "\<forall>r \<in> set (alert_rows s). cursor_exact format_time (query_Sort (list_defaults q)) r"
    "length (alert_rows s) < n"
  shows "\<exists>pages. read_pages (list_page pgrx rx strxfrm format_time pg_time digest caller q s) n None = Some pages \<and>
    map alert_row.truncate (concat pages) = listed_rows pgrx strxfrm caller q s \<and>
    (\<forall>p \<in> set (butlast pages). length p = nat (query_Limit q)) \<and>
    list_Total first = length (listed_rows pgrx strxfrm caller q s) \<and>
    distinct (listed_rows pgrx strxfrm caller q s) \<and>
    set (listed_rows pgrx strxfrm caller q s) =
      {r \<in> set (alert_rows s). query_selects pgrx caller (list_defaults q) (resolveView caller (query_View q)) viewApply (row_of r)} \<and>
    sorted_wrt (follows (query_Order (list_defaults q)))
      (map (row_position strxfrm (query_Sort (list_defaults q))) (listed_rows pgrx strxfrm caller q s))"
proof -
  let ?L = "listed_rows pgrx strxfrm caller q s"
  have ok: "alerts_ok s" using assms(4) by (simp add: db_ok_def)
  then have ids: "distinct (map ID (alert_rows s))" by (simp add: alerts_ok_def)
  obtain ty where ty: "alertSorts (query_Sort (list_defaults q)) = Some ty" "list_Total first = length ?L"
    by (rule ListAlerts_cursor [OF assms(1-3)]) blast
  have "length ?L < n" using assms(7) by (auto simp: listed_rows_def intro: le_less_trans [OF length_filter_le])
  from list_pages_from [OF assms(1-3) ok assms(5,6) this] obtain pages where
    "read_pages (list_page pgrx rx strxfrm format_time pg_time digest caller q s) n None = Some pages"
    "map alert_row.truncate (concat pages) = ?L" "\<forall>p \<in> set (butlast pages). length p = nat (query_Limit q)"
    by blast
  moreover have "sorted_wrt (follows (query_Order (list_defaults q)))
      (map (row_position strxfrm (query_Sort (list_defaults q))) ?L)"
    unfolding listed_rows_def using ids by (intro ordered_rows_sorted) (simp add: distinct_map_filter)
  moreover have "distinct ?L" using distinct_map [of ID "alert_rows s"] ids by (simp add: listed_rows_def ordered_rows_def Let_def)
  moreover have "set ?L = {r \<in> set (alert_rows s).
      query_selects pgrx caller (list_defaults q) (resolveView caller (query_View q)) viewApply (row_of r)}"
    by (auto simp: listed_rows_def)
  ultimately show ?thesis using ty(2) by blast
qed

lemma sample_pages_listed:
  "listed_rows pgrx strxfrm sample_reader sample_query sample_db = [sample_resolved, sample_row]"
  by (simp add: listed_rows_def list_defaults_def sample_query_def sample_reader_def sample_defs query_selects_def
      sql_can_read_iff resolveView_def view_filtering_def view_active_def row_of_def ordered_rows_def Let_def
      row_position_def sort_expression_def number_value_def DefaultSort_def DefaultOrder_def)

lemma sample_statements:
  "alertFiltersWithView sample_reader (list_defaults sample_query) (resolveView sample_reader None) viewApply =
     (SqlAnd [SqlTrue, SqlClosedEq 1], [ArgBool True])"
  "\<exists>rows. select_rows pgrx (SqlAnd [SqlTrue, SqlClosedEq 1], [ArgBool True]) s = Inr rows"
  "\<exists>cursor. readStreamCursor pgrx sample_reader s = Inr cursor"
  by (simp_all add: alertFiltersWithView_def list_defaults_def sample_query_def option_filters_def access_filters_def
      readAccessCondition_def sample_reader_def resolveView_def view_filtering_def view_active_def add_filter_def
      select_rows_def statement_ok_def args_ok_def readStreamCursor_def Let_def)

lemma sample_pages_accepted:
  "\<exists>first. ListAlerts pgrx rx strxfrm format_time pg_time digest sample_reader sample_query s = Inr first"
proof -
  obtain rows cursor where
    "select_rows pgrx (SqlAnd [SqlTrue, SqlClosedEq 1], [ArgBool True]) s = Inr rows"
    "readStreamCursor pgrx sample_reader s = Inr cursor"
    using sample_statements(2,3) by meson
  moreover have "alertSorts (query_Sort (list_defaults sample_query)) = Some Timestamptz"
    "query_Order (list_defaults sample_query) = ''desc''" "query_Cursor (list_defaults sample_query) = None"
    "query_View (list_defaults sample_query) = None" "query_Limit (list_defaults sample_query) = 1"
    by (simp_all add: list_defaults_def sample_query_def alertSorts_def DefaultSort_def DefaultOrder_def)
  ultimately show ?thesis
    using sample_statements(1)
    by (simp add: ListAlerts_def Let_def readSeverityCounts_def summarizeView_def resolveView_def cursor_condition_def
        page_of_ok)
qed

theorem list_pages_complete_witness:
  "\<exists>pages. read_pages (list_page (\<lambda>p v. p = v) (\<lambda>p v. Some (p = v)) id FormatInt ParseInt (\<lambda>_. [])
      sample_reader sample_query sample_db) 3 None = Some pages \<and>
    map alert_row.truncate (concat pages) = [sample_resolved, sample_row]"
proof -
  from sample_pages_accepted obtain first where
    "ListAlerts (\<lambda>p v. p = v) (\<lambda>p v. Some (p = v)) id FormatInt ParseInt (\<lambda>_. []) sample_reader sample_query sample_db =
      Inr first" by blast
  moreover have "query_Cursor sample_query = None" "1 \<le> query_Limit sample_query" "length (alert_rows sample_db) < 3"
    "\<forall>r \<in> set (alert_rows sample_db). times_exact FormatInt ParseInt r"
    "\<forall>r \<in> set (alert_rows sample_db). cursor_exact FormatInt (query_Sort (list_defaults sample_query)) r"
    by (simp_all add: sample_query_def sample_defs times_exact_def ParseInt_FormatInt int64_range_def cursor_exact_def
        list_defaults_def DefaultSort_def alertSorts_def)
  ultimately show ?thesis
    using list_pages_complete [of "\<lambda>p v. p = v" "\<lambda>p v. Some (p = v)" id FormatInt ParseInt "\<lambda>_. []" sample_reader
        sample_query sample_db first 3] sample_db_ok sample_pages_listed
    by auto
qed

text \<open>The exception is real. With an alert whose severity label is present and empty, paging in the order of severity skips an
  alert: the cursor after the former states rank 2, while the rows are ordered with rank 0 for it, so the alert of rank 1 comes on
  no page.\<close>

definition sample_unranked :: db where
  "sample_unranked = sample_db\<lparr>alert_rows :=
     [sample_row\<lparr>Labels := fmap_of_list [(''severity'', '''')]\<rparr>, sample_resolved\<lparr>Labels := fmap_of_list [(''severity'', ''info'')]\<rparr>]\<rparr>"

theorem severity_pages_skip:
  "let q = sample_query\<lparr>query_Sort := ''severity'', query_Order := ''asc''\<rparr>;
       pages = read_pages (list_page (\<lambda>p v. p = v) (\<lambda>p v. Some (p = v)) id FormatInt ParseInt (\<lambda>_. []) sample_reader q sample_unranked) 3 None
   in map_option (\<lambda>ps. map ID (concat ps)) pages = Some [1] \<and>
     map ID (listed_rows (\<lambda>p v. p = v) id sample_reader q sample_unranked) = [1, 2]"
  by code_simp

end
