(* ===== verification/Grouping.thy ===== *)
theory Grouping
  imports Listing "HOL-Library.Multiset"
begin

text \<open>
  Alerts collapsed into groups (\<open>internal/postgres/grouping.go\<close>): \<open>Store.GroupAlerts\<close> with
  its key expressions, aggregates, ordering and cursor.

  A group's place in the order is the list of the values it is ordered by, compared from the
  left as a SQL row is. The conversion of a cursor's value to the type of the aggregate is
  \<open>cast_cursor\<close> of \<open>Listing\<close>; \<open>go_time\<close> is \<open>time.Parse\<close> with \<open>time.RFC3339Nano\<close>.
\<close>

section \<open>Keys and order\<close>

definition key_expression :: "alert_row \<Rightarrow> string \<Rightarrow> string" where
  "key_expression r name = (if name = ''source'' then SourceSlug r else golookup (Labels r) name)"

definition groupKeyExpressions :: "string list \<Rightarrow> db_error + (alert_row \<Rightarrow> string list)" where
  "groupKeyExpressions groupBy =
     (case ValidateGroupBy groupBy of
        Inl e \<Rightarrow> Inl (ErrGroupBy e)
      | Inr _ \<Rightarrow> Inr (\<lambda>r. map (key_expression r) groupBy))"

text \<open>The aggregate of an explicit sort.\<close>

definition groupSortExpression :: "(string \<Rightarrow> string) \<Rightarrow> string \<Rightarrow> alert_row list \<Rightarrow> sort_value" where
  "groupSortExpression strxfrm name members =
     (if name = ''startsAt'' then Min (set (map (sort_expression strxfrm name) members))
      else Max (set (map (sort_expression strxfrm name) members)))"

definition groupSort :: "Query \<Rightarrow> string" where
  "groupSort query = (if query_Sort query = '''' then ''severity'' else query_Sort query)"

definition groupOrder :: "Query \<Rightarrow> string" where
  "groupOrder query = (if query_Sort query = '''' \<or> query_Order query = '''' then ''desc'' else query_Order query)"

definition validGroupCursorValue :: "(string \<Rightarrow> instant option) \<Rightarrow> string \<Rightarrow> cursor_type \<Rightarrow> bool" where
  "validGroupCursorValue go_time v ty =
     (case ty of
        Timestamptz \<Rightarrow> go_time v \<noteq> None
      | Integer \<Rightarrow> (case ParseInt v of None \<Rightarrow> False | Some parsed \<Rightarrow> 0 \<le> parsed \<and> parsed \<le> 3)
      | Text \<Rightarrow> True)"

definition groupCursorValue :: "(instant \<Rightarrow> string) \<Rightarrow> cursor_type \<Rightarrow> sort_value \<Rightarrow> string" where
  "groupCursorValue format_time ty v =
     (case ty of Timestamptz \<Rightarrow> format_time (fst v) | Integer \<Rightarrow> FormatInt (fst v) | Text \<Rightarrow> snd (snd v))"

definition severityForRank :: "int \<Rightarrow> string" where
  "severityForRank rank =
     (if rank = 3 then ''critical'' else if rank = 2 then ''warning'' else if rank = 1 then ''info'' else ''other'')"

section \<open>One group\<close>

record Group =
  group_Key :: "(string, string) fmap"
  group_Total :: nat
  group_Acknowledged :: nat
  group_Silenced :: nat
  group_SeverityCounts :: "(string, nat) fmap"
  group_WorstSeverity :: string
  group_LatestLastSeen :: instant
  group_EarliestStartsAt :: instant
  group_SampleAlertID :: int

definition severityBuckets :: "string list" where
  "severityBuckets = [''critical'', ''warning'', ''info'']"

definition bucket_count :: "alert_row list \<Rightarrow> string \<Rightarrow> nat" where
  "bucket_count members severity = length (filter (\<lambda>r. severity_of (Labels r) = severity) members)"

definition other_count :: "alert_row list \<Rightarrow> nat" where
  "other_count members = length (filter (\<lambda>r. severity_of (Labels r) \<notin> set severityBuckets) members)"

definition bucket_counts :: "alert_row list \<Rightarrow> (string, nat) fmap" where
  "bucket_counts members =
     (let counts = fmap_of_list (filter (\<lambda>(severity, count). count > 0)
            (map (\<lambda>severity. (severity, bucket_count members severity)) severityBuckets))
      in if other_count members > 0 then fmupd ''other'' (other_count members) counts else counts)"

definition worst_rank :: "alert_row list \<Rightarrow> int" where
  "worst_rank members = Max (set (map (\<lambda>r. severityRank (Labels r)) members))"

definition latest_seen :: "alert_row list \<Rightarrow> instant" where
  "latest_seen members = Max (set (map LastSeen members))"

text \<open>\<open>(array_agg(alert.id ORDER BY alert.last_seen DESC, alert.id DESC))[1]\<close>.\<close>

definition sample_alert :: "alert_row list \<Rightarrow> int" where
  "sample_alert members = snd (Max (set (map (\<lambda>r. (LastSeen r, ID r)) members)))"

definition group_of :: "string list \<Rightarrow> string list \<Rightarrow> alert_row list \<Rightarrow> Group" where
  "group_of groupBy key members =
     \<lparr>group_Key = fmap_of_list (zip groupBy key), group_Total = length members,
      group_Acknowledged = length (filter Acknowledged members),
      group_Silenced = length (filter Suppressed members),
      group_SeverityCounts = bucket_counts members, group_WorstSeverity = severityForRank (worst_rank members),
      group_LatestLastSeen = latest_seen members,
      group_EarliestStartsAt = Min (set (map StartsAt members)), group_SampleAlertID = sample_alert members\<rparr>"

section \<open>GroupAlerts\<close>

record GroupResult =
  groups_Groups :: "Group list"
  groups_NextCursor :: "GroupCursor option"
  groups_TotalGroups :: nat
  groups_TotalAlerts :: nat
  groups_SeverityCounts :: "(string, nat) fmap"
  groups_StreamCursor :: int
  groups_View :: "ViewSummary option"

text \<open>\<open>GROUP BY\<close>: the distinct keys with their members.\<close>

definition grouped :: "(alert_row \<Rightarrow> 'k) \<Rightarrow> alert_row list \<Rightarrow> ('k \<times> alert_row list) list" where
  "grouped key rows = map (\<lambda>k. (k, filter (\<lambda>r. key r = k) rows)) (remdups (map key rows))"

text \<open>The values a group is ordered by: worst severity and recency without a sort, otherwise the
  aggregate of the sort, and then the keys.\<close>

definition group_position :: "(string \<Rightarrow> string) \<Rightarrow> Query \<Rightarrow> string list \<times> alert_row list \<Rightarrow> sort_value list" where
  "group_position strxfrm query g =
     (if query_Sort query = '''' then [number_value (worst_rank (snd g)), number_value (latest_seen (snd g))]
      else [groupSortExpression strxfrm (query_Sort query) (snd g)])
     @ map (text_value strxfrm) (fst g)"

definition int32_range :: "int \<Rightarrow> bool" where
  "int32_range i \<longleftrightarrow> - (2 ^ 31) \<le> i \<and> i < 2 ^ 31"

text \<open>\<open>groupCursorPlaceholders\<close>: the arguments with their casts.\<close>

definition groupCursorPlaceholders ::
  "(string \<Rightarrow> string) \<Rightarrow> string list \<Rightarrow> int \<Rightarrow> instant \<Rightarrow> db_error + sort_value list" where
  "groupCursorPlaceholders strxfrm key rank lastSeen =
     (if int32_range rank \<and> list_all text_ok key
      then Inr ([number_value rank, number_value lastSeen] @ map (text_value strxfrm) key)
      else Inl ErrDatabase)"

text \<open>The position a cursor stands for.\<close>

definition group_cursor_position ::
  "(string \<Rightarrow> instant option) \<Rightarrow> (string \<Rightarrow> instant option) \<Rightarrow> (string \<Rightarrow> string) \<Rightarrow> Query \<Rightarrow> cursor_type option \<Rightarrow>
   GroupCursor \<Rightarrow> db_error + sort_value list" where
  "group_cursor_position go_time pg_time strxfrm query sortType cursor =
     (if length (gcursor_Key cursor) \<noteq> length (query_GroupBy query)
      then Inl (ErrMessage ''cursor does not match the current grouping'')
      else case sortType of
        None \<Rightarrow>
          if gcursor_Sort cursor \<noteq> ''severity'' \<or> gcursor_Order cursor \<noteq> ''desc'' \<or>
             gcursor_LatestLastSeen cursor = 0
          then Inl (ErrMessage ''cursor does not match the current ordering'')
          else groupCursorPlaceholders strxfrm (gcursor_Key cursor) (gcursor_SeverityRank cursor)
                 (gcursor_LatestLastSeen cursor)
      | Some ty \<Rightarrow>
          if gcursor_Sort cursor \<noteq> query_Sort query \<or> gcursor_Order cursor \<noteq> query_Order query \<or>
             \<not> validGroupCursorValue go_time (gcursor_Value cursor) ty
          then Inl (ErrMessage ''cursor does not match the current ordering'')
          else bind_res (cast_cursor pg_time strxfrm ty (gcursor_Value cursor))
            (\<lambda>v. if list_all text_ok (gcursor_Key cursor)
                 then Inr (v # map (text_value strxfrm) (gcursor_Key cursor)) else Inl ErrDatabase))"

definition group_from ::
  "(string \<Rightarrow> instant option) \<Rightarrow> (string \<Rightarrow> instant option) \<Rightarrow> (string \<Rightarrow> string) \<Rightarrow> Query \<Rightarrow> cursor_type option \<Rightarrow>
   GroupCursor option \<Rightarrow> db_error + sort_value list option" where
  "group_from go_time pg_time strxfrm query sortType cursor =
     (case cursor of
        None \<Rightarrow> Inr None
      | Some c \<Rightarrow> bind_res (group_cursor_position go_time pg_time strxfrm query sortType c) (\<lambda>p. Inr (Some p)))"

definition next_group_cursor ::
  "(string \<Rightarrow> string) \<Rightarrow> (instant \<Rightarrow> string) \<Rightarrow> (identity_payload \<Rightarrow> string) \<Rightarrow> Query \<Rightarrow> cursor_type option \<Rightarrow>
   string list \<times> alert_row list \<Rightarrow> GroupCursor" where
  "next_group_cursor strxfrm format_time digest query sortType g =
     \<lparr>gcursor_SeverityRank = worst_rank (snd g), gcursor_LatestLastSeen = latest_seen (snd g), gcursor_Key = fst g,
      gcursor_Sort = groupSort query, gcursor_Order = groupOrder query,
      gcursor_Value =
        (case sortType of None \<Rightarrow> ''''
         | Some ty \<Rightarrow> groupCursorValue format_time ty (groupSortExpression strxfrm (query_Sort query) (snd g))),
      gcursor_Query = CursorIdentity digest query\<rparr>"

text \<open>The checks before the first statement: the sort, if any, with its order.\<close>

definition group_ordering :: "Query \<Rightarrow> db_error + Query \<times> cursor_type option" where
  "group_ordering query =
     (if query_Sort query \<noteq> ''''
      then case alertSorts (query_Sort query) of
             None \<Rightarrow> Inl (ErrMessage ''sort is invalid'')
           | Some ty \<Rightarrow>
               let query = (if query_Order query = '''' then query\<lparr>query_Order := DefaultOrder\<rparr> else query)
               in if query_Order query \<noteq> ''asc'' \<and> query_Order query \<noteq> ''desc''
                  then Inl (ErrMessage ''order must be asc or desc'') else Inr (query, Some ty)
      else if query_Order query \<noteq> '''' then Inl (ErrMessage ''order requires sort'') else Inr (query, None))"

definition ordered_groups ::
  "(string \<Rightarrow> string) \<Rightarrow> Query \<Rightarrow> (string list \<times> alert_row list) list \<Rightarrow> (string list \<times> alert_row list) list" where
  "ordered_groups strxfrm query gs =
     (let ascending = sort_key (group_position strxfrm query) gs
      in if groupOrder query = ''desc'' then rev ascending else ascending)"

text \<open>\<open>HAVING\<close>: the groups after the cursor.\<close>

definition groups_after :: "(string \<Rightarrow> string) \<Rightarrow> Query \<Rightarrow> sort_value list option \<Rightarrow> string list \<times> alert_row list \<Rightarrow> bool" where
  "groups_after strxfrm query from g =
     (case from of
        None \<Rightarrow> True
      | Some p \<Rightarrow> if groupOrder query = ''desc'' then group_position strxfrm query g < p
                  else p < group_position strxfrm query g)"

definition GroupAlerts ::
  "(string \<Rightarrow> string \<Rightarrow> bool) \<Rightarrow> (string \<Rightarrow> string) \<Rightarrow> (instant \<Rightarrow> string) \<Rightarrow> (string \<Rightarrow> instant option) \<Rightarrow>
   (string \<Rightarrow> instant option) \<Rightarrow> (identity_payload \<Rightarrow> string) \<Rightarrow> Principal \<Rightarrow> Query \<Rightarrow> db \<Rightarrow> db_error + GroupResult" where
  "GroupAlerts pgrx strxfrm format_time go_time pg_time digest caller query0 s =
     bind_res (groupKeyExpressions (query_GroupBy query0)) (\<lambda>key.
     if query_Limit query0 < 1 then Inl (ErrMessage ''limit must be positive'')
     else bind_res (group_ordering query0) (\<lambda>(query, sortType).
     if \<not> pred_option (\<lambda>c. gcursor_Query c = CursorIdentity digest query) (query_GroupCursor query)
     then Inl (ErrMessage ''cursor does not match the current query'')
     else bind_res (readStreamCursor pgrx caller s) (\<lambda>streamCursor.
     let view = resolveView caller (query_View query);
         condition = alertFiltersWithView caller query view viewApply
     in bind_res (readSeverityCounts pgrx condition s) (\<lambda>(counts, totalAlerts).
        bind_res (summarizeView pgrx caller query view s) (\<lambda>viewSummary.
        bind_res (select_rows pgrx condition s) (\<lambda>selected.
        let totalGroups = length (grouped key selected)
        in bind_res (group_from go_time pg_time strxfrm query sortType (query_GroupCursor query))
             (\<lambda>from.
                let found = take (nat (query_Limit query + 1))
                      (ordered_groups strxfrm query (filter (groups_after strxfrm query from) (grouped key selected)));
                    shown = take (nat (query_Limit query)) found
                in Inr \<lparr>groups_Groups = map (\<lambda>g. group_of (query_GroupBy query) (fst g) (snd g)) shown,
                        groups_NextCursor =
                          (if int (length found) > query_Limit query
                           then Some (next_group_cursor strxfrm format_time digest query sortType (last shown)) else None),
                        groups_TotalGroups = totalGroups, groups_TotalAlerts = totalAlerts,
                        groups_SeverityCounts = counts, groups_StreamCursor = streamCursor,
                        groups_View = viewSummary\<rparr>)))))))"

section \<open>Specification\<close>

text \<open>The rows a grouped query selects, and its groups in order.\<close>

definition selected_by :: "(string \<Rightarrow> string \<Rightarrow> bool) \<Rightarrow> Principal \<Rightarrow> Query \<Rightarrow> db \<Rightarrow> alert_row list" where
  "selected_by pgrx caller q s =
     filter (\<lambda>r. query_selects pgrx caller q (resolveView caller (query_View q)) viewApply (row_of r)) (alert_rows s)"

definition group_query :: "Query \<Rightarrow> Query" where
  "group_query q = (if query_Sort q \<noteq> [] \<and> query_Order q = [] then q\<lparr>query_Order := DefaultOrder\<rparr> else q)"

definition listed_groups ::
  "(string \<Rightarrow> string \<Rightarrow> bool) \<Rightarrow> (string \<Rightarrow> string) \<Rightarrow> Principal \<Rightarrow> Query \<Rightarrow> db \<Rightarrow> (string list \<times> alert_row list) list" where
  "listed_groups pgrx strxfrm caller q s =
     ordered_groups strxfrm (group_query q)
       (grouped (\<lambda>r. map (key_expression r) (query_GroupBy q)) (selected_by pgrx caller q s))"

definition group_page ::
  "(string \<Rightarrow> string \<Rightarrow> bool) \<Rightarrow> (string \<Rightarrow> string) \<Rightarrow> (instant \<Rightarrow> string) \<Rightarrow> (string \<Rightarrow> instant option) \<Rightarrow>
   (string \<Rightarrow> instant option) \<Rightarrow> (identity_payload \<Rightarrow> string) \<Rightarrow> Principal \<Rightarrow> Query \<Rightarrow> db \<Rightarrow> GroupCursor option \<Rightarrow>
   (Group list \<times> GroupCursor option) option" where
  "group_page pgrx strxfrm format_time go_time pg_time digest caller q s c =
     (case GroupAlerts pgrx strxfrm format_time go_time pg_time digest caller (q\<lparr>query_GroupCursor := c\<rparr>) s of
        Inl e \<Rightarrow> None
      | Inr result \<Rightarrow> Some (groups_Groups result, groups_NextCursor result))"

text \<open>The rows whose groups a cursor can name: seen at a time other than Go's zero time, times that
  survive being written and read back, and texts that hold no zero byte.\<close>

definition group_exact ::
  "(instant \<Rightarrow> string) \<Rightarrow> (string \<Rightarrow> instant option) \<Rightarrow> (string \<Rightarrow> instant option) \<Rightarrow> Query \<Rightarrow> alert_row \<Rightarrow> bool" where
  "group_exact format_time go_time pg_time q r \<longleftrightarrow>
     LastSeen r \<noteq> 0 \<and> times_exact format_time pg_time r \<and>
     go_time (format_time (LastSeen r)) \<noteq> None \<and> go_time (format_time (StartsAt r)) \<noteq> None \<and>
     list_all (\<lambda>name. text_ok (key_expression r name)) (query_GroupBy q) \<and>
     (alertSorts (query_Sort q) = Some Text \<longrightarrow> text_ok (alertCursorValue format_time r (query_Sort q)))"

definition sample_groups :: Query where
  "sample_groups = sample_query\<lparr>query_GroupBy := [''alertname'']\<rparr>"

section \<open>Lemmas\<close>

lemma grouped_keys: "map fst (grouped key rows) = remdups (map key rows)"
  by (simp add: grouped_def comp_def)

lemma grouped_member:
  assumes "g \<in> set (grouped key rows)"
  shows "snd g = filter (\<lambda>r. key r = fst g) rows" "\<exists>r \<in> set rows. key r = fst g \<and> r \<in> set (snd g)"
  using assms by (auto simp: grouped_def)

lemma sum_remdups_filter:
  "(\<Sum>k \<leftarrow> remdups (map key rows). length (filter (\<lambda>r. key r = k) rows)) = length rows"
proof -
  have "(\<Sum>k \<in> key ` set rows. length (filter (\<lambda>r. key r = k) rows)) = length rows"
  proof (induction rows)
    case (Cons r rows)
    have split: "length (filter (\<lambda>x. key x = k) (r # rows)) =
        (if k = key r then 1 else 0) + length (filter (\<lambda>x. key x = k) rows)" for k by simp
    have "(\<Sum>k \<in> key ` set (r # rows). length (filter (\<lambda>x. key x = k) rows)) =
        (\<Sum>k \<in> key ` set rows. length (filter (\<lambda>x. key x = k) rows))"
      by (rule sum.mono_neutral_right) (auto simp: filter_empty_conv)
    then show ?case unfolding split sum.distrib using Cons.IH by simp
  qed simp
  then show ?thesis by (simp add: sum_list_distinct_conv_sum_set)
qed

lemma ordered_groups_filter:
  "ordered_groups strxfrm q (filter P gs) = filter P (ordered_groups strxfrm q gs)"
  by (simp add: ordered_groups_def Let_def filter_sort [symmetric] rev_filter)

lemma set_ordered_groups [simp]:
  "set (ordered_groups strxfrm q gs) = set gs" "length (ordered_groups strxfrm q gs) = length gs"
  "mset (ordered_groups strxfrm q gs) = mset gs"
  by (simp_all add: ordered_groups_def Let_def)

lemma text_value_inj: "map (text_value strxfrm) a = map (text_value strxfrm) b \<Longrightarrow> a = b"
  by (rule map_injective) (auto simp: text_value_def inj_def)

lemma group_position_inj:
  "group_position strxfrm q g = group_position strxfrm q h \<Longrightarrow> fst g = fst h"
  by (auto simp: group_position_def dest: text_value_inj split: if_splits)

lemma ordered_groups_sorted:
  assumes "distinct (map fst gs)"
  shows "sorted_wrt (follows (groupOrder q)) (map (group_position strxfrm q) (ordered_groups strxfrm q gs))"
proof -
  let ?asc = "sort_key (group_position strxfrm q) gs"
  have "inj_on (group_position strxfrm q) (set gs)"
    using assms by (auto simp: distinct_map inj_on_def dest!: group_position_inj)
  moreover have "distinct gs" using assms by (simp add: distinct_map)
  ultimately have "distinct (map (group_position strxfrm q) ?asc)" by (simp add: distinct_map)
  then have "sorted_wrt (<) (map (group_position strxfrm q) ?asc)" by (simp add: strict_sorted_iff)
  then show ?thesis
    by (cases "groupOrder q = ''desc''")
      (simp_all add: ordered_groups_def Let_def follows_def [abs_def] rev_map [symmetric] sorted_wrt_rev)
qed

subsection \<open>Cursors\<close>

lemma severityRank_range: "severityRank l \<in> {0, 1, 2, 3}"
  by (simp add: severityRank_def Let_def)

lemma Max_image_attained: "rows \<noteq> [] \<Longrightarrow> \<exists>r \<in> set rows. Max (set (map f rows)) = f r"
proof -
  assume "rows \<noteq> []"
  then have "Max (set (map f rows)) \<in> set (map f rows)" by (intro Max_in) simp_all
  then show ?thesis by (auto simp: image_iff)
qed

lemma Min_image_attained: "rows \<noteq> [] \<Longrightarrow> \<exists>r \<in> set rows. Min (set (map f rows)) = f r"
proof -
  assume "rows \<noteq> []"
  then have "Min (set (map f rows)) \<in> set (map f rows)" by (intro Min_in) simp_all
  then show ?thesis by (auto simp: image_iff)
qed

lemma groupSortExpression_attained:
  "members \<noteq> [] \<Longrightarrow> \<exists>r \<in> set members. groupSortExpression strxfrm name members = sort_expression strxfrm name r"
  by (auto simp: groupSortExpression_def dest: Max_image_attained Min_image_attained simp del: set_map)

text \<open>A value of a sort survives being written into a cursor.\<close>

lemma groupCursorValue_exact:
  assumes "group_exact format_time go_time pg_time q r" "alertSorts (query_Sort q) = Some ty"
  shows "validGroupCursorValue go_time (groupCursorValue format_time ty (sort_expression strxfrm (query_Sort q) r)) ty"
    "cast_cursor pg_time strxfrm ty (groupCursorValue format_time ty (sort_expression strxfrm (query_Sort q) r)) =
      Inr (sort_expression strxfrm (query_Sort q) r)"
proof -
  let ?name = "query_Sort q"
  let ?v = "sort_expression strxfrm ?name r"
  have "validGroupCursorValue go_time (groupCursorValue format_time ty ?v) ty \<and>
    cast_cursor pg_time strxfrm ty (groupCursorValue format_time ty ?v) = Inr ?v"
  proof -
    consider "?name = ''lastSeen''" "ty = Timestamptz" | "?name = ''startsAt''" "ty = Timestamptz"
      | "?name = ''severity''" "ty = Integer"
      | "?name \<in> {''alertname'', ''summary'', ''status'', ''team'', ''instance'', ''source''}" "ty = Text"
      using assms(2) by (auto simp: alertSorts_def split: if_splits)
    then show ?thesis
    proof cases
      case 3
      have "int64_range (severityRank (Labels r))" "0 \<le> severityRank (Labels r)" "severityRank (Labels r) \<le> 3"
        using severityRank_range [of "Labels r"] by (auto simp: int64_range_def)
      with 3 show ?thesis
        by (simp add: sort_expression_def number_value_def groupCursorValue_def cast_cursor_def
            validGroupCursorValue_def ParseInt_FormatInt)
    next
      case 4
      have "?v = text_value strxfrm (alertCursorValue format_time r ?name)"
        using 4(1) by (auto simp: sort_expression_def alertCursorValue_def)
      moreover have "text_ok (alertCursorValue format_time r ?name)"
        using assms 4(2) by (simp add: group_exact_def)
      ultimately show ?thesis
        using 4(2) by (simp add: groupCursorValue_def cast_cursor_def text_value_def validGroupCursorValue_def)
    qed (use assms(1) in \<open>auto simp: sort_expression_def groupCursorValue_def cast_cursor_def number_value_def
        validGroupCursorValue_def group_exact_def times_exact_def\<close>)
  qed
  then show "validGroupCursorValue go_time (groupCursorValue format_time ty ?v) ty"
    "cast_cursor pg_time strxfrm ty (groupCursorValue format_time ty ?v) = Inr ?v" by blast+
qed

text \<open>A cursor made from a group stands for the place of that group.\<close>

lemma next_group_cursor_position:
  assumes "group_ordering q = Inr (q', sortType)"
    "g \<in> set (grouped (\<lambda>r. map (key_expression r) (query_GroupBy q)) rows)"
    "\<forall>r \<in> set rows. group_exact format_time go_time pg_time q r"
  shows "group_cursor_position go_time pg_time strxfrm q' sortType (next_group_cursor strxfrm format_time digest q' sortType g) =
    Inr (group_position strxfrm q' g)"
proof -
  from grouped_member(2) [OF assms(2)] obtain r where
    r: "r \<in> set rows" "fst g = map (key_expression r) (query_GroupBy q)" "snd g \<noteq> []" "set (snd g) \<subseteq> set rows"
    unfolding grouped_member(1) [OF assms(2)] by (metis empty_iff empty_set filter_is_subset)
  have key: "list_all text_ok (fst g)" "length (fst g) = length (query_GroupBy q)"
    using assms(3) r(1,2) by (auto simp: group_exact_def list_all_iff)
  consider (default) "query_Sort q = []" "query_Order q = []" "q' = q" "sortType = None"
    | (explicit) ty where "query_Sort q \<noteq> []" "alertSorts (query_Sort q) = Some ty" "sortType = Some ty"
      "query_Sort q' = query_Sort q" "query_Order q' = ''asc'' \<or> query_Order q' = ''desc''"
      "query_GroupBy q' = query_GroupBy q"
    using assms(1) by (auto simp: group_ordering_def Let_def split: if_splits option.splits)
  then show ?thesis
  proof cases
    case default
    have "latest_seen (snd g) \<noteq> 0"
      using Max_image_attained [OF r(3), of LastSeen] r(4) assms(3) by (auto simp: latest_seen_def group_exact_def)
    moreover have "int32_range (worst_rank (snd g))"
    proof -
      obtain m :: alert_row where "worst_rank (snd g) = severityRank (Labels m)"
        using Max_image_attained [OF r(3), of "\<lambda>r. severityRank (Labels r)"] unfolding worst_rank_def by blast
      then show ?thesis using severityRank_range [of "Labels m"] by (auto simp: int32_range_def)
    qed
    ultimately show ?thesis
      using default key
      by (simp add: group_cursor_position_def next_group_cursor_def groupSort_def groupOrder_def
          groupCursorPlaceholders_def group_position_def)
  next
    case explicit
    from groupSortExpression_attained [OF r(3)] obtain m where
      m: "m \<in> set (snd g)" "groupSortExpression strxfrm (query_Sort q) (snd g) = sort_expression strxfrm (query_Sort q) m"
      by blast
    have "group_exact format_time go_time pg_time q m" using assms(3) m(1) r(4) by blast
    from groupCursorValue_exact [OF this explicit(2), of strxfrm] explicit key m(2) show ?thesis
      by (auto simp: group_cursor_position_def next_group_cursor_def groupSort_def groupOrder_def group_position_def)
  qed
qed

subsection \<open>Pages\<close>

lemma group_query_cursor [simp]:
  "alertFiltersWithView caller (q\<lparr>query_GroupCursor := gc\<rparr>) view mode = alertFiltersWithView caller q view mode"
  "alertFiltersWithView caller (q\<lparr>query_Order := order\<rparr>) view mode = alertFiltersWithView caller q view mode"
  "CursorIdentity digest (q\<lparr>query_GroupCursor := gc\<rparr>) = CursorIdentity digest q"
  "groupOrder (q\<lparr>query_GroupCursor := gc\<rparr>) = groupOrder q" "groupSort (q\<lparr>query_GroupCursor := gc\<rparr>) = groupSort q"
  "group_position strxfrm (q\<lparr>query_GroupCursor := gc\<rparr>) = group_position strxfrm q"
  "group_cursor_position go_time pg_time strxfrm (q\<lparr>query_GroupCursor := gc\<rparr>) st c =
    group_cursor_position go_time pg_time strxfrm q st c"
  by (simp_all add: alertFiltersWithView_def option_filters_def CursorIdentity_def cursor_payload_def
      group_position_def fun_eq_iff groupOrder_def groupSort_def group_cursor_position_def Let_def cong: if_cong option.case_cong)

lemma group_statements_cursor [simp]:
  "summarizeView pgrx caller (q\<lparr>query_GroupCursor := gc\<rparr>) view s = summarizeView pgrx caller q view s"
  "summarizeView pgrx caller (q\<lparr>query_Order := order\<rparr>) view s = summarizeView pgrx caller q view s"
  "ordered_groups strxfrm (q\<lparr>query_GroupCursor := gc\<rparr>) gs = ordered_groups strxfrm q gs"
  "groups_after strxfrm (q\<lparr>query_GroupCursor := gc\<rparr>) = groups_after strxfrm q"
  "group_from go_time pg_time strxfrm (q\<lparr>query_GroupCursor := gc\<rparr>) st c = group_from go_time pg_time strxfrm q st c"
  "next_group_cursor strxfrm format_time digest (q\<lparr>query_GroupCursor := gc\<rparr>) st g =
    next_group_cursor strxfrm format_time digest q st g"
  by (simp_all add: summarizeView_def ordered_groups_def groups_after_def fun_eq_iff group_from_def
      next_group_cursor_def Let_def cong: if_cong option.case_cong)

lemma group_ordering_query:
  "group_ordering q = Inr (q', st) \<Longrightarrow> q' = group_query q"
  "group_ordering (q\<lparr>query_GroupCursor := c\<rparr>) = map_sum id (\<lambda>(q', st). (q'\<lparr>query_GroupCursor := c\<rparr>, st)) (group_ordering q)"
  "query_GroupBy (group_query q) = query_GroupBy q" "query_View (group_query q) = query_View q"
  "query_Limit (group_query q) = query_Limit q" "query_GroupCursor (group_query q) = query_GroupCursor q"
  "alertFiltersWithView caller (group_query q) view mode = alertFiltersWithView caller q view mode"
  by (auto simp: group_ordering_def group_query_def Let_def split: if_splits option.splits)

lemma last_take: "1 \<le> k \<Longrightarrow> k < length xs \<Longrightarrow> last (take k xs) = xs ! (k - 1)"
  by (subst last_conv_nth) auto

text \<open>An accepted grouped query, with any cursor of the same query that has a position.\<close>

lemma GroupAlerts_from:
  assumes "GroupAlerts pgrx strxfrm format_time go_time pg_time digest caller q s = Inr first"
    "query_GroupCursor q = None"
  obtains st where "group_ordering q = Inr (group_query q, st)" "1 \<le> query_Limit q"
    "groups_TotalGroups first = length (listed_groups pgrx strxfrm caller q s)"
    "groups_TotalAlerts first = length (selected_by pgrx caller q s)"
    "\<And>c start. pred_option (\<lambda>gc. gcursor_Query gc = CursorIdentity digest (group_query q)) c \<Longrightarrow>
      group_from go_time pg_time strxfrm (group_query q) st c = Inr start \<Longrightarrow>
      \<exists>result. GroupAlerts pgrx strxfrm format_time go_time pg_time digest caller (q\<lparr>query_GroupCursor := c\<rparr>) s = Inr result \<and>
        groups_Groups result = map (\<lambda>g. group_of (query_GroupBy q) (fst g) (snd g))
          (take (nat (query_Limit q)) (filter (groups_after strxfrm (group_query q) start) (listed_groups pgrx strxfrm caller q s))) \<and>
        groups_NextCursor result =
          (if length (filter (groups_after strxfrm (group_query q) start) (listed_groups pgrx strxfrm caller q s)) \<le> nat (query_Limit q)
           then None
           else Some (next_group_cursor strxfrm format_time digest (group_query q) st
             (filter (groups_after strxfrm (group_query q) start) (listed_groups pgrx strxfrm caller q s) ! (nat (query_Limit q) - 1))))"
proof -
  let ?key = "\<lambda>r. map (key_expression r) (query_GroupBy q)"
  let ?view = "resolveView caller (query_View q)"
  obtain q' st sc counts summary rows where
    k: "ValidateGroupBy (query_GroupBy q) = Inr ()" "\<not> query_Limit q < 1" "group_ordering q = Inr (q', st)"
      "readStreamCursor pgrx caller s = Inr sc"
      "readSeverityCounts pgrx (alertFiltersWithView caller q ?view viewApply) s = Inr counts"
      "summarizeView pgrx caller q' ?view s = Inr summary"
      "select_rows pgrx (alertFiltersWithView caller q ?view viewApply) s = Inr rows"
    and total: "groups_TotalGroups first = length (grouped ?key rows)" "groups_TotalAlerts first = snd counts"
    using assms(1)
    by (auto simp: GroupAlerts_def Let_def bind_res_Inr groupKeyExpressions_def group_ordering_query
        dest!: group_ordering_query(1) split: sum.splits if_splits prod.splits)
  have q': "q' = group_query q" using k(3) by (rule group_ordering_query(1))
  have rows: "rows = selected_by pgrx caller q s" using selected_rows [OF k(7)] by (simp add: selected_by_def)
  have L: "ordered_groups strxfrm (group_query q) (grouped ?key rows) = listed_groups pgrx strxfrm caller q s"
    by (simp add: listed_groups_def rows)
  show thesis
  proof (rule that)
    show "group_ordering q = Inr (group_query q, st)" "1 \<le> query_Limit q"
      "groups_TotalGroups first = length (listed_groups pgrx strxfrm caller q s)"
      "groups_TotalAlerts first = length (selected_by pgrx caller q s)"
      using k(2,3) q' total k(5,7) rows
      by (auto simp: listed_groups_def readSeverityCounts_def severity_counts_total)
    fix c start
    assume c: "pred_option (\<lambda>gc. gcursor_Query gc = CursorIdentity digest (group_query q)) c"
      "group_from go_time pg_time strxfrm (group_query q) st c = Inr start"
    let ?F = "filter (groups_after strxfrm (group_query q) start) (listed_groups pgrx strxfrm caller q s)"
    have key: "groupKeyExpressions (query_GroupBy q) = Inr ?key" using k(1) by (simp add: groupKeyExpressions_def)
    have cut: "take (nat (query_Limit q)) (take (nat (query_Limit q + 1)) ?F) = take (nat (query_Limit q)) ?F"
      "query_Limit q < int (length ?F) \<longleftrightarrow> \<not> length ?F \<le> nat (query_Limit q)"
      "\<not> length ?F \<le> nat (query_Limit q) \<Longrightarrow> last (take (nat (query_Limit q)) ?F) = ?F ! (nat (query_Limit q) - 1)"
      using k(2) by (auto simp: min_def last_take)
    show "\<exists>result. GroupAlerts pgrx strxfrm format_time go_time pg_time digest caller (q\<lparr>query_GroupCursor := c\<rparr>) s = Inr result \<and>
        groups_Groups result = map (\<lambda>g. group_of (query_GroupBy q) (fst g) (snd g)) (take (nat (query_Limit q)) ?F) \<and>
        groups_NextCursor result =
          (if length ?F \<le> nat (query_Limit q) then None
           else Some (next_group_cursor strxfrm format_time digest (group_query q) st (?F ! (nat (query_Limit q) - 1))))"
      using k(2-4,6) c key
      by (simp add: GroupAlerts_def group_ordering_query q' k(5,7) Let_def ordered_groups_filter L cut
          split: prod.splits)
  qed
qed

lemma listed_groups_set:
  "set (listed_groups pgrx strxfrm caller q s) =
    set (grouped (\<lambda>r. map (key_expression r) (query_GroupBy q)) (selected_by pgrx caller q s))"
  by (simp add: listed_groups_def)

lemma listed_groups_sorted:
  "sorted_wrt (follows (groupOrder (group_query q)))
    (map (group_position strxfrm (group_query q)) (listed_groups pgrx strxfrm caller q s))"
  unfolding listed_groups_def by (rule ordered_groups_sorted) (simp add: grouped_keys)

lemma group_cursor_resumes:
  assumes "group_ordering q = Inr (group_query q, st)" "i < length (listed_groups pgrx strxfrm caller q s)"
    "\<forall>r \<in> set (alert_rows s). group_exact format_time go_time pg_time q r"
  shows "\<exists>start. group_from go_time pg_time strxfrm (group_query q) st
      (Some (next_group_cursor strxfrm format_time digest (group_query q) st (listed_groups pgrx strxfrm caller q s ! i))) = Inr start \<and>
    filter (groups_after strxfrm (group_query q) start) (listed_groups pgrx strxfrm caller q s) =
      drop (Suc i) (listed_groups pgrx strxfrm caller q s)"
proof -
  let ?L = "listed_groups pgrx strxfrm caller q s"
  let ?pos = "group_position strxfrm (group_query q)"
  have "?L ! i \<in> set (grouped (\<lambda>r. map (key_expression r) (query_GroupBy q)) (selected_by pgrx caller q s))"
    using nth_mem [OF assms(2)] by (simp add: listed_groups_set)
  moreover have "\<forall>r \<in> set (selected_by pgrx caller q s). group_exact format_time go_time pg_time q r"
    using assms(3) by (simp add: selected_by_def)
  ultimately have "group_from go_time pg_time strxfrm (group_query q) st
      (Some (next_group_cursor strxfrm format_time digest (group_query q) st (?L ! i))) = Inr (Some (?pos (?L ! i)))"
    using next_group_cursor_position [OF assms(1)] by (simp add: group_from_def)
  moreover have "groups_after strxfrm (group_query q) (Some (?pos (?L ! i))) =
      (\<lambda>g. follows (groupOrder (group_query q)) (?pos (?L ! i)) (?pos g))"
    by (simp add: groups_after_def follows_def fun_eq_iff)
  ultimately show ?thesis
    using filter_after [OF listed_groups_sorted assms(2) follows_irrefl] by auto
qed

lemma group_pages_from:
  assumes "GroupAlerts pgrx strxfrm format_time go_time pg_time digest caller q s = Inr first"
    "query_GroupCursor q = None" "\<forall>r \<in> set (alert_rows s). group_exact format_time go_time pg_time q r"
    "length (listed_groups pgrx strxfrm caller q s) < n"
  shows "\<exists>pages. read_pages (group_page pgrx strxfrm format_time go_time pg_time digest caller q s) n None = Some pages \<and>
    concat pages = map (\<lambda>g. group_of (query_GroupBy q) (fst g) (snd g)) (listed_groups pgrx strxfrm caller q s) \<and>
    (\<forall>p \<in> set (butlast pages). length p = nat (query_Limit q))"
proof -
  let ?L = "listed_groups pgrx strxfrm caller q s"
  let ?G = "map (\<lambda>g. group_of (query_GroupBy q) (fst g) (snd g)) ?L"
  let ?k = "nat (query_Limit q)"
  let ?next = "\<lambda>st g. next_group_cursor strxfrm format_time digest (group_query q) st g"
  obtain st where st: "group_ordering q = Inr (group_query q, st)" "1 \<le> query_Limit q"
    "\<And>c start. pred_option (\<lambda>gc. gcursor_Query gc = CursorIdentity digest (group_query q)) c \<Longrightarrow>
      group_from go_time pg_time strxfrm (group_query q) st c = Inr start \<Longrightarrow>
      \<exists>result. GroupAlerts pgrx strxfrm format_time go_time pg_time digest caller (q\<lparr>query_GroupCursor := c\<rparr>) s = Inr result \<and>
        groups_Groups result = map (\<lambda>g. group_of (query_GroupBy q) (fst g) (snd g))
          (take ?k (filter (groups_after strxfrm (group_query q) start) ?L)) \<and>
        groups_NextCursor result =
          (if length (filter (groups_after strxfrm (group_query q) start) ?L) \<le> ?k then None
           else Some (?next st (filter (groups_after strxfrm (group_query q) start) ?L ! (?k - 1))))"
    by (rule GroupAlerts_from [OF assms(1,2)]) blast
  define resumes where "resumes c m \<longleftrightarrow>
    pred_option (\<lambda>gc. gcursor_Query gc = CursorIdentity digest (group_query q)) c \<and>
    (\<exists>start. group_from go_time pg_time strxfrm (group_query q) st c = Inr start \<and>
      filter (groups_after strxfrm (group_query q) start) ?L = drop m ?L)" for c m
  have "\<exists>pages. read_pages (group_page pgrx strxfrm format_time go_time pg_time digest caller q s) n None = Some pages \<and>
      pages \<noteq> [] \<and> map id (concat pages) = drop 0 ?G \<and> (\<forall>p \<in> set (butlast pages). length p = ?k)"
  proof (rule read_pages_from [where resumes = resumes])
    show "1 \<le> ?k" "length ?G - 0 < n" using st(2) assms(4) by auto
    show "resumes None 0" by (simp add: resumes_def group_from_def groups_after_def)
    fix c m
    assume "resumes c m"
    then obtain start where a: "pred_option (\<lambda>gc. gcursor_Query gc = CursorIdentity digest (group_query q)) c"
      "group_from go_time pg_time strxfrm (group_query q) st c = Inr start"
      "filter (groups_after strxfrm (group_query q) start) ?L = drop m ?L" unfolding resumes_def by blast
    from st(3) [OF a(1,2)] obtain result where r:
      "GroupAlerts pgrx strxfrm format_time go_time pg_time digest caller (q\<lparr>query_GroupCursor := c\<rparr>) s = Inr result"
      "groups_Groups result = map (\<lambda>g. group_of (query_GroupBy q) (fst g) (snd g)) (take ?k (drop m ?L))"
      "groups_NextCursor result = (if length (drop m ?L) \<le> ?k then None else Some (?next st (drop m ?L ! (?k - 1))))"
      unfolding a(3) by blast
    have "resumes (Some (?next st (drop m ?L ! (?k - 1)))) (m + ?k)" if "\<not> length ?L - m \<le> ?k"
    proof -
      let ?i = "m + (?k - 1)"
      have i: "?i < length ?L" "drop m ?L ! (?k - 1) = ?L ! ?i" "Suc ?i = m + ?k" using that st(2) by simp_all
      have "gcursor_Query (?next st (?L ! ?i)) = CursorIdentity digest (group_query q)" by (simp add: next_group_cursor_def)
      with group_cursor_resumes [OF st(1) i(1) assms(3), of digest] show ?thesis
        unfolding resumes_def i(2,3) by simp
    qed
    with r show "\<exists>items next. group_page pgrx strxfrm format_time go_time pg_time digest caller q s c = Some (items, next) \<and>
        map id items = take ?k (drop m ?G) \<and>
        (if length ?G - m \<le> ?k then next = None else \<exists>c'. next = Some c' \<and> resumes (Some c') (m + ?k))"
      by (auto simp: group_page_def take_map drop_map)
  qed
  then show ?thesis by auto
qed

section \<open>Properties\<close>

text \<open>C21: reading groups page by page. Following the cursors from the first page returns one
  summary for every group of the alerts the query selects, in order, all pages but the last being
  full. The groups have distinct keys, every selected alert is counted in exactly one of them, and
  the totals are those of the whole query.\<close>

theorem group_pages_complete:
  assumes "GroupAlerts pgrx strxfrm format_time go_time pg_time digest caller q s = Inr first"
    "query_GroupCursor q = None" "\<forall>r \<in> set (alert_rows s). group_exact format_time go_time pg_time q r"
    "length (alert_rows s) < n"
  shows "\<exists>pages. read_pages (group_page pgrx strxfrm format_time go_time pg_time digest caller q s) n None = Some pages \<and>
    concat pages = map (\<lambda>(key, members). group_of (query_GroupBy q) key members) (listed_groups pgrx strxfrm caller q s) \<and>
    (\<forall>p \<in> set (butlast pages). length p = nat (query_Limit q)) \<and>
    set (listed_groups pgrx strxfrm caller q s) =
      {(key, filter (\<lambda>r. map (key_expression r) (query_GroupBy q) = key) (selected_by pgrx caller q s)) | key.
        key \<in> (\<lambda>r. map (key_expression r) (query_GroupBy q)) ` set (selected_by pgrx caller q s)} \<and>
    sorted_wrt (follows (groupOrder (group_query q)))
      (map (group_position strxfrm (group_query q)) (listed_groups pgrx strxfrm caller q s)) \<and>
    groups_TotalGroups first = length (concat pages) \<and>
    groups_TotalAlerts first = sum_list (map group_Total (concat pages)) \<and>
    groups_TotalAlerts first = length (selected_by pgrx caller q s)"
proof -
  let ?L = "listed_groups pgrx strxfrm caller q s"
  let ?key = "\<lambda>r. map (key_expression r) (query_GroupBy q)"
  let ?rows = "selected_by pgrx caller q s"
  have tot: "groups_TotalGroups first = length ?L" "groups_TotalAlerts first = length ?rows"
    by (rule GroupAlerts_from [OF assms(1,2)], blast)+
  have "length ?L \<le> length ?rows" using length_remdups_leq [of "map ?key ?rows"] by (simp add: listed_groups_def grouped_def)
  also have "\<dots> \<le> length (alert_rows s)" by (simp add: selected_by_def)
  finally have "length ?L < n" using assms(4) by simp
  from group_pages_from [OF assms(1-3) this] obtain pages where
    p: "read_pages (group_page pgrx strxfrm format_time go_time pg_time digest caller q s) n None = Some pages"
    "concat pages = map (\<lambda>g. group_of (query_GroupBy q) (fst g) (snd g)) ?L"
    "\<forall>p \<in> set (butlast pages). length p = nat (query_Limit q)" by blast
  have "sum_list (map group_Total (concat pages)) = (\<Sum>g \<leftarrow> ?L. length (snd g))"
    by (simp add: p(2) comp_def group_of_def)
  also have "\<dots> = (\<Sum>g \<leftarrow> grouped ?key ?rows. length (snd g))"
    by (simp add: listed_groups_def flip: sum_mset_sum_list)
  also have "\<dots> = length ?rows" using sum_remdups_filter [of ?key ?rows] by (simp add: grouped_def comp_def)
  finally have counted: "groups_TotalAlerts first = sum_list (map group_Total (concat pages))" using tot(2) by simp
  have members: "set ?L = {(key, filter (\<lambda>r. ?key r = key) ?rows) | key. key \<in> ?key ` set ?rows}"
    unfolding listed_groups_set grouped_def by auto
  have summaries: "concat pages = map (\<lambda>(key, members). group_of (query_GroupBy q) key members) ?L"
    using p(2) by (simp add: case_prod_beta)
  have "groups_TotalGroups first = length (concat pages)" using tot(1) p(2) by simp
  with p(1) summaries p(3) members listed_groups_sorted counted tot(2) show ?thesis
    by (intro exI [of _ pages] conjI)
qed

lemma sample_groups_query:
  "query_GroupBy sample_groups = [''alertname'']" "query_GroupCursor sample_groups = None" "query_Sort sample_groups = []"
  "query_Order sample_groups = []" "query_View sample_groups = None" "query_Limit sample_groups = 1"
  by (simp_all add: sample_groups_def sample_query_def)

lemma sample_groups_selected: "selected_by pgrx sample_reader sample_groups sample_db = [sample_row, sample_resolved]"
  by (simp add: selected_by_def sample_groups_def sample_query_def sample_reader_def sample_defs query_selects_def
      sql_can_read_iff resolveView_def view_filtering_def view_active_def row_of_def)

lemma sample_groups_listed:
  "listed_groups pgrx strxfrm sample_reader sample_groups sample_db =
    [([''HighCPU''], [sample_row]), ([''DiskFull''], [sample_resolved])]"
proof -
  have "grouped (\<lambda>r. map (key_expression r) (query_GroupBy sample_groups)) [sample_row, sample_resolved] =
      [([''HighCPU''], [sample_row]), ([''DiskFull''], [sample_resolved])]"
    by (simp add: grouped_def sample_groups_query key_expression_def sample_defs golookup_def)
  moreover have "worst_rank [sample_row] = 3" "worst_rank [sample_resolved] = 2"
    by (simp_all add: worst_rank_def severityRank_def severity_of_def sample_defs)
  ultimately show ?thesis
    by (simp add: listed_groups_def sample_groups_selected ordered_groups_def group_query_def sample_groups_query
        group_position_def groupOrder_def number_value_def)
qed

lemma sample_groups_accepted:
  "\<exists>first. GroupAlerts pgrx strxfrm format_time go_time pg_time digest sample_reader sample_groups s = Inr first"
proof -
  have "alertFiltersWithView sample_reader sample_groups (resolveView sample_reader None) viewApply =
      (SqlAnd [SqlTrue, SqlClosedEq 1], [ArgBool True])"
    by (simp add: alertFiltersWithView_def sample_groups_def sample_query_def option_filters_def access_filters_def
        readAccessCondition_def sample_reader_def resolveView_def view_filtering_def view_active_def add_filter_def Let_def)
  moreover have "groupKeyExpressions (query_GroupBy sample_groups) = Inr (\<lambda>r. [key_expression r ''alertname''])"
    by (simp add: groupKeyExpressions_def sample_groups_query ValidateGroupBy_def IsGroupKey_def MaxGroupKeys_def
        is_lower_def is_upper_def less_eq_char_def)
  ultimately show ?thesis
    using sample_statements(2,3) [of pgrx s]
    by (auto simp: GroupAlerts_def sample_groups_query group_ordering_def readSeverityCounts_def summarizeView_def
        resolveView_def group_from_def Let_def)
qed

theorem group_pages_complete_witness:
  "\<exists>pages. read_pages (group_page (\<lambda>p v. p = v) id FormatInt ParseInt ParseInt (\<lambda>_. []) sample_reader
      sample_groups sample_db) 3 None = Some pages \<and>
    map group_WorstSeverity (concat pages) = [''critical'', ''warning''] \<and> map group_SampleAlertID (concat pages) = [1, 2]"
proof -
  from sample_groups_accepted obtain first where
    a: "GroupAlerts (\<lambda>p v. p = v) id FormatInt ParseInt ParseInt (\<lambda>_. []) sample_reader sample_groups sample_db = Inr first"
    by blast
  have b: "\<forall>r \<in> set (alert_rows sample_db). group_exact FormatInt ParseInt ParseInt sample_groups r"
    by (simp add: sample_defs group_exact_def times_exact_def ParseInt_FormatInt int64_range_def sample_groups_query
        key_expression_def golookup_def alertSorts_def)
  have c: "length (alert_rows sample_db) < 3" by (simp add: sample_defs)
  from group_pages_complete [OF a sample_groups_query(2) b c] have "\<exists>pages. read_pages (group_page (\<lambda>p v. p = v) id FormatInt ParseInt ParseInt (\<lambda>_. []) sample_reader
      sample_groups sample_db) 3 None = Some pages \<and>
    concat pages = map (\<lambda>(key, members). group_of (query_GroupBy sample_groups) key members)
      (listed_groups (\<lambda>p v. p = v) id sample_reader sample_groups sample_db)"
    by (elim exE conjE) (intro exI conjI)
  then show ?thesis
    unfolding sample_groups_listed sample_groups_query(1)
    by (auto simp: group_of_def worst_rank_def severityRank_def severity_of_def severityForRank_def sample_alert_def sample_defs)
qed

end
