(* ===== verification/Preferences.thy ===== *)
theory Preferences
  imports Accounts Http
begin

text \<open>
  Console preferences: the value with its defaults and validation
  (\<open>internal/preferences/preferences.go\<close>), the store (\<open>internal/postgres/preferences.go\<close>)
  and the two handlers (\<open>internal/httpapi/server.go\<close>).

  A stored row is the value its JSON decodes to, or does not decode. A pointer is an option, and a
  slice that may be \<open>null\<close> is an option of a list; both survive being written and read back.
\<close>

section \<open>Values\<close>

record Column =
  column_ID :: string
  column_Width :: int

record PrefGrouping =
  grouping_Enabled :: bool
  grouping_Keys :: "string list"

record NotificationMatcher =
  nm_Name :: string
  nm_Op :: string
  nm_Value :: string

record Notifications =
  notify_Enabled :: bool
  notify_Matchers :: "NotificationMatcher list option"
  notify_FollowView :: "bool option"

record ViewPreferences =
  vp_Enabled :: bool
  vp_CriticalBypass :: bool

record Preferences =
  pref_Columns :: "Column list"
  pref_Density :: string
  pref_Grouping :: PrefGrouping
  pref_Theme :: string
  pref_SilencedVisibility :: string
  pref_ClosedVisibility :: string
  pref_Notifications :: Notifications
  pref_View :: "ViewPreferences option"

definition FixedColumns :: "string list" where
  "FixedColumns = [''severity'', ''state'', ''alert'', ''summary'', ''team'', ''instance'', ''lastSeen'', ''source'',
     ''age'', ''assignee'', ''notes'']"

definition LabelColumnPrefix :: string where
  "LabelColumnPrefix = ''label:''"

definition Densities :: "string list" where
  "Densities = [''auto'', ''compact'', ''normal'', ''comfortable'']"

definition Themes :: "string list" where
  "Themes = [''system'', ''dark'', ''light'', ''nord'', ''gruvbox'', ''solarized-light'', ''high-contrast'',
     ''colorblind-safe'']"

definition NotificationFields :: "string list" where
  "NotificationFields = [''severity'', ''alertname'', ''source'', ''team'']"

definition SilencedVisibilities :: "string list" where
  "SilencedVisibilities = [''show'', ''hide'', ''only'']"

definition ClosedVisibilities :: "string list" where
  "ClosedVisibilities = [''open'', ''closed'']"

definition maxNotificationMatchers :: nat where
  "maxNotificationMatchers = 8"

definition maxColumns :: nat where
  "maxColumns = 24"

definition minColumnWidth :: int where
  "minColumnWidth = 40"

definition maxColumnWidth :: int where
  "maxColumnWidth = 1200"

definition EffectiveFollowView :: "Notifications \<Rightarrow> bool" where
  "EffectiveFollowView v = (case notify_FollowView v of None \<Rightarrow> True | Some b \<Rightarrow> b)"

definition DefaultView :: ViewPreferences where
  "DefaultView = \<lparr>vp_Enabled = True, vp_CriticalBypass = True\<rparr>"

definition EffectiveView :: "Preferences \<Rightarrow> ViewPreferences" where
  "EffectiveView v = (case pref_View v of None \<Rightarrow> DefaultView | Some w \<Rightarrow> w)"

definition DefaultPreferences :: Preferences where
  "DefaultPreferences =
     \<lparr>pref_Columns = map (\<lambda>i. \<lparr>column_ID = i, column_Width = 0\<rparr>) FixedColumns, pref_Density = ''auto'',
      pref_Grouping = \<lparr>grouping_Enabled = True, grouping_Keys = [''alertname'', ''source'']\<rparr>, pref_Theme = ''system'',
      pref_SilencedVisibility = ''show'', pref_ClosedVisibility = ''open'',
      pref_Notifications = \<lparr>notify_Enabled = False,
        notify_Matchers = Some [\<lparr>nm_Name = ''severity'', nm_Op = ''='', nm_Value = ''critical''\<rparr>],
        notify_FollowView = Some True\<rparr>,
      pref_View = Some \<lparr>vp_Enabled = True, vp_CriticalBypass = True\<rparr>\<rparr>"

section \<open>Validation\<close>

datatype pref_error =
  NoColumns | TooManyColumns | BadLabelColumn string | UnknownColumn string | DuplicateColumn string | ColumnWidth string
| BadDensity | BadTheme | BadSilencedVisibility | BadClosedVisibility
| TooManyMatchers | BadField string | BadOperator string | NoMatcherValue string | DuplicateMatcher string
| BadGrouping group_by_error

definition validateColumnID :: "string \<Rightarrow> pref_error option" where
  "validateColumnID i =
     (if starts_with LabelColumnPrefix i
      then if label_name_pattern (drop (length LabelColumnPrefix) i) then None else Some (BadLabelColumn i)
      else if i \<in> set FixedColumns then None else Some (UnknownColumn i))"

fun validate_columns :: "Column list \<Rightarrow> string list \<Rightarrow> pref_error option" where
  "validate_columns [] seen = None"
| "validate_columns (c # cs) seen =
     (case validateColumnID (column_ID c) of
        Some e \<Rightarrow> Some e
      | None \<Rightarrow>
          if column_ID c \<in> set seen then Some (DuplicateColumn (column_ID c))
          else if column_Width c \<noteq> 0 \<and> (column_Width c < minColumnWidth \<or> column_Width c > maxColumnWidth)
          then Some (ColumnWidth (column_ID c))
          else validate_columns cs (column_ID c # seen))"

fun validate_matchers :: "NotificationMatcher list \<Rightarrow> string list \<Rightarrow> pref_error option" where
  "validate_matchers [] seen = None"
| "validate_matchers (m # ms) seen =
     (if nm_Name m \<notin> set NotificationFields then Some (BadField (nm_Name m))
      else if nm_Op m \<noteq> ''='' \<and> nm_Op m \<noteq> ''!='' then Some (BadOperator (nm_Op m))
      else if nm_Value m = '''' then Some (NoMatcherValue (nm_Name m))
      else if nm_Name m \<in> set seen then Some (DuplicateMatcher (nm_Name m))
      else validate_matchers ms (nm_Name m # seen))"

definition matchers_of :: "Notifications \<Rightarrow> NotificationMatcher list" where
  "matchers_of n = (case notify_Matchers n of None \<Rightarrow> [] | Some ms \<Rightarrow> ms)"

definition validateNotifications :: "Notifications \<Rightarrow> pref_error option" where
  "validateNotifications n =
     (if length (matchers_of n) > maxNotificationMatchers then Some TooManyMatchers
      else validate_matchers (matchers_of n) [])"

definition ValidatePreferences :: "Preferences \<Rightarrow> pref_error option" where
  "ValidatePreferences v =
     (if pref_Columns v = [] then Some NoColumns
      else if length (pref_Columns v) > maxColumns then Some TooManyColumns
      else case validate_columns (pref_Columns v) [] of
        Some e \<Rightarrow> Some e
      | None \<Rightarrow>
          if pref_Density v \<notin> set Densities then Some BadDensity
          else if pref_Theme v \<notin> set Themes then Some BadTheme
          else if pref_SilencedVisibility v \<notin> set SilencedVisibilities then Some BadSilencedVisibility
          else if pref_ClosedVisibility v \<noteq> '''' \<and> pref_ClosedVisibility v \<notin> set ClosedVisibilities
          then Some BadClosedVisibility
          else case validateNotifications (pref_Notifications v) of
            Some e \<Rightarrow> Some e
          | None \<Rightarrow>
              if grouping_Enabled (pref_Grouping v)
              then (case ValidateGroupBy (grouping_Keys (pref_Grouping v)) of Inl e \<Rightarrow> Some (BadGrouping e) | Inr u \<Rightarrow> None)
              else None)"

section \<open>Store\<close>

datatype stored = Undecodable | Stored Preferences

type_synonym preferences_table = "int \<Rightarrow> stored option"

datatype store_error = ErrNoSubject | PrefInvalid pref_error | PrefDatabase

text \<open>The fall-backs for what an older row leaves out.\<close>

definition complete_row :: "Preferences \<Rightarrow> Preferences" where
  "complete_row v0 =
     (let d = DefaultPreferences;
          v1 = (if pref_Columns v0 = [] then v0\<lparr>pref_Columns := pref_Columns d\<rparr> else v0);
          v2 = (if pref_Density v1 = '''' then v1\<lparr>pref_Density := pref_Density d\<rparr> else v1);
          v3 = (if pref_Theme v2 = '''' then v2\<lparr>pref_Theme := pref_Theme d\<rparr> else v2);
          v4 = (if pref_SilencedVisibility v3 = '''' then v3\<lparr>pref_SilencedVisibility := pref_SilencedVisibility d\<rparr> else v3);
          v5 = (if notify_Matchers (pref_Notifications v4) = None
                then v4\<lparr>pref_Notifications := pref_Notifications d\<rparr> else v4);
          v6 = (if notify_FollowView (pref_Notifications v5) = None
                then v5\<lparr>pref_Notifications := (pref_Notifications v5)\<lparr>notify_FollowView := Some True\<rparr>\<rparr> else v5);
          v7 = (if pref_ClosedVisibility v6 = '''' then v6\<lparr>pref_ClosedVisibility := pref_ClosedVisibility d\<rparr> else v6)
      in if pref_View v7 = None then v7\<lparr>pref_View := Some DefaultView\<rparr> else v7)"

definition ReadPreferences :: "Principal \<Rightarrow> preferences_table \<Rightarrow> store_error + Preferences" where
  "ReadPreferences caller t =
     (if Anonymous caller \<or> UserID caller = 0 then Inl ErrNoSubject
      else case t (UserID caller) of
        None \<Rightarrow> Inr DefaultPreferences
      | Some Undecodable \<Rightarrow> Inl PrefDatabase
      | Some (Stored v) \<Rightarrow> Inr (complete_row v))"

text \<open>A JSON document holds no zero byte.\<close>

definition preferences_text_ok :: "Preferences \<Rightarrow> bool" where
  "preferences_text_ok v \<longleftrightarrow>
     list_all (\<lambda>c. text_ok (column_ID c)) (pref_Columns v) \<and>
     list_all text_ok (grouping_Keys (pref_Grouping v)) \<and>
     list_all (\<lambda>m. text_ok (nm_Name m) \<and> text_ok (nm_Op m) \<and> text_ok (nm_Value m)) (matchers_of (pref_Notifications v)) \<and>
     list_all text_ok [pref_Density v, pref_Theme v, pref_SilencedVisibility v, pref_ClosedVisibility v]"

definition merge_stored :: "Preferences \<Rightarrow> Preferences \<Rightarrow> Preferences" where
  "merge_stored current v0 =
     (let v1 = (if pref_View v0 = None then v0\<lparr>pref_View := pref_View current\<rparr> else v0);
          v2 = (if pref_ClosedVisibility v1 = '''' then v1\<lparr>pref_ClosedVisibility := pref_ClosedVisibility current\<rparr> else v1)
      in if notify_FollowView (pref_Notifications v2) = None
         then v2\<lparr>pref_Notifications := (pref_Notifications v2)\<lparr>notify_FollowView :=
                notify_FollowView (pref_Notifications current)\<rparr>\<rparr> else v2)"

definition WritePreferences ::
  "accounts \<Rightarrow> Principal \<Rightarrow> Preferences \<Rightarrow> preferences_table \<Rightarrow> store_error + preferences_table" where
  "WritePreferences a caller v t =
     (if Anonymous caller \<or> UserID caller = 0 then Inl ErrNoSubject
      else case ValidatePreferences v of
        Some e \<Rightarrow> Inl (PrefInvalid e)
      | None \<Rightarrow>
          bind_res
            (if pref_View v = None \<or> pref_ClosedVisibility v = '''' \<or> notify_FollowView (pref_Notifications v) = None
             then bind_res (ReadPreferences caller t) (\<lambda>current. Inr (merge_stored current v)) else Inr v)
            (\<lambda>w. if preferences_text_ok w \<and> UserID caller \<in> user_id ` set (users a)
                 then Inr (t(UserID caller \<mapsto> Stored w)) else Inl PrefDatabase))"

section \<open>Handlers\<close>

definition no_user_message :: string where
  "no_user_message = ''preferences are unavailable without a signed-in user''"

definition getPreferences :: "request \<Rightarrow> preferences_table \<Rightarrow> Preferences reply" where
  "getPreferences r t =
     (case req_principal r of
        None \<Rightarrow> fail (server_error ''principal is unavailable'')
      | Some caller \<Rightarrow>
          (case ReadPreferences caller t of
             Inl ErrNoSubject \<Rightarrow> Fail 404 (Message no_user_message)
           | Inl e \<Rightarrow> fail (server_error ''failed to read preferences'')
           | Inr v \<Rightarrow> Reply 200 v))"

text \<open>The body is decoded once: what follows the value is not looked at. \<open>message\<close> is the text of
  a validation error.\<close>

definition putPreferences ::
  "(pref_error \<Rightarrow> string) \<Rightarrow> accounts \<Rightarrow> Preferences body \<Rightarrow> request \<Rightarrow> preferences_table \<Rightarrow>
   preferences_table \<times> Preferences reply" where
  "putPreferences message a body r t =
     (case req_principal r of
        None \<Rightarrow> (t, fail (server_error ''principal is unavailable''))
      | Some caller \<Rightarrow>
          (case body of
             BodyInvalid \<Rightarrow> (t, Fail 400 (Message ''preferences payload is invalid''))
           | BodyEmpty \<Rightarrow> (t, Fail 400 (Message ''preferences payload is invalid''))
           | BodyValue v rest \<Rightarrow>
               (case ValidatePreferences v of
                  Some e \<Rightarrow> (t, Fail 400 (Message (message e)))
                | None \<Rightarrow>
                    (case WritePreferences a caller v t of
                       Inl ErrNoSubject \<Rightarrow> (t, Fail 404 (Message no_user_message))
                     | Inl e \<Rightarrow> (t, fail (server_error ''failed to save preferences''))
                     | Inr t' \<Rightarrow> (t', Reply 200 v)))))"

section \<open>Specification\<close>

text \<open>Rows the console can render, and a value with every choice made.\<close>

definition table_ok :: "preferences_table \<Rightarrow> bool" where
  "table_ok t \<longleftrightarrow> (\<forall>u v. t u = Some (Stored v) \<longrightarrow> ValidatePreferences v = None)"

definition complete :: "Preferences \<Rightarrow> bool" where
  "complete v \<longleftrightarrow> ValidatePreferences v = None \<and> pref_View v \<noteq> None \<and> pref_ClosedVisibility v \<in> set ClosedVisibilities \<and>
     notify_Matchers (pref_Notifications v) \<noteq> None \<and> notify_FollowView (pref_Notifications v) \<noteq> None"

text \<open>What a write of \<open>v\<close> over the choices \<open>current\<close> is read back as.\<close>

definition written_over :: "Preferences \<Rightarrow> Preferences \<Rightarrow> Preferences" where
  "written_over current v =
     v\<lparr>pref_View := Some (case pref_View v of None \<Rightarrow> EffectiveView current | Some w \<Rightarrow> w),
       pref_ClosedVisibility := (if pref_ClosedVisibility v = [] then pref_ClosedVisibility current else pref_ClosedVisibility v),
       pref_Notifications :=
         (if notify_Matchers (pref_Notifications v) = None then pref_Notifications DefaultPreferences
          else (pref_Notifications v)\<lparr>notify_FollowView :=
            Some (case notify_FollowView (pref_Notifications v) of
                    None \<Rightarrow> EffectiveFollowView (pref_Notifications current) | Some b \<Rightarrow> b)\<rparr>)\<rparr>"

definition sample_preferences :: Preferences where
  "sample_preferences = DefaultPreferences\<lparr>pref_Theme := ''dark'', pref_View := None\<rparr>"

section \<open>Lemmas\<close>

lemma ValidatePreferences_None:
  "ValidatePreferences v = None \<longleftrightarrow>
    pref_Columns v \<noteq> [] \<and> length (pref_Columns v) \<le> maxColumns \<and> validate_columns (pref_Columns v) [] = None \<and>
    pref_Density v \<in> set Densities \<and> pref_Theme v \<in> set Themes \<and>
    pref_SilencedVisibility v \<in> set SilencedVisibilities \<and>
    (pref_ClosedVisibility v = [] \<or> pref_ClosedVisibility v \<in> set ClosedVisibilities) \<and>
    validateNotifications (pref_Notifications v) = None \<and>
    (grouping_Enabled (pref_Grouping v) \<longrightarrow> ValidateGroupBy (grouping_Keys (pref_Grouping v)) = Inr ())"
  by (auto simp: ValidatePreferences_def split: option.splits sum.splits if_splits)

lemma validateNotifications_follow [simp]:
  "validateNotifications (n\<lparr>notify_FollowView := b\<rparr>) = validateNotifications n"
  by (simp add: validateNotifications_def matchers_of_def)

lemma default_complete: "complete DefaultPreferences"
  by (simp add: complete_def ValidatePreferences_None DefaultPreferences_def FixedColumns_def maxColumns_def
      validateColumnID_def LabelColumnPrefix_def starts_with_def Densities_def Themes_def SilencedVisibilities_def
      ClosedVisibilities_def validateNotifications_def matchers_of_def maxNotificationMatchers_def NotificationFields_def
      ValidateGroupBy_def MaxGroupKeys_def IsGroupKey_def is_lower_def is_upper_def less_eq_char_def)

lemma default_valid: "validateNotifications (pref_Notifications DefaultPreferences) = None"
  "pref_ClosedVisibility DefaultPreferences = ''open''" "notify_Matchers (pref_Notifications DefaultPreferences) \<noteq> None"
  "notify_FollowView (pref_Notifications DefaultPreferences) = Some True"
  using default_complete by (simp_all add: complete_def ValidatePreferences_None DefaultPreferences_def)

lemma valid_not_empty:
  assumes "ValidatePreferences v = None"
  shows "pref_Columns v \<noteq> []" "pref_Density v \<noteq> []" "pref_Theme v \<noteq> []" "pref_SilencedVisibility v \<noteq> []"
proof -
  have "[] \<notin> set Densities" "[] \<notin> set Themes" "[] \<notin> set SilencedVisibilities"
    by (simp_all add: Densities_def Themes_def SilencedVisibilities_def)
  moreover have "pref_Columns v \<noteq> []" "pref_Density v \<in> set Densities" "pref_Theme v \<in> set Themes"
    "pref_SilencedVisibility v \<in> set SilencedVisibilities"
    using assms by (simp_all add: ValidatePreferences_None)
  ultimately show "pref_Columns v \<noteq> []" "pref_Density v \<noteq> []" "pref_Theme v \<noteq> []" "pref_SilencedVisibility v \<noteq> []"
    by auto
qed

lemma complete_row_valid:
  assumes "ValidatePreferences v = None"
  shows "complete_row v =
    v\<lparr>pref_View := Some (EffectiveView v),
      pref_ClosedVisibility := (if pref_ClosedVisibility v = [] then ''open'' else pref_ClosedVisibility v),
      pref_Notifications :=
        (if notify_Matchers (pref_Notifications v) = None then pref_Notifications DefaultPreferences
         else (pref_Notifications v)\<lparr>notify_FollowView := Some (EffectiveFollowView (pref_Notifications v))\<rparr>)\<rparr>"
proof -
  note valid_not_empty [OF assms]
  then show ?thesis
    by (cases v; cases "pref_Notifications v"; cases "notify_Matchers (pref_Notifications v)";
        cases "notify_FollowView (pref_Notifications v)"; cases "pref_View v"; cases "pref_ClosedVisibility v")
      (simp_all add: complete_row_def default_valid EffectiveView_def EffectiveFollowView_def)
qed

lemma complete_row_complete:
  assumes "ValidatePreferences v = None"
  shows "complete (complete_row v)"
  using assms default_valid unfolding complete_row_valid [OF assms]
  by (auto simp: complete_def ValidatePreferences_None ClosedVisibilities_def)

lemma ReadPreferences_complete:
  assumes "table_ok t" "ReadPreferences caller t = Inr v"
  shows "complete v"
  using assms default_complete
  by (auto simp: ReadPreferences_def table_ok_def intro: complete_row_complete split: if_splits option.splits stored.splits)

lemma merge_stored_valid:
  assumes "ValidatePreferences v = None" "complete current"
  shows "ValidatePreferences (merge_stored current v) = None" "complete_row (merge_stored current v) = written_over current v"
proof -
  obtain w f where c: "pref_View current = Some w" "notify_FollowView (pref_Notifications current) = Some f"
    "pref_ClosedVisibility current \<in> set ClosedVisibilities"
    using assms(2) by (auto simp: complete_def)
  then have "pref_ClosedVisibility current \<noteq> []" by (auto simp: ClosedVisibilities_def)
  show valid: "ValidatePreferences (merge_stored current v) = None"
    using assms(1) c by (auto simp: ValidatePreferences_None merge_stored_def Let_def)
  show "complete_row (merge_stored current v) = written_over current v"
    unfolding complete_row_valid [OF valid] written_over_def
    using c \<open>pref_ClosedVisibility current \<noteq> []\<close>
    by (cases v; cases "pref_Notifications v"; cases "notify_FollowView (pref_Notifications v)"; cases "pref_View v";
        cases "pref_ClosedVisibility v")
      (simp_all add: merge_stored_def EffectiveView_def EffectiveFollowView_def)
qed

lemma written_complete:
  assumes "ValidatePreferences v = None" "pref_View v \<noteq> None" "pref_ClosedVisibility v \<noteq> []"
    "notify_FollowView (pref_Notifications v) \<noteq> None"
  shows "complete_row v = written_over current v"
  unfolding complete_row_valid [OF assms(1)] written_over_def using assms(2-4)
  by (auto simp: EffectiveView_def EffectiveFollowView_def)

text \<open>A successful write.\<close>

lemma WritePreferences_Inr:
  assumes "WritePreferences a caller v t = Inr t'" "table_ok t"
  obtains current w where "\<not> Anonymous caller" "UserID caller \<noteq> 0" "ValidatePreferences v = None"
    "ReadPreferences caller t = Inr current \<or>
      pref_View v \<noteq> None \<and> pref_ClosedVisibility v \<noteq> [] \<and> notify_FollowView (pref_Notifications v) \<noteq> None"
    "t' = t(UserID caller \<mapsto> Stored w)" "ValidatePreferences w = None" "complete_row w = written_over current v"
proof -
  have caller: "\<not> Anonymous caller" "UserID caller \<noteq> 0"
    using assms(1) by (auto simp: WritePreferences_def split: if_splits)
  have valid: "ValidatePreferences v = None"
    using assms(1) caller by (cases "ValidatePreferences v") (simp_all add: WritePreferences_def)
  show thesis
  proof (cases "pref_View v = None \<or> pref_ClosedVisibility v = [] \<or> notify_FollowView (pref_Notifications v) = None")
    case True
    then obtain current where c: "ReadPreferences caller t = Inr current"
      "t' = t(UserID caller \<mapsto> Stored (merge_stored current v))"
      using assms(1) caller valid by (auto simp: WritePreferences_def bind_res_Inr simp del: not_None_eq split: if_splits)
    have "complete current" by (rule ReadPreferences_complete [OF assms(2) c(1)])
    with merge_stored_valid [OF valid] have "ValidatePreferences (merge_stored current v) = None"
      "complete_row (merge_stored current v) = written_over current v" by blast+
    with caller valid c show thesis by (intro that [of current "merge_stored current v"]) simp_all
  next
    case False
    then have "t' = t(UserID caller \<mapsto> Stored v)"
      using assms(1) caller valid by (simp add: WritePreferences_def del: not_None_eq split: if_splits)
    moreover have "complete_row v = written_over DefaultPreferences v" using False by (intro written_complete [OF valid]) simp_all
    ultimately show thesis using caller valid False by (intro that [of DefaultPreferences v]) simp_all
  qed
qed

lemma sample_write:
  "\<exists>t'. WritePreferences sample_accounts sample_operator sample_preferences (\<lambda>u. None) = Inr t'"
  "ReadPreferences sample_operator (\<lambda>u. None) = Inr DefaultPreferences" "table_ok (\<lambda>u. None)"
proof -
  have "ValidatePreferences sample_preferences = None"
    using default_complete by (simp add: complete_def ValidatePreferences_None sample_preferences_def Themes_def)
  moreover show "ReadPreferences sample_operator (\<lambda>u. None) = Inr DefaultPreferences" "table_ok (\<lambda>u. None)"
    by (simp_all add: ReadPreferences_def sample_operator_def table_ok_def)
  moreover have "preferences_text_ok (merge_stored DefaultPreferences sample_preferences)"
    by (simp add: preferences_text_ok_def merge_stored_def sample_preferences_def DefaultPreferences_def FixedColumns_def
        matchers_of_def)
  moreover have "\<not> Anonymous sample_operator" "UserID sample_operator = 7" "7 \<in> user_id ` set (users sample_accounts)"
    by (simp_all add: sample_operator_def sample_accounts_def)
  ultimately show "\<exists>t'. WritePreferences sample_accounts sample_operator sample_preferences (\<lambda>u. None) = Inr t'"
    by (simp add: WritePreferences_def sample_preferences_def del: not_None_eq)
qed

section \<open>Properties\<close>

text \<open>Preferences are always renderable. Whatever is stored was accepted by the validation, and
  reading the preferences of a signed-in user whose row decodes returns a valid value with every
  choice made.\<close>

theorem preferences_renderable:
  assumes "table_ok t"
  shows "(WritePreferences a caller v t = Inr t' \<longrightarrow> table_ok t') \<and>
    (\<not> Anonymous caller \<and> UserID caller \<noteq> 0 \<and> t (UserID caller) \<noteq> Some Undecodable \<longrightarrow>
      (\<exists>w. ReadPreferences caller t = Inr w \<and> complete w))"
proof (intro conjI impI)
  show "table_ok t'" if w: "WritePreferences a caller v t = Inr t'"
    using w assms by (rule WritePreferences_Inr) (use assms in \<open>auto simp: table_ok_def\<close>)
  show "\<exists>w. ReadPreferences caller t = Inr w \<and> complete w"
    if "\<not> Anonymous caller \<and> UserID caller \<noteq> 0 \<and> t (UserID caller) \<noteq> Some Undecodable"
  proof -
    have "\<exists>w. ReadPreferences caller t = Inr w"
      using that by (auto simp: ReadPreferences_def split: option.splits stored.splits)
    with ReadPreferences_complete [OF assms] show ?thesis by blast
  qed
qed

theorem preferences_renderable_witness:
  "\<exists>t' w. WritePreferences sample_accounts sample_operator sample_preferences (\<lambda>u. None) = Inr t' \<and> table_ok t' \<and>
    ReadPreferences sample_operator (\<lambda>u. None) = Inr w \<and> complete w"
proof -
  obtain t' where t': "WritePreferences sample_accounts sample_operator sample_preferences (\<lambda>u. None) = Inr t'"
    using sample_write(1) by blast
  have "\<not> Anonymous sample_operator" "UserID sample_operator \<noteq> 0" by (simp_all add: sample_operator_def)
  with preferences_renderable [OF sample_write(3), of sample_accounts sample_operator sample_preferences t'] t'
  show ?thesis by auto
qed

text \<open>C32: preferences round trip. What a client writes in full is read back as it was written; of a write that leaves out the view, the
  closed filter or the following of the view, these are kept as they were read before. Notifications without a list of matchers are not
  read back: the default ones are read in their place, whatever the client chose of them. No other row changes.\<close>

theorem preferences_roundtrip:
  assumes "WritePreferences a caller v t = Inr t'" "table_ok t" "ReadPreferences caller t = Inr current"
  shows "ReadPreferences caller t' = Inr (written_over current v) \<and> (\<forall>u. u \<noteq> UserID caller \<longrightarrow> t' u = t u) \<and>
    (pref_View v \<noteq> None \<and> pref_ClosedVisibility v \<noteq> [] \<and> notify_FollowView (pref_Notifications v) \<noteq> None \<and>
       notify_Matchers (pref_Notifications v) \<noteq> None \<longrightarrow> ReadPreferences caller t' = Inr v) \<and>
    (notify_Matchers (pref_Notifications v) = None \<longrightarrow>
       map_sum id pref_Notifications (ReadPreferences caller t') = Inr (pref_Notifications DefaultPreferences))"
  using assms(1,2)
proof (rule WritePreferences_Inr)
  fix c w
  assume w: "\<not> Anonymous caller" "UserID caller \<noteq> 0" "ValidatePreferences v = None"
    "ReadPreferences caller t = Inr c \<or>
      pref_View v \<noteq> None \<and> pref_ClosedVisibility v \<noteq> [] \<and> notify_FollowView (pref_Notifications v) \<noteq> None"
    "t' = t(UserID caller \<mapsto> Stored w)" "complete_row w = written_over c v"
  have "written_over c v = written_over current v"
    using w(4) assms(3) by (auto simp: written_over_def split: option.splits)
  moreover have "written_over current v = v"
    if "pref_View v \<noteq> None" "pref_ClosedVisibility v \<noteq> []" "notify_FollowView (pref_Notifications v) \<noteq> None"
      "notify_Matchers (pref_Notifications v) \<noteq> None"
    using that by (cases v; cases "pref_Notifications v") (auto simp: written_over_def)
  moreover have "pref_Notifications (written_over current v) = pref_Notifications DefaultPreferences"
    if "notify_Matchers (pref_Notifications v) = None"
    using that by (simp add: written_over_def)
  ultimately show ?thesis using w by (simp add: ReadPreferences_def)
qed

theorem preferences_roundtrip_witness:
  "\<exists>t' w. WritePreferences sample_accounts sample_operator sample_preferences (\<lambda>u. None) = Inr t' \<and>
    ReadPreferences sample_operator t' = Inr w \<and> pref_Theme w = ''dark'' \<and> pref_View w = Some DefaultView"
proof -
  obtain t' where t': "WritePreferences sample_accounts sample_operator sample_preferences (\<lambda>u. None) = Inr t'"
    using sample_write(1) by blast
  have "pref_Theme (written_over DefaultPreferences sample_preferences) = ''dark''"
    "pref_View (written_over DefaultPreferences sample_preferences) = Some DefaultView"
    by (simp_all add: written_over_def sample_preferences_def EffectiveView_def DefaultPreferences_def DefaultView_def)
  with preferences_roundtrip [OF t' sample_write(3,2)] t' show ?thesis by blast
qed

end
