(* ===== verification/Ingest.thy ===== *)
theory Ingest
  imports Samples
begin

text \<open>
  \<open>Store.Ingest\<close> and \<open>alertMateriallyChanged\<close> (\<open>internal/postgres/store.go\<close>):
  one transaction that inserts or updates a row per delivered alert, records the stream and
  history events, reopens a closed alert that changed, and stamps the source's delivery time.
\<close>

section \<open>Definitions\<close>

definition alertMateriallyChanged :: "SourceStatus \<Rightarrow> labels \<Rightarrow> labels \<Rightarrow> IncomingAlert \<Rightarrow> bool" where
  "alertMateriallyChanged previousStatus previousLabels previousAnnotations incoming \<longleftrightarrow>
     previousStatus \<noteq> in_Status incoming \<or> previousLabels \<noteq> in_Labels incoming \<or>
     previousAnnotations \<noteq> in_Annotations incoming"

definition incoming_texts_ok :: "IncomingAlert \<Rightarrow> bool" where
  "incoming_texts_ok alert \<longleftrightarrow>
     text_ok (in_SourceSlug alert) \<and> text_ok (in_Fingerprint alert) \<and> jsonb_ok (in_Labels alert) \<and>
     jsonb_ok (in_Annotations alert) \<and> text_ok (in_GeneratorURL alert) \<and> text_ok (in_ExternalURL alert)"

definition raw_data_of :: "IncomingAlert \<Rightarrow> string" where
  "raw_data_of alert = (if in_RawData alert = '''' then ''{}'' else in_RawData alert)"

text \<open>The row an \<open>INSERT\<close> writes, the other columns at their defaults.\<close>

definition fresh_row :: "int \<Rightarrow> IncomingAlert \<Rightarrow> alert_row" where
  "fresh_row i alert =
     \<lparr>ID = i, SourceSlug = in_SourceSlug alert, Fingerprint = in_Fingerprint alert,
      Status = in_Status alert, Labels = in_Labels alert, Annotations = in_Annotations alert,
      StartsAt = in_StartsAt alert, EndsAt = nullableTime (in_EndsAt alert),
      GeneratorURL = in_GeneratorURL alert, ExternalURL = in_ExternalURL alert,
      FirstSeen = in_ReceivedAt alert, LastSeen = in_ReceivedAt alert, RepeatCount = 0,
      Occurrence = 1, Acknowledged = False, AcknowledgedAt = None, AcknowledgedBy = '''',
      Suppressed = False, SilencedBy = [], AssignedTo = '''', AssignedAt = None, AssignedBy = '''',
      Closed = False, ClosedAt = None, ClosedBy = '''', ReconciledAt = None,
      RawData = raw_data_of alert\<rparr>"

definition insert_alert :: "IncomingAlert \<Rightarrow> db \<Rightarrow> db_error + int \<times> db" where
  "insert_alert alert s =
     (let row = fresh_row (next_alert s) alert in
      if in_SourceSlug alert \<in> row_slug ` set (alert_sources s) \<and>
         (in_SourceSlug alert, in_Fingerprint alert) \<notin> (\<lambda>r. (SourceSlug r, Fingerprint r)) ` set (alert_rows s) \<and>
         alert_checks row
      then Inr (next_alert s, s\<lparr>alert_rows := alert_rows s @ [row], next_alert := next_alert s + 1\<rparr>)
      else Inl ErrDatabase)"

text \<open>A firing delivery for a resolved alert is a new occurrence.\<close>

definition refires :: "SourceStatus \<Rightarrow> SourceStatus \<Rightarrow> bool" where
  "refires previous incoming \<longleftrightarrow> previous = StatusResolved \<and> incoming = StatusFiring"

definition updated_row :: "IncomingAlert \<Rightarrow> int \<Rightarrow> alert_row \<Rightarrow> alert_row" where
  "updated_row alert occurrence r =
     (let again = refires (Status r) (in_Status alert) in
      r\<lparr>Status := in_Status alert, Labels := in_Labels alert, Annotations := in_Annotations alert,
        StartsAt := in_StartsAt alert, EndsAt := nullableTime (in_EndsAt alert),
        GeneratorURL := in_GeneratorURL alert, ExternalURL := in_ExternalURL alert,
        LastSeen := in_ReceivedAt alert, RepeatCount := RepeatCount r + 1,
        Occurrence := occurrence, RawData := raw_data_of alert,
        Acknowledged := (if again then False else Acknowledged r),
        AcknowledgedAt := (if again then None else AcknowledgedAt r),
        AcknowledgedBy := (if again then '''' else AcknowledgedBy r),
        AssignedTo := (if again then '''' else AssignedTo r),
        AssignedAt := (if again then None else AssignedAt r),
        AssignedBy := (if again then '''' else AssignedBy r)\<rparr>)"

definition reopen_row :: "alert_row \<Rightarrow> alert_row" where
  "reopen_row r = r\<lparr>Closed := False, ClosedAt := None, ClosedBy := ''''\<rparr>"

definition history_type :: "SourceStatus \<Rightarrow> SourceStatus \<Rightarrow> string" where
  "history_type previous incoming =
     (if refires previous incoming then ''alert.reopened''
      else if incoming = StatusResolved \<and> previous \<noteq> StatusResolved then ''alert.resolved''
      else ''alert.updated'')"

definition stream_type :: "string \<Rightarrow> string" where
  "stream_type historyType =
     (if historyType = ''alert.resolved'' then ''alert.resolved'' else ''alert.updated'')"

definition next_occurrence :: "IncomingAlert \<Rightarrow> alert_row \<Rightarrow> int" where
  "next_occurrence alert r =
     (if refires (Status r) (in_Status alert) then Occurrence r + 1 else Occurrence r)"

definition changes :: "IncomingAlert \<Rightarrow> alert_row \<Rightarrow> bool" where
  "changes alert r = alertMateriallyChanged (Status r) (Labels r) (Annotations r) alert"

definition at_key :: "IncomingAlert \<Rightarrow> alert_row \<Rightarrow> bool" where
  "at_key alert r \<longleftrightarrow> SourceSlug r = in_SourceSlug alert \<and> Fingerprint r = in_Fingerprint alert"

text \<open>The branch for a delivery of an alert already stored as \<open>previous\<close>.\<close>

definition ingest_update :: "IncomingAlert \<Rightarrow> alert_row \<Rightarrow> db \<Rightarrow> db_error + db" where
  "ingest_update alert previous s =
     bind_res (update_alerts (at_key alert) (updated_row alert (next_occurrence alert previous)) s)
       (\<lambda>s1. if changes alert previous then
          bind_res (if in_Status alert = StatusFiring
                    then update_alerts (\<lambda>r. ID r = ID previous \<and> Closed r) reopen_row s1 else Inr s1)
            (\<lambda>s2. bind_res
               (insertStreamEvent (stream_type (history_type (Status previous) (in_Status alert)))
                  (ID previous) alert (Some (Labels previous)) s2)
               (insertHistoryEvent (ID previous) (next_occurrence alert previous)
                  (history_type (Status previous) (in_Status alert)) (in_Status alert) (in_ReceivedAt alert)))
        else Inr s1)"

definition ingest_insert :: "IncomingAlert \<Rightarrow> db \<Rightarrow> db_error + db" where
  "ingest_insert alert s =
     bind_res (insert_alert alert s)
       (\<lambda>(i, s1). bind_res (insertStreamEvent ''alert.created'' i alert None s1)
          (insertHistoryEvent i 1 ''alert.created'' (in_Status alert) (in_ReceivedAt alert)))"

definition ingest_one :: "IncomingAlert \<Rightarrow> db \<Rightarrow> db_error + db" where
  "ingest_one alert s =
     (if \<not> incoming_texts_ok alert then Inl ErrDatabase
      else (case filter (at_key alert) (alert_rows s) of
              [] \<Rightarrow> ingest_insert alert s
            | previous # rest \<Rightarrow> ingest_update alert previous s))"

definition stamp_delivery :: "IncomingAlert \<Rightarrow> db \<Rightarrow> db" where
  "stamp_delivery alert s =
     s\<lparr>alert_sources := upd_where (\<lambda>r. row_slug r = in_SourceSlug alert)
         (\<lambda>r. r\<lparr>row_last_delivery_at := Some (in_ReceivedAt alert)\<rparr>) (alert_sources s)\<rparr>"

definition Ingest :: "IncomingAlert list \<Rightarrow> db \<Rightarrow> db_error + db" where
  "Ingest alerts s =
     bind_res (fold_res ingest_one alerts s)
       (\<lambda>s1. case alerts of [] \<Rightarrow> Inr s1 | alert # rest \<Rightarrow> Inr (stamp_delivery alert s1))"

section \<open>Specification\<close>

definition incoming_key :: "IncomingAlert \<Rightarrow> string \<times> string" where
  "incoming_key alert = (in_SourceSlug alert, in_Fingerprint alert)"

text \<open>
  The lifecycle of an alert, apart from how the table stores it: what its source last reported, how often it was seen, the
  occurrence that is current, and what operators said about that occurrence. An acknowledgement, an assignment and a close each
  are there with who did it and when, or are not there.
\<close>

record alert_life =
  life_id :: int
  life_status :: SourceStatus
  life_labels :: labels
  life_annotations :: labels
  life_window :: "instant \<times> instant option"
  life_urls :: "string \<times> string"
  life_raw :: string
  life_seen :: "instant \<times> instant \<times> int"
  life_occurrence :: int
  life_acknowledged :: "(instant option \<times> string) option"
  life_assigned :: "(string \<times> instant option \<times> string) option"
  life_closed :: "(instant option \<times> string) option"
  life_suppression :: "bool \<times> string list \<times> instant option"

definition life_of :: "alert_row \<Rightarrow> alert_life" where
  "life_of r =
     \<lparr>life_id = ID r, life_status = Status r, life_labels = Labels r, life_annotations = Annotations r,
      life_window = (StartsAt r, EndsAt r), life_urls = (GeneratorURL r, ExternalURL r), life_raw = RawData r,
      life_seen = (FirstSeen r, LastSeen r, RepeatCount r), life_occurrence = Occurrence r,
      life_acknowledged = (if Acknowledged r then Some (AcknowledgedAt r, AcknowledgedBy r) else None),
      life_assigned = (if AssignedTo r = '''' then None else Some (AssignedTo r, AssignedAt r, AssignedBy r)),
      life_closed = (if Closed r then Some (ClosedAt r, ClosedBy r) else None),
      life_suppression = (Suppressed r, SilencedBy r, ReconciledAt r)\<rparr>"

definition lives :: "db \<Rightarrow> string \<times> string \<Rightarrow> alert_life option" where
  "lives s k = map_option life_of (row_at s k)"

text \<open>What a delivery makes of it. A resolved alert that fires again starts a new occurrence, of which nothing was said yet; a
  close stands until a firing delivery brings another status, other labels or other annotations; everything else operators
  and Alertmanagers said stays.\<close>

definition deliver :: "int \<Rightarrow> IncomingAlert \<Rightarrow> alert_life option \<Rightarrow> alert_life" where
  "deliver i alert known =
     (let raw = (if in_RawData alert = '''' then ''{}'' else in_RawData alert);
          ends = (if in_EndsAt alert = 0 then None else Some (in_EndsAt alert)) in
      case known of
        None \<Rightarrow>
          \<lparr>life_id = i, life_status = in_Status alert, life_labels = in_Labels alert, life_annotations = in_Annotations alert,
           life_window = (in_StartsAt alert, ends), life_urls = (in_GeneratorURL alert, in_ExternalURL alert), life_raw = raw,
           life_seen = (in_ReceivedAt alert, in_ReceivedAt alert, 0), life_occurrence = 1,
           life_acknowledged = None, life_assigned = None, life_closed = None, life_suppression = (False, [], None)\<rparr>
      | Some life \<Rightarrow>
          let again = (life_status life = StatusResolved \<and> in_Status alert = StatusFiring);
              news = (life_status life \<noteq> in_Status alert \<or> life_labels life \<noteq> in_Labels alert \<or>
                life_annotations life \<noteq> in_Annotations alert) in
          \<lparr>life_id = life_id life, life_status = in_Status alert, life_labels = in_Labels alert,
           life_annotations = in_Annotations alert, life_window = (in_StartsAt alert, ends),
           life_urls = (in_GeneratorURL alert, in_ExternalURL alert), life_raw = raw,
           life_seen = (case life_seen life of (first, latest, repeats) \<Rightarrow> (first, in_ReceivedAt alert, repeats + 1)),
           life_occurrence = life_occurrence life + (if again then 1 else 0),
           life_acknowledged = (if again then None else life_acknowledged life),
           life_assigned = (if again then None else life_assigned life),
           life_closed = (if news \<and> in_Status alert = StatusFiring then None else life_closed life),
           life_suppression = life_suppression life\<rparr>)"

text \<open>The row that the statements of one delivery leave, for the proofs below.\<close>

definition delivered :: "int \<Rightarrow> IncomingAlert \<Rightarrow> alert_row option \<Rightarrow> alert_row" where
  "delivered i alert stored =
     (case stored of
        None \<Rightarrow> fresh_row i alert
      | Some r \<Rightarrow>
          (let r1 = updated_row alert (next_occurrence alert r) r
           in if changes alert r \<and> in_Status alert = StatusFiring then reopen_row r1 else r1))"

definition announces :: "IncomingAlert \<Rightarrow> db \<Rightarrow> bool" where
  "announces alert s \<longleftrightarrow>
     (case row_at s (incoming_key alert) of None \<Rightarrow> True | Some r \<Rightarrow> changes alert r)"

definition deliverable :: "IncomingAlert \<Rightarrow> db \<Rightarrow> bool" where
  "deliverable alert s \<longleftrightarrow> incoming_texts_ok alert \<and> in_SourceSlug alert \<in> row_slug ` set (alert_sources s)"

text \<open>A delivery for the resolved alert of the sample database.\<close>

definition sample_incoming :: IncomingAlert where
  "sample_incoming = \<lparr>in_SourceSlug = ''prod'', in_Fingerprint = ''f2'', in_Status = StatusFiring,
     in_Labels = sample_labels, in_Annotations = fmempty, in_StartsAt = 300, in_EndsAt = 0,
     in_GeneratorURL = '''', in_ExternalURL = '''', in_ReceivedAt = 310, in_RawData = ''''\<rparr>"

section \<open>Lemmas\<close>

lemmas row_defs = updated_row_def reopen_row_def fresh_row_def Let_def

lemma updated_row_le: "Occurrence r \<le> occ \<Longrightarrow> row_le r (updated_row alert occ r)"
  by (simp add: row_le_def updated_row_def Let_def)

lemma reopen_row_le: "row_le r (reopen_row r)"
  by (simp add: row_le_def reopen_row_def)

lemma updated_row_checks: "alert_checks r \<Longrightarrow> alert_checks (updated_row alert occ r)"
  by (auto simp: updated_row_def Let_def alert_checks_def acknowledgement_check_def
      assignment_check_def close_check_def)

lemma reopen_row_checks: "alert_checks r \<Longrightarrow> alert_checks (reopen_row r)"
  by (simp add: reopen_row_def alert_checks_def acknowledgement_check_def assignment_check_def
      close_check_def)

lemma fresh_row_checks: "alert_checks (fresh_row i alert)"
  by (simp add: fresh_row_def alert_checks_def acknowledgement_check_def assignment_check_def
      close_check_def)

lemma reopen_row_open: "close_check r \<Longrightarrow> \<not> Closed r \<Longrightarrow> reopen_row r = r"
  by (cases r) (simp add: reopen_row_def close_check_def)

subsection \<open>The insert\<close>

lemma insert_alert_ok:
  assumes "db_ok s" "insert_alert alert s = Inr (i, s')"
  shows "db_ok s'" "i = next_alert s" "occurrence_of s' i = 1" "i \<in> ID ` set (alert_rows s')"
    "row_at s' = (row_at s)(incoming_key alert \<mapsto> fresh_row i alert)"
    "stream_events s' = stream_events s" "alert_history s' = alert_history s"
    "alert_sources s' = alert_sources s"
proof -
  let ?row = "fresh_row (next_alert s) alert"
  have i: "i = next_alert s"
    and s': "s' = s\<lparr>alert_rows := alert_rows s @ [?row], next_alert := next_alert s + 1\<rparr>"
    and fk: "in_SourceSlug alert \<in> row_slug ` set (alert_sources s)"
    and uniq: "incoming_key alert \<notin> row_key ` set (alert_rows s)"
    using assms(2)
    by (auto simp: insert_alert_def Let_def incoming_key_def row_key_def [abs_def] split: if_splits)
  note aok = db_okD(2) [OF assms(1)]
  have fresh: "ID r \<noteq> i" if "r \<in> set (alert_rows s)" for r
    using aok that i by (auto simp: alerts_ok_def)
  have row: "ID ?row = i" "row_key ?row = incoming_key alert" "Occurrence ?row = 1" "RepeatCount ?row = 0"
    "SourceSlug ?row = in_SourceSlug alert"
    by (simp_all add: fresh_row_def row_key_def incoming_key_def i)
  show "i = next_alert s" by (rule i)
  show mem: "i \<in> ID ` set (alert_rows s')" using row(1) by (simp add: s')
  have none: "filter (\<lambda>r. ID r = i) (alert_rows s) = []" using fresh by (auto simp: filter_empty_conv)
  show "occurrence_of s' i = 1" using row none by (simp add: occurrence_of_def s')
  have occ: "occurrence_of s' j = occurrence_of s j" if "j \<in> ID ` set (alert_rows s)" for j
  proof -
    have "filter (\<lambda>r. ID r = j) (alert_rows s) \<noteq> []" using that by (auto simp: filter_empty_conv)
    then show ?thesis by (auto simp: occurrence_of_def s' split: list.splits)
  qed
  show "row_at s' = (row_at s)(incoming_key alert \<mapsto> fresh_row i alert)"
  proof -
    have "row_at s' = [incoming_key alert \<mapsto> ?row] ++ row_at s"
      using row(2) by (simp add: row_at_def s')
    moreover have "row_at s (incoming_key alert) = None" using uniq by (simp add: row_at_None)
    ultimately show ?thesis by (auto simp: fun_eq_iff map_add_def i split: option.splits)
  qed
  have "alerts_ok s'"
    using aok fresh uniq row fk fresh_row_checks [of "next_alert s" alert]
    by (auto simp: alerts_ok_def s' i row_key_def [abs_def])
  moreover have "stream_ok s'" using db_okD(3) [OF assms(1)] by (auto simp: stream_ok_def s')
  moreover have "history_ok s'" using db_okD(4) [OF assms(1)] occ by (auto simp: history_ok_def s')
  moreover have "notes_ok s'" using db_okD(5) [OF assms(1)] occ by (auto simp: notes_ok_def s')
  moreover have "sources_ok s'" "silences_ok s'"
    using db_okD(1,6) [OF assms(1)] by (simp_all add: sources_ok_def silences_ok_def s')
  ultimately show "db_ok s'" by (simp add: db_ok_def)
  show "stream_events s' = stream_events s" "alert_history s' = alert_history s"
    "alert_sources s' = alert_sources s" by (simp_all add: s')
qed

lemma insert_alert_total:
  assumes "row_at s (incoming_key alert) = None" "in_SourceSlug alert \<in> row_slug ` set (alert_sources s)"
  shows "\<exists>i s'. insert_alert alert s = Inr (i, s')"
  using assms fresh_row_checks [of "next_alert s" alert]
  by (simp add: insert_alert_def Let_def row_at_None incoming_key_def row_key_def [abs_def])

lemma ingest_insert_spec:
  assumes "db_ok s" "ingest_insert alert s = Inr s'"
  shows "db_ok s'" "row_at s' = (row_at s)(incoming_key alert \<mapsto> fresh_row (next_alert s) alert)"
    "alert_sources s' = alert_sources s"
    "length (stream_events s') = length (stream_events s) + 1"
    "length (alert_history s') = length (alert_history s) + 1"
proof -
  obtain i s1 where i: "insert_alert alert s = Inr (i, s1)"
    and ev: "bind_res (insertStreamEvent ''alert.created'' i alert None s1)
      (insertHistoryEvent i 1 ''alert.created'' (in_Status alert) (in_ReceivedAt alert)) = Inr s'"
    using assms(2) by (auto simp: ingest_insert_def bind_res_Inr [of "insert_alert alert s"])
  note ins = insert_alert_ok [OF assms(1) i]
  have "1 \<le> occurrence_of s1 i" using ins(3) by simp
  note evs = events_ok [OF ins(1) this ev]
  show "db_ok s'" by (rule evs(1))
  show "row_at s' = (row_at s)(incoming_key alert \<mapsto> fresh_row (next_alert s) alert)"
    using ins(2,5) row_at_cong [OF evs(2)] by simp
  show "alert_sources s' = alert_sources s" using evs(3) ins(8) by simp
  show "length (stream_events s') = length (stream_events s) + 1"
    "length (alert_history s') = length (alert_history s) + 1"
    using evs(4,5) ins(6,7) by simp_all
qed

subsection \<open>The update\<close>

lemma at_key_iff: "at_key alert r \<longleftrightarrow> row_key r = incoming_key alert"
  by (auto simp: at_key_def row_key_def incoming_key_def)

lemma at_key_row:
  assumes "alerts_ok s" "row_at s (incoming_key alert) = Some p" "r \<in> set (alert_rows s)" "at_key alert r"
  shows "r = p"
  using row_at_row [OF assms(1,3)] assms(2,4) by (simp add: at_key_iff)

lemma update_stage:
  assumes "db_ok s" "row_at s (incoming_key alert) = Some p"
    "update_alerts (at_key alert) (updated_row alert (next_occurrence alert p)) s = Inr s1"
  shows "db_ok s1"
    "row_at s1 = (row_at s)(incoming_key alert \<mapsto> updated_row alert (next_occurrence alert p) p)"
    "occurrence_of s1 (ID p) = next_occurrence alert p" "ID p \<in> ID ` set (alert_rows s1)"
proof -
  have le: "row_le r (updated_row alert (next_occurrence alert p) r)"
    if "r \<in> set (alert_rows s)" "at_key alert r" for r
    using at_key_row [OF db_okD(2) [OF assms(1)] assms(2) that]
    by (auto simp: next_occurrence_def intro: updated_row_le)
  show ok: "db_ok s1" by (rule update_alerts_ok [OF assms(1,3) le])
  have "at_key alert p" using row_at_Some [OF assms(2)] by (simp add: at_key_iff)
  moreover have "\<not> at_key alert r" if "row_key r \<noteq> incoming_key alert" for r
    using that by (simp add: at_key_iff)
  ultimately show row: "row_at s1 = (row_at s)(incoming_key alert \<mapsto> updated_row alert (next_occurrence alert p) p)"
    using row_at_update_single [OF assms(3,2) row_le_key [OF le]] by simp
  let ?p = "updated_row alert (next_occurrence alert p) p"
  have "row_at s1 (incoming_key alert) = Some ?p" by (simp add: row)
  from row_at_Some [OF this] have p: "?p \<in> set (alert_rows s1)" by simp
  have eq: "ID ?p = ID p" "Occurrence ?p = next_occurrence alert p"
    by (simp_all add: updated_row_def Let_def)
  show "ID p \<in> ID ` set (alert_rows s1)" using p eq(1) by (metis image_eqI)
  show "occurrence_of s1 (ID p) = next_occurrence alert p"
    using occurrence_of_eq [OF _ p] db_okD(2) [OF ok] eq by (simp add: alerts_ok_def)
qed

lemma reopen_stage:
  assumes "db_ok s" "row_at s k = Some p" "update_alerts (\<lambda>r. ID r = ID p \<and> Closed r) reopen_row s = Inr s'"
  shows "db_ok s'" "row_at s' = (row_at s)(k \<mapsto> reopen_row p)"
    "occurrence_of s' (ID p) = occurrence_of s (ID p)" "map ID (alert_rows s') = map ID (alert_rows s)"
proof -
  note aok = db_okD(2) [OF assms(1)]
  show ok: "db_ok s'" by (rule update_alerts_ok [OF assms(1,3) reopen_row_le])
  show ids: "map ID (alert_rows s') = map ID (alert_rows s)"
    by (rule update_alerts_ids(1) [OF assms(3) reopen_row_le])
  have p: "p \<in> set (alert_rows s)" "row_key p = k" using row_at_Some [OF assms(2)] by simp_all
  have open_p: "reopen_row p = p" if "\<not> Closed p"
    using aok p(1) that by (auto simp: alerts_ok_def alert_checks_def intro: reopen_row_open)
  have "\<not> (ID r = ID p \<and> Closed r)" if "r \<in> set (alert_rows s)" "row_key r \<noteq> k" for r
    using row_by_id [OF aok that(1) p(1)] that(2) p(2) by blast
  from row_at_update_single [OF assms(3,2) row_le_key [OF reopen_row_le] this]
  have row: "row_at s' = (row_at s)(k \<mapsto> (if ID p = ID p \<and> Closed p then reopen_row p else p))" .
  then show row': "row_at s' = (row_at s)(k \<mapsto> reopen_row p)"
    using open_p by (cases "Closed p") simp_all
  have "row_at s' k = Some (reopen_row p)" by (simp add: row')
  from row_at_Some [OF this] have p': "reopen_row p \<in> set (alert_rows s')" by simp
  have "occurrence_of s' (ID (reopen_row p)) = Occurrence (reopen_row p)"
    using occurrence_of_eq [OF _ p'] db_okD(2) [OF ok] by (simp add: alerts_ok_def)
  moreover have "occurrence_of s (ID p) = Occurrence p"
    using occurrence_of_eq [OF _ p(1)] aok by (simp add: alerts_ok_def)
  ultimately show "occurrence_of s' (ID p) = occurrence_of s (ID p)" by (simp add: reopen_row_def)
qed

text \<open>The row before the reopening statement.\<close>

lemma updated_row_ID [simp]: "ID (updated_row alert occ r) = ID r"
  by (simp add: updated_row_def Let_def)

lemma ingest_update_spec:
  assumes "db_ok s" "row_at s (incoming_key alert) = Some p" "ingest_update alert p s = Inr s'"
  shows "db_ok s'" "row_at s' = (row_at s)(incoming_key alert \<mapsto> delivered i alert (Some p))"
    "alert_sources s' = alert_sources s"
    "length (stream_events s') = length (stream_events s) + (if changes alert p then 1 else 0)"
    "length (alert_history s') = length (alert_history s) + (if changes alert p then 1 else 0)"
proof -
  let ?p = "updated_row alert (next_occurrence alert p) p"
  obtain s1 where s1: "update_alerts (at_key alert) (updated_row alert (next_occurrence alert p)) s = Inr s1"
    using assms(3) by (auto simp: ingest_update_def bind_res_Inr)
  note up = update_stage [OF assms(1,2) s1]
  have frame1: "stream_events s1 = stream_events s" "alert_history s1 = alert_history s"
      "alert_sources s1 = alert_sources s"
    using update_alerts_rows [OF s1] by simp_all
  have "db_ok s' \<and> row_at s' = (row_at s)(incoming_key alert \<mapsto> delivered i alert (Some p)) \<and>
      alert_sources s' = alert_sources s \<and>
      length (stream_events s') = length (stream_events s) + (if changes alert p then 1 else 0) \<and>
      length (alert_history s') = length (alert_history s) + (if changes alert p then 1 else 0)"
  proof (cases "changes alert p")
    case False
    with assms(3) s1 have "s' = s1" by (simp add: ingest_update_def)
    with False up(1,2) frame1 show ?thesis by (simp add: delivered_def)
  next
    case True
    let ?firing = "in_Status alert = StatusFiring"
    obtain s2 where s2: "(if ?firing then update_alerts (\<lambda>r. ID r = ID p \<and> Closed r) reopen_row s1 else Inr s1) = Inr s2"
      and ev: "bind_res (insertStreamEvent
           (stream_type (history_type (Status p) (in_Status alert))) (ID p) alert (Some (Labels p)) s2)
         (insertHistoryEvent (ID p) (next_occurrence alert p) (history_type (Status p) (in_Status alert))
            (in_Status alert) (in_ReceivedAt alert)) = Inr s'"
      using assms(3) s1 True by (auto simp: ingest_update_def bind_res_Inr)
    have p1: "row_at s1 (incoming_key alert) = Some ?p" by (simp add: up(2))
    have mid: "db_ok s2 \<and> row_at s2 = (row_at s)(incoming_key alert \<mapsto> delivered i alert (Some p)) \<and>
        occurrence_of s2 (ID p) = next_occurrence alert p \<and> stream_events s2 = stream_events s1 \<and>
        alert_history s2 = alert_history s1 \<and> alert_sources s2 = alert_sources s1"
    proof (cases ?firing)
      case f: True
      then have r: "update_alerts (\<lambda>r. ID r = ID ?p \<and> Closed r) reopen_row s1 = Inr s2" using s2 by simp
      from reopen_stage [OF up(1) p1 r] update_alerts_rows [OF r] True f up show ?thesis
        by (simp add: delivered_def)
    next
      case f: False
      with s2 True up show ?thesis by (simp add: delivered_def)
    qed
    have "next_occurrence alert p \<le> occurrence_of s2 (ID p)" using mid by simp
    note evs = events_ok [OF conjunct1 [OF mid] this ev]
    show ?thesis using evs row_at_cong [OF evs(2)] mid frame1 True by simp
  qed
  then show "db_ok s'" "row_at s' = (row_at s)(incoming_key alert \<mapsto> delivered i alert (Some p))"
    "alert_sources s' = alert_sources s"
    "length (stream_events s') = length (stream_events s) + (if changes alert p then 1 else 0)"
    "length (alert_history s') = length (alert_history s) + (if changes alert p then 1 else 0)"
    by simp_all
qed

subsection \<open>One delivery\<close>

lemma ingest_one_cases:
  assumes "ingest_one alert s = Inr s'"
  obtains (fresh) "incoming_texts_ok alert" "row_at s (incoming_key alert) = None" "ingest_insert alert s = Inr s'"
  | (stored) p where "incoming_texts_ok alert" "row_at s (incoming_key alert) = Some p"
      "ingest_update alert p s = Inr s'"
proof (cases "filter (at_key alert) (alert_rows s)")
  case Nil
  then have "row_at s (incoming_key alert) = None"
    using filter_key_head(1) by (simp add: at_key_def [abs_def] incoming_key_def)
  with Nil assms show ?thesis by (intro fresh) (auto simp: ingest_one_def split: if_splits)
next
  case (Cons p ps)
  then have "row_at s (incoming_key alert) = Some p"
    using filter_key_head(2) by (simp add: at_key_def [abs_def] incoming_key_def)
  with Cons assms show ?thesis by (intro stored) (auto simp: ingest_one_def split: if_splits)
qed

lemma ingest_one_ok [keeps]: "db_ok s \<Longrightarrow> ingest_one alert s = Inr s' \<Longrightarrow> db_ok s'"
  by (erule ingest_one_cases) (blast intro: ingest_insert_spec(1) ingest_update_spec(1))+

lemma ingest_one_row:
  assumes "db_ok s" "ingest_one alert s = Inr s'"
  shows "row_at s' = (row_at s)(incoming_key alert \<mapsto>
    delivered (next_alert s) alert (row_at s (incoming_key alert)))"
  using assms(2)
proof (cases rule: ingest_one_cases)
  case fresh
  with ingest_insert_spec(2) [OF assms(1) fresh(3)] show ?thesis by (simp add: delivered_def)
next
  case (stored p)
  from ingest_update_spec(2) [OF assms(1) stored(2,3), of "next_alert s"] stored(2) show ?thesis by simp
qed

lemma ingest_one_sources: "db_ok s \<Longrightarrow> ingest_one alert s = Inr s' \<Longrightarrow> alert_sources s' = alert_sources s"
  by (erule ingest_one_cases) (blast dest: ingest_insert_spec(3) ingest_update_spec(3))+

lemma ingest_one_events:
  assumes "db_ok s" "ingest_one alert s = Inr s'"
  shows "length (stream_events s') = length (stream_events s) + (if announces alert s then 1 else 0)"
    "length (alert_history s') = length (alert_history s) + (if announces alert s then 1 else 0)"
proof -
  from assms(2) have "length (stream_events s') = length (stream_events s) + (if announces alert s then 1 else 0) \<and>
      length (alert_history s') = length (alert_history s) + (if announces alert s then 1 else 0)"
  proof (cases rule: ingest_one_cases)
    case fresh
    with ingest_insert_spec(4,5) [OF assms(1) fresh(3)] show ?thesis by (simp add: announces_def)
  next
    case (stored p)
    with ingest_update_spec(4,5) [OF assms(1) stored(2,3)] show ?thesis by (simp add: announces_def)
  qed
  then show "length (stream_events s') = length (stream_events s) + (if announces alert s then 1 else 0)"
    "length (alert_history s') = length (alert_history s) + (if announces alert s then 1 else 0)"
    by simp_all
qed

text \<open>A delivery that the server accepts.\<close>

lemma ingest_one_total:
  assumes "db_ok s" "incoming_texts_ok alert" "in_SourceSlug alert \<in> row_slug ` set (alert_sources s)"
  shows "\<exists>s'. ingest_one alert s = Inr s'"
proof (cases "filter (at_key alert) (alert_rows s)")
  case Nil
  then have "row_at s (incoming_key alert) = None"
    using filter_key_head(1) by (simp add: at_key_def [abs_def] incoming_key_def)
  then obtain i s1 where i: "insert_alert alert s = Inr (i, s1)"
    using insert_alert_total [OF _ assms(3)] by blast
  from events_total [OF insert_alert_ok(4) [OF assms(1) i]] i Nil assms(2) show ?thesis
    by (auto simp: ingest_one_def ingest_insert_def)
next
  case (Cons p ps)
  then have p: "row_at s (incoming_key alert) = Some p"
    using filter_key_head(2) by (simp add: at_key_def [abs_def] incoming_key_def)
  have checks: "alert_checks r" if "r \<in> set (alert_rows s)" for r
    using db_okD(2) [OF assms(1)] that by (simp add: alerts_ok_def)
  then obtain s1 where s1: "update_alerts (at_key alert) (updated_row alert (next_occurrence alert p)) s = Inr s1"
    using update_alerts_total [of s "at_key alert" "updated_row alert (next_occurrence alert p)"]
      updated_row_checks by blast
  note up = update_stage [OF assms(1) p s1]
  have "alert_checks r" if "r \<in> set (alert_rows s1)" for r
    using db_okD(2) [OF up(1)] that by (simp add: alerts_ok_def)
  then obtain s2 where s2: "update_alerts (\<lambda>r. ID r = ID p \<and> Closed r) reopen_row s1 = Inr s2"
    using update_alerts_total [of s1 "\<lambda>r. ID r = ID p \<and> Closed r" reopen_row] reopen_row_checks by blast
  have "ID p \<in> ID ` set (alert_rows s2)"
    using up(4) ids_image [OF update_alerts_ids(1) [OF s2 reopen_row_le]] by simp
  then show ?thesis
    using Cons assms(2) s1 s2 events_total [OF up(4)] events_total [of "ID p" s2]
    by (auto simp: ingest_one_def ingest_update_def)
qed

lemma life_of_delivered: "life_of (delivered i alert stored) = deliver i alert (map_option life_of stored)"
  by (cases stored)
    (auto simp: delivered_def deliver_def life_of_def fresh_row_def updated_row_def reopen_row_def raw_data_of_def nullableTime_def
      next_occurrence_def refires_def changes_def alertMateriallyChanged_def Let_def)

subsection \<open>A delivery batch\<close>

lemma stamp_delivery_ok [keeps]: "db_ok s \<Longrightarrow> db_ok (stamp_delivery alert s)"
proof -
  assume ok: "db_ok s"
  let ?f = "\<lambda>r. r\<lparr>row_last_delivery_at := Some (in_ReceivedAt alert)\<rparr>"
  let ?srcs = "upd_where (\<lambda>r. row_slug r = in_SourceSlug alert) ?f (alert_sources s)"
  have slugs: "map row_slug ?srcs = map row_slug (alert_sources s)"
    by (rule upd_where_cong_field) simp
  have "distinct (map row_slug ?srcs)" using db_okD(1) [OF ok] slugs by (simp add: sources_ok_def)
  moreover have "row_slug ` set (alert_sources s) \<subseteq> row_slug ` set ?srcs"
    using slugs by (metis list.set_map order_refl)
  moreover have "\<forall>r \<in> set ?srcs. \<forall>d. row_stale_after r = Some d \<longrightarrow> 0 \<le> d"
    using db_okD(1) [OF ok] by (auto simp: sources_ok_def set_upd_where)
  ultimately show "db_ok (stamp_delivery alert s)"
    using sources_change_ok [OF ok, of "stamp_delivery alert s" ?srcs] by (simp add: stamp_delivery_def)
qed

lemma Ingest_ok [keeps]:
  assumes "db_ok s" "Ingest alerts s = Inr s'"
  shows "db_ok s'"
proof -
  obtain s1 where s1: "fold_res ingest_one alerts s = Inr s1"
    "s' = s1 \<or> (\<exists>a. s' = stamp_delivery a s1)"
    using assms(2) by (cases alerts) (auto simp: Ingest_def bind_res_Inr)
  have "db_ok s1" by (rule fold_res_invariant [where P = db_ok, OF s1(1) assms(1)]) (blast intro: ingest_one_ok)
  with s1(2) stamp_delivery_ok show ?thesis by auto
qed

lemma Ingest_total:
  assumes "db_ok s" "\<forall>a \<in> set alerts. deliverable a s"
  shows "\<exists>s'. Ingest alerts s = Inr s' \<and> db_ok s'"
proof -
  let ?P = "\<lambda>t. db_ok t \<and> alert_sources t = alert_sources s"
  have "\<exists>t'. ingest_one a t = Inr t' \<and> ?P t'" if a: "a \<in> set alerts" and t: "?P t" for a t
  proof -
    have d: "incoming_texts_ok a" "in_SourceSlug a \<in> row_slug ` set (alert_sources t)"
      using assms(2) a t by (auto simp: deliverable_def)
    obtain t' where t': "ingest_one a t = Inr t'" using ingest_one_total [OF conjunct1 [OF t] d] by blast
    have "db_ok t'" by (rule ingest_one_ok [OF conjunct1 [OF t] t'])
    moreover have "alert_sources t' = alert_sources s"
      using ingest_one_sources [OF conjunct1 [OF t] t'] t by simp
    ultimately show ?thesis using t' by blast
  qed
  then obtain t where t: "fold_res ingest_one alerts s = Inr t" "?P t"
    using fold_res_total [of ?P s alerts ingest_one] assms(1) by blast
  then show ?thesis
    by (cases alerts) (auto simp: Ingest_def stamp_delivery_ok)
qed

subsection \<open>A sample delivery\<close>

lemma sample_deliverable: "deliverable sample_incoming sample_db"
proof -
  have "text_ok (golookup sample_labels k)" for k
    by (simp add: golookup_def sample_labels_def)
  then show ?thesis
    by (simp add: deliverable_def incoming_texts_ok_def sample_incoming_def sample_defs jsonb_ok_def
        sorted_keys_def)
qed

lemma sample_ingest: "\<exists>s'. ingest_one sample_incoming sample_db = Inr s'"
  using ingest_one_total [OF sample_db_ok] sample_deliverable by (simp add: deliverable_def)

lemma sample_row_at: "row_at sample_db (incoming_key sample_incoming) = Some sample_resolved"
  by (simp add: row_at_def sample_defs row_key_def incoming_key_def sample_incoming_def)

section \<open>Properties\<close>

text \<open>C1: storing one delivery refines the lifecycle of an alert. The table is seen as a map from source and fingerprint to
  lifecycles; a delivery replaces the one at its key by what \<open>deliver\<close> makes of it, which is written without the row functions of
  the store, leaves every other row alone, and writes one stream event and one history entry if the alert is
  new or came with another status, other labels or other annotations, and neither otherwise.\<close>

theorem ingest_refines_lifecycle:
  assumes "db_ok s" "ingest_one alert s = Inr s'"
  shows "lives s' = (lives s)(incoming_key alert \<mapsto> deliver (next_alert s) alert (lives s (incoming_key alert))) \<and>
    (\<forall>k. k \<noteq> incoming_key alert \<longrightarrow> row_at s' k = row_at s k) \<and>
    (let written = (case lives s (incoming_key alert) of
         None \<Rightarrow> 1
       | Some life \<Rightarrow> if life_status life \<noteq> in_Status alert \<or> life_labels life \<noteq> in_Labels alert \<or>
           life_annotations life \<noteq> in_Annotations alert then 1 else 0) in
     length (stream_events s') = length (stream_events s) + written \<and>
     length (alert_history s') = length (alert_history s) + written)"
proof -
  have "lives s' = (lives s)(incoming_key alert \<mapsto> deliver (next_alert s) alert (lives s (incoming_key alert)))"
    using ingest_one_row [OF assms] by (auto simp: lives_def fun_eq_iff life_of_delivered)
  moreover have "\<forall>k. k \<noteq> incoming_key alert \<longrightarrow> row_at s' k = row_at s k" using ingest_one_row [OF assms] by simp
  ultimately show ?thesis
    using ingest_one_events [OF assms]
    by (auto simp: announces_def lives_def life_of_def changes_def alertMateriallyChanged_def Let_def split: option.splits)
qed

theorem ingest_refines_lifecycle_witness:
  "\<exists>s' life. ingest_one sample_incoming sample_db = Inr s' \<and> lives s' (incoming_key sample_incoming) = Some life \<and>
     life_occurrence life = 3 \<and> life_acknowledged life = None \<and> life_assigned life = None"
proof -
  obtain s' where s': "ingest_one sample_incoming sample_db = Inr s'" using sample_ingest by blast
  have known: "lives sample_db (incoming_key sample_incoming) = Some (life_of sample_resolved)" by (simp add: lives_def sample_row_at)
  let ?life = "deliver (next_alert sample_db) sample_incoming (Some (life_of sample_resolved))"
  have "lives s' (incoming_key sample_incoming) = Some ?life"
    using ingest_refines_lifecycle [OF sample_db_ok s'] by (simp add: known)
  moreover have "life_occurrence ?life = 3" "life_acknowledged ?life = None" "life_assigned ?life = None"
    by (simp_all add: deliver_def life_of_def sample_defs sample_incoming_def Let_def)
  ultimately show ?thesis using s' by blast
qed

text \<open>What a redelivery does to a stored alert. The occurrence advances, and the
  acknowledgement and assignment are dropped, exactly when a resolved alert fires again; a close
  is undone exactly when a firing delivery changed the status, the labels or the annotations;
  identity and first sighting never change.\<close>

theorem redelivery_lifecycle:
  assumes "db_ok s" "ingest_one alert s = Inr s'" "row_at s (incoming_key alert) = Some r"
  shows "\<exists>r'. row_at s' (incoming_key alert) = Some r' \<and> ID r' = ID r \<and> FirstSeen r' = FirstSeen r \<and>
    LastSeen r' = in_ReceivedAt alert \<and> Status r' = in_Status alert \<and> Labels r' = in_Labels alert \<and>
    RepeatCount r' = RepeatCount r + 1 \<and>
    Occurrence r' = (if Status r = StatusResolved \<and> in_Status alert = StatusFiring then Occurrence r + 1
                     else Occurrence r) \<and>
    (Acknowledged r' \<longleftrightarrow> Acknowledged r \<and> \<not> (Status r = StatusResolved \<and> in_Status alert = StatusFiring)) \<and>
    AssignedTo r' = (if Status r = StatusResolved \<and> in_Status alert = StatusFiring then '''' else AssignedTo r) \<and>
    (Closed r' \<longleftrightarrow> Closed r \<and>
       \<not> (in_Status alert = StatusFiring \<and>
          (Status r \<noteq> StatusFiring \<or> Labels r \<noteq> in_Labels alert \<or> Annotations r \<noteq> in_Annotations alert)))"
  using ingest_one_row [OF assms(1,2)] assms(3)
  by (auto simp: delivered_def updated_row_def reopen_row_def Let_def next_occurrence_def refires_def
      changes_def alertMateriallyChanged_def)

theorem redelivery_lifecycle_witness:
  "\<exists>s' r'. ingest_one sample_incoming sample_db = Inr s' \<and>
     row_at s' (incoming_key sample_incoming) = Some r' \<and> Occurrence r' = 3 \<and>
     \<not> Acknowledged r' \<and> AssignedTo r' = '''' \<and> \<not> Closed r'"
proof -
  obtain s' where s': "ingest_one sample_incoming sample_db = Inr s'" using sample_ingest by blast
  from redelivery_lifecycle [OF sample_db_ok this sample_row_at] s' show ?thesis
    by (auto simp: sample_defs sample_incoming_def)
qed

text \<open>C2: a delivery batch from known sources is always accepted, and the constraints of the
  database hold afterwards: no check, unique or foreign-key constraint can roll it back.\<close>

theorem ingest_accepts:
  assumes "db_ok s" "\<forall>a \<in> set alerts. deliverable a s"
  shows "\<exists>s'. Ingest alerts s = Inr s' \<and> db_ok s'"
  using assms by (rule Ingest_total)

theorem ingest_accepts_witness: "\<exists>s'. Ingest [sample_incoming, sample_incoming] sample_db = Inr s' \<and> db_ok s'"
  by (rule ingest_accepts [OF sample_db_ok]) (simp add: sample_deliverable)

text \<open>A delivery writes one stream event and one history entry if the alert is new or
  materially changed, and neither otherwise, so an identical repeat wakes no console.\<close>

theorem ingest_announces:
  assumes "db_ok s" "ingest_one alert s = Inr s'"
  shows "length (stream_events s') = length (stream_events s) + (if announces alert s then 1 else 0) \<and>
    length (alert_history s') = length (alert_history s) + (if announces alert s then 1 else 0)"
  using ingest_one_events [OF assms] by simp

theorem ingest_announces_witness:
  "\<exists>s'. ingest_one sample_incoming sample_db = Inr s' \<and> length (stream_events s') = 1"
proof -
  obtain s' where s': "ingest_one sample_incoming sample_db = Inr s'" using sample_ingest by blast
  have "announces sample_incoming sample_db"
    using sample_row_at
    by (simp add: announces_def changes_def alertMateriallyChanged_def sample_defs sample_incoming_def)
  with ingest_announces [OF sample_db_ok s'] s' show ?thesis by (simp add: sample_defs)
qed

end
