(* ===== verification/Alert_API.thy ===== *)
theory Alert_API
  imports Http Ingest
begin

text \<open>
  The handlers of \<open>internal/httpapi/server.go\<close> and \<open>bulk.go\<close> that read one alert, act on
  one alert or on a selection, and take deliveries.

  A handler maps a request, its decoded body and the database to the database and the reply.
  \<open>pgrx\<close>, \<open>rx\<close> and \<open>url_parse\<close> are PostgreSQL's and Go's pattern matching and
  \<open>url.Parse\<close>; \<open>canSilence\<close> says that the deployment has a silencer.
\<close>

section \<open>Responses\<close>

record alertActions =
  CanAcknowledge :: bool
  CanSilence :: bool
  CanAssign :: bool
  CanClose :: bool
  CanNote :: bool

record alertResponse =
  resp_ID :: string
  resp_Fingerprint :: string
  resp_Source :: string
  resp_Status :: SourceStatus
  resp_Severity :: string
  resp_Labels :: labels
  resp_Annotations :: labels
  resp_StartsAt :: instant
  resp_EndsAt :: "instant option"
  resp_GeneratorURL :: string
  resp_ExternalURL :: string
  resp_FirstSeen :: instant
  resp_LastSeen :: instant
  resp_RepeatCount :: int
  resp_Suppressed :: bool
  resp_SilencedBy :: "string list"
  resp_Assignee :: string
  resp_Notes :: nat
  resp_ViewMatch :: ViewMatch

record alertDetailResponse = alertResponse +
  resp_Occurrence :: int
  resp_Acknowledged :: bool
  resp_AcknowledgedAt :: "instant option"
  resp_AcknowledgedBy :: string
  resp_AssignedAt :: "instant option"
  resp_AssignedBy :: string
  resp_Closed :: bool
  resp_ClosedAt :: "instant option"
  resp_ClosedBy :: string
  resp_Actions :: alertActions
  resp_RawData :: string

definition newAlertResponse :: "Alert \<Rightarrow> alertResponse" where
  "newAlertResponse alert =
     (let severity = golookup (Labels alert) ''severity'';
          severity = (if severity = '''' then ''warning'' else severity)
      in \<lparr>resp_ID = FormatInt (ID alert), resp_Fingerprint = Fingerprint alert,
          resp_Source = SourceSlug alert, resp_Status = Status alert, resp_Severity = severity,
          resp_Labels = Labels alert, resp_Annotations = Annotations alert,
          resp_StartsAt = StartsAt alert, resp_EndsAt = EndsAt alert,
          resp_GeneratorURL = GeneratorURL alert, resp_ExternalURL = ExternalURL alert,
          resp_FirstSeen = FirstSeen alert, resp_LastSeen = LastSeen alert,
          resp_RepeatCount = RepeatCount alert, resp_Suppressed = Suppressed alert,
          resp_SilencedBy = SilencedBy alert, resp_Assignee = AssignedTo alert,
          resp_Notes = NoteCount alert, resp_ViewMatch = AlertViewMatch alert\<rparr>)"

definition newAlertDetailResponse :: "Alert \<Rightarrow> bool \<Rightarrow> bool \<Rightarrow> alertDetailResponse" where
  "newAlertDetailResponse alert canOperate canSilence =
     alertResponse.extend (newAlertResponse alert)
       (alertDetailResponse.fields (Occurrence alert) (Acknowledged alert) (AcknowledgedAt alert)
          (AcknowledgedBy alert) (AssignedAt alert) (AssignedBy alert) (Closed alert) (ClosedAt alert)
          (ClosedBy alert)
          \<lparr>CanAcknowledge = canOperate, CanSilence = (canOperate \<and> canSilence), CanAssign = canOperate,
           CanClose = canOperate, CanNote = canOperate\<rparr>
          (RawData alert))"

record detail_payload =
  pay_alert :: alertDetailResponse
  pay_history :: "HistoryEvent list"
  pay_silences :: "SilenceRecord list"
  pay_notes :: "Note list"

definition detail_payload_of :: "regex \<Rightarrow> bool \<Rightarrow> Principal \<Rightarrow> Detail \<Rightarrow> detail_payload" where
  "detail_payload_of rx canSilence caller detail =
     \<lparr>pay_alert = newAlertDetailResponse (detail_Alert detail)
        (CanOperateLabels rx caller (Labels (detail_Alert detail))) canSilence,
      pay_history = detail_History detail, pay_silences = detail_Silences detail,
      pay_notes = detail_Notes detail\<rparr>"

section \<open>Reading one alert\<close>

definition loadAlertDetail ::
  "(string \<Rightarrow> string \<Rightarrow> bool) \<Rightarrow> request \<Rightarrow> db \<Rightarrow> failure + Principal \<times> Detail" where
  "loadAlertDetail pgrx r s =
     bind_res (path_id r)
       (\<lambda>i. case req_principal r of
              None \<Rightarrow> Inl (server_error ''principal is unavailable'')
            | Some caller \<Rightarrow>
                (case GetAlertDetail pgrx caller i s of
                   Inl e \<Rightarrow> if e = ErrNotFound then Inl (404, Message ''alert not found'')
                           else Inl (server_error ''failed to query alert'')
                 | Inr detail \<Rightarrow> Inr (caller, detail)))"

definition getAlert ::
  "(string \<Rightarrow> string \<Rightarrow> bool) \<Rightarrow> regex \<Rightarrow> bool \<Rightarrow> request \<Rightarrow> db \<Rightarrow> detail_payload reply" where
  "getAlert pgrx rx canSilence r s =
     (case loadAlertDetail pgrx r s of
        Inl f \<Rightarrow> fail f
      | Inr (caller, detail) \<Rightarrow> Reply 200 (detail_payload_of rx canSilence caller detail))"

definition getAlertEvents :: "(string \<Rightarrow> string \<Rightarrow> bool) \<Rightarrow> request \<Rightarrow> db \<Rightarrow> HistoryEvent list reply" where
  "getAlertEvents pgrx r s =
     (case loadAlertDetail pgrx r s of
        Inl f \<Rightarrow> fail f
      | Inr (caller, detail) \<Rightarrow> Reply 200 (detail_History detail))"

section \<open>Actions on one alert\<close>

text \<open>The reply of an action: \<open>ErrInvalid\<close> is only looked for where the store can return it.\<close>

definition action_reply ::
  "regex \<Rightarrow> bool \<Rightarrow> Principal \<Rightarrow> nat \<Rightarrow> bool \<Rightarrow> string \<Rightarrow> db_error + Detail \<Rightarrow> detail_payload reply" where
  "action_reply rx canSilence caller status checksInvalid what result =
     (case result of
        Inr detail \<Rightarrow> Reply status (detail_payload_of rx canSilence caller detail)
      | Inl e \<Rightarrow>
          if e = ErrNotFound then Fail 404 (Message ''alert not found'')
          else if checksInvalid \<and> e = ErrInvalid then Fail 400 (ErrorText e)
          else fail (server_error what))"

definition closeAlert ::
  "(string \<Rightarrow> string \<Rightarrow> bool) \<Rightarrow> regex \<Rightarrow> (string \<Rightarrow> (string \<times> string) option) \<Rightarrow> bool \<Rightarrow> instant \<Rightarrow> bool option body \<Rightarrow>
   request \<Rightarrow> db \<Rightarrow> db \<times> detail_payload reply" where
  "closeAlert pgrx rx url_parse canSilence now body r s =
     (case operator_gate url_parse r of Inl f \<Rightarrow> (s, fail f) | Inr caller \<Rightarrow>
      (case path_id r of Inl f \<Rightarrow> (s, fail f) | Inr i \<Rightarrow>
       (case body of
          BodyValue (Some closed) False \<Rightarrow>
            let (s', result) = CloseAlert pgrx caller i closed now s
            in (s', action_reply rx canSilence caller 200 False ''close alert'' result)
        | _ \<Rightarrow> (s, Fail 400 (Message ''closed must be a boolean'')))))"

definition addAlertNote ::
  "(string \<Rightarrow> string \<Rightarrow> bool) \<Rightarrow> regex \<Rightarrow> (string \<Rightarrow> (string \<times> string) option) \<Rightarrow> bool \<Rightarrow> instant \<Rightarrow> string option body \<Rightarrow>
   request \<Rightarrow> db \<Rightarrow> db \<times> detail_payload reply" where
  "addAlertNote pgrx rx url_parse canSilence now body r s =
     (case operator_gate url_parse r of Inl f \<Rightarrow> (s, fail f) | Inr caller \<Rightarrow>
      (case path_id r of Inl f \<Rightarrow> (s, fail f) | Inr i \<Rightarrow>
       (case body of
          BodyValue (Some note) False \<Rightarrow>
            let (s', result) = AddNote pgrx caller i note now s
            in (s', action_reply rx canSilence caller 201 True ''add alert note'' result)
        | _ \<Rightarrow> (s, Fail 400 (Message ''body must be a string'')))))"

definition assignAlert ::
  "(string \<Rightarrow> string \<Rightarrow> bool) \<Rightarrow> regex \<Rightarrow> (string \<Rightarrow> (string \<times> string) option) \<Rightarrow> bool \<Rightarrow> instant \<Rightarrow> string option body \<Rightarrow>
   request \<Rightarrow> db \<Rightarrow> db \<times> detail_payload reply" where
  "assignAlert pgrx rx url_parse canSilence now body r s =
     (case operator_gate url_parse r of Inl f \<Rightarrow> (s, fail f) | Inr caller \<Rightarrow>
      (case path_id r of Inl f \<Rightarrow> (s, fail f) | Inr i \<Rightarrow>
       (case body of
          BodyValue (Some assignee) False \<Rightarrow>
            let (s', result) = AssignAlert pgrx caller i assignee now s
            in (s', action_reply rx canSilence caller 200 True ''assign alert'' result)
        | _ \<Rightarrow> (s, Fail 400 (Message ''assignee must be a string'')))))"

definition acknowledgeAlert ::
  "(string \<Rightarrow> string \<Rightarrow> bool) \<Rightarrow> regex \<Rightarrow> (string \<Rightarrow> (string \<times> string) option) \<Rightarrow> bool \<Rightarrow> instant \<Rightarrow> bool option body \<Rightarrow>
   request \<Rightarrow> db \<Rightarrow> db \<times> detail_payload reply" where
  "acknowledgeAlert pgrx rx url_parse canSilence now body r s =
     (case operator_gate url_parse r of Inl f \<Rightarrow> (s, fail f) | Inr caller \<Rightarrow>
      (case path_id r of Inl f \<Rightarrow> (s, fail f) | Inr i \<Rightarrow>
       (case body of
          BodyValue (Some acknowledged) False \<Rightarrow>
            let (s', result) = AcknowledgeAlert pgrx caller i acknowledged now s
            in (s', action_reply rx canSilence caller 200 False ''failed to update acknowledgement'' result)
        | _ \<Rightarrow> (s, Fail 400 (Message ''acknowledged must be a boolean'')))))"

section \<open>Actions on a selection\<close>

record 'v bulk_body =
  bulk_IDs :: "string list"
  bulk_value :: "'v option"

fun parse_ids :: "string list \<Rightarrow> string + int list" where
  "parse_ids [] = Inr []"
| "parse_ids (value # raw) =
     (case ParseInt value of
        None \<Rightarrow> Inl ''ids must be alert ids''
      | Some i \<Rightarrow> if i < 1 then Inl ''ids must be alert ids'' else bind_res (parse_ids raw) (\<lambda>ids. Inr (i # ids)))"

definition bulkIDs :: "string list \<Rightarrow> string + int list" where
  "bulkIDs raw = (if raw = [] then Inl ''ids must be a non-empty array'' else parse_ids raw)"

definition bulkGate :: "(string \<Rightarrow> (string \<times> string) option) \<Rightarrow> request \<Rightarrow> failure + Principal" where
  "bulkGate url_parse r = operator_gate url_parse r"

definition decodeBulk :: "'v bulk_body body \<Rightarrow> failure + int list \<times> 'v option" where
  "decodeBulk body =
     (case body of
        BodyValue value False \<Rightarrow>
          (case bulkIDs (bulk_IDs value) of
             Inl e \<Rightarrow> Inl (400, Message e)
           | Inr ids \<Rightarrow> Inr (ids, bulk_value value))
      | _ \<Rightarrow> Inl (400, Message ''request body is invalid''))"

record bulk_payload =
  pay_applied :: nat
  pay_unchanged :: nat
  pay_notFound :: nat
  pay_results :: "BulkOutcome list"

fun count_outcomes :: "BulkOutcome list \<Rightarrow> nat \<times> nat \<times> nat \<Rightarrow> nat \<times> nat \<times> nat" where
  "count_outcomes [] counts = counts"
| "count_outcomes (o' # outcomes) (applied, unchanged, missing) =
     count_outcomes outcomes
       (case outcome_Status o' of
          BulkApplied \<Rightarrow> (applied + 1, unchanged, missing)
        | BulkUnchanged \<Rightarrow> (applied, unchanged + 1, missing)
        | BulkNotFound \<Rightarrow> (applied, unchanged, missing + 1))"

definition writeBulkOutcomes :: "BulkOutcome list \<Rightarrow> bulk_payload reply" where
  "writeBulkOutcomes outcomes =
     (let (applied, unchanged, missing) = count_outcomes outcomes (0, 0, 0)
      in Reply (if missing > 0 then 207 else 200)
           \<lparr>pay_applied = applied, pay_unchanged = unchanged, pay_notFound = missing, pay_results = outcomes\<rparr>)"

definition writeBulkResult :: "string \<Rightarrow> db \<Rightarrow> db_error + db \<times> BulkOutcome list \<Rightarrow> db \<times> bulk_payload reply" where
  "writeBulkResult what s result =
     (case result of
        Inr (s', outcomes) \<Rightarrow> (s', writeBulkOutcomes outcomes)
      | Inl e \<Rightarrow>
          (s, if e = ErrNotFound then Fail 403 (Message ''operator access required'')
              else if e = ErrInvalid then Fail 400 (ErrorText e)
              else fail (server_error what)))"

definition bulkAcknowledge ::
  "(string \<Rightarrow> string \<Rightarrow> bool) \<Rightarrow> (string \<Rightarrow> (string \<times> string) option) \<Rightarrow> instant \<Rightarrow> bool bulk_body body \<Rightarrow>
   request \<Rightarrow> db \<Rightarrow> db \<times> bulk_payload reply" where
  "bulkAcknowledge pgrx url_parse now body r s =
     (case bulkGate url_parse r of Inl f \<Rightarrow> (s, fail f) | Inr caller \<Rightarrow>
      (case decodeBulk body of Inl f \<Rightarrow> (s, fail f) | Inr (ids, value) \<Rightarrow>
       (case value of
          None \<Rightarrow> (s, Fail 400 (Message ''acknowledged must be a boolean''))
        | Some v \<Rightarrow> writeBulkResult ''bulk acknowledge'' s (BulkAcknowledge pgrx caller ids v now s))))"

definition bulkAssign ::
  "(string \<Rightarrow> string \<Rightarrow> bool) \<Rightarrow> (string \<Rightarrow> (string \<times> string) option) \<Rightarrow> instant \<Rightarrow> string bulk_body body \<Rightarrow>
   request \<Rightarrow> db \<Rightarrow> db \<times> bulk_payload reply" where
  "bulkAssign pgrx url_parse now body r s =
     (case bulkGate url_parse r of Inl f \<Rightarrow> (s, fail f) | Inr caller \<Rightarrow>
      (case decodeBulk body of Inl f \<Rightarrow> (s, fail f) | Inr (ids, value) \<Rightarrow>
       (case value of
          None \<Rightarrow> (s, Fail 400 (Message ''assignee must be a string''))
        | Some v \<Rightarrow> writeBulkResult ''bulk assign'' s (BulkAssign pgrx caller ids v now s))))"

definition bulkClose ::
  "(string \<Rightarrow> string \<Rightarrow> bool) \<Rightarrow> (string \<Rightarrow> (string \<times> string) option) \<Rightarrow> instant \<Rightarrow> bool bulk_body body \<Rightarrow>
   request \<Rightarrow> db \<Rightarrow> db \<times> bulk_payload reply" where
  "bulkClose pgrx url_parse now body r s =
     (case bulkGate url_parse r of Inl f \<Rightarrow> (s, fail f) | Inr caller \<Rightarrow>
      (case decodeBulk body of Inl f \<Rightarrow> (s, fail f) | Inr (ids, value) \<Rightarrow>
       (case value of
          None \<Rightarrow> (s, Fail 400 (Message ''closed must be a boolean''))
        | Some v \<Rightarrow> writeBulkResult ''bulk close'' s (BulkClose pgrx caller ids v now s))))"

definition bulkNote ::
  "(string \<Rightarrow> string \<Rightarrow> bool) \<Rightarrow> (string \<Rightarrow> (string \<times> string) option) \<Rightarrow> instant \<Rightarrow> string bulk_body body \<Rightarrow>
   request \<Rightarrow> db \<Rightarrow> db \<times> bulk_payload reply" where
  "bulkNote pgrx url_parse now body r s =
     (case bulkGate url_parse r of Inl f \<Rightarrow> (s, fail f) | Inr caller \<Rightarrow>
      (case decodeBulk body of Inl f \<Rightarrow> (s, fail f) | Inr (ids, value) \<Rightarrow>
       (case value of
          None \<Rightarrow> (s, Fail 400 (Message ''body must be a string''))
        | Some v \<Rightarrow> writeBulkResult ''bulk note'' s (BulkNote pgrx caller ids v now s))))"

section \<open>Deliveries\<close>

text \<open>\<open>tooLarge\<close> says that reading the body hit the size limit, which is then the decoding
  error; \<open>body\<close> and \<open>rest\<close> are what the two calls of the decoder give.\<close>

definition ingestAlertmanager ::
  "(string \<Rightarrow> string) \<Rightarrow> (am_alert \<Rightarrow> string) \<Rightarrow> instant \<Rightarrow> bool \<Rightarrow> string + Payload \<Rightarrow> trailing \<Rightarrow>
   request \<Rightarrow> db \<Rightarrow> db \<times> nat reply" where
  "ingestAlertmanager sha256 marshal now tooLarge body rest r s =
     (let token = requestBearerToken r
      in case AuthenticateSource sha256 (req_path r ''source'') token s of
        Inl e \<Rightarrow> (s, fail (server_error ''failed to authenticate source''))
      | Inr authorized \<Rightarrow>
          if \<not> authorized then (s, Fail 401 (Message ''invalid ingestion credentials''))
          else
            let source = TrimSpace (req_path r ''source'')
            in if source = '''' then (s, Fail 400 (Message ''source is required''))
               else (case Decode body rest of
                       Inl e \<Rightarrow> (s, Fail (if tooLarge then 413 else 400) (DecodeText e))
                     | Inr payload \<Rightarrow>
                         let alerts = Normalize sha256 marshal payload source now
                         in (case Ingest alerts s of
                               Inl e \<Rightarrow> (s, fail (server_error ''failed to persist alerts''))
                             | Inr s' \<Rightarrow> (s', Reply 202 (length alerts)))))"

section \<open>Specification\<close>

text \<open>The body of a request for one of the four actions, and the action it asks for.\<close>

datatype action_body =
  AcknowledgeBody "bool option body" | AssignBody "string option body" | NoteBody "string option body"
| CloseBody "bool option body"

definition exactly :: "'b option body \<Rightarrow> 'b option" where
  "exactly body = (case body of BodyValue (Some v) False \<Rightarrow> Some v | _ \<Rightarrow> None)"

definition asked :: "action_body \<Rightarrow> operator_action option" where
  "asked q =
     (case q of
        AcknowledgeBody body \<Rightarrow> map_option Acknowledge (exactly body)
      | AssignBody body \<Rightarrow> map_option Assign (exactly body)
      | NoteBody body \<Rightarrow> map_option Annotate (exactly body)
      | CloseBody body \<Rightarrow> map_option Close (exactly body))"

definition action_handler ::
  "(string \<Rightarrow> string \<Rightarrow> bool) \<Rightarrow> regex \<Rightarrow> (string \<Rightarrow> (string \<times> string) option) \<Rightarrow> bool \<Rightarrow> instant \<Rightarrow> action_body \<Rightarrow>
   request \<Rightarrow> db \<Rightarrow> db \<times> detail_payload reply" where
  "action_handler pgrx rx url_parse canSilence now q =
     (case q of
        AcknowledgeBody body \<Rightarrow> acknowledgeAlert pgrx rx url_parse canSilence now body
      | AssignBody body \<Rightarrow> assignAlert pgrx rx url_parse canSilence now body
      | NoteBody body \<Rightarrow> addAlertNote pgrx rx url_parse canSilence now body
      | CloseBody body \<Rightarrow> closeAlert pgrx rx url_parse canSilence now body)"

text \<open>The same for a selection.\<close>

datatype bulk_request =
  BulkAcknowledgeBody "bool bulk_body body" | BulkAssignBody "string bulk_body body"
| BulkNoteBody "string bulk_body body" | BulkCloseBody "bool bulk_body body"

definition asked_bulk :: "bulk_request \<Rightarrow> (int list \<times> operator_action) option" where
  "asked_bulk q =
     (case q of
        BulkAcknowledgeBody body \<Rightarrow>
          (case decodeBulk body of Inr (ids, Some v) \<Rightarrow> Some (ids, Acknowledge v) | _ \<Rightarrow> None)
      | BulkAssignBody body \<Rightarrow>
          (case decodeBulk body of Inr (ids, Some v) \<Rightarrow> Some (ids, Assign v) | _ \<Rightarrow> None)
      | BulkNoteBody body \<Rightarrow>
          (case decodeBulk body of Inr (ids, Some v) \<Rightarrow> Some (ids, Annotate v) | _ \<Rightarrow> None)
      | BulkCloseBody body \<Rightarrow>
          (case decodeBulk body of Inr (ids, Some v) \<Rightarrow> Some (ids, Close v) | _ \<Rightarrow> None))"

definition bulk_handler ::
  "(string \<Rightarrow> string \<Rightarrow> bool) \<Rightarrow> (string \<Rightarrow> (string \<times> string) option) \<Rightarrow> instant \<Rightarrow> bulk_request \<Rightarrow>
   request \<Rightarrow> db \<Rightarrow> db \<times> bulk_payload reply" where
  "bulk_handler pgrx url_parse now q =
     (case q of
        BulkAcknowledgeBody body \<Rightarrow> bulkAcknowledge pgrx url_parse now body
      | BulkAssignBody body \<Rightarrow> bulkAssign pgrx url_parse now body
      | BulkNoteBody body \<Rightarrow> bulkNote pgrx url_parse now body
      | BulkCloseBody body \<Rightarrow> bulkClose pgrx url_parse now body)"

text \<open>How many outcomes have a status.\<close>

definition of_status :: "BulkStatus \<Rightarrow> BulkOutcome list \<Rightarrow> nat" where
  "of_status st outcomes = length (filter (\<lambda>x. outcome_Status x = st) outcomes)"

text \<open>Only validated slugs are stored.\<close>

definition slugs_ok :: "db \<Rightarrow> bool" where
  "slugs_ok s \<longleftrightarrow> (\<forall>r \<in> set (alert_sources s). slug_pattern (row_slug r))"

text \<open>A request, a body, a source that may deliver and a delivery to it, for the samples.\<close>

definition sample_request :: request where
  "sample_request = \<lparr>req_path = (\<lambda>n. if n = ''id'' then ''1'' else ''prod''), req_query = (\<lambda>n. []),
     req_header = (\<lambda>n. ''Bearer secret''), req_cookies = [], req_host = ''promview'',
     req_principal = Some sample_operator\<rparr>"

definition delivering_db :: db where
  "delivering_db = sample_db\<lparr>alert_sources := [sample_source\<lparr>row_token_hash := Some ''secret''\<rparr>]\<rparr>"

definition sample_payload :: Payload where
  "sample_payload =
     \<lparr>pl_Version = ''4'', pl_GroupKey = [], pl_Status = ''firing'', pl_Receiver = [],
      pl_GroupLabels = fmempty, pl_CommonLabels = fmempty, pl_CommonAnnotations = fmempty, pl_ExternalURL = [],
      pl_Alerts = [\<lparr>am_Status = ''firing'', am_Labels = sample_labels,
        am_Annotations = fmempty, am_StartsAt = 5, am_EndsAt = 0, am_GeneratorURL = [], am_Fingerprint = ''f9''\<rparr>]\<rparr>"

section \<open>Lemmas\<close>

lemma exactly_simps [simp]:
  "exactly (BodyValue (Some v) False) = Some v" "exactly BodyInvalid = None" "exactly BodyEmpty = None"
  "exactly (BodyValue None t) = None" "exactly (BodyValue x True) = None"
  by (simp_all add: exactly_def split: option.splits)

lemma validMutationOrigin_principal [simp]:
  "validMutationOrigin url_parse (r\<lparr>req_principal := p\<rparr>) = validMutationOrigin url_parse r"
  by (simp add: validMutationOrigin_def requestBearerToken_def request_cookie_def split: option.splits)

lemma operator_gate_Inr:
  "operator_gate url_parse r = Inr caller \<longleftrightarrow>
     req_principal r = Some caller \<and> CanOperate caller \<and> validMutationOrigin url_parse r"
  by (auto simp: operator_gate_def split: option.splits)

lemma path_id_Inr: "path_id r = Inr i \<longleftrightarrow> ParseInt (req_path r ''id'') = Some i \<and> 1 \<le> i"
  by (auto simp: path_id_def split: option.splits)

text \<open>The four handlers are one: the gate, the id, the body, the store's action.\<close>

lemma action_handler_state:
  "fst (action_handler pgrx rx url_parse canSilence now q r s) =
     (case operator_gate url_parse r of Inl f \<Rightarrow> s | Inr caller \<Rightarrow>
      (case path_id r of Inl f \<Rightarrow> s | Inr i \<Rightarrow>
       (case asked q of None \<Rightarrow> s | Some action \<Rightarrow> fst (single_action pgrx caller i action now s))))"
proof (cases "operator_gate url_parse r")
  case (Inl f)
  then show ?thesis
    by (simp add: action_handler_def closeAlert_def addAlertNote_def assignAlert_def acknowledgeAlert_def
        split: action_body.splits)
next
  case gate: (Inr caller)
  show ?thesis
  proof (cases "path_id r")
    case (Inl f)
    with gate show ?thesis
      by (simp add: action_handler_def closeAlert_def addAlertNote_def assignAlert_def acknowledgeAlert_def
          split: action_body.splits)
  next
    case (Inr i)
    have "fst (acknowledgeAlert pgrx rx url_parse canSilence now body r s) =
        (case exactly body of None \<Rightarrow> s | Some b \<Rightarrow> fst (AcknowledgeAlert pgrx caller i b now s))" for body
      using gate Inr
      by (simp add: acknowledgeAlert_def exactly_def case_prod_unfold Let_def split: body.splits option.splits bool.splits)
    moreover have "fst (closeAlert pgrx rx url_parse canSilence now body r s) =
        (case exactly body of None \<Rightarrow> s | Some b \<Rightarrow> fst (CloseAlert pgrx caller i b now s))" for body
      using gate Inr
      by (simp add: closeAlert_def exactly_def case_prod_unfold Let_def split: body.splits option.splits bool.splits)
    moreover have "fst (assignAlert pgrx rx url_parse canSilence now body r s) =
        (case exactly body of None \<Rightarrow> s | Some b \<Rightarrow> fst (AssignAlert pgrx caller i b now s))" for body
      using gate Inr
      by (simp add: assignAlert_def exactly_def case_prod_unfold Let_def split: body.splits option.splits bool.splits)
    moreover have "fst (addAlertNote pgrx rx url_parse canSilence now body r s) =
        (case exactly body of None \<Rightarrow> s | Some b \<Rightarrow> fst (AddNote pgrx caller i b now s))" for body
      using gate Inr
      by (simp add: addAlertNote_def exactly_def case_prod_unfold Let_def split: body.splits option.splits bool.splits)
    ultimately show ?thesis
      using gate Inr
      by (cases q) (simp_all add: action_handler_def asked_def single_action_def split: option.splits)
  qed
qed

lemma asked_bulk_handler:
  "bulk_handler pgrx url_parse now q r s =
     (case operator_gate url_parse r of Inl f \<Rightarrow> (s, fail f) | Inr caller \<Rightarrow>
      (case asked_bulk q of
         None \<Rightarrow> (s, snd (bulk_handler pgrx url_parse now q r s))
       | Some (ids, action) \<Rightarrow>
           writeBulkResult
             (case action of Acknowledge b \<Rightarrow> ''bulk acknowledge'' | Assign w \<Rightarrow> ''bulk assign''
              | Annotate t \<Rightarrow> ''bulk note'' | Close b \<Rightarrow> ''bulk close'')
             s (bulk_action pgrx caller ids action now s)))"
proof (cases "operator_gate url_parse r")
  case (Inl f)
  then show ?thesis
    by (simp add: bulk_handler_def bulkAcknowledge_def bulkAssign_def bulkClose_def bulkNote_def bulkGate_def
        split: bulk_request.splits)
next
  case (Inr caller)
  show ?thesis
  proof (cases q)
    case (BulkAcknowledgeBody body)
    with Inr show ?thesis
      by (simp add: bulk_handler_def bulkAcknowledge_def bulkGate_def asked_bulk_def bulk_action_def
          split: sum.splits prod.splits option.splits)
  next
    case (BulkAssignBody body)
    with Inr show ?thesis
      by (simp add: bulk_handler_def bulkAssign_def bulkGate_def asked_bulk_def bulk_action_def
          split: sum.splits prod.splits option.splits)
  next
    case (BulkNoteBody body)
    with Inr show ?thesis
      by (simp add: bulk_handler_def bulkNote_def bulkGate_def asked_bulk_def bulk_action_def
          split: sum.splits prod.splits option.splits)
  next
    case (BulkCloseBody body)
    with Inr show ?thesis
      by (simp add: bulk_handler_def bulkClose_def bulkGate_def asked_bulk_def bulk_action_def
          split: sum.splits prod.splits option.splits)
  qed
qed

lemma bulk_handler_nothing:
  "operator_gate url_parse r = Inr caller \<Longrightarrow> asked_bulk q = None \<Longrightarrow>
     \<exists>f. bulk_handler pgrx url_parse now q r s = (s, fail f)"
  by (cases q)
    (auto simp: bulk_handler_def asked_bulk_def bulkAcknowledge_def bulkAssign_def bulkClose_def bulkNote_def
      bulkGate_def fail_def split: sum.splits prod.splits option.splits)

lemma count_outcomes_eq:
  "count_outcomes outcomes (a, u, m) =
     (a + of_status BulkApplied outcomes, u + of_status BulkUnchanged outcomes, m + of_status BulkNotFound outcomes)"
  by (induction outcomes arbitrary: a u m) (auto simp: of_status_def split: BulkStatus.splits)

lemma of_status_sum:
  "of_status BulkApplied outcomes + of_status BulkUnchanged outcomes + of_status BulkNotFound outcomes = length outcomes"
proof (induction outcomes)
  case (Cons x xs)
  then show ?case by (cases "outcome_Status x") (simp_all add: of_status_def)
qed (simp add: of_status_def)

lemma of_status_card:
  assumes "distinct (map outcome_ID outcomes)"
    "\<forall>x \<in> set outcomes. outcome_Status x = st \<longleftrightarrow> P (outcome_ID x)"
  shows "of_status st outcomes = card {i \<in> set (map outcome_ID outcomes). P i}"
proof -
  have "of_status st outcomes = length (filter P (map outcome_ID outcomes))"
    using assms(2) by (simp add: of_status_def filter_map o_def cong: filter_cong)
  also have "\<dots> = card (set (filter P (map outcome_ID outcomes)))"
    using assms(1) by (metis distinct_card distinct_filter)
  finally show ?thesis by (simp add: Int_def conj_commute)
qed

subsection \<open>Deliveries\<close>

lemma drop_enc_id: "\<forall>e \<in> set es. \<not> starts_with e s \<Longrightarrow> drop_enc es s = s"
proof -
  assume "\<forall>e \<in> set es. \<not> starts_with e s"
  then have "find (\<lambda>e. starts_with e s) es = None" by (simp add: find_None_iff)
  then show ?thesis by (cases "length s") (simp_all add: drop_enc_def)
qed

lemma starts_with_chars: "starts_with e s \<Longrightarrow> set e \<subseteq> set s"
  unfolding starts_with_def by (metis set_take_subset)

lemma space_char: "e \<in> set space_encodings \<Longrightarrow> \<exists>c \<in> set e. of_char c \<le> (32 :: nat) \<or> 128 \<le> (of_char c :: nat)"
  by (auto simp: space_encodings_def)

lemma TrimSpace_graphic:
  assumes "\<forall>c \<in> set s. 32 < (of_char c :: nat) \<and> of_char c < (128 :: nat)"
  shows "TrimSpace s = s"
proof -
  have none: "\<not> starts_with e t" if t: "set t = set s" and e: "set e = set e'" "e' \<in> set space_encodings" for t e e'
  proof
    assume "starts_with e t"
    then have "set e' \<subseteq> set s" using starts_with_chars t e(1) by blast
    with space_char [OF e(2)] assms show False by fastforce
  qed
  have "trimLeftSpace s = s" unfolding trimLeftSpace_def using none [of s] by (intro drop_enc_id) blast
  moreover have "trimRightSpace s = s"
    unfolding trimRightSpace_def using none [of "rev s"] by (subst drop_enc_id) auto
  ultimately show ?thesis by (simp add: TrimSpace_def)
qed

lemma slug_trim: "slug_pattern s \<Longrightarrow> TrimSpace s = s \<and> s \<noteq> ''''"
  by (cases s)
    (fastforce intro!: TrimSpace_graphic simp: is_lower_def is_digit_def less_eq_char_def list_all_iff)+

lemma Normalize_slug: "a \<in> set (Normalize sha256 marshal payload slug now) \<Longrightarrow> in_SourceSlug a = slug"
  by (auto simp: Normalize_def normalize_alert_def)

lemma AuthenticateSource_True:
  assumes "AuthenticateSource sha256 slug token s = Inr True"
  shows "\<exists>r \<in> set (alert_sources s). row_slug r = slug \<and> row_enabled r \<and> row_token_hash r = Some (HashToken sha256 token)"
proof -
  let ?p = "\<lambda>r. row_slug r = slug \<and> row_enabled r \<and> row_token_hash r \<noteq> None"
  obtain r rs where rs: "filter ?p (alert_sources s) = r # rs" "row_token_hash r = Some (HashToken sha256 token)"
    using assms by (auto simp: AuthenticateSource_def split: if_splits list.splits)
  have "r \<in> set (filter ?p (alert_sources s))" using rs(1) by simp
  with rs(2) show ?thesis by auto
qed

lemma set_source_slugs: "slug_pattern (row_slug fresh) \<Longrightarrow> (\<And>r. row_slug (f r) = row_slug r) \<Longrightarrow>
    slugs_ok s \<Longrightarrow> slugs_ok (set_source_row fresh f s)"
  by (auto simp: slugs_ok_def set_source_row_def upd_where_def)

lemma SetSource_slugs [keeps]: "slugs_ok s \<Longrightarrow> SetSource url_parse sha256 source token s = Inr s' \<Longrightarrow> slugs_ok s'"
  by (auto simp: SetSource_def Validate_ok split: sum.splits if_splits intro!: set_source_slugs)

lemma BootstrapSource_slugs [keeps]:
  "slugs_ok s \<Longrightarrow> BootstrapSource url_parse sha256 source token s = Inr s' \<Longrightarrow> slugs_ok s'"
  by (auto simp: BootstrapSource_def Validate_ok split: sum.splits if_splits intro!: set_source_slugs)

lemma UpdateSource_slugs [keeps]:
  "slugs_ok s \<Longrightarrow> UpdateSource url_parse slug patch s = Inr s' \<Longrightarrow> slugs_ok s'"
  by (auto simp: UpdateSource_def slugs_ok_def upd_where_def split: sum.splits if_splits)

lemma ingestAlertmanager_cases:
  obtains (refused) f where "ingestAlertmanager sha256 marshal now tooLarge body rest r s = (s, fail f)"
  | (stored) payload s' where
      "AuthenticateSource sha256 (req_path r ''source'') (requestBearerToken r) s = Inr True"
      "Decode body rest = Inr payload"
      "Ingest (Normalize sha256 marshal payload (TrimSpace (req_path r ''source'')) now) s = Inr s'"
      "ingestAlertmanager sha256 marshal now tooLarge body rest r s = (s', Reply 202 (length (pl_Alerts payload)))"
proof (cases "ingestAlertmanager sha256 marshal now tooLarge body rest r s")
  case (Pair s' reply)
  then show thesis
    using refused stored
    by (fastforce simp: ingestAlertmanager_def Let_def Normalize_def fail_def split: sum.splits if_splits)
qed

text \<open>A batch leaves the rows of other keys alone and has a row at each of its keys.\<close>

lemma Ingest_rows:
  assumes "db_ok s" "Ingest alerts s = Inr s'"
  shows "\<And>key. key \<notin> incoming_key ` set alerts \<Longrightarrow> row_at s' key = row_at s key"
    "\<And>a. a \<in> set alerts \<Longrightarrow> row_at s' (incoming_key a) \<noteq> None"
proof -
  have fold: "(\<forall>key. key \<notin> incoming_key ` set as \<longrightarrow> row_at t' key = row_at t key) \<and>
      (\<forall>key. row_at t key \<noteq> None \<longrightarrow> row_at t' key \<noteq> None) \<and>
      (\<forall>a \<in> set as. row_at t' (incoming_key a) \<noteq> None)"
    if "db_ok t" "fold_res ingest_one as t = Inr t'" for as t t'
    using that
  proof (induction as arbitrary: t)
    case (Cons a as)
    then obtain t1 where t1: "ingest_one a t = Inr t1" "fold_res ingest_one as t1 = Inr t'"
      by (auto simp: bind_res_Inr)
    note row = ingest_one_row [OF Cons.prems(1) t1(1)]
    note ih = Cons.IH [OF ingest_one_ok [OF Cons.prems(1) t1(1)] t1(2)]
    have "row_at t' key = row_at t key" if "key \<notin> incoming_key ` set (a # as)" for key
    proof -
      have "row_at t1 key = row_at t key" using that row by auto
      moreover have "row_at t' key = row_at t1 key" 
        using ih that [unfolded list.set image_insert insert_iff] by blast
      ultimately show ?thesis by simp
    qed
    moreover have "row_at t' key \<noteq> None" if "row_at t key \<noteq> None \<or> key = incoming_key a" for key
    proof -
      from that row have "row_at t1 key \<noteq> None" by auto
      with ih show ?thesis by blast
    qed
    ultimately show ?case using ih by simp
  qed auto
  obtain s1 where s1: "fold_res ingest_one alerts s = Inr s1" "alert_rows s' = alert_rows s1"
    using assms(2) by (cases alerts) (auto simp: Ingest_def bind_res_Inr stamp_delivery_def)
  have same: "row_at s' = row_at s1" by (simp add: fun_eq_iff row_at_def s1(2))
  show "row_at s' key = row_at s key" if "key \<notin> incoming_key ` set alerts" for key
    unfolding same using fold [OF assms(1) s1(1)] that by blast
  show "row_at s' (incoming_key a) \<noteq> None" if "a \<in> set alerts" for a
    unfolding same using fold [OF assms(1) s1(1)] that by blast
qed

lemma ingestAlertmanager_accepts:
  assumes "db_ok s" "slugs_ok s"
    "AuthenticateSource sha256 (req_path r ''source'') (requestBearerToken r) s = Inr True"
    "Decode body rest = Inr payload"
    "list_all incoming_texts_ok (Normalize sha256 marshal payload (req_path r ''source'') now)"
  shows "snd (ingestAlertmanager sha256 marshal now tooLarge body rest r s) = Reply 202 (length (pl_Alerts payload))"
proof -
  obtain src where src: "src \<in> set (alert_sources s)" "row_slug src = req_path r ''source''"
    using AuthenticateSource_True [OF assms(3)] by blast
  then have slug: "TrimSpace (req_path r ''source'') = req_path r ''source''" "req_path r ''source'' \<noteq> ''''"
    using assms(2) slug_trim [of "row_slug src"] by (auto simp: slugs_ok_def)
  have "\<forall>a \<in> set (Normalize sha256 marshal payload (req_path r ''source'') now). deliverable a s"
  proof
    fix a
    assume a: "a \<in> set (Normalize sha256 marshal payload (req_path r ''source'') now)"
    then have "incoming_texts_ok a" using assms(5) unfolding list_all_iff by blast
    with Normalize_slug [OF a] src show "deliverable a s" unfolding deliverable_def by (metis imageI)
  qed
  then obtain s' where "Ingest (Normalize sha256 marshal payload (req_path r ''source'') now) s = Inr s'"
    using Ingest_total [OF assms(1)] by blast
  moreover have "length (Normalize sha256 marshal payload (req_path r ''source'') now) = length (pl_Alerts payload)"
    by (simp add: Normalize_def)
  ultimately show ?thesis using assms(3,4) slug by (simp add: ingestAlertmanager_def)
qed

lemma id_roundtrip:
  "0 < ID a \<Longrightarrow> ID a < 2 ^ 63 \<Longrightarrow> ParseInt (resp_ID (newAlertResponse a)) = Some (ID a)"
  by (simp add: newAlertResponse_def Let_def ParseInt_FormatInt int64_range_def)

lemma parse_ids_roundtrip:
  "\<forall>a \<in> set as. 0 < ID a \<and> ID a < 2 ^ 63 \<Longrightarrow>
     parse_ids (map (\<lambda>a. resp_ID (newAlertResponse a)) as) = Inr (map ID as)"
  by (induction as) (simp_all add: id_roundtrip bind_res_def)

lemma path_id_principal [simp]: "path_id (r\<lparr>req_principal := p\<rparr>) = path_id r"
  by (simp add: path_id_def)

subsection \<open>Samples\<close>

lemma sample_bearer: "requestBearerToken sample_request = ''secret''"
  by (simp add: requestBearerToken_def sample_request_def starts_with_def Let_def) code_simp

lemma sample_gate:
  "operator_gate url_parse sample_request = Inr sample_operator" "path_id sample_request = Inr 1"
  "CanRead sample_operator" "CanOperate sample_operator"
proof -
  show "CanRead sample_operator" "CanOperate sample_operator"
    by (simp_all add: CanRead_def CanOperate_def sample_operator_def)
  then show "operator_gate url_parse sample_request = Inr sample_operator"
    by (simp add: operator_gate_Inr validMutationOrigin_def sample_bearer) (simp add: sample_request_def)
  show "path_id sample_request = Inr 1"
    by (simp add: path_id_def sample_request_def ParseInt_def is_digit_def less_eq_char_def decimal_value_def
        digit_value_def int64_range_def)
qed

lemma sample_in_reach: "in_reach (\<lambda>p v. p = v) sample_operator 1 sample_db"
  using sample_operator_reach(1) by (auto simp: in_reach_def sample_rows)

lemma sample_reopened:
  "fst (single_action (\<lambda>p v. p = v) sample_operator 1 (Close False) 300 sample_db) \<noteq> sample_db"
proof -
  have ch: "change_of (Close False) = Inr (close_change False)" "action_fits (Close False)"
    by (simp_all add: change_of_def action_fits_def)
  have "lock_accepted sample_operator" "text_ok (operatorName sample_operator)"
    using lock_accepted_clean [OF sample_operator_known(1)] sample_operator_clean(1)
    by (simp_all add: sample_defs operatorName_def)
  then obtain s' where s': "act_one (\<lambda>p v. p = v) sample_operator (close_change False) 300 1 sample_db = Inr s'"
    using alert_change.act_one_total [OF change_of_contract [OF ch(1)] ch(2) sample_db_ok _ sample_in_reach] by blast
  note k = alert_change.act_one_keeps(3) [OF change_of_contract [OF ch(1)] sample_db_ok s']
  have "\<not> settles (Close False) sample_row" by (simp add: settles_def sample_row_def)
  then have "s' \<noteq> sample_db" using k [of sample_row] by (auto simp: sample_rows)
  then show ?thesis
    by (simp add: single_action_act [OF sample_gate(4)] ch(1) s' commit_and_read_state)
qed

lemma sample_decodes: "Decode (Inr sample_payload) TrailEOF = Inr sample_payload"
proof -
  have "sample_labels \<noteq> fmempty" unfolding sample_labels_def
    by (metis fmempty_lookup fmlookup_of_list map_of_Cons_code(2) option.distinct(1))
  moreover have "TrimSpace ''HighCPU'' \<noteq> ''''" by code_simp
  moreover have "golookup sample_labels ''alertname'' = ''HighCPU''" by (simp add: golookup_def sample_labels_def)
  ultimately show ?thesis by (simp add: Decode_ok validateAlert_ok sample_payload_def)
qed

section \<open>Properties\<close>

text \<open>C13: a request for one of the four actions on an alert changes the database only when it
  is authenticated as a caller with an operator role, its origin is acceptable, its path names an
  alert the caller may operate on, and its body is exactly one value; it then does what the
  store's action does, and nothing to any other alert.\<close>

theorem action_request_scope:
  assumes "db_ok s"
    "requireAuthentication authenticate (action_handler pgrx rx url_parse canSilence now q) r s = (s', reply)"
  shows "db_ok s' \<and>
    (s' \<noteq> s \<longrightarrow>
       (\<exists>caller i action. authenticate r = Inr caller \<and> CanOperate caller \<and> validMutationOrigin url_parse r \<and>
          ParseInt (req_path r ''id'') = Some i \<and> 1 \<le> i \<and> asked q = Some action \<and>
          in_reach pgrx caller i s \<and> s' = fst (single_action pgrx caller i action now s) \<and>
          untouched pgrx caller {i} s s'))"
proof (cases "s' = s")
  case False
  let ?r = "\<lambda>caller. r\<lparr>req_principal := Some caller\<rparr>"
  obtain caller where caller: "authenticate r = Inr caller"
    "s' = fst (action_handler pgrx rx url_parse canSilence now q (?r caller) s)"
    using assms(2) False
    by (auto simp: requireAuthentication_def split: sum.splits auth_error.splits if_splits)
  from caller(2) False obtain i action where
    act: "operator_gate url_parse (?r caller) = Inr caller" "path_id r = Inr i" "asked q = Some action"
      "s' = fst (single_action pgrx caller i action now s)"
    by (auto simp: action_handler_state operator_gate_Inr split: sum.splits option.splits)
  have "in_reach pgrx caller i s" using single_action_out_of_reach [OF assms(1)] act(4) False by blast
  with caller(1) act single_action_ok [OF assms(1), of pgrx caller i action now] show ?thesis
    by (simp add: operator_gate_Inr path_id_Inr)
qed (use assms(1) in simp)

theorem action_request_scope_witness:
  "fst (requireAuthentication (\<lambda>r. Inr sample_operator)
      (action_handler (\<lambda>p v. p = v) (\<lambda>p v. None) (\<lambda>u. None) True 300 (CloseBody (BodyValue (Some False) False)))
      sample_request sample_db) \<noteq> sample_db \<and>
   db_ok (fst (requireAuthentication (\<lambda>r. Inr sample_operator)
      (action_handler (\<lambda>p v. p = v) (\<lambda>p v. None) (\<lambda>u. None) True 300 (CloseBody (BodyValue (Some False) False)))
      sample_request sample_db))"
proof -
  let ?run = "requireAuthentication (\<lambda>r. Inr sample_operator)
      (action_handler (\<lambda>p v. p = v) (\<lambda>p v. None) (\<lambda>u. None) True 300 (CloseBody (BodyValue (Some False) False)))
      sample_request sample_db"
  have "sample_request\<lparr>req_principal := Some sample_operator\<rparr> = sample_request" by (simp add: sample_request_def)
  then have "fst ?run = fst (single_action (\<lambda>p v. p = v) sample_operator 1 (Close False) 300 sample_db)"
    by (simp add: requireAuthentication_def sample_gate action_handler_state asked_def)
  moreover have "db_ok (fst ?run)"
    using action_request_scope [OF sample_db_ok, of "\<lambda>r. Inr sample_operator" "\<lambda>p v. p = v" "\<lambda>p v. None"
        "\<lambda>u. None" True 300 "CloseBody (BodyValue (Some False) False)" sample_request "fst ?run" "snd ?run"]
    by simp
  ultimately show ?thesis using sample_reopened by simp
qed

text \<open>A bulk request that is answered with outcomes has one outcome per distinct id, its
  three counts add up to them, and those it counts as not found are exactly the ids outside the
  caller's operate scope; the answer is 207 when there are any and 200 otherwise. Any other answer
  leaves the database alone.\<close>

theorem bulk_request_counts:
  assumes "db_ok s" "bulk_handler pgrx url_parse now q r s = (s', reply)"
  shows "(case reply of
      Fail status e \<Rightarrow> s' = s
    | Reply status payload \<Rightarrow>
        (\<exists>caller ids action. req_principal r = Some caller \<and> CanOperate caller \<and>
           validMutationOrigin url_parse r \<and> asked_bulk q = Some (ids, action) \<and>
           bulk_action pgrx caller ids action now s = Inr (s', pay_results payload) \<and>
           pay_applied payload + pay_unchanged payload + pay_notFound payload = card (set ids) \<and>
           pay_notFound payload = card {i \<in> set ids. \<not> in_reach pgrx caller i s} \<and>
           status = (if {i \<in> set ids. \<not> in_reach pgrx caller i s} = {} then 200 else 207)))"
proof (cases "operator_gate url_parse r")
  case (Inl f)
  then show ?thesis using assms(2) asked_bulk_handler [of pgrx url_parse now q r s] by (auto simp: fail_def)
next
  case gate: (Inr caller)
  show ?thesis
  proof (cases "asked_bulk q")
    case None
    from bulk_handler_nothing [OF gate None, of pgrx now s] assms(2) show ?thesis by (auto simp: fail_def)
  next
    case (Some p)
    obtain ids action where p: "p = (ids, action)" by (cases p)
    obtain what where handler: "writeBulkResult what s (bulk_action pgrx caller ids action now s) = (s', reply)"
      using assms(2) asked_bulk_handler [of pgrx url_parse now q r s] gate Some p by force
    show ?thesis
    proof (cases "bulk_action pgrx caller ids action now s")
      case (Inl e)
      with handler show ?thesis by (auto simp: writeBulkResult_def fail_def server_error_def)
    next
      case (Inr t)
      obtain s1 outcomes where t: "t = (s1, outcomes)" by (cases t)
      note spec = bulk_action_spec [OF assms(1) Inr [unfolded t]]
      have ids: "set (map outcome_ID outcomes) = set ids" "distinct (map outcome_ID outcomes)"
        using conjunct1 [OF spec] by (simp_all add: comp_def)
      let ?missing = "{i \<in> set ids. \<not> in_reach pgrx caller i s}"
      have m: "of_status BulkNotFound outcomes = card ?missing"
        using of_status_card [OF ids(2), of BulkNotFound "\<lambda>i. \<not> in_reach pgrx caller i s"]
          conjunct1 [OF conjunct2 [OF conjunct2 [OF spec]]] ids(1) by simp
      have n: "length outcomes = card (set ids)" using distinct_card [OF ids(2)] ids(1) by simp
      have "s' = s1" "reply = writeBulkOutcomes outcomes"
        using handler Inr t by (simp_all add: writeBulkResult_def)
      then show ?thesis
        using gate Some p Inr t m n of_status_sum [of outcomes]
        by (simp add: writeBulkOutcomes_def count_outcomes_eq operator_gate_Inr card_gt_0_iff)
    qed
  qed
qed

theorem bulk_request_counts_witness:
  "\<exists>s' payload. bulk_handler (\<lambda>p v. p = v) (\<lambda>u. None) 300
     (BulkCloseBody (BodyValue \<lparr>bulk_IDs = [''1'', ''2'', ''1''], bulk_value = Some False\<rparr> False))
     sample_request sample_db = (s', Reply 207 payload) \<and> pay_notFound payload = 1"
proof -
  let ?q = "BulkCloseBody (BodyValue \<lparr>bulk_IDs = [''1'', ''2'', ''1''], bulk_value = Some False\<rparr> False)"
  have asked: "asked_bulk ?q = Some ([1, 2, 1], Close False)"
    by (simp add: asked_bulk_def decodeBulk_def bulkIDs_def ParseInt_def is_digit_def less_eq_char_def
        decimal_value_def digit_value_def int64_range_def bind_res_def)
  have "lock_accepted sample_operator" "text_ok (operatorName sample_operator)"
    using lock_accepted_clean [OF sample_operator_known(1)] sample_operator_clean(1)
    by (simp_all add: sample_defs operatorName_def)
  then obtain p where p: "bulk_action (\<lambda>p v. p = v) sample_operator [1, 2, 1] (Close False) 300 sample_db = Inr p"
    using alert_change.applyToAlerts_total [OF change_of_contract [of "Close False" "close_change False"]
        _ _ _ sample_db_ok, of sample_operator "[1, 2, 1]" "\<lambda>p v. p = v" 300] sample_gate(4)
    by (auto simp: bulk_action_apply change_of_def maxBulkAlerts_def action_fits_def)
  obtain s' payload status where run: "bulk_handler (\<lambda>p v. p = v) (\<lambda>u. None) 300 ?q sample_request sample_db =
      (s', Reply status payload)"
    using asked_bulk_handler [of "\<lambda>p v. p = v" "\<lambda>u. None" 300 ?q sample_request sample_db] p
    by (cases p) (auto simp: sample_gate asked writeBulkResult_def writeBulkOutcomes_def split: prod.splits)
  have "{i \<in> set [1, 2, 1]. \<not> in_reach (\<lambda>p v. p = v) sample_operator i sample_db} = {2}"
    using sample_in_reach sample_operator_reach(3) by (auto simp: in_reach_def sample_rows)
  with bulk_request_counts [OF sample_db_ok run] run asked show ?thesis
    by (auto simp: sample_request_def)
qed

text \<open>C14: a delivery is answered 202 exactly when its token is that of the enabled source its
  path names, its body decodes and the store takes it. It then writes only alerts of that source,
  and every alert of the payload is stored under its fingerprint. Every other answer leaves the
  database alone. The store takes every payload whose texts a text column can hold.\<close>

theorem delivery_request:
  assumes "db_ok s" "slugs_ok s"
    "ingestAlertmanager sha256 marshal now tooLarge body rest r s = (s', reply)"
  shows "(case reply of
      Fail status e \<Rightarrow> s' = s
    | Reply status accepted \<Rightarrow> status = 202 \<and> db_ok s' \<and>
        (\<exists>src \<in> set (alert_sources s). \<exists>payload. row_slug src = req_path r ''source'' \<and> row_enabled src \<and>
           row_token_hash src = Some (HashToken sha256 (requestBearerToken r)) \<and>
           Decode body rest = Inr payload \<and> accepted = length (pl_Alerts payload) \<and> 0 < accepted \<and>
           (\<forall>key. fst key \<noteq> row_slug src \<longrightarrow> row_at s' key = row_at s key) \<and>
           (\<forall>a \<in> set (Normalize sha256 marshal payload (row_slug src) now).
              fst (incoming_key a) = row_slug src \<and> row_at s' (incoming_key a) \<noteq> None))) \<and>
    (AuthenticateSource sha256 (req_path r ''source'') (requestBearerToken r) s = Inr True \<longrightarrow>
       (\<forall>payload. Decode body rest = Inr payload \<and>
          list_all incoming_texts_ok (Normalize sha256 marshal payload (req_path r ''source'') now) \<longrightarrow>
          reply = Reply 202 (length (pl_Alerts payload))))"
proof
  show "case reply of
      Fail status e \<Rightarrow> s' = s
    | Reply status accepted \<Rightarrow> status = 202 \<and> db_ok s' \<and>
        (\<exists>src \<in> set (alert_sources s). \<exists>payload. row_slug src = req_path r ''source'' \<and> row_enabled src \<and>
           row_token_hash src = Some (HashToken sha256 (requestBearerToken r)) \<and>
           Decode body rest = Inr payload \<and> accepted = length (pl_Alerts payload) \<and> 0 < accepted \<and>
           (\<forall>key. fst key \<noteq> row_slug src \<longrightarrow> row_at s' key = row_at s key) \<and>
           (\<forall>a \<in> set (Normalize sha256 marshal payload (row_slug src) now).
              fst (incoming_key a) = row_slug src \<and> row_at s' (incoming_key a) \<noteq> None))"
  proof (cases rule: ingestAlertmanager_cases [of sha256 marshal now tooLarge body rest r s])
    case (refused f)
    with assms(3) show ?thesis by (auto simp: fail_def)
  next
    case (stored payload s1)
    obtain src where src: "src \<in> set (alert_sources s)" "row_slug src = req_path r ''source''" "row_enabled src"
      "row_token_hash src = Some (HashToken sha256 (requestBearerToken r))"
      using AuthenticateSource_True [OF stored(1)] by blast
    have slug: "TrimSpace (req_path r ''source'') = row_slug src"
      using assms(2) src(1,2) slug_trim by (auto simp: slugs_ok_def)
    let ?alerts = "Normalize sha256 marshal payload (row_slug src) now"
    have ingest: "Ingest ?alerts s = Inr s1" using stored(3) slug by simp
    have keys: "fst (incoming_key a) = row_slug src" if "a \<in> set ?alerts" for a
      using Normalize_slug [OF that] by (simp add: incoming_key_def)
    have "row_at s1 key = row_at s key" if "fst key \<noteq> row_slug src" for key
    proof (rule Ingest_rows(1) [OF assms(1) ingest])
      show "key \<notin> incoming_key ` set ?alerts" using keys that by blast
    qed
    moreover have "row_at s1 (incoming_key a) \<noteq> None" if "a \<in> set ?alerts" for a
      by (rule Ingest_rows(2) [OF assms(1) ingest that])
    moreover have "0 < length (pl_Alerts payload)" using stored(2) by (simp add: Decode_ok)
    moreover have "s' = s1" "reply = Reply 202 (length (pl_Alerts payload))" using assms(3) stored(4) by simp_all
    ultimately show ?thesis
      unfolding \<open>reply = _\<close> \<open>s' = s1\<close> reply.case
      using stored(2) src keys Ingest_ok [OF assms(1) ingest] by blast
  qed
  show "AuthenticateSource sha256 (req_path r ''source'') (requestBearerToken r) s = Inr True \<longrightarrow>
       (\<forall>payload. Decode body rest = Inr payload \<and>
          list_all incoming_texts_ok (Normalize sha256 marshal payload (req_path r ''source'') now) \<longrightarrow>
          reply = Reply 202 (length (pl_Alerts payload)))"
    using ingestAlertmanager_accepts [OF assms(1,2)] assms(3) by (metis snd_conv)
qed

theorem delivery_request_witness:
  "\<exists>s'. ingestAlertmanager id (\<lambda>a. '''') 300 False (Inr sample_payload) TrailEOF sample_request delivering_db =
     (s', Reply 202 1) \<and> row_at s' (''prod'', ''f9'') \<noteq> None \<and> db_ok s'"
proof -
  let ?run = "ingestAlertmanager id (\<lambda>a. '''') 300 False (Inr sample_payload) TrailEOF sample_request delivering_db"
  have ok: "db_ok delivering_db"
    using sample_db_ok by (simp add: delivering_db_def sample_defs db_ok_def sources_ok_def alerts_ok_def stream_ok_def
        history_ok_def notes_ok_def silences_ok_def occurrence_of_def)
  have slugs: "slugs_ok delivering_db"
    by (simp add: slugs_ok_def delivering_db_def sample_source_def is_lower_def less_eq_char_def)
  have path: "req_path sample_request ''source'' = ''prod''" by (simp add: sample_request_def)
  have auth: "AuthenticateSource id ''prod'' ''secret'' delivering_db = Inr True"
    by (simp add: AuthenticateSource_def delivering_db_def sample_source_def HashToken_def)
  have "text_ok (golookup sample_labels k)" for k by (simp add: golookup_def sample_labels_def)
  then have texts: "list_all incoming_texts_ok (Normalize id (\<lambda>a. '''') sample_payload ''prod'' 300)"
    by (simp add: Normalize_def normalize_alert_def sample_payload_def incoming_texts_ok_def)
      (simp add: sample_labels_def jsonb_ok_def sorted_keys_def)
  have one: "length (pl_Alerts sample_payload) = 1" by (simp add: sample_payload_def)
  have run: "?run = (fst ?run, snd ?run)" by simp
  note d = delivery_request [OF ok slugs run]
  have reply: "snd ?run = Reply 202 1" using d auth texts sample_decodes one by (simp add: path sample_bearer)
  have key: "(''prod'', ''f9'') \<in> incoming_key ` set (Normalize id (\<lambda>a. '''') sample_payload ''prod'' 300)"
    by (simp add: Normalize_def normalize_alert_def sample_payload_def incoming_key_def)
  have "row_at (fst ?run) (''prod'', ''f9'') \<noteq> None \<and> db_ok (fst ?run)"
    using d [unfolded reply reply.case path sample_decodes] key by auto
  with reply show ?thesis by (metis prod.collapse)
qed

text \<open>The ids a response carries name the same alerts when a client sends them back, in a
  path and in a selection, for every id an alert can have.\<close>

theorem response_ids_roundtrip:
  assumes "\<forall>a \<in> set as. 0 < ID a \<and> ID a < 2 ^ 63"
  shows "(\<forall>a \<in> set as. \<forall>r. req_path r ''id'' = resp_ID (newAlertResponse a) \<longrightarrow> path_id r = Inr (ID a)) \<and>
    (as \<noteq> [] \<longrightarrow> bulkIDs (map (\<lambda>a. resp_ID (newAlertResponse a)) as) = Inr (map ID as))"
  using assms id_roundtrip parse_ids_roundtrip [OF assms]
  by (auto simp: path_id_Inr bulkIDs_def)

theorem response_ids_roundtrip_witness:
  "bulkIDs (map (\<lambda>a. resp_ID (newAlertResponse a)) [alert_of_row 0 ViewMatchNone sample_row]) = Inr [1]"
  using response_ids_roundtrip [of "[alert_of_row 0 ViewMatchNone sample_row]"]
  by (simp add: alert_of_row_def sample_row_def alert_row.defs)

end
