(* ===== verification/Query_API.thy ===== *)
theory Query_API
  imports Grouping Preferences Alert_API Passwords
begin

text \<open>
  \<open>GET /api/v1/alerts\<close> (\<open>internal/httpapi/server.go\<close>): the query a request asks for, the
  cursors on the wire, and the list and the grouped list it is answered with.

  What is not of this repository is a record: besides what the store's reads need, \<open>time.Parse\<close> with
  \<open>RFC3339Nano\<close>, the quoting of \<open>%q\<close>, and the JSON of a cursor in both directions
  (\<^const>\<open>None\<close> when it cannot be written or read). Replies leave out the JSON of the answer.
\<close>

section \<open>Parsing a query\<close>

record query_env =
  qe_pgrx :: "string \<Rightarrow> string \<Rightarrow> bool"
  qe_rx :: regex
  qe_strxfrm :: "string \<Rightarrow> string"
  qe_format_time :: "instant \<Rightarrow> string"
  qe_go_time :: "string \<Rightarrow> instant option"
  qe_pg_time :: "string \<Rightarrow> instant option"
  qe_digest :: "identity_payload \<Rightarrow> string"
  qe_quote :: "string \<Rightarrow> string"
  qe_cursor_json :: "Cursor \<Rightarrow> string option"
  qe_json_cursor :: "string \<Rightarrow> Cursor option"
  qe_group_json :: "GroupCursor \<Rightarrow> string option"
  qe_json_group :: "string \<Rightarrow> GroupCursor option"

definition parseViewMode :: "request \<Rightarrow> string + string" where
  "parseViewMode r =
     (let mode = query_get r ''view'' in
      if mode = '''' \<or> mode = ''mine'' \<or> mode = ''all'' then Inr mode else Inl ''view must be mine or all'')"

definition viewOptions :: "Principal \<Rightarrow> string \<Rightarrow> preferences_table \<Rightarrow> store_error + ViewOptions option" where
  "viewOptions caller mode t =
     (if Anonymous caller \<or> UserID caller = 0 then Inr None
      else case ReadPreferences caller t of
        Inl ErrNoSubject \<Rightarrow> Inr None
      | Inl e \<Rightarrow> Inl e
      | Inr v \<Rightarrow>
          let saved = EffectiveView v; showAll = (mode = ''all'' \<or> (mode = '''' \<and> \<not> vp_Enabled saved))
          in Inr (Some \<lparr>ShowAll = showAll, FilterCritical = \<not> vp_CriticalBypass saved\<rparr>))"

definition isAlertSort :: "string \<Rightarrow> bool" where
  "isAlertSort name \<longleftrightarrow>
     name \<in> {''lastSeen'', ''startsAt'', ''severity'', ''alertname'', ''summary'', ''status'', ''team'', ''instance'', ''source''}"

definition group_by_text :: "query_env \<Rightarrow> group_by_error \<Rightarrow> string" where
  "group_by_text env e =
     (case e of
        GroupByEmpty \<Rightarrow> ''group by requires at least one key''
      | GroupByTooMany \<Rightarrow> ''group by accepts at most 3 keys''
      | CannotGroupBy key \<Rightarrow> ''cannot group by '' @ qe_quote env key
      | DuplicateGroupKey key \<Rightarrow> ''duplicate group key '' @ qe_quote env key)"

text \<open>\<open>strconv.Atoi\<close> of a severity, which a cursor carries as its rank.\<close>

definition severity_value_ok :: "string \<Rightarrow> bool" where
  "severity_value_ok v = (case ParseInt v of None \<Rightarrow> False | Some n \<Rightarrow> 0 \<le> n \<and> n \<le> 3)"

definition sort_value_ok :: "query_env \<Rightarrow> string \<Rightarrow> string \<Rightarrow> bool" where
  "sort_value_ok env name v =
     (if name = ''lastSeen'' \<or> name = ''startsAt'' then qe_go_time env v \<noteq> None
      else if name = ''severity'' then severity_value_ok v
      else True)"

definition validCursorValue :: "query_env \<Rightarrow> Cursor \<Rightarrow> bool" where
  "validCursorValue env cursor = sort_value_ok env (cursor_Sort cursor) (cursor_Value cursor)"

definition validGroupCursor :: "query_env \<Rightarrow> GroupCursor \<Rightarrow> Query \<Rightarrow> bool" where
  "validGroupCursor env cursor query =
     (let (name, order) = (if query_Sort query = '''' then (''severity'', ''desc'') else (query_Sort query, query_Order query)) in
      if gcursor_Sort cursor \<noteq> name \<or> gcursor_Order cursor \<noteq> order then False
      else if query_Sort query = '''' then gcursor_LatestLastSeen cursor \<noteq> 0
      else sort_value_ok env name (gcursor_Value cursor))"

definition encodeCursor :: "query_env \<Rightarrow> Cursor \<Rightarrow> string option" where
  "encodeCursor env cursor = map_option (base64_encode base64_url) (qe_cursor_json env cursor)"

definition encodeGroupCursor :: "query_env \<Rightarrow> GroupCursor \<Rightarrow> string option" where
  "encodeGroupCursor env cursor = map_option (base64_encode base64_url) (qe_group_json env cursor)"

definition decodeCursor :: "query_env \<Rightarrow> string \<Rightarrow> Cursor option" where
  "decodeCursor env raw =
     (case base64_decode base64_url raw of
        None \<Rightarrow> None
      | Some json \<Rightarrow>
          (case qe_json_cursor env json of
             None \<Rightarrow> None
           | Some cursor \<Rightarrow>
               if cursor_ID cursor < 1 \<or> cursor_LastSeen cursor = 0 \<or> cursor_Sort cursor = '''' \<or> cursor_Order cursor = '''' \<or>
                 cursor_Query cursor = '''' then None else Some cursor))"

definition decodeGroupCursor :: "query_env \<Rightarrow> string \<Rightarrow> GroupCursor option" where
  "decodeGroupCursor env raw =
     (case base64_decode base64_url raw of None \<Rightarrow> None | Some json \<Rightarrow> qe_json_group env json)"

definition parse_limit :: "request \<Rightarrow> string + int" where
  "parse_limit r =
     (let raw = query_get r ''limit'' in
      if raw = '''' then Inr 100
      else case ParseInt raw of
        None \<Rightarrow> Inl ''limit must be between 1 and 500''
      | Some n \<Rightarrow> if n < 1 \<or> 500 < n then Inl ''limit must be between 1 and 500'' else Inr n)"

definition parse_flag :: "string \<Rightarrow> string \<Rightarrow> string + bool option" where
  "parse_flag raw message =
     (if raw = '''' then Inr None
      else if raw = ''true'' \<or> raw = ''false'' then Inr (Some (raw = ''true''))
      else Inl message)"

text \<open>The \<open>groupBy\<close> parameter: keys between commas, each trimmed.\<close>

definition parse_group_by :: "query_env \<Rightarrow> request \<Rightarrow> string + string list" where
  "parse_group_by env r =
     (let raw = TrimSpace (query_get r ''groupBy'') in
      if raw = '''' then Inr []
      else let keys = map TrimSpace (split_at (CHR '','') raw)
           in case ValidateGroupBy keys of Inl e \<Rightarrow> Inl (group_by_text env e) | Inr u \<Rightarrow> Inr keys)"

text \<open>The defaults of sort and order, which a grouped list has only together.\<close>

definition order_defaults :: "Query \<Rightarrow> string + Query" where
  "order_defaults query =
     (if query_GroupBy query = [] then
        Inr (query\<lparr>query_Sort := (if query_Sort query = '''' then DefaultSort else query_Sort query),
                   query_Order := (if query_Order query = '''' then DefaultOrder else query_Order query)\<rparr>)
      else if query_Sort query \<noteq> '''' \<and> query_Order query = '''' then Inr (query\<lparr>query_Order := DefaultOrder\<rparr>)
      else if query_Sort query = '''' \<and> query_Order query \<noteq> '''' then Inl ''order requires sort''
      else Inr query)"

fun parse_matches :: "string list \<Rightarrow> string + LabelMatcher list" where
  "parse_matches [] = Inr []"
| "parse_matches (raw # raws) =
     bind_res (parseLabelMatcher raw) (\<lambda>m. bind_res (parse_matches raws) (\<lambda>ms. Inr (m # ms)))"

definition parse_cursor :: "query_env \<Rightarrow> string \<Rightarrow> Query \<Rightarrow> string + Query" where
  "parse_cursor env raw query =
     (if raw = '''' then Inr query
      else if query_GroupBy query \<noteq> [] then
        (case decodeGroupCursor env raw of
           None \<Rightarrow> Inl ''cursor is invalid''
         | Some cursor \<Rightarrow>
             if gcursor_Query cursor \<noteq> CursorIdentity (qe_digest env) query \<or>
                length (gcursor_Key cursor) \<noteq> length (query_GroupBy query) \<or> \<not> validGroupCursor env cursor query
             then Inl ''cursor does not match query''
             else Inr (query\<lparr>query_GroupCursor := Some cursor\<rparr>))
      else
        (case decodeCursor env raw of
           None \<Rightarrow> Inl ''cursor is invalid''
         | Some cursor \<Rightarrow>
             if cursor_Sort cursor \<noteq> query_Sort query \<or> cursor_Order cursor \<noteq> query_Order query \<or>
                cursor_Query cursor \<noteq> CursorIdentity (qe_digest env) query
             then Inl ''cursor does not match query''
             else if \<not> validCursorValue env cursor then Inl ''cursor is invalid''
             else Inr (query\<lparr>query_Cursor := Some cursor\<rparr>)))"

text \<open>Everything but the cursor.\<close>

definition parse_filters :: "query_env \<Rightarrow> request \<Rightarrow> ViewOptions option \<Rightarrow> string + Query" where
  "parse_filters env r view =
     bind_res (parse_limit r) (\<lambda>limit.
     let status = query_get r ''status'' in
     if status \<notin> {'''', ''firing'', ''resolved'', ''expired''} then Inl ''status must be firing, resolved, or expired''
     else bind_res (parse_flag (query_get r ''suppressed'') ''suppressed must be true or false'') (\<lambda>suppressed.
     bind_res (parse_flag (query_get r ''closed'') ''closed must be true or false'') (\<lambda>closed.
     let query = \<lparr>query_Limit = limit, query_Cursor = None, query_Source = TrimSpace (query_get r ''source''),
           query_Status = status, query_Severity = TrimSpace (query_get r ''severity''),
           query_Team = TrimSpace (query_get r ''team''), query_Suppressed = suppressed, query_Closed = closed,
           query_Matches = [], query_Sort = query_get r ''sort'', query_Order = query_get r ''order'', query_View = view,
           query_GroupBy = [], query_GroupCursor = None\<rparr> in
     if query_Sort query \<noteq> '''' \<and> \<not> isAlertSort (query_Sort query) then Inl ''sort is invalid''
     else if query_Order query \<noteq> '''' \<and> query_Order query \<noteq> ''asc'' \<and> query_Order query \<noteq> ''desc'' then Inl ''order must be asc or desc''
     else bind_res (parse_group_by env r) (\<lambda>keys.
     bind_res (order_defaults (query\<lparr>query_GroupBy := keys\<rparr>)) (\<lambda>query.
     bind_res (parse_matches (req_query r ''match'')) (\<lambda>matches.
     Inr (query\<lparr>query_Matches := matches\<rparr>)))))))"

definition parseAlertQuery :: "query_env \<Rightarrow> request \<Rightarrow> ViewOptions option \<Rightarrow> string + Query" where
  "parseAlertQuery env r view = bind_res (parse_filters env r view) (parse_cursor env (query_get r ''cursor''))"

definition streamCursor :: "request \<Rightarrow> string + int" where
  "streamCursor r =
     (let v = query_get r ''cursor''; v = (if v = '''' then req_header r ''Last-Event-Id'' else v) in
      if v = '''' then Inr 0
      else case ParseInt v of
        None \<Rightarrow> Inl ''stream cursor is invalid''
      | Some c \<Rightarrow> if c < 0 then Inl ''stream cursor is invalid'' else Inr c)"

section \<open>Answering\<close>

record alertGroupResponse =
  gr_Key :: "(string, string) fmap"
  gr_Total :: nat
  gr_Acknowledged :: nat
  gr_Silenced :: nat
  gr_SeverityCounts :: "(string, nat) fmap"
  gr_WorstSeverity :: string
  gr_LatestLastSeen :: instant
  gr_EarliestStartsAt :: instant
  gr_SampleAlertID :: string

definition newAlertGroupResponse :: "Group \<Rightarrow> alertGroupResponse" where
  "newAlertGroupResponse g =
     \<lparr>gr_Key = group_Key g, gr_Total = group_Total g, gr_Acknowledged = group_Acknowledged g, gr_Silenced = group_Silenced g,
      gr_SeverityCounts = group_SeverityCounts g, gr_WorstSeverity = group_WorstSeverity g,
      gr_LatestLastSeen = group_LatestLastSeen g, gr_EarliestStartsAt = group_EarliestStartsAt g,
      gr_SampleAlertID = FormatInt (group_SampleAlertID g)\<rparr>"

datatype list_payload =
  AlertPage "alertResponse list" string "(string, nat) fmap" int nat "ViewSummary option"
| GroupPage "alertGroupResponse list" string "(string, nat) fmap" int nat nat "ViewSummary option"

text \<open>A page cursor as text: empty when there is no further page.\<close>

definition cursor_text :: "('c \<Rightarrow> string option) \<Rightarrow> 'c option \<Rightarrow> string option" where
  "cursor_text encode cursor = (case cursor of None \<Rightarrow> Some '''' | Some c \<Rightarrow> encode c)"

definition listAlertGroups :: "query_env \<Rightarrow> Principal \<Rightarrow> Query \<Rightarrow> db \<Rightarrow> list_payload reply" where
  "listAlertGroups env caller query s =
     (case GroupAlerts (qe_pgrx env) (qe_strxfrm env) (qe_format_time env) (qe_go_time env) (qe_pg_time env) (qe_digest env) caller query s of
        Inl e \<Rightarrow> fail (server_error ''failed to group alerts'')
      | Inr result \<Rightarrow>
          (case cursor_text (encodeGroupCursor env) (groups_NextCursor result) of
             None \<Rightarrow> fail (server_error ''failed to encode cursor'')
           | Some nextCursor \<Rightarrow>
               Reply 200 (GroupPage (map newAlertGroupResponse (groups_Groups result))
                 nextCursor (groups_SeverityCounts result) (groups_StreamCursor result) (groups_TotalAlerts result)
                 (groups_TotalGroups result) (groups_View result))))"

definition listAlerts :: "query_env \<Rightarrow> request \<Rightarrow> preferences_table \<Rightarrow> db \<Rightarrow> list_payload reply" where
  "listAlerts env r t s =
     (case req_principal r of
        None \<Rightarrow> fail (server_error ''principal is unavailable'')
      | Some caller \<Rightarrow>
          (case parseViewMode r of
             Inl message \<Rightarrow> Fail 400 (Message message)
           | Inr mode \<Rightarrow>
               (case viewOptions caller mode t of
                  Inl e \<Rightarrow> fail (server_error ''failed to read view preferences'')
                | Inr view \<Rightarrow>
                    (case parseAlertQuery env r view of
                       Inl message \<Rightarrow> Fail 400 (Message message)
                     | Inr query \<Rightarrow>
                         if query_GroupBy query \<noteq> [] then listAlertGroups env caller query s
                         else
                           (case ListAlerts (qe_pgrx env) (qe_rx env) (qe_strxfrm env) (qe_format_time env) (qe_pg_time env)
                                (qe_digest env) caller query s of
                              Inl e \<Rightarrow> fail (server_error ''failed to query alerts'')
                            | Inr result \<Rightarrow>
                                (case cursor_text (encodeCursor env) (list_NextCursor result) of
                                   None \<Rightarrow> fail (server_error ''failed to encode cursor'')
                                 | Some nextCursor \<Rightarrow>
                                     Reply 200 (AlertPage (map newAlertResponse (list_Alerts result)) nextCursor
                                       (list_SeverityCounts result) (list_StreamCursor result) (list_Total result)
                                       (list_View result))))))))"

section \<open>Specification\<close>

text \<open>The same request with a page cursor, and the list read page by page over HTTP.\<close>

definition with_cursor :: "string option \<Rightarrow> request \<Rightarrow> request" where
  "with_cursor cursor r =
     (case cursor of None \<Rightarrow> r | Some raw \<Rightarrow> r\<lparr>req_query := (req_query r)(''cursor'' := [raw])\<rparr>)"

definition http_list_page ::
  "query_env \<Rightarrow> request \<Rightarrow> preferences_table \<Rightarrow> db \<Rightarrow> string option \<Rightarrow> (alertResponse list \<times> string option) option" where
  "http_list_page env r t s cursor =
     (case listAlerts env (with_cursor cursor r) t s of
        Reply status (AlertPage items nextCursor counts streamed tot view) \<Rightarrow>
          Some (items, if nextCursor = [] then None else Some nextCursor)
      | _ \<Rightarrow> None)"

text \<open>A query as the store is given it: every field in its range, the cursor, if any, bound to it.\<close>

definition filters_ok :: "Query \<Rightarrow> bool" where
  "filters_ok q \<longleftrightarrow>
     1 \<le> query_Limit q \<and> query_Limit q \<le> 500 \<and>
     query_Status q \<in> {[], ''firing'', ''resolved'', ''expired''} \<and>
     length (query_GroupBy q) \<le> 3 \<and> distinct (query_GroupBy q) \<and> list_all IsGroupKey (query_GroupBy q) \<and>
     list_all (\<lambda>m. label_name_pattern (matcher_Name m) \<and> matcher_Operator m \<in> {''='', ''!=''}) (query_Matches q) \<and>
     (if query_GroupBy q = [] \<or> query_Sort q \<noteq> []
      then isAlertSort (query_Sort q) \<and> query_Order q \<in> {''asc'', ''desc''} else query_Order q = [])"

definition query_ok :: "query_env \<Rightarrow> Query \<Rightarrow> bool" where
  "query_ok env q \<longleftrightarrow>
     filters_ok q \<and>
     pred_option (\<lambda>c. query_GroupBy q = [] \<and> 1 \<le> cursor_ID c \<and> cursor_Query c = CursorIdentity (qe_digest env) q \<and>
       cursor_Sort c = query_Sort q \<and> cursor_Order c = query_Order q \<and> validCursorValue env c) (query_Cursor q) \<and>
     pred_option (\<lambda>c. query_GroupBy q \<noteq> [] \<and> gcursor_Query c = CursorIdentity (qe_digest env) q \<and>
       length (gcursor_Key c) = length (query_GroupBy q) \<and> validGroupCursor env c q) (query_GroupCursor q)"

text \<open>A cursor that names the place of some row.\<close>

definition issued :: "query_env \<Rightarrow> Query \<Rightarrow> db \<Rightarrow> Cursor \<Rightarrow> bool" where
  "issued env q s c \<longleftrightarrow> (\<exists>row \<in> set (alert_rows s). c = next_cursor (qe_format_time env) (qe_digest env) q row)"

text \<open>What is asked of the JSON of the cursors that can be handed out: it can be written, not as
  nothing, and is read back.\<close>

definition cursor_codec :: "query_env \<Rightarrow> Cursor \<Rightarrow> bool" where
  "cursor_codec env c \<longleftrightarrow>
     (case qe_cursor_json env c of None \<Rightarrow> False | Some json \<Rightarrow> json \<noteq> [] \<and> qe_json_cursor env json = Some c)"

definition cursor_codec_ok :: "query_env \<Rightarrow> Query \<Rightarrow> db \<Rightarrow> bool" where
  "cursor_codec_ok env q s \<longleftrightarrow>
     (\<forall>row \<in> set (alert_rows s). cursor_codec env (next_cursor (qe_format_time env) (qe_digest env) q row))"

text \<open>The rows a cursor on the wire can name: with an id and a time the decoder takes for present, and
  times that can be read back.\<close>

definition wire_ok :: "query_env \<Rightarrow> alert_row \<Rightarrow> bool" where
  "wire_ok env r \<longleftrightarrow>
     1 \<le> ID r \<and> LastSeen r \<noteq> 0 \<and> qe_go_time env (qe_format_time env (LastSeen r)) \<noteq> None \<and>
     qe_go_time env (qe_format_time env (StartsAt r)) \<noteq> None"

definition wire_cursor :: "query_env \<Rightarrow> Cursor \<Rightarrow> string" where
  "wire_cursor env c = the (encodeCursor env c)"

section \<open>Samples\<close>

definition sample_query_env :: query_env where
  "sample_query_env =
     (let codec = (\<lambda>row. next_cursor FormatInt (\<lambda>p. ''q'') (list_defaults sample_query) row) in
      \<lparr>qe_pgrx = (\<lambda>p v. p = v), qe_rx = (\<lambda>p v. Some (p = v)), qe_strxfrm = id, qe_format_time = FormatInt,
       qe_go_time = ParseInt, qe_pg_time = ParseInt, qe_digest = (\<lambda>p. ''q''), qe_quote = id,
       qe_cursor_json = (\<lambda>c. Some (FormatInt (cursor_ID c))),
       qe_json_cursor = (\<lambda>j. if j = FormatInt 1 then Some (codec sample_row)
                             else if j = FormatInt 2 then Some (codec sample_resolved) else None),
       qe_group_json = (\<lambda>c. None), qe_json_group = (\<lambda>j. None)\<rparr>)"

definition sample_list_request :: request where
  "sample_list_request =
     \<lparr>req_path = (\<lambda>n. []), req_query = (\<lambda>n. if n = ''limit'' then [''1''] else if n = ''closed'' then [''true''] else []),
      req_header = (\<lambda>n. []), req_cookies = [], req_host = [], req_principal = Some sample_reader\<rparr>"

section \<open>Lemmas\<close>

lemma query_get_with_cursor:
  "name \<noteq> ''cursor'' \<Longrightarrow> query_get (with_cursor c r) name = query_get r name"
  "query_get (with_cursor (Some raw) r) ''cursor'' = raw" "query_get (with_cursor None r) ''cursor'' = query_get r ''cursor''"
  by (simp_all add: query_get_def with_cursor_def split: option.splits)

lemma parse_filters_with_cursor: "parse_filters env (with_cursor c r) view = parse_filters env r view"
proof -
  have "req_query (with_cursor c r) ''match'' = req_query r ''match''" by (simp add: with_cursor_def split: option.splits)
  then show ?thesis by (simp add: parse_filters_def parse_limit_def parse_group_by_def query_get_with_cursor Let_def cong: if_cong)
qed

lemma parseLabelMatcher_Inr:
  "parseLabelMatcher raw = Inr m \<Longrightarrow> label_name_pattern (matcher_Name m) \<and> matcher_Operator m \<in> {''='', ''!=''}"
  by (auto simp: parseLabelMatcher_def Let_def split: if_splits option.splits prod.splits)

lemma parse_matches_Inr:
  "parse_matches raws = Inr ms \<Longrightarrow> list_all (\<lambda>m. label_name_pattern (matcher_Name m) \<and> matcher_Operator m \<in> {''='', ''!=''}) ms"
  by (induction raws arbitrary: ms) (auto simp: bind_res_Inr dest!: parseLabelMatcher_Inr)

lemma validate_keys_Inr: "validate_keys keys seen = Inr u \<Longrightarrow> distinct keys \<and> list_all IsGroupKey keys \<and> set keys \<inter> seen = {}"
  by (induction keys seen rule: validate_keys.induct) (auto split: if_splits)

lemma parse_group_by_Inr:
  "parse_group_by env r = Inr keys \<Longrightarrow> length keys \<le> 3 \<and> distinct keys \<and> list_all IsGroupKey keys"
  by (auto simp: parse_group_by_def Let_def ValidateGroupBy_def MaxGroupKeys_def split: if_splits sum.splits dest: validate_keys_Inr)

lemma parse_limit_Inr: "parse_limit r = Inr n \<Longrightarrow> 1 \<le> n \<and> n \<le> 500"
  by (auto simp: parse_limit_def Let_def split: if_splits option.splits)

lemma order_defaults_Inr:
  assumes "order_defaults q = Inr q'" "query_Sort q = [] \<or> isAlertSort (query_Sort q)" "query_Order q \<in> {[], ''asc'', ''desc''}"
  shows "\<exists>name order. q' = q\<lparr>query_Sort := name, query_Order := order\<rparr> \<and>
    (if query_GroupBy q = [] \<or> name \<noteq> [] then isAlertSort name \<and> order \<in> {''asc'', ''desc''} else order = [])"
proof -
  have d: "isAlertSort DefaultSort" "DefaultSort \<noteq> []" "DefaultOrder \<in> {''asc'', ''desc''}"
    by (simp_all add: isAlertSort_def DefaultSort_def DefaultOrder_def)
  define name where "name = (if query_GroupBy q = [] \<and> query_Sort q = [] then DefaultSort else query_Sort q)"
  define order where "order = (if query_Order q = [] \<and> (query_GroupBy q = [] \<or> query_Sort q \<noteq> []) then DefaultOrder else query_Order q)"
  have "q' = q\<lparr>query_Sort := name, query_Order := order\<rparr>"
    using assms(1) by (auto simp: order_defaults_def name_def order_def split: if_splits)
  moreover have "isAlertSort name \<and> order \<in> {''asc'', ''desc''}" if "query_GroupBy q = [] \<or> name \<noteq> []"
    using that assms(2,3) d by (cases "query_Sort q = []"; cases "query_Order q = []") (simp_all add: name_def order_def split: if_splits)
  moreover have "order = []" if "query_GroupBy q \<noteq> []" "name = []"
    using that assms(1) by (auto simp: order_defaults_def name_def order_def split: if_splits)
  ultimately show ?thesis by (intro exI [of _ name] exI [of _ order]) simp
qed

lemma parse_filters_ok:
  assumes "parse_filters env r view = Inr q"
  shows "query_ok env q" "query_Cursor q = None" "query_GroupCursor q = None" "query_View q = view"
proof -
  obtain limit suppressed closed keys q1 matches where
    l: "parse_limit r = Inr limit" "query_get r ''status'' \<in> {[], ''firing'', ''resolved'', ''expired''}" and
    k: "parse_group_by env r = Inr keys" "parse_matches (req_query r ''match'') = Inr matches" "q = q1\<lparr>query_Matches := matches\<rparr>" and
    srt: "query_get r ''sort'' = [] \<or> isAlertSort (query_get r ''sort'')" "query_get r ''order'' \<in> {[], ''asc'', ''desc''}" and
    d: "order_defaults \<lparr>query_Limit = limit, query_Cursor = None, query_Source = TrimSpace (query_get r ''source''),
           query_Status = query_get r ''status'', query_Severity = TrimSpace (query_get r ''severity''),
           query_Team = TrimSpace (query_get r ''team''), query_Suppressed = suppressed, query_Closed = closed,
           query_Matches = [], query_Sort = query_get r ''sort'', query_Order = query_get r ''order'', query_View = view,
           query_GroupBy = keys, query_GroupCursor = None\<rparr> = Inr q1"
    using assms by (auto simp: parse_filters_def bind_res_Inr Let_def split: if_splits)
  from order_defaults_Inr [OF d] srt obtain name order where n:
    "q = \<lparr>query_Limit = limit, query_Cursor = None, query_Source = TrimSpace (query_get r ''source''),
           query_Status = query_get r ''status'', query_Severity = TrimSpace (query_get r ''severity''),
           query_Team = TrimSpace (query_get r ''team''), query_Suppressed = suppressed, query_Closed = closed,
           query_Matches = matches, query_Sort = name, query_Order = order, query_View = view,
           query_GroupBy = keys, query_GroupCursor = None\<rparr>"
    "if keys = [] \<or> name \<noteq> [] then isAlertSort name \<and> order \<in> {''asc'', ''desc''} else order = []"
    by (auto simp: k(3))
  show "query_Cursor q = None" "query_GroupCursor q = None" "query_View q = view" by (simp_all add: n(1))
  have "filters_ok q"
    unfolding filters_ok_def n(1) using n(2) l(2) parse_limit_Inr [OF l(1)] parse_group_by_Inr [OF k(1)] parse_matches_Inr [OF k(2)]
    by (cases "keys = [] \<or> name \<noteq> []") auto
  then show "query_ok env q" by (simp add: query_ok_def n(1))
qed

lemma CursorIdentity_cursor [simp]:
  "CursorIdentity digest (q\<lparr>query_Cursor := c\<rparr>) = CursorIdentity digest q"
  "CursorIdentity digest (q\<lparr>query_GroupCursor := g\<rparr>) = CursorIdentity digest q"
  by (simp_all add: CursorIdentity_def cursor_payload_def)

lemma validGroupCursor_cursor [simp]: "validGroupCursor env c (q\<lparr>query_GroupCursor := g\<rparr>) = validGroupCursor env c q"
  by (simp add: validGroupCursor_def)

lemma filters_ok_cursor [simp]:
  "filters_ok (q\<lparr>query_Cursor := c\<rparr>) = filters_ok q" "filters_ok (q\<lparr>query_GroupCursor := g\<rparr>) = filters_ok q"
  by (simp_all add: filters_ok_def)

lemma decodeCursor_id: "decodeCursor env raw = Some c \<Longrightarrow> 1 \<le> cursor_ID c"
  by (auto simp: decodeCursor_def split: option.splits if_splits)

lemma parse_cursor_ok:
  assumes "parse_cursor env raw q = Inr q'" "query_ok env q" "query_Cursor q = None" "query_GroupCursor q = None"
  shows "query_ok env q' \<and> query_View q' = query_View q"
proof (cases "raw = []")
  case True
  then show ?thesis using assms(1,2) by (simp add: parse_cursor_def)
next
  case False
  then consider c where "query_GroupBy q \<noteq> []" "gcursor_Query c = CursorIdentity (qe_digest env) q"
      "length (gcursor_Key c) = length (query_GroupBy q)" "validGroupCursor env c q" "q' = q\<lparr>query_GroupCursor := Some c\<rparr>"
    | c where "query_GroupBy q = []" "decodeCursor env raw = Some c" "cursor_Sort c = query_Sort q" "cursor_Order c = query_Order q"
      "cursor_Query c = CursorIdentity (qe_digest env) q" "validCursorValue env c" "q' = q\<lparr>query_Cursor := Some c\<rparr>"
    using assms(1) by (auto simp: parse_cursor_def split: if_splits option.splits)
  then show ?thesis
  proof cases
    case (1 c)
    then show ?thesis using assms(2,3) unfolding query_ok_def 1(5) by simp
  next
    case (2 c)
    then show ?thesis using assms(2,4) decodeCursor_id [OF 2(2)] unfolding query_ok_def 2(7) by simp
  qed
qed

lemma isAlertSort_sorts: "isAlertSort name \<longleftrightarrow> alertSorts name \<noteq> None" "isAlertSort name \<Longrightarrow> name \<noteq> []"
  by (simp_all add: isAlertSort_def alertSorts_def map_of_eq_None_iff) auto

lemma list_defaults_id: "query_Sort q \<noteq> [] \<Longrightarrow> query_Order q \<noteq> [] \<Longrightarrow> list_defaults q = q"
  by (simp add: list_defaults_def)

lemma filters_ok_flat:
  assumes "filters_ok q" "query_GroupBy q = []"
  shows "list_defaults q = q" "alertSorts (query_Sort q) \<noteq> None" "1 \<le> query_Limit q" "query_Sort q \<noteq> []" "query_Order q \<noteq> []"
proof -
  have "isAlertSort (query_Sort q)" "query_Order q \<noteq> []" "1 \<le> query_Limit q" using assms by (auto simp: filters_ok_def)
  then show "list_defaults q = q" "alertSorts (query_Sort q) \<noteq> None" "1 \<le> query_Limit q" "query_Sort q \<noteq> []" "query_Order q \<noteq> []"
    using isAlertSort_sorts [of "query_Sort q"] list_defaults_id [of q] by blast+
qed

subsection \<open>Cursors that were issued\<close>

lemma select_rows_subset: "select_rows pgrx condition s = Inr rows \<Longrightarrow> set rows \<subseteq> set (alert_rows s)"
  by (auto simp: select_rows_def split: if_splits)

lemma page_of_next:
  assumes "page_of format_time digest p rows = Inr (items, Some c)" "1 \<le> query_Limit p"
  shows "items \<noteq> [] \<and> set items \<subseteq> set rows \<and> c = next_cursor format_time digest p (last items)"
  using assms by (auto simp: page_of_def Let_def split: if_splits dest: in_set_takeD)

lemma ListAlerts_next:
  assumes "ListAlerts pgrx rx strxfrm format_time pg_time digest caller p s = Inr result" "list_NextCursor result = Some c"
    "1 \<le> query_Limit p"
  shows "\<exists>row \<in> set (alert_rows s). c = next_cursor format_time digest (list_defaults p) row"
proof -
  obtain rows after items where
    r: "select_rows pgrx (alertFiltersWithView caller (list_defaults p) (resolveView caller (query_View p)) viewApply) s = Inr rows" and
    p: "page_of format_time digest (list_defaults p)
       (ordered_rows strxfrm (query_Sort (list_defaults p)) (query_Order (list_defaults p)) (filter after rows)) = Inr (items, Some c)"
    using assms(1,2) by (auto simp: ListAlerts_def Let_def bind_res_Inr split: option.splits if_splits prod.splits)
  have "1 \<le> query_Limit (list_defaults p)" using assms(3) by (simp add: list_defaults_def)
  note n = page_of_next [OF p this]
  have "set items \<subseteq> set rows" using n by (auto simp: ordered_rows_def Let_def split: if_splits)
  then have "last items \<in> set (alert_rows s)" using n select_rows_subset [OF r] last_in_set by blast
  then show ?thesis using n by blast
qed

lemma severity_values_ok: "v \<in> {''0'', ''1'', ''2'', ''3''} \<Longrightarrow> severity_value_ok v"
  by (auto simp: severity_value_ok_def ParseInt_def is_digit_def less_eq_char_def decimal_value_def digit_value_def int64_range_def)

lemma alertCursorValue_ok: "wire_ok env r \<Longrightarrow> sort_value_ok env name (alertCursorValue (qe_format_time env) r name)"
  by (auto simp: sort_value_ok_def alertCursorValue_def wire_ok_def Let_def intro!: severity_values_ok)

lemma wire_cursor_encodes:
  assumes "cursor_codec env c"
  shows "encodeCursor env c = Some (wire_cursor env c)" "wire_cursor env c \<noteq> []"
    "base64_decode base64_url (wire_cursor env c) = qe_cursor_json env c" "Option.bind (qe_cursor_json env c) (qe_json_cursor env) = Some c"
proof -
  obtain json where j: "qe_cursor_json env c = Some json" "json \<noteq> []" "qe_json_cursor env json = Some c"
    using assms by (auto simp: cursor_codec_def split: option.splits)
  then have "wire_cursor env c = base64_encode base64_url json" by (simp add: wire_cursor_def encodeCursor_def)
  then show "encodeCursor env c = Some (wire_cursor env c)" "wire_cursor env c \<noteq> []"
    "base64_decode base64_url (wire_cursor env c) = qe_cursor_json env c" "Option.bind (qe_cursor_json env c) (qe_json_cursor env) = Some c"
    using j by (simp_all add: encodeCursor_def base64_roundtrip alphabets_ok)
qed

lemma issued_codec: "cursor_codec_ok env q s \<Longrightarrow> issued env q s c \<Longrightarrow> cursor_codec env c"
  by (auto simp: cursor_codec_ok_def issued_def)

lemma next_cursor_query [simp]: "next_cursor format_time digest (q\<lparr>query_Cursor := c\<rparr>) row = next_cursor format_time digest q row"
  by (simp add: next_cursor_def)

lemma list_page_issues:
  assumes "list_page (qe_pgrx env) (qe_rx env) (qe_strxfrm env) (qe_format_time env) (qe_pg_time env) (qe_digest env) caller q s c =
      Some (items, Some c')" "filters_ok q" "query_GroupBy q = []"
  shows "issued env q s c'"
proof -
  have "list_defaults (q\<lparr>query_Cursor := c\<rparr>) = q\<lparr>query_Cursor := c\<rparr>" "1 \<le> query_Limit (q\<lparr>query_Cursor := c\<rparr>)"
    using filters_ok_flat [OF assms(2,3)] by (simp_all add: list_defaults_id)
  moreover obtain result where
    "ListAlerts (qe_pgrx env) (qe_rx env) (qe_strxfrm env) (qe_format_time env) (qe_pg_time env) (qe_digest env) caller
       (q\<lparr>query_Cursor := c\<rparr>) s = Inr result" "list_NextCursor result = Some c'"
    using assms(1) by (auto simp: list_page_def split: sum.splits)
  ultimately show ?thesis using ListAlerts_next by (fastforce simp: issued_def)
qed

text \<open>A cursor that was handed out is accepted with the same query.\<close>

lemma issued_accepted:
  assumes "cursor_codec_ok env q s" "issued env q s c" "\<forall>r \<in> set (alert_rows s). wire_ok env r" "filters_ok q" "query_GroupBy q = []"
    "\<forall>p. qe_digest env p \<noteq> []"
  shows "parse_cursor env (wire_cursor env c) q = Inr (q\<lparr>query_Cursor := Some c\<rparr>)"
proof -
  obtain row where row: "wire_ok env row" "c = next_cursor (qe_format_time env) (qe_digest env) q row"
    using assms(2,3) unfolding issued_def by blast
  note codec = wire_cursor_encodes [OF issued_codec [OF assms(1,2)]]
  note flat = filters_ok_flat [OF assms(4,5)]
  have fields: "1 \<le> cursor_ID c" "cursor_LastSeen c \<noteq> 0" "cursor_Sort c = query_Sort q" "cursor_Order c = query_Order q"
    "cursor_Query c = CursorIdentity (qe_digest env) q" "validCursorValue env c"
    using row(1) alertCursorValue_ok [OF row(1)] by (simp_all add: row(2) next_cursor_def wire_ok_def validCursorValue_def)
  have "cursor_Query c \<noteq> []" using fields(5) assms(6) by (simp add: CursorIdentity_def)
  moreover obtain json where "qe_cursor_json env c = Some json" "qe_json_cursor env json = Some c"
    using codec(4) by (auto simp: bind_eq_Some_conv)
  ultimately have "decodeCursor env (wire_cursor env c) = Some c"
    using codec(3) fields flat(4,5) by (simp add: decodeCursor_def)
  then show ?thesis
    using codec(2) assms(5) fields by (simp add: parse_cursor_def)
qed

lemma listAlerts_page:
  assumes "req_principal r = Some caller" "parseViewMode r = Inr mode" "viewOptions caller mode t = Inr view"
    "parse_filters env r view = Inr q" "parse_cursor env (query_get (with_cursor raw r) ''cursor'') q = Inr (q\<lparr>query_Cursor := c\<rparr>)"
    "query_GroupBy q = []" "filters_ok q" "cursor_codec_ok env q s"
  shows "http_list_page env r t s raw =
    map_option (\<lambda>(items, nxt). (map newAlertResponse items, map_option (wire_cursor env) nxt))
      (list_page (qe_pgrx env) (qe_rx env) (qe_strxfrm env) (qe_format_time env) (qe_pg_time env) (qe_digest env) caller q s c)"
proof -
  have "parseViewMode (with_cursor raw r) = Inr mode" using assms(2) by (simp add: parseViewMode_def query_get_with_cursor)
  moreover have "req_principal (with_cursor raw r) = Some caller" using assms(1) by (simp add: with_cursor_def split: option.splits)
  moreover have "parseAlertQuery env (with_cursor raw r) view = Inr (q\<lparr>query_Cursor := c\<rparr>)"
    using assms(4,5) by (simp add: parseAlertQuery_def parse_filters_with_cursor)
  moreover have "encodeCursor env c' = Some (wire_cursor env c') \<and> wire_cursor env c' \<noteq> []"
    if "ListAlerts (qe_pgrx env) (qe_rx env) (qe_strxfrm env) (qe_format_time env) (qe_pg_time env) (qe_digest env) caller
       (q\<lparr>query_Cursor := c\<rparr>) s = Inr result" "list_NextCursor result = Some c'" for result c'
  proof -
    have "list_page (qe_pgrx env) (qe_rx env) (qe_strxfrm env) (qe_format_time env) (qe_pg_time env) (qe_digest env) caller q s c =
      Some (list_Alerts result, Some c')" using that by (simp add: list_page_def)
    then have "cursor_codec env c'" using issued_codec [OF assms(8)] list_page_issues assms(6,7) by blast
    then show ?thesis by (simp add: wire_cursor_encodes)
  qed
  ultimately show ?thesis
    using assms(3,6)
    by (auto simp: http_list_page_def listAlerts_def list_page_def cursor_text_def fail_def server_error_def split: sum.splits option.splits)
qed

lemma read_pages_simulated:
  assumes "\<And>c. case c of None \<Rightarrow> True | Some c' \<Rightarrow> good c' \<Longrightarrow>
      fetch' (map_option enc c) = map_option (\<lambda>(items, nxt). (map f items, map_option enc nxt)) (fetch c)"
    "\<And>c items c'. fetch c = Some (items, Some c') \<Longrightarrow> good c'"
    "case c of None \<Rightarrow> True | Some c' \<Rightarrow> good c'"
  shows "read_pages fetch' n (map_option enc c) = map_option (map (map f)) (read_pages fetch n c)"
  using assms(3)
proof (induction n arbitrary: c)
  case (Suc n)
  show ?case
  proof (cases "fetch c")
    case None
    then show ?thesis using assms(1) [OF Suc.prems] by simp
  next
    case (Some p)
    obtain items nxt where p: "p = (items, nxt)" by fastforce
    show ?thesis
    proof (cases nxt)
      case None
      then show ?thesis using assms(1) [OF Suc.prems] by (simp add: Some p)
    next
      case (Some c')
      then have "good c'" using assms(2) \<open>fetch c = Some p\<close> p by blast
      then have "read_pages fetch' n (Some (enc c')) = map_option (map (map f)) (read_pages fetch n (Some c'))"
        using Suc.IH [of "Some c'"] by simp
      then show ?thesis
        using assms(1) [OF Suc.prems] \<open>fetch c = Some p\<close> by (simp add: p Some option.map_comp comp_def)
    qed
  qed
qed simp

lemma parseAlertQuery_ok: "parseAlertQuery env r view = Inr q \<Longrightarrow> query_ok env q \<and> query_View q = view"
  unfolding parseAlertQuery_def bind_res_Inr using parse_filters_ok parse_cursor_ok by blast

lemma resp_ids: "map resp_ID (map newAlertResponse items) = map (\<lambda>r. FormatInt (ID r)) (map alert_row.truncate items)"
  by (simp add: newAlertResponse_def Let_def alert_row.defs)

section \<open>Properties\<close>

text \<open>The query a request is read as. Whatever the parameters of a request are, the query handed
  to the store has a limit between 1 and 500, a known status, at most three distinct group keys, label
  matchers with a valid name and a supported operator, and an order that goes with its sort; its cursor,
  if it has one, is of the kind of list asked for, was issued for the same filters, and its value is one
  the sort can take; the caller's view is the one resolved for the caller.\<close>

theorem parsed_query_ok:
  assumes "parseAlertQuery env r view = Inr q"
  shows "query_ok env q \<and> query_View q = view \<and>
    (query_GroupBy q = [] \<longrightarrow> list_defaults q = q \<and> alertSorts (query_Sort q) \<noteq> None)"
  using parseAlertQuery_ok [OF assms] filters_ok_flat [of q] by (simp add: query_ok_def)

text \<open>C20: paging over HTTP. A client that asks for the list and follows the \<open>nextCursor\<close> of each answer, while the database does not
  change, is answered every time, and sees every alert its query selects exactly once, in the order asked for. The cursors go
  through JSON and base64 and are checked against the query when they come back. The cursor of every row must state its position
  exactly: in the order of severity no alert may have a severity label that is present and empty, for then the list does skip alerts
  (\<open>severity_pages_skip\<close>); texts sorted by must be storable, times must survive being written and read back and ids be positive.\<close>

theorem http_pages_complete:
  assumes "req_principal r = Some caller" "parseViewMode r = Inr mode" "viewOptions caller mode t = Inr view"
    "parseAlertQuery env r view = Inr q" "query_get r ''cursor'' = []" "query_GroupBy q = []" "http_list_page env r t s None = Some first"
    "db_ok s" "\<forall>row \<in> set (alert_rows s). times_exact (qe_format_time env) (qe_pg_time env) row \<and>
       cursor_exact (qe_format_time env) (query_Sort q) row \<and> wire_ok env row"
    "cursor_codec_ok env q s" "\<forall>p. qe_digest env p \<noteq> []" "length (alert_rows s) < n"
  shows "\<exists>pages. read_pages (http_list_page env r t s) n None = Some pages \<and>
    map resp_ID (concat pages) = map (\<lambda>row. FormatInt (ID row)) (listed_rows (qe_pgrx env) (qe_strxfrm env) caller q s) \<and>
    (\<forall>p \<in> set (butlast pages). length p = nat (query_Limit q))"
proof -
  let ?fetch = "list_page (qe_pgrx env) (qe_rx env) (qe_strxfrm env) (qe_format_time env) (qe_pg_time env) (qe_digest env) caller q s"
  let ?L = "listed_rows (qe_pgrx env) (qe_strxfrm env) caller q s"
  have f: "parse_filters env r view = Inr q" using assms(4,5) by (simp add: parseAlertQuery_def bind_res_Inr parse_cursor_def)
  have ok: "filters_ok q" "query_Cursor q = None" using parse_filters_ok [OF f] by (simp_all add: query_ok_def)
  note flat = filters_ok_flat [OF ok(1) assms(6)]
  have no_cursor: "q\<lparr>query_Cursor := None\<rparr> = q" using ok(2) by (cases q) simp
  have page: "http_list_page env r t s (map_option (wire_cursor env) c) =
      map_option (\<lambda>(items, nxt). (map newAlertResponse items, map_option (wire_cursor env) nxt)) (?fetch c)"
    if "case c of None \<Rightarrow> True | Some c' \<Rightarrow> issued env q s c'" for c
  proof (rule listAlerts_page [OF assms(1-3) f _ assms(6) ok(1) assms(10)])
    show "parse_cursor env (query_get (with_cursor (map_option (wire_cursor env) c) r) ''cursor'') q = Inr (q\<lparr>query_Cursor := c\<rparr>)"
      using that assms(5,9) ok issued_accepted [OF assms(10) _ _ ok(1) assms(6,11)]
      by (cases c) (simp_all add: query_get_with_cursor parse_cursor_def)
  qed
  obtain result where "ListAlerts (qe_pgrx env) (qe_rx env) (qe_strxfrm env) (qe_format_time env) (qe_pg_time env) (qe_digest env)
      caller q s = Inr result"
    using page [of None] assms(7) no_cursor by (auto simp: list_page_def split: sum.splits)
  moreover have "length ?L < n" using assms(12) by (auto simp: listed_rows_def intro: le_less_trans [OF length_filter_le])
  ultimately obtain pages where p: "read_pages ?fetch n None = Some pages" "map alert_row.truncate (concat pages) = ?L"
    "\<forall>p \<in> set (butlast pages). length p = nat (query_Limit q)"
    using list_pages_from [of "qe_pgrx env" "qe_rx env" "qe_strxfrm env" "qe_format_time env" "qe_pg_time env" "qe_digest env" caller q s result n]
      ok(2) flat(1,3) assms(8,9) by (auto simp: db_ok_def)
  have "read_pages (http_list_page env r t s) n (map_option (wire_cursor env) None) =
      map_option (map (map newAlertResponse)) (read_pages ?fetch n None)"
    using page list_page_issues [OF _ ok(1) assms(6)]
    by (intro read_pages_simulated [where good = "issued env q s" and fetch = ?fetch]) (blast | simp)+
  moreover have "map resp_ID (concat (map (map newAlertResponse) pages)) = map (\<lambda>row. FormatInt (ID row)) ?L"
    using resp_ids [of "concat pages"] by (simp only: map_concat [symmetric] p(2))
  ultimately show ?thesis using p(1,3) by (auto simp: map_butlast [symmetric])
qed

lemma TrimSpace_Nil [simp]: "TrimSpace [] = []"
  by code_simp

lemma FormatInt_two: "FormatInt 2 \<noteq> FormatInt 1" "FormatInt i \<noteq> []"
  by code_simp (simp add: FormatInt_def conjunct2 [OF format_nat_digits])

lemma sample_parsed: "parseAlertQuery sample_query_env sample_list_request None = Inr (list_defaults sample_query)"
  by (simp add: parseAlertQuery_def parse_filters_def parse_cursor_def parse_limit_def parse_flag_def parse_group_by_def
      order_defaults_def sample_list_request_def query_get_def Let_def bind_res_def ParseInt_def is_digit_def
      less_eq_char_def decimal_value_def digit_value_def int64_range_def list_defaults_def sample_query_def)

theorem parsed_query_ok_witness: "query_ok sample_query_env (list_defaults sample_query)"
  using parsed_query_ok [OF sample_parsed] by simp

theorem http_pages_complete_witness:
  "\<exists>pages. read_pages (http_list_page sample_query_env sample_list_request (\<lambda>_. None) sample_db) 3 None = Some pages \<and>
    map resp_ID (concat pages) = [FormatInt 2, FormatInt 1]"
proof -
  let ?q = "list_defaults sample_query"
  have q: "?q = sample_query\<lparr>query_Sort := DefaultSort, query_Order := DefaultOrder\<rparr>"
    by (simp add: list_defaults_def sample_query_def)
  have r: "req_principal sample_list_request = Some sample_reader" "parseViewMode sample_list_request = Inr []"
    "viewOptions sample_reader [] (\<lambda>_. None) = Inr None" "query_get sample_list_request ''cursor'' = []" "query_GroupBy ?q = []"
    by (simp_all add: sample_list_request_def parseViewMode_def query_get_def viewOptions_def sample_reader_def list_defaults_def sample_query_def)
  have wire: "\<forall>row \<in> set (alert_rows sample_db). times_exact (qe_format_time sample_query_env) (qe_pg_time sample_query_env) row \<and>
       cursor_exact (qe_format_time sample_query_env) (query_Sort ?q) row \<and> wire_ok sample_query_env row"
    by (simp add: sample_query_env_def Let_def sample_defs times_exact_def ParseInt_FormatInt int64_range_def cursor_exact_def
        wire_ok_def q DefaultSort_def alertSorts_def)
  have codec: "cursor_codec_ok sample_query_env ?q sample_db" "\<forall>p. qe_digest sample_query_env p \<noteq> []"
    by (simp_all add: cursor_codec_ok_def cursor_codec_def sample_query_env_def Let_def sample_rows next_cursor_def FormatInt_two)
  have accepted: "\<exists>result. ListAlerts pgrx rx strxfrm ft pt digest sample_reader ?q s = Inr result" for pgrx rx strxfrm ft pt digest s
    using sample_pages_accepted [of pgrx rx strxfrm ft pt digest s] by (simp add: ListAlerts_def list_defaults_id q DefaultSort_def DefaultOrder_def)
  have f: "parse_filters sample_query_env sample_list_request None = Inr ?q"
    "parse_cursor sample_query_env (query_get (with_cursor None sample_list_request) ''cursor'') ?q = Inr (?q\<lparr>query_Cursor := None\<rparr>)"
    "filters_ok ?q" and no_cursor: "?q\<lparr>query_Cursor := None\<rparr> = ?q"
    using sample_parsed r(4) parseAlertQuery_ok [OF sample_parsed]
    by (simp_all add: parseAlertQuery_def bind_res_Inr query_get_with_cursor parse_cursor_def query_ok_def) (simp_all add: q sample_query_def)
  have listed: "listed_rows pgrx strxfrm sample_reader ?q sample_db = [sample_resolved, sample_row]" for pgrx strxfrm
    using sample_pages_listed [of pgrx strxfrm] by (simp add: listed_rows_def list_defaults_id q DefaultSort_def DefaultOrder_def)
  obtain result where "ListAlerts (qe_pgrx sample_query_env) (qe_rx sample_query_env) (qe_strxfrm sample_query_env)
      (qe_format_time sample_query_env) (qe_pg_time sample_query_env) (qe_digest sample_query_env) sample_reader ?q sample_db = Inr result"
    using accepted by blast
  then obtain first where "http_list_page sample_query_env sample_list_request (\<lambda>_. None) sample_db None = Some first"
    using listAlerts_page [OF r(1-3) f(1) f(2) r(5) f(3) codec(1)] by (simp add: list_page_def no_cursor)
  then show ?thesis
    using http_pages_complete [OF r(1-3) sample_parsed r(4,5) _ sample_db_ok wire codec, of first 3] listed
    by (auto simp: sample_rows)
qed

end
