(* ===== verification/Event_Stream.thy ===== *)
theory Event_Stream
  imports Retention Query_API
begin

text \<open>
  The event stream: \<open>StreamEvents\<close> of \<open>internal/postgres/store.go\<close> and \<open>streamAlerts\<close> of
  \<open>internal/httpapi/server.go\<close>.

  \<open>StreamEvents\<close> issues two statements outside a transaction, so it is given two states of the
  database: \<open>s1\<close> for the window and the watermark, \<open>s2\<close> for the rows, with the access tables \<open>a\<close>
  in between. One round of the loop of \<open>streamAlerts\<close> is a function of what the round meets: the readings
  of the clock, whether the client is still there, what authentication answers, and those states. A
  run of the loop is a list of such rounds, and the frames written are what the client sees.
\<close>

section \<open>Batches\<close>

datatype stream_error = StreamDatabase | StreamAccess access_error

text \<open>The largest id among the first \<open>limit\<close> events after \<open>afterID\<close>, which is \<open>afterID\<close> itself when
  there is none.\<close>

definition stream_window :: "int \<Rightarrow> nat \<Rightarrow> db \<Rightarrow> int" where
  "stream_window afterID limit s =
     (let candidates = take limit (sort (filter (\<lambda>i. afterID < i) (map ev_id (stream_events s))))
      in if candidates = [] then afterID else Max (set candidates))"

text \<open>The scope condition on one column, with the view's condition when the view filters.\<close>

definition stream_condition :: "Principal \<Rightarrow> resolvedView \<Rightarrow> label_col \<Rightarrow> arg list \<Rightarrow> sql \<times> arg list" where
  "stream_condition caller view col args =
     (let (access, args1) = readAccessCondition caller col args in
      if view_filtering view
      then (let (condition, args2) = visibleCondition view col args1 in (SqlAnd [access, condition], args2))
      else (access, args1))"

definition stream_event :: "regex \<Rightarrow> Principal \<Rightarrow> resolvedView \<Rightarrow> stream_row \<Rightarrow> StreamEvent" where
  "stream_event rx caller view e =
     (let sees = (\<lambda>l. CanReadLabels rx caller l \<and> view_includes rx view l);
          visible = sees (ev_labels e);
          wasVisible = (case ev_previous_labels e of None \<Rightarrow> False | Some l \<Rightarrow> sees l)
      in if \<not> visible \<and> wasVisible
         then \<lparr>event_ID = ev_id e, event_Type = ''alert.removed'', event_AlertID = ev_alert_id e, event_OccurredAt = ev_occurred_at e,
               event_Severity = '''', event_AlertName = '''', event_Summary = '''', event_SourceSlug = '''', event_Team = '''',
               event_Labels = ev_labels e, event_PreviousLabels = ev_previous_labels e, event_Redacted = True,
               event_ViewMatch = ViewMatchNone\<rparr>
         else \<lparr>event_ID = ev_id e, event_Type = ev_type e, event_AlertID = ev_alert_id e, event_OccurredAt = ev_occurred_at e,
               event_Severity = ev_severity e, event_AlertName = ev_alert_name e, event_Summary = ev_summary e,
               event_SourceSlug = ev_source_slug e, event_Team = ev_team e, event_Labels = ev_labels e,
               event_PreviousLabels = ev_previous_labels e, event_Redacted = False,
               event_ViewMatch = view_classify rx view (ev_labels e)\<rparr>)"

text \<open>The caller as the batch sees it: read again, unless the deployment is open.\<close>

definition stream_caller :: "accounts \<Rightarrow> Principal \<Rightarrow> access_error + Principal" where
  "stream_caller a caller = (if Anonymous caller then Inr caller else resolvePrincipal a (UserID caller))"

definition StreamEvents ::
  "(string \<Rightarrow> string \<Rightarrow> bool) \<Rightarrow> regex \<Rightarrow> Principal \<Rightarrow> ViewOptions option \<Rightarrow> int \<Rightarrow> nat \<Rightarrow> db \<Rightarrow> accounts \<Rightarrow> db \<Rightarrow>
   stream_error + StreamBatch" where
  "StreamEvents pgrx rx caller options afterID limit s1 a s2 =
     (let scannedThrough = stream_window afterID limit s1; retainedFrom = deleted_through s1 in
      if scannedThrough = afterID
      then Inr \<lparr>batch_Events = [], batch_ScannedThrough = afterID, batch_RetainedFrom = retainedFrom\<rparr>
      else case stream_caller a caller of
        Inl e \<Rightarrow> Inl (StreamAccess e)
      | Inr caller \<Rightarrow>
          let view = resolveView caller options;
              (access, args1) = stream_condition caller view ColLabels [ArgInt afterID, ArgInt scannedThrough];
              (previousAccess, args) = stream_condition caller view ColPrevious args1
          in if \<not> (sql_parses access \<and> statement_ok ({1, 2} \<union> sql_params access) previousAccess args) then Inl StreamDatabase
             else let rows = filter (\<lambda>e. afterID < ev_id e \<and> ev_id e \<le> scannedThrough \<and>
                        (sql_true (eval_sql pgrx args (event_row e) access) \<or>
                         ev_previous_labels e \<noteq> None \<and> sql_true (eval_sql pgrx args (event_row e) previousAccess)))
                        (stream_events s2)
                  in Inr \<lparr>batch_Events = map (stream_event rx caller view) (sort_key ev_id rows),
                          batch_ScannedThrough = scannedThrough, batch_RetainedFrom = retainedFrom\<rparr>)"

section \<open>The stream over HTTP\<close>

record event_detail =
  ed_severity :: string
  ed_alertName :: string
  ed_summary :: string
  ed_source :: string
  ed_team :: string
  ed_viewMatch :: ViewMatch

record event_payload =
  ep_id :: int
  ep_type :: string
  ep_alertId :: string
  ep_occurredAt :: instant
  ep_detail :: "event_detail option"

datatype frame = Connected | StreamGap int int | EventFrame event_payload | Keepalive

definition event_payload_of :: "StreamEvent \<Rightarrow> event_payload" where
  "event_payload_of event =
     \<lparr>ep_id = event_ID event, ep_type = event_Type event, ep_alertId = FormatInt (event_AlertID event),
      ep_occurredAt = event_OccurredAt event,
      ep_detail =
        (if event_Redacted event then None
         else Some \<lparr>ed_severity = event_Severity event, ed_alertName = event_AlertName event, ed_summary = event_Summary event,
                    ed_source = event_SourceSlug event, ed_team = event_Team event, ed_viewMatch = event_ViewMatch event\<rparr>)\<rparr>"

text \<open>Writing the events of a batch, which stops at one whose JSON cannot be written.\<close>

fun write_events :: "(event_payload \<Rightarrow> bool) \<Rightarrow> StreamEvent list \<Rightarrow> frame list \<times> bool" where
  "write_events json_ok [] = ([], True)"
| "write_events json_ok (event # events) =
     (if \<not> json_ok (event_payload_of event) then ([], False)
      else let (frames, whole) = write_events json_ok events
           in (EventFrame (event_payload_of event) # frames, whole))"

record stream_env =
  str_pgrx :: "string \<Rightarrow> string \<Rightarrow> bool"
  str_rx :: regex
  str_json_ok :: "event_payload \<Rightarrow> bool"

text \<open>What one round of the loop meets.\<close>

record round =
  rd_gone :: bool
  rd_now :: instant
  rd_authenticate :: "Principal option"
  rd_authenticated :: instant
  rd_window :: db
  rd_accounts :: accounts
  rd_rows :: db
  rd_gap_written :: bool
  rd_flushed :: instant
  rd_polled :: instant
  rd_kept_alive :: instant
  rd_gone_waiting :: bool

record stream_state =
  st_afterID :: int
  st_principal :: Principal
  st_lastKeepalive :: instant
  st_lastAuthentication :: instant

text \<open>The authentication of a round: every fifteen seconds the caller is authenticated again.\<close>

definition reauthenticate :: "round \<Rightarrow> stream_state \<Rightarrow> stream_state option" where
  "reauthenticate rd st =
     (if rd_now rd - st_lastAuthentication st \<ge> 15000000
      then (case rd_authenticate rd of
              None \<Rightarrow> None
            | Some caller \<Rightarrow>
                if \<not> CanRead caller then None
                else Some (st\<lparr>st_principal := caller, st_lastAuthentication := rd_authenticated rd\<rparr>))
      else Some st)"

text \<open>One round: what it writes, the state it leaves, and whether the loop goes on.\<close>

definition stream_round :: "stream_env \<Rightarrow> ViewOptions option \<Rightarrow> round \<Rightarrow> stream_state \<Rightarrow> frame list \<times> stream_state \<times> bool" where
  "stream_round env view rd st0 =
     (if rd_gone rd then ([], st0, False)
      else case reauthenticate rd st0 of
        None \<Rightarrow> ([], st0, False)
      | Some st \<Rightarrow>
          (case StreamEvents (str_pgrx env) (str_rx env) (st_principal st) view (st_afterID st) 100 (rd_window rd) (rd_accounts rd) (rd_rows rd) of
             Inl e \<Rightarrow> ([], st, False)
           | Inr batch \<Rightarrow>
               if 0 < st_afterID st \<and> st_afterID st < batch_RetainedFrom batch
               then if \<not> rd_gap_written rd then ([], st, False)
                    else ([StreamGap (st_afterID st) (batch_RetainedFrom batch)], st\<lparr>st_afterID := batch_RetainedFrom batch\<rparr>, True)
               else
                 (case write_events (str_json_ok env) (batch_Events batch) of
                    (frames, False) \<Rightarrow> (frames, st, False)
                  | (frames, True) \<Rightarrow>
                      let st' = st\<lparr>st_afterID := batch_ScannedThrough batch\<rparr>;
                          st' = (if 0 < length (batch_Events batch) then st'\<lparr>st_lastKeepalive := rd_flushed rd\<rparr> else st')
                      in if st_afterID st < st_afterID st' then (frames, st', True)
                         else if rd_polled rd - st_lastKeepalive st' \<ge> 15000000
                         then (frames @ [Keepalive], st'\<lparr>st_lastKeepalive := rd_kept_alive rd\<rparr>, \<not> rd_gone_waiting rd)
                         else (frames, st', \<not> rd_gone_waiting rd))))"

fun stream_rounds :: "stream_env \<Rightarrow> ViewOptions option \<Rightarrow> round list \<Rightarrow> stream_state \<Rightarrow> frame list \<times> stream_state" where
  "stream_rounds env view [] st = ([], st)"
| "stream_rounds env view (rd # rds) st =
     (case stream_round env view rd st of
        (frames, st', False) \<Rightarrow> (frames, st')
      | (frames, st', True) \<Rightarrow> (let (more, st'') = stream_rounds env view rds st' in (frames @ more, st'')))"

text \<open>The handler: a refusal, or the frames written. \<open>flusher\<close> says that the connection can be flushed.\<close>

definition streamAlerts ::
  "stream_env \<Rightarrow> bool \<Rightarrow> request \<Rightarrow> preferences_table \<Rightarrow> instant \<Rightarrow> instant \<Rightarrow> round list \<Rightarrow> failure + frame list" where
  "streamAlerts env flusher r t now1 now2 rounds =
     (case streamCursor r of
        Inl message \<Rightarrow> Inl (400, Message message)
      | Inr afterID \<Rightarrow>
          (case parseViewMode r of
             Inl message \<Rightarrow> Inl (400, Message message)
           | Inr mode \<Rightarrow>
               if \<not> flusher then Inl (server_error ''streaming is unsupported'')
               else Inr (Connected #
                 (case req_principal r of
                    None \<Rightarrow> []
                  | Some caller \<Rightarrow>
                      (case viewOptions caller mode t of
                         Inl e \<Rightarrow> []
                       | Inr view \<Rightarrow>
                           fst (stream_rounds env view rounds
                             \<lparr>st_afterID = afterID, st_principal = caller, st_lastKeepalive = now1, st_lastAuthentication = now2\<rparr>))))))"

section \<open>Specification\<close>

text \<open>What the database lets a caller see of an alert with labels \<open>l\<close>, and the events that concern
  the caller: those of alerts it sees, or saw before their labels changed.\<close>

definition stream_sees :: "(string \<Rightarrow> string \<Rightarrow> bool) \<Rightarrow> Principal \<Rightarrow> resolvedView \<Rightarrow> labels \<Rightarrow> bool" where
  "stream_sees pgrx caller view l \<longleftrightarrow> sql_can_read pgrx caller l \<and> (view_filtering view \<longrightarrow> sql_visible pgrx view l)"

definition stream_selects :: "(string \<Rightarrow> string \<Rightarrow> bool) \<Rightarrow> Principal \<Rightarrow> resolvedView \<Rightarrow> stream_row \<Rightarrow> bool" where
  "stream_selects pgrx caller view e \<longleftrightarrow>
     stream_sees pgrx caller view (ev_labels e) \<or>
     (case ev_previous_labels e of None \<Rightarrow> False | Some l \<Rightarrow> stream_sees pgrx caller view l)"

text \<open>The two regular-expression engines decide a pattern of the caller's read scope, or of a view that filters, differently on
  the labels \<open>l\<close>; and the matchers that bindings and view groups may have.\<close>

definition engines_differ :: "regex \<Rightarrow> (string \<Rightarrow> string \<Rightarrow> bool) \<Rightarrow> Principal \<Rightarrow> resolvedView \<Rightarrow> labels \<Rightarrow> bool" where
  "engines_differ rx pgrx caller view l \<longleftrightarrow>
     (\<exists>g \<in> set (Grants caller). reads (grant_Role g) \<and> \<not> undisputed rx pgrx l (grant_Matchers g)) \<or>
     view_filtering view \<and> (\<exists>g \<in> set (rv_groups view). \<not> undisputed rx pgrx l g)"

definition matchers_known :: "Principal \<Rightarrow> resolvedView \<Rightarrow> bool" where
  "matchers_known caller view \<longleftrightarrow>
     known_grants (Grants caller) \<and> (\<forall>g \<in> set (rv_groups view). g \<noteq> [] \<and> known_operators g)"

text \<open>What Go says the caller sees of labels, which decides whether an event is redacted.\<close>

definition go_sees :: "regex \<Rightarrow> Principal \<Rightarrow> resolvedView \<Rightarrow> labels \<Rightarrow> bool" where
  "go_sees rx caller view l \<longleftrightarrow> CanReadLabels rx caller l \<and> view_includes rx view l"

text \<open>How an event of a batch is told: only as the removal of an alert id when Go says that the caller no longer sees the alert but
  did before; otherwise in full, and then Go says the caller sees it, or the engines differ on its labels or on those before.\<close>

definition told_rightly :: "regex \<Rightarrow> (string \<Rightarrow> string \<Rightarrow> bool) \<Rightarrow> Principal \<Rightarrow> resolvedView \<Rightarrow> StreamEvent \<Rightarrow> bool" where
  "told_rightly rx pgrx caller view event \<longleftrightarrow>
     (let was = (\<lambda>P. case event_PreviousLabels event of None \<Rightarrow> False | Some l \<Rightarrow> P l); payload = event_payload_of event in
      if \<not> go_sees rx caller view (event_Labels event) \<and> was (go_sees rx caller view)
      then ep_detail payload = None \<and> ep_type payload = ''alert.removed''
      else ep_detail payload \<noteq> None \<and>
        (go_sees rx caller view (event_Labels event) \<or> engines_differ rx pgrx caller view (event_Labels event) \<or>
         was (engines_differ rx pgrx caller view)))"

fun frame_ids :: "frame list \<Rightarrow> int list" where
  "frame_ids [] = []"
| "frame_ids (EventFrame p # fs) = ep_id p # frame_ids fs"
| "frame_ids (f # fs) = frame_ids fs"

text \<open>A round between whose two statements nothing is pruned, on tables whose ids above the watermark have no gaps.\<close>

definition round_ok :: "round \<Rightarrow> bool" where
  "round_ok rd \<longleftrightarrow>
     stream_ok (rd_window rd) \<and> stream_ok (rd_rows rd) \<and> set (stream_events (rd_window rd)) \<subseteq> set (stream_events (rd_rows rd))"

text \<open>Ids are unique in the rows a round reads: the primary key of the table.\<close>

definition unique_ids :: "round \<Rightarrow> bool" where
  "unique_ids rd \<longleftrightarrow> distinct (map ev_id (stream_events (rd_rows rd)))"

text \<open>An id the frames announce as lost, and one a round decided: the event was there, and its frame was
  written exactly if the event concerned the caller.\<close>

definition in_gap :: "frame list \<Rightarrow> int \<Rightarrow> bool" where
  "in_gap frames i \<longleftrightarrow> (\<exists>start stop. StreamGap start stop \<in> set frames \<and> start < i \<and> i \<le> stop)"

definition decided :: "stream_env \<Rightarrow> ViewOptions option \<Rightarrow> Principal \<Rightarrow> round \<Rightarrow> frame list \<Rightarrow> int \<Rightarrow> bool" where
  "decided env view base rd frames i \<longleftrightarrow>
     (\<exists>e \<in> set (stream_events (rd_rows rd)). \<exists>caller. ev_id e = i \<and> stream_caller (rd_accounts rd) base = Inr caller \<and>
        (i \<in> set (frame_ids frames) \<longleftrightarrow> stream_selects (str_pgrx env) caller (resolveView caller view) e))"

text \<open>An id a round passed over although no row with it was there when the second statement read them: never used, not committed
  yet, or pruned. A later event, or this one, was there when the first statement read the window.\<close>

definition missing :: "round \<Rightarrow> frame list \<Rightarrow> int \<Rightarrow> bool" where
  "missing rd frames i \<longleftrightarrow>
     i \<notin> ev_id ` set (stream_events (rd_rows rd)) \<and> i \<notin> set (frame_ids frames) \<and>
     (\<exists>e \<in> set (stream_events (rd_window rd)). i \<le> ev_id e)"

text \<open>The account of an id: decided, or missing in a round that lacked the guarantees of \<^const>\<open>round_ok\<close> or started at no event.\<close>

definition passed :: "stream_env \<Rightarrow> ViewOptions option \<Rightarrow> int \<Rightarrow> Principal \<Rightarrow> round \<Rightarrow> frame list \<Rightarrow> int \<Rightarrow> bool" where
  "passed env view start base rd frames i \<longleftrightarrow>
     decided env view base rd frames i \<or> missing rd frames i \<and> \<not> (round_ok rd \<and> 0 < start)"

text \<open>What one round does to the cursor and what it writes.\<close>

definition round_result :: "stream_env \<Rightarrow> ViewOptions option \<Rightarrow> round \<Rightarrow> stream_state \<Rightarrow> frame list \<Rightarrow> stream_state \<Rightarrow> bool \<Rightarrow> bool" where
  "round_result env view rd st frames st' alive \<longleftrightarrow>
     sorted_wrt (<) (frame_ids frames) \<and> (\<forall>i \<in> set (frame_ids frames). st_afterID st < i \<and> (alive \<longrightarrow> i \<le> st_afterID st')) \<and>
     st_afterID st \<le> st_afterID st' \<and>
     (st_principal st' = st_principal st \<or> rd_authenticate rd = Some (st_principal st')) \<and>
     (\<forall>i. st_afterID st < i \<and> i \<le> st_afterID st' \<longrightarrow> in_gap frames i \<or> passed env view (st_afterID st) (st_principal st') rd frames i)"

section \<open>Samples\<close>

definition sample_round :: round where
  "sample_round = \<lparr>rd_gone = False, rd_now = 0, rd_authenticate = None, rd_authenticated = 0, rd_window = sample_stream,
     rd_accounts = sample_accounts, rd_rows = sample_stream, rd_gap_written = True, rd_flushed = 0, rd_polled = 0,
     rd_kept_alive = 0, rd_gone_waiting = False\<rparr>"

definition sample_stream_env :: stream_env where
  "sample_stream_env = \<lparr>str_pgrx = (\<lambda>p v. p = v), str_rx = (\<lambda>p v. Some (p = v)), str_json_ok = (\<lambda>p. True)\<rparr>"

section \<open>Lemmas\<close>

lemma eval_stream_condition:
  assumes "col_value row col = Some l"
  shows "sql_true (eval_sql pgrx (snd (stream_condition caller view col args) @ xs) row (fst (stream_condition caller view col args))) \<longleftrightarrow>
    stream_sees pgrx caller view l"
proof (cases "view_filtering view")
  case True
  let ?args1 = "snd (readAccessCondition caller col args)"
  let ?more = "concat (map matcher_args (rv_groups view))"
  have "eval_sql pgrx (?args1 @ ?more @ xs) row (fst (readAccessCondition caller col args)) = Some (sql_can_read pgrx caller l)"
    by (rule eval_read_can_read [OF assms])
  moreover have "eval_sql pgrx (?args1 @ ?more @ xs) row (fst (visibleCondition view col ?args1)) = Some (sql_visible pgrx view l)"
    using eval_visibleCondition [OF assms, of pgrx view ?args1 xs] by (simp add: snd_visibleCondition)
  ultimately show ?thesis
    using True by (simp add: stream_condition_def Let_def case_prod_beta stream_sees_def snd_visibleCondition)
next
  case False
  then show ?thesis
    using eval_read_can_read [OF assms, of pgrx caller args xs] by (simp add: stream_condition_def case_prod_beta stream_sees_def)
qed

lemma snd_stream_condition: "\<exists>ys. snd (stream_condition caller view col args) = args @ ys"
  using access_args_prefix(1) [of caller col args] by (auto simp: stream_condition_def Let_def case_prod_beta snd_visibleCondition)

lemma StreamEvents_Inr:
  assumes "StreamEvents pgrx rx caller options afterID limit s1 a s2 = Inr batch"
  shows "batch_ScannedThrough batch = stream_window afterID limit s1 \<and> batch_RetainedFrom batch = deleted_through s1 \<and>
    (stream_window afterID limit s1 = afterID \<and> batch_Events batch = [] \<or>
     (\<exists>caller'. stream_caller a caller = Inr caller' \<and>
        batch_Events batch = map (stream_event rx caller' (resolveView caller' options))
          (sort_key ev_id (filter (\<lambda>e. afterID < ev_id e \<and> ev_id e \<le> stream_window afterID limit s1 \<and>
             stream_selects pgrx caller' (resolveView caller' options) e) (stream_events s2)))))"
proof (cases "stream_window afterID limit s1 = afterID")
  case True
  then show ?thesis using assms by (auto simp: StreamEvents_def Let_def)
next
  case False
  obtain caller' where caller: "stream_caller a caller = Inr caller'"
    using assms False by (auto simp: StreamEvents_def Let_def split: sum.splits)
  let ?view = "resolveView caller' options"
  let ?c1 = "stream_condition caller' ?view ColLabels [ArgInt afterID, ArgInt (stream_window afterID limit s1)]"
  let ?c2 = "stream_condition caller' ?view ColPrevious (snd ?c1)"
  obtain ys where ys: "snd ?c2 = snd ?c1 @ ys" using snd_stream_condition by blast
  have "sql_true (eval_sql pgrx (snd ?c2) (event_row e) (fst ?c1)) \<longleftrightarrow> stream_sees pgrx caller' ?view (ev_labels e)" for e
    unfolding ys by (rule eval_stream_condition) (simp add: col_value_def event_row_def)
  moreover have "sql_true (eval_sql pgrx (snd ?c2) (event_row e) (fst ?c2)) \<longleftrightarrow> stream_sees pgrx caller' ?view l"
    if "ev_previous_labels e = Some l" for e l
    using eval_stream_condition [of "event_row e" ColPrevious l pgrx caller' ?view "snd ?c1" "[]"] that
    by (simp add: col_value_def event_row_def)
  ultimately have "(\<lambda>e. afterID < ev_id e \<and> ev_id e \<le> stream_window afterID limit s1 \<and>
      (sql_true (eval_sql pgrx (snd ?c2) (event_row e) (fst ?c1)) \<or>
       ev_previous_labels e \<noteq> None \<and> sql_true (eval_sql pgrx (snd ?c2) (event_row e) (fst ?c2)))) =
    (\<lambda>e. afterID < ev_id e \<and> ev_id e \<le> stream_window afterID limit s1 \<and> stream_selects pgrx caller' ?view e)"
    by (auto simp: fun_eq_iff stream_selects_def split: option.splits)
  then show ?thesis
    using assms False caller by (auto simp: StreamEvents_def Let_def case_prod_beta split: if_splits)
qed

lemma stream_window_bounds:
  "afterID \<le> stream_window afterID limit s"
  "stream_window afterID limit s = afterID \<or> stream_window afterID limit s \<in> ev_id ` set (stream_events s)"
proof -
  define c where "c = take limit (sort (filter (\<lambda>i. afterID < i) (map ev_id (stream_events s))))"
  have c: "afterID < i \<and> i \<in> ev_id ` set (stream_events s)" if "i \<in> set c" for i
    using in_set_takeD [OF that [unfolded c_def]] by auto
  have w: "stream_window afterID limit s = (if c = [] then afterID else Max (set c))" by (simp add: stream_window_def Let_def c_def)
  have "Max (set c) \<in> set c" if "c \<noteq> []" using that by (intro Max_in) simp_all
  then show "afterID \<le> stream_window afterID limit s"
    "stream_window afterID limit s = afterID \<or> stream_window afterID limit s \<in> ev_id ` set (stream_events s)"
    using c [of "Max (set c)"] unfolding w by (cases "c = []"; simp)+
qed

lemma stream_event_id [simp]: "event_ID (stream_event rx caller view e) = ev_id e"
  by (simp add: stream_event_def Let_def)

lemma frame_ids_append [simp]: "frame_ids (xs @ ys) = frame_ids xs @ frame_ids ys"
  by (induction xs rule: frame_ids.induct) simp_all

lemma write_events_ids:
  "write_events json_ok events = (frames, whole) \<Longrightarrow>
     (\<exists>rest. map event_ID events = frame_ids frames @ rest) \<and> (whole \<longrightarrow> frame_ids frames = map event_ID events)"
proof (induction events arbitrary: frames whole)
  case (Cons event events)
  show ?case
  proof (cases "json_ok (event_payload_of event)")
    case True
    obtain fs where fs: "write_events json_ok events = (fs, whole)" "frames = EventFrame (event_payload_of event) # fs"
      using Cons.prems True by (auto split: prod.splits)
    then show ?thesis using Cons.IH [OF fs(1)] by (simp add: event_payload_of_def)
  qed (use Cons.prems in simp)
qed simp

text \<open>The ids of a batch: in order, in the window, and those of the events that concern the caller.\<close>

lemma batch_ids:
  assumes "StreamEvents pgrx rx caller options afterID limit s1 a s2 = Inr batch" "distinct (map ev_id (stream_events s2))"
  shows "sorted_wrt (<) (map event_ID (batch_Events batch))"
    "\<forall>i \<in> set (map event_ID (batch_Events batch)). afterID < i \<and> i \<le> batch_ScannedThrough batch"
proof -
  have "sorted_wrt (<) (map ev_id (sort_key ev_id (filter P (stream_events s2))))" for P
    using assms(2) by (simp add: strict_sorted_iff distinct_map inj_on_def)
  then show "sorted_wrt (<) (map event_ID (batch_Events batch))"
    "\<forall>i \<in> set (map event_ID (batch_Events batch)). afterID < i \<and> i \<le> batch_ScannedThrough batch"
    using StreamEvents_Inr [OF assms(1)] by (auto simp: comp_def)
qed

text \<open>Above the watermark nothing of the window is missing.\<close>

lemma window_present:
  assumes "round_ok rd" "deleted_through (rd_window rd) \<le> afterID" "afterID < i" "i \<le> stream_window afterID limit (rd_window rd)"
  shows "\<exists>e \<in> set (stream_events (rd_rows rd)). ev_id e = i"
proof -
  have ok: "stream_ok (rd_window rd)" "set (stream_events (rd_window rd)) \<subseteq> set (stream_events (rd_rows rd))"
    using assms(1) by (simp_all add: round_ok_def)
  have "stream_window afterID limit (rd_window rd) < next_event (rd_window rd)"
    using stream_window_bounds(2) [of afterID limit "rd_window rd"] assms(3,4) ok(1) by (auto simp: stream_ok_def)
  then have "i \<in> ev_id ` set (stream_events (rd_window rd))" using ok(1) assms(2-4) by (auto simp: stream_ok_def)
  then show ?thesis using ok(2) by auto
qed

lemma event_by_id:
  "unique_ids rd \<Longrightarrow> e \<in> set (stream_events (rd_rows rd)) \<Longrightarrow> e' \<in> set (stream_events (rd_rows rd)) \<Longrightarrow> ev_id e = ev_id e' \<Longrightarrow> e = e'"
  by (auto simp: unique_ids_def distinct_map inj_on_def)

lemma reauthenticate_Some:
  "reauthenticate rd st0 = Some st \<Longrightarrow> st_afterID st = st_afterID st0 \<and>
     (st_principal st = st_principal st0 \<or> rd_authenticate rd = Some (st_principal st))"
  by (auto simp: reauthenticate_def split: if_splits option.splits)

text \<open>A batch that is written passes every id of its window.\<close>

lemma batch_passes:
  assumes "StreamEvents (str_pgrx env) (str_rx env) base view afterID 100 (rd_window rd) (rd_accounts rd) (rd_rows rd) = Inr batch"
    "unique_ids rd" "0 < afterID \<Longrightarrow> deleted_through (rd_window rd) \<le> afterID" "afterID < i" "i \<le> batch_ScannedThrough batch"
    "frame_ids frames = map event_ID (batch_Events batch)"
  shows "passed env view afterID base rd frames i"
proof -
  note b = StreamEvents_Inr [OF assms(1)]
  then obtain caller where caller: "stream_caller (rd_accounts rd) base = Inr caller"
    "batch_Events batch = map (stream_event (str_rx env) caller (resolveView caller view))
       (sort_key ev_id (filter (\<lambda>e. afterID < ev_id e \<and> ev_id e \<le> batch_ScannedThrough batch \<and>
          stream_selects (str_pgrx env) caller (resolveView caller view) e) (stream_events (rd_rows rd))))"
    using assms(4,5) by auto
  show ?thesis
  proof (cases "i \<in> ev_id ` set (stream_events (rd_rows rd))")
    case True
    then obtain e where e: "e \<in> set (stream_events (rd_rows rd))" "ev_id e = i" by blast
    have "i \<in> set (frame_ids frames) \<longleftrightarrow> stream_selects (str_pgrx env) caller (resolveView caller view) e"
      using event_by_id [OF assms(2)] e assms(4,5) unfolding assms(6) caller(2) by (auto simp: image_iff)
    then show ?thesis using e caller(1) unfolding passed_def decided_def by blast
  next
    case False
    then have "\<not> (round_ok rd \<and> 0 < afterID)"
      using window_present [of rd afterID i 100] assms(3-5) b by auto
    moreover have "i \<notin> set (frame_ids frames)" using False unfolding assms(6) caller(2) by (auto simp: image_iff)
    moreover have "\<exists>e \<in> set (stream_events (rd_window rd)). i \<le> ev_id e"
      using stream_window_bounds(2) [of afterID 100 "rd_window rd"] assms(4,5) b by auto
    ultimately show ?thesis using False unfolding passed_def missing_def by blast
  qed
qed

text \<open>The ways a round ends: with nothing written, with a gap announced, in the middle of a batch, or
  with the batch written.\<close>

lemma stream_round_cases:
  assumes "stream_round env view rd st0 = (frames, st', alive)"
  obtains (quiet) "frames = []" "st_afterID st' = st_afterID st0"
      "st_principal st' = st_principal st0 \<or> rd_authenticate rd = Some (st_principal st')"
  | (gap) st batch where "reauthenticate rd st0 = Some st" "st_principal st' = st_principal st"
      "StreamEvents (str_pgrx env) (str_rx env) (st_principal st) view (st_afterID st) 100 (rd_window rd) (rd_accounts rd) (rd_rows rd) = Inr batch"
      "0 < st_afterID st \<and> st_afterID st < batch_RetainedFrom batch" "frames = [StreamGap (st_afterID st) (batch_RetainedFrom batch)]"
      "st_afterID st' = batch_RetainedFrom batch"
  | (written) st batch frames' whole where "reauthenticate rd st0 = Some st" "st_principal st' = st_principal st"
      "StreamEvents (str_pgrx env) (str_rx env) (st_principal st) view (st_afterID st) 100 (rd_window rd) (rd_accounts rd) (rd_rows rd) = Inr batch"
      "\<not> (0 < st_afterID st \<and> st_afterID st < batch_RetainedFrom batch)"
      "write_events (str_json_ok env) (batch_Events batch) = (frames', whole)" "frame_ids frames = frame_ids frames'"
      "if whole then st_afterID st' = batch_ScannedThrough batch else st_afterID st' = st_afterID st \<and> \<not> alive"
proof (cases "rd_gone rd \<or> reauthenticate rd st0 = None")
  case True
  then have "frames = []" "st' = st0" using assms by (auto simp: stream_round_def split: if_splits)
  then show thesis using quiet by simp
next
  case False
  then obtain st where st: "reauthenticate rd st0 = Some st" "\<not> rd_gone rd" by auto
  note re = reauthenticate_Some [OF st(1)]
  show thesis
  proof (cases "StreamEvents (str_pgrx env) (str_rx env) (st_principal st) view (st_afterID st) 100 (rd_window rd) (rd_accounts rd) (rd_rows rd)")
    case (Inl e)
    then show thesis using assms st re quiet by (auto simp: stream_round_def)
  next
    case (Inr bt)
    show thesis
    proof (cases "0 < st_afterID st \<and> st_afterID st < batch_RetainedFrom bt")
      case True
      then show thesis
        using assms st re Inr quiet gap [OF st(1) _ Inr] by (cases "rd_gap_written rd") (auto simp: stream_round_def)
    next
      case False
      obtain fs whole where w: "write_events (str_json_ok env) (batch_Events bt) = (fs, whole)" by fastforce
      show thesis
        using assms st Inr False w by (intro written [OF st(1) _ Inr False w])
          (auto simp: stream_round_def Let_def split: if_splits bool.splits)
    qed
  qed
qed

lemma stream_round_result:
  assumes "stream_round env view rd st0 = (frames, st', alive)" "unique_ids rd"
  shows "round_result env view rd st0 frames st' alive"
  using assms(1)
proof (cases rule: stream_round_cases)
  case quiet
  then show ?thesis by (auto simp: round_result_def)
next
  case (gap st bt)
  note re = reauthenticate_Some [OF gap(1)]
  have "in_gap frames i" if "st_afterID st0 < i" "i \<le> st_afterID st'" for i
    using that gap(5,6) re by (auto simp: in_gap_def)
  then show ?thesis using gap re by (auto simp: round_result_def)
next
  case (written st bt fs whole)
  note re = reauthenticate_Some [OF written(1)]
  note w = write_events_ids [OF written(5)]
  note ids = batch_ids [OF written(3) assms(2) [unfolded unique_ids_def]]
  have low: "0 < st_afterID st \<Longrightarrow> deleted_through (rd_window rd) \<le> st_afterID st"
    using written(4) re StreamEvents_Inr [OF written(3)] by auto
  obtain rest where rest: "map event_ID (batch_Events bt) = frame_ids frames @ rest" using w written(6) by auto
  have "sorted_wrt (<) (frame_ids frames)" using ids(1) unfolding rest by (simp add: sorted_wrt_append)
  moreover have "\<forall>i \<in> set (frame_ids frames). st_afterID st0 < i \<and> (alive \<longrightarrow> i \<le> st_afterID st')"
    using ids(2) written(7) re unfolding rest by (auto split: if_splits)
  moreover have "st_afterID st0 \<le> st_afterID st'"
    using written(7) re StreamEvents_Inr [OF written(3)] stream_window_bounds(1) [of "st_afterID st" 100 "rd_window rd"]
    by (auto split: if_splits)
  moreover have "passed env view (st_afterID st0) (st_principal st') rd frames i" if "st_afterID st0 < i" "i \<le> st_afterID st'" for i
  proof (cases whole)
    case True
    then show ?thesis
      using batch_passes [OF written(3) assms(2) low, of i frames] that written(2,6,7) w re by auto
  qed (use that written(7) re in auto)
  ultimately show ?thesis using written(2) re by (auto simp: round_result_def)
qed

lemma in_gap_append: "in_gap (xs @ ys) i \<longleftrightarrow> in_gap xs i \<or> in_gap ys i"
  by (auto simp: in_gap_def)

lemma passed_append:
  "i \<notin> set (frame_ids ys) \<Longrightarrow> passed env view start base rd (xs @ ys) i = passed env view start base rd xs i"
  "i \<notin> set (frame_ids xs) \<Longrightarrow> passed env view start base rd (xs @ ys) i = passed env view start base rd ys i"
  by (simp_all add: passed_def decided_def missing_def)

lemma passed_earlier: "start \<le> start' \<Longrightarrow> passed env view start' base rd frames i \<Longrightarrow> passed env view start base rd frames i"
  by (auto simp: passed_def)

lemma sees_differ:
  assumes "matchers_known caller view" "stream_sees pgrx caller view l \<noteq> go_sees rx caller view l"
  shows "engines_differ rx pgrx caller view l"
proof (rule ccontr)
  assume same: "\<not> engines_differ rx pgrx caller view l"
  have "sql_can_read pgrx caller l \<longleftrightarrow> CanReadLabels rx caller l"
    using scopes_differ(1) [of caller pgrx l rx] assms(1) same by (auto simp: engines_differ_def matchers_known_def)
  moreover have "(view_filtering view \<longrightarrow> sql_visible pgrx view l) \<longleftrightarrow> view_includes rx view l"
    using assms(1) same view_includes_sql [of view rx pgrx l]
    by (auto simp: engines_differ_def matchers_known_def view_includes_def)
  ultimately show False using assms(2) by (auto simp: stream_sees_def go_sees_def)
qed

lemma stream_event_labels [simp]:
  "event_Labels (stream_event rx caller view e) = ev_labels e"
  "event_PreviousLabels (stream_event rx caller view e) = ev_previous_labels e"
  by (simp_all add: stream_event_def Let_def)

lemma stream_event_told:
  assumes "matchers_known caller view" "stream_selects pgrx caller view e"
  shows "told_rightly rx pgrx caller view (stream_event rx caller view e)"
proof (cases "\<not> go_sees rx caller view (ev_labels e) \<and> (\<exists>l. ev_previous_labels e = Some l \<and> go_sees rx caller view l)")
  case True
  then show ?thesis by (auto simp: told_rightly_def Let_def stream_event_def event_payload_of_def go_sees_def)
next
  case False
  then have full: "ep_detail (event_payload_of (stream_event rx caller view e)) \<noteq> None"
    by (auto simp: Let_def stream_event_def event_payload_of_def go_sees_def split: option.splits)
  have "go_sees rx caller view (ev_labels e) \<or> engines_differ rx pgrx caller view (ev_labels e) \<or>
      (\<exists>l. ev_previous_labels e = Some l \<and> engines_differ rx pgrx caller view l)"
    using assms(2) False sees_differ [OF assms(1)] unfolding stream_selects_def by (auto split: option.splits)
  then show ?thesis using False full by (auto simp: told_rightly_def Let_def split: option.splits)
qed

section \<open>Properties\<close>

text \<open>C22: what becomes of every id a stream passes. Over any run of rounds the ids of the events written increase, and every id the
  stream has gone past was announced as deleted by retention, or was decided in one of its rounds (the event was there, and it was written
  exactly if it concerned the caller as read in that round, by its labels or by those it had before), or was missing: no row
  with it was there when the second statement of a round read the rows, while the first statement had already read it or
  a later one into the window. Such an event, pruned between the statements or committed after a later id, is never sent and
  never announced. It cannot happen to a stream that resumed from an event in a round between whose statements nothing was pruned, on
  ids without gaps. Nothing else is assumed than the primary key of the events.\<close>

theorem stream_accounts_for_ids:
  assumes "stream_rounds env view rds st = (frames, st')" "\<forall>rd \<in> set rds. unique_ids rd"
  shows "sorted_wrt (<) (frame_ids frames) \<and> (\<forall>i \<in> set (frame_ids frames). st_afterID st < i) \<and>
    (\<forall>i. st_afterID st < i \<and> i \<le> st_afterID st' \<longrightarrow> in_gap frames i \<or>
      (\<exists>rd \<in> set rds. \<exists>base \<in> insert (st_principal st) (\<Union>rd \<in> set rds. set_option (rd_authenticate rd)).
        decided env view base rd frames i \<or> missing rd frames i \<and> \<not> (round_ok rd \<and> 0 < st_afterID st)))"
  using assms unfolding passed_def [symmetric]
proof (induction rds arbitrary: st frames)
  case (Cons rd rds)
  obtain fs st1 alive where one: "stream_round env view rd st = (fs, st1, alive)" by (metis prod_cases3)
  have ok: "unique_ids rd" "\<forall>rd \<in> set rds. unique_ids rd" using Cons.prems(2) by simp_all
  note r = stream_round_result [OF one ok(1), unfolded round_result_def]
  let ?B = "\<lambda>st rds. insert (st_principal st) (\<Union>rd \<in> set rds. set_option (rd_authenticate rd))"
  define B where "B = ?B st (rd # rds)"
  have base: "st_principal st1 \<in> B" using r by (auto simp: B_def)
  show ?case
  proof (cases alive)
    case False
    then have "frames = fs" "st' = st1" using Cons.prems(1) one by simp_all
    then show ?thesis unfolding B_def [symmetric] using r base by auto
  next
    case True
    then obtain more where more: "stream_rounds env view rds st1 = (more, st')" "frames = fs @ more"
      using Cons.prems(1) one by (auto split: prod.splits)
    note IH = Cons.IH [OF more(1) ok(2)]
    have low: "\<forall>i \<in> set (frame_ids fs). st_afterID st < i \<and> i \<le> st_afterID st1" using r True by blast
    have high: "\<forall>i \<in> set (frame_ids more). st_afterID st1 < i" using IH by blast
    have "sorted_wrt (<) (frame_ids frames)" unfolding more(2) using r IH low high by (fastforce simp: sorted_wrt_append)
    moreover have "\<forall>i \<in> set (frame_ids frames). st_afterID st < i" unfolding more(2) using low high r by fastforce
    moreover have "in_gap frames i \<or> (\<exists>rd' \<in> set (rd # rds). \<exists>base \<in> B. passed env view (st_afterID st) base rd' frames i)"
      if i: "st_afterID st < i" "i \<le> st_afterID st'" for i
    proof (cases "i \<le> st_afterID st1")
      case True
      then have "in_gap fs i \<or> passed env view (st_afterID st) (st_principal st1) rd fs i" using r i(1) by blast
      moreover have "i \<notin> set (frame_ids more)" using high True by auto
      ultimately show ?thesis using base by (auto simp: more(2) in_gap_append passed_append(1))
    next
      case False
      then have out: "i \<notin> set (frame_ids fs)" using low by auto
      from False have "in_gap more i \<or> (\<exists>rd \<in> set rds. \<exists>base \<in> ?B st1 rds. passed env view (st_afterID st1) base rd more i)"
        using IH i(2) by (meson not_le)
      moreover have "?B st1 rds \<subseteq> B" using base by (auto simp: B_def)
      moreover have "passed env view (st_afterID st) b rd' (fs @ more) i" if "passed env view (st_afterID st1) b rd' more i" for b rd'
        using passed_earlier [of "st_afterID st" "st_afterID st1"] that r passed_append(2) [OF out] by blast
      ultimately show ?thesis unfolding more(2) in_gap_append by (meson list.set_intros(2) subsetD)
    qed
    ultimately show ?thesis unfolding B_def [symmetric] by blast
  qed
qed auto

text \<open>C23: what the stream discloses. The events of a batch are those of the window that, by the SQL conditions, concern the caller
  as it is read with the batch, in the order of their ids. An event whose labels Go says the caller does not see, and whose
  labels before it does, is told only as the removal of an alert id, without any of its texts. Every other event is told in
  full, and then Go says that the caller sees its labels, or the two regular-expression engines decide a pattern of the caller's scope or
  view differently on the labels of the event or those before: only then is an event disclosed that Go would have refused.\<close>

theorem stream_discloses:
  assumes "StreamEvents pgrx rx caller options afterID limit s1 a s2 = Inr batch" "stream_caller a caller = Inr reader"
    "view = resolveView reader options" "matchers_known reader view" "stream_window afterID limit s1 \<noteq> afterID"
  shows "map event_ID (batch_Events batch) =
      map ev_id (sort_key ev_id (filter (\<lambda>e. afterID < ev_id e \<and> ev_id e \<le> batch_ScannedThrough batch \<and>
        stream_selects pgrx reader view e) (stream_events s2))) \<and>
    (\<forall>event \<in> set (batch_Events batch). told_rightly rx pgrx reader view event)"
proof -
  let ?rows = "sort_key ev_id (filter (\<lambda>e. afterID < ev_id e \<and> ev_id e \<le> batch_ScannedThrough batch \<and>
        stream_selects pgrx reader view e) (stream_events s2))"
  have b: "batch_Events batch = map (stream_event rx reader view) ?rows"
    using StreamEvents_Inr [OF assms(1)] assms(2,3,5) by auto
  have "\<forall>event \<in> set (map (stream_event rx reader view) ?rows). told_rightly rx pgrx reader view event"
    unfolding set_map set_sort set_filter using stream_event_told [OF assms(4), of pgrx _ rx] by blast
  then show ?thesis unfolding b by (simp add: comp_def)
qed

lemma sample_stream_read:
  "stream_caller a sample_reader = Inr sample_reader"
  "statement_ok ({1, 2} \<union> sql_params SqlTrue) SqlTrue [ArgInt x, ArgInt y]"
  "stream_condition sample_reader (resolveView sample_reader None) col args = (SqlTrue, args)"
  "stream_window 1 100 sample_stream = 2"
proof -
  show "statement_ok ({1, 2} \<union> sql_params SqlTrue) SqlTrue [ArgInt x, ArgInt y]" by (auto simp: statement_ok_def)
qed (simp_all add: stream_caller_def stream_condition_def readAccessCondition_def resolveView_def view_filtering_def view_active_def
    sample_reader_def stream_window_def sample_stream_def sample_event_def)

lemma sample_batch:
  "StreamEvents pgrx rx sample_reader None 1 100 sample_stream a sample_stream =
     Inr \<lparr>batch_Events = [stream_event rx sample_reader (resolveView sample_reader None) (sample_event\<lparr>ev_id := 2, ev_occurred_at := 990\<rparr>)],
          batch_ScannedThrough = 2, batch_RetainedFrom = 0\<rparr>"
  by (simp add: StreamEvents_def sample_stream_read(1,3,4) Let_def sample_stream_read(2) [simplified]) (simp add: sample_stream_def sample_event_def sample_db_def)

text \<open>The witness decides the event it passes in one round and misses it in another, where it was pruned between the two
  statements: the stream goes past it without a word.\<close>

definition sample_pruned_round :: round where
  "sample_pruned_round = sample_round\<lparr>rd_rows := sample_stream\<lparr>stream_events := [], deleted_through := 2\<rparr>\<rparr>"

lemma sample_pruned_batch:
  "StreamEvents pgrx rx sample_reader None 1 100 sample_stream a (sample_stream\<lparr>stream_events := [], deleted_through := 2\<rparr>) =
     Inr \<lparr>batch_Events = [], batch_ScannedThrough = 2, batch_RetainedFrom = 0\<rparr>"
  by (simp add: StreamEvents_def sample_stream_read(1,3,4) Let_def sample_stream_read(2) [simplified]) (simp add: sample_stream_def sample_db_def)

theorem stream_accounts_for_ids_witness:
  "(\<exists>frames st'. stream_rounds sample_stream_env None [sample_round]
      \<lparr>st_afterID = 1, st_principal = sample_reader, st_lastKeepalive = 0, st_lastAuthentication = 0\<rparr> = (frames, st') \<and>
    st_afterID st' = 2 \<and> (in_gap frames 2 \<or> decided sample_stream_env None sample_reader sample_round frames 2)) \<and>
   (\<exists>st'. stream_rounds sample_stream_env None [sample_pruned_round]
      \<lparr>st_afterID = 1, st_principal = sample_reader, st_lastKeepalive = 0, st_lastAuthentication = 0\<rparr> = ([], st') \<and>
    st_afterID st' = 2 \<and> missing sample_pruned_round [] 2 \<and> \<not> round_ok sample_pruned_round)"
proof -
  let ?st = "\<lparr>st_afterID = 1, st_principal = sample_reader, st_lastKeepalive = 0, st_lastAuthentication = 0\<rparr>"
  obtain frames st' where run: "stream_rounds sample_stream_env None [sample_round] ?st = (frames, st')" by fastforce
  have after: "st_afterID st' = 2"
    using run by (auto simp: stream_round_def reauthenticate_def sample_round_def sample_stream_env_def sample_batch split: prod.splits)
  have ok: "round_ok sample_round" "unique_ids sample_round"
    using db_okD(3) [OF sample_stream_ok] by (simp_all add: round_ok_def unique_ids_def sample_round_def sample_stream_def sample_event_def)
  have one: "in_gap frames 2 \<or> decided sample_stream_env None sample_reader sample_round frames 2"
    using stream_accounts_for_ids [OF run] after ok by (auto simp: sample_round_def)
  obtain st2 where run2: "stream_rounds sample_stream_env None [sample_pruned_round] ?st = ([], st2)" "st_afterID st2 = 2"
    by (auto simp: stream_round_def reauthenticate_def sample_pruned_round_def sample_round_def sample_stream_env_def sample_pruned_batch Let_def)
  have rows: "stream_events (rd_rows sample_pruned_round) = []" by (simp add: sample_pruned_round_def)
  then have "unique_ids sample_pruned_round" by (simp add: unique_ids_def)
  then have "missing sample_pruned_round [] 2 \<and> \<not> round_ok sample_pruned_round"
    using conjunct2 [OF conjunct2 [OF stream_accounts_for_ids [OF run2(1)]], THEN spec, of 2] run2(2)
    by (auto simp: in_gap_def decided_def rows)
  then show ?thesis using run after one run2 by blast
qed

text \<open>The witness: a reader scoped by a regular expression is told of the removal of an alert that left its team.\<close>

definition sample_scoped :: accounts where
  "sample_scoped = sample_accounts\<lparr>role_bindings := [\<lparr>rb_id = 1, rb_name = ''web'', rb_kind = ''user'', rb_user = Some 7, rb_issuer = None,
     rb_group = None, rb_role = RoleViewer,
     rb_matchers = [\<lparr>matcher_Name = ''team'', matcher_Operator = ''=~'', matcher_Value = ''web''\<rparr>]\<rparr>]\<rparr>"

definition sample_moved :: db where
  "sample_moved = sample_db\<lparr>stream_events := [sample_event\<lparr>ev_labels := fmap_of_list [(''team'', ''db'')],
     ev_previous_labels := Some sample_labels\<rparr>], next_event := 2\<rparr>"

theorem stream_discloses_witness:
  "\<exists>batch reader. stream_caller sample_scoped sample_operator = Inr reader \<and> \<not> Anonymous reader \<and>
     StreamEvents (\<lambda>p v. p = v) (\<lambda>p v. Some (p = v)) sample_operator None 0 100 sample_moved sample_scoped sample_moved = Inr batch \<and>
     map (ep_detail \<circ> event_payload_of) (batch_Events batch) = [None] \<and>
     (\<forall>event \<in> set (batch_Events batch).
        told_rightly (\<lambda>p v. Some (p = v)) (\<lambda>p v. p = v) reader (resolveView reader None) event)"
proof -
  have "case stream_caller sample_scoped sample_operator of
      Inl e \<Rightarrow> False | Inr p \<Rightarrow> \<not> Anonymous p \<and> matchers_known p (resolveView p None)" by code_simp
  then obtain reader where r: "stream_caller sample_scoped sample_operator = Inr reader" "\<not> Anonymous reader"
    "matchers_known reader (resolveView reader None)" by (auto split: sum.splits)
  have "case StreamEvents (\<lambda>p v. p = v) (\<lambda>p v. Some (p = v)) sample_operator None 0 100 sample_moved sample_scoped sample_moved of
      Inl e \<Rightarrow> False | Inr b \<Rightarrow> map (ep_detail \<circ> event_payload_of) (batch_Events b) = [None]" by code_simp
  then obtain batch where
    b: "StreamEvents (\<lambda>p v. p = v) (\<lambda>p v. Some (p = v)) sample_operator None 0 100 sample_moved sample_scoped sample_moved = Inr batch"
    and told: "map (ep_detail \<circ> event_payload_of) (batch_Events batch) = [None]" by (auto split: sum.splits)
  have "stream_window 0 100 sample_moved \<noteq> 0" by code_simp
  note all = stream_discloses [OF b r(1) refl r(3) this, THEN conjunct2]
  show ?thesis by (intro exI [of _ batch] exI [of _ reader] conjI) (rule r b told all)+
qed

end
