(* ===== verification/Silence_Scope.thy ===== *)
theory Silence_Scope
  imports Operators Silence_Records
begin

text \<open>
  What a silence will match and where it has to be created (\<open>internal/postgres/silence.go\<close>):
  \<open>SilenceScopeForAlert\<close>, \<open>SilenceScopeForGroup\<close> and \<open>SilenceRemovalScope\<close>.

  The group query is modelled clause by clause: its conditions with their placeholders, the rows
  \<open>scoped\<close>, and per source the totals and the common labels, aggregated from the label pairs
  as the SQL does. \<open>strxfrm\<close> gives the sort keys of the database's collation. An Alertmanager
  treats a label that is absent as one that is empty: \<open>silenced\<close> is the documented meaning of
  equality matchers there, which only the specification uses.
\<close>

section \<open>One alert\<close>

text \<open>\<open>JOIN alert_sources AS source ON source.slug = alert.source_slug\<close>.\<close>

definition joined_source :: "db \<Rightarrow> string \<Rightarrow> source_row option" where
  "joined_source s slug = find (\<lambda>src. row_slug src = slug) (alert_sources s)"

definition select_with_source ::
  "(string \<Rightarrow> string \<Rightarrow> bool) \<Rightarrow> Principal \<Rightarrow> int \<Rightarrow> db \<Rightarrow> db_error + alert_row \<times> source_row" where
  "select_with_source pgrx caller i s =
     bind_res (select_alert pgrx (operateAccessCondition caller ColLabels [ArgInt i]) i s)
       (\<lambda>r. case joined_source s (SourceSlug r) of None \<Rightarrow> Inl ErrNotFound | Some src \<Rightarrow> Inr (r, src))"

definition target_of :: "alert_row \<Rightarrow> source_row \<Rightarrow> SilenceTarget" where
  "target_of r src =
     \<lparr>target_Source = SourceSlug r, target_AlertmanagerURL = row_alertmanager_url src,
      target_AlertmanagerToken = row_alertmanager_token src, target_Labels = Labels r, target_Members = 1\<rparr>"

definition SilenceScopeForAlert ::
  "(string \<Rightarrow> string \<Rightarrow> bool) \<Rightarrow> Principal \<Rightarrow> int \<Rightarrow> db \<Rightarrow> db_error + SilenceScope" where
  "SilenceScopeForAlert pgrx caller i s =
     (if \<not> CanOperate caller then Inl ErrNotFound
      else bind_res (select_with_source pgrx caller i s)
        (\<lambda>(r, src).
           if Labels r = fmempty then Inl (ErrMessage ''alert has no labels to silence on'')
           else if row_alertmanager_url src = '''' then Inl ErrNoSilenceTarget
           else Inr \<lparr>scope_Labels = Labels r, scope_Targets = [target_of r src]\<rparr>))"

definition SilenceRemovalScope ::
  "(string \<Rightarrow> string \<Rightarrow> bool) \<Rightarrow> Principal \<Rightarrow> int \<Rightarrow> string \<Rightarrow> db \<Rightarrow> db_error + SilenceTarget" where
  "SilenceRemovalScope pgrx caller alertID silenceID s =
     (if \<not> CanOperate caller then Inl ErrNotFound
      else if TrimSpace silenceID = '''' then Inl (ErrMessage ''a silence id is required'')
      else bind_res (select_with_source pgrx caller alertID s)
        (\<lambda>(r, src).
           if silenceID \<notin> set (SilencedBy r) then Inl ErrNotFound
           else if row_alertmanager_url src = '''' then Inl ErrNoSilenceTarget
           else Inr (target_of r src)))"

section \<open>A group\<close>

text \<open>A condition of the group: the source or a label equals the argument of a placeholder.\<close>

datatype key_condition = SourceIs nat | LabelIs string nat

definition key_holds :: "arg list \<Rightarrow> alert_row \<Rightarrow> key_condition \<Rightarrow> bool" where
  "key_holds args r c =
     (case c of
        SourceIs n \<Rightarrow> SourceSlug r = arg_text args n
      | LabelIs name n \<Rightarrow> golookup (Labels r) name = arg_text args n)"

fun key_conditions ::
  "string list \<Rightarrow> labels \<Rightarrow> labels \<times> key_condition list \<times> arg list \<Rightarrow>
   db_error + labels \<times> key_condition list \<times> arg list" where
  "key_conditions [] key (labels, conditions, args) = Inr (labels, conditions, args)"
| "key_conditions (name # groupBy) key (labels, conditions, args) =
     (case fmlookup key name of
        None \<Rightarrow> Inl (ErrMessage (''group key is missing '' @ [CHR 0x22] @ name @ [CHR 0x22]))
      | Some value \<Rightarrow>
          let args1 = args @ [ArgText value]
          in if name = ''source''
             then key_conditions groupBy key (labels, conditions @ [SourceIs (length args1)], args1)
             else key_conditions groupBy key
                    (fmupd name value labels, conditions @ [LabelIs name (length args1)], args1))"

text \<open>\<open>common\<close>: the label pairs of the members of one source, kept when every member has the
  name and the least and the greatest value are the same.\<close>

definition label_pairs :: "alert_row list \<Rightarrow> (string \<times> string) list" where
  "label_pairs members =
     concat (map (\<lambda>r. map (\<lambda>name. (name, golookup (Labels r) name)) (sorted_keys (Labels r))) members)"

definition values_of :: "string \<Rightarrow> (string \<times> string) list \<Rightarrow> string list" where
  "values_of name pairs = map snd (filter (\<lambda>p. fst p = name) pairs)"

definition agreed :: "nat \<Rightarrow> (string \<times> string) list \<Rightarrow> string \<Rightarrow> bool" where
  "agreed members pairs name \<longleftrightarrow>
     (let found = values_of name pairs
      in length found = members \<and> Min (set found) = Max (set found))"

definition common_of :: "alert_row list \<Rightarrow> labels" where
  "common_of members =
     (let pairs = label_pairs members
      in fmap_of_list (map (\<lambda>name. (name, Min (set (values_of name pairs))))
           (filter (agreed (length members) pairs) (remdups (map fst pairs)))))"

definition add_labels :: "labels \<Rightarrow> labels \<Rightarrow> labels" where
  "add_labels common labels =
     fold (\<lambda>name common. fmupd name (golookup labels name) common) (sorted_keys labels) common"

text \<open>One row of the result and what the loop makes of it.\<close>

definition add_target ::
  "db \<Rightarrow> alert_row list \<Rightarrow> labels \<Rightarrow> string \<Rightarrow> nat \<times> SilenceTarget list \<Rightarrow> nat \<times> SilenceTarget list" where
  "add_target s scoped labels slug acc =
     (let (members, targets) = acc;
          here = filter (\<lambda>r. SourceSlug r = slug) scoped
      in case joined_source s slug of
           None \<Rightarrow> acc
         | Some src \<Rightarrow>
             (let members = members + length here
              in if row_alertmanager_url src = '''' then (members, targets)
                 else (members, targets @
                   [\<lparr>target_Source = slug, target_AlertmanagerURL = row_alertmanager_url src,
                     target_AlertmanagerToken = row_alertmanager_token src,
                     target_Labels = add_labels (common_of here) labels, target_Members = length here\<rparr>])))"

definition scoped_rows ::
  "(string \<Rightarrow> string \<Rightarrow> bool) \<Rightarrow> key_condition list \<Rightarrow> sql \<times> arg list \<Rightarrow> db \<Rightarrow> alert_row list" where
  "scoped_rows pgrx conditions access s =
     filter (\<lambda>r. list_all (key_holds (snd access) r) conditions \<and> Status r = StatusFiring \<and>
        sql_true (eval_sql pgrx (snd access) (row_of r) (fst access))) (alert_rows s)"

definition SilenceScopeForGroup ::
  "(string \<Rightarrow> string \<Rightarrow> bool) \<Rightarrow> (string \<Rightarrow> string) \<Rightarrow> Principal \<Rightarrow> string list \<Rightarrow> labels \<Rightarrow> db \<Rightarrow>
   db_error + SilenceScope" where
  "SilenceScopeForGroup pgrx strxfrm caller groupBy key s =
     (if \<not> CanOperate caller then Inl ErrNotFound
      else (case ValidateGroupBy groupBy of
        Inl e \<Rightarrow> Inl (ErrGroupBy e)
      | Inr u \<Rightarrow>
          bind_res (key_conditions groupBy key (fmempty, [], []))
            (\<lambda>(labels, conditions, args).
               if labels = fmempty
               then Inl (ErrMessage ''a group keyed only by source has no labels to silence on'')
               else
                 let access = operateAccessCondition caller ColLabels args
                 in if \<not> statement_ok {1..length args} (fst access) (snd access) \<or>
                       \<not> list_all (\<lambda>a. case a of ArgText t \<Rightarrow> text_ok t | _ \<Rightarrow> True) args
                    then Inl ErrDatabase
                    else
                      let scoped = scoped_rows pgrx conditions access s;
                          (members, targets) =
                            fold (add_target s scoped labels)
                              (sort_key strxfrm (remdups (map SourceSlug scoped))) (0, [])
                      in if members = 0 then Inl ErrNotFound
                         else if targets = [] then Inl ErrNoSilenceTarget
                         else Inr \<lparr>scope_Labels = CommonLabels targets, scope_Targets = targets\<rparr>)))"

section \<open>Specification\<close>

text \<open>The rows a group key names.\<close>

definition in_group :: "string list \<Rightarrow> labels \<Rightarrow> alert_row \<Rightarrow> bool" where
  "in_group groupBy key r \<longleftrightarrow>
     list_all (\<lambda>name. golookup key name =
       (if name = ''source'' then SourceSlug r else golookup (Labels r) name)) groupBy"

definition group_members ::
  "(string \<Rightarrow> string \<Rightarrow> bool) \<Rightarrow> Principal \<Rightarrow> string list \<Rightarrow> labels \<Rightarrow> db \<Rightarrow> string \<Rightarrow> alert_row list" where
  "group_members pgrx caller groupBy key s slug =
     filter (\<lambda>r. in_group groupBy key r \<and> Status r = StatusFiring \<and>
       sql_can_operate pgrx caller (Labels r) \<and> SourceSlug r = slug) (alert_rows s)"

text \<open>What one source adds to the targets and to the members.\<close>

definition source_targets :: "db \<Rightarrow> alert_row list \<Rightarrow> labels \<Rightarrow> string \<Rightarrow> SilenceTarget list" where
  "source_targets s scoped labels slug = snd (add_target s scoped labels slug (0, []))"

definition source_members :: "db \<Rightarrow> alert_row list \<Rightarrow> string \<Rightarrow> nat" where
  "source_members s scoped slug =
     (if joined_source s slug = None then 0 else length (filter (\<lambda>r. SourceSlug r = slug) scoped))"

text \<open>What an Alertmanager suppresses for equality matchers on these labels.\<close>

definition silenced :: "labels \<Rightarrow> labels \<Rightarrow> bool" where
  "silenced matchers l \<longleftrightarrow> list_all (\<lambda>m. golookup l (mt_Name m) = mt_Value m) (MatchersFromLabels matchers)"

text \<open>Three firing alerts of one name and three teams, and an operator for two of the teams.\<close>

definition team_labels :: "string \<Rightarrow> labels" where
  "team_labels team = fmap_of_list [(''alertname'', ''HighCPU''), (''team'', team)]"

definition team_row :: "int \<Rightarrow> string \<Rightarrow> alert_row" where
  "team_row i team = sample_row\<lparr>ID := i, Fingerprint := team, Labels := team_labels team\<rparr>"

definition teams_db :: db where
  "teams_db = sample_db\<lparr>alert_rows := [team_row 1 ''a'', team_row 2 ''b'', team_row 3 ''c''], next_alert := 4\<rparr>"

definition team_grant :: "string \<Rightarrow> Grant" where
  "team_grant team = \<lparr>grant_Role = RoleOperator,
     grant_Matchers = [\<lparr>matcher_Name = ''team'', matcher_Operator = ''='', matcher_Value = team\<rparr>]\<rparr>"

definition two_teams :: Principal where
  "two_teams = sample_operator\<lparr>Grants := [team_grant ''a'', team_grant ''b'']\<rparr>"

definition one_team :: Principal where
  "one_team = sample_operator\<lparr>Grants := [team_grant ''a'']\<rparr>"

definition name_key :: labels where
  "name_key = fmap_of_list [(''alertname'', ''HighCPU'')]"

section \<open>Lemmas\<close>

lemma silenced_iff: "silenced matchers l \<longleftrightarrow> (\<forall>k v. fmlookup matchers k = Some v \<longrightarrow> golookup l k = v)"
  by (force simp: silenced_def MatchersFromLabels_def list_all_iff golookup_def fmlookup_dom_iff)

lemma silenced_self: "silenced l l"
  by (simp add: silenced_iff golookup_Some)

lemma values_of_append: "values_of name (xs @ ys) = values_of name xs @ values_of name ys"
  by (simp add: values_of_def)

lemma values_of_row:
  "values_of name (map (\<lambda>n. (n, golookup l n)) (sorted_keys l)) =
     (case fmlookup l name of None \<Rightarrow> [] | Some v \<Rightarrow> [v])"
proof -
  have *: "values_of name (map (\<lambda>n. (n, golookup l n)) ks) = (if name \<in> set ks then [golookup l name] else [])"
    if "distinct ks" for ks
    using that by (induction ks) (auto simp: values_of_def)
  show ?thesis
    by (subst * [OF distinct_sorted_keys]) (cases "fmlookup l name", simp_all add: golookup_def fmlookup_dom_iff)
qed

lemma values_of_pairs:
  "values_of name (label_pairs members) = List.map_filter (\<lambda>r. fmlookup (Labels r) name) members"
proof (induction members)
  case Nil
  show ?case by (simp add: label_pairs_def values_of_def)
next
  case (Cons r members)
  then show ?case
    by (simp add: label_pairs_def values_of_append values_of_row split: option.splits)
qed

lemma map_filter_full:
  "length (List.map_filter f xs) = length xs \<longleftrightarrow> (\<forall>x \<in> set xs. f x \<noteq> None)"
proof (induction xs)
  case (Cons x xs)
  have "length (List.map_filter f xs) \<le> length xs" for xs by (simp add: List.map_filter_def)
  from this [of xs] Cons show ?case by (cases "f x") auto
qed simp

lemma Min_eq_Max: "finite A \<Longrightarrow> A \<noteq> {} \<Longrightarrow> Min A = Max A \<longleftrightarrow> (\<exists>v. A = {v})" for A :: "string set"
proof
  assume A: "finite A" "A \<noteq> {}" and eq: "Min A = Max A"
  have "x = Min A" if "x \<in> A" for x using A(1) that eq by (metis Max_ge Min_le order.antisym)
  with A(2) show "\<exists>v. A = {v}" by blast
qed auto

lemma single_value:
  fixes xs :: "string list"
  assumes "xs \<noteq> []"
  shows "Min (set xs) = Max (set xs) \<and> v = Min (set xs) \<longleftrightarrow> set xs = {v}"
proof
  assume "Min (set xs) = Max (set xs) \<and> v = Min (set xs)"
  then obtain w where "set xs = {w}" "v = Min (set xs)" using Min_eq_Max [of "set xs"] assms by auto
  then show "set xs = {v}" by simp
qed simp

lemma set_map_filter_all:
  "\<forall>x \<in> set xs. f x \<noteq> None \<Longrightarrow> List.map_filter f xs = map (\<lambda>x. the (f x)) xs"
  by (induction xs) auto

lemma map_filter_constant:
  "List.map_filter f xs \<noteq> [] \<and> length (List.map_filter f xs) = length xs \<and> set (List.map_filter f xs) = {v} \<longleftrightarrow>
     xs \<noteq> [] \<and> (\<forall>x \<in> set xs. f x = Some v)"
proof (cases "\<forall>x \<in> set xs. f x \<noteq> None")
  case True
  have "(\<lambda>x. the (f x)) ` set xs = {v} \<longleftrightarrow> xs \<noteq> [] \<and> (\<forall>x \<in> set xs. f x = Some v)"
  proof
    assume a: "(\<lambda>x. the (f x)) ` set xs = {v}"
    have "f x = Some v" if x: "x \<in> set xs" for x
    proof -
      have "the (f x) = v" using a x by (metis imageI singletonD)
      with True x show ?thesis by (metis option.collapse)
    qed
    with a show "xs \<noteq> [] \<and> (\<forall>x \<in> set xs. f x = Some v)" by (cases xs) auto
  qed (cases xs, auto)
  then show ?thesis
    by (simp only: set_map_filter_all [OF True] map_is_Nil_conv length_map set_map simp_thms)
next
  case False
  then have "length (List.map_filter f xs) \<noteq> length xs" unfolding map_filter_full by assumption
  moreover have "\<not> (\<forall>x \<in> set xs. f x = Some v)" 
  proof
    assume "\<forall>x \<in> set xs. f x = Some v"
    then have "\<forall>x \<in> set xs. f x \<noteq> None" by simp
    with False show False by contradiction
  qed
  ultimately show ?thesis by blast
qed

text \<open>The aggregation finds exactly the labels every member carries with the same value.\<close>

lemma fmlookup_common_of:
  "fmlookup (common_of members) name = Some v \<longleftrightarrow>
     members \<noteq> [] \<and> (\<forall>r \<in> set members. fmlookup (Labels r) name = Some v)"
proof -
  let ?pairs = "label_pairs members"
  let ?found = "List.map_filter (\<lambda>r. fmlookup (Labels r) name) members"
  have in_pairs: "name \<in> set (map fst ?pairs) \<longleftrightarrow> ?found \<noteq> []"
    unfolding values_of_pairs [symmetric] values_of_def by (auto simp: filter_empty_conv)
  have "fmlookup (common_of members) name = Some v \<longleftrightarrow>
      ?found \<noteq> [] \<and> agreed (length members) ?pairs name \<and> v = Min (set ?found)"
    using in_pairs by (auto simp: common_of_def Let_def fmlookup_of_list map_of_map_restrict values_of_pairs
        restrict_map_def split: if_splits)
  also have "\<dots> \<longleftrightarrow> ?found \<noteq> [] \<and> length ?found = length members \<and> set ?found = {v}"
    unfolding agreed_def Let_def values_of_pairs using single_value by blast
  also have "\<dots> \<longleftrightarrow> members \<noteq> [] \<and> (\<forall>r \<in> set members. fmlookup (Labels r) name = Some v)"
    by (rule map_filter_constant)
  finally show ?thesis .
qed

lemma fmlookup_add_labels:
  "fmlookup (add_labels common labels) name =
     (case fmlookup labels name of None \<Rightarrow> fmlookup common name | Some v \<Rightarrow> Some v)"
proof -
  have "fmlookup (fold (\<lambda>name common. fmupd name (golookup labels name) common) ks common) name =
      (if name \<in> set ks then Some (golookup labels name) else fmlookup common name)" for ks
    by (induction ks arbitrary: common) auto
  then show ?thesis
    by (cases "fmlookup labels name") (simp_all add: add_labels_def golookup_def fmlookup_dom_iff)
qed

subsection \<open>The group query\<close>

text \<open>The conditions the loop builds say that a row is in the group; the labels it collects are
  those of the key but for the source.\<close>

lemma key_conditions_spec:
  assumes "key_conditions groupBy key (labels, conditions, args) = Inr (labels', conditions', args')"
  shows "\<exists>more. args' = args @ map ArgText more \<and> length more = length groupBy \<and>
      (\<forall>v \<in> set more. \<exists>name \<in> set groupBy. fmlookup key name = Some v)"
    "\<forall>name \<in> set groupBy. fmlookup key name \<noteq> None"
    "\<And>xs r. list_all (key_holds (args' @ xs) r) conditions' \<longleftrightarrow>
      list_all (key_holds (args' @ xs) r) conditions \<and> in_group groupBy key r"
    "\<And>name. fmlookup labels' name =
      (if name \<in> set groupBy \<and> name \<noteq> ''source'' then fmlookup key name else fmlookup labels name)"
proof -
  have "(\<exists>more. args' = args @ map ArgText more \<and> length more = length groupBy \<and>
      (\<forall>v \<in> set more. \<exists>name \<in> set groupBy. fmlookup key name = Some v)) \<and>
    (\<forall>name \<in> set groupBy. fmlookup key name \<noteq> None) \<and>
    (\<forall>xs r. list_all (key_holds (args' @ xs) r) conditions' \<longleftrightarrow>
      list_all (key_holds (args' @ xs) r) conditions \<and> in_group groupBy key r) \<and>
    (\<forall>name. fmlookup labels' name =
      (if name \<in> set groupBy \<and> name \<noteq> ''source'' then fmlookup key name else fmlookup labels name))"
    using assms
  proof (induction groupBy arbitrary: labels conditions args)
    case Nil
    then show ?case by (simp add: in_group_def)
  next
    case (Cons name groupBy)
    obtain val where val: "fmlookup key name = Some val"
      using Cons.prems by (cases "fmlookup key name") simp_all
    let ?args = "args @ [ArgText val]"
    let ?labels = "if name = ''source'' then labels else fmupd name val labels"
    let ?c = "if name = ''source'' then SourceIs (length ?args) else LabelIs name (length ?args)"
    have rec: "key_conditions groupBy key (?labels, conditions @ [?c], ?args) = Inr (labels', conditions', args')"
      using Cons.prems val by (cases "name = ''source''") (simp_all add: Let_def)
    note ih = Cons.IH [OF rec]
    obtain more where more: "args' = ?args @ map ArgText more" "length more = length groupBy"
      "\<forall>v \<in> set more. \<exists>name \<in> set groupBy. fmlookup key name = Some v"
      using ih by blast
    have c: "key_holds (args' @ xs) r ?c \<longleftrightarrow>
        golookup key name = (if name = ''source'' then SourceSlug r else golookup (Labels r) name)" for xs r
      using more(1) val by (auto simp: key_holds_def golookup_Some)
    have "\<exists>more. args' = args @ map ArgText more \<and> length more = length (name # groupBy) \<and>
        (\<forall>v \<in> set more. \<exists>n \<in> set (name # groupBy). fmlookup key n = Some v)"
      using more val by (intro exI [of _ "val # more"]) auto
    moreover have "list_all (key_holds (args' @ xs) r) conditions' \<longleftrightarrow>
        list_all (key_holds (args' @ xs) r) conditions \<and> in_group (name # groupBy) key r" for xs r
      using ih c [of xs r] by (auto simp: in_group_def)
    moreover have "fmlookup labels' n =
        (if n \<in> set (name # groupBy) \<and> n \<noteq> ''source'' then fmlookup key n else fmlookup labels n)" for n
      using ih val by auto
    ultimately show ?case using ih val by simp
  qed
  then show "\<exists>more. args' = args @ map ArgText more \<and> length more = length groupBy \<and>
      (\<forall>v \<in> set more. \<exists>name \<in> set groupBy. fmlookup key name = Some v)"
    "\<forall>name \<in> set groupBy. fmlookup key name \<noteq> None"
    "\<And>xs r. list_all (key_holds (args' @ xs) r) conditions' \<longleftrightarrow>
      list_all (key_holds (args' @ xs) r) conditions \<and> in_group groupBy key r"
    "\<And>name. fmlookup labels' name =
      (if name \<in> set groupBy \<and> name \<noteq> ''source'' then fmlookup key name else fmlookup labels name)"
    by blast+
qed

lemma scoped_rows_members:
  assumes "key_conditions groupBy key (fmempty, [], []) = Inr (labels, conditions, args)"
  shows "filter (\<lambda>r. SourceSlug r = slug)
      (scoped_rows pgrx conditions (operateAccessCondition caller ColLabels args) s) =
    group_members pgrx caller groupBy key s slug"
proof -
  obtain xs where xs: "snd (operateAccessCondition caller ColLabels args) = args @ xs"
    using access_args_prefix(2) by blast
  have "list_all (key_holds (snd (operateAccessCondition caller ColLabels args)) r) conditions \<longleftrightarrow> in_group groupBy key r"
    for r using key_conditions_spec(3) [OF assms, of xs r] xs by simp
  then show ?thesis
    by (auto simp: scoped_rows_def group_members_def eval_operate_row intro!: filter_cong)
qed

lemma scoped_rows_sources:
  assumes "key_conditions groupBy key (fmempty, [], []) = Inr (labels, conditions, args)"
  shows "slug \<in> SourceSlug ` set (scoped_rows pgrx conditions (operateAccessCondition caller ColLabels args) s) \<longleftrightarrow>
    group_members pgrx caller groupBy key s slug \<noteq> []"
  unfolding scoped_rows_members [OF assms, symmetric] by (auto simp: filter_empty_conv)

text \<open>The loop over the sources.\<close>

lemma add_target_split:
  "add_target s scoped labels slug (m, ts) =
     (m + source_members s scoped slug, ts @ source_targets s scoped labels slug)"
  by (simp add: add_target_def source_targets_def source_members_def Let_def split: option.splits)

lemma fold_add_target:
  "fold (add_target s scoped labels) slugs (m, ts) =
     (m + sum_list (map (source_members s scoped) slugs), ts @ concat (map (source_targets s scoped labels) slugs))"
  by (induction slugs arbitrary: m ts) (simp_all add: add_target_split)

lemma source_of_Some:
  assumes "sources_ok s"
  shows "joined_source s slug = Some src \<longleftrightarrow> src \<in> set (alert_sources s) \<and> row_slug src = slug"
proof
  assume "joined_source s slug = Some src"
  then show "src \<in> set (alert_sources s) \<and> row_slug src = slug"
    by (auto simp: joined_source_def find_Some_iff)
next
  assume r: "src \<in> set (alert_sources s) \<and> row_slug src = slug"
  then obtain src' where src': "joined_source s slug = Some src'"
    unfolding joined_source_def by (metis (mono_tags, lifting) find_None_iff not_None_eq)
  then have "src' \<in> set (alert_sources s)" "row_slug src' = slug" by (auto simp: joined_source_def find_Some_iff)
  moreover have "inj_on row_slug (set (alert_sources s))" using assms by (simp add: sources_ok_def distinct_map)
  ultimately show "joined_source s slug = Some src" using r src' by (metis inj_onD)
qed

lemma source_targets_iff:
  "t \<in> set (source_targets s scoped labels slug) \<longleftrightarrow>
     (\<exists>src. joined_source s slug = Some src \<and> row_alertmanager_url src \<noteq> '''' \<and>
        t = \<lparr>target_Source = slug, target_AlertmanagerURL = row_alertmanager_url src,
             target_AlertmanagerToken = row_alertmanager_token src,
             target_Labels = add_labels (common_of (filter (\<lambda>r. SourceSlug r = slug) scoped)) labels,
             target_Members = length (filter (\<lambda>r. SourceSlug r = slug) scoped)\<rparr>)"
  by (auto simp: source_targets_def add_target_def Let_def split: option.splits)

lemma source_targets_sources:
  "map target_Source (source_targets s scoped labels slug) = [] \<or>
   map target_Source (source_targets s scoped labels slug) = [slug]"
  by (simp add: source_targets_def add_target_def Let_def split: option.splits)

lemma distinct_target_sources:
  "distinct slugs \<Longrightarrow> distinct (map target_Source (concat (map (source_targets s scoped labels) slugs)))"
proof (induction slugs)
  case (Cons slug slugs)
  have "set (map target_Source (concat (map (source_targets s scoped labels) slugs))) \<subseteq> set slugs"
    by (auto simp: source_targets_iff)
  then have "slug \<notin> set (map target_Source (concat (map (source_targets s scoped labels) slugs)))"
    using Cons.prems by auto
  moreover have "distinct (map target_Source (concat (map (source_targets s scoped labels) slugs)))"
    using Cons by simp
  ultimately show ?case
    using source_targets_sources [of s scoped labels slug]
    by (elim disjE) (simp_all only: list.map concat.simps map_append append.simps distinct.simps simp_thms)
qed simp

text \<open>What a resolved group is made of.\<close>

lemma group_scope_result:
  assumes "SilenceScopeForGroup pgrx strxfrm caller groupBy key s = Inr scope"
  obtains labels conditions args slugs where
    "CanOperate caller" "ValidateGroupBy groupBy = Inr ()"
    "key_conditions groupBy key (fmempty, [], []) = Inr (labels, conditions, args)" "labels \<noteq> fmempty"
    "distinct slugs" "set slugs = {slug. group_members pgrx caller groupBy key s slug \<noteq> []}"
    "scope_Targets scope = concat (map (source_targets s
        (scoped_rows pgrx conditions (operateAccessCondition caller ColLabels args) s) labels) slugs)"
    "scope_Targets scope \<noteq> []" "scope_Labels scope = CommonLabels (scope_Targets scope)"
proof -
  obtain labels conditions args where
    k: "CanOperate caller" "ValidateGroupBy groupBy = Inr ()"
      "key_conditions groupBy key (fmempty, [], []) = Inr (labels, conditions, args)" "labels \<noteq> fmempty"
    using assms by (auto simp: SilenceScopeForGroup_def bind_res_Inr split: sum.splits if_splits prod.splits)
  let ?scoped = "scoped_rows pgrx conditions (operateAccessCondition caller ColLabels args) s"
  let ?slugs = "sort_key strxfrm (remdups (map SourceSlug ?scoped))"
  have "distinct ?slugs" by simp
  moreover have "set ?slugs = {slug. group_members pgrx caller groupBy key s slug \<noteq> []}"
    unfolding scoped_rows_sources [OF k(3), symmetric] by auto
  moreover have "scope_Targets scope = concat (map (source_targets s ?scoped labels) ?slugs) \<and>
      scope_Targets scope \<noteq> [] \<and> scope_Labels scope = CommonLabels (scope_Targets scope)"
    using assms k by (auto simp: SilenceScopeForGroup_def Let_def fold_add_target split: if_splits)
  ultimately show thesis using that [OF k] by blast
qed

lemma group_target:
  assumes "SilenceScopeForGroup pgrx strxfrm caller groupBy key s = Inr scope" "t \<in> set (scope_Targets scope)"
  shows "\<exists>src. joined_source s (target_Source t) = Some src \<and> row_alertmanager_url src \<noteq> '''' \<and>
      target_AlertmanagerURL t = row_alertmanager_url src \<and> target_AlertmanagerToken t = row_alertmanager_token src"
    "group_members pgrx caller groupBy key s (target_Source t) \<noteq> []"
    "target_Members t = length (group_members pgrx caller groupBy key s (target_Source t))"
    "fmlookup (target_Labels t) name = Some v \<longleftrightarrow>
      (if name \<in> set groupBy \<and> name \<noteq> ''source'' then fmlookup key name = Some v
       else \<forall>r \<in> set (group_members pgrx caller groupBy key s (target_Source t)). fmlookup (Labels r) name = Some v)"
proof -
  from assms(1) obtain labels conditions args slugs where
    k: "key_conditions groupBy key (fmempty, [], []) = Inr (labels, conditions, args)"
      "set slugs = {slug. group_members pgrx caller groupBy key s slug \<noteq> []}"
      "scope_Targets scope = concat (map (source_targets s
        (scoped_rows pgrx conditions (operateAccessCondition caller ColLabels args) s) labels) slugs)"
    by (rule group_scope_result) blast
  obtain slug src where slug: "slug \<in> set slugs" "joined_source s slug = Some src" "row_alertmanager_url src \<noteq> ''''"
    and t: "t = \<lparr>target_Source = slug, target_AlertmanagerURL = row_alertmanager_url src,
       target_AlertmanagerToken = row_alertmanager_token src,
       target_Labels = add_labels (common_of (group_members pgrx caller groupBy key s slug)) labels,
       target_Members = length (group_members pgrx caller groupBy key s slug)\<rparr>"
    using assms(2) unfolding k(3) by (auto simp: source_targets_iff scoped_rows_members [OF k(1)])
  show "\<exists>src. joined_source s (target_Source t) = Some src \<and> row_alertmanager_url src \<noteq> '''' \<and>
      target_AlertmanagerURL t = row_alertmanager_url src \<and> target_AlertmanagerToken t = row_alertmanager_token src"
    using slug t by simp
  show members: "group_members pgrx caller groupBy key s (target_Source t) \<noteq> []"
    using slug(1) k(2) t by simp
  show "target_Members t = length (group_members pgrx caller groupBy key s (target_Source t))" using t by simp
  have "fmlookup labels name = (if name \<in> set groupBy \<and> name \<noteq> ''source'' then fmlookup key name else None)"
    using key_conditions_spec(4) [OF k(1)] by simp
  moreover have "fmlookup key name \<noteq> None" if "name \<in> set groupBy" using key_conditions_spec(2) [OF k(1)] that by blast
  ultimately show "fmlookup (target_Labels t) name = Some v \<longleftrightarrow>
      (if name \<in> set groupBy \<and> name \<noteq> ''source'' then fmlookup key name = Some v
       else \<forall>r \<in> set (group_members pgrx caller groupBy key s (target_Source t)). fmlookup (Labels r) name = Some v)"
    using members t by (auto simp: fmlookup_add_labels fmlookup_common_of)
qed

lemma group_member_label:
  assumes "r \<in> set (group_members pgrx caller groupBy key s slug)" "name \<in> set groupBy" "name \<noteq> ''source''"
  shows "golookup (Labels r) name = golookup key name"
  using assms by (auto simp: group_members_def in_group_def list_all_iff)

lemma group_covers:
  assumes "SilenceScopeForGroup pgrx strxfrm caller groupBy key s = Inr scope" "t \<in> set (scope_Targets scope)"
    "r \<in> set (group_members pgrx caller groupBy key s (target_Source t))"
  shows "silenced (target_Labels t) (Labels r)"
  unfolding silenced_iff
proof (intro allI impI)
  fix name v
  assume l: "fmlookup (target_Labels t) name = Some v"
  show "golookup (Labels r) name = v"
  proof (cases "name \<in> set groupBy \<and> name \<noteq> ''source''")
    case True
    with l have "fmlookup key name = Some v" unfolding group_target(4) [OF assms(1,2)] by simp
    with group_member_label [OF assms(3)] True show ?thesis by (simp add: golookup_Some)
  next
    case False
    with l assms(3) have "fmlookup (Labels r) name = Some v" unfolding group_target(4) [OF assms(1,2)] by auto
    then show ?thesis by (rule golookup_Some)
  qed
qed

lemma group_narrowest:
  assumes "SilenceScopeForGroup pgrx strxfrm caller groupBy key s = Inr scope" "t \<in> set (scope_Targets scope)"
    "\<forall>r \<in> set (group_members pgrx caller groupBy key s (target_Source t)). silenced L (Labels r)"
    "fmlookup L name = Some v" "v \<noteq> ''''"
  shows "fmlookup (target_Labels t) name = Some v"
proof -
  have all: "golookup (Labels r) name = v"
    if "r \<in> set (group_members pgrx caller groupBy key s (target_Source t))" for r
    using assms(3,4) that by (auto simp: silenced_iff)
  obtain r where r: "r \<in> set (group_members pgrx caller groupBy key s (target_Source t))"
    using group_target(2) [OF assms(1,2)] by (meson last_in_set)
  show ?thesis
  proof (cases "name \<in> set groupBy \<and> name \<noteq> ''source''")
    case True
    then have "golookup key name = v" using all [OF r] group_member_label [OF r] by simp
    then have "fmlookup key name = Some v" using assms(5) by (auto simp: golookup_def split: option.splits)
    with True show ?thesis unfolding group_target(4) [OF assms(1,2)] by simp
  next
    case False
    have "fmlookup (Labels r) name = Some v"
      if "r \<in> set (group_members pgrx caller groupBy key s (target_Source t))" for r
      using all [OF that] assms(5) by (auto simp: golookup_def split: option.splits)
    with False show ?thesis unfolding group_target(4) [OF assms(1,2)] by auto
  qed
qed

lemma group_reaches:
  assumes "SilenceScopeForGroup pgrx strxfrm caller groupBy key s = Inr scope"
    "group_members pgrx caller groupBy key s slug \<noteq> []" "joined_source s slug = Some src" "row_alertmanager_url src \<noteq> ''''"
  shows "slug \<in> target_Source ` set (scope_Targets scope)"
proof -
  from assms(1) obtain labels conditions args slugs where
    k: "set slugs = {slug. group_members pgrx caller groupBy key s slug \<noteq> []}"
      "scope_Targets scope = concat (map (source_targets s
        (scoped_rows pgrx conditions (operateAccessCondition caller ColLabels args) s) labels) slugs)"
    by (rule group_scope_result) blast
  have "slug \<in> set slugs" using k(1) assms(2) by simp
  moreover have "\<exists>t \<in> set (source_targets s
        (scoped_rows pgrx conditions (operateAccessCondition caller ColLabels args) s) labels slug). target_Source t = slug"
    using assms(3,4) by (simp add: source_targets_def add_target_def Let_def)
  ultimately show ?thesis unfolding k(2) by (auto simp: image_iff)
qed

lemma key_conditions_total:
  "\<forall>name \<in> set groupBy. fmlookup key name \<noteq> None \<Longrightarrow>
     \<exists>labels' conditions' args'. key_conditions groupBy key (labels, conditions, args) = Inr (labels', conditions', args')"
  by (induction groupBy arbitrary: labels conditions args) (auto simp: Let_def)

lemma group_scope_total:
  assumes "CanOperate caller" "known_grants (Grants caller)" "clean_grants operates (Grants caller)"
    "ValidateGroupBy groupBy = Inr ()" "\<forall>name \<in> set groupBy. \<exists>v. fmlookup key name = Some v \<and> text_ok v"
    "\<exists>name \<in> set groupBy. name \<noteq> ''source''"
    "group_members pgrx caller groupBy key s slug \<noteq> []" "joined_source s slug = Some src" "row_alertmanager_url src \<noteq> ''''"
  shows "\<exists>scope. SilenceScopeForGroup pgrx strxfrm caller groupBy key s = Inr scope"
proof -
  obtain labels conditions args where
    k: "key_conditions groupBy key (fmempty, [], []) = Inr (labels, conditions, args)"
    using key_conditions_total [of groupBy key fmempty "[]" "[]"] assms(5) by (metis option.distinct(1))
  obtain more where more: "args = map ArgText more" "\<forall>v \<in> set more. \<exists>name \<in> set groupBy. fmlookup key name = Some v"
    using key_conditions_spec(1) [OF k] by auto
  have texts: "list_all (\<lambda>a. case a of ArgText t \<Rightarrow> text_ok t | _ \<Rightarrow> True) args"
    using more assms(5) by (fastforce simp: list_all_iff)
  have "labels \<noteq> fmempty"
    using key_conditions_spec(4) [OF k] assms(5,6) by (metis fmempty_lookup option.distinct(1))
  moreover have "statement_ok {1..length args} (fst (operateAccessCondition caller ColLabels args))
      (snd (operateAccessCondition caller ColLabels args))"
    using operateAccessCondition_accepted [OF assms(2)] assms(3) by blast
  moreover define scoped where "scoped = scoped_rows pgrx conditions (operateAccessCondition caller ColLabels args) s"
  moreover define slugs where "slugs = sort_key strxfrm (remdups (map SourceSlug scoped))"
  moreover have slug: "slug \<in> set slugs"
    using scoped_rows_sources [OF k] assms(7) unfolding slugs_def scoped_def by simp
  moreover have "source_members s scoped slug \<noteq> 0"
    using assms(7,8) scoped_rows_members [OF k] unfolding scoped_def source_members_def by simp
  with slug have "sum_list (map (source_members s scoped) slugs) \<noteq> 0" by auto
  moreover have "source_targets s scoped labels slug \<noteq> []"
    using assms(8,9) by (simp add: source_targets_def add_target_def Let_def)
  with slug have "concat (map (source_targets s scoped labels) slugs) \<noteq> []" by auto
  ultimately show ?thesis
    using assms(1,4) k texts
    by (auto simp: SilenceScopeForGroup_def fold_add_target Let_def)
qed

subsection \<open>Scopes\<close>

text \<open>Whoever an Alertmanager silences with the full labels of an alert carries them all, so the
  grant that covers the alert covers it too; unless a label is empty, which an absent one equals.\<close>

lemma pg_match_silenced:
  assumes "pg_match_all pgrx ms l" "\<forall>v. fmlookup l k = Some v \<longrightarrow> v \<noteq> ''''" "silenced l l'" "m \<in> set ms"
    "matcher_Name m = k"
  shows "pg_match pgrx m l'"
proof -
  have "pg_match pgrx m l" using assms(1,4) by (simp add: pg_match_all_def)
  then obtain v where v: "fmlookup l k = Some v" "sql_compare pgrx (sql_operator (matcher_Operator m)) v (matcher_Value m)"
    using assms(5) by (auto simp: pg_match_def split: option.splits)
  have "golookup l' k = v" using assms(3) v(1) by (simp add: silenced_iff)
  then have "fmlookup l' k = Some v" using assms(2) v(1) by (auto simp: golookup_def split: option.splits)
  with v(2) assms(5) show ?thesis by (simp add: pg_match_def)
qed

lemma operate_silenced:
  assumes "sql_can_operate pgrx caller l" "'''' \<notin> fmran' l" "silenced l l'"
  shows "sql_can_operate pgrx caller l'"
proof -
  have "\<forall>k v. fmlookup l k = Some v \<longrightarrow> v \<noteq> ''''" using assms(2) by (auto simp: fmran'_def ran_def) 
  then have "pg_match_all pgrx ms l'" if "pg_match_all pgrx ms l" for ms
    using pg_match_silenced [OF that _ assms(3)] by (auto simp: pg_match_all_def)
  with assms(1) show ?thesis by (auto simp: sql_can_operate_iff grants_match_def)
qed

lemma alert_scope_result:
  assumes "SilenceScopeForAlert pgrx caller i s = Inr scope"
  obtains r src where "r \<in> set (alert_rows s)" "ID r = i" "sql_can_operate pgrx caller (Labels r)"
    "Labels r \<noteq> fmempty" "joined_source s (SourceSlug r) = Some src" "row_alertmanager_url src \<noteq> ''''"
    "scope = \<lparr>scope_Labels = Labels r, scope_Targets = [target_of r src]\<rparr>"
proof -
  obtain r src where r: "select_alert pgrx (operateAccessCondition caller ColLabels [ArgInt i]) i s = Inr r"
    "joined_source s (SourceSlug r) = Some src" "Labels r \<noteq> fmempty" "row_alertmanager_url src \<noteq> []"
    "scope = \<lparr>scope_Labels = Labels r, scope_Targets = [target_of r src]\<rparr>"
    using assms by (auto simp: SilenceScopeForAlert_def select_with_source_def bind_res_Inr
        split: if_splits option.splits)
  from that [OF select_operate_Inr [OF r(1)] r(3,2,4,5)] show thesis .
qed

text \<open>All the operator grants of the caller ask for the same labels, by equality.\<close>

lemma group_in_scope:
  assumes "SilenceScopeForGroup pgrx strxfrm caller groupBy key s = Inr scope" "t \<in> set (scope_Targets scope)"
    "\<forall>m \<in> set ms. matcher_Operator m = ''='' \<and> matcher_Value m \<noteq> ''''"
    "\<forall>g \<in> set (Grants caller). operates (grant_Role g) \<longrightarrow> grant_Matchers g = ms"
    "silenced (target_Labels t) l"
  shows "sql_can_operate pgrx caller l"
proof (cases "\<exists>g \<in> set (Grants caller). grant_Role g = RoleAdministrator")
  case True
  then show ?thesis by (auto simp: sql_can_operate_iff grants_match_def)
next
  case False
  let ?members = "group_members pgrx caller groupBy key s (target_Source t)"
  have member: "pg_match_all pgrx ms (Labels r) \<and> (\<exists>g \<in> set (Grants caller). operates (grant_Role g))"
    if "r \<in> set ?members" for r
    using that False assms(4) by (auto simp: group_members_def sql_can_operate_iff grants_match_def)
  have label: "fmlookup l (matcher_Name m) = Some (matcher_Value m)" if m: "m \<in> set ms" for m
  proof -
    let ?L = "fmap_of_list [(matcher_Name m, matcher_Value m)]"
    have "fmlookup (Labels r) (matcher_Name m) = Some (matcher_Value m)" if "r \<in> set ?members" for r
      using member [OF that] m assms(3)
      by (auto simp: pg_match_all_def pg_match_def sql_operator_def sql_compare_def split: option.splits)
    then have "silenced ?L (Labels r)" if "r \<in> set ?members" for r
      using that by (auto simp: silenced_iff golookup_Some fmlookup_of_list)
    then have "fmlookup (target_Labels t) (matcher_Name m) = Some (matcher_Value m)"
      using group_narrowest [OF assms(1,2), of ?L] m assms(3) by (auto simp: fmlookup_of_list)
    then have "golookup l (matcher_Name m) = matcher_Value m" using assms(5) by (simp add: silenced_iff)
    then show ?thesis using m assms(3) by (auto simp: golookup_def split: option.splits)
  qed
  obtain r where "r \<in> set ?members" using group_target(2) [OF assms(1,2)] by (meson last_in_set)
  then obtain g where g: "g \<in> set (Grants caller)" "operates (grant_Role g)" using member by blast
  have "pg_match_all pgrx ms l"
    using label assms(3) by (auto simp: pg_match_all_def pg_match_def sql_operator_def sql_compare_def)
  with g assms(4) show ?thesis by (auto simp: sql_can_operate_iff grants_match_def)
qed

subsection \<open>Samples\<close>

lemmas team_defs = team_labels_def team_row_def teams_db_def team_grant_def two_teams_def one_team_def name_key_def

lemma teams_db_ok: "db_ok teams_db"
  by (simp add: team_defs sample_defs db_ok_def sources_ok_def alerts_ok_def stream_ok_def history_ok_def
      notes_ok_def silences_ok_def alert_checks_def acknowledgement_check_def assignment_check_def close_check_def)

lemma team_scope:
  "sql_can_operate pgrx two_teams (team_labels team) \<longleftrightarrow> team \<in> {''a'', ''b''}"
  "sql_can_operate pgrx one_team (team_labels team) \<longleftrightarrow> team = ''a''"
  by (auto simp: team_defs sql_can_operate_iff grants_match_def operates_def pg_match_all_def pg_match_def
      sql_operator_def sql_compare_def fmlookup_of_list)

lemma team_callers:
  "CanOperate two_teams" "CanOperate one_team" "known_grants (Grants two_teams)" "known_grants (Grants one_team)"
  "clean_grants operates (Grants two_teams)" "clean_grants operates (Grants one_team)"
  by (simp_all add: team_defs sample_operator_def CanOperate_def known_grants_def known_operators_def
      supportedMatcherOps_def unrestricted_grant_def operates_def)

lemma team_members:
  "group_members pgrx two_teams [''alertname''] name_key teams_db ''prod'' = [team_row 1 ''a'', team_row 2 ''b'']"
  "group_members pgrx one_team [''alertname''] name_key teams_db ''prod'' = [team_row 1 ''a'']"
proof -
  have "golookup (team_labels team) ''alertname'' = ''HighCPU''" for team
    by (simp add: team_labels_def golookup_def fmlookup_of_list)
  then have "in_group [''alertname''] name_key (team_row i team)" for i team
    by (simp add: in_group_def team_row_def) (simp add: name_key_def golookup_def fmlookup_of_list)
  moreover have "Status (team_row i team) = StatusFiring" "SourceSlug (team_row i team) = ''prod''"
    "Labels (team_row i team) = team_labels team" for i team
    by (simp_all add: team_row_def sample_row_def)
  ultimately show "group_members pgrx two_teams [''alertname''] name_key teams_db ''prod'' = [team_row 1 ''a'', team_row 2 ''b'']"
    "group_members pgrx one_team [''alertname''] name_key teams_db ''prod'' = [team_row 1 ''a'']"
    by (simp_all add: group_members_def teams_db_def team_scope)
qed

lemma team_source: "joined_source teams_db ''prod'' = Some sample_source" "row_alertmanager_url sample_source \<noteq> ''''"
  by (simp_all add: joined_source_def teams_db_def sample_db_def sample_source_def)

lemma team_group_key:
  "ValidateGroupBy [''alertname''] = Inr ()" "fmlookup name_key ''alertname'' = Some ''HighCPU''"
  by (simp_all add: ValidateGroupBy_ok MaxGroupKeys_def IsGroupKey_def name_key_def fmlookup_of_list
      is_lower_def less_eq_char_def)

lemma team_groups:
  "\<exists>scope. SilenceScopeForGroup pgrx strxfrm two_teams [''alertname''] name_key teams_db = Inr scope"
  "\<exists>scope. SilenceScopeForGroup pgrx strxfrm one_team [''alertname''] name_key teams_db = Inr scope"
  by (rule group_scope_total [where slug = "''prod''" and src = sample_source],
      simp_all add: team_callers team_group_key team_members team_source)+

lemma team_alert_scope:
  "SilenceScopeForAlert pgrx one_team 1 teams_db =
     Inr \<lparr>scope_Labels = team_labels ''a'', scope_Targets = [target_of (team_row 1 ''a'') sample_source]\<rparr>"
proof -
  let ?access = "operateAccessCondition one_team ColLabels [ArgInt 1]"
  have row: "team_row 1 ''a'' \<in> set (alert_rows teams_db)" "ID (team_row 1 ''a'') = 1"
    "Labels (team_row 1 ''a'') = team_labels ''a''" "SourceSlug (team_row 1 ''a'') = ''prod''"
    by (simp_all add: teams_db_def team_row_def sample_row_def)
  have ok: "statement_ok {1} (fst ?access) (snd ?access)"
    using operateAccessCondition_accepted [OF team_callers(4), of "[ArgInt 1]" ColLabels] team_callers(6) by simp
  have "alerts_ok teams_db" using teams_db_ok by (simp add: db_ok_def)
  then have "select_alert pgrx ?access 1 teams_db = Inr (team_row 1 ''a'')"
    using select_alert_found [OF _ ok row(1,2)] by (simp add: eval_operate_row row(3) team_scope)
  moreover have "team_labels ''a'' \<noteq> fmempty"
    unfolding team_labels_def by (metis fmempty_lookup fmlookup_of_list map_of_Cons_code(2) option.distinct(1))
  ultimately show ?thesis
    by (simp add: SilenceScopeForAlert_def select_with_source_def team_callers row(3,4) team_source)
qed

section \<open>Properties\<close>

text \<open>C15: a resolved group silence. It has one target per source that has an Alertmanager and a
  firing member of the group inside the caller's operate scope, with that source's address and
  credential. The match of a target silences every such member of its source, counts them, and is
  the narrowest that does: every equality on a non-empty value that holds of all the members is
  part of it. The summary is what all targets agree on.\<close>

theorem group_silence_covers:
  assumes "SilenceScopeForGroup pgrx strxfrm caller groupBy key s = Inr scope"
  shows "scope_Targets scope \<noteq> [] \<and> distinct (map target_Source (scope_Targets scope)) \<and>
    (\<forall>slug. slug \<in> target_Source ` set (scope_Targets scope) \<longleftrightarrow>
       group_members pgrx caller groupBy key s slug \<noteq> [] \<and>
       (\<exists>src. joined_source s slug = Some src \<and> row_alertmanager_url src \<noteq> '''')) \<and>
    (\<forall>t \<in> set (scope_Targets scope).
       target_Members t = length (group_members pgrx caller groupBy key s (target_Source t)) \<and>
       (\<exists>src. joined_source s (target_Source t) = Some src \<and> target_AlertmanagerURL t = row_alertmanager_url src \<and>
          target_AlertmanagerToken t = row_alertmanager_token src) \<and>
       (\<forall>r \<in> set (group_members pgrx caller groupBy key s (target_Source t)). silenced (target_Labels t) (Labels r)) \<and>
       (\<forall>L name v. (\<forall>r \<in> set (group_members pgrx caller groupBy key s (target_Source t)). silenced L (Labels r)) \<and>
          fmlookup L name = Some v \<and> v \<noteq> '''' \<longrightarrow> fmlookup (target_Labels t) name = Some v)) \<and>
    (\<forall>name v. fmlookup (scope_Labels scope) name = Some v \<longleftrightarrow>
       (\<forall>t \<in> set (scope_Targets scope). fmlookup (target_Labels t) name = Some v))"
proof -
  from assms obtain labels conditions args slugs where
    k: "distinct slugs" "scope_Targets scope = concat (map (source_targets s
        (scoped_rows pgrx conditions (operateAccessCondition caller ColLabels args) s) labels) slugs)"
      "scope_Targets scope \<noteq> []" "scope_Labels scope = CommonLabels (scope_Targets scope)"
    by (rule group_scope_result) blast
  have "distinct (map target_Source (scope_Targets scope))" unfolding k(2) by (rule distinct_target_sources [OF k(1)])
  moreover have "\<forall>slug. slug \<in> target_Source ` set (scope_Targets scope) \<longleftrightarrow>
       group_members pgrx caller groupBy key s slug \<noteq> [] \<and>
       (\<exists>src. joined_source s slug = Some src \<and> row_alertmanager_url src \<noteq> '''')"
    using group_target(1,2) [OF assms] group_reaches [OF assms] by (metis imageE)
  moreover have "\<forall>t \<in> set (scope_Targets scope).
       target_Members t = length (group_members pgrx caller groupBy key s (target_Source t)) \<and>
       (\<exists>src. joined_source s (target_Source t) = Some src \<and> target_AlertmanagerURL t = row_alertmanager_url src \<and>
          target_AlertmanagerToken t = row_alertmanager_token src) \<and>
       (\<forall>r \<in> set (group_members pgrx caller groupBy key s (target_Source t)). silenced (target_Labels t) (Labels r)) \<and>
       (\<forall>L name v. (\<forall>r \<in> set (group_members pgrx caller groupBy key s (target_Source t)). silenced L (Labels r)) \<and>
          fmlookup L name = Some v \<and> v \<noteq> '''' \<longrightarrow> fmlookup (target_Labels t) name = Some v)"
    using group_target(1,3) [OF assms] group_covers [OF assms] group_narrowest [OF assms] by blast
  moreover have "\<forall>name v. fmlookup (scope_Labels scope) name = Some v \<longleftrightarrow>
       (\<forall>t \<in> set (scope_Targets scope). fmlookup (target_Labels t) name = Some v)"
    using k(3,4) by (simp add: fmlookup_CommonLabels)
  ultimately show ?thesis using k(3) by blast
qed

theorem group_silence_covers_witness:
  "\<exists>scope. SilenceScopeForGroup (\<lambda>p v. p = v) id two_teams [''alertname''] name_key teams_db = Inr scope \<and>
     ''prod'' \<in> target_Source ` set (scope_Targets scope)"
proof -
  obtain scope where scope: "SilenceScopeForGroup (\<lambda>p v. p = v) id two_teams [''alertname''] name_key teams_db = Inr scope"
    using team_groups(1) by blast
  have "''prod'' \<in> target_Source ` set (scope_Targets scope) \<longleftrightarrow>
       group_members (\<lambda>p v. p = v) two_teams [''alertname''] name_key teams_db ''prod'' \<noteq> [] \<and>
       (\<exists>src. joined_source teams_db ''prod'' = Some src \<and> row_alertmanager_url src \<noteq> '''')"
    by (rule group_silence_covers [OF scope, THEN conjunct2, THEN conjunct2, THEN conjunct1, rule_format])
  with team_members(1) team_source scope show ?thesis by auto
qed

text \<open>A silence for one alert matches on all of the labels of an alert inside the caller's
  operate scope, at the Alertmanager of its source. Unless one of those labels is empty, whatever
  that Alertmanager silences for it, now or later, is inside the caller's operate scope too.\<close>

theorem alert_silence_in_scope:
  assumes "SilenceScopeForAlert pgrx caller i s = Inr scope"
  shows "\<exists>r src. r \<in> set (alert_rows s) \<and> ID r = i \<and> sql_can_operate pgrx caller (Labels r) \<and>
    joined_source s (SourceSlug r) = Some src \<and> row_alertmanager_url src \<noteq> '''' \<and>
    scope_Targets scope = [target_of r src] \<and> Labels r \<noteq> fmempty \<and> silenced (Labels r) (Labels r) \<and>
    ('''' \<notin> fmran' (Labels r) \<longrightarrow> (\<forall>l. silenced (Labels r) l \<longrightarrow> sql_can_operate pgrx caller l))"
proof -
  from assms obtain r src where "r \<in> set (alert_rows s)" "ID r = i" "sql_can_operate pgrx caller (Labels r)"
    "Labels r \<noteq> fmempty" "joined_source s (SourceSlug r) = Some src" "row_alertmanager_url src \<noteq> ''''"
    "scope = \<lparr>scope_Labels = Labels r, scope_Targets = [target_of r src]\<rparr>"
    by (rule alert_scope_result)
  then show ?thesis using operate_silenced [of pgrx caller "Labels r"] silenced_self by auto
qed

theorem alert_silence_in_scope_witness:
  "\<exists>scope. SilenceScopeForAlert (\<lambda>p v. p = v) one_team 1 teams_db = Inr scope \<and>
     (\<forall>l. silenced (team_labels ''a'') l \<longrightarrow> sql_can_operate (\<lambda>p v. p = v) one_team l)"
proof -
  let ?pgrx = "\<lambda>p v :: string. p = v"
  note scope = team_alert_scope [of ?pgrx]
  have "[] \<notin> fmran' (team_labels ''a'')"
    by (auto simp: team_labels_def fmlookup_of_list fmlookup_ran'_iff split: if_splits)
  moreover obtain r where "r \<in> set (alert_rows teams_db)" "ID r = 1"
    "[] \<notin> fmran' (Labels r) \<longrightarrow> (\<forall>l. silenced (Labels r) l \<longrightarrow> sql_can_operate ?pgrx one_team l)"
    using alert_silence_in_scope [OF scope] by blast
  moreover have "Labels r = team_labels ''a''"
    using calculation by (auto simp: teams_db_def team_row_def)
  ultimately show ?thesis using scope by auto
qed

text \<open>A group silence stays inside the caller's operate scope when all the caller's operator
  grants ask for the same labels by equality: whatever a target's Alertmanager silences for it is
  inside the scope, whether or not it was a member.\<close>

theorem group_silence_in_scope:
  assumes "SilenceScopeForGroup pgrx strxfrm caller groupBy key s = Inr scope" "t \<in> set (scope_Targets scope)"
    "\<forall>m \<in> set ms. matcher_Operator m = ''='' \<and> matcher_Value m \<noteq> ''''"
    "\<forall>g \<in> set (Grants caller). operates (grant_Role g) \<longrightarrow> grant_Matchers g = ms"
    "silenced (target_Labels t) l"
  shows "sql_can_operate pgrx caller l"
  using assms by (rule group_in_scope)

theorem group_silence_in_scope_witness:
  "\<exists>scope t. SilenceScopeForGroup (\<lambda>p v. p = v) id one_team [''alertname''] name_key teams_db = Inr scope \<and>
     t \<in> set (scope_Targets scope) \<and> sql_can_operate (\<lambda>p v. p = v) one_team (team_labels ''a'') \<and>
     silenced (target_Labels t) (team_labels ''a'')"
proof -
  let ?pgrx = "\<lambda>p v :: string. p = v"
  obtain scope where scope: "SilenceScopeForGroup ?pgrx id one_team [''alertname''] name_key teams_db = Inr scope"
    using team_groups(2) by blast
  have "''prod'' \<in> target_Source ` set (scope_Targets scope)"
    by (rule group_reaches [OF scope _ team_source]) (simp add: team_members)
  then obtain t where t: "t \<in> set (scope_Targets scope)" "target_Source t = ''prod''" by auto
  have "silenced (target_Labels t) (Labels (team_row 1 ''a''))"
    by (rule group_covers [OF scope t(1)]) (simp add: t(2) team_members)
  then have s: "silenced (target_Labels t) (team_labels ''a'')" by (simp add: team_row_def)
  have "sql_can_operate ?pgrx one_team (team_labels ''a'')"
    by (rule group_silence_in_scope [OF scope t(1) _ _ s,
          where ms = "[\<lparr>matcher_Name = ''team'', matcher_Operator = ''='', matcher_Value = ''a''\<rparr>]"])
      (simp_all add: one_team_def team_grant_def)
  with scope t(1) s show ?thesis by blast
qed

text \<open>C16: with two grants it does not. An operator of teams a and b who silences the group of an
  alert name silences the alert of that name of team c, which the operator may not act on: the
  members of the two teams agree on no team, so the match names none.\<close>

theorem group_silence_escapes_scope:
  "\<exists>scope t r. SilenceScopeForGroup pgrx strxfrm two_teams [''alertname''] name_key teams_db = Inr scope \<and>
     t \<in> set (scope_Targets scope) \<and> r \<in> set (alert_rows teams_db) \<and> SourceSlug r = target_Source t \<and>
     silenced (target_Labels t) (Labels r) \<and> \<not> sql_can_operate pgrx two_teams (Labels r)"
proof -
  obtain scope where scope: "SilenceScopeForGroup pgrx strxfrm two_teams [''alertname''] name_key teams_db = Inr scope"
    using team_groups(1) by blast
  have "''prod'' \<in> target_Source ` set (scope_Targets scope)"
    by (rule group_reaches [OF scope _ team_source]) (simp add: team_members)
  then obtain t where t: "t \<in> set (scope_Targets scope)" "target_Source t = ''prod''" by auto
  let ?r = "team_row 3 ''c''"
  have labels: "Labels (team_row i team) = team_labels team" for i team by (simp add: team_row_def)
  have "golookup (team_labels ''c'') name = v" if "fmlookup (target_Labels t) name = Some v" for name v
    using that unfolding group_target(4) [OF scope t(1)] t(2) team_members(1)
    by (auto simp: labels team_labels_def golookup_def fmlookup_of_list team_group_key split: if_splits)
  then have "silenced (target_Labels t) (Labels ?r)" by (simp add: silenced_iff labels)
  moreover have "?r \<in> set (alert_rows teams_db)" "SourceSlug ?r = ''prod''"
    by (simp_all add: teams_db_def team_row_def sample_row_def)
  moreover have "\<not> sql_can_operate pgrx two_teams (Labels ?r)" by (simp add: labels team_scope)
  ultimately show ?thesis using scope t by metis
qed

end
