(* ===== verification/Silence_API.thy ===== *)
theory Silence_API
  imports Http Silence_Scope
begin

text \<open>
  The silence handlers (\<open>internal/httpapi/silence.go\<close>): creating silences for an alert or a
  group, previewing a group, and removing a silence.

  A handler returns the database, the requests it sent to Alertmanagers and the reply;
  \<open>do_http\<close> and \<open>do_delete\<close> are their answers. A \<open>time.Duration\<close> is a 64-bit word of
  nanoseconds, and \<open>durationSeconds\<close> a 64-bit word of seconds; instants are whole microseconds, as the database
  keeps them. So a window is cut to microseconds when the end of a silence is computed. A positive window of less than one, which only
  the wrap-around of \<open>silenceWindow\<close> or such a configured default gives, ends a silence at its start here and is refused, where
  the code sends a silence of some hundred nanoseconds.
\<close>

section \<open>Definitions\<close>

record silence_config =
  SilenceDefaultDuration :: "64 word"
  SilenceMaxDuration :: "64 word"

definition silenceAuthor :: "Principal \<Rightarrow> string" where
  "silenceAuthor caller =
     (if Anonymous caller \<and> \<not> CanOperate caller then ''''
      else (case filter (\<lambda>candidate. candidate \<noteq> '''') [Email caller, Subject caller, DisplayName caller] of
              [] \<Rightarrow> '''' | candidate # rest \<Rightarrow> candidate))"

definition silenceWindow :: "silence_config \<Rightarrow> 64 word \<Rightarrow> string + 64 word" where
  "silenceWindow config durationSeconds =
     (if durationSeconds = 0 then Inr (SilenceDefaultDuration config)
      else if sint durationSeconds < 0 then Inl ''durationSeconds must be positive''
      else let window = durationSeconds * 1000000000
           in if sint window > sint (SilenceMaxDuration config)
              then Inl ''durationSeconds exceeds the configured maximum silence duration''
              else Inr window)"

definition silenceRequestPrincipal ::
  "bool \<Rightarrow> (string \<Rightarrow> (string \<times> string) option) \<Rightarrow> request \<Rightarrow> failure + Principal" where
  "silenceRequestPrincipal configured url_parse r =
     (case req_principal r of
        None \<Rightarrow> Inl (server_error ''principal is unavailable'')
      | Some caller \<Rightarrow>
          if \<not> configured then Inl (501, Message ''silencing is not configured'')
          else if \<not> CanOperate caller then Inl (403, Message ''operator access required'')
          else if \<not> validMutationOrigin url_parse r then Inl (403, Message ''invalid request origin'')
          else if silenceAuthor caller = '''' then Inl (403, Message ''a silence needs a named author'')
          else Inr caller)"

text \<open>An empty body is accepted and leaves the zero values.\<close>

definition decodeSilenceBody :: "'b \<Rightarrow> 'b body \<Rightarrow> failure + 'b" where
  "decodeSilenceBody zero body =
     (case body of
        BodyInvalid \<Rightarrow> Inl (400, Message ''request body is invalid'')
      | BodyEmpty \<Rightarrow> Inr zero
      | BodyValue v trails \<Rightarrow> if trails then Inl (400, Message ''request body is invalid'') else Inr v)"

definition writeScopeError :: "db_error \<Rightarrow> failure" where
  "writeScopeError e =
     (if e = ErrNotFound then (404, Message ''alert not found'')
      else if e = ErrNoSilenceTarget
      then (409, Message ''no source in scope has an alertmanager url configured'')
      else (400, ErrorText e))"

fun same_entries :: "string list \<Rightarrow> labels \<Rightarrow> labels \<Rightarrow> bool" where
  "same_entries [] left right = True"
| "same_entries (name # names) left right =
     (case fmlookup right name of
        None \<Rightarrow> False
      | Some other \<Rightarrow> if other \<noteq> golookup left name then False else same_entries names left right)"

definition sameLabels :: "labels \<Rightarrow> labels \<Rightarrow> bool" where
  "sameLabels left right =
     (if length (sorted_keys left) \<noteq> length (sorted_keys right) then False
      else same_entries (sorted_keys left) left right)"

record SilenceResult =
  result_Source :: string
  result_SilenceID :: string
  result_Matchers :: labels
  result_Members :: nat
  result_Error :: "client_error option"

record created_payload =
  pay_endsAt :: instant
  pay_createdBy :: string
  pay_matchers :: "Matcher list"
  pay_outcomes :: "SilenceResult list"

definition silenceTargetsResponse :: "SilenceTarget list \<Rightarrow> (string \<times> labels \<times> nat) list" where
  "silenceTargetsResponse targets = map (\<lambda>t. (target_Source t, target_Labels t, target_Members t)) targets"

datatype silence_payload =
  Created created_payload
| Conflict labels "(string \<times> labels \<times> nat) list"
| Preview labels nat "(string \<times> labels \<times> nat) list"
| Removed string string

definition microseconds :: "64 word \<Rightarrow> int" where
  "microseconds window = sint window div 1000"

definition silence_for :: "instant \<Rightarrow> instant \<Rightarrow> string \<Rightarrow> string \<Rightarrow> SilenceTarget \<Rightarrow> Silence" where
  "silence_for startsAt endsAt author comment target =
     \<lparr>sil_Matchers = MatchersFromLabels (target_Labels target), sil_StartsAt = startsAt, sil_EndsAt = endsAt,
      sil_CreatedBy = author, sil_Comment = comment\<rparr>"

definition record_for ::
  "instant \<Rightarrow> instant \<Rightarrow> string \<Rightarrow> string \<Rightarrow> SilenceTarget \<Rightarrow> string \<Rightarrow> SilenceRecord" where
  "record_for startsAt endsAt author comment target silenceID =
     \<lparr>rec_Source = target_Source target, rec_SilenceID = silenceID, rec_Matchers = target_Labels target,
      rec_CreatedBy = author, rec_Comment = comment, rec_StartsAt = startsAt, rec_EndsAt = endsAt,
      rec_State = '''', rec_MatcherList = []\<rparr>"

text \<open>The loop over the targets, with the requests sent so far.\<close>

fun create_each ::
  "(silence_post \<Rightarrow> string http_reply) \<Rightarrow> instant \<Rightarrow> instant \<Rightarrow> string \<Rightarrow> string \<Rightarrow> SilenceTarget list \<Rightarrow>
   db \<times> silence_post list \<times> SilenceResult list \<times> nat \<Rightarrow> db \<times> silence_post list \<times> SilenceResult list \<times> nat" where
  "create_each do_http startsAt endsAt author comment [] acc = acc"
| "create_each do_http startsAt endsAt author comment (target # targets) (s, posts, results, created) =
     (let (sent, answer) =
        CreateSilence do_http (target_AlertmanagerURL target) (target_AlertmanagerToken target)
          (silence_for startsAt endsAt author comment target)
      in case answer of
           Inl e \<Rightarrow>
             create_each do_http startsAt endsAt author comment targets
               (s, posts @ sent, results @ [\<lparr>result_Source = target_Source target, result_SilenceID = '''',
                  result_Matchers = target_Labels target, result_Members = target_Members target,
                  result_Error = Some e\<rparr>], created)
         | Inr silenceID \<Rightarrow>
             create_each do_http startsAt endsAt author comment targets
               ((case RecordSilence (record_for startsAt endsAt author comment target silenceID) s of
                   Inl e \<Rightarrow> s | Inr s' \<Rightarrow> s'),
                posts @ sent, results @ [\<lparr>result_Source = target_Source target, result_SilenceID = silenceID,
                  result_Matchers = target_Labels target, result_Members = target_Members target,
                  result_Error = None\<rparr>], created + 1))"

definition createSilences ::
  "(silence_post \<Rightarrow> string http_reply) \<Rightarrow> silence_config \<Rightarrow> instant \<Rightarrow> Principal \<Rightarrow> SilenceScope \<Rightarrow> 64 word \<Rightarrow> string \<Rightarrow>
   db \<Rightarrow> db \<times> silence_post list \<times> silence_payload reply" where
  "createSilences do_http config now caller scope durationSeconds comment s =
     (case silenceWindow config durationSeconds of
        Inl e \<Rightarrow> (s, [], Fail 400 (Message e))
      | Inr window \<Rightarrow>
          let startsAt = now;
              endsAt = startsAt + microseconds window;
              author = silenceAuthor caller;
              (s', posts, results, created) =
                create_each do_http startsAt endsAt author comment (scope_Targets scope) (s, [], [], 0);
              status = (if created = 0 then 502 else if created < length (scope_Targets scope) then 207 else 201)
          in (s', posts, Reply status (Created
                \<lparr>pay_endsAt = endsAt, pay_createdBy = author,
                 pay_matchers = MatchersFromLabels (scope_Labels scope), pay_outcomes = results\<rparr>)))"

record silenceRequest =
  DurationSeconds :: "64 word"
  Comment :: string

record groupSilenceRequest =
  group_GroupBy :: "string list"
  group_Key :: labels
  group_ExpectedMatchers :: "labels option"
  group_DurationSeconds :: "64 word"
  group_Comment :: string

record groupSilencePreviewRequest =
  preview_GroupBy :: "string list"
  preview_Key :: labels

definition silenceAlert ::
  "(string \<Rightarrow> string \<Rightarrow> bool) \<Rightarrow> (string \<Rightarrow> (string \<times> string) option) \<Rightarrow> (silence_post \<Rightarrow> string http_reply) \<Rightarrow> bool \<Rightarrow>
   silence_config \<Rightarrow> instant \<Rightarrow> silenceRequest body \<Rightarrow> request \<Rightarrow> db \<Rightarrow> db \<times> silence_post list \<times> silence_payload reply" where
  "silenceAlert pgrx url_parse do_http configured config now body r s =
     (case silenceRequestPrincipal configured url_parse r of Inl f \<Rightarrow> (s, [], fail f) | Inr caller \<Rightarrow>
      (case path_id r of Inl f \<Rightarrow> (s, [], fail f) | Inr i \<Rightarrow>
       (case decodeSilenceBody \<lparr>DurationSeconds = 0, Comment = ''''\<rparr> body of Inl f \<Rightarrow> (s, [], fail f) | Inr value \<Rightarrow>
        (case SilenceScopeForAlert pgrx caller i s of
           Inl e \<Rightarrow> (s, [], fail (writeScopeError e))
         | Inr scope \<Rightarrow> createSilences do_http config now caller scope (DurationSeconds value) (Comment value) s))))"

definition silenceGroup ::
  "(string \<Rightarrow> string \<Rightarrow> bool) \<Rightarrow> (string \<Rightarrow> string) \<Rightarrow> (string \<Rightarrow> (string \<times> string) option) \<Rightarrow>
   (silence_post \<Rightarrow> string http_reply) \<Rightarrow> bool \<Rightarrow> silence_config \<Rightarrow> instant \<Rightarrow> groupSilenceRequest body \<Rightarrow> request \<Rightarrow> db \<Rightarrow>
   db \<times> silence_post list \<times> silence_payload reply" where
  "silenceGroup pgrx strxfrm url_parse do_http configured config now body r s =
     (case silenceRequestPrincipal configured url_parse r of Inl f \<Rightarrow> (s, [], fail f) | Inr caller \<Rightarrow>
      (case decodeSilenceBody \<lparr>group_GroupBy = [], group_Key = fmempty, group_ExpectedMatchers = None,
              group_DurationSeconds = 0, group_Comment = ''''\<rparr> body of Inl f \<Rightarrow> (s, [], fail f) | Inr value \<Rightarrow>
       (if group_GroupBy value = [] \<or> group_Key value = fmempty
        then (s, [], Fail 400 (Message ''groupBy and key are required''))
        else (case SilenceScopeForGroup pgrx strxfrm caller (group_GroupBy value) (group_Key value) s of
                Inl e \<Rightarrow> (s, [], fail (writeScopeError e))
              | Inr scope \<Rightarrow>
                  if (case group_ExpectedMatchers value of
                        None \<Rightarrow> False | Some expected \<Rightarrow> \<not> sameLabels expected (scope_Labels scope))
                  then (s, [], Reply 409 (Conflict (scope_Labels scope) (silenceTargetsResponse (scope_Targets scope))))
                  else createSilences do_http config now caller scope (group_DurationSeconds value)
                         (group_Comment value) s))))"

definition previewGroupSilence ::
  "(string \<Rightarrow> string \<Rightarrow> bool) \<Rightarrow> (string \<Rightarrow> string) \<Rightarrow> (string \<Rightarrow> (string \<times> string) option) \<Rightarrow> bool \<Rightarrow>
   groupSilencePreviewRequest body \<Rightarrow> request \<Rightarrow> db \<Rightarrow> silence_payload reply" where
  "previewGroupSilence pgrx strxfrm url_parse configured body r s =
     (case silenceRequestPrincipal configured url_parse r of Inl f \<Rightarrow> fail f | Inr caller \<Rightarrow>
      (case decodeSilenceBody \<lparr>preview_GroupBy = [], preview_Key = fmempty\<rparr> body of Inl f \<Rightarrow> fail f | Inr value \<Rightarrow>
       (if preview_GroupBy value = [] \<or> preview_Key value = fmempty
        then Fail 400 (Message ''groupBy and key are required'')
        else (case SilenceScopeForGroup pgrx strxfrm caller (preview_GroupBy value) (preview_Key value) s of
                Inl e \<Rightarrow> fail (writeScopeError e)
              | Inr scope \<Rightarrow>
                  Reply 200 (Preview (scope_Labels scope)
                    (foldl (\<lambda>members t. members + target_Members t) 0 (scope_Targets scope))
                    (silenceTargetsResponse (scope_Targets scope)))))))"

text \<open>The deletions sent are the addresses and credentials of the requests.\<close>

definition removeAlertSilence ::
  "(string \<Rightarrow> string \<Rightarrow> bool) \<Rightarrow> (string \<Rightarrow> (string \<times> string) option) \<Rightarrow> (string \<times> string option \<Rightarrow> unit http_reply) \<Rightarrow>
   (string \<Rightarrow> string) \<Rightarrow> bool \<Rightarrow> instant \<Rightarrow> request \<Rightarrow> db \<Rightarrow> db \<times> SilenceTarget list \<times> silence_payload reply" where
  "removeAlertSilence pgrx url_parse do_delete pathEscape configured now r s =
     (case silenceRequestPrincipal configured url_parse r of Inl f \<Rightarrow> (s, [], fail f) | Inr caller \<Rightarrow>
      (case path_id r of Inl f \<Rightarrow> (s, [], fail f) | Inr i \<Rightarrow>
       (let silenceID = req_path r ''silenceId'' in
        case SilenceRemovalScope pgrx caller i silenceID s of
          Inl e \<Rightarrow> (s, [], fail (writeScopeError e))
        | Inr target \<Rightarrow>
            (case DeleteSilence do_delete pathEscape (target_AlertmanagerURL target)
                    (target_AlertmanagerToken target) silenceID of
               Inl e \<Rightarrow> (s, [target], Fail 502 (Message ''the alertmanager refused to remove the silence''))
             | Inr u \<Rightarrow>
                 ((case ExpireSilenceRecord (target_Source target) silenceID now s of Inl e \<Rightarrow> s | Inr s' \<Rightarrow> s'),
                  [target], Reply 200 (Removed (target_Source target) silenceID))))))"

section \<open>Specification\<close>

text \<open>What an Alertmanager answers for a target, the result that reports it, and the record kept.\<close>

definition answer_for ::
  "(silence_post \<Rightarrow> string http_reply) \<Rightarrow> instant \<Rightarrow> instant \<Rightarrow> string \<Rightarrow> string \<Rightarrow> SilenceTarget \<Rightarrow> client_error + string" where
  "answer_for do_http startsAt endsAt author comment t =
     snd (CreateSilence do_http (target_AlertmanagerURL t) (target_AlertmanagerToken t)
       (silence_for startsAt endsAt author comment t))"

definition result_for :: "SilenceTarget \<Rightarrow> client_error + string \<Rightarrow> SilenceResult" where
  "result_for t answer =
     \<lparr>result_Source = target_Source t, result_SilenceID = (case answer of Inl e \<Rightarrow> [] | Inr i \<Rightarrow> i),
      result_Matchers = target_Labels t, result_Members = target_Members t,
      result_Error = (case answer of Inl e \<Rightarrow> Some e | Inr i \<Rightarrow> None)\<rparr>"

definition kept_record :: "SilenceRecord \<Rightarrow> SilenceRecord" where
  "kept_record r = r\<lparr>rec_State := ''active'', rec_MatcherList := equalityMatcherList (rec_Matchers r)\<rparr>"

definition record_answer ::
  "instant \<Rightarrow> instant \<Rightarrow> string \<Rightarrow> string \<Rightarrow> SilenceTarget \<Rightarrow> client_error + string \<Rightarrow> db \<Rightarrow> db" where
  "record_answer startsAt endsAt author comment t answer s =
     (case answer of Inl e \<Rightarrow> s | Inr i \<Rightarrow>
       (case RecordSilence (record_for startsAt endsAt author comment t i) s of Inl e \<Rightarrow> s | Inr s' \<Rightarrow> s'))"

text \<open>The two requests that create silences, the scope each resolves to, and what it asks for.\<close>

datatype silence_create = ForAlert "silenceRequest body" | ForGroup "groupSilenceRequest body"

definition silence_handler ::
  "(string \<Rightarrow> string \<Rightarrow> bool) \<Rightarrow> (string \<Rightarrow> string) \<Rightarrow> (string \<Rightarrow> (string \<times> string) option) \<Rightarrow>
   (silence_post \<Rightarrow> string http_reply) \<Rightarrow> bool \<Rightarrow> silence_config \<Rightarrow> instant \<Rightarrow> silence_create \<Rightarrow> request \<Rightarrow> db \<Rightarrow>
   db \<times> silence_post list \<times> silence_payload reply" where
  "silence_handler pgrx strxfrm url_parse do_http configured config now q =
     (case q of
        ForAlert body \<Rightarrow> silenceAlert pgrx url_parse do_http configured config now body
      | ForGroup body \<Rightarrow> silenceGroup pgrx strxfrm url_parse do_http configured config now body)"

definition resolved_scope ::
  "(string \<Rightarrow> string \<Rightarrow> bool) \<Rightarrow> (string \<Rightarrow> string) \<Rightarrow> silence_create \<Rightarrow> Principal \<Rightarrow> request \<Rightarrow> db \<Rightarrow> SilenceScope option" where
  "resolved_scope pgrx strxfrm q caller r s =
     (case q of
        ForAlert body \<Rightarrow>
          (case path_id r of Inl f \<Rightarrow> None | Inr i \<Rightarrow>
            (case SilenceScopeForAlert pgrx caller i s of Inl e \<Rightarrow> None | Inr scope \<Rightarrow> Some scope))
      | ForGroup body \<Rightarrow>
          (case body of
             BodyValue v trails \<Rightarrow>
               (case SilenceScopeForGroup pgrx strxfrm caller (group_GroupBy v) (group_Key v) s of
                  Inl e \<Rightarrow> None
                | Inr scope \<Rightarrow>
                    if group_ExpectedMatchers v \<in> {None, Some (scope_Labels scope)} then Some scope else None)
           | _ \<Rightarrow> None))"

definition sample_config :: silence_config where
  "sample_config = \<lparr>SilenceDefaultDuration = 3600000000000, SilenceMaxDuration = 86400000000000\<rparr>"

definition team_request :: request where
  "team_request = \<lparr>req_path = (\<lambda>n. if n = ''id'' then ''1'' else ''s1''), req_query = (\<lambda>n. []),
     req_header = (\<lambda>n. []), req_cookies = [], req_host = ''promview'', req_principal = Some one_team\<rparr>"

definition silenced_db :: db where
  "silenced_db = teams_db\<lparr>alert_rows := [(team_row 1 ''a'')\<lparr>SilencedBy := [''s1'']\<rparr>],
     alertmanager_silences := [record_for 10 900 ''alice'' [] (target_of (team_row 1 ''a'') sample_source) ''s1'']\<rparr>"

section \<open>Lemmas\<close>

lemma create_each_eq:
  "create_each do_http startsAt endsAt author comment targets (s, posts, results, created) =
     (let answer = answer_for do_http startsAt endsAt author comment in
      (fold (\<lambda>t. record_answer startsAt endsAt author comment t (answer t)) targets s,
       posts @ concat (map (\<lambda>t. fst (CreateSilence do_http (target_AlertmanagerURL t) (target_AlertmanagerToken t)
         (silence_for startsAt endsAt author comment t))) targets),
       results @ map (\<lambda>t. result_for t (answer t)) targets,
       created + length (filter (\<lambda>t. \<exists>i. answer t = Inr i) targets)))"
proof (induction targets arbitrary: s posts results created)
  case (Cons t targets)
  obtain sent answer where c: "CreateSilence do_http (target_AlertmanagerURL t) (target_AlertmanagerToken t)
      (silence_for startsAt endsAt author comment t) = (sent, answer)" by fastforce
  then have a: "answer_for do_http startsAt endsAt author comment t = answer" by (simp add: answer_for_def)
  show ?case
    by (cases answer) (simp_all add: c a Cons.IH Let_def record_answer_def result_for_def)
qed (simp add: Let_def)

lemma RecordSilence_result:
  assumes "RecordSilence r s = Inr s'"
  shows "silence_at s' = (silence_at s)(silence_key r \<mapsto> kept_record r)"
    "s' = s\<lparr>alertmanager_silences := alertmanager_silences s'\<rparr>" "silences_ok s \<Longrightarrow> silences_ok s'"
  using upsert_result [OF assms [unfolded RecordSilence_def]] by (simp_all add: kept_record_def silence_key_def)

lemma RecordSilence_total: "record_texts_ok (kept_record r) \<Longrightarrow> \<exists>s'. RecordSilence r s = Inr s'"
  by (simp add: RecordSilence_def upsert_silence_def kept_record_def)

lemma record_answer_frame:
  "record_answer startsAt endsAt author comment t answer s =
     s\<lparr>alertmanager_silences := alertmanager_silences (record_answer startsAt endsAt author comment t answer s)\<rparr>"
  "silences_ok s \<Longrightarrow> silences_ok (record_answer startsAt endsAt author comment t answer s)"
  "fst key \<noteq> target_Source t \<Longrightarrow> silence_at (record_answer startsAt endsAt author comment t answer s) key = silence_at s key"
proof -
  consider "record_answer startsAt endsAt author comment t answer s = s"
    | i s' where "RecordSilence (record_for startsAt endsAt author comment t i) s = Inr s'"
        "record_answer startsAt endsAt author comment t answer s = s'"
  proof (cases answer)
    case (Inr i)
    show thesis
    proof (cases "RecordSilence (record_for startsAt endsAt author comment t i) s")
      case (Inl e)
      show thesis by (rule that(1)) (simp add: record_answer_def Inr Inl)
    next
      case s': (Inr s')
      show thesis by (rule that(2) [OF s']) (simp add: record_answer_def Inr s')
    qed
  qed (simp add: that(1) record_answer_def)
  then have "record_answer startsAt endsAt author comment t answer s =
     s\<lparr>alertmanager_silences := alertmanager_silences (record_answer startsAt endsAt author comment t answer s)\<rparr> \<and>
     (silences_ok s \<longrightarrow> silences_ok (record_answer startsAt endsAt author comment t answer s)) \<and>
     (fst key \<noteq> target_Source t \<longrightarrow> silence_at (record_answer startsAt endsAt author comment t answer s) key = silence_at s key)"
  proof cases
    case (2 i s')
    note R = RecordSilence_result [OF 2(1)]
    have "silence_key (record_for startsAt endsAt author comment t i) = (target_Source t, i)"
      by (simp add: silence_key_def record_for_def)
    with R 2(2) show ?thesis by (cases key) simp
  qed simp
  then show "record_answer startsAt endsAt author comment t answer s =
     s\<lparr>alertmanager_silences := alertmanager_silences (record_answer startsAt endsAt author comment t answer s)\<rparr>"
    "silences_ok s \<Longrightarrow> silences_ok (record_answer startsAt endsAt author comment t answer s)"
    "fst key \<noteq> target_Source t \<Longrightarrow> silence_at (record_answer startsAt endsAt author comment t answer s) key = silence_at s key"
    by blast+
qed

lemma record_all_frame:
  "fold (\<lambda>t. record_answer startsAt endsAt author comment t (answer t)) ts s =
     s\<lparr>alertmanager_silences := alertmanager_silences (fold (\<lambda>t. record_answer startsAt endsAt author comment t (answer t)) ts s)\<rparr>"
  "silences_ok s \<Longrightarrow> silences_ok (fold (\<lambda>t. record_answer startsAt endsAt author comment t (answer t)) ts s)"
  "fst key \<notin> target_Source ` set ts \<Longrightarrow>
     silence_at (fold (\<lambda>t. record_answer startsAt endsAt author comment t (answer t)) ts s) key = silence_at s key"
proof (induction ts arbitrary: s)
  case (Cons t ts)
  {
    case 1
    show ?case
      unfolding fold.simps comp_def by (rule silences_frame_trans [OF record_answer_frame(1) Cons.IH(1)])
  next
    case 2
    show ?case
      unfolding fold.simps comp_def by (rule Cons.IH(2) [OF record_answer_frame(2) [OF 2]])
  next
    case 3
    then have key: "fst key \<notin> target_Source ` set ts" "fst key \<noteq> target_Source t" by auto
    show ?case
      unfolding fold.simps comp_def by (rule trans [OF Cons.IH(3) [OF key(1)] record_answer_frame(3) [OF key(2)]])
  }
qed simp_all

lemma record_all_kept:
  assumes "distinct (map target_Source ts)" "t \<in> set ts" "answer t = Inr i"
    "record_texts_ok (kept_record (record_for startsAt endsAt author comment t i))"
  shows "silence_at (fold (\<lambda>t. record_answer startsAt endsAt author comment t (answer t)) ts s) (target_Source t, i) =
    Some (kept_record (record_for startsAt endsAt author comment t i))"
  using assms(1,2)
proof (induction ts arbitrary: s)
  case (Cons u ts)
  show ?case
  proof (cases "t = u")
    case True
    obtain s' where s': "RecordSilence (record_for startsAt endsAt author comment t i) s = Inr s'"
      using RecordSilence_total [OF assms(4)] by blast
    have "fst (target_Source t, i) \<notin> target_Source ` set ts" using True Cons.prems(1) by auto
    moreover have "silence_at s' (target_Source t, i) = Some (kept_record (record_for startsAt endsAt author comment t i))"
      using RecordSilence_result(1) [OF s'] by (simp add: silence_key_def record_for_def)
    moreover have "record_answer startsAt endsAt author comment u (answer u) s = s'"
      using True assms(3) s' by (simp add: record_answer_def)
    ultimately show ?thesis
      unfolding fold.simps comp_def by (subst record_all_frame(3)) simp_all
  next
    case False
    with Cons show ?thesis by simp
  qed
qed simp

lemma same_entries_iff:
  "same_entries names left right \<longleftrightarrow> (\<forall>n \<in> set names. fmlookup right n = Some (golookup left n))"
  by (induction names) (auto split: option.splits)

text \<open>The comparison with the previewed match is equality.\<close>

lemma sameLabels_iff: "sameLabels left right \<longleftrightarrow> left = right"
proof
  assume s: "sameLabels left right"
  have card: "length (sorted_keys m) = fcard (fmdom m)" for m :: labels
    by (simp add: sorted_keys_def sorted_list_of_fset.rep_eq fcard.rep_eq)
  have l: "fmlookup right n = Some v" if "fmlookup left n = Some v" for n v
    using s that unfolding sameLabels_def same_entries_iff
    by (auto simp: fmlookup_dom_iff golookup_def split: if_splits)
  have "fmdom left |\<subseteq>| fmdom right" using l by (auto intro!: fsubsetI simp: fmlookup_dom_iff)
  moreover have "fcard (fmdom right) = fcard (fmdom left)" using s by (simp add: sameLabels_def card split: if_splits)
  ultimately have "fmdom left = fmdom right" by (metis fcard_seteq order.refl)
  then have "fmlookup left n = fmlookup right n" for n
    by (metis l fmdom_notD fmdom_notI option.exhaust)
  then show "left = right" by (simp add: fmap_ext)
next
  assume "left = right"
  then show "sameLabels left right"
    by (auto simp: sameLabels_def same_entries_iff fmlookup_dom_iff golookup_def)
qed

lemma silenceRequestPrincipal_Inr:
  "silenceRequestPrincipal configured url_parse r = Inr caller \<longleftrightarrow>
     req_principal r = Some caller \<and> configured \<and> CanOperate caller \<and> validMutationOrigin url_parse r \<and>
     silenceAuthor caller \<noteq> ''''"
  by (auto simp: silenceRequestPrincipal_def split: option.splits)

lemma decodeSilenceBody_Inr:
  "decodeSilenceBody zero body = Inr v \<longleftrightarrow> body = BodyValue v False \<or> body = BodyEmpty \<and> v = zero"
  by (auto simp: decodeSilenceBody_def split: body.splits)

lemma silence_handler_cases:
  obtains (nothing) "fst (silence_handler pgrx strxfrm url_parse do_http configured config now q r s) = s"
      "fst (snd (silence_handler pgrx strxfrm url_parse do_http configured config now q r s)) = []"
  | (creating) caller scope d comment where
      "silenceRequestPrincipal configured url_parse r = Inr caller"
      "resolved_scope pgrx strxfrm q caller r s = Some scope"
      "silence_handler pgrx strxfrm url_parse do_http configured config now q r s =
         createSilences do_http config now caller scope d comment s"
proof (cases "silenceRequestPrincipal configured url_parse r")
  case (Inl f)
  show thesis
    by (rule nothing) (simp_all add: silence_handler_def silenceAlert_def silenceGroup_def Inl split: silence_create.splits)
next
  case gate: (Inr caller)
  show thesis
  proof (cases q)
    case q: (ForAlert body)
    let ?zero = "\<lparr>DurationSeconds = 0, Comment = []\<rparr> :: silenceRequest"
    consider (id) f where "path_id r = Inl f"
      | (bad) i f where "path_id r = Inr i" "decodeSilenceBody ?zero body = Inl f"
      | (scope) i v e where "path_id r = Inr i" "decodeSilenceBody ?zero body = Inr v"
          "SilenceScopeForAlert pgrx caller i s = Inl e"
      | (ok) i v scope where "path_id r = Inr i" "decodeSilenceBody ?zero body = Inr v"
          "SilenceScopeForAlert pgrx caller i s = Inr scope"
      by (metis sum.exhaust)
    then show thesis
    proof cases
      case (ok i v scope)
      show thesis
        by (rule creating [OF gate, of scope "DurationSeconds v" "Comment v"])
          (simp_all add: q ok gate silence_handler_def silenceAlert_def resolved_scope_def)
    qed (rule nothing; simp add: q gate silence_handler_def silenceAlert_def)+
  next
    case q: (ForGroup body)
    let ?zero = "\<lparr>group_GroupBy = [], group_Key = fmempty, group_ExpectedMatchers = None,
      group_DurationSeconds = 0, group_Comment = []\<rparr> :: groupSilenceRequest"
    consider (bad) f where "decodeSilenceBody ?zero body = Inl f"
      | (empty) v where "decodeSilenceBody ?zero body = Inr v" "group_GroupBy v = [] \<or> group_Key v = fmempty"
      | (scope) v e where "decodeSilenceBody ?zero body = Inr v" "\<not> (group_GroupBy v = [] \<or> group_Key v = fmempty)"
          "SilenceScopeForGroup pgrx strxfrm caller (group_GroupBy v) (group_Key v) s = Inl e"
      | (ok) v scope where "decodeSilenceBody ?zero body = Inr v" "\<not> (group_GroupBy v = [] \<or> group_Key v = fmempty)"
          "SilenceScopeForGroup pgrx strxfrm caller (group_GroupBy v) (group_Key v) s = Inr scope"
      by (metis sum.exhaust)
    then show thesis
    proof cases
      case (ok v scope)
      then have body: "body = BodyValue v False" by (auto simp: decodeSilenceBody_Inr)
      show thesis
      proof (cases "group_ExpectedMatchers v \<in> {None, Some (scope_Labels scope)}")
        case True
        then show thesis
          using ok by (intro creating [OF gate, of scope "group_DurationSeconds v" "group_Comment v"])
            (auto simp: q body gate silence_handler_def silenceGroup_def resolved_scope_def sameLabels_iff)
      next
        case False
        then obtain expected where e: "group_ExpectedMatchers v = Some expected" "expected \<noteq> scope_Labels scope" by auto
        show thesis
          by (rule nothing) (use ok e in \<open>simp_all add: q gate silence_handler_def silenceGroup_def sameLabels_iff\<close>)
      qed
    qed (rule nothing; simp add: q gate silence_handler_def silenceGroup_def)+
  qed
qed

lemma createSilences_refused:
  "silenceWindow config d = Inl e \<Longrightarrow> createSilences do_http config now caller scope d comment s = (s, [], Fail 400 (Message e))"
  by (simp add: createSilences_def)

lemma createSilences_eq:
  assumes "silenceWindow config d = Inr w"
  shows "createSilences do_http config now caller scope d comment s =
    (let endsAt = now + microseconds w; author = silenceAuthor caller; targets = scope_Targets scope;
         answer = answer_for do_http now endsAt author comment;
         accepted = length (filter (\<lambda>t. \<exists>i. answer t = Inr i) targets)
     in (fold (\<lambda>t. record_answer now endsAt author comment t (answer t)) targets s,
         concat (map (\<lambda>t. fst (CreateSilence do_http (target_AlertmanagerURL t) (target_AlertmanagerToken t)
           (silence_for now endsAt author comment t))) targets),
         Reply (if accepted = 0 then 502 else if accepted < length targets then 207 else 201)
           (Created \<lparr>pay_endsAt = endsAt, pay_createdBy = author, pay_matchers = MatchersFromLabels (scope_Labels scope),
              pay_outcomes = map (\<lambda>t. result_for t (answer t)) targets\<rparr>)))"
  using assms by (simp add: createSilences_def create_each_eq Let_def)

lemma CreateSilence_posts:
  "p \<in> set (fst (CreateSilence do_http url token silence)) \<Longrightarrow>
     p = silence_request url token silence \<and> sil_StartsAt silence < sil_EndsAt silence"
  by (auto simp: CreateSilence_def validateSilence_def Let_def split: sum.splits if_splits)

lemma record_all_ok:
  "db_ok s \<Longrightarrow> db_ok (fold (\<lambda>t. record_answer startsAt endsAt author comment t (answer t)) ts s)"
proof -
  let ?s = "fold (\<lambda>t. record_answer startsAt endsAt author comment t (answer t)) ts s"
  assume ok: "db_ok s"
  then have "silences_ok ?s" using record_all_frame(2) by (simp add: db_ok_def)
  with ok show "db_ok ?s" by (subst record_all_frame(1)) (simp add: db_ok_def sources_ok_def alerts_ok_def stream_ok_def
        history_ok_def notes_ok_def occurrence_of_def silences_ok_def)
qed

lemma silenceWindow_limit:
  assumes "silenceWindow config d = Inr w"
  shows "if d = 0 then w = SilenceDefaultDuration config
    else 0 < sint d \<and> sint w \<le> sint (SilenceMaxDuration config)"
proof -
  have "sint d \<noteq> 0" if "d \<noteq> 0" using that by (metis signed_0 signed_word_eqI sint_uint)
  with assms show ?thesis by (auto simp: silenceWindow_def Let_def split: if_splits)
qed

lemma removal_scope_result:
  assumes "SilenceRemovalScope pgrx caller i sid s = Inr target"
  obtains r src where "r \<in> set (alert_rows s)" "ID r = i" "sql_can_operate pgrx caller (Labels r)"
    "sid \<in> set (SilencedBy r)" "joined_source s (SourceSlug r) = Some src" "target = target_of r src"
proof -
  obtain r src where r: "select_alert pgrx (operateAccessCondition caller ColLabels [ArgInt i]) i s = Inr r"
    "joined_source s (SourceSlug r) = Some src" "sid \<in> set (SilencedBy r)" "target = target_of r src"
    using assms by (auto simp: SilenceRemovalScope_def select_with_source_def bind_res_Inr
        split: if_splits option.splits)
  from that [OF select_operate_Inr [OF r(1)] r(3,2,4)] show thesis .
qed

lemma expire_record_at:
  "silence_at (case ExpireSilenceRecord slug sid now s of Inl e \<Rightarrow> s | Inr s' \<Rightarrow> s') key =
     (if key = (slug, sid) \<and> text_ok slug \<and> text_ok sid then map_option (end_record now) (silence_at s key)
      else silence_at s key)"
proof (cases "text_ok slug \<and> text_ok sid")
  case True
  have "map_option (\<lambda>r. if rec_Source r = slug \<and> rec_SilenceID r = sid then end_record now r else r) (silence_at s key) =
      (if key = (slug, sid) then map_option (end_record now) (silence_at s key) else silence_at s key)"
  proof (cases "silence_at s key")
    case (Some r)
    then have "silence_key r = key" using map_of_key_in unfolding silence_at_def by metis
    then have "key = (slug, sid) \<longleftrightarrow> rec_Source r = slug \<and> rec_SilenceID r = sid" by (auto simp: silence_key_def)
    then show ?thesis by (simp add: Some)
  qed auto
  moreover have "silence_key (end_record now r) = silence_key r" for r by (simp add: silence_key_def end_record_def)
  ultimately show ?thesis
    using True silence_at_upd [of _ "end_record now" "alertmanager_silences s" key]
    by (simp add: ExpireSilenceRecord_def silence_at_def)
qed (auto simp: ExpireSilenceRecord_def)

section \<open>Properties\<close>

text \<open>C17: the window of a silence. An explicit duration is positive and its window never exceeds
  the configured maximum, and a duration of up to 9223372036 seconds is accepted exactly when it
  does not exceed the maximum, with its exact window. Beyond that the multiplication wraps around:
  a request for 18446744074 seconds is accepted as 0.29 seconds.\<close>

theorem silence_window_bounds:
  "(\<forall>w. silenceWindow config d = Inr w \<longrightarrow>
      (if d = 0 then w = SilenceDefaultDuration config
       else 0 < sint d \<and> sint w \<le> sint (SilenceMaxDuration config))) \<and>
   (0 < sint d \<and> sint d \<le> 9223372036 \<longrightarrow>
      (if sint d * 1000000000 \<le> sint (SilenceMaxDuration config)
       then \<exists>w. silenceWindow config d = Inr w \<and> sint w = sint d * 1000000000
       else \<exists>e. silenceWindow config d = Inl e)) \<and>
   (290448384 \<le> sint (SilenceMaxDuration config) \<longrightarrow> silenceWindow config 18446744074 = Inr 290448384)"
proof (intro conjI)
  show "\<forall>w. silenceWindow config d = Inr w \<longrightarrow>
      (if d = 0 then w = SilenceDefaultDuration config
       else 0 < sint d \<and> sint w \<le> sint (SilenceMaxDuration config))"
    using silenceWindow_limit by blast
  show "0 < sint d \<and> sint d \<le> 9223372036 \<longrightarrow>
      (if sint d * 1000000000 \<le> sint (SilenceMaxDuration config)
       then \<exists>w. silenceWindow config d = Inr w \<and> sint w = sint d * 1000000000
       else \<exists>e. silenceWindow config d = Inl e)"
  proof
    assume d: "0 < sint d \<and> sint d \<le> 9223372036"
    have "sint (d * 1000000000) = signed_take_bit 63 (sint d * 1000000000)"
      by (simp add: sint_word_ariths(3))
    also have "\<dots> = sint d * 1000000000"
      using d by (intro signed_take_bit_int_eq_self) simp_all
    finally show "if sint d * 1000000000 \<le> sint (SilenceMaxDuration config)
       then \<exists>w. silenceWindow config d = Inr w \<and> sint w = sint d * 1000000000
       else \<exists>e. silenceWindow config d = Inl e"
      using d by (auto simp: silenceWindow_def Let_def)
  qed
  show "290448384 \<le> sint (SilenceMaxDuration config) \<longrightarrow> silenceWindow config 18446744074 = Inr 290448384"
    by (simp add: silenceWindow_def Let_def)
qed

theorem silence_window_bounds_witness:
  "silenceWindow sample_config 18446744074 = Inr 290448384 \<and>
   (\<exists>w. silenceWindow sample_config 3600 = Inr w \<and> sint w = 3600000000000)"
  using silence_window_bounds [of sample_config 3600] by (simp add: sample_config_def)

text \<open>What comes of creating the silences of a scope, for a window that was accepted. There is
  one result per target, in order: it carries the id the Alertmanager answered with, or the error.
  The status is 201 when all targets took their silence, 502 when none did, and 207 otherwise.
  Only the inventory of silences changes, and every silence that was accepted and whose texts can
  be stored is recorded in it with its matchers, author and window.\<close>

theorem silences_created:
  assumes "silenceWindow config d = Inr w" "distinct (map target_Source (scope_Targets scope))" "db_ok s"
    "createSilences do_http config now caller scope d comment s = (s', posts, reply)"
  shows "\<exists>status payload. reply = Reply status (Created payload) \<and>
    pay_endsAt payload = now + microseconds w \<and> pay_createdBy payload = silenceAuthor caller \<and>
    list_all2 (\<lambda>t res. result_Source res = target_Source t \<and> result_Matchers res = target_Labels t \<and>
       result_Members res = target_Members t \<and>
       (case answer_for do_http now (now + microseconds w) (silenceAuthor caller) comment t of
          Inl e \<Rightarrow> result_Error res = Some e \<and> result_SilenceID res = ''''
        | Inr i \<Rightarrow> result_Error res = None \<and> result_SilenceID res = i))
      (scope_Targets scope) (pay_outcomes payload) \<and>
    (status = 502 \<longleftrightarrow> (\<forall>res \<in> set (pay_outcomes payload). result_Error res \<noteq> None)) \<and>
    (status = 201 \<longleftrightarrow> scope_Targets scope \<noteq> [] \<and> (\<forall>res \<in> set (pay_outcomes payload). result_Error res = None)) \<and>
    status \<in> {201, 207, 502} \<and>
    db_ok s' \<and> s' = s\<lparr>alertmanager_silences := alertmanager_silences s'\<rparr> \<and>
    (\<forall>t \<in> set (scope_Targets scope). \<forall>i.
       answer_for do_http now (now + microseconds w) (silenceAuthor caller) comment t = Inr i \<and>
       record_texts_ok (kept_record (record_for now (now + microseconds w) (silenceAuthor caller) comment t i)) \<longrightarrow>
       silence_at s' (target_Source t, i) =
         Some (kept_record (record_for now (now + microseconds w) (silenceAuthor caller) comment t i)))"
proof -
  define answer where "answer = answer_for do_http now (now + microseconds w) (silenceAuthor caller) comment"
  define outcomes where "outcomes = map (\<lambda>t. result_for t (answer t)) (scope_Targets scope)"
  define accepted where "accepted = length (filter (\<lambda>t. \<exists>i. answer t = Inr i) (scope_Targets scope))"
  define status :: nat where
    "status = (if accepted = 0 then 502 else if accepted < length (scope_Targets scope) then 207 else 201)"
  note c = assms(4) [unfolded createSilences_eq [OF assms(1)] Let_def prod.inject]
  have s': "s' = fold (\<lambda>t. record_answer now (now + microseconds w) (silenceAuthor caller) comment t (answer t)) (scope_Targets scope) s"
    unfolding answer_def by (rule c [THEN conjunct1, symmetric])
  have reply: "reply = Reply status (Created \<lparr>pay_endsAt = now + microseconds w, pay_createdBy = silenceAuthor caller,
      pay_matchers = MatchersFromLabels (scope_Labels scope), pay_outcomes = outcomes\<rparr>)"
    unfolding answer_def outcomes_def accepted_def status_def by (rule c [THEN conjunct2, THEN conjunct2, symmetric])
  have error: "result_Error (result_for t a) = None \<longleftrightarrow> (\<exists>i. a = Inr i)" for t a
    by (simp add: result_for_def split: sum.splits)
  have none: "accepted = 0 \<longleftrightarrow> (\<forall>res \<in> set outcomes. result_Error res \<noteq> None)"
    by (simp add: accepted_def outcomes_def error filter_empty_conv del: not_None_eq)
  have all: "accepted < length (scope_Targets scope) \<longleftrightarrow> \<not> (\<forall>res \<in> set outcomes. result_Error res = None)"
    unfolding accepted_def outcomes_def using length_filter_less [of _ "scope_Targets scope"]
    by (auto simp: error filter_id_conv) (metis (mono_tags, lifting) filter_True less_irrefl)
  have some: "accepted = 0" if "scope_Targets scope = []" using that by (simp add: accepted_def)
  have results: "list_all2 (\<lambda>t res. result_Source res = target_Source t \<and> result_Matchers res = target_Labels t \<and>
       result_Members res = target_Members t \<and>
       (case answer t of
          Inl e \<Rightarrow> result_Error res = Some e \<and> result_SilenceID res = ''''
        | Inr i \<Rightarrow> result_Error res = None \<and> result_SilenceID res = i)) (scope_Targets scope) outcomes"
    unfolding outcomes_def by (simp add: list_all2_map2 result_for_def list_all2_same split: sum.splits)
  have "\<forall>t \<in> set (scope_Targets scope). \<forall>i. answer t = Inr i \<and>
       record_texts_ok (kept_record (record_for now (now + microseconds w) (silenceAuthor caller) comment t i)) \<longrightarrow>
       silence_at s' (target_Source t, i) =
         Some (kept_record (record_for now (now + microseconds w) (silenceAuthor caller) comment t i))"
    unfolding s' using record_all_kept [OF assms(2)] by blast
  moreover have "db_ok s'" unfolding s' by (rule record_all_ok [OF assms(3)])
  moreover have "s' = s\<lparr>alertmanager_silences := alertmanager_silences s'\<rparr>" unfolding s' by (rule record_all_frame(1))
  moreover have "status = 502 \<longleftrightarrow> (\<forall>res \<in> set outcomes. result_Error res \<noteq> None)" "status \<in> {201, 207, 502}"
    "status = 201 \<longleftrightarrow> scope_Targets scope \<noteq> [] \<and> (\<forall>res \<in> set outcomes. result_Error res = None)"
    unfolding status_def none [symmetric] using all some none by (auto simp: outcomes_def)
  ultimately show ?thesis using results unfolding reply answer_def by auto
qed

theorem silences_created_witness:
  "\<exists>s' posts payload. createSilences (\<lambda>p. Inr (200, Inr ''s9'')) sample_config 1000 one_team
     \<lparr>scope_Labels = team_labels ''a'', scope_Targets = [target_of (team_row 1 ''a'') sample_source]\<rparr> 60 ''patching''
     teams_db = (s', posts, Reply 201 (Created payload)) \<and> pay_endsAt payload = 60001000 \<and> db_ok s'"
proof -
  let ?scope = "\<lparr>scope_Labels = team_labels ''a'', scope_Targets = [target_of (team_row 1 ''a'') sample_source]\<rparr>"
  let ?run = "createSilences (\<lambda>p. Inr (200, Inr ''s9'')) sample_config 1000 one_team ?scope 60 ''patching'' teams_db"
  let ?t = "target_of (team_row 1 ''a'') sample_source"
  have w: "silenceWindow sample_config 60 = Inr 60000000000" by (simp add: silenceWindow_def sample_config_def)
  have us: "microseconds 60000000000 = 60000000" by (simp add: microseconds_def)
  have run: "?run = (fst ?run, fst (snd ?run), snd (snd ?run))" by simp
  have author: "silenceAuthor one_team = ''alice''"
    by (simp add: silenceAuthor_def one_team_def sample_operator_def)
  have "MatchersFromLabels (target_Labels ?t) \<noteq> []"
    by (simp add: MatchersFromLabels_def target_of_def team_row_def team_labels_def) code_simp
  then have answer: "answer_for (\<lambda>p. Inr (200, Inr ''s9'')) 1000 60001000 ''alice'' ''patching'' ?t = Inr ''s9''"
    by (simp add: answer_for_def CreateSilence_def validateSilence_def silence_for_def Let_def StatusOK_def)
  have distinct: "distinct (map target_Source (scope_Targets ?scope))" by simp
  have "db_ok (fst ?run)"
    using silences_created [OF w distinct teams_db_ok run] by (elim exE conjE)
  moreover have "snd (snd ?run) = Reply 201 (Created \<lparr>pay_endsAt = 60001000, pay_createdBy = ''alice'',
      pay_matchers = MatchersFromLabels (team_labels ''a''), pay_outcomes = [result_for ?t (Inr ''s9'')]\<rparr>)"
    unfolding createSilences_eq [OF w] by (simp add: Let_def us author answer)
  ultimately show ?thesis using run by (metis created_payload.select_convs(1))
qed

text \<open>C18: a request to create silences reaches an Alertmanager, or changes the database, only for
  a caller with an operator role, an acceptable origin and a name, and after the scope it resolves
  to was computed inside the caller's rights; a group whose match is not the one the caller
  confirmed is left alone. What is sent goes to the targets of the scope only, with their match,
  and each silence ends after a window of the configured default or at most the maximum.\<close>

theorem silence_requests_in_scope:
  assumes "silence_handler pgrx strxfrm url_parse do_http configured config now q r s = (s', posts, reply)"
    "posts \<noteq> [] \<or> s' \<noteq> s"
  shows "\<exists>caller scope w comment. req_principal r = Some caller \<and> configured \<and> CanOperate caller \<and>
    validMutationOrigin url_parse r \<and> silenceAuthor caller \<noteq> '''' \<and>
    resolved_scope pgrx strxfrm q caller r s = Some scope \<and>
    (w = SilenceDefaultDuration config \<or> sint w \<le> sint (SilenceMaxDuration config)) \<and>
    s' = s\<lparr>alertmanager_silences := alertmanager_silences s'\<rparr> \<and>
    (\<forall>p \<in> set posts. \<exists>t \<in> set (scope_Targets scope). 0 < microseconds w \<and>
       p = silence_request (target_AlertmanagerURL t) (target_AlertmanagerToken t)
         (silence_for now (now + microseconds w) (silenceAuthor caller) comment t))"
proof (cases rule: silence_handler_cases [of pgrx strxfrm url_parse do_http configured config now q r s])
  case nothing
  with assms show ?thesis by simp
next
  case (creating caller scope d comment)
  note run = assms(1) [unfolded creating(3)]
  obtain w where w: "silenceWindow config d = Inr w"
    using run assms(2) createSilences_refused [of config d] by (cases "silenceWindow config d") auto
  note eq = run [unfolded createSilences_eq [OF w] Let_def prod.inject]
  have "w = SilenceDefaultDuration config \<or> sint w \<le> sint (SilenceMaxDuration config)"
    using silenceWindow_limit [OF w] by (auto split: if_splits)
  moreover have "s' = s\<lparr>alertmanager_silences := alertmanager_silences s'\<rparr>"
    unfolding eq [THEN conjunct1, symmetric] by (rule record_all_frame(1))
  moreover have "\<exists>t \<in> set (scope_Targets scope). 0 < microseconds w \<and>
       p = silence_request (target_AlertmanagerURL t) (target_AlertmanagerToken t)
         (silence_for now (now + microseconds w) (silenceAuthor caller) comment t)" if "p \<in> set posts" for p
  proof -
    have "p \<in> set (concat (map (\<lambda>t. fst (CreateSilence do_http (target_AlertmanagerURL t) (target_AlertmanagerToken t)
           (silence_for now (now + microseconds w) (silenceAuthor caller) comment t))) (scope_Targets scope)))"
      using that unfolding eq [THEN conjunct2, THEN conjunct1] .
    then obtain t where t: "t \<in> set (scope_Targets scope)"
      "p \<in> set (fst (CreateSilence do_http (target_AlertmanagerURL t) (target_AlertmanagerToken t)
           (silence_for now (now + microseconds w) (silenceAuthor caller) comment t)))" by auto
    from CreateSilence_posts [OF t(2)] t(1) show ?thesis by (auto simp: silence_for_def)
  qed
  ultimately show ?thesis using creating(1,2) unfolding silenceRequestPrincipal_Inr by blast
qed

theorem silence_requests_in_scope_witness:
  "\<exists>posts s' reply. silence_handler (\<lambda>p v. p = v) id (\<lambda>u. None) (\<lambda>p. Inr (200, Inr ''s9'')) True sample_config 1000
     (ForAlert BodyEmpty) team_request teams_db = (s', posts, reply) \<and> posts \<noteq> [] \<and>
     list_all (\<lambda>p. post_CreatedBy p = ''alice'') posts"
proof -
  let ?pgrx = "\<lambda>p v :: string. p = v"
  let ?access = "operateAccessCondition one_team ColLabels [ArgInt 1]"
  let ?run = "silence_handler ?pgrx id (\<lambda>u. None) (\<lambda>p. Inr (200, Inr ''s9'')) True sample_config 1000
     (ForAlert BodyEmpty) team_request teams_db"
  have req: "silenceRequestPrincipal True (\<lambda>u. None) team_request = Inr one_team" "path_id team_request = Inr 1"
    by (simp_all add: silenceRequestPrincipal_def validMutationOrigin_def requestBearerToken_def request_cookie_def team_request_def
        team_callers silenceAuthor_def starts_with_def path_id_def ParseInt_def is_digit_def less_eq_char_def
        decimal_value_def digit_value_def int64_range_def)
      (simp add: one_team_def sample_operator_def)
  have w: "silenceWindow sample_config 0 = Inr 3600000000000" by (simp add: silenceWindow_def sample_config_def)
  obtain scope where scope: "SilenceScopeForAlert ?pgrx one_team 1 teams_db = Inr scope"
    and targets: "scope_Targets scope = [target_of (team_row 1 ''a'') sample_source]"
    using team_alert_scope by auto
  have eq: "?run = createSilences (\<lambda>p. Inr (200, Inr ''s9'')) sample_config 1000 one_team scope 0 '''' teams_db"
    by (simp add: silence_handler_def silenceAlert_def req scope decodeSilenceBody_def)
  have author: "silenceAuthor one_team = ''alice''" by (simp add: silenceAuthor_def one_team_def sample_operator_def)
  have "MatchersFromLabels (team_labels ''a'') \<noteq> []"
    by (simp add: MatchersFromLabels_def team_labels_def) code_simp
  then have posts: "fst (snd ?run) \<noteq> []"
    unfolding eq createSilences_eq [OF w]
    by (simp add: Let_def targets CreateSilence_def validateSilence_def silence_for_def author microseconds_def
        target_of_def team_row_def)
  have run: "?run = (fst ?run, fst (snd ?run), snd (snd ?run))" by simp
  have "\<exists>caller. req_principal team_request = Some caller \<and>
      (\<forall>p \<in> set (fst (snd ?run)). post_CreatedBy p = silenceAuthor caller)"
    using silence_requests_in_scope [OF run disjI1 [OF posts]]
  proof (elim exE conjE, intro exI conjI ballI)
    fix caller scope w comment p
    assume "\<forall>p \<in> set (fst (snd ?run)). \<exists>t \<in> set (scope_Targets scope). 0 < microseconds w \<and>
       p = silence_request (target_AlertmanagerURL t) (target_AlertmanagerToken t)
         (silence_for 1000 (1000 + microseconds w) (silenceAuthor caller) comment t)" "p \<in> set (fst (snd ?run))"
    then show "post_CreatedBy p = silenceAuthor caller" by (auto simp: silence_request_def silence_for_def)
  qed
  then have "list_all (\<lambda>p. post_CreatedBy p = ''alice'') (fst (snd ?run))"
    by (auto simp: list_all_iff team_request_def author)
  with run posts show ?thesis by metis
qed

text \<open>C19: removing a silence asks an Alertmanager only when the caller may operate on an alert
  that silence is holding back now, and only the Alertmanager of that alert's source; the answer
  is success only when it agreed. The only record that changes is that silence's, which is marked
  as ended.\<close>

theorem silence_removal_scope:
  assumes "removeAlertSilence pgrx url_parse do_delete pathEscape configured now r s = (s', sent, reply)"
  shows "(sent = [] \<longrightarrow> s' = s \<and> (\<exists>status e. reply = Fail status e)) \<and>
    (\<forall>target \<in> set sent. \<exists>caller alert src. sent = [target] \<and> req_principal r = Some caller \<and> CanOperate caller \<and>
       validMutationOrigin url_parse r \<and> alert \<in> set (alert_rows s) \<and> path_id r = Inr (ID alert) \<and>
       sql_can_operate pgrx caller (Labels alert) \<and> req_path r ''silenceId'' \<in> set (SilencedBy alert) \<and>
       joined_source s (SourceSlug alert) = Some src \<and> target = target_of alert src \<and>
       (if DeleteSilence do_delete pathEscape (row_alertmanager_url src) (row_alertmanager_token src)
             (req_path r ''silenceId'') = Inr ()
        then reply = Reply 200 (Removed (SourceSlug alert) (req_path r ''silenceId'')) \<and>
          (\<forall>key. silence_at s' key =
             (if key = (SourceSlug alert, req_path r ''silenceId'') \<and> text_ok (SourceSlug alert) \<and>
                 text_ok (req_path r ''silenceId'')
              then map_option (end_record now) (silence_at s key) else silence_at s key))
        else s' = s \<and> reply = Fail 502 (Message ''the alertmanager refused to remove the silence'')))"
proof (cases "silenceRequestPrincipal configured url_parse r")
  case (Inl f)
  with assms show ?thesis by (auto simp: removeAlertSilence_def fail_def)
next
  case gate: (Inr caller)
  note caller = gate [unfolded silenceRequestPrincipal_Inr]
  let ?sid = "req_path r ''silenceId''"
  show ?thesis
  proof (cases "path_id r")
    case (Inl f)
    with assms gate show ?thesis by (auto simp: removeAlertSilence_def fail_def)
  next
    case i: (Inr i)
    show ?thesis
    proof (cases "SilenceRemovalScope pgrx caller i ?sid s")
      case (Inl e)
      with assms gate i show ?thesis by (auto simp: removeAlertSilence_def fail_def Let_def)
    next
      case scope: (Inr target)
      from scope obtain alert src where
        a: "alert \<in> set (alert_rows s)" "ID alert = i" "sql_can_operate pgrx caller (Labels alert)"
          "?sid \<in> set (SilencedBy alert)" "joined_source s (SourceSlug alert) = Some src" "target = target_of alert src"
        by (rule removal_scope_result)
      show ?thesis
      proof (cases "DeleteSilence do_delete pathEscape (row_alertmanager_url src) (row_alertmanager_token src) ?sid")
        case (Inl e)
        then have "s' = s" "sent = [target]" "reply = Fail 502 (Message ''the alertmanager refused to remove the silence'')"
          using assms gate i scope a(6) by (auto simp: removeAlertSilence_def target_of_def Let_def)
        then show ?thesis
          using a caller i Inl by (intro conjI ballI exI [of _ caller] exI [of _ alert] exI [of _ src]) simp_all
      next
        case (Inr u)
        then have r: "s' = (case ExpireSilenceRecord (SourceSlug alert) ?sid now s of Inl e \<Rightarrow> s | Inr s' \<Rightarrow> s')"
          "sent = [target]" "reply = Reply 200 (Removed (SourceSlug alert) ?sid)"
          using assms gate i scope a(6) by (auto simp: removeAlertSilence_def target_of_def Let_def)
        then show ?thesis
          using a caller i Inr expire_record_at [where slug = "SourceSlug alert" and sid = ?sid and now = now and s = s]
          by (intro conjI ballI exI [of _ caller] exI [of _ alert] exI [of _ src]) simp_all
      qed
    qed
  qed
qed

theorem silence_removal_scope_witness:
  "\<exists>s' sent. removeAlertSilence (\<lambda>p v. p = v) (\<lambda>u. None) (\<lambda>p. Inr (200, Inr ())) id True 500 team_request silenced_db =
     (s', sent, Reply 200 (Removed ''prod'' ''s1'')) \<and>
     map_option rec_State (silence_at s' (''prod'', ''s1'')) = Some ''expired''"
proof -
  let ?pgrx = "\<lambda>p v :: string. p = v"
  let ?row = "(team_row 1 ''a'')\<lparr>SilencedBy := [''s1'']\<rparr>"
  let ?access = "operateAccessCondition one_team ColLabels [ArgInt 1]"
  let ?run = "removeAlertSilence ?pgrx (\<lambda>u. None) (\<lambda>p. Inr (200, Inr ())) id True 500 team_request silenced_db"
  have req: "silenceRequestPrincipal True (\<lambda>u. None) team_request = Inr one_team" "path_id team_request = Inr 1"
    "req_path team_request ''silenceId'' = ''s1''"
    by (simp_all add: silenceRequestPrincipal_def validMutationOrigin_def requestBearerToken_def request_cookie_def team_request_def
        team_callers silenceAuthor_def starts_with_def path_id_def ParseInt_def is_digit_def less_eq_char_def
        decimal_value_def digit_value_def int64_range_def)
      (simp add: one_team_def sample_operator_def)
  have "statement_ok {1} (fst ?access) (snd ?access)"
    using operateAccessCondition_accepted [OF team_callers(4), of "[ArgInt 1]" ColLabels] team_callers(6) by simp
  moreover have "Labels ?row = team_labels ''a''" "ID ?row = 1" "SourceSlug ?row = ''prod''"
    "alert_rows silenced_db = [?row]"
    by (simp_all add: team_row_def sample_row_def silenced_db_def)
  ultimately have select: "select_alert ?pgrx ?access 1 silenced_db = Inr ?row"
    by (simp add: select_alert_def eval_operate_row team_scope)
  have source: "joined_source silenced_db ''prod'' = Some sample_source"
    using team_source(1) by (simp add: joined_source_def silenced_db_def)
  have trim: "TrimSpace ''s1'' \<noteq> ''''" by code_simp
  have scope: "SilenceRemovalScope ?pgrx one_team 1 ''s1'' silenced_db = Inr (target_of ?row sample_source)"
    using select source trim team_source(2) \<open>SourceSlug ?row = ''prod''\<close>
    by (simp add: SilenceRemovalScope_def select_with_source_def team_callers)
  have delete: "DeleteSilence (\<lambda>p. Inr (200, Inr ())) id url token ''s1'' = Inr ()" for url token
    using trim by (simp add: DeleteSilence_def StatusOK_def)
  have sent: "fst (snd ?run) = [target_of ?row sample_source]"
    using req scope by (simp add: removeAlertSilence_def Let_def delete)
  have run: "?run = (fst ?run, fst (snd ?run), snd (snd ?run))" by simp
  from silence_removal_scope [OF run] obtain alert where
    "alert \<in> set (alert_rows silenced_db)"
    "snd (snd ?run) = Reply 200 (Removed (SourceSlug alert) ''s1'') \<and>
      (\<forall>key. silence_at (fst ?run) key =
         (if key = (SourceSlug alert, ''s1'') \<and> text_ok (SourceSlug alert) \<and> text_ok ''s1''
          then map_option (end_record 500) (silence_at silenced_db key) else silence_at silenced_db key))"
    unfolding sent by (auto simp: req delete)
  moreover have "silence_at silenced_db (''prod'', ''s1'') \<noteq> None"
    by (simp add: silence_at_def silenced_db_def record_for_def target_of_def team_row_def sample_row_def silence_key_def)
  ultimately show ?thesis
    using run \<open>alert_rows silenced_db = [?row]\<close> \<open>SourceSlug ?row = ''prod''\<close>
    by (intro exI [of _ "fst ?run"] exI [of _ "fst (snd ?run)"]) (auto simp: end_record_def)
qed

end
