(* ===== verification/Reconcile.thy ===== *)
theory Reconcile
  imports Silence_Records
begin

text \<open>
  Reconciliation of one source with its Alertmanager (\<open>internal/postgres/reconcile.go\<close>):
  \<open>ReconcileSource\<close> with its four branches (revive, resolve, release, sync suppression) and
  the evidence stamp, \<open>ReconcilableSources\<close> and \<open>FiringFingerprints\<close>.

  \<open>locked i\<close> says that another transaction holds the alert \<open>i\<close>, which the pass skips.
  A nil map of active silences is \<^const>\<open>None\<close>; a nil map of missing fingerprints is the
  empty set, which is how the code reads it.
\<close>

section \<open>Definitions\<close>

record ReconcileResult =
  res_Resolved :: nat
  res_Suppressed :: nat
  res_Released :: nat
  res_Revived :: nat

definition no_result :: ReconcileResult where
  "no_result = \<lparr>res_Resolved = 0, res_Suppressed = 0, res_Released = 0, res_Revived = 0\<rparr>"

definition sortedCopy :: "string list \<Rightarrow> string list" where
  "sortedCopy values = (if values = [] then [] else sort values)"

definition sameStrings :: "string list \<Rightarrow> string list \<Rightarrow> bool" where
  "sameStrings left right \<longleftrightarrow> left = right"

fun anySilenceActive :: "string list \<Rightarrow> string set \<Rightarrow> bool" where
  "anySilenceActive [] active = False"
| "anySilenceActive (i # ids) active = (if i \<in> active then True else anySilenceActive ids active)"

definition liveByFingerprint :: "LiveAlert list \<Rightarrow> string \<Rightarrow> LiveAlert option" where
  "liveByFingerprint live =
     foldl (\<lambda>m a. m(live_Fingerprint a \<mapsto> a\<lparr>live_SilencedBy := sortedCopy (live_SilencedBy a)\<rparr>)) Map.empty live"

definition reconcile_select :: "string \<Rightarrow> LiveAlert list \<Rightarrow> (int \<Rightarrow> bool) \<Rightarrow> db \<Rightarrow> alert_row list" where
  "reconcile_select sourceSlug live locked s =
     filter (\<lambda>r. SourceSlug r = sourceSlug \<and>
         (Status r = StatusFiring \<or>
          Status r = StatusExpired \<and> Fingerprint r \<in> set (map live_Fingerprint live)) \<and>
         \<not> locked (ID r)) (alert_rows s)"

definition reconcile_incoming :: "string \<Rightarrow> instant \<Rightarrow> SourceStatus \<Rightarrow> alert_row \<Rightarrow> IncomingAlert" where
  "reconcile_incoming sourceSlug now status item =
     \<lparr>in_SourceSlug = sourceSlug, in_Fingerprint = Fingerprint item, in_Status = status,
      in_Labels = Labels item, in_Annotations = Annotations item, in_StartsAt = 0, in_EndsAt = 0,
      in_GeneratorURL = '''', in_ExternalURL = '''', in_ReceivedAt = now, in_RawData = ''''\<rparr>"

definition suppress_row :: "LiveAlert \<Rightarrow> alert_row \<Rightarrow> alert_row" where
  "suppress_row current r = r\<lparr>Suppressed := live_Suppressed current, SilencedBy := live_SilencedBy current\<rparr>"

definition release_row :: "alert_row \<Rightarrow> alert_row" where
  "release_row r = r\<lparr>Suppressed := False, SilencedBy := []\<rparr>"

definition revive_row :: "LiveAlert \<Rightarrow> alert_row \<Rightarrow> alert_row" where
  "revive_row current r = r\<lparr>Status := StatusFiring, EndsAt := None,
     Suppressed := live_Suppressed current, SilencedBy := live_SilencedBy current\<rparr>"

definition resolve_row :: "instant \<Rightarrow> alert_row \<Rightarrow> alert_row" where
  "resolve_row now r = r\<lparr>Status := StatusResolved, EndsAt := coalesce (EndsAt r) (Some now),
     Suppressed := False, SilencedBy := []\<rparr>"

definition revive_item :: "string \<Rightarrow> instant \<Rightarrow> LiveAlert \<Rightarrow> alert_row \<Rightarrow> db \<Rightarrow> db_error + db" where
  "revive_item sourceSlug now current item s =
     bind_res (update_by_id (live_SilencedBy current) (ID item) (revive_row current) s)
       (\<lambda>s1. bind_res (insertStreamEvent ''alert.updated'' (ID item)
                (reconcile_incoming sourceSlug now StatusFiring item) None s1)
          (insertHistoryEvent (ID item) (Occurrence item) ''alert.revived'' StatusFiring now))"

definition resolve_item :: "string \<Rightarrow> instant \<Rightarrow> alert_row \<Rightarrow> db \<Rightarrow> db_error + db" where
  "resolve_item sourceSlug now item s =
     bind_res (update_by_id [] (ID item) (resolve_row now) s)
       (\<lambda>s1. bind_res (insertStreamEvent ''alert.resolved'' (ID item)
                (reconcile_incoming sourceSlug now StatusResolved item) None s1)
          (insertHistoryEvent (ID item) (Occurrence item) ''alert.reconciled'' StatusResolved now))"

definition release_item :: "string \<Rightarrow> instant \<Rightarrow> alert_row \<Rightarrow> db \<Rightarrow> db_error + db" where
  "release_item sourceSlug now item s =
     bind_res (update_by_id [] (ID item) release_row s)
       (insertStreamEvent ''alert.updated'' (ID item) (reconcile_incoming sourceSlug now StatusFiring item) None)"

definition suppress_item :: "string \<Rightarrow> instant \<Rightarrow> LiveAlert \<Rightarrow> alert_row \<Rightarrow> db \<Rightarrow> db_error + db" where
  "suppress_item sourceSlug now current item s =
     bind_res (update_by_id (live_SilencedBy current) (ID item) (suppress_row current) s)
       (\<lambda>s1. if live_Suppressed current = Suppressed item then Inr s1
             else insertStreamEvent ''alert.updated'' (ID item)
               (reconcile_incoming sourceSlug now StatusFiring item) None s1)"

definition reconcile_item ::
  "string \<Rightarrow> (string \<Rightarrow> LiveAlert option) \<Rightarrow> string set \<Rightarrow> string set option \<Rightarrow> instant \<Rightarrow> alert_row \<Rightarrow>
   db \<times> ReconcileResult \<Rightarrow> db_error + db \<times> ReconcileResult" where
  "reconcile_item sourceSlug lv missing activeSilences now item = (\<lambda>(s, result).
     if Status item = StatusExpired then
       (case lv (Fingerprint item) of
          None \<Rightarrow> Inr (s, result)
        | Some current \<Rightarrow>
            bind_res (revive_item sourceSlug now current item s)
              (\<lambda>s1. Inr (s1, result\<lparr>res_Revived := res_Revived result + 1\<rparr>)))
     else if Fingerprint item \<in> missing then
       bind_res (resolve_item sourceSlug now item s)
         (\<lambda>s1. Inr (s1, result\<lparr>res_Resolved := res_Resolved result + 1\<rparr>))
     else
       (case lv (Fingerprint item) of
          None \<Rightarrow>
            (case activeSilences of
               None \<Rightarrow> Inr (s, result)
             | Some active \<Rightarrow>
                 if \<not> Suppressed item \<or> SilencedBy item = [] then Inr (s, result)
                 else if anySilenceActive (SilencedBy item) active then Inr (s, result)
                 else bind_res (release_item sourceSlug now item s)
                   (\<lambda>s1. Inr (s1, result\<lparr>res_Released := res_Released result + 1\<rparr>)))
        | Some current \<Rightarrow>
            let stateChanged = (live_Suppressed current \<noteq> Suppressed item)
            in if \<not> stateChanged \<and> sameStrings (live_SilencedBy current) (SilencedBy item) then Inr (s, result)
               else bind_res (suppress_item sourceSlug now current item s)
                 (\<lambda>s1. Inr (s1,
                    if \<not> stateChanged then result
                    else if live_Suppressed current then result\<lparr>res_Suppressed := res_Suppressed result + 1\<rparr>
                    else result\<lparr>res_Released := res_Released result + 1\<rparr>))))"

definition ReconcileSource ::
  "string \<Rightarrow> LiveAlert list \<Rightarrow> string set \<Rightarrow> string set option \<Rightarrow> instant \<Rightarrow> (int \<Rightarrow> bool) \<Rightarrow> db \<Rightarrow>
   db_error + db \<times> ReconcileResult" where
  "ReconcileSource sourceSlug live missing activeSilences now locked s =
     (if \<not> text_ok sourceSlug \<or> \<not> list_all text_ok (map live_Fingerprint live) then Inl ErrDatabase
      else bind_res
        (fold_res (reconcile_item sourceSlug (liveByFingerprint live) missing activeSilences now)
           (reconcile_select sourceSlug live locked s) (s, no_result))
        (\<lambda>(s1, result).
           if live = [] then Inr (s1, result)
           else bind_res
             (update_alerts
               (\<lambda>r. SourceSlug r = sourceSlug \<and> Status r = StatusFiring \<and>
                    Fingerprint r \<in> set (map live_Fingerprint live))
               (\<lambda>r. r\<lparr>ReconciledAt := Some now\<rparr>) s1)
             (\<lambda>s2. Inr (s2, result))))"

definition ReconcilableSources :: "db \<Rightarrow> (string \<times> string) list" where
  "ReconcilableSources s =
     map (\<lambda>r. (row_slug r, row_alertmanager_url r))
       (filter (\<lambda>r. row_enabled r \<and> row_alertmanager_url r \<noteq> '''') (alert_sources s))"

definition FiringFingerprints :: "string \<Rightarrow> db \<Rightarrow> string list" where
  "FiringFingerprints sourceSlug s =
     map Fingerprint (filter (\<lambda>r. SourceSlug r = sourceSlug \<and> Status r = StatusFiring) (alert_rows s))"

section \<open>Specification\<close>

text \<open>What a pass makes of one alert of the source that it could lock.\<close>

definition settle ::
  "(string \<Rightarrow> LiveAlert option) \<Rightarrow> string set \<Rightarrow> string set option \<Rightarrow> instant \<Rightarrow> alert_row \<Rightarrow> alert_row" where
  "settle lv missing activeSilences now r =
     (case Status r of
        StatusResolved \<Rightarrow> r
      | StatusExpired \<Rightarrow> (case lv (Fingerprint r) of None \<Rightarrow> r | Some c \<Rightarrow> revive_row c r)
      | StatusFiring \<Rightarrow>
          if Fingerprint r \<in> missing then resolve_row now r
          else (case lv (Fingerprint r) of
                  Some c \<Rightarrow> suppress_row c r
                | None \<Rightarrow>
                    (case activeSilences of
                       None \<Rightarrow> r
                     | Some active \<Rightarrow>
                         if Suppressed r \<and> SilencedBy r \<noteq> [] \<and> set (SilencedBy r) \<inter> active = {}
                         then release_row r else r)))"

definition settled ::
  "string \<Rightarrow> (string \<Rightarrow> LiveAlert option) \<Rightarrow> string set \<Rightarrow> string set option \<Rightarrow> instant \<Rightarrow> (int \<Rightarrow> bool) \<Rightarrow>
   alert_row \<Rightarrow> alert_row" where
  "settled slug lv missing activeSilences now locked r =
     (if SourceSlug r = slug \<and> \<not> locked (ID r) then settle lv missing activeSilences now r else r)"

text \<open>The evidence the source vouches for: every alert of it that is firing afterwards and listed.\<close>

definition stamped :: "string \<Rightarrow> (string \<Rightarrow> LiveAlert option) \<Rightarrow> instant \<Rightarrow> alert_row \<Rightarrow> alert_row" where
  "stamped slug lv now r =
     (if SourceSlug r = slug \<and> Status r = StatusFiring \<and> lv (Fingerprint r) \<noteq> None
      then r\<lparr>ReconciledAt := Some now\<rparr> else r)"

text \<open>Two rows that agree on every column but the status, its end, the suppression and the evidence
  of reconciliation.\<close>

definition same_columns :: "alert_row \<Rightarrow> alert_row \<Rightarrow> bool" where
  "same_columns r r' \<longleftrightarrow>
     r' = r\<lparr>Status := Status r', EndsAt := EndsAt r', Suppressed := Suppressed r', SilencedBy := SilencedBy r',
             ReconciledAt := ReconciledAt r'\<rparr>"

text \<open>A change a reader would see: the alert starts or stops firing, or its suppression flips.\<close>

definition visible_change :: "alert_row \<Rightarrow> alert_row \<Rightarrow> bool" where
  "visible_change r r' \<longleftrightarrow> Status r \<noteq> Status r' \<or> Suppressed r \<noteq> Suppressed r'"

definition result_total :: "ReconcileResult \<Rightarrow> nat" where
  "result_total res = res_Resolved res + res_Suppressed res + res_Released res + res_Revived res"

definition reading_texts_ok :: "LiveAlert list \<Rightarrow> bool" where
  "reading_texts_ok live \<longleftrightarrow>
     list_all (\<lambda>a. text_ok (live_Fingerprint a) \<and> list_all text_ok (live_SilencedBy a)) live"

text \<open>The effect of a step on the state: the row, and how many events the stream gained.\<close>

definition wrote :: "alert_row \<Rightarrow> (alert_row \<Rightarrow> alert_row) \<Rightarrow> nat \<Rightarrow> db \<Rightarrow> db \<Rightarrow> bool" where
  "wrote item f n s s' \<longleftrightarrow> db_ok s' \<and> alert_sources s' = alert_sources s \<and>
     alert_rows s' = upd_where (\<lambda>r. r = item) f (alert_rows s) \<and>
     length (stream_events s') = length (stream_events s) + n"

section \<open>Lemmas\<close>

subsection \<open>Readings\<close>

lemma anySilenceActive_iff: "anySilenceActive ids active \<longleftrightarrow> set ids \<inter> active \<noteq> {}"
  by (induction ids) auto

lemma sortedCopy_sort: "sortedCopy values = sort values"
  by (simp add: sortedCopy_def)

lemma live_snoc:
  "liveByFingerprint (live @ [a]) =
   (liveByFingerprint live)(live_Fingerprint a \<mapsto> a\<lparr>live_SilencedBy := sortedCopy (live_SilencedBy a)\<rparr>)"
  by (simp add: liveByFingerprint_def)

lemma live_dom: "liveByFingerprint live fp = None \<longleftrightarrow> fp \<notin> set (map live_Fingerprint live)"
  by (induction live rule: rev_induct) (auto simp: live_snoc liveByFingerprint_def)

lemma live_in_reading:
  "liveByFingerprint live fp = Some c \<Longrightarrow>
   \<exists>a \<in> set live. live_Fingerprint a = fp \<and> c = a\<lparr>live_SilencedBy := sortedCopy (live_SilencedBy a)\<rparr>"
proof (induction live rule: rev_induct)
  case (snoc a live)
  show ?case
  proof (cases "live_Fingerprint a = fp")
    case True
    with snoc.prems have "c = a\<lparr>live_SilencedBy := sortedCopy (live_SilencedBy a)\<rparr>" by (simp add: live_snoc)
    with True show ?thesis by simp
  next
    case False
    with snoc.prems have "liveByFingerprint live fp = Some c" by (simp add: live_snoc)
    from snoc.IH [OF this] show ?thesis by fastforce
  qed
qed (simp add: liveByFingerprint_def)

lemma live_texts:
  assumes "reading_texts_ok live" "liveByFingerprint live fp = Some c"
  shows "list_all text_ok (live_SilencedBy c)"
proof -
  obtain a where "a \<in> set live" "c = a\<lparr>live_SilencedBy := sortedCopy (live_SilencedBy a)\<rparr>"
    using live_in_reading [OF assms(2)] by blast
  with assms(1) show ?thesis by (simp add: reading_texts_ok_def list_all_iff sortedCopy_sort)
qed

subsection \<open>The rows a pass writes\<close>

lemma settle_rows_le:
  "row_le r (suppress_row c r)" "row_le r (release_row r)" "row_le r (revive_row c r)"
  "row_le r (resolve_row now r)" "row_le r (r\<lparr>ReconciledAt := t\<rparr>)"
  by (simp_all add: row_le_def suppress_row_def release_row_def revive_row_def resolve_row_def)

lemma settle_rows_checks:
  assumes "alert_checks r"
  shows "alert_checks (suppress_row c r)" "alert_checks (release_row r)" "alert_checks (revive_row c r)"
    "alert_checks (resolve_row now r)" "alert_checks (r\<lparr>ReconciledAt := t\<rparr>)"
  using assms
  by (simp_all add: alert_checks_def acknowledgement_check_def assignment_check_def close_check_def
      suppress_row_def release_row_def revive_row_def resolve_row_def)

lemma settle_le: "row_le r (settle lv missing active now r)"
  by (auto simp: settle_def settle_rows_le split: SourceStatus.splits option.splits)

text \<open>Writing one row of the table is writing the row the pass read.\<close>

lemma write_one:
  assumes "db_ok s" "item \<in> set (alert_rows s)"
  shows "upd_where (\<lambda>r. ID r = ID item) f (alert_rows s) = upd_where (\<lambda>r. r = item) f (alert_rows s)"
  unfolding upd_where_def
proof (rule map_cong [OF refl])
  fix r assume "r \<in> set (alert_rows s)"
  then have "ID r = ID item \<longleftrightarrow> r = item" using row_by_id [OF db_okD(2) [OF assms(1)] _ assms(2)] by blast
  then show "(if ID r = ID item then f r else r) = (if r = item then f r else r)" by simp
qed

lemma write_same: "f item = item \<Longrightarrow> upd_where (\<lambda>r. r = item) f rows = rows"
  by (simp add: upd_where_def map_idI)

lemma write_at: "f item = g item \<Longrightarrow> upd_where (\<lambda>r. r = item) f rows = upd_where (\<lambda>r. r = item) g rows"
  by (auto simp: upd_where_def)

lemma item_occurrence:
  assumes "db_ok s" "item \<in> set (alert_rows s)" "update_by_id texts (ID item) f s = Inr s1" "\<And>r. row_le r (f r)"
  shows "Occurrence item \<le> occurrence_of s1 (ID item)"
proof -
  have "occurrence_of s (ID item) = Occurrence item"
    using db_okD(2) [OF assms(1)] occurrence_of_eq [OF _ assms(2)] by (simp add: alerts_ok_def)
  moreover have "occurrence_of s (ID item) \<le> occurrence_of s1 (ID item)"
    using occurrence_update [OF db_okD(2) [OF assms(1)]] update_by_id_Inr [OF assms(3)] assms(2,4) by blast
  ultimately show ?thesis by simp
qed

lemma wrote_update:
  assumes "db_ok s" "item \<in> set (alert_rows s)" "update_by_id texts (ID item) f s = Inr s'" "\<And>r. row_le r (f r)"
  shows "wrote item f 0 s s'"
proof -
  have "s' = s\<lparr>alert_rows := upd_where (\<lambda>r. r = item) f (alert_rows s)\<rparr>"
    using update_by_id_Inr [OF assms(3)] write_one [OF assms(1,2), of f] by simp
  with update_by_id_ok [OF assms(1,3,4)] show ?thesis by (simp add: wrote_def)
qed

lemma wrote_stream:
  assumes "wrote item f 0 s s1" "insertStreamEvent ty i alert prev s1 = Inr s'"
  shows "wrote item f 1 s s'"
proof -
  have "length (stream_events s') = length (stream_events s1) + 1" using assms(2) by (auto simp: insertStreamEvent_Inr)
  with assms(1) insertStreamEvent_ok [OF _ assms(2)] insertStreamEvent_rows [OF assms(2)] show ?thesis
    by (simp add: wrote_def)
qed

lemma wrote_events:
  assumes "wrote item f 0 s s1" "occ \<le> occurrence_of s1 i"
    "bind_res (insertStreamEvent ty i alert prev s1) (insertHistoryEvent i occ hty st t) = Inr s'"
  shows "wrote item f 1 s s'"
  using assms(1) events_ok [OF _ assms(2,3)] by (simp add: wrote_def)

subsection \<open>One alert\<close>

lemma revive_item_wrote:
  assumes "db_ok s" "item \<in> set (alert_rows s)" "revive_item slug now c item s = Inr s'"
  shows "wrote item (revive_row c) 1 s s'"
proof -
  obtain s1 where s1: "update_by_id (live_SilencedBy c) (ID item) (revive_row c) s = Inr s1"
    "bind_res (insertStreamEvent ''alert.updated'' (ID item) (reconcile_incoming slug now StatusFiring item) None s1)
      (insertHistoryEvent (ID item) (Occurrence item) ''alert.revived'' StatusFiring now) = Inr s'"
    using assms(3) unfolding revive_item_def bind_res_Inr [of "update_by_id _ _ _ _"] by blast
  show ?thesis
    by (rule wrote_events [OF wrote_update [OF assms(1,2) s1(1) settle_rows_le(3)]
          item_occurrence [OF assms(1,2) s1(1) settle_rows_le(3)] s1(2)])
qed

lemma resolve_item_wrote:
  assumes "db_ok s" "item \<in> set (alert_rows s)" "resolve_item slug now item s = Inr s'"
  shows "wrote item (resolve_row now) 1 s s'"
proof -
  obtain s1 where s1: "update_by_id [] (ID item) (resolve_row now) s = Inr s1"
    "bind_res (insertStreamEvent ''alert.resolved'' (ID item) (reconcile_incoming slug now StatusResolved item) None s1)
      (insertHistoryEvent (ID item) (Occurrence item) ''alert.reconciled'' StatusResolved now) = Inr s'"
    using assms(3) unfolding resolve_item_def bind_res_Inr [of "update_by_id _ _ _ _"] by blast
  show ?thesis
    by (rule wrote_events [OF wrote_update [OF assms(1,2) s1(1) settle_rows_le(4)]
          item_occurrence [OF assms(1,2) s1(1) settle_rows_le(4)] s1(2)])
qed

lemma release_item_wrote:
  assumes "db_ok s" "item \<in> set (alert_rows s)" "release_item slug now item s = Inr s'"
  shows "wrote item release_row 1 s s'"
proof -
  obtain s1 where s1: "update_by_id [] (ID item) release_row s = Inr s1"
    "insertStreamEvent ''alert.updated'' (ID item) (reconcile_incoming slug now StatusFiring item) None s1 = Inr s'"
    using assms(3) unfolding release_item_def bind_res_Inr by blast
  show ?thesis by (rule wrote_stream [OF wrote_update [OF assms(1,2) s1(1) settle_rows_le(2)] s1(2)])
qed

lemma suppress_item_wrote:
  assumes "db_ok s" "item \<in> set (alert_rows s)" "suppress_item slug now c item s = Inr s'"
  shows "wrote item (suppress_row c) (if live_Suppressed c = Suppressed item then 0 else 1) s s'"
proof -
  obtain s1 where s1: "update_by_id (live_SilencedBy c) (ID item) (suppress_row c) s = Inr s1"
    "(if live_Suppressed c = Suppressed item then Inr s1
      else insertStreamEvent ''alert.updated'' (ID item) (reconcile_incoming slug now StatusFiring item) None s1) = Inr s'"
    using assms(3) unfolding suppress_item_def bind_res_Inr by blast
  note w = wrote_update [OF assms(1,2) s1(1) settle_rows_le(1)]
  show ?thesis
  proof (cases "live_Suppressed c = Suppressed item")
    case True
    with s1(2) w show ?thesis by simp
  next
    case False
    with s1(2) have "insertStreamEvent ''alert.updated'' (ID item) (reconcile_incoming slug now StatusFiring item) None s1 = Inr s'" by simp
    from wrote_stream [OF w this] False show ?thesis by simp
  qed
qed

lemma wrote_none: "db_ok s \<Longrightarrow> f item = item \<Longrightarrow> wrote item f 0 s s"
  by (simp add: wrote_def write_same)

lemma wrote_as: "wrote item f n s s' \<Longrightarrow> g item = f item \<Longrightarrow> wrote item g n s s'"
  using write_at [of f item g "alert_rows s"] by (simp add: wrote_def)

lemma result_total_simps:
  "result_total (res\<lparr>res_Resolved := Suc (res_Resolved res)\<rparr>) = Suc (result_total res)"
  "result_total (res\<lparr>res_Suppressed := Suc (res_Suppressed res)\<rparr>) = Suc (result_total res)"
  "result_total (res\<lparr>res_Released := Suc (res_Released res)\<rparr>) = Suc (result_total res)"
  "result_total (res\<lparr>res_Revived := Suc (res_Revived res)\<rparr>) = Suc (result_total res)"
  by (simp_all add: result_total_def)

lemma visible_rows:
  "Status r = StatusExpired \<Longrightarrow> visible_change r (revive_row c r)"
  "Status r = StatusFiring \<Longrightarrow> visible_change r (resolve_row now r)"
  "visible_change r (release_row r) \<longleftrightarrow> Suppressed r"
  "visible_change r (suppress_row c r) \<longleftrightarrow> live_Suppressed c \<noteq> Suppressed r"
  "\<not> visible_change r r"
  by (auto simp: visible_change_def revive_row_def resolve_row_def release_row_def suppress_row_def)

lemma item_expired:
  assumes "db_ok s" "item \<in> set (alert_rows s)" "Status item = StatusExpired"
    "reconcile_item slug lv missing active now item (s, res) = Inr (s', res')"
  shows "wrote item (settle lv missing active now) (result_total res' - result_total res) s s'"
    "result_total res' = result_total res + of_bool (visible_change item (settle lv missing active now item))"
proof -
  let ?f = "settle lv missing active now"
  have "wrote item ?f (result_total res' - result_total res) s s' \<and>
    result_total res' = result_total res + of_bool (visible_change item (?f item))"
  proof (cases "lv (Fingerprint item)")
    case None
    then have "s' = s" "res' = res" "?f item = item"
      using assms(3,4) by (simp_all add: reconcile_item_def settle_def)
    then show ?thesis using wrote_none [OF assms(1)] by (simp add: visible_rows)
  next
    case (Some c)
    then have r: "revive_item slug now c item s = Inr s'" "res' = res\<lparr>res_Revived := res_Revived res + 1\<rparr>"
      using assms(3,4) by (auto simp: reconcile_item_def bind_res_Inr)
    have f: "?f item = revive_row c item" using assms(3) Some by (simp add: settle_def)
    show ?thesis
      using wrote_as [OF revive_item_wrote [OF assms(1,2) r(1)], of ?f] f visible_rows(1) [OF assms(3), of c]
      by (simp add: r(2) result_total_simps)
  qed
  then show "wrote item ?f (result_total res' - result_total res) s s'"
    "result_total res' = result_total res + of_bool (visible_change item (?f item))" by blast+
qed

lemma item_absent:
  assumes "db_ok s" "item \<in> set (alert_rows s)" "Status item = StatusFiring" "Fingerprint item \<notin> missing"
    "lv (Fingerprint item) = None" "reconcile_item slug lv missing active now item (s, res) = Inr (s', res')"
  shows "wrote item (settle lv missing active now) (result_total res' - result_total res) s s' \<and>
    result_total res' = result_total res + of_bool (visible_change item (settle lv missing active now item))"
proof (cases "\<exists>A. active = Some A \<and> Suppressed item \<and> SilencedBy item \<noteq> [] \<and> set (SilencedBy item) \<inter> A = {}")
  case True
  let ?f = "settle lv missing active now"
  have r: "release_item slug now item s = Inr s'" "res' = res\<lparr>res_Released := res_Released res + 1\<rparr>"
    using assms(3-6) True by (auto simp: reconcile_item_def bind_res_Inr anySilenceActive_iff)
  have f: "?f item = release_row item" "Suppressed item" using assms(3-5) True by (auto simp: settle_def)
  show ?thesis
    using wrote_as [OF release_item_wrote [OF assms(1,2) r(1)], of ?f] f
    by (simp add: r(2) result_total_simps visible_rows)
next
  case False
  have "s' = s \<and> res' = res"
    using assms(3-6) False by (auto simp: reconcile_item_def anySilenceActive_iff split: option.splits if_splits)
  moreover have "settle lv missing active now item = item"
    using assms(3-5) False by (auto simp: settle_def split: option.splits)
  ultimately show ?thesis using wrote_none [OF assms(1)] by (simp add: visible_rows)
qed

lemma item_present:
  assumes "db_ok s" "item \<in> set (alert_rows s)" "Status item = StatusFiring" "Fingerprint item \<notin> missing"
    "lv (Fingerprint item) = Some c" "reconcile_item slug lv missing active now item (s, res) = Inr (s', res')"
  shows "wrote item (settle lv missing active now) (result_total res' - result_total res) s s' \<and>
    result_total res' = result_total res + of_bool (visible_change item (settle lv missing active now item))"
proof -
  let ?f = "settle lv missing active now"
  have f: "?f item = suppress_row c item" using assms(3-5) by (simp add: settle_def)
  show ?thesis
  proof (cases "live_Suppressed c = Suppressed item \<and> live_SilencedBy c = SilencedBy item")
    case True
    then have "s' = s \<and> res' = res" "suppress_row c item = item"
      using assms(3-6) by (simp_all add: reconcile_item_def sameStrings_def Let_def suppress_row_def)
    then show ?thesis using wrote_none [OF assms(1), of ?f] f by (simp add: visible_rows)
  next
    case False
    then have r: "suppress_item slug now c item s = Inr s'"
      "res' = (if live_Suppressed c = Suppressed item then res
        else if live_Suppressed c then res\<lparr>res_Suppressed := res_Suppressed res + 1\<rparr>
        else res\<lparr>res_Released := res_Released res + 1\<rparr>)"
      using assms(3-6) by (auto simp: reconcile_item_def sameStrings_def Let_def bind_res_Inr)
    have tot: "result_total res' = result_total res + (if live_Suppressed c = Suppressed item then 0 else 1)"
      unfolding r(2) by (simp add: result_total_simps)
    have "visible_change item (?f item) \<longleftrightarrow> live_Suppressed c \<noteq> Suppressed item"
      unfolding f by (rule visible_rows(4))
    then show ?thesis
      using wrote_as [OF suppress_item_wrote [OF assms(1,2) r(1)], of ?f] f tot by simp
  qed
qed

lemma item_result:
  assumes "db_ok s" "item \<in> set (alert_rows s)" "Status item \<noteq> StatusResolved"
    "reconcile_item slug lv missing active now item (s, res) = Inr (s', res')"
  shows "wrote item (settle lv missing active now) (result_total res' - result_total res) s s' \<and>
    result_total res' = result_total res + of_bool (visible_change item (settle lv missing active now item))"
proof (cases "Status item")
  case StatusExpired
  from item_expired [OF assms(1,2) this assms(4)] show ?thesis by blast
next
  case StatusFiring
  let ?f = "settle lv missing active now"
  show ?thesis
  proof (cases "Fingerprint item \<in> missing")
    case True
    then have r: "resolve_item slug now item s = Inr s'" "res' = res\<lparr>res_Resolved := res_Resolved res + 1\<rparr>"
      using StatusFiring assms(4) by (auto simp: reconcile_item_def bind_res_Inr)
    have f: "?f item = resolve_row now item" using StatusFiring True by (simp add: settle_def)
    show ?thesis
      using wrote_as [OF resolve_item_wrote [OF assms(1,2) r(1)], of ?f] f visible_rows(2) [OF StatusFiring, of now]
      by (simp add: r(2) result_total_simps)
  next
    case False
    show ?thesis
    proof (cases "lv (Fingerprint item)")
      case None
      show ?thesis by (rule item_absent [OF assms(1,2) StatusFiring False None assms(4)])
    next
      case (Some c)
      show ?thesis by (rule item_present [OF assms(1,2) StatusFiring False Some assms(4)])
    qed
  qed
qed (use assms(3) in simp)

subsection \<open>One pass\<close>

lemma wrote_rest:
  assumes "wrote item f n s t" "distinct (map ID (item # items))" "set (item # items) \<subseteq> set (alert_rows s)"
    "ID (f item) = ID item"
  shows "set items \<subseteq> set (alert_rows t)"
    "upd_where (\<lambda>r. r \<in> set items) g (alert_rows t) =
       map (\<lambda>r. if r = item then f r else if r \<in> set items then g r else r) (alert_rows s)"
proof -
  have t: "alert_rows t = map (\<lambda>r. if r = item then f r else r) (alert_rows s)"
    using assms(1) by (simp add: wrote_def upd_where_def)
  have ne: "item \<notin> set items" "f item \<notin> set items" using assms(2,4) by (auto simp: image_iff)
  show "set items \<subseteq> set (alert_rows t)"
  proof
    fix r assume "r \<in> set items"
    then have "r \<in> set (alert_rows s)" "r \<noteq> item" using assms(3) ne by auto
    then show "r \<in> set (alert_rows t)" by (force simp: t image_iff)
  qed
  show "upd_where (\<lambda>r. r \<in> set items) g (alert_rows t) =
       map (\<lambda>r. if r = item then f r else if r \<in> set items then g r else r) (alert_rows s)"
    unfolding t upd_where_def map_map by (rule map_cong [OF refl]) (use ne in simp)
qed

lemma fold_items:
  assumes "fold_res (reconcile_item slug lv missing active now) items (s, res) = Inr (s', res')"
    "db_ok s" "distinct (map ID items)" "set items \<subseteq> set (alert_rows s)"
    "\<forall>r \<in> set items. Status r \<noteq> StatusResolved"
  shows "db_ok s' \<and> alert_sources s' = alert_sources s \<and>
    alert_rows s' = upd_where (\<lambda>r. r \<in> set items) (settle lv missing active now) (alert_rows s) \<and>
    length (stream_events s') + result_total res = length (stream_events s) + result_total res' \<and>
    result_total res' = result_total res +
      length (filter (\<lambda>r. visible_change r (settle lv missing active now r)) items)"
  using assms
proof (induction items arbitrary: s res)
  case Nil
  then show ?case by (simp add: upd_where_def)
next
  case (Cons item items)
  let ?f = "settle lv missing active now"
  obtain t res1 where t: "reconcile_item slug lv missing active now item (s, res) = Inr (t, res1)"
    "fold_res (reconcile_item slug lv missing active now) items (t, res1) = Inr (s', res')"
    using Cons.prems(1) by (auto simp: bind_res_Inr)
  have w: "wrote item ?f (result_total res1 - result_total res) s t"
    "result_total res1 = result_total res + of_bool (visible_change item (?f item))"
  proof -
    have "item \<in> set (alert_rows s)" "Status item \<noteq> StatusResolved" using Cons.prems(4,5) by simp_all
    from item_result [OF Cons.prems(2) this t(1)]
    show "wrote item ?f (result_total res1 - result_total res) s t"
      "result_total res1 = result_total res + of_bool (visible_change item (?f item))" by blast+
  qed
  have id: "ID (?f item) = ID item" using settle_le [of item lv missing active now] by (simp add: row_le_def)
  note rest = wrote_rest [OF w(1) Cons.prems(3,4) id]
  have ih: "db_ok s' \<and> alert_sources s' = alert_sources t \<and>
    alert_rows s' = upd_where (\<lambda>r. r \<in> set items) ?f (alert_rows t) \<and>
    length (stream_events s') + result_total res1 = length (stream_events t) + result_total res' \<and>
    result_total res' = result_total res1 + length (filter (\<lambda>r. visible_change r (?f r)) items)"
    using Cons.IH [OF t(2) _ _ rest(1)] w(1) Cons.prems(3,5) by (simp add: wrote_def)
  have "alert_rows s' = upd_where (\<lambda>r. r \<in> set (item # items)) ?f (alert_rows s)"
    using ih rest(2) [of ?f] by (simp add: upd_where_def)
  moreover have "length (stream_events t) = length (stream_events s) + of_bool (visible_change item (?f item))"
    "alert_sources t = alert_sources s"
    using w by (simp_all add: wrote_def)
  ultimately show ?case using ih w(2) by auto
qed

lemma select_props:
  assumes "db_ok s"
  shows "distinct (map ID (reconcile_select slug live locked s))"
    "set (reconcile_select slug live locked s) \<subseteq> set (alert_rows s)"
    "\<forall>r \<in> set (reconcile_select slug live locked s). Status r \<noteq> StatusResolved"
  using db_okD(2) [OF assms]
  by (auto simp: reconcile_select_def alerts_ok_def distinct_map_filter)

text \<open>A row of the source that the selection leaves out is one that would not change.\<close>

lemma select_settled:
  assumes "r \<in> set (alert_rows s)"
  shows "(if r \<in> set (reconcile_select slug live locked s)
      then settle (liveByFingerprint live) missing active now r else r) =
    settled slug (liveByFingerprint live) missing active now locked r"
proof (cases "SourceSlug r = slug \<and> \<not> locked (ID r)")
  case True
  show ?thesis
  proof (cases "r \<in> set (reconcile_select slug live locked s)")
    case False
    with True assms have "Status r = StatusResolved \<or>
        Status r = StatusExpired \<and> liveByFingerprint live (Fingerprint r) = None"
      by (cases "Status r") (simp_all add: reconcile_select_def live_dom)
    with True False show ?thesis by (auto simp: settled_def settle_def)
  qed (use True in \<open>simp add: settled_def\<close>)
next
  case False
  then have "r \<notin> set (reconcile_select slug live locked s)" by (auto simp: reconcile_select_def)
  with False show ?thesis by (auto simp: settled_def)
qed

lemma visible_selected:
  "length (filter (\<lambda>r. visible_change r (settle lv missing active now r)) (reconcile_select slug live locked s)) =
   length (filter (\<lambda>r. visible_change r (settled slug lv missing active now locked r)) (alert_rows s))"
  if "lv = liveByFingerprint live"
proof -
  let ?sel = "\<lambda>r. r \<in> set (reconcile_select slug live locked s)"
  have "filter (\<lambda>r. visible_change r (settled slug lv missing active now locked r)) (alert_rows s) =
    filter (\<lambda>r. visible_change r (settle lv missing active now r)) (filter ?sel (alert_rows s))"
    unfolding filter_filter
  proof (rule filter_cong [OF refl])
    fix r assume r: "r \<in> set (alert_rows s)"
    show "visible_change r (settled slug lv missing active now locked r) =
      (?sel r \<and> visible_change r (settle lv missing active now r))"
      using select_settled [OF r, of slug live locked missing active now] visible_rows(5) [of r] that
      by (cases "?sel r") simp_all
  qed
  moreover have "filter ?sel (alert_rows s) = reconcile_select slug live locked s"
    by (simp add: reconcile_select_def cong: filter_cong)
  ultimately show ?thesis by simp
qed

lemma reconcile_result:
  assumes "db_ok s" "ReconcileSource slug live missing active now locked s = Inr (s', res)"
  shows "db_ok s' \<and> alert_sources s' = alert_sources s \<and>
    alert_rows s' = map (\<lambda>r. stamped slug (liveByFingerprint live) now
      (settled slug (liveByFingerprint live) missing active now locked r)) (alert_rows s) \<and>
    length (stream_events s') = length (stream_events s) + result_total res \<and>
    result_total res = length (filter (\<lambda>r. visible_change r
      (settled slug (liveByFingerprint live) missing active now locked r)) (alert_rows s))"
proof -
  let ?lv = "liveByFingerprint live" and ?items = "reconcile_select slug live locked s"
  let ?stamp = "update_alerts (\<lambda>r. SourceSlug r = slug \<and> Status r = StatusFiring \<and>
        Fingerprint r \<in> set (map live_Fingerprint live)) (\<lambda>r. r\<lparr>ReconciledAt := Some now\<rparr>)"
  obtain s1 where s1: "fold_res (reconcile_item slug ?lv missing active now) ?items (s, no_result) = Inr (s1, res)"
    and st: "(if live = [] then Inr (s1, res) else bind_res (?stamp s1) (\<lambda>s2. Inr (s2, res))) = Inr (s', res)"
    using assms(2) by (auto simp: ReconcileSource_def bind_res_Inr split: if_splits)
  note f = fold_items [OF s1 assms(1) select_props [OF assms(1)]]
  have rows1: "alert_rows s1 = map (settled slug ?lv missing active now locked) (alert_rows s)"
    using f select_settled by (simp add: upd_where_def)
  have stamp: "db_ok s' \<and> alert_sources s' = alert_sources s1 \<and> stream_events s' = stream_events s1 \<and>
    alert_rows s' = map (stamped slug ?lv now) (alert_rows s1)"
  proof (cases "live = []")
    case True
    with st f have "s' = s1" "db_ok s1" by simp_all
    moreover have "stamped slug ?lv now r = r" for r using True by (simp add: stamped_def liveByFingerprint_def)
    ultimately show ?thesis by (simp add: map_idI)
  next
    case False
    with st have u: "?stamp s1 = Inr s'" by (auto simp: bind_res_Inr)
    have ok: "db_ok s1" using f by blast
    have d: "Fingerprint r \<in> set (map live_Fingerprint live) \<longleftrightarrow> ?lv (Fingerprint r) \<noteq> None" for r :: alert_row
      by (simp only: live_dom not_not)
    have "upd_where (\<lambda>r. SourceSlug r = slug \<and> Status r = StatusFiring \<and>
        Fingerprint r \<in> set (map live_Fingerprint live)) (\<lambda>r. r\<lparr>ReconciledAt := Some now\<rparr>) (alert_rows s1) =
      map (stamped slug ?lv now) (alert_rows s1)"
      unfolding upd_where_def stamped_def d ..
    with update_alerts_rows [OF u] update_alerts_ok [OF ok u settle_rows_le(5)] show ?thesis by simp
  qed
  have total: "result_total res = length (filter (\<lambda>r. visible_change r (settled slug ?lv missing active now locked r)) (alert_rows s))"
    using f visible_selected [OF refl, of live missing active now slug locked s]
    by (simp add: no_result_def result_total_def)
  have "length (stream_events s') = length (stream_events s) + result_total res"
    using f stamp by (simp add: no_result_def result_total_def)
  moreover have "alert_sources s' = alert_sources s" using f stamp by simp
  moreover have "alert_rows s' = map (\<lambda>r. stamped slug ?lv now (settled slug ?lv missing active now locked r)) (alert_rows s)"
    using stamp rows1 by (simp add: o_def)
  ultimately show ?thesis using stamp total by blast
qed

subsection \<open>A pass does not fail\<close>

lemma item_update_total:
  assumes "db_ok s" "item \<in> set (alert_rows s)" "list_all text_ok ids"
    "\<And>r. alert_checks r \<Longrightarrow> alert_checks (f r)" "\<And>r. row_le r (f r)"
  shows "\<exists>s1. update_by_id ids (ID item) f s = Inr s1 \<and> ID item \<in> ID ` set (alert_rows s1)"
proof -
  obtain s1 where s1: "update_by_id ids (ID item) f s = Inr s1"
    using update_by_id_total [OF assms(1,3), of f] assms(4) by blast
  have "map ID (alert_rows s1) = map ID (alert_rows s)"
    using update_alerts_ids(1) update_by_id_Inr [OF s1] assms(5) by blast
  with assms(2) have "ID item \<in> ID ` set (alert_rows s1)" using ids_image by blast
  with s1 show ?thesis by blast
qed

lemma stream_total:
  "i \<in> ID ` set (alert_rows s) \<Longrightarrow> \<exists>s'. insertStreamEvent ty i alert prev s = Inr s'"
  by (simp add: insertStreamEvent_def Let_def)

lemma item_total:
  assumes "db_ok s" "item \<in> set (alert_rows s)"
    "\<And>c. lv (Fingerprint item) = Some c \<Longrightarrow> list_all text_ok (live_SilencedBy c)"
  shows "\<exists>p. reconcile_item slug lv missing active now item (s, res) = Inr p"
proof -
  note up = item_update_total [OF assms(1,2)]
  have "\<exists>s'. revive_item slug now c item s = Inr s'" if "lv (Fingerprint item) = Some c" for c
    using up [OF assms(3) [OF that], of "revive_row c"] settle_rows_checks(3) settle_rows_le(3) events_total
    by (fastforce simp: revive_item_def)
  moreover have "\<exists>s'. resolve_item slug now item s = Inr s'"
    using up [of "[]" "resolve_row now"] settle_rows_checks(4) settle_rows_le(4) events_total
    by (fastforce simp: resolve_item_def)
  moreover have "\<exists>s'. release_item slug now item s = Inr s'"
    using up [of "[]" release_row] settle_rows_checks(2) settle_rows_le(2) stream_total
    by (fastforce simp: release_item_def)
  moreover have "\<exists>s'. suppress_item slug now c item s = Inr s'" if "lv (Fingerprint item) = Some c" for c
    using up [OF assms(3) [OF that], of "suppress_row c"] settle_rows_checks(1) settle_rows_le(1) stream_total
    by (fastforce simp: suppress_item_def)
  ultimately show ?thesis
    by (cases "lv (Fingerprint item)"; cases active) (fastforce simp: reconcile_item_def Let_def)+
qed

lemma fold_items_total:
  assumes "db_ok s" "distinct (map ID items)" "set items \<subseteq> set (alert_rows s)"
    "\<forall>r \<in> set items. Status r \<noteq> StatusResolved"
    "\<And>fp c. lv fp = Some c \<Longrightarrow> list_all text_ok (live_SilencedBy c)"
  shows "\<exists>p. fold_res (reconcile_item slug lv missing active now) items (s, res) = Inr p"
  using assms(1-4)
proof (induction items arbitrary: s res)
  case (Cons item items)
  obtain t res1 where t: "reconcile_item slug lv missing active now item (s, res) = Inr (t, res1)"
    using item_total [OF Cons.prems(1), of item lv slug missing active now res] Cons.prems(3) assms(5) by auto
  have w: "wrote item (settle lv missing active now) (result_total res1 - result_total res) s t"
  proof (rule conjunct1 [OF item_result [OF Cons.prems(1) _ _ t]])
    show "item \<in> set (alert_rows s)" "Status item \<noteq> StatusResolved" using Cons.prems(3,4) by simp_all
  qed
  have "ID (settle lv missing active now item) = ID item"
    using settle_le [of item lv missing active now] by (simp add: row_le_def)
  from wrote_rest(1) [OF w Cons.prems(2,3) this] Cons.IH [of t res1] Cons.prems(2,4) w t show ?case
    by (simp add: wrote_def)
qed simp

lemma reconcile_total:
  assumes "db_ok s" "text_ok slug" "reading_texts_ok live"
  shows "\<exists>p. ReconcileSource slug live missing active now locked s = Inr p"
proof -
  let ?p = "\<lambda>r. SourceSlug r = slug \<and> Status r = StatusFiring \<and> Fingerprint r \<in> set (map live_Fingerprint live)"
  have fps: "list_all text_ok (map live_Fingerprint live)" using assms(3) by (simp add: reading_texts_ok_def list_all_iff)
  obtain s1 res where f: "fold_res (reconcile_item slug (liveByFingerprint live) missing active now)
      (reconcile_select slug live locked s) (s, no_result) = Inr (s1, res)"
    using fold_items_total [OF assms(1) select_props [OF assms(1)] live_texts [OF assms(3)]] by fastforce
  have "db_ok s1" using fold_items [OF f assms(1) select_props [OF assms(1)]] by blast
  then have "\<exists>s2. update_alerts ?p (\<lambda>r. r\<lparr>ReconciledAt := Some now\<rparr>) s1 = Inr s2"
    using update_alerts_total [of s1 ?p "\<lambda>r. r\<lparr>ReconciledAt := Some now\<rparr>"] settle_rows_checks(5) db_okD(2)
    by (fastforce simp: alerts_ok_def)
  with f fps assms(2) show ?thesis by (auto simp: ReconcileSource_def)
qed

lemma same_columns_rows:
  "same_columns r r" "same_columns r (suppress_row c r)" "same_columns r (release_row r)"
  "same_columns r (revive_row c r)" "same_columns r (resolve_row now r)" "same_columns r (r\<lparr>ReconciledAt := t\<rparr>)"
  by (simp_all add: same_columns_def suppress_row_def release_row_def revive_row_def resolve_row_def)

lemma same_columns_trans: "same_columns r q \<Longrightarrow> same_columns q p \<Longrightarrow> same_columns r p"
  unfolding same_columns_def by (erule ssubst, erule ssubst) simp

lemma same_columns_acknowledged: "same_columns r r' \<Longrightarrow> Acknowledged r' = Acknowledged r"
  unfolding same_columns_def by (drule arg_cong [of _ _ Acknowledged]) simp

lemma settled_same: "same_columns r (settled slug lv missing active now locked r)"
  by (simp add: settled_def settle_def same_columns_rows split: SourceStatus.split option.split)

lemma stamped_same: "same_columns r (stamped slug lv now r)" "Status (stamped slug lv now r) = Status r"
  by (simp_all add: stamped_def same_columns_rows)

lemma rows_status:
  "Status (suppress_row c r) = Status r" "Status (release_row r) = Status r"
  "Status (revive_row c r) = StatusFiring" "Status (resolve_row now r) = StatusResolved"
  by (simp_all add: suppress_row_def release_row_def revive_row_def resolve_row_def)

lemma settled_status:
  "Status (settled slug lv missing active now locked r) = Status r \<or>
   Status r = StatusFiring \<and> Status (settled slug lv missing active now locked r) = StatusResolved \<and>
     SourceSlug r = slug \<and> Fingerprint r \<in> missing \<or>
   Status r = StatusExpired \<and> Status (settled slug lv missing active now locked r) = StatusFiring \<and>
     SourceSlug r = slug \<and> lv (Fingerprint r) \<noteq> None"
  by (simp add: settled_def settle_def rows_status split: SourceStatus.split option.split)

lemma reconcile_keeps_rows:
  assumes "db_ok s" "ReconcileSource slug live missing active now locked s = Inr (s', res)"
  shows "list_all2 (\<lambda>r r'. same_columns r r' \<and>
      (Status r' = Status r \<or>
       Status r = StatusFiring \<and> Status r' = StatusResolved \<and> SourceSlug r = slug \<and> Fingerprint r \<in> missing \<or>
       Status r = StatusExpired \<and> Status r' = StatusFiring \<and> SourceSlug r = slug \<and>
         Fingerprint r \<in> live_Fingerprint ` set live)) (alert_rows s) (alert_rows s')"
proof -
  let ?lv = "liveByFingerprint live"
  have rows: "alert_rows s' = map (\<lambda>r. stamped slug ?lv now (settled slug ?lv missing active now locked r)) (alert_rows s)"
    using reconcile_result [OF assms] by blast
  have dom: "?lv fp \<noteq> None \<longleftrightarrow> fp \<in> live_Fingerprint ` set live" for fp by (simp add: live_dom)
  show ?thesis
    unfolding rows list_all2_map2
  proof (intro list.rel_refl_strong conjI)
    fix r
    show "same_columns r (stamped slug ?lv now (settled slug ?lv missing active now locked r))"
      by (rule same_columns_trans [OF settled_same stamped_same(1)])
  qed (unfold stamped_same(2) dom [symmetric], rule settled_status)
qed

section \<open>Properties\<close>

text \<open>C8: reconciling a source with a reading refines the transition it stands for. A reading of
  storable texts is accepted, and afterwards every alert is exactly what \<open>settle\<close> and the
  evidence stamp make of it; alerts of other sources and alerts another transaction holds are not
  settled. The counts add up to the changes a reader can see, and each of those is announced on
  the stream exactly once.\<close>

theorem reconcile_refines_settle:
  assumes "db_ok s" "text_ok slug" "reading_texts_ok live"
  shows "\<exists>s' res. ReconcileSource slug live missing active now locked s = Inr (s', res) \<and> db_ok s' \<and>
    alert_rows s' = map (\<lambda>r. stamped slug (liveByFingerprint live) now
      (settled slug (liveByFingerprint live) missing active now locked r)) (alert_rows s) \<and>
    length (stream_events s') = length (stream_events s) + result_total res \<and>
    result_total res = length (filter (\<lambda>r. visible_change r
      (settled slug (liveByFingerprint live) missing active now locked r)) (alert_rows s))"
proof -
  obtain s' res where "ReconcileSource slug live missing active now locked s = Inr (s', res)"
    using reconcile_total [OF assms] by fastforce
  with reconcile_result [OF assms(1) this] show ?thesis by blast
qed

theorem reconcile_refines_settle_witness:
  "\<exists>s' res. ReconcileSource ''prod'' [] {''f1''} None 300 (\<lambda>i. False) sample_db = Inr (s', res) \<and>
     alert_rows s' = [resolve_row 300 sample_row, sample_resolved]"
proof -
  have "text_ok ''prod''" "reading_texts_ok []" by (simp_all add: reading_texts_ok_def)
  from reconcile_refines_settle [OF sample_db_ok this, of "{''f1''}" None 300 "\<lambda>i. False"]
  show ?thesis
    by (auto simp: sample_rows settled_def settle_def stamped_def liveByFingerprint_def)
      (simp_all add: sample_row_def sample_resolved_def resolve_row_def)
qed

text \<open>What a pass may do to one alert. Only a firing alert the caller named missing ends, and
  it ends as resolved; only an expired alert comes back; and acknowledgement, assignment,
  closure, occurrence, labels and the time of the last delivery never change. In particular a
  pass with nothing named missing, which is what the refresh after a silence runs, ends no alert.\<close>

theorem reconcile_keeps_alert:
  assumes "db_ok s" "ReconcileSource slug live missing active now locked s = Inr (s', res)"
  shows "list_all2 (\<lambda>r r'. same_columns r r' \<and>
      (Status r' = Status r \<or>
       Status r = StatusFiring \<and> Status r' = StatusResolved \<and> SourceSlug r = slug \<and> Fingerprint r \<in> missing \<or>
       Status r = StatusExpired \<and> Status r' = StatusFiring \<and> SourceSlug r = slug \<and>
         Fingerprint r \<in> live_Fingerprint ` set live)) (alert_rows s) (alert_rows s')"
  by (rule reconcile_keeps_rows [OF assms])

theorem reconcile_keeps_alert_witness:
  "\<exists>s' res. ReconcileSource ''prod'' [\<lparr>live_Fingerprint = ''f1'', live_Suppressed = False, live_SilencedBy = []\<rparr>]
       {} None 300 (\<lambda>i. False) sample_db = Inr (s', res) \<and>
     list_all2 (\<lambda>r r'. Acknowledged r' = Acknowledged r \<and> (Status r' = Status r \<or> Status r = StatusExpired))
       (alert_rows sample_db) (alert_rows s')"
proof -
  let ?live = "[\<lparr>live_Fingerprint = ''f1'', live_Suppressed = False, live_SilencedBy = []\<rparr>]"
  obtain s' res where r: "ReconcileSource ''prod'' ?live {} None 300 (\<lambda>i. False) sample_db = Inr (s', res)"
    using reconcile_total [OF sample_db_ok, of "''prod''" ?live "{}" None 300 "\<lambda>i. False"]
    by (auto simp: reading_texts_ok_def)
  from reconcile_keeps_alert [OF sample_db_ok r]
  have "list_all2 (\<lambda>r r'. Acknowledged r' = Acknowledged r \<and> (Status r' = Status r \<or> Status r = StatusExpired))
       (alert_rows sample_db) (alert_rows s')"
    by (rule list_all2_mono) (use same_columns_acknowledged in blast)
  with r show ?thesis by blast
qed

end
