(* ===== verification/Reconciler.thy ===== *)
theory Reconciler
  imports Reconcile
begin

text \<open>
  The reconciliation loop (\<open>cmd/promview/reconcile.go\<close>) and the refresh after a silence
  (\<open>cmd/promview/silence_refresh.go\<close>).

  A pass reads the Alertmanager and runs several transactions; other transactions commit between
  them. \<open>env_others n\<close> is what they do before the \<open>n\<close>-th of the pass, \<open>env_failed n\<close>
  says that it fails for a reason outside the model (a lost connection), \<open>env_locked\<close> are the
  alerts other transactions hold when \<open>ReconcileSource\<close> runs. Go visits a map in any order:
  \<open>visit\<close> orders the sources of a pass. Metrics and log lines are left out.
\<close>

section \<open>Definitions\<close>

subsection \<open>The reconciler\<close>

definition missesBeforeResolving :: nat where
  "missesBeforeResolving = 2"

type_synonym counters = "string \<Rightarrow> nat option"

record reconciler =
  misses :: "string \<Rightarrow> counters option"

definition newReconciler :: reconciler where
  "newReconciler = \<lparr>misses = Map.empty\<rparr>"

record pass_env =
  env_live :: "string \<Rightarrow> client_error + LiveAlert list"
  env_silences :: "string \<Rightarrow> client_error + ListedSilence list"
  env_others :: "nat \<Rightarrow> db \<Rightarrow> db"
  env_failed :: "nat \<Rightarrow> bool"
  env_locked :: "int \<Rightarrow> bool"

text \<open>The ids of the active silences, or \<^const>\<open>None\<close> when the listing or the sync failed.\<close>

definition syncSilences :: "pass_env \<Rightarrow> string \<Rightarrow> string \<Rightarrow> instant \<Rightarrow> db \<Rightarrow> string set option \<times> db" where
  "syncSilences env slug baseURL now s =
     (case env_silences env baseURL of
        Inl e \<Rightarrow> (None, s)
      | Inr listed \<Rightarrow>
          if env_failed env 1 then (None, s)
          else (case SyncSilences slug listed now s of
                  Inl e \<Rightarrow> (None, s)
                | Inr s' \<Rightarrow> (Some (ActiveSilenceIDs listed), s')))"

definition trustworthy :: "LiveAlert list \<Rightarrow> string list \<Rightarrow> bool" where
  "trustworthy live stored \<longleftrightarrow> live \<noteq> [] \<or> stored = []"

fun tally :: "string list \<Rightarrow> string set \<Rightarrow> counters \<times> string set \<Rightarrow> counters \<times> string set" where
  "tally [] present acc = acc"
| "tally (fp # stored) present (counters, missing) =
     (if fp \<in> present then tally stored present (counters(fp := None), missing)
      else let n = (case counters fp of None \<Rightarrow> 0 | Some n \<Rightarrow> n) + 1
           in tally stored present
                (counters(fp \<mapsto> n), if n \<ge> missesBeforeResolving then insert fp missing else missing))"

text \<open>The counters a reading leaves and the fingerprints it confirms missing.\<close>

definition count_misses :: "LiveAlert list \<Rightarrow> string list \<Rightarrow> counters \<Rightarrow> counters \<times> string set" where
  "count_misses live stored counters =
     (let counted = (if trustworthy live stored
                     then tally stored (set (map live_Fingerprint live)) (counters, {})
                     else (Map.empty, {}))
      in (\<lambda>fp. if fp \<in> set stored then fst counted fp else None, snd counted))"

definition counters_of :: "reconciler \<Rightarrow> string \<Rightarrow> counters" where
  "counters_of r slug = (case misses r slug of None \<Rightarrow> Map.empty | Some c \<Rightarrow> c)"

definition reconcileSource ::
  "pass_env \<Rightarrow> string \<Rightarrow> string \<Rightarrow> instant \<Rightarrow> reconciler \<times> db \<Rightarrow> reconciler \<times> db" where
  "reconcileSource env slug baseURL now = (\<lambda>(r, s).
     case env_live env baseURL of
       Inl e \<Rightarrow> (r, s)
     | Inr live \<Rightarrow>
         let s0 = env_others env 0 s
         in if env_failed env 0 then (r, s0)
            else
              let stored = FiringFingerprints slug s0;
                  (activeSilences, s1) = syncSilences env slug baseURL now (env_others env 1 s0);
                  (counters, missing) = count_misses live stored (counters_of r slug);
                  s2 = env_others env 2 s1
              in case (if env_failed env 2 then Inl ErrDatabase
                       else ReconcileSource slug live missing activeSilences now (env_locked env) s2) of
                   Inl e \<Rightarrow> (r\<lparr>misses := (misses r)(slug \<mapsto> counters)\<rparr>, s2)
                 | Inr (s3, result) \<Rightarrow>
                     (r\<lparr>misses := (misses r)(slug \<mapsto> (\<lambda>fp. if fp \<in> missing then None else counters fp))\<rparr>, s3))"

definition reconcileOnce ::
  "bool \<Rightarrow> ((string \<times> string) list \<Rightarrow> (string \<times> string) list) \<Rightarrow> (string \<Rightarrow> pass_env) \<Rightarrow> instant \<Rightarrow>
   reconciler \<times> db \<Rightarrow> reconciler \<times> db" where
  "reconcileOnce listFailed visit envs now = (\<lambda>(r, s).
     if listFailed then (r, s)
     else
       let sources = ReconcilableSources s;
           r1 = r\<lparr>misses := (\<lambda>slug. if slug \<in> set (map fst sources) then misses r slug else None)\<rparr>
       in fold (\<lambda>(slug, baseURL). reconcileSource (envs slug) slug baseURL now) (visit sources) (r1, s))"

subsection \<open>The refresher\<close>

definition request_buffer :: nat where
  "request_buffer = 64"

record refresher =
  requests :: "string list"
  inFlight :: "string set"

definition newSilenceRefresher :: refresher where
  "newSilenceRefresher = \<lparr>requests = [], inFlight = {}\<rparr>"

text \<open>A send on the buffered channel that is dropped when the buffer is full.\<close>

definition offer :: "string \<Rightarrow> refresher \<Rightarrow> refresher" where
  "offer slug f = (if length (requests f) < request_buffer then f\<lparr>requests := requests f @ [slug]\<rparr> else f)"

definition refreshURL ::
  "bool \<Rightarrow> ((string \<times> string) list \<Rightarrow> (string \<times> string) list) \<Rightarrow> string \<Rightarrow> db \<Rightarrow> refresher \<Rightarrow> refresher" where
  "refreshURL listFailed visit baseURL s f =
     (if baseURL = '''' \<or> listFailed then f
      else fold (\<lambda>(slug, url) f. if url \<noteq> baseURL then f else offer slug f) (visit (ReconcilableSources s)) f)"

definition claim :: "string \<Rightarrow> refresher \<Rightarrow> bool \<times> refresher" where
  "claim slug f = (if slug \<in> inFlight f then (False, f) else (True, f\<lparr>inFlight := insert slug (inFlight f)\<rparr>))"

definition release :: "string \<Rightarrow> refresher \<Rightarrow> refresher" where
  "release slug f = f\<lparr>inFlight := inFlight f - {slug}\<rparr>"

text \<open>One step of \<open>syncSuppression\<close>: whether to go on to the next delay, and the state.\<close>

definition refresh_step :: "pass_env \<Rightarrow> string \<Rightarrow> instant \<Rightarrow> db \<Rightarrow> bool \<times> db" where
  "refresh_step env slug now s =
     (if env_failed env 0 then (False, s)
      else let s0 = env_others env 0 s
           in case map_of (ReconcilableSources s0) slug of
                None \<Rightarrow> (False, s0)
              | Some baseURL \<Rightarrow>
                  (case env_live env baseURL of
                     Inl e \<Rightarrow> (True, s0)
                   | Inr live \<Rightarrow>
                       let (activeSilences, s1) = syncSilences env slug baseURL now (env_others env 1 s0);
                           s2 = env_others env 2 s1
                       in case (if env_failed env 2 then Inl ErrDatabase
                                else ReconcileSource slug live {} activeSilences now (env_locked env) s2) of
                            Inl e \<Rightarrow> (True, s2)
                          | Inr (s3, result) \<Rightarrow> (True, s3)))"

text \<open>The delays in order; each comes with the circumstances it meets, and \<^const>\<open>None\<close> when the
  context is cancelled during the wait.\<close>

fun syncSuppression :: "(pass_env \<times> instant) option list \<Rightarrow> string \<Rightarrow> db \<Rightarrow> db" where
  "syncSuppression [] slug s = s"
| "syncSuppression (None # steps) slug s = s"
| "syncSuppression (Some (env, now) # steps) slug s =
     (case refresh_step env slug now s of
        (False, s') \<Rightarrow> s'
      | (True, s') \<Rightarrow> syncSuppression steps slug s')"

text \<open>The goroutines of \<open>run\<close>: the refreshes under way, by source. The channel is read one
  request at a time; a request for a source already being refreshed is dropped.\<close>

inductive refresher_step :: "refresher \<times> string list \<Rightarrow> refresher \<times> string list \<Rightarrow> bool" where
  request: "refresher_step (f, w) (refreshURL failed visit url s f, w)"
| start: "requests f = slug # rest \<Longrightarrow> claim slug (f\<lparr>requests := rest\<rparr>) = (True, f') \<Longrightarrow>
    refresher_step (f, w) (f', slug # w)"
| skip: "requests f = slug # rest \<Longrightarrow> claim slug (f\<lparr>requests := rest\<rparr>) = (False, f') \<Longrightarrow>
    refresher_step (f, w) (f', w)"
| finish: "w = xs @ slug # ys \<Longrightarrow> refresher_step (f, w) (release slug f, xs @ ys)"

inductive refresher_reachable :: "refresher \<times> string list \<Rightarrow> bool" where
  init: "refresher_reachable (newSilenceRefresher, [])"
| step: "refresher_reachable c \<Longrightarrow> refresher_step c c' \<Longrightarrow> refresher_reachable c'"

section \<open>Specification\<close>

text \<open>A reading of a source that a pass acted on: what the Alertmanager listed and what was
  stored as firing.\<close>

type_synonym reading = "LiveAlert list \<times> string list"

definition omits :: "string \<Rightarrow> reading \<Rightarrow> bool" where
  "omits fp = (\<lambda>(live, stored). trustworthy live stored \<and> fp \<in> set stored \<and> fp \<notin> live_Fingerprint ` set live)"

text \<open>How many of the last readings in a row omitted an alert, the last reading first.\<close>

definition missed :: "string \<Rightarrow> reading list \<Rightarrow> nat" where
  "missed fp history = length (takeWhile (omits fp) history)"

definition reading_of :: "pass_env \<Rightarrow> string \<Rightarrow> string \<Rightarrow> db \<Rightarrow> reading option" where
  "reading_of env slug baseURL s =
     (case env_live env baseURL of
        Inl e \<Rightarrow> None
      | Inr live \<Rightarrow> if env_failed env 0 then None else Some (live, FiringFingerprints slug (env_others env 0 s)))"

text \<open>The run of a reconciler on one source: its passes, and the passes in which the source was
  not configured and its counters were dropped. The history of readings is kept beside it.\<close>

datatype source_pass = Pass pass_env string instant | Unlisted

fun source_run ::
  "string \<Rightarrow> source_pass list \<Rightarrow> reconciler \<times> db \<Rightarrow> reading list \<Rightarrow> (reconciler \<times> db) \<times> reading list" where
  "source_run slug [] c history = (c, history)"
| "source_run slug (Unlisted # ps) (r, s) history =
     source_run slug ps (r\<lparr>misses := (misses r)(slug := None)\<rparr>, s) history"
| "source_run slug (Pass env url now # ps) (r, s) history =
     source_run slug ps (reconcileSource env slug url now (r, s))
       (case reading_of env slug url s of None \<Rightarrow> history | Some h \<Rightarrow> h # history)"

definition counters_justified :: "string \<Rightarrow> reconciler \<Rightarrow> reading list \<Rightarrow> bool" where
  "counters_justified slug r history \<longleftrightarrow>
     (\<forall>fp n. counters_of r slug fp = Some n \<longrightarrow> n \<le> missed fp history)"

definition count_of :: "counters \<Rightarrow> string \<Rightarrow> nat" where
  "count_of c fp = (case c fp of None \<Rightarrow> 0 | Some n \<Rightarrow> n)"

text \<open>The database a pass leaves satisfies the invariant when the other transactions keep it.\<close>

definition others_ok :: "pass_env \<Rightarrow> bool" where
  "others_ok env \<longleftrightarrow> (\<forall>n s. db_ok s \<longrightarrow> db_ok (env_others env n s))"

text \<open>Circumstances in which nothing interferes with a pass.\<close>

definition calm :: "pass_env \<Rightarrow> bool" where
  "calm env \<longleftrightarrow> env_others env = (\<lambda>n s. s) \<and> (\<forall>n. \<not> env_failed env n) \<and> env_locked env = (\<lambda>i. False)"

fun pass_env_ok :: "source_pass \<Rightarrow> bool" where
  "pass_env_ok (Pass env url now) = others_ok env"
| "pass_env_ok Unlisted = True"

definition sample_env :: pass_env where
  "sample_env = \<lparr>env_live = (\<lambda>u. Inr [\<lparr>live_Fingerprint = ''other'', live_Suppressed = False, live_SilencedBy = []\<rparr>]),
     env_silences = (\<lambda>u. Inr []), env_others = (\<lambda>n s. s), env_failed = (\<lambda>n. False), env_locked = (\<lambda>i. False)\<rparr>"

text \<open>The same alerts, none of which stopped firing.\<close>

definition none_ended :: "db \<Rightarrow> db \<Rightarrow> bool" where
  "none_ended s s' \<longleftrightarrow>
     list_all2 (\<lambda>a a'. row_key a' = row_key a \<and> (Status a = StatusFiring \<longrightarrow> Status a' = StatusFiring))
       (alert_rows s) (alert_rows s')"

section \<open>Lemmas\<close>

subsection \<open>Counting misses\<close>

lemma tally_spec:
  "distinct stored \<Longrightarrow> tally stored present (c, m) =
     (\<lambda>fp. if fp \<in> set stored then (if fp \<in> present then None else Some (count_of c fp + 1)) else c fp,
      m \<union> {fp \<in> set stored. fp \<notin> present \<and> 1 \<le> count_of c fp})"
proof (induction stored arbitrary: c m)
  case (Cons fp stored)
  then have d: "distinct stored" "fp \<notin> set stored" by simp_all
  show ?case
  proof (cases "fp \<in> present")
    case True
    then have "tally (fp # stored) present (c, m) = tally stored present (c(fp := None), m)" by simp
    also have "\<dots> = (\<lambda>fp'. if fp' \<in> set (fp # stored) then (if fp' \<in> present then None else Some (count_of c fp' + 1)) else c fp',
        m \<union> {fp' \<in> set (fp # stored). fp' \<notin> present \<and> 1 \<le> count_of c fp'})"
      unfolding Cons.IH [OF d(1)] using True d(2) by (auto simp: fun_eq_iff count_of_def)
    finally show ?thesis .
  next
    case False
    let ?n = "count_of c fp + 1"
    have "tally (fp # stored) present (c, m) =
        tally stored present (c(fp \<mapsto> ?n), if 1 \<le> count_of c fp then insert fp m else m)"
      using False by (simp add: count_of_def missesBeforeResolving_def Let_def)
    also have "\<dots> = (\<lambda>fp'. if fp' \<in> set (fp # stored) then (if fp' \<in> present then None else Some (count_of c fp' + 1)) else c fp',
        m \<union> {fp' \<in> set (fp # stored). fp' \<notin> present \<and> 1 \<le> count_of c fp'})"
      unfolding Cons.IH [OF d(1)] using False d(2) by (auto simp: fun_eq_iff count_of_def)
    finally show ?thesis .
  qed
qed simp

lemma count_misses_spec:
  assumes "distinct stored"
  shows "count_misses live stored c =
    (\<lambda>fp. if omits fp (live, stored) then Some (count_of c fp + 1) else None,
     {fp. omits fp (live, stored) \<and> 1 \<le> count_of c fp})"
  using tally_spec [OF assms, of "set (map live_Fingerprint live)" c "{}"]
  by (auto simp: count_misses_def Let_def omits_def fun_eq_iff)

lemma missed_Cons: "missed fp (h # hs) = (if omits fp h then missed fp hs + 1 else 0)"
  by (simp add: missed_def)

lemma firing_distinct:
  assumes "db_ok s"
  shows "distinct (FiringFingerprints slug s)"
proof -
  have "distinct (map (\<lambda>r. (SourceSlug r, Fingerprint r)) (alert_rows s))"
    using db_okD(2) [OF assms] by (simp add: alerts_ok_def)
  then show ?thesis by (auto simp: FiringFingerprints_def distinct_map inj_on_def)
qed

subsection \<open>One pass\<close>

text \<open>What a pass that gets a reading does to the counters of its source.\<close>

lemma reconcileSource_unfold:
  assumes "env_live env url = Inr live" "\<not> env_failed env 0"
    "stored = FiringFingerprints slug (env_others env 0 s)"
    "syncSilences env slug url now (env_others env 1 (env_others env 0 s)) = (active, s1)"
    "count_misses live stored (counters_of r slug) = (c, missing)"
  shows "reconcileSource env slug url now (r, s) =
    (case (if env_failed env 2 then Inl ErrDatabase
           else ReconcileSource slug live missing active now (env_locked env) (env_others env 2 s1)) of
       Inl e \<Rightarrow> (r\<lparr>misses := (misses r)(slug \<mapsto> c)\<rparr>, env_others env 2 s1)
     | Inr (s3, result) \<Rightarrow>
         (r\<lparr>misses := (misses r)(slug \<mapsto> (\<lambda>fp. if fp \<in> missing then None else c fp))\<rparr>, s3))"
  using assms by (simp add: reconcileSource_def Let_def)

lemma reconcileSource_counters:
  assumes "reading_of env slug url s = Some (live, stored)" "db_ok (env_others env 0 s)"
    "reconcileSource env slug url now (r, s) = (r', s')" "counters_of r' slug fp = Some n"
  shows "omits fp (live, stored)" "n = count_of (counters_of r slug) fp + 1"
proof -
  have rd: "env_live env url = Inr live" "\<not> env_failed env 0" "stored = FiringFingerprints slug (env_others env 0 s)"
    using assms(1) by (auto simp: reading_of_def split: sum.splits if_splits)
  obtain active s1 where sy: "syncSilences env slug url now (env_others env 1 (env_others env 0 s)) = (active, s1)"
    by fastforce
  obtain c missing where cm: "count_misses live stored (counters_of r slug) = (c, missing)" by fastforce
  have "counters_of r' slug fp = Some n \<Longrightarrow> c fp = Some n"
    using assms(3) reconcileSource_unfold [OF rd sy cm]
    by (auto simp: counters_of_def split: sum.splits prod.splits if_splits)
  then have "c fp = Some n" using assms(4) by blast
  then show "omits fp (live, stored)" "n = count_of (counters_of r slug) fp + 1"
    using cm count_misses_spec [OF firing_distinct [OF assms(2)], of live slug "counters_of r slug"] rd(3)
    by (auto split: if_splits)
qed

lemma reconcileSource_unread:
  "reading_of env slug url s = None \<Longrightarrow> fst (reconcileSource env slug url now (r, s)) = r"
  by (auto simp: reading_of_def reconcileSource_def Let_def split: sum.splits if_splits)

lemma pass_justified:
  assumes "counters_justified slug r history" "db_ok (env_others env 0 s)"
    "reconcileSource env slug url now (r, s) = (r', s')"
  shows "counters_justified slug r' (case reading_of env slug url s of None \<Rightarrow> history | Some h \<Rightarrow> h # history)"
proof (cases "reading_of env slug url s")
  case None
  with assms reconcileSource_unread [OF None, of now r] show ?thesis by simp
next
  case (Some h)
  obtain live stored where h: "h = (live, stored)" by fastforce
  note k = reconcileSource_counters [OF Some [unfolded h] assms(2,3)]
  show ?thesis
    unfolding counters_justified_def
  proof (intro allI impI)
    fix fp n assume "counters_of r' slug fp = Some n"
    with k have "omits fp h" "n = count_of (counters_of r slug) fp + 1" by (auto simp: h)
    moreover have "count_of (counters_of r slug) fp \<le> missed fp history"
      using assms(1) by (auto simp: count_of_def counters_justified_def split: option.splits)
    ultimately show "n \<le> missed fp (case reading_of env slug url s of None \<Rightarrow> history | Some h \<Rightarrow> h # history)"
      by (simp add: Some missed_Cons)
  qed
qed

lemma syncSilences_result:
  assumes "db_ok s" "syncSilences env slug url now s = (active, s')"
  shows "db_ok s'" "alert_rows s' = alert_rows s" "alert_sources s' = alert_sources s"
proof -
  have "s' = s \<or> (\<exists>listed. SyncSilences slug listed now s = Inr s')"
    using assms(2) by (auto simp: syncSilences_def split: sum.splits if_splits)
  then have "db_ok s' \<and> alert_rows s' = alert_rows s \<and> alert_sources s' = alert_sources s"
  proof
    assume "\<exists>listed. SyncSilences slug listed now s = Inr s'"
    then obtain listed where l: "SyncSilences slug listed now s = Inr s'" by blast
    from sync_result(1) [OF assms(1) l] arg_cong [OF sync_result(3) [OF assms(1) l], of alert_rows]
      arg_cong [OF sync_result(3) [OF assms(1) l], of alert_sources] show ?thesis by simp
  qed (use assms(1) in simp)
  then show "db_ok s'" "alert_rows s' = alert_rows s" "alert_sources s' = alert_sources s" by blast+
qed

lemma pass_ok [keeps]:
  assumes "db_ok s" "others_ok env" "reconcileSource env slug url now (r, s) = (r', s')"
  shows "db_ok s'"
proof (cases "reading_of env slug url s")
  case None
  then show ?thesis using assms
    by (auto simp: reading_of_def reconcileSource_def Let_def others_ok_def split: sum.splits if_splits)
next
  case (Some h)
  then obtain live where rd: "env_live env url = Inr live" "\<not> env_failed env 0"
    by (auto simp: reading_of_def split: sum.splits if_splits)
  obtain active s1 where sy: "syncSilences env slug url now (env_others env 1 (env_others env 0 s)) = (active, s1)"
    by fastforce
  obtain c missing where cm: "count_misses live (FiringFingerprints slug (env_others env 0 s)) (counters_of r slug) = (c, missing)"
    by fastforce
  have ok: "db_ok (env_others env 2 s1)"
    using syncSilences_result(1) [OF _ sy] assms(1,2) by (simp add: others_ok_def)
  show ?thesis
    using assms(3) reconcileSource_unfold [OF rd refl sy cm] ok reconcile_result [OF ok]
    by (auto split: sum.splits prod.splits if_splits)
qed

lemma run_justified:
  assumes "source_run slug ps (r, s) history = ((r', s'), history')" "\<forall>p \<in> set ps. pass_env_ok p"
    "db_ok s" "counters_justified slug r history"
  shows "db_ok s' \<and> counters_justified slug r' history'"
  using assms
proof (induction ps arbitrary: r s history)
  case (Cons p ps)
  show ?case
  proof (cases p)
    case (Pass env url now)
    obtain r1 s1 where rs: "reconcileSource env slug url now (r, s) = (r1, s1)" by fastforce
    have ok: "others_ok env" using Cons.prems(2) Pass by simp
    then have "db_ok (env_others env 0 s)" using Cons.prems(3) by (simp add: others_ok_def)
    note j = pass_justified [OF Cons.prems(4) this rs] and k = pass_ok [OF Cons.prems(3) ok rs]
    show ?thesis
      by (rule Cons.IH [OF _ _ k j]) (use Cons.prems(1,2) Pass rs in simp_all)
  next
    case Unlisted
    have "counters_justified slug (r\<lparr>misses := (misses r)(slug := None)\<rparr>) history"
      by (simp add: counters_justified_def counters_of_def)
    from Cons.IH [OF _ _ Cons.prems(3) this] Cons.prems(1,2) Unlisted show ?thesis by simp
  qed
qed simp

lemma calm_pass:
  assumes "calm env" "db_ok s" "text_ok slug" "env_live env url = Inr live" "reading_texts_ok live"
    "c = counters_of r slug" "missing = {fp. omits fp (live, FiringFingerprints slug s) \<and> 1 \<le> count_of c fp}"
  obtains active s' where
    "reconcileSource env slug url now (r, s) =
      (r\<lparr>misses := (misses r)(slug \<mapsto> (\<lambda>fp. if fp \<in> missing \<or> \<not> omits fp (live, FiringFingerprints slug s) then None
          else Some (count_of c fp + 1)))\<rparr>, s')"
    "db_ok s'"
    "alert_rows s' = map (\<lambda>q. stamped slug (liveByFingerprint live) now
      (settled slug (liveByFingerprint live) missing active now (\<lambda>i. False) q)) (alert_rows s)"
proof -
  have calm: "\<And>n s. env_others env n s = s" "\<And>n. \<not> env_failed env n" "env_locked env = (\<lambda>i. False)"
    using assms(1) by (simp_all add: calm_def)
  obtain active s1 where sy: "syncSilences env slug url now s = (active, s1)" by fastforce
  note s1 = syncSilences_result [OF assms(2) sy]
  let ?st = "FiringFingerprints slug s"
  have cm: "count_misses live ?st (counters_of r slug) =
      (\<lambda>fp. if omits fp (live, ?st) then Some (count_of c fp + 1) else None, missing)"
    unfolding assms(6,7) by (rule count_misses_spec [OF firing_distinct [OF assms(2)]])
  obtain s' res where rc: "ReconcileSource slug live missing active now (\<lambda>i. False) s1 = Inr (s', res)"
    using reconcile_total [OF s1(1) assms(3,5)] by fastforce
  have "reconcileSource env slug url now (r, s) =
      (r\<lparr>misses := (misses r)(slug \<mapsto> (\<lambda>fp. if fp \<in> missing then None
          else if omits fp (live, ?st) then Some (count_of c fp + 1) else None))\<rparr>, s')"
  proof -
    have sy': "syncSilences env slug url now (env_others env 1 (env_others env 0 s)) = (active, s1)"
      and cm': "count_misses live (FiringFingerprints slug (env_others env 0 s)) (counters_of r slug) =
        (\<lambda>fp. if omits fp (live, ?st) then Some (count_of c fp + 1) else None, missing)"
      using sy cm calm(1) by simp_all
    show ?thesis
      unfolding reconcileSource_unfold [OF assms(4) calm(2) refl sy' cm'] calm(1,3)
      using calm(2) [of 2] rc by simp
  qed
  moreover have "(\<lambda>fp. if fp \<in> missing then None
          else if omits fp (live, ?st) then Some (count_of c fp + 1) else None) =
      (\<lambda>fp. if fp \<in> missing \<or> \<not> omits fp (live, ?st) then None else Some (count_of c fp + 1))"
    by (simp add: fun_eq_iff)
  ultimately have e: "reconcileSource env slug url now (r, s) =
      (r\<lparr>misses := (misses r)(slug \<mapsto> (\<lambda>fp. if fp \<in> missing \<or> \<not> omits fp (live, ?st) then None
          else Some (count_of c fp + 1)))\<rparr>, s')" by (simp only:)
  show thesis by (rule that [OF e, of active]) (use reconcile_result [OF s1(1) rc] s1(2) in simp_all)
qed

text \<open>A firing alert a reading omits, and which is not confirmed missing, stays firing.\<close>

lemma settled_absent:
  assumes "SourceSlug a = slug" "Status a = StatusFiring" "lv (Fingerprint a) = None"
  shows "Fingerprint a \<in> missing \<Longrightarrow>
      stamped slug lv now (settled slug lv missing active now (\<lambda>i. False) a) = resolve_row now a"
    and "Fingerprint a \<notin> missing \<Longrightarrow>
      \<exists>a'. a' = stamped slug lv now (settled slug lv missing active now (\<lambda>i. False) a) \<and>
        Status a' = StatusFiring \<and> row_key a' = row_key a \<and> ID a' = ID a"
proof -
  let ?a = "settled slug lv missing active now (\<lambda>i. False) a"
  have st: "?a = settle lv missing active now a" using assms(1) by (simp add: settled_def)
  show "stamped slug lv now ?a = resolve_row now a" if "Fingerprint a \<in> missing"
    using that assms by (simp add: st settle_def stamped_def resolve_row_def)
  show "\<exists>a'. a' = stamped slug lv now ?a \<and> Status a' = StatusFiring \<and> row_key a' = row_key a \<and> ID a' = ID a"
    if "Fingerprint a \<notin> missing"
  proof -
    have "?a = a \<or> ?a = release_row a"
      using that assms by (auto simp: st settle_def split: option.splits)
    then show ?thesis using assms(2,3)
      by (auto simp: stamped_def release_row_def row_key_def)
  qed
qed

lemma resolve_row_id: "ID (resolve_row now r) = ID r"
  by (simp add: resolve_row_def)

lemma settled_resolved:
  "Status a = StatusResolved \<Longrightarrow> stamped slug lv now (settled slug lv missing active now locked a) = a"
  by (simp add: settled_def settle_def stamped_def)

lemma firing_in:
  "a \<in> set (alert_rows s) \<Longrightarrow> Status a = StatusFiring \<Longrightarrow> Fingerprint a \<in> set (FiringFingerprints (SourceSlug a) s)"
  by (auto simp: FiringFingerprints_def)

lemma offer_bound: "length (requests f) \<le> request_buffer \<Longrightarrow> length (requests (offer slug f)) \<le> request_buffer"
  by (simp add: offer_def)

lemma refreshURL_keeps:
  assumes "length (requests f) \<le> request_buffer"
  shows "length (requests (refreshURL failed visit url s f)) \<le> request_buffer"
    "inFlight (refreshURL failed visit url s f) = inFlight f"
proof -
  have "length (requests (fold (\<lambda>(slug, u) f. if u \<noteq> url then f else offer slug f) xs f)) \<le> request_buffer \<and>
      inFlight (fold (\<lambda>(slug, u) f. if u \<noteq> url then f else offer slug f) xs f) = inFlight f" for xs
    using assms by (induction xs arbitrary: f) (auto simp: offer_bound offer_def split: prod.splits)
  then show "length (requests (refreshURL failed visit url s f)) \<le> request_buffer"
    "inFlight (refreshURL failed visit url s f) = inFlight f"
    using assms by (simp_all add: refreshURL_def)
qed

lemma claim_iff:
  "claim slug f = (True, f') \<longleftrightarrow> slug \<notin> inFlight f \<and> f' = f\<lparr>inFlight := insert slug (inFlight f)\<rparr>"
  "claim slug f = (False, f') \<longleftrightarrow> slug \<in> inFlight f \<and> f' = f"
  by (auto simp: claim_def)

lemma refresher_step_keeps:
  assumes "refresher_step (f, w) (f', w')" "distinct w" "set w = inFlight f" "length (requests f) \<le> request_buffer"
  shows "distinct w' \<and> set w' = inFlight f' \<and> length (requests f') \<le> request_buffer"
  using assms(1)
proof (cases rule: refresher_step.cases)
  case (request failed visit url s)
  with assms(2-4) refreshURL_keeps [OF assms(4)] show ?thesis by simp
next
  case (start slug rest)
  then have "slug \<notin> inFlight f" "f' = f\<lparr>requests := rest, inFlight := insert slug (inFlight f)\<rparr>" "w' = slug # w"
    by (simp_all add: claim_iff)
  moreover have "length rest \<le> request_buffer" using start assms(4) by simp
  ultimately show ?thesis using assms(2,3) by simp
next
  case (skip slug rest)
  then have "f' = f\<lparr>requests := rest\<rparr>" "w' = w" by (simp_all add: claim_iff)
  moreover have "length rest \<le> request_buffer" using skip assms(4) by simp
  ultimately show ?thesis using assms(2,3) by simp
next
  case (finish xs slug ys)
  then have w: "w = xs @ slug # ys" "w' = xs @ ys" "f' = release slug f" by simp_all
  have "slug \<notin> set xs" "slug \<notin> set ys" "distinct (xs @ ys)" using assms(2) unfolding w(1) by simp_all
  moreover have "inFlight f = insert slug (set xs \<union> set ys)" using assms(3) unfolding w(1) by auto
  ultimately show ?thesis using assms(4) unfolding w(2,3) release_def by simp
qed

subsection \<open>Refreshing suppression\<close>

lemma none_ended_trans: "none_ended s t \<Longrightarrow> none_ended t u \<Longrightarrow> none_ended s u"
  unfolding none_ended_def by (erule (1) list_all2_trans [rotated 1]) simp

lemma none_ended_rows: "alert_rows s' = alert_rows s \<Longrightarrow> none_ended s s'"
  by (auto simp: none_ended_def intro: list.rel_refl)

lemma same_columns_key: "same_columns r r' \<Longrightarrow> row_key r' = row_key r"
  unfolding same_columns_def by (drule arg_cong [of _ _ row_key]) (simp add: row_key_def)

lemma refresh_step_none_ended:
  assumes "db_ok s" "env_others env = (\<lambda>n s. s)" "refresh_step env slug now s = (go, s')"
  shows "db_ok s' \<and> none_ended s s'"
proof -
  consider "s' = s"
    | url active s1 where "syncSilences env slug url now s = (active, s1)" "s' = s1"
    | url live active s1 res where "syncSilences env slug url now s = (active, s1)"
        "ReconcileSource slug live {} active now (env_locked env) s1 = Inr (s', res)"
    using assms(2,3)
    by (auto simp: refresh_step_def Let_def split: if_splits option.splits sum.splits prod.splits)
  then show ?thesis
  proof cases
    case 1
    with assms(1) none_ended_rows show ?thesis by simp
  next
    case 2
    with syncSilences_result [OF assms(1) 2(1)] none_ended_rows show ?thesis by simp
  next
    case 3
    note s1 = syncSilences_result [OF assms(1) 3(1)]
    have "none_ended s s'" unfolding none_ended_def s1(2) [symmetric]
      by (rule list_all2_mono [OF reconcile_keeps_rows [OF s1(1) 3(2)]])
        (use same_columns_key in auto)
    with reconcile_result [OF s1(1) 3(2)] show ?thesis by blast
  qed
qed

section \<open>Properties\<close>

text \<open>C7: the two-misses rule. In any run of a reconciler, whatever its passes met and whatever
  other transactions did in between, a pass ends a firing alert only if the alert belongs to the
  source of the pass, the reading of this pass omits it, and the last reading before it omitted it
  as well, both readings being trustworthy and taken while the alert was stored as firing.\<close>

theorem resolves_after_two_misses:
  assumes "db_ok s0" "\<forall>p \<in> set ps. pass_env_ok p"
    "source_run slug ps (newReconciler, s0) [] = ((r, s), history)"
    "env_others env = (\<lambda>n s. s)" "reconcileSource env slug url now (r, s) = (r', s')"
  shows "list_all2 (\<lambda>a a'. Status a = StatusFiring \<and> Status a' \<noteq> StatusFiring \<longrightarrow>
      SourceSlug a = slug \<and>
      (\<exists>h. reading_of env slug url s = Some h \<and> 2 \<le> missed (Fingerprint a) (h # history)))
    (alert_rows s) (alert_rows s')"
proof -
  have "counters_justified slug newReconciler []"
    by (simp add: counters_justified_def counters_of_def newReconciler_def)
  from run_justified [OF assms(3,2,1) this] have ok: "db_ok s" and j: "counters_justified slug r history" by simp_all
  show ?thesis
  proof (cases "reading_of env slug url s")
    case None
    then have "s' = s" using assms(4,5)
      by (auto simp: reading_of_def reconcileSource_def Let_def split: sum.splits if_splits)
    then show ?thesis by (auto intro: list.rel_refl)
  next
    case (Some h)
    then obtain live where rd: "env_live env url = Inr live" "\<not> env_failed env 0" "h = (live, FiringFingerprints slug s)"
      using assms(4) by (auto simp: reading_of_def split: sum.splits if_splits)
    let ?m = "{fp. omits fp h \<and> 1 \<le> count_of (counters_of r slug) fp}"
    obtain active s1 where sy: "syncSilences env slug url now s = (active, s1)" by fastforce
    note s1 = syncSilences_result [OF ok sy]
    obtain c where cm: "count_misses live (FiringFingerprints slug s) (counters_of r slug) = (c, ?m)"
      using count_misses_spec [OF firing_distinct [OF ok]] rd(3) by simp
    have "alert_rows s' = alert_rows s \<or>
        (\<exists>res. ReconcileSource slug live ?m active now (env_locked env) s1 = Inr (s', res))"
      using assms(5) reconcileSource_unfold [OF rd(1,2), of _ slug s now active s1 r c ?m] sy cm s1(2) assms(4)
      by (auto split: sum.splits prod.splits if_splits)
    then show ?thesis
    proof
      assume "\<exists>res. ReconcileSource slug live ?m active now (env_locked env) s1 = Inr (s', res)"
      then obtain res where rc: "ReconcileSource slug live ?m active now (env_locked env) s1 = Inr (s', res)" by blast
      have two: "2 \<le> missed fp (h # history)" if "fp \<in> ?m" for fp
      proof -
        have "count_of (counters_of r slug) fp \<le> missed fp history"
          using j by (auto simp: count_of_def counters_justified_def split: option.splits)
        with that show ?thesis by (simp add: missed_Cons)
      qed
      show ?thesis unfolding s1(2) [symmetric]
        by (rule list_all2_mono [OF reconcile_keeps_rows [OF s1(1) rc]]) (use two Some in \<open>auto\<close>)
    qed (auto intro: list.rel_refl)
  qed
qed

theorem resolves_after_two_misses_witness:
  "\<exists>r' s'. reconcileSource \<lparr>env_live = (\<lambda>u. Inr []), env_silences = (\<lambda>u. Inr []), env_others = (\<lambda>n s. s),
       env_failed = (\<lambda>n. False), env_locked = (\<lambda>i. False)\<rparr> ''prod'' ''http://am'' 300 (newReconciler, sample_db) = (r', s') \<and>
     list_all2 (\<lambda>a a'. Status a = StatusFiring \<longrightarrow> Status a' = StatusFiring) (alert_rows sample_db) (alert_rows s')"
proof -
  let ?e = "\<lparr>env_live = (\<lambda>u. Inr []), env_silences = (\<lambda>u. Inr []), env_others = (\<lambda>n s. s),
       env_failed = (\<lambda>n. False), env_locked = (\<lambda>i. False)\<rparr> :: pass_env"
  obtain r' s' where p: "reconcileSource ?e ''prod'' ''http://am'' 300 (newReconciler, sample_db) = (r', s')" by fastforce
  have "source_run ''prod'' [] (newReconciler, sample_db) [] = ((newReconciler, sample_db), [])" by simp
  from resolves_after_two_misses [OF sample_db_ok _ this _ p]
  have "list_all2 (\<lambda>a a'. Status a = StatusFiring \<and> Status a' \<noteq> StatusFiring \<longrightarrow>
      SourceSlug a = ''prod'' \<and> (\<exists>h. reading_of ?e ''prod'' ''http://am'' sample_db = Some h \<and>
        2 \<le> missed (Fingerprint a) [h])) (alert_rows sample_db) (alert_rows s')" by simp
  then have "list_all2 (\<lambda>a a'. Status a = StatusFiring \<longrightarrow> Status a' = StatusFiring) (alert_rows sample_db) (alert_rows s')"
    by (rule list_all2_mono) (auto simp: missed_def split: if_splits)
  with p show ?thesis by blast
qed

text \<open>Two readings in a row that omit a firing alert end it. When nothing interferes with two
  passes over a source and both readings show something but not the alert, the alert is resolved
  after the second pass, if not after the first.\<close>

theorem two_misses_resolve:
  assumes "db_ok s" "text_ok slug" "a \<in> set (alert_rows s)" "SourceSlug a = slug" "Status a = StatusFiring"
    "calm e1" "env_live e1 url = Inr l1" "reading_texts_ok l1" "l1 \<noteq> []" "Fingerprint a \<notin> live_Fingerprint ` set l1"
    "calm e2" "env_live e2 url = Inr l2" "reading_texts_ok l2" "l2 \<noteq> []" "Fingerprint a \<notin> live_Fingerprint ` set l2"
  shows "\<exists>a' \<in> set (alert_rows (snd (reconcileSource e2 slug url t2 (reconcileSource e1 slug url t1 (r, s))))).
    ID a' = ID a \<and> Status a' = StatusResolved"
proof -
  let ?fp = "Fingerprint a"
  let ?m1 = "{fp. omits fp (l1, FiringFingerprints slug s) \<and> 1 \<le> count_of (counters_of r slug) fp}"
  obtain x1 s1 where p1: "reconcileSource e1 slug url t1 (r, s) =
      (r\<lparr>misses := (misses r)(slug \<mapsto> (\<lambda>fp. if fp \<in> ?m1 \<or> \<not> omits fp (l1, FiringFingerprints slug s) then None
          else Some (count_of (counters_of r slug) fp + 1)))\<rparr>, s1)" (is "_ = (?r1, _)")
    "db_ok s1" "alert_rows s1 = map (\<lambda>q. stamped slug (liveByFingerprint l1) t1
      (settled slug (liveByFingerprint l1) ?m1 x1 t1 (\<lambda>i. False) q)) (alert_rows s)"
    using calm_pass [OF assms(6,1,2,7,8) refl refl] by blast
  let ?m2 = "{fp. omits fp (l2, FiringFingerprints slug s1) \<and> 1 \<le> count_of (counters_of ?r1 slug) fp}"
  obtain r2 x2 s2 where p2: "reconcileSource e2 slug url t2 (?r1, s1) = (r2, s2)"
    "alert_rows s2 = map (\<lambda>q. stamped slug (liveByFingerprint l2) t2
      (settled slug (liveByFingerprint l2) ?m2 x2 t2 (\<lambda>i. False) q)) (alert_rows s1)"
    by (rule calm_pass [OF assms(11) p1(2) assms(2,12,13) refl refl, where now = t2 and r = ?r1]) blast
  have fin: "snd (reconcileSource e2 slug url t2 (reconcileSource e1 slug url t1 (r, s))) = s2"
    unfolding p1(1) p2(1) by (rule snd_conv)
  have lv: "liveByFingerprint l1 ?fp = None" "liveByFingerprint l2 ?fp = None"
    using assms(10,15) by (simp_all add: live_dom)
  let ?a1 = "stamped slug (liveByFingerprint l1) t1 (settled slug (liveByFingerprint l1) ?m1 x1 t1 (\<lambda>i. False) a)"
  have a1: "?a1 \<in> set (alert_rows s1)" using assms(3) p1(3) by auto
  have o1: "omits ?fp (l1, FiringFingerprints slug s)"
    using firing_in [OF assms(3,5)] assms(4,9,10) by (simp add: omits_def trustworthy_def)
  show ?thesis
  proof (cases "?fp \<in> ?m1")
    case True
    then have e: "?a1 = resolve_row t1 a"
      by (rule settled_absent(1) [where a = a and lv = "liveByFingerprint l1" and missing = ?m1, OF assms(4,5) lv(1)])
    have "?a1 \<in> set (alert_rows s2)"
      unfolding p2(2) set_map
    proof (rule image_eqI [OF _ a1])
      show "?a1 = stamped slug (liveByFingerprint l2) t2
          (settled slug (liveByFingerprint l2) ?m2 x2 t2 (\<lambda>i. False) ?a1)"
        by (rule settled_resolved [symmetric]) (simp only: e rows_status)
    qed
    then show ?thesis unfolding fin e by (rule rev_bexI) (simp add: resolve_row_def)
  next
    case False
    then obtain f1: "Status ?a1 = StatusFiring" and k1: "row_key ?a1 = row_key a" and i1: "ID ?a1 = ID a"
      using settled_absent(2) [where a = a and lv = "liveByFingerprint l1" and missing = ?m1, OF assms(4,5) lv(1)] by blast
    have src: "SourceSlug ?a1 = slug" "Fingerprint ?a1 = ?fp" using k1 assms(4) by (simp_all add: row_key_def)
    have "?fp \<in> set (FiringFingerprints slug s1)" using firing_in [OF a1 f1] src by simp
    then have "omits ?fp (l2, FiringFingerprints slug s1)" using assms(14,15) by (simp add: omits_def trustworthy_def)
    moreover have "1 \<le> count_of (counters_of ?r1 slug) ?fp" using False o1 by (simp add: counters_of_def count_of_def)
    ultimately have m2: "Fingerprint ?a1 \<in> ?m2" using src by simp
    have lv2: "liveByFingerprint l2 (Fingerprint ?a1) = None" using lv(2) src(2) by simp
    note eq = settled_absent(1) [where now = t2 and active = x2 and a = ?a1 and lv = "liveByFingerprint l2" and missing = ?m2,
        OF src(1) f1 lv2 m2]
    have "resolve_row t2 ?a1 \<in> set (alert_rows s2)"
      unfolding p2(2) set_map by (rule image_eqI [OF _ a1]) (simp only: eq)
    then show ?thesis unfolding fin by (rule rev_bexI) (simp only: resolve_row_id i1 rows_status simp_thms)
  qed
qed

theorem two_misses_resolve_witness:
  "\<exists>a' \<in> set (alert_rows (snd (reconcileSource sample_env ''prod'' ''http://am'' 400
      (reconcileSource sample_env ''prod'' ''http://am'' 300 (newReconciler, sample_db))))).
    ID a' = 1 \<and> Status a' = StatusResolved"
proof -
  let ?l = "[\<lparr>live_Fingerprint = ''other'', live_Suppressed = False, live_SilencedBy = []\<rparr>]"
  have e: "calm sample_env" "env_live sample_env ''http://am'' = Inr ?l" by (simp_all add: sample_env_def calm_def)
  have l: "reading_texts_ok ?l" by (simp add: reading_texts_ok_def)
  have a: "sample_row \<in> set (alert_rows sample_db)" "SourceSlug sample_row = ''prod''" "Status sample_row = StatusFiring"
    "Fingerprint sample_row \<notin> live_Fingerprint ` set ?l" "text_ok ''prod''"
    by (simp_all add: sample_rows) (simp_all add: sample_row_def)
  from two_misses_resolve [OF sample_db_ok a(5,1-3) e l _ a(4) e l _ a(4)] show ?thesis
    by (simp add: sample_rows)
qed

text \<open>C9: the refresher never runs two refreshes of one source at a time. In every state the loop
  can reach, the refreshes under way are of distinct sources, they are exactly the sources marked
  in flight, so that a source whose refresh ended can be claimed again, and at most 64 requests
  wait.\<close>

theorem refresher_exclusive:
  assumes "refresher_reachable (f, w)"
  shows "distinct w \<and> set w = inFlight f \<and> length (requests f) \<le> request_buffer"
proof -
  have "distinct (snd c) \<and> set (snd c) = inFlight (fst c) \<and> length (requests (fst c)) \<le> request_buffer"
    if "refresher_reachable c" for c
    using that
  proof (induction rule: refresher_reachable.induct)
    case (step c c')
    then show ?case using refresher_step_keeps [of "fst c" "snd c" "fst c'" "snd c'"] by simp
  qed (simp add: newSilenceRefresher_def)
  from this [OF assms] show ?thesis by simp
qed

theorem refresher_exclusive_witness:
  "refresher_reachable (\<lparr>requests = [], inFlight = {''prod''}\<rparr>, [''prod'']) \<and> distinct [''prod'']"
proof -
  have u: "refreshURL False (\<lambda>xs. xs) ''http://am'' sample_db newSilenceRefresher = \<lparr>requests = [''prod''], inFlight = {}\<rparr>"
    by (simp add: refreshURL_def ReconcilableSources_def sample_defs offer_def newSilenceRefresher_def request_buffer_def)
  have "refresher_reachable (\<lparr>requests = [''prod''], inFlight = {}\<rparr>, [])"
    using refresher_reachable.step [OF refresher_reachable.init refresher_step.request] u by metis
  then have "refresher_reachable (\<lparr>requests = [], inFlight = {''prod''}\<rparr>, [''prod''])"
    by (rule refresher_reachable.step) (rule refresher_step.start, simp_all add: claim_def)
  with refresher_exclusive [OF this] show ?thesis by simp
qed

text \<open>The refresh after a silence ends nothing. Whatever the Alertmanager answers, however
  many steps run, and whether or not one of them fails, every alert that was firing still is.\<close>

theorem refresh_ends_nothing:
  assumes "db_ok s" "\<forall>step \<in> set steps. \<forall>env now. step = Some (env, now) \<longrightarrow> env_others env = (\<lambda>n s. s)"
  shows "db_ok (syncSuppression steps slug s) \<and> none_ended s (syncSuppression steps slug s)"
  using assms
proof (induction steps slug s rule: syncSuppression.induct)
  case go: (3 env now steps slug s)
  obtain go s' where st: "refresh_step env slug now s = (go, s')" by fastforce
  have k: "db_ok s' \<and> none_ended s s'" using refresh_step_none_ended [OF go.prems(1) _ st] go.prems(2) by simp
  show ?case
  proof (cases go)
    case True
    from go.IH [OF st [symmetric] _ ] True k go.prems(2) have "db_ok (syncSuppression steps slug s') \<and>
      none_ended s' (syncSuppression steps slug s')" by simp
    with k none_ended_trans True st show ?thesis by auto
  qed (use k st in simp)
qed (simp_all add: none_ended_rows)

theorem refresh_ends_nothing_witness:
  "none_ended sample_db (syncSuppression [Some (sample_env, 300), Some (sample_env, 400)] ''prod'' sample_db)"
  using refresh_ends_nothing [OF sample_db_ok, of "[Some (sample_env, 300), Some (sample_env, 400)]" "''prod''"]
  by (simp add: sample_env_def)

end
