(* ===== verification/Spec2Isabelle.thy ===== *)
theory Spec2Isabelle
  imports Housekeeping Migrations Commands Admin_API Login Event_Stream Silence_API Reconciler
begin

text \<open>
  Verification of promview, a console in Go that stores the alerts Alertmanagers deliver in PostgreSQL,
  shows them to callers within the scope of their grants, and lets operators act on them.

  \<^bold>\<open>The program and how its parts interact.\<close> An Alertmanager posts a delivery to the HTTP API, which
  authenticates the source by its token, decodes and normalises the payload and hands it to the store; the
  store keeps one row per source and fingerprint and announces every change on a stream of events. A
  reconciler reads each Alertmanager from time to time and ends alerts that two readings in a row omit; a
  sweep expires alerts nothing vouches for any more; another prunes the stream. Callers sign in with OIDC,
  LDAP or a local password, get a session, and every request resolves the session to a principal with
  grants. Grants scope what a caller reads and operates on, in SQL for rows and in Go for single labels.
  Callers list, group, follow the stream, acknowledge, assign, close and annotate alerts, and silence
  them in the Alertmanagers.

  \<^bold>\<open>The theories and the code they model\<close> (paths below \<open>src/internal\<close> unless they say otherwise).
  \<^item> \<open>Prelude\<close>: error results, Go's maps and strings, text that PostgreSQL can store. \<open>Alerts_Model\<close>: the types
    of \<open>alerts\<close> with group keys, views and cursor identities. \<open>Samples\<close>: a small database for the witnesses.
  \<^item> \<open>Alertmanager\<close>: \<open>alertmanager\<close>, that is decoding and normalising deliveries, fingerprints, reading alerts and
    silences, creating and deleting silences.
  \<^item> \<open>Authz\<close>: principals, grants and selectors of \<open>auth/authorization.go\<close>. \<open>Access_SQL\<close>: the WHERE conditions of
    \<open>postgres/store.go\<close> and \<open>postgres/view.go\<close> with their placeholders and arguments.
  \<^item> \<open>Store\<close>: the tables as a record with their constraints, stream and history rows. \<open>Sources\<close>, \<open>Ingest\<close>,
    \<open>Detail\<close>, \<open>Operators\<close>, \<open>Listing\<close>, \<open>Grouping\<close>: the operations of \<open>postgres/store.go\<close>, \<open>assign.go\<close>, \<open>close.go\<close>,
    \<open>notes.go\<close>, \<open>bulk.go\<close> and \<open>grouping.go\<close>.
  \<^item> \<open>Sweep\<close>, \<open>Expiry\<close>, \<open>Retention\<close>: the batched sweeps of \<open>expiry.go\<close> and \<open>stream_retention.go\<close>.
  \<^item> \<open>Silence_Records\<close>, \<open>Silence_Scope\<close>: \<open>silence_sync.go\<close> and \<open>silence.go\<close>. \<open>Reconcile\<close>: \<open>reconcile.go\<close>.
    \<open>Reconciler\<close>: the passes and the refresh loop of \<open>cmd/promview\<close>.
  \<^item> \<open>Accounts\<close>, \<open>View_Groups\<close>, \<open>Preferences\<close>: role bindings, identities and principals, view groups,
    preferences, in \<open>postgres\<close> and in \<open>preferences\<close>.
  \<^item> \<open>Sessions\<close>, \<open>Passwords\<close>, \<open>Local_Accounts\<close>, \<open>Limiter\<close>, \<open>Directories\<close>, \<open>Login\<close>: \<open>auth\<close> with its tables: sessions,
    OIDC transactions, desktop codes, password hashes, local accounts and their backoff, token buckets,
    LDAP and the OIDC exchange, and the routes that tie them together.
  \<^item> \<open>Http\<close>, \<open>Alert_API\<close>, \<open>Query_API\<close>, \<open>Event_Stream\<close>, \<open>Silence_API\<close>, \<open>Admin_API\<close>: \<open>httpapi\<close>, a handler being a function from the
    request and the state to the state and the reply.
  \<^item> \<open>Configuration\<close>: \<open>config\<close>, reading the environment and refusing what would leave credentials unprotected.
  \<^item> \<open>Migrations\<close>: the migration runner of \<open>postgres/migrate.go\<close> and the check before serving. \<open>Commands\<close>: the \<open>access\<close>, \<open>source\<close>,
    \<open>view-group\<close> and \<open>user\<close> commands of \<open>cmd/promview\<close>. \<open>Metrics\<close>: \<open>metrics\<close> and the counting wrappers of \<open>instrumented.go\<close>.
    \<open>Housekeeping\<close>: the pruning and expiry loops of \<open>cmd/promview/main.go\<close>.

  \<^bold>\<open>How state and operations correspond.\<close> A table is a list of rows in a record, a transaction a function that
  returns the new state or an error and commits nothing on an error. Transactions run one at a time, which the row and advisory locks
  the code takes give for those on one alert, with these exceptions: the transactions on role bindings take a state per statement and
  \<open>overlap_step\<close> interleaves them, since they count without a lock; a batch of the stream takes a state for each of its two statements; a
  reconciler's pass takes a state for each of its transactions; the sweeps skip the rows others hold locked, but between two of their
  batches nobody else commits. Every early return is a branch. Integers are unbounded where the
  code's ranges make overflow impossible and are 64-bit words or wrapped explicitly where they do not
  (silence windows, parsed numbers, retry counters). Instants are integers of microseconds since Go's zero time.

  \<^bold>\<open>Parameters.\<close> Code outside this repository is an argument of the definitions that use it: the regular
  expression engines of Go and of PostgreSQL, SHA-256 and the cursor digest, PBKDF2, URL parsing, JSON in both
  directions, the collation's sort keys, the formatting and parsing of times, row locks held by others, the
  HTTP clients of Alertmanagers, the LDAP server and library, the OIDC provider, random tokens, rounding to
  double precision, clocks. Where a theorem needs something of them it is a named hypothesis
  (\<open>times_exact\<close>, \<open>cursor_codec_ok\<close>, \<open>rounding\<close> and the like) and a witness instantiates it. Nothing is assumed of the two regular
  expression engines agreeing: where it matters, the theorems say that a difference comes from a pattern they decide differently
  (\<open>disputed\<close>, \<open>engines_differ\<close>).

  \<^bold>\<open>What the lemmas show.\<close> Every operation of the store keeps the tables' constraints (\<open>db_ok\<close>, \<open>accounts_ok\<close>,
  \<open>auth_ok\<close>); ingesting refines an abstract lifecycle (\<open>deliver\<close>, written without the functions of the store), reconciling an abstract
  settlement, bulk actions an account of what each id becomes, and syncing silences the listing of the Alertmanager; operator actions,
  silences and the stream stay within the caller's scope; the scope in SQL and in Go agree but for patterns the engines decide
  differently; paging, over the store and over HTTP, returns every alert once unless it is by severity over an empty severity label;
  every id a stream passes is announced, decided, or missing when its rows were read, and which rounds can miss one;
  the sweeps end and do what they say; a one-time code is redeemed once; sign-in
  refusals look alike; the last administrator cannot be removed by transactions on bindings that run one at a time, and can by two
  that overlap; a configuration that loads protects credentials; the shell and the HTTP API store the same bindings; sweeping the
  sign-in limiter changes no answer; migrations run once each, in order, and resume after any interruption but
  one, within the baseline of a legacy schema.

  \<^bold>\<open>Interfaces.\<close> \<open>scoped_access\<close> is what callers of an access decision rely on, interpreted by the Go functions and
  by the SQL conditions; \<open>batch_sweep\<close> carries the loop of both sweeps; \<open>alert_change\<close> is the contract of a single
  action that the bulk operations iterate, and \<open>exact_change\<close> extends it by what the action makes of an alert; \<open>one_time\<close> is the contract of codes and transactions;
  \<open>credential_verifier\<close> is what the login handler relies on, interpreted by local accounts and by LDAP.

  \<^bold>\<open>Loops and fuel.\<close> Sweeps are partial functions that are proved to return, since each full batch takes
  rows away; reading page by page takes a number of pages, proved to be enough once it exceeds the number of rows.
  The refresh loop is a step relation and the stream a run of rounds, since both may go on for ever. A run of
  the migrations is on a connection that answers so many statements; eighteen and two for each migration are enough.

  \<^bold>\<open>Not modelled.\<close> The registry of metrics and its text format, and the counting calls inside handlers and the reconciler,
  which have no effect on the state; log lines; the SQL of the migrations, whose schema is reflected in the
  constraints of the tables; building the handlers, listening and shutdown; the parsing of flags and the
  formatting of what commands print; dialling, TLS and provider discovery; attributes of cookies and other
  headers of replies; static files and routing patterns. The counters behind
  ids are rolled back with a transaction, so the tables the operations build have no gaps and no later id before an earlier one; the
  theorem on the stream does not assume this of the states its rounds read. Instants are cut to microseconds.
\<close>

end
